(* ===== verification/Prelude.thy ===== *)
theory Prelude
  imports Complex_Main "HOL-Library.Multiset" "HOL-Library.Signed_Division"
begin

text \<open>
  What the component theories share: instants and durations of the Go program, its 64-bit
  integers, and the generic facts on lists and maps their proofs use.

  A Go \<open>time.Time\<close> is an \<open>int\<close>: nanoseconds since the zero \<open>time.Time\<close>, so \<open>IsZero\<close> is
  equality with 0 and \<open>Before\<close>, \<open>After\<close>, \<open>Add\<close> and \<open>Sub\<close> are the order and the arithmetic of
  \<open>int\<close>. A \<open>time.Duration\<close> is an \<open>int\<close> of nanoseconds. Where the width of the machine integer
  matters the wrap-around is written out with \<open>wrap64\<close>.
\<close>

section \<open>Time\<close>

type_synonym instant = int

type_synonym duration = int

abbreviation (input) is_zero :: "instant \<Rightarrow> bool" where
  "is_zero t \<equiv> t = 0"

abbreviation seconds :: "int \<Rightarrow> duration" where
  "seconds n \<equiv> n * 1000000000"

abbreviation minutes :: "int \<Rightarrow> duration" where
  "minutes n \<equiv> n * 60000000000"

abbreviation hours :: "int \<Rightarrow> duration" where
  "hours n \<equiv> n * 3600000000000"

text \<open>\<open>Time.Unix()\<close> and \<open>time.Unix(n, 0)\<close>: seconds since 1970, which is so many seconds after the zero time.\<close>

definition Unix :: "instant \<Rightarrow> int" where
  "Unix t = t div 1000000000 - 62135596800"

definition of_Unix :: "int \<Rightarrow> instant" where
  "of_Unix n = seconds (n + 62135596800)"

lemma Unix_of_Unix [simp]: "Unix (of_Unix n) = n"
  by (simp add: Unix_def of_Unix_def)

section \<open>Machine integers\<close>

text \<open>The value a signed 64-bit variable holds after an operation whose exact result is \<open>n\<close>.\<close>

definition wrap64 :: "int \<Rightarrow> int" where
  "wrap64 n = signed_take_bit 63 n"

definition fits64 :: "int \<Rightarrow> bool" where
  "fits64 n \<longleftrightarrow> - (2 ^ 63) \<le> n \<and> n < 2 ^ 63"

lemma wrap64_id [simp]: "fits64 n \<Longrightarrow> wrap64 n = n"
  by (simp add: wrap64_def fits64_def signed_take_bit_int_eq_self)

lemma fits64_wrap64 [simp]: "fits64 (wrap64 n)"
  unfolding fits64_def wrap64_def
  using signed_take_bit_int_greater_eq_minus_exp [of 63 n] signed_take_bit_int_less_exp [of 63 n]
  by simp

section \<open>Lists and maps\<close>

lemma filter_filter_le:
  "(\<And>x. Q x \<Longrightarrow> P x) \<Longrightarrow> filter Q (filter P xs) = filter Q xs"
  by (induction xs) auto

lemma map_of_restrict_lookup [simp]: "x \<notin> A \<Longrightarrow> (m |` A) x = None"
  by (simp add: restrict_map_def)

lemma card_dom_restrict_le:
  assumes "finite A" shows "card (dom (m |` A)) \<le> card A"
proof -
  have "dom (m |` A) \<subseteq> A" by auto
  with assms show ?thesis by (simp add: card_mono)
qed

lemma map_eqI:
  assumes "\<And>i y. m i = Some y \<longleftrightarrow> n i = Some y" shows "m = n"
proof
  fix i show "m i = n i" by (metis assms not_Some_eq)
qed

lemma distinct_map_delete:
  assumes "distinct (map f (xs @ j # ys))"
  shows "distinct (map f (xs @ ys))" "f ` set (xs @ ys) = f ` set (xs @ j # ys) - {f j}"
proof -
  show "distinct (map f (xs @ ys))" using assms by simp
  have "f j \<notin> f ` set (xs @ ys)" using assms by auto
  then show "f ` set (xs @ ys) = f ` set (xs @ j # ys) - {f j}" by auto
qed

lemma distinct_map_sort_key [simp]: "distinct (map f (sort_key g xs)) \<longleftrightarrow> distinct (map f xs)"
  by (simp add: distinct_map)

end
