(* ===== verification/StateEngine.thy ===== *)
theory StateEngine
  imports Prelude
begin

text \<open>
  The state engine (\<open>internal/state/engine.go\<close>): one \<open>monitorState\<close> per monitor, advanced by
  one check result at a time. The mutex of the engine makes every operation atomic, so each is
  a function from the engine to the engine. The methods that change a \<open>*monitorState\<close> and a
  \<open>*Transition\<close> in place take and return the pair of the two records.
\<close>

section \<open>Statuses, events and records\<close>

datatype status =
    StatusUnknown
  | StatusUp
  | StatusWarning
  | StatusDown
  | StatusRecovering
  | StatusExpiring

definition Confirmed :: "status \<Rightarrow> bool" where
  "Confirmed s \<longleftrightarrow> s = StatusDown \<or> s = StatusRecovering"

definition Failing :: "status \<Rightarrow> bool" where
  "Failing s \<longleftrightarrow> s = StatusWarning \<or> Confirmed s"

datatype event =
    EventNone
  | EventIncidentOpened
  | EventIncidentConfirmed
  | EventIncidentReminder
  | EventIncidentResolved

record observation =
  o_MonitorID :: int
  o_OK :: bool
  o_At :: instant
  o_Kind :: string
  o_Error :: string
  o_Expiring :: bool
  o_FailureThreshold :: int
  o_RecoveryThreshold :: int
  o_LocalNetwork :: bool
  o_LocalDNS :: bool

definition CauseLocalNetwork :: string where
  "CauseLocalNetwork = ''local_network''"

definition CauseLocalDNS :: string where
  "CauseLocalDNS = ''local_dns''"

record transition =
  t_MonitorID :: int
  t_From :: status
  t_To :: status
  t_Event :: event
  t_At :: instant
  t_ConsecutiveFails :: int
  t_ConsecutiveOKs :: int
  t_RecoveryThreshold :: int
  t_RecoveredAt :: instant
  t_SnapshotsSpent :: int
  t_Notify :: bool
  t_Suppressed :: bool
  t_Flapping :: bool
  t_FlappingChanged :: bool
  t_Cause :: string
  t_Error :: string
  t_Notice :: bool
  t_Replaces :: bool
  t_StartedAt :: instant

text \<open>A zero \<open>Transition\<close>, for the fields a composite literal leaves out.\<close>

definition zero_transition :: transition where
  "zero_transition = \<lparr>t_MonitorID = 0, t_From = StatusUnknown, t_To = StatusUnknown,
     t_Event = EventNone, t_At = 0, t_ConsecutiveFails = 0, t_ConsecutiveOKs = 0,
     t_RecoveryThreshold = 0, t_RecoveredAt = 0, t_SnapshotsSpent = 0, t_Notify = False,
     t_Suppressed = False, t_Flapping = False, t_FlappingChanged = False, t_Cause = [],
     t_Error = [], t_Notice = False, t_Replaces = False, t_StartedAt = 0\<rparr>"

record monitorState =
  ms_status :: status
  ms_consecutiveFails :: int
  ms_consecutiveOKs :: int
  ms_recoveringSince :: instant
  ms_recoveryThreshold :: int
  ms_snapshotsSpent :: int
  ms_incidentOpen :: bool
  ms_incidentConfirmed :: bool
  ms_notice :: bool
  ms_failingSince :: instant
  ms_changes :: "instant list"
  ms_flapping :: bool

definition zero_monitorState :: "status \<Rightarrow> monitorState" where
  "zero_monitorState s = \<lparr>ms_status = s, ms_consecutiveFails = 0, ms_consecutiveOKs = 0,
     ms_recoveringSince = 0, ms_recoveryThreshold = 0, ms_snapshotsSpent = 0,
     ms_incidentOpen = False, ms_incidentConfirmed = False, ms_notice = False,
     ms_failingSince = 0, ms_changes = [], ms_flapping = False\<rparr>"

record options =
  opt_FlapWindow :: duration
  opt_FlapThreshold :: int

record engine =
  e_state :: "int \<rightharpoonup> monitorState"
  e_flapWindow :: duration
  e_flapThreshold :: int

definition new_engine :: "options \<Rightarrow> engine" where
  "new_engine opts = \<lparr>e_state = Map.empty,
     e_flapWindow = (if opt_FlapWindow opts \<le> 0 then minutes 10 else opt_FlapWindow opts),
     e_flapThreshold = (if opt_FlapThreshold opts \<le> 0 then 5 else opt_FlapThreshold opts)\<rparr>"

section \<open>Observing one result\<close>

definition recordChange :: "instant \<Rightarrow> duration \<Rightarrow> monitorState \<Rightarrow> monitorState" where
  "recordChange now window ms =
     ms\<lparr>ms_changes := filter (\<lambda>c. now - window < c) (ms_changes ms) @ [now]\<rparr>"

definition observeFailure ::
  "engine \<Rightarrow> observation \<Rightarrow> monitorState \<times> transition \<Rightarrow> monitorState \<times> transition" where
  "observeFailure e ob = (\<lambda>(ms0, t).
     let ms = ms0\<lparr>ms_consecutiveFails := ms_consecutiveFails ms0 + 1\<rparr> in
     if ms_status ms = StatusRecovering then
       (ms\<lparr>ms_consecutiveOKs := 0, ms_recoveringSince := 0, ms_status := StatusDown\<rparr>,
        t\<lparr>t_To := StatusDown\<rparr>)
     else if ms_status ms = StatusDown then (ms, t)
     else if ms_notice ms \<and> o_FailureThreshold ob \<le> ms_consecutiveFails ms then
       (recordChange (t_At t) (e_flapWindow e)
          (ms\<lparr>ms_notice := False, ms_failingSince := 0, ms_incidentOpen := True,
              ms_incidentConfirmed := True, ms_status := StatusDown\<rparr>),
        t\<lparr>t_Replaces := True,
          t_StartedAt := (if is_zero (ms_failingSince ms) then t_At t else ms_failingSince ms),
          t_To := StatusDown, t_Event := EventIncidentConfirmed, t_Notify := True\<rparr>)
     else if ms_notice ms then
       (ms\<lparr>ms_failingSince := (if is_zero (ms_failingSince ms) then t_At t else ms_failingSince ms),
           ms_status := StatusWarning\<rparr>,
        t\<lparr>t_To := StatusWarning\<rparr>)
     else if o_FailureThreshold ob \<le> ms_consecutiveFails ms then
       (recordChange (t_At t) (e_flapWindow e)
          (ms\<lparr>ms_incidentOpen := True, ms_incidentConfirmed := True, ms_status := StatusDown\<rparr>),
        t\<lparr>t_To := StatusDown, t_Event := EventIncidentConfirmed, t_Notify := True\<rparr>)
     else
       (ms\<lparr>ms_incidentOpen := True, ms_status := StatusWarning\<rparr>,
        (if ms_incidentOpen ms then t else t\<lparr>t_Event := EventIncidentOpened\<rparr>)
          \<lparr>t_To := StatusWarning\<rparr>))"

definition observeLocalNetwork ::
  "bool \<Rightarrow> monitorState \<times> transition \<Rightarrow> monitorState \<times> transition" where
  "observeLocalNetwork dns = (\<lambda>(ms, t).
     (ms\<lparr>ms_status := StatusWarning\<rparr>,
      t\<lparr>t_To := StatusWarning,
        t_Cause := (if dns then CauseLocalDNS else CauseLocalNetwork)\<rparr>))"

text \<open>
  \<open>observeSuccess\<close>: the streak of a confirmed outage is advanced first, with an early return
  while it is short of the threshold; the rest closes whatever incident is open.
\<close>

definition closeIncident ::
  "engine \<Rightarrow> monitorState \<times> transition \<Rightarrow> monitorState \<times> transition" where
  "closeIncident e = (\<lambda>(ms1, t1).
     let t = t1\<lparr>t_RecoveredAt :=
               (if is_zero (ms_recoveringSince ms1) then t_At t1 else ms_recoveringSince ms1)\<rparr>;
         ms = ms1\<lparr>ms_consecutiveOKs := 0, ms_recoveringSince := 0, ms_snapshotsSpent := 0\<rparr>
     in if \<not> ms_incidentOpen ms then
          (if ms_status ms \<noteq> StatusUp
           then (ms\<lparr>ms_status := StatusUp\<rparr>, t\<lparr>t_RecoveredAt := 0, t_To := StatusUp\<rparr>)
           else (ms, t\<lparr>t_RecoveredAt := 0\<rparr>))
        else
          let wasConfirmed = ms_incidentConfirmed ms;
              wasNotice = ms_notice ms;
              ms' = ms\<lparr>ms_incidentOpen := False, ms_incidentConfirmed := False,
                       ms_notice := False, ms_failingSince := 0, ms_status := StatusUp\<rparr>;
              t' = t\<lparr>t_To := StatusUp, t_Event := EventIncidentResolved, t_Notice := wasNotice\<rparr>
          in if wasConfirmed then
               ((if wasNotice then ms' else recordChange (t_At t') (e_flapWindow e) ms'),
                t'\<lparr>t_Notify := True\<rparr>)
             else (ms', t'))"

definition observeSuccess ::
  "engine \<Rightarrow> observation \<Rightarrow> monitorState \<times> transition \<Rightarrow> monitorState \<times> transition" where
  "observeSuccess e ob = (\<lambda>(ms0, t).
     let ms = ms0\<lparr>ms_consecutiveFails := 0\<rparr> in
     if ms_incidentOpen ms \<and> ms_incidentConfirmed ms \<and> \<not> ms_notice ms then
       let ms1 = ms\<lparr>ms_recoveringSince :=
                     (if ms_consecutiveOKs ms = 0 then t_At t else ms_recoveringSince ms),
                    ms_consecutiveOKs := ms_consecutiveOKs ms + 1\<rparr>
       in if ms_consecutiveOKs ms1 < o_RecoveryThreshold ob then
            (ms1\<lparr>ms_recoveryThreshold := o_RecoveryThreshold ob, ms_status := StatusRecovering\<rparr>,
             t\<lparr>t_To := StatusRecovering, t_RecoveryThreshold := o_RecoveryThreshold ob\<rparr>)
          else closeIncident e (ms1, t)
     else closeIncident e (ms, t))"

definition observeExpiring ::
  "engine \<Rightarrow> observation \<Rightarrow> monitorState \<times> transition \<Rightarrow> monitorState \<times> transition" where
  "observeExpiring e ob = (\<lambda>(ms, t).
     if ms_notice ms then
       (ms\<lparr>ms_consecutiveFails := 0, ms_failingSince := 0, ms_status := StatusExpiring\<rparr>,
        t\<lparr>t_To := StatusExpiring\<rparr>)
     else if ms_incidentOpen ms then observeSuccess e ob (ms, t)
     else
       (ms\<lparr>ms_consecutiveFails := 0, ms_snapshotsSpent := 0, ms_incidentOpen := True,
           ms_incidentConfirmed := True, ms_notice := True, ms_status := StatusExpiring\<rparr>,
        t\<lparr>t_To := StatusExpiring, t_Event := EventIncidentConfirmed, t_Notify := True\<rparr>))"

definition applyFlapping ::
  "engine \<Rightarrow> monitorState \<times> transition \<Rightarrow> monitorState \<times> transition" where
  "applyFlapping e = (\<lambda>(ms0, t0).
     let ms = ms0\<lparr>ms_changes := filter (\<lambda>c. t_At t0 - e_flapWindow e < c) (ms_changes ms0)\<rparr>;
         flappingNow = (e_flapThreshold e \<le> int (length (ms_changes ms)));
         t = t0\<lparr>t_Flapping := flappingNow, t_FlappingChanged := (flappingNow \<noteq> ms_flapping ms)\<rparr>
     in if flappingNow \<and> \<not> ms_flapping ms then
          (ms\<lparr>ms_flapping := True\<rparr>, t\<lparr>t_Notify := True, t_Suppressed := False\<rparr>)
        else if \<not> flappingNow \<and> ms_flapping ms then
          (ms\<lparr>ms_flapping := False\<rparr>,
           t\<lparr>t_Notify := (t_Notify t \<or> (t_To t \<noteq> StatusWarning \<and> t_From t \<noteq> StatusWarning))\<rparr>)
        else if flappingNow \<and> ms_flapping ms then
          (ms, if t_Notify t then t\<lparr>t_Notify := False, t_Suppressed := True\<rparr> else t)
        else (ms, t))"

text \<open>The defaults \<open>Observe\<close> fills in before it takes the lock; \<open>now\<close> is what \<open>e.now()\<close> reads.\<close>

definition normalise :: "instant \<Rightarrow> observation \<Rightarrow> observation" where
  "normalise now ob = ob\<lparr>
     o_At := (if is_zero (o_At ob) then now else o_At ob),
     o_FailureThreshold := (if o_FailureThreshold ob \<le> 0 then 1 else o_FailureThreshold ob),
     o_RecoveryThreshold := (if o_RecoveryThreshold ob \<le> 0 then 1 else o_RecoveryThreshold ob)\<rparr>"

definition lookup_ms :: "engine \<Rightarrow> int \<Rightarrow> monitorState" where
  "lookup_ms e i = (case e_state e i of None \<Rightarrow> zero_monitorState StatusUnknown | Some ms \<Rightarrow> ms)"

definition decide ::
  "engine \<Rightarrow> observation \<Rightarrow> monitorState \<times> transition \<Rightarrow> monitorState \<times> transition" where
  "decide e ob = (\<lambda>(ms, t).
     if o_OK ob \<and> o_Expiring ob then observeExpiring e ob (ms, t)
     else if o_OK ob then observeSuccess e ob (ms, t)
     else if o_LocalNetwork ob \<and> \<not> Confirmed (ms_status ms)
          then observeLocalNetwork (o_LocalDNS ob) (ms, t)
     else observeFailure e ob (ms, t))"

definition report :: "monitorState \<times> transition \<Rightarrow> monitorState \<times> transition" where
  "report = (\<lambda>(ms, t). (ms, t\<lparr>t_ConsecutiveFails := ms_consecutiveFails ms,
     t_ConsecutiveOKs := ms_consecutiveOKs ms, t_SnapshotsSpent := ms_snapshotsSpent ms,
     t_Notice := (t_Notice t \<or> ms_notice ms)\<rparr>))"

definition start_transition :: "observation \<Rightarrow> monitorState \<Rightarrow> transition" where
  "start_transition ob ms =
     zero_transition\<lparr>t_MonitorID := o_MonitorID ob, t_From := ms_status ms, t_To := ms_status ms,
       t_At := o_At ob, t_Cause := o_Kind ob, t_Error := o_Error ob\<rparr>"

text \<open>What \<open>Observe\<close> does to the state of one monitor, on a normalised observation.\<close>

definition observe_ms ::
  "engine \<Rightarrow> observation \<Rightarrow> monitorState \<Rightarrow> monitorState \<times> transition" where
  "observe_ms e ob ms = applyFlapping e (report (decide e ob (ms, start_transition ob ms)))"

definition Observe :: "instant \<Rightarrow> engine \<Rightarrow> observation \<Rightarrow> engine \<times> transition" where
  "Observe now e ob0 =
     (let ob = normalise now ob0;
          (ms, t) = observe_ms e ob (lookup_ms e (o_MonitorID ob))
      in (e\<lparr>e_state := (e_state e)(o_MonitorID ob \<mapsto> ms)\<rparr>, t))"

text \<open>A sequence of results, in the order the mutex lets them in.\<close>

fun observe_all :: "instant \<Rightarrow> engine \<Rightarrow> observation list \<Rightarrow> engine \<times> transition list" where
  "observe_all now e [] = (e, [])"
| "observe_all now e (ob # obs) =
     (let (e', t) = Observe now e ob; (e'', ts) = observe_all now e' obs in (e'', t # ts))"

declare observe_all.simps(2) [simp del]

section \<open>The other operations\<close>

definition WouldConfirm :: "engine \<Rightarrow> int \<Rightarrow> int \<Rightarrow> bool" where
  "WouldConfirm e monitorID failureThreshold =
     (let thr = (if failureThreshold \<le> 0 then 1 else failureThreshold) in
      case e_state e monitorID of
        None \<Rightarrow> thr = 1
      | Some ms \<Rightarrow> \<not> Confirmed (ms_status ms) \<and> thr \<le> ms_consecutiveFails ms + 1)"

definition Status :: "engine \<Rightarrow> int \<Rightarrow> status" where
  "Status e monitorID = (case e_state e monitorID of None \<Rightarrow> StatusUnknown | Some ms \<Rightarrow> ms_status ms)"

definition Recovery :: "engine \<Rightarrow> int \<Rightarrow> int \<times> int \<times> bool" where
  "Recovery e monitorID = (case e_state e monitorID of
     None \<Rightarrow> (0, 0, False)
   | Some ms \<Rightarrow> if ms_status ms \<noteq> StatusRecovering then (0, 0, False)
                else (ms_consecutiveOKs ms, ms_recoveryThreshold ms, True))"

definition Flapping :: "engine \<Rightarrow> int \<Rightarrow> bool" where
  "Flapping e monitorID = (case e_state e monitorID of None \<Rightarrow> False | Some ms \<Rightarrow> ms_flapping ms)"

definition Forget :: "int \<Rightarrow> engine \<Rightarrow> engine" where
  "Forget monitorID e = e\<lparr>e_state := (e_state e)(monitorID := None)\<rparr>"

definition Retain :: "int set \<Rightarrow> engine \<Rightarrow> engine" where
  "Retain live e = e\<lparr>e_state := (e_state e) |` live\<rparr>"

definition SpendSnapshot :: "int \<Rightarrow> engine \<Rightarrow> engine \<times> int" where
  "SpendSnapshot monitorID e = (case e_state e monitorID of
     None \<Rightarrow> (e, 0)
   | Some ms \<Rightarrow>
       let ms' = ms\<lparr>ms_snapshotsSpent := ms_snapshotsSpent ms + 1\<rparr>
       in (e\<lparr>e_state := (e_state e)(monitorID \<mapsto> ms')\<rparr>, ms_snapshotsSpent ms'))"

definition Len :: "engine \<Rightarrow> nat" where
  "Len e = card (dom (e_state e))"

record restoredState =
  rs_Status :: status
  rs_IncidentOpen :: bool
  rs_IncidentConfirmed :: bool
  rs_ConsecutiveFails :: int
  rs_SnapshotsSpent :: int
  rs_Notice :: bool
  rs_FailingSince :: instant

definition restore_ms :: "restoredState \<Rightarrow> monitorState" where
  "restore_ms rs =
     (let fails = (if rs_ConsecutiveFails rs < 0 then 0 else rs_ConsecutiveFails rs);
          spent = (if rs_SnapshotsSpent rs < 0 then 0 else rs_SnapshotsSpent rs);
          st = (if rs_Status rs = StatusRecovering then StatusDown else rs_Status rs);
          notice = (rs_Notice rs \<and> rs_IncidentOpen rs \<and> rs_IncidentConfirmed rs)
      in (zero_monitorState st)
           \<lparr>ms_incidentOpen := rs_IncidentOpen rs, ms_incidentConfirmed := rs_IncidentConfirmed rs,
            ms_consecutiveFails := fails, ms_snapshotsSpent := spent, ms_notice := notice,
            ms_failingSince := (if notice \<and> 0 < fails then rs_FailingSince rs else 0)\<rparr>)"

definition Restore :: "int \<Rightarrow> restoredState \<Rightarrow> engine \<Rightarrow> engine" where
  "Restore monitorID rs e = e\<lparr>e_state := (e_state e)(monitorID \<mapsto> restore_ms rs)\<rparr>"

end
