(* ===== verification/EngineInvariant.thy ===== *)
theory EngineInvariant
  imports StateEngine
begin

text \<open>
  The invariant of the state engine, its reachable states, and the refinement of its transitions
  to the lifecycle of an incident that the persistence layer follows.
\<close>

section \<open>The invariant of one monitor\<close>

text \<open>
  Which flags go with which status. A \<open>Warning\<close> is the only status that does not decide them: it
  is a failure with no incident (the host's own network), with an unconfirmed one, or counted
  against an open certificate notice.
\<close>

fun flags_ok :: "status \<Rightarrow> bool \<Rightarrow> bool \<Rightarrow> bool \<Rightarrow> bool" where
  "flags_ok StatusUnknown iopen conf note \<longleftrightarrow> \<not> iopen \<and> \<not> conf \<and> \<not> note"
| "flags_ok StatusUp iopen conf note \<longleftrightarrow> \<not> iopen \<and> \<not> conf \<and> \<not> note"
| "flags_ok StatusWarning iopen conf note \<longleftrightarrow> (conf \<longrightarrow> iopen) \<and> (note \<longleftrightarrow> conf)"
| "flags_ok StatusDown iopen conf note \<longleftrightarrow> iopen \<and> conf \<and> \<not> note"
| "flags_ok StatusRecovering iopen conf note \<longleftrightarrow> iopen \<and> conf \<and> \<not> note"
| "flags_ok StatusExpiring iopen conf note \<longleftrightarrow> iopen \<and> conf \<and> note"

definition core_ok :: "monitorState \<Rightarrow> bool" where
  "core_ok ms \<longleftrightarrow>
     flags_ok (ms_status ms) (ms_incidentOpen ms) (ms_incidentConfirmed ms) (ms_notice ms) \<and>
     0 \<le> ms_consecutiveFails ms \<and> 0 \<le> ms_snapshotsSpent ms \<and>
     (if ms_status ms = StatusRecovering
      then 0 < ms_consecutiveOKs ms \<and> ms_consecutiveOKs ms < ms_recoveryThreshold ms \<and>
           ms_consecutiveFails ms = 0
      else ms_consecutiveOKs ms = 0 \<and> ms_recoveringSince ms = 0) \<and>
     (ms_status ms \<in> {StatusUnknown, StatusUp, StatusExpiring} \<longrightarrow> ms_consecutiveFails ms = 0) \<and>
     (ms_failingSince ms \<noteq> 0 \<longrightarrow> ms_notice ms \<and> 0 < ms_consecutiveFails ms)"

definition flap_ok :: "int \<Rightarrow> monitorState \<Rightarrow> bool" where
  "flap_ok thr ms \<longleftrightarrow> ms_flapping ms = (thr \<le> int (length (ms_changes ms)))"

lemma core_ok_observeFailure:
  "core_ok ms \<Longrightarrow> core_ok (fst (observeFailure e ob (ms, t)))"
  by (cases "ms_status ms"; simp add: core_ok_def observeFailure_def recordChange_def Let_def; auto)

lemma core_ok_observeLocalNetwork:
  "core_ok ms \<Longrightarrow> \<not> Confirmed (ms_status ms) \<Longrightarrow> core_ok (fst (observeLocalNetwork dns (ms, t)))"
  by (cases "ms_status ms"; simp add: core_ok_def observeLocalNetwork_def Confirmed_def; auto)

lemma core_ok_observeSuccess:
  "core_ok ms \<Longrightarrow> core_ok (fst (observeSuccess e ob (ms, t)))"
  by (cases "ms_status ms"; simp add: core_ok_def observeSuccess_def closeIncident_def recordChange_def Let_def; auto)

lemma core_ok_observeExpiring:
  "core_ok ms \<Longrightarrow> core_ok (fst (observeExpiring e ob (ms, t)))"
  using core_ok_observeSuccess [of ms e ob t]
  by (cases "ms_status ms"; simp add: core_ok_def observeExpiring_def Let_def; auto)

lemma core_ok_decide:
  "core_ok ms \<Longrightarrow> core_ok (fst (decide e ob (ms, t)))"
  by (simp add: decide_def core_ok_observeFailure core_ok_observeLocalNetwork
      core_ok_observeSuccess core_ok_observeExpiring)

lemma core_ok_flap_fields [simp]:
  "core_ok (ms\<lparr>ms_changes := c\<rparr>) = core_ok ms"
  "core_ok (ms\<lparr>ms_flapping := b\<rparr>) = core_ok ms"
  "core_ok (ms\<lparr>ms_changes := c, ms_flapping := b\<rparr>) = core_ok ms"
  by (simp_all add: core_ok_def)

lemma core_ok_applyFlapping:
  "core_ok ms \<Longrightarrow> core_ok (fst (applyFlapping e (ms, t)))"
  by (simp add: applyFlapping_def Let_def)

lemma flap_ok_applyFlapping: "flap_ok (e_flapThreshold e) (fst (applyFlapping e mt))"
  by (cases mt) (simp add: applyFlapping_def Let_def flap_ok_def)

lemma fst_report [simp]: "fst (report mt) = fst mt"
  by (simp add: report_def split: prod.split)

lemma wf_observe_ms:
  assumes "core_ok ms"
  shows "core_ok (fst (observe_ms e ob ms)) \<and>
         flap_ok (e_flapThreshold e) (fst (observe_ms e ob ms))"
proof -
  define mt where "mt = report (decide e ob (ms, start_transition ob ms))"
  have "core_ok (fst mt)" unfolding mt_def by (simp add: core_ok_decide assms)
  then have "core_ok (fst (applyFlapping e mt))"
    by (cases mt) (simp add: core_ok_applyFlapping)
  then show ?thesis
    unfolding observe_ms_def mt_def [symmetric] by (simp add: flap_ok_applyFlapping)
qed

lemma core_ok_zero: "s = StatusUnknown \<or> s = StatusUp \<Longrightarrow> core_ok (zero_monitorState s)"
  by (auto simp: core_ok_def zero_monitorState_def)

definition restored_status :: "restoredState \<Rightarrow> status" where
  "restored_status rs = (if rs_Status rs = StatusRecovering then StatusDown else rs_Status rs)"

definition restorable :: "restoredState \<Rightarrow> bool" where
  "restorable rs \<longleftrightarrow>
     flags_ok (restored_status rs) (rs_IncidentOpen rs) (rs_IncidentConfirmed rs)
       (rs_Notice rs \<and> rs_IncidentOpen rs \<and> rs_IncidentConfirmed rs) \<and>
     (restored_status rs \<in> {StatusUnknown, StatusUp, StatusExpiring} \<longrightarrow> rs_ConsecutiveFails rs \<le> 0)"

lemma core_ok_restore: "restorable rs \<Longrightarrow> core_ok (restore_ms rs)"
  by (cases "rs_Status rs";
      simp add: restorable_def restored_status_def restore_ms_def core_ok_def zero_monitorState_def Let_def; auto)

definition wf_engine :: "engine \<Rightarrow> bool" where
  "wf_engine e \<longleftrightarrow> 0 < e_flapThreshold e \<and>
     (\<forall>i ms. e_state e i = Some ms \<longrightarrow> core_ok ms \<and> flap_ok (e_flapThreshold e) ms)"

lemma wf_new_engine: "wf_engine (new_engine opts)"
  by (simp add: wf_engine_def new_engine_def)

lemma wf_lookup_ms:
  assumes "wf_engine e"
  shows "core_ok (lookup_ms e i) \<and> flap_ok (e_flapThreshold e) (lookup_ms e i)"
proof (cases "e_state e i")
  case None
  with assms show ?thesis
    using core_ok_zero [of StatusUnknown]
    by (simp add: lookup_ms_def wf_engine_def) (simp add: flap_ok_def zero_monitorState_def)
next
  case (Some ms)
  with assms show ?thesis by (auto simp: lookup_ms_def wf_engine_def)
qed

lemma normalise_simps [simp]:
  "o_MonitorID (normalise now ob) = o_MonitorID ob"
  "o_OK (normalise now ob) = o_OK ob"
  "o_Expiring (normalise now ob) = o_Expiring ob"
  "o_LocalNetwork (normalise now ob) = o_LocalNetwork ob"
  "o_LocalDNS (normalise now ob) = o_LocalDNS ob"
  "o_Kind (normalise now ob) = o_Kind ob"
  "o_Error (normalise now ob) = o_Error ob"
  by (simp_all add: normalise_def)

lemma Observe_eq:
  "Observe now e ob =
     (let r = observe_ms e (normalise now ob) (lookup_ms e (o_MonitorID ob))
      in (e\<lparr>e_state := (e_state e)(o_MonitorID ob \<mapsto> fst r)\<rparr>, snd r))"
  by (simp add: Observe_def Let_def split: prod.split)

lemma Observe_frame [simp]:
  "e_flapThreshold (fst (Observe now e ob)) = e_flapThreshold e"
  "e_flapWindow (fst (Observe now e ob)) = e_flapWindow e"
  "j \<noteq> o_MonitorID ob \<Longrightarrow> e_state (fst (Observe now e ob)) j = e_state e j"
  by (simp_all add: Observe_eq Let_def)

lemma wf_Observe:
  assumes "wf_engine e" shows "wf_engine (fst (Observe now e ob))"
  using assms wf_lookup_ms [OF assms, of "o_MonitorID ob"]
    wf_observe_ms [of "lookup_ms e (o_MonitorID ob)" e "normalise now ob"]
  by (simp add: Observe_eq wf_engine_def Let_def)

lemma wf_Forget: "wf_engine e \<Longrightarrow> wf_engine (Forget i e)"
  by (auto simp: Forget_def wf_engine_def)

lemma wf_Retain: "wf_engine e \<Longrightarrow> wf_engine (Retain live e)"
  by (auto simp: Retain_def wf_engine_def restrict_map_def)

lemma core_ok_spend:
  "core_ok ms \<Longrightarrow> core_ok (ms\<lparr>ms_snapshotsSpent := ms_snapshotsSpent ms + 1\<rparr>)"
  by (simp add: core_ok_def)

lemma wf_SpendSnapshot: "wf_engine e \<Longrightarrow> wf_engine (fst (SpendSnapshot i e))"
  by (auto simp: SpendSnapshot_def wf_engine_def core_ok_spend flap_ok_def Let_def split: option.split)

lemma wf_Restore:
  "wf_engine e \<Longrightarrow> restorable rs \<Longrightarrow> wf_engine (Restore i rs e)"
  by (auto simp: Restore_def wf_engine_def core_ok_restore)
     (auto simp: restore_ms_def flap_ok_def zero_monitorState_def Let_def)

inductive engine_step :: "engine \<Rightarrow> engine \<Rightarrow> bool" where
  step_Observe: "engine_step e (fst (Observe now e ob))"
| step_Forget: "engine_step e (Forget i e)"
| step_Retain: "engine_step e (Retain live e)"
| step_SpendSnapshot: "engine_step e (fst (SpendSnapshot i e))"
| step_Restore: "restorable rs \<Longrightarrow> engine_step e (Restore i rs e)"

inductive engine_reachable :: "options \<Rightarrow> engine \<Rightarrow> bool" for opts where
  reach_new: "engine_reachable opts (new_engine opts)"
| reach_step: "engine_reachable opts e \<Longrightarrow> engine_step e e' \<Longrightarrow> engine_reachable opts e'"

lemma wf_step: "engine_step e e' \<Longrightarrow> wf_engine e \<Longrightarrow> wf_engine e'"
  by (induction rule: engine_step.induct)
     (simp_all add: wf_Observe wf_Forget wf_Retain wf_SpendSnapshot wf_Restore)

lemma wf_reachable: "engine_reachable opts e \<Longrightarrow> wf_engine e"
  by (induction rule: engine_reachable.induct) (auto intro: wf_new_engine wf_step)


section \<open>The lifecycle of an incident\<close>

datatype phase = NoIncident | Pending | Outage | Notice

definition phase :: "monitorState \<Rightarrow> phase" where
  "phase ms = (if \<not> ms_incidentOpen ms then NoIncident
     else if ms_notice ms then Notice
     else if ms_incidentConfirmed ms then Outage else Pending)"

fun lifecycle :: "phase \<Rightarrow> event \<Rightarrow> bool \<Rightarrow> bool \<Rightarrow> phase option" where
  "lifecycle p EventNone isnotice False = Some p"
| "lifecycle NoIncident EventIncidentOpened False False = Some Pending"
| "lifecycle NoIncident EventIncidentConfirmed False False = Some Outage"
| "lifecycle Pending EventIncidentConfirmed False False = Some Outage"
| "lifecycle NoIncident EventIncidentConfirmed True False = Some Notice"
| "lifecycle Notice EventIncidentConfirmed False True = Some Outage"
| "lifecycle Pending EventIncidentResolved False False = Some NoIncident"
| "lifecycle Outage EventIncidentResolved False False = Some NoIncident"
| "lifecycle Notice EventIncidentResolved True False = Some NoIncident"
| "lifecycle p ev isnotice replaces = None"

lemma phase_flap_fields [simp]:
  "phase (ms\<lparr>ms_changes := c\<rparr>) = phase ms"
  "phase (ms\<lparr>ms_flapping := b\<rparr>) = phase ms"
  by (simp_all add: phase_def)

lemma applyFlapping_frame [simp]:
  "phase (fst (applyFlapping e mt)) = phase (fst mt)"
  "ms_status (fst (applyFlapping e mt)) = ms_status (fst mt)"
  "ms_consecutiveFails (fst (applyFlapping e mt)) = ms_consecutiveFails (fst mt)"
  "ms_consecutiveOKs (fst (applyFlapping e mt)) = ms_consecutiveOKs (fst mt)"
  "ms_recoveringSince (fst (applyFlapping e mt)) = ms_recoveringSince (fst mt)"
  "ms_incidentOpen (fst (applyFlapping e mt)) = ms_incidentOpen (fst mt)"
  "ms_incidentConfirmed (fst (applyFlapping e mt)) = ms_incidentConfirmed (fst mt)"
  "ms_notice (fst (applyFlapping e mt)) = ms_notice (fst mt)"
  "t_Event (snd (applyFlapping e mt)) = t_Event (snd mt)"
  "t_To (snd (applyFlapping e mt)) = t_To (snd mt)"
  "t_From (snd (applyFlapping e mt)) = t_From (snd mt)"
  "t_At (snd (applyFlapping e mt)) = t_At (snd mt)"
  "t_Notice (snd (applyFlapping e mt)) = t_Notice (snd mt)"
  "t_Replaces (snd (applyFlapping e mt)) = t_Replaces (snd mt)"
  "t_StartedAt (snd (applyFlapping e mt)) = t_StartedAt (snd mt)"
  "t_RecoveredAt (snd (applyFlapping e mt)) = t_RecoveredAt (snd mt)"
  by (cases mt; simp add: applyFlapping_def Let_def)+

lemma report_frame [simp]:
  "t_Event (snd (report mt)) = t_Event (snd mt)"
  "t_To (snd (report mt)) = t_To (snd mt)"
  "t_From (snd (report mt)) = t_From (snd mt)"
  "t_At (snd (report mt)) = t_At (snd mt)"
  "t_Notify (snd (report mt)) = t_Notify (snd mt)"
  "t_Suppressed (snd (report mt)) = t_Suppressed (snd mt)"
  "t_Replaces (snd (report mt)) = t_Replaces (snd mt)"
  "t_StartedAt (snd (report mt)) = t_StartedAt (snd mt)"
  "t_RecoveredAt (snd (report mt)) = t_RecoveredAt (snd mt)"
  "t_Notice (snd (report mt)) = (t_Notice (snd mt) \<or> ms_notice (fst mt))"
  by (cases mt; simp add: report_def)+


lemma start_transition_simps [simp]:
  "t_Event (start_transition ob ms) = EventNone"
  "t_To (start_transition ob ms) = ms_status ms"
  "t_From (start_transition ob ms) = ms_status ms"
  "t_At (start_transition ob ms) = o_At ob"
  "\<not> t_Notify (start_transition ob ms)"
  "\<not> t_Suppressed (start_transition ob ms)"
  "\<not> t_Notice (start_transition ob ms)"
  "\<not> t_Replaces (start_transition ob ms)"
  "t_StartedAt (start_transition ob ms) = 0"
  "t_RecoveredAt (start_transition ob ms) = 0"
  by (simp_all add: start_transition_def zero_transition_def)

definition follows :: "monitorState \<Rightarrow> monitorState \<times> transition \<Rightarrow> bool" where
  "follows ms mt \<longleftrightarrow>
     lifecycle (phase ms) (t_Event (snd mt)) (t_Notice (snd mt) \<or> ms_notice (fst mt))
       (t_Replaces (snd mt)) = Some (phase (fst mt))"

lemma follows_observeFailure:
  "core_ok ms \<Longrightarrow> \<not> t_Notice t \<Longrightarrow> \<not> t_Replaces t \<Longrightarrow> t_Event t = EventNone \<Longrightarrow>
   follows ms (observeFailure e ob (ms, t))"
  by (cases "ms_status ms";
      simp add: follows_def core_ok_def phase_def observeFailure_def recordChange_def Let_def; auto)

lemma follows_observeLocalNetwork:
  "\<not> t_Replaces t \<Longrightarrow> t_Event t = EventNone \<Longrightarrow> follows ms (observeLocalNetwork dns (ms, t))"
  by (simp add: follows_def phase_def observeLocalNetwork_def)

lemma follows_observeSuccess:
  "core_ok ms \<Longrightarrow> \<not> t_Notice t \<Longrightarrow> \<not> t_Replaces t \<Longrightarrow> t_Event t = EventNone \<Longrightarrow>
   follows ms (observeSuccess e ob (ms, t))"
  by (cases "ms_status ms";
      simp add: follows_def core_ok_def phase_def observeSuccess_def closeIncident_def recordChange_def Let_def; auto)

lemma follows_observeExpiring:
  "core_ok ms \<Longrightarrow> \<not> t_Notice t \<Longrightarrow> \<not> t_Replaces t \<Longrightarrow> t_Event t = EventNone \<Longrightarrow>
   follows ms (observeExpiring e ob (ms, t))"
  using follows_observeSuccess [of ms t e ob]
  by (cases "ms_status ms"; simp add: follows_def core_ok_def phase_def observeExpiring_def Let_def; auto)

lemma follows_decide:
  "core_ok ms \<Longrightarrow> follows ms (decide e ob (ms, start_transition ob ms))"
  by (simp add: decide_def follows_observeFailure follows_observeLocalNetwork
      follows_observeSuccess follows_observeExpiring)

lemma lifecycle_observe_ms:
  assumes "core_ok ms"
  shows "lifecycle (phase ms) (t_Event (snd (observe_ms e ob ms))) (t_Notice (snd (observe_ms e ob ms)))
    (t_Replaces (snd (observe_ms e ob ms))) = Some (phase (fst (observe_ms e ob ms)))"
  using follows_decide [OF assms, of e ob] by (simp add: observe_ms_def follows_def)

section \<open>The contract the persistence layer relies on\<close>

text \<open>
  What the runner needs of whatever observes checks: every transition that concerns its monitor
  is a move of the lifecycle, and no other transition moves it. From it, a whole history is a
  word of the lifecycle automaton.
\<close>

fun lifecycle_word :: "phase \<Rightarrow> transition list \<Rightarrow> phase option" where
  "lifecycle_word p [] = Some p"
| "lifecycle_word p (t # ts) =
     (case lifecycle p (t_Event t) (t_Notice t) (t_Replaces t) of
        None \<Rightarrow> None | Some p' \<Rightarrow> lifecycle_word p' ts)"

locale incident_source =
  fixes step :: "'s \<Rightarrow> 'i \<Rightarrow> 's \<times> transition"
    and inv :: "'s \<Rightarrow> bool"
    and ph :: "'s \<Rightarrow> phase"
    and mine :: "transition \<Rightarrow> bool"
  assumes inv_step: "inv s \<Longrightarrow> inv (fst (step s x))"
    and follows_step: "inv s \<Longrightarrow> mine (snd (step s x)) \<Longrightarrow>
      lifecycle (ph s) (t_Event (snd (step s x))) (t_Notice (snd (step s x)))
        (t_Replaces (snd (step s x))) = Some (ph (fst (step s x)))"
    and other_step: "inv s \<Longrightarrow> \<not> mine (snd (step s x)) \<Longrightarrow> ph (fst (step s x)) = ph s"
begin

fun run :: "'s \<Rightarrow> 'i list \<Rightarrow> 's \<times> transition list" where
  "run s [] = (s, [])"
| "run s (x # xs) =
     (fst (run (fst (step s x)) xs), snd (step s x) # snd (run (fst (step s x)) xs))"

lemma run_inv: "inv s \<Longrightarrow> inv (fst (run s xs))"
  by (induction xs arbitrary: s) (simp_all add: inv_step)

lemma run_follows:
  "inv s \<Longrightarrow> lifecycle_word (ph s) (filter mine (snd (run s xs))) = Some (ph (fst (run s xs)))"
proof (induction xs arbitrary: s)
  case Nil
  then show ?case by simp
next
  case (Cons x xs)
  with inv_step have "inv (fst (step s x))" by blast
  from Cons.IH [OF this] Cons.prems follows_step [of s x] other_step [of s x] show ?case
    by (cases "mine (snd (step s x))") simp_all
qed

end

definition phase_of :: "engine \<Rightarrow> int \<Rightarrow> phase" where
  "phase_of e i = phase (lookup_ms e i)"

lemma t_MonitorID_ops [simp]:
  "t_MonitorID (snd (applyFlapping e mt)) = t_MonitorID (snd mt)"
  "t_MonitorID (snd (report mt)) = t_MonitorID (snd mt)"
  "t_MonitorID (start_transition ob ms) = o_MonitorID ob"
  by (cases mt; simp add: applyFlapping_def report_def Let_def start_transition_def)+

lemma t_MonitorID_decide [simp]: "t_MonitorID (snd (decide e ob (ms, t))) = t_MonitorID t"
  by (simp add: decide_def observeFailure_def observeLocalNetwork_def observeExpiring_def
      observeSuccess_def closeIncident_def Let_def)

lemma t_MonitorID_Observe [simp]: "t_MonitorID (snd (Observe now e ob)) = o_MonitorID ob"
  by (simp add: Observe_eq observe_ms_def Let_def)

lemma phase_of_Observe_other:
  "o_MonitorID ob \<noteq> i \<Longrightarrow> phase_of (fst (Observe now e ob)) i = phase_of e i"
  by (simp add: phase_of_def lookup_ms_def)

lemma phase_of_Observe_mine:
  assumes "wf_engine e" "o_MonitorID ob = i"
  shows "lifecycle (phase_of e i) (t_Event (snd (Observe now e ob))) (t_Notice (snd (Observe now e ob)))
    (t_Replaces (snd (Observe now e ob))) = Some (phase_of (fst (Observe now e ob)) i)"
  using lifecycle_observe_ms [of "lookup_ms e i" e "normalise now ob"] wf_lookup_ms [OF assms(1)] assms(2)
  by (simp add: phase_of_def Observe_eq Let_def) (simp add: lookup_ms_def)

interpretation eng: incident_source "Observe now" wf_engine "\<lambda>e. phase_of e i" "\<lambda>t. t_MonitorID t = i"
  for now i
  by unfold_locales (auto intro: wf_Observe phase_of_Observe_mine simp: phase_of_Observe_other)

lemma observe_all_run: "observe_all now e obs = eng.run now e obs"
  by (induction obs arbitrary: e) (simp_all add: observe_all.simps(2) Let_def split: prod.split)

section \<open>Properties\<close>

definition default_options :: options where
  "default_options = \<lparr>opt_FlapWindow = 0, opt_FlapThreshold = 0\<rparr>"

definition sample_obs :: "bool \<Rightarrow> instant \<Rightarrow> int \<Rightarrow> int \<Rightarrow> observation" where
  "sample_obs ok seen fthr rthr = \<lparr>o_MonitorID = 7, o_OK = ok, o_At = seen, o_Kind = ''connection'',
     o_Error = ''refused'', o_Expiring = False, o_FailureThreshold = fthr, o_RecoveryThreshold = rthr,
     o_LocalNetwork = False, o_LocalDNS = False\<rparr>"

definition sample_restored :: restoredState where
  "sample_restored = \<lparr>rs_Status = StatusDown, rs_IncidentOpen = True, rs_IncidentConfirmed = True,
     rs_ConsecutiveFails = 4, rs_SnapshotsSpent = 1, rs_Notice = False, rs_FailingSince = 0\<rparr>"

lemma sample_restored_reachable:
  "engine_reachable default_options (Restore 7 sample_restored (new_engine default_options))"
  by (intro reach_step [OF reach_new] step_Restore)
     (simp add: restorable_def restored_status_def sample_restored_def)

text \<open>
  In every engine that can be reached by observing, forgetting, retaining, spending snapshots
  and restoring, each monitor's status agrees with its incident flags, its streaks and its flapping
  mark: an incident is confirmed exactly when the monitor is down, recovering or under a notice, a
  passing streak exists only while recovering and is short of its threshold, and a monitor is
  marked flapping exactly when enough flips are left in its window.
\<close>

theorem reachable_states_consistent:
  assumes "engine_reachable opts e" "e_state e i = Some ms"
  shows "core_ok ms \<and> flap_ok (e_flapThreshold e) ms"
  using wf_reachable [OF assms(1)] assms(2) by (auto simp: wf_engine_def)

theorem reachable_states_consistent_witness:
  "core_ok (restore_ms sample_restored) \<and>
   flap_ok (e_flapThreshold (new_engine default_options)) (restore_ms sample_restored)"
  using reachable_states_consistent [OF sample_restored_reachable, of 7 "restore_ms sample_restored"]
  by (simp add: Restore_def)

text \<open>
  C6: whatever results of whatever monitors an engine observes, in any order, the events it reports
  for one monitor are a word of the incident lifecycle (none, pending, outage, certificate notice)
  from the phase the monitor started in to the phase it ends in. So nothing is opened twice, an
  outage is confirmed only from nothing, from its own pending incident or in place of a notice, only
  an open incident is resolved, and results of other monitors never move it.
\<close>

theorem history_is_lifecycle_word:
  assumes "engine_reachable opts e"
  shows "lifecycle_word (phase_of e i) (filter (\<lambda>t. t_MonitorID t = i) (snd (observe_all now e obs)))
         = Some (phase_of (fst (observe_all now e obs)) i)"
  unfolding observe_all_run by (rule eng.run_follows [OF wf_reachable [OF assms]])

theorem history_is_lifecycle_word_witness:
  "lifecycle_word NoIncident (filter (\<lambda>t. t_MonitorID t = 7)
     (snd (observe_all 5 (new_engine default_options) [sample_obs False 10 2 1, sample_obs False 20 2 1])))
   = Some (phase_of (fst (observe_all 5 (new_engine default_options)
       [sample_obs False 10 2 1, sample_obs False 20 2 1])) 7)"
  using history_is_lifecycle_word [OF reach_new, of default_options 7 5
      "[sample_obs False 10 2 1, sample_obs False 20 2 1]"]
  by (simp add: phase_of_def lookup_ms_def new_engine_def phase_def zero_monitorState_def)

end
