(* ===== verification/EngineRuns.thy ===== *)
theory EngineRuns
  imports EngineInvariant
begin

text \<open>
  What the engine reports over runs of results: confirmation at the failure threshold, the streak
  that resolves, when a human is told, and what a restart keeps quiet.
\<close>

section \<open>Streaks of failures\<close>

lemma observe_all_Cons:
  "observe_all now e (ob # obs) =
     (fst (observe_all now (fst (Observe now e ob)) obs),
      snd (Observe now e ob) # snd (observe_all now (fst (Observe now e ob)) obs))"
  by (simp add: observe_all.simps(2) Let_def split: prod.split)

lemma length_observe_all [simp]: "length (snd (observe_all now e obs)) = length obs"
  by (induction obs arbitrary: e) (simp_all add: observe_all_Cons)

lemma lookup_ms_Observe [simp]:
  "lookup_ms (fst (Observe now e ob)) (o_MonitorID ob) =
     fst (observe_ms e (normalise now ob) (lookup_ms e (o_MonitorID ob)))"
  by (simp add: lookup_ms_def Observe_eq Let_def)

lemma snd_Observe:
  "snd (Observe now e ob) = snd (observe_ms e (normalise now ob) (lookup_ms e (o_MonitorID ob)))"
  by (simp add: Observe_eq Let_def)

lemma normalise_thresholds [simp]:
  "0 < o_FailureThreshold ob \<Longrightarrow> o_FailureThreshold (normalise now ob) = o_FailureThreshold ob"
  "0 < o_RecoveryThreshold ob \<Longrightarrow> o_RecoveryThreshold (normalise now ob) = o_RecoveryThreshold ob"
  "o_At ob \<noteq> 0 \<Longrightarrow> o_At (normalise now ob) = o_At ob"
  by (simp_all add: normalise_def)

definition plain_failure :: "observation \<Rightarrow> bool" where
  "plain_failure ob \<longleftrightarrow> \<not> o_OK ob \<and> \<not> o_LocalNetwork ob"

lemma fail_step:
  fixes e :: engine
  assumes "core_ok ms" "plain_failure ob" "\<not> Confirmed (ms_status ms)" "\<not> ms_notice ms"
    and "o_FailureThreshold ob = thr"
  defines "r \<equiv> observe_ms e ob ms"
  shows "ms_consecutiveFails (fst r) = ms_consecutiveFails ms + 1"
    and "ms_status (fst r) = (if thr \<le> ms_consecutiveFails ms + 1 then StatusDown else StatusWarning)"
    and "t_To (snd r) = ms_status (fst r)"
    and "\<not> ms_notice (fst r)"
    and "ms_incidentOpen (fst r)"
    and "t_Event (snd r) = (if thr \<le> ms_consecutiveFails ms + 1 then EventIncidentConfirmed
           else if ms_incidentOpen ms then EventNone else EventIncidentOpened)"
  using assms
  by (auto simp: observe_ms_def plain_failure_def decide_def observeFailure_def recordChange_def
      Confirmed_def Let_def)

lemma down_step:
  assumes "plain_failure ob" "ms_status ms = StatusDown"
  shows "ms_status (fst (observe_ms e ob ms)) = StatusDown"
    and "t_To (snd (observe_ms e ob ms)) = StatusDown"
    and "t_Event (snd (observe_ms e ob ms)) = EventNone"
  using assms
  by (simp_all add: observe_ms_def plain_failure_def decide_def observeFailure_def Confirmed_def Let_def)

definition failing_run :: "int \<Rightarrow> nat \<Rightarrow> observation list \<Rightarrow> bool" where
  "failing_run i n obs \<longleftrightarrow>
     (\<forall>ob \<in> set obs. plain_failure ob \<and> o_MonitorID ob = i \<and> o_FailureThreshold ob = int n)"

lemma failing_run_Cons [simp]:
  "failing_run i n (ob # obs) \<longleftrightarrow>
     plain_failure ob \<and> o_MonitorID ob = i \<and> o_FailureThreshold ob = int n \<and> failing_run i n obs"
  by (auto simp: failing_run_def)

lemma plain_failure_normalise [simp]: "plain_failure (normalise now ob) = plain_failure ob"
  by (simp add: plain_failure_def)

lemma down_run:
  assumes "failing_run i n obs" "ms_status (lookup_ms e i) = StatusDown" "j < length obs"
  shows "t_Event (snd (observe_all now e obs) ! j) = EventNone \<and>
         t_To (snd (observe_all now e obs) ! j) = StatusDown"
  using assms
proof (induction obs arbitrary: e j)
  case Nil
  then show ?case by simp
next
  case (Cons ob obs)
  show ?case
  proof (cases j)
    case 0
    with Cons.prems show ?thesis
      by (simp add: observe_all_Cons snd_Observe down_step)
  next
    case (Suc k)
    have "ms_status (lookup_ms (fst (Observe now e ob)) i) = StatusDown"
      using Cons.prems by (auto simp: down_step)
    with Cons.IH [of "fst (Observe now e ob)" k] Cons.prems Suc show ?thesis
      by (simp add: observe_all_Cons)
  qed
qed

lemma pending_run:
  assumes "failing_run i n obs" "wf_engine e" "j < length obs"
    and "\<not> Confirmed (ms_status (lookup_ms e i))" "\<not> ms_notice (lookup_ms e i)"
    and "ms_consecutiveFails (lookup_ms e i) = int f" "f < n"
  shows "t_Event (snd (observe_all now e obs) ! j) =
           (if f + j + 1 = n then EventIncidentConfirmed
            else if j = 0 \<and> \<not> ms_incidentOpen (lookup_ms e i) then EventIncidentOpened else EventNone) \<and>
         t_To (snd (observe_all now e obs) ! j) = (if f + j + 1 < n then StatusWarning else StatusDown)"
  using assms
proof (induction obs arbitrary: e j f)
  case Nil
  then show ?case by simp
next
  case (Cons ob obs)
  let ?e = "fst (Observe now e ob)" and ?ms = "lookup_ms e i"
  have core: "core_ok ?ms" using Cons.prems wf_lookup_ms by blast
  have thr: "o_FailureThreshold (normalise now ob) = int n" using Cons.prems by simp
  note step = fail_step [OF core _ Cons.prems(4,5) thr, of e]
  show ?case
  proof (cases j)
    case 0
    with Cons.prems step show ?thesis
      by (auto simp: observe_all_Cons snd_Observe)
  next
    case (Suc k)
    show ?thesis
    proof (cases "f + 1 = n")
      case True
      have "ms_status (lookup_ms ?e i) = StatusDown" using Cons.prems step True by auto
      with down_run [of i n obs ?e k now] Cons.prems Suc True show ?thesis
        by (simp add: observe_all_Cons)
    next
      case False
      with Cons.prems step have "ms_status (lookup_ms ?e i) = StatusWarning"
        "\<not> ms_notice (lookup_ms ?e i)" "ms_incidentOpen (lookup_ms ?e i)"
        "ms_consecutiveFails (lookup_ms ?e i) = int (f + 1)" by auto
      with Cons.IH [of ?e k "f + 1"] Cons.prems Suc False show ?thesis
        by (simp add: observe_all_Cons wf_Observe Confirmed_def)
    qed
  qed
qed

section \<open>Streaks of passes\<close>

definition plain_pass :: "observation \<Rightarrow> bool" where
  "plain_pass ob \<longleftrightarrow> o_OK ob \<and> \<not> o_Expiring ob"

definition passing_run :: "int \<Rightarrow> nat \<Rightarrow> observation list \<Rightarrow> bool" where
  "passing_run i r obs \<longleftrightarrow>
     (\<forall>ob \<in> set obs. plain_pass ob \<and> o_MonitorID ob = i \<and> o_RecoveryThreshold ob = int r \<and> o_At ob \<noteq> 0)"

lemma passing_run_Cons [simp]:
  "passing_run i r (ob # obs) \<longleftrightarrow>
     plain_pass ob \<and> o_MonitorID ob = i \<and> o_RecoveryThreshold ob = int r \<and> o_At ob \<noteq> 0 \<and> passing_run i r obs"
  by (auto simp: passing_run_def)

lemma plain_pass_normalise [simp]: "plain_pass (normalise now ob) = plain_pass ob"
  by (simp add: plain_pass_def)

lemma pass_step:
  fixes e :: engine
  assumes "core_ok ms" "plain_pass ob" "Confirmed (ms_status ms)" "o_RecoveryThreshold ob = thr"
  defines "r \<equiv> observe_ms e ob ms"
    and "since \<equiv> (if ms_consecutiveOKs ms = 0 then o_At ob else ms_recoveringSince ms)"
  shows "ms_consecutiveOKs ms + 1 < thr \<Longrightarrow>
           ms_status (fst r) = StatusRecovering \<and> ms_consecutiveOKs (fst r) = ms_consecutiveOKs ms + 1 \<and>
           ms_recoveringSince (fst r) = since \<and> t_Event (snd r) = EventNone"
    and "thr \<le> ms_consecutiveOKs ms + 1 \<Longrightarrow>
           ms_status (fst r) = StatusUp \<and> t_Event (snd r) = EventIncidentResolved \<and>
           t_RecoveredAt (snd r) = (if since = 0 then o_At ob else since)"
  using assms
  by (auto simp: observe_ms_def plain_pass_def decide_def observeSuccess_def closeIncident_def
      recordChange_def Confirmed_def core_ok_def Let_def)

lemma recovering_run:
  assumes "passing_run i r obs" "wf_engine e" "j < length obs" "c + j < r"
    and "Confirmed (ms_status (lookup_ms e i))" "ms_consecutiveOKs (lookup_ms e i) = int c"
    and "since = (if c = 0 then o_At (obs ! 0) else ms_recoveringSince (lookup_ms e i))" "since \<noteq> 0"
  shows "t_Event (snd (observe_all now e obs) ! j) =
           (if c + j + 1 = r then EventIncidentResolved else EventNone) \<and>
         (c + j + 1 = r \<longrightarrow> t_RecoveredAt (snd (observe_all now e obs) ! j) = since)"
  using assms
proof (induction obs arbitrary: e j c)
  case Nil
  then show ?case by simp
next
  case (Cons ob obs)
  let ?e = "fst (Observe now e ob)" and ?ms = "lookup_ms e i"
  have core: "core_ok ?ms" using Cons.prems wf_lookup_ms by blast
  have at: "o_At (normalise now ob) = o_At ob" using Cons.prems by simp
  have "plain_pass (normalise now ob)" "o_RecoveryThreshold (normalise now ob) = int r"
    using Cons.prems by auto
  note step = pass_step [OF core this(1) Cons.prems(5) this(2), of e, unfolded at]
  show ?case
  proof (cases j)
    case 0
    with Cons.prems step show ?thesis
      by (auto simp: observe_all_Cons snd_Observe)
  next
    case (Suc k)
    with Cons.prems step have rec: "ms_status (lookup_ms ?e i) = StatusRecovering"
      "ms_consecutiveOKs (lookup_ms ?e i) = int (c + 1)"
      "ms_recoveringSince (lookup_ms ?e i) = since" by auto
    with Cons.IH [of ?e k "c + 1"] Cons.prems Suc show ?thesis
      by (auto simp: observe_all_Cons wf_Observe Confirmed_def)
  qed
qed

definition alertworthy :: "monitorState \<Rightarrow> transition \<Rightarrow> bool" where
  "alertworthy ms t \<longleftrightarrow> t_Event t = EventIncidentConfirmed \<or>
     (t_Event t = EventIncidentResolved \<and> ms_incidentConfirmed ms)"

definition quiet :: "transition \<Rightarrow> bool" where
  "quiet t \<longleftrightarrow> t_Event t = EventNone \<and> \<not> t_Notify t \<and> \<not> t_Suppressed t"

definition notify_ok :: "monitorState \<Rightarrow> monitorState \<times> transition \<Rightarrow> bool" where
  "notify_ok ms mt \<longleftrightarrow>
     t_Notify (snd mt) = alertworthy ms (snd mt) \<and> \<not> t_Suppressed (snd mt) \<and>
     ms_flapping (fst mt) = ms_flapping ms \<and>
     (\<not> alertworthy ms (snd mt) \<longrightarrow> ms_changes (fst mt) = ms_changes ms)"

lemma quiet_start [simp]: "quiet (start_transition ob ms)"
  by (simp add: quiet_def)

lemma notify_ok_observeFailure: "quiet t \<Longrightarrow> notify_ok ms (observeFailure e ob (ms, t))"
  by (simp add: quiet_def notify_ok_def alertworthy_def observeFailure_def recordChange_def Let_def)

lemma notify_ok_observeLocalNetwork: "quiet t \<Longrightarrow> notify_ok ms (observeLocalNetwork dns (ms, t))"
  by (simp add: quiet_def notify_ok_def alertworthy_def observeLocalNetwork_def)

lemma notify_ok_observeSuccess: "quiet t \<Longrightarrow> notify_ok ms (observeSuccess e ob (ms, t))"
  by (simp add: quiet_def notify_ok_def alertworthy_def observeSuccess_def closeIncident_def recordChange_def Let_def)

lemma notify_ok_observeExpiring: "quiet t \<Longrightarrow> notify_ok ms (observeExpiring e ob (ms, t))"
  using notify_ok_observeSuccess [of t ms e ob]
  by (simp add: quiet_def notify_ok_def alertworthy_def observeExpiring_def)

lemma notify_ok_decide: "notify_ok ms (decide e ob (ms, start_transition ob ms))"
  by (simp add: decide_def notify_ok_observeFailure notify_ok_observeLocalNetwork
      notify_ok_observeSuccess notify_ok_observeExpiring)

lemma length_filter_lt: "int (length xs) < thr \<Longrightarrow> int (length (filter P xs)) < thr"
  using length_filter_le [of P xs] by linarith

lemma applyFlapping_notify:
  assumes "notify_ok ms mt" "flap_ok (e_flapThreshold e) ms"
  defines "r \<equiv> applyFlapping e mt"
  shows "\<not> ms_flapping ms \<Longrightarrow>
      t_Notify (snd r) = alertworthy ms (snd mt) \<and> \<not> t_Suppressed (snd r)"
    and "ms_flapping ms \<Longrightarrow> t_Flapping (snd r) \<Longrightarrow>
      \<not> t_Notify (snd r) \<and> t_Suppressed (snd r) = alertworthy ms (snd mt)"
    and "ms_flapping ms \<Longrightarrow> \<not> t_Flapping (snd r) \<Longrightarrow>
      t_Notify (snd r) = (alertworthy ms (snd mt) \<or>
        (t_To (snd mt) \<noteq> StatusWarning \<and> t_From (snd mt) \<noteq> StatusWarning)) \<and> \<not> t_Suppressed (snd r)"
proof -
  obtain ms' t where mt: "mt = (ms', t)" by (cases mt)
  let ?keep = "filter (\<lambda>c. t_At t - e_flapWindow e < c) (ms_changes ms')"
  have short: "\<not> e_flapThreshold e \<le> int (length ?keep)"
    if "\<not> ms_flapping ms" "\<not> alertworthy ms t"
    using assms(1,2) that length_filter_lt [of "ms_changes ms" "e_flapThreshold e"]
    by (simp add: notify_ok_def flap_ok_def mt not_le)
  show "\<not> ms_flapping ms \<Longrightarrow>
      t_Notify (snd r) = alertworthy ms (snd mt) \<and> \<not> t_Suppressed (snd r)"
    using short assms(1) by (auto simp: r_def mt applyFlapping_def notify_ok_def Let_def)
  show "ms_flapping ms \<Longrightarrow> t_Flapping (snd r) \<Longrightarrow>
      \<not> t_Notify (snd r) \<and> t_Suppressed (snd r) = alertworthy ms (snd mt)"
    using assms(1) by (auto simp: r_def mt applyFlapping_def notify_ok_def Let_def split: if_splits)
  show "ms_flapping ms \<Longrightarrow> \<not> t_Flapping (snd r) \<Longrightarrow>
      t_Notify (snd r) = (alertworthy ms (snd mt) \<or>
        (t_To (snd mt) \<noteq> StatusWarning \<and> t_From (snd mt) \<noteq> StatusWarning)) \<and> \<not> t_Suppressed (snd r)"
    using assms(1) by (auto simp: r_def mt applyFlapping_def notify_ok_def Let_def split: if_splits)
qed

lemma alertworthy_applyFlapping [simp]:
  "alertworthy ms (snd (applyFlapping e mt)) = alertworthy ms (snd mt)"
  "alertworthy ms (snd (report mt)) = alertworthy ms (snd mt)"
  by (simp_all add: alertworthy_def)

lemma report_flap_frame [simp]:
  "ms_changes (fst (report mt)) = ms_changes (fst mt)"
  "ms_flapping (fst (report mt)) = ms_flapping (fst mt)"
  by simp_all

lemma notify_ok_report: "notify_ok ms mt \<Longrightarrow> notify_ok ms (report mt)"
  by (simp add: notify_ok_def)

section \<open>Suppression never changes what is recorded\<close>

definition unflap :: "monitorState \<Rightarrow> monitorState" where
  "unflap ms = ms\<lparr>ms_changes := [], ms_flapping := False\<rparr>"

definition untold :: "transition \<Rightarrow> transition" where
  "untold t = t\<lparr>t_Notify := False, t_Suppressed := False, t_Flapping := False, t_FlappingChanged := False\<rparr>"

definition core_part :: "monitorState \<times> transition \<Rightarrow> monitorState \<times> transition" where
  "core_part mt = (unflap (fst mt), untold (snd mt))"

lemma core_part_applyFlapping [simp]: "core_part (applyFlapping e mt) = core_part mt"
  by (cases mt) (simp add: core_part_def unflap_def untold_def applyFlapping_def Let_def)

lemma core_part_report: "core_part (report mt) = core_part (report (core_part mt))"
  by (cases mt) (simp add: core_part_def unflap_def untold_def report_def)

lemma core_part_observeFailure:
  "core_part (observeFailure e ob (ms, t)) = core_part (observeFailure e' ob (unflap ms, untold t))"
  by (simp add: core_part_def unflap_def untold_def observeFailure_def recordChange_def Let_def)

lemma core_part_observeLocalNetwork:
  "core_part (observeLocalNetwork dns (ms, t)) = core_part (observeLocalNetwork dns (unflap ms, untold t))"
  by (simp add: core_part_def unflap_def untold_def observeLocalNetwork_def)

lemma core_part_observeSuccess:
  "core_part (observeSuccess e ob (ms, t)) = core_part (observeSuccess e' ob (unflap ms, untold t))"
  by (simp add: core_part_def unflap_def untold_def observeSuccess_def closeIncident_def recordChange_def Let_def)

lemma core_part_observeExpiring:
  "core_part (observeExpiring e ob (ms, t)) = core_part (observeExpiring e' ob (unflap ms, untold t))"
  using core_part_observeSuccess [of e ob ms t e']
  by (simp add: observeExpiring_def) (simp add: core_part_def unflap_def untold_def)

lemma core_part_decide:
  "core_part (decide e ob (ms, t)) = core_part (decide e' ob (unflap ms, untold t))"
  using core_part_observeFailure [of e ob ms t e'] core_part_observeLocalNetwork [of "o_LocalDNS ob" ms t]
    core_part_observeSuccess [of e ob ms t e'] core_part_observeExpiring [of e ob ms t e']
  by (simp add: decide_def) (auto simp add: unflap_def)

lemma core_part_observe_ms:
  assumes "unflap ms = unflap ms'"
  shows "core_part (observe_ms e ob ms) = core_part (observe_ms e' ob ms')"
proof -
  have st: "ms_status ms = ms_status ms'"
    using arg_cong [OF assms, of ms_status] by (simp add: unflap_def)
  have "core_part (decide e ob (ms, start_transition ob ms)) =
        core_part (decide e' ob (ms', start_transition ob ms'))"
    using core_part_decide [of e ob ms "start_transition ob ms" e]
      core_part_decide [of e' ob ms' "start_transition ob ms'" e] assms st
    by (simp add: start_transition_def)
  then show ?thesis
    unfolding observe_ms_def core_part_applyFlapping
    by (metis core_part_report)
qed

definition same_core :: "engine \<Rightarrow> engine \<Rightarrow> bool" where
  "same_core e e' \<longleftrightarrow> (\<forall>i. unflap (lookup_ms e i) = unflap (lookup_ms e' i))"

lemma same_core_Observe:
  assumes "same_core e e'"
  shows "same_core (fst (Observe now e ob)) (fst (Observe now e' ob))"
    and "untold (snd (Observe now e ob)) = untold (snd (Observe now e' ob))"
proof -
  let ?i = "o_MonitorID ob"
  have eq: "core_part (observe_ms e (normalise now ob) (lookup_ms e ?i)) =
        core_part (observe_ms e' (normalise now ob) (lookup_ms e' ?i))"
    using assms by (intro core_part_observe_ms) (simp add: same_core_def)
  then show "untold (snd (Observe now e ob)) = untold (snd (Observe now e' ob))"
    by (simp add: snd_Observe core_part_def)
  show "same_core (fst (Observe now e ob)) (fst (Observe now e' ob))"
    unfolding same_core_def
  proof
    fix j
    show "unflap (lookup_ms (fst (Observe now e ob)) j) = unflap (lookup_ms (fst (Observe now e' ob)) j)"
      using eq assms
      by (cases "j = ?i") (simp_all add: core_part_def same_core_def, simp add: lookup_ms_def)
  qed
qed

lemma same_core_run:
  "same_core e e' \<Longrightarrow>
   map untold (snd (observe_all now e obs)) = map untold (snd (observe_all now e' obs))"
proof (induction obs arbitrary: e e')
  case Nil
  then show ?case by simp
next
  case (Cons ob obs)
  with same_core_Observe [OF Cons.prems, of now ob] show ?case
    by (simp add: observe_all_Cons)
qed

lemma applyFlapping_no_change:
  assumes "ms_changes (fst mt) = []" "\<not> ms_flapping (fst mt)" "0 < e_flapThreshold e"
  shows "ms_changes (fst (applyFlapping e mt)) = []" "\<not> ms_flapping (fst (applyFlapping e mt))"
    and "t_Notify (snd (applyFlapping e mt)) = t_Notify (snd mt)"
  using assms by (cases mt; simp add: applyFlapping_def Let_def)+

lemma restored_down_run:
  assumes "failing_run i n obs" "0 < e_flapThreshold e" "t \<in> set (snd (observe_all now e obs))"
    and "ms_status (lookup_ms e i) = StatusDown" "ms_changes (lookup_ms e i) = []"
    and "\<not> ms_flapping (lookup_ms e i)"
  shows "t_Event t = EventNone \<and> \<not> t_Notify t"
  using assms
proof (induction obs arbitrary: e)
  case Nil
  then show ?case by simp
next
  case (Cons ob obs)
  let ?e = "fst (Observe now e ob)" and ?ms = "lookup_ms e i"
  let ?mt = "report (decide e (normalise now ob) (?ms, start_transition (normalise now ob) ?ms))"
  have keep: "ms_changes (fst ?mt) = []" "\<not> ms_flapping (fst ?mt)" "\<not> t_Notify (snd ?mt)"
    using Cons.prems
    by (auto simp: decide_def plain_failure_def observeFailure_def Confirmed_def Let_def)
  note ap = applyFlapping_no_change [OF keep(1,2), of e]
  have step: "ms_status (lookup_ms ?e i) = StatusDown" "ms_changes (lookup_ms ?e i) = []"
    "\<not> ms_flapping (lookup_ms ?e i)"
    "t_Event (snd (Observe now e ob)) = EventNone" "\<not> t_Notify (snd (Observe now e ob))"
    using Cons.prems ap keep(3) down_step [of "normalise now ob" ?ms e]
    by (auto simp: snd_Observe observe_ms_def)
  with Cons.IH [of ?e] Cons.prems show ?case
    by (auto simp: observe_all_Cons)
qed

section \<open>Properties\<close>

text \<open>
  C33: from a monitor that is up or unseen, \<open>n\<close> failing checks in a row confirm the outage exactly at
  the \<open>n\<close>-th: the first opens the incident (or confirms it, with a threshold of one), the ones
  between report nothing, the \<open>n\<close>-th confirms, and every failure after it reports nothing.
\<close>

theorem confirms_at_threshold:
  assumes "engine_reachable opts e" "Status e i \<in> {StatusUnknown, StatusUp}" "0 < n"
    and "failing_run i n obs" "j < length obs"
  shows "t_Event (snd (observe_all now e obs) ! j) =
           (if j + 1 = n then EventIncidentConfirmed
            else if j = 0 then EventIncidentOpened else EventNone) \<and>
         t_To (snd (observe_all now e obs) ! j) = (if j + 1 < n then StatusWarning else StatusDown)"
proof -
  have wf: "wf_engine e" by (rule wf_reachable [OF assms(1)])
  have st: "ms_status (lookup_ms e i) \<in> {StatusUnknown, StatusUp}"
    using assms(2) by (auto simp: Status_def lookup_ms_def zero_monitorState_def split: option.splits)
  then have "\<not> Confirmed (ms_status (lookup_ms e i))" "\<not> ms_notice (lookup_ms e i)"
    "\<not> ms_incidentOpen (lookup_ms e i)" "ms_consecutiveFails (lookup_ms e i) = int 0"
    using wf_lookup_ms [OF wf, of i] by (auto simp: core_ok_def Confirmed_def)
  from pending_run [OF assms(4) wf assms(5) this(1,2,4) assms(3), of now] this(3)
  show ?thesis by auto
qed

theorem confirms_at_threshold_witness:
  "t_Event (snd (observe_all 5 (new_engine default_options)
     [sample_obs False 10 3 1, sample_obs False 20 3 1, sample_obs False 30 3 1, sample_obs False 40 3 1]) ! 2)
   = EventIncidentConfirmed"
  using confirms_at_threshold [OF reach_new, of default_options 7 3
      "[sample_obs False 10 3 1, sample_obs False 20 3 1, sample_obs False 30 3 1, sample_obs False 40 3 1]" 2 5]
  by (simp add: Status_def new_engine_def plain_failure_def sample_obs_def failing_run_def)

text \<open>
  a confirmed outage is resolved by exactly the recovery threshold of passing checks in a row: the
  passes before it report nothing, the last one resolves, and the recovery is dated from the first
  pass of the streak, not from the one that met the threshold.
\<close>

theorem resolves_at_recovery_threshold:
  assumes "engine_reachable opts e" "Status e i = StatusDown"
    and "passing_run i r obs" "j < length obs" "j < r"
  shows "t_Event (snd (observe_all now e obs) ! j) =
           (if j + 1 = r then EventIncidentResolved else EventNone) \<and>
         (j + 1 = r \<longrightarrow> t_RecoveredAt (snd (observe_all now e obs) ! j) = o_At (obs ! 0))"
proof -
  have wf: "wf_engine e" by (rule wf_reachable [OF assms(1)])
  have st: "ms_status (lookup_ms e i) = StatusDown"
    using assms(2) by (auto simp: Status_def lookup_ms_def split: option.splits)
  have "ms_consecutiveOKs (lookup_ms e i) = int 0"
    using wf_lookup_ms [OF wf, of i] st by (auto simp: core_ok_def)
  moreover have "o_At (obs ! 0) \<noteq> 0"
    using assms(3,4) by (cases obs) auto
  ultimately show ?thesis
    using recovering_run [OF assms(3) wf assms(4), of 0 "o_At (obs ! 0)" now] st assms(5)
    by (simp add: Confirmed_def)
qed

theorem resolves_at_recovery_threshold_witness:
  "t_Event (snd (observe_all 5 (Restore 7 sample_restored (new_engine default_options))
     [sample_obs True 10 3 2, sample_obs True 20 3 2]) ! 1) = EventIncidentResolved \<and>
   t_RecoveredAt (snd (observe_all 5 (Restore 7 sample_restored (new_engine default_options))
     [sample_obs True 10 3 2, sample_obs True 20 3 2]) ! 1) = 10"
  using resolves_at_recovery_threshold [OF sample_restored_reachable, of 7 2
      "[sample_obs True 10 3 2, sample_obs True 20 3 2]" 1 5]
  by (simp add: Status_def Restore_def restore_ms_def sample_restored_def zero_monitorState_def Let_def
      plain_pass_def sample_obs_def passing_run_def)

text \<open>
  \<open>WouldConfirm\<close>, asked before a failure the host's network does not explain is observed, answers
  yes exactly when observing that failure confirms an outage. So the connectivity canary is consulted
  at every moment an alert would go out, and at no other.
\<close>

theorem WouldConfirm_exact:
  assumes "engine_reachable opts e" "plain_failure ob"
  shows "t_Event (snd (Observe now e ob)) = EventIncidentConfirmed \<longleftrightarrow>
         WouldConfirm e (o_MonitorID ob) (o_FailureThreshold ob)"
proof -
  let ?ms = "lookup_ms e (o_MonitorID ob)"
  have core: "core_ok ?ms" using wf_reachable [OF assms(1)] wf_lookup_ms by blast
  have W: "WouldConfirm e (o_MonitorID ob) (o_FailureThreshold ob) \<longleftrightarrow>
    \<not> Confirmed (ms_status ?ms) \<and> o_FailureThreshold (normalise now ob) \<le> ms_consecutiveFails ?ms + 1"
    by (auto simp: WouldConfirm_def lookup_ms_def zero_monitorState_def normalise_def Confirmed_def
        split: option.split)
  show ?thesis
    unfolding W snd_Observe
    using assms(2) core
    by (auto simp: observe_ms_def plain_failure_def decide_def observeFailure_def recordChange_def
        Confirmed_def core_ok_def Let_def)
qed

theorem WouldConfirm_exact_witness:
  "t_Event (snd (Observe 5 (new_engine default_options) (sample_obs False 10 1 1))) = EventIncidentConfirmed"
  using WouldConfirm_exact [OF reach_new, of "sample_obs False 10 1 1" 5 default_options]
  by (simp add: plain_failure_def sample_obs_def WouldConfirm_def new_engine_def)

text \<open>
  When a human is told. A monitor that was not flapping tells one exactly for a confirmation, or for
  the resolution of a confirmed incident. While a monitor flaps nothing is told, and what would have
  been is marked suppressed; the check on which it settles is told unless a warning is involved.
\<close>

theorem notification_decision:
  assumes "engine_reachable opts e" "Observe now e ob = (e', t)"
  defines "ms \<equiv> lookup_ms e (o_MonitorID ob)"
  shows "t_Notify t = (if \<not> ms_flapping ms then alertworthy ms t
           else \<not> t_Flapping t \<and> (alertworthy ms t \<or>
             (t_To t \<noteq> StatusWarning \<and> t_From t \<noteq> StatusWarning))) \<and>
         t_Suppressed t = (ms_flapping ms \<and> t_Flapping t \<and> alertworthy ms t)"
proof -
  let ?ob = "normalise now ob"
  let ?mt = "report (decide e ?ob (ms, start_transition ?ob ms))"
  have t: "t = snd (applyFlapping e ?mt)"
    using assms(2) snd_Observe [of now e ob] by (simp add: observe_ms_def ms_def)
  have ok: "notify_ok ms ?mt" by (rule notify_ok_report [OF notify_ok_decide])
  have fl: "flap_ok (e_flapThreshold e) ms"
    unfolding ms_def using wf_reachable [OF assms(1)] wf_lookup_ms by blast
  show ?thesis
    using applyFlapping_notify [OF ok fl] unfolding t by auto
qed

theorem notification_decision_witness:
  "t_Notify (snd (Observe 5 (new_engine default_options) (sample_obs False 10 1 1)))"
proof -
  let ?e = "new_engine default_options" and ?ob = "sample_obs False 10 1 1"
  have l: "lookup_ms ?e 7 = zero_monitorState StatusUnknown"
    by (simp add: lookup_ms_def new_engine_def)
  have i: "o_MonitorID ?ob = 7" by (simp add: sample_obs_def)
  have "t_Event (snd (Observe 5 ?e ?ob)) = EventIncidentConfirmed"
    unfolding snd_Observe i l
    by (simp add: observe_ms_def decide_def start_transition_def observeFailure_def normalise_def
        sample_obs_def zero_monitorState_def zero_transition_def recordChange_def Confirmed_def Let_def)
  then show ?thesis
    using notification_decision [OF reach_new, of 5 default_options ?ob "fst (Observe 5 ?e ?ob)"
        "snd (Observe 5 ?e ?ob)"]
    by (simp add: i l alertworthy_def zero_monitorState_def)
qed

text \<open>
  Flap suppression never changes what is recorded. Two engines that start from the same states and
  differ only in the flapping window and threshold report, on every sequence of results, the same
  events, statuses, streaks, causes and recovery times; only the four fields about telling a human differ.
\<close>

theorem flapping_never_changes_incidents:
  "map untold (snd (observe_all now e obs)) =
   map untold (snd (observe_all now (e\<lparr>e_flapWindow := w, e_flapThreshold := thr\<rparr>) obs))"
proof -
  have "same_core e (e\<lparr>e_flapWindow := w, e_flapThreshold := thr\<rparr>)"
    by (simp add: same_core_def lookup_ms_def)
  then show ?thesis by (rule same_core_run)
qed

text \<open>
  A restart does not announce an outage again. From an engine restored with a confirmed outage, any
  number of further failures of that monitor reports no event and tells nobody.
\<close>

theorem restart_does_not_realert:
  assumes "engine_reachable opts e" "rs_IncidentOpen rs" "rs_IncidentConfirmed rs" "\<not> rs_Notice rs"
    and "rs_Status rs = StatusDown \<or> rs_Status rs = StatusRecovering"
    and "failing_run i n obs" "t \<in> set (snd (observe_all now (Restore i rs e) obs))"
  shows "t_Event t = EventNone \<and> \<not> t_Notify t"
proof (rule restored_down_run [OF assms(6) _ assms(7)])
  show "0 < e_flapThreshold (Restore i rs e)"
    using wf_reachable [OF assms(1)] by (simp add: Restore_def wf_engine_def)
qed (use assms(2-5) in \<open>auto simp: Restore_def lookup_ms_def restore_ms_def zero_monitorState_def Let_def\<close>)

theorem restart_does_not_realert_witness:
  "\<not> t_Notify (snd (observe_all 5 (Restore 7 sample_restored (new_engine default_options))
     [sample_obs False 10 3 2, sample_obs False 20 3 2]) ! 1)"
proof -
  let ?ts = "snd (observe_all 5 (Restore 7 sample_restored (new_engine default_options))
     [sample_obs False 10 3 2, sample_obs False 20 3 2])"
  have "?ts ! 1 \<in> set ?ts" by (rule nth_mem) simp
  then show ?thesis
    using restart_does_not_realert [OF reach_new, of sample_restored 7 3
        "[sample_obs False 10 3 2, sample_obs False 20 3 2]" "?ts ! 1" 5 default_options]
    by (simp add: sample_restored_def failing_run_def plain_failure_def sample_obs_def)
qed

end
