(* ===== verification/Reminder.thy ===== *)
theory Reminder
  imports Prelude
begin

text \<open>
  The escalating reminder schedule of \<open>internal/state/reminder.go\<close>: how long to wait before the
  next reminder of a confirmed outage, and whether one is due. The multiplication of the gap is
  the code's 64-bit one, with its wrap-around written out.
\<close>

definition ReminderCap :: duration where
  "ReminderCap = hours 24"

definition reminderGrowth :: int where
  "reminderGrowth = 4"

text \<open>The loop of \<open>ReminderGap\<close>, with the clamp that follows it.\<close>

fun gap_loop :: "nat \<Rightarrow> duration \<Rightarrow> duration" where
  "gap_loop 0 gap = (if ReminderCap < gap then ReminderCap else gap)"
| "gap_loop (Suc n) gap =
     (if ReminderCap div reminderGrowth \<le> gap then ReminderCap
      else gap_loop n (wrap64 (gap * reminderGrowth)))"

definition ReminderGap :: "duration \<Rightarrow> int \<Rightarrow> duration" where
  "ReminderGap base sent =
     (if base \<le> 0 then 0 else gap_loop (nat (if sent < 0 then 0 else sent)) base)"

definition ReminderEnabled :: "duration \<Rightarrow> bool" where
  "ReminderEnabled base \<longleftrightarrow> 0 < base"

definition NextReminder :: "instant \<Rightarrow> instant \<Rightarrow> int \<Rightarrow> duration \<Rightarrow> instant" where
  "NextReminder since prev sent base =
     (if \<not> ReminderEnabled base then 0
      else (if 0 < sent \<and> \<not> is_zero prev then prev else since) + ReminderGap base sent)"

definition ReminderDue :: "instant \<Rightarrow> instant \<Rightarrow> instant \<Rightarrow> int \<Rightarrow> duration \<Rightarrow> bool" where
  "ReminderDue now since prev sent base =
     (if is_zero since then False
      else let due = NextReminder since prev sent base in
           if is_zero due then False else \<not> now < due)"

section \<open>The schedule\<close>

lemma gap_loop_closed:
  assumes "0 < gap"
  shows "gap_loop n gap = min ReminderCap (gap * 4 ^ n)"
  using assms
proof (induction n gap rule: gap_loop.induct)
  case (1 gap)
  then show ?case by simp
next
  case (2 n gap)
  have cap: "ReminderCap = 4 * (ReminderCap div reminderGrowth)"
    by (simp add: ReminderCap_def reminderGrowth_def)
  show ?case
  proof (cases "ReminderCap div reminderGrowth \<le> gap")
    case True
    have "ReminderCap \<le> gap * 4" using True cap by linarith
    also have "\<dots> \<le> gap * 4 * 4 ^ n" using 2(2) by (simp add: mult_le_cancel_left1)
    finally show ?thesis using True by (simp add: min_def ac_simps)
  next
    case False
    have "fits64 (gap * 4)"
      using False 2(2) by (simp add: fits64_def ReminderCap_def reminderGrowth_def)
    with False 2 show ?thesis by (simp add: reminderGrowth_def ac_simps)
  qed
qed

lemma ReminderGap_pos: "0 < base \<Longrightarrow> 0 < ReminderGap base sent"
  by (simp add: ReminderGap_def gap_loop_closed ReminderCap_def)

text \<open>
  The gap before the reminder after \<open>sent\<close> others is the base interval quadrupled \<open>sent\<close>
  times and capped at a day, whatever the base and the count: the 64-bit multiplication of the
  loop never wraps around, because the loop returns the cap before it could.
\<close>

theorem reminder_gap_exact:
  assumes "0 < base" "0 \<le> sent"
  shows "ReminderGap base sent = min (hours 24) (base * 4 ^ nat sent)"
  using assms by (simp add: ReminderGap_def gap_loop_closed ReminderCap_def)

theorem reminder_gap_exact_witness:
  "ReminderGap (minutes 15) 3 = hours 16 \<and> ReminderGap (minutes 15) 200 = hours 24"
proof
  show "ReminderGap (minutes 15) 3 = hours 16"
    using reminder_gap_exact [of "minutes 15" 3] by simp
  show "ReminderGap (minutes 15) 200 = hours 24"
    using reminder_gap_exact [of "minutes 15" 200] by simp
qed

section \<open>Reminders along a run of the reminder loop\<close>

text \<open>
  The reminder loop looks at the clock again and again; when one is due it sends it and records
  the moment and the count. \<open>reminders\<close> lists the moments at which it sends, for one incident.
\<close>

fun reminders :: "instant \<Rightarrow> duration \<Rightarrow> instant \<Rightarrow> int \<Rightarrow> instant list \<Rightarrow> instant list" where
  "reminders since base prev sent [] = []"
| "reminders since base prev sent (now # nows) =
     (if ReminderDue now since prev sent base
      then now # reminders since base now (sent + 1) nows
      else reminders since base prev sent nows)"

text \<open>Consecutive elements, the first of them after \<open>from\<close>, keep the gaps of the schedule.\<close>

fun spaced :: "duration \<Rightarrow> instant \<Rightarrow> int \<Rightarrow> instant list \<Rightarrow> bool" where
  "spaced base from sent [] = True"
| "spaced base from sent (t # ts) \<longleftrightarrow> from + ReminderGap base sent \<le> t \<and> spaced base t (sent + 1) ts"

lemma reminders_spaced:
  assumes "0 < base" "0 < since" "0 \<le> sent" "\<forall>t\<in>set nows. 0 < t"
    and "if 0 < sent then from = prev \<and> 0 < prev else from = since"
  shows "spaced base from sent (reminders since base prev sent nows)"
  using assms(3-5)
proof (induction nows arbitrary: prev sent "from")
  case (Cons now nows)
  show ?case
  proof (cases "ReminderDue now since prev sent base")
    case True
    have "from + ReminderGap base sent \<le> now"
      using True Cons(4) assms(1,2)
      by (auto simp: ReminderDue_def NextReminder_def ReminderEnabled_def Let_def split: if_splits)
    then show ?thesis using True Cons.IH [of "sent + 1" now now] Cons.prems by simp
  next
    case False
    then show ?thesis using Cons.IH [of sent "from" prev] Cons.prems by simp
  qed
qed simp

text \<open>
  However often the reminder loop looks at the clock, the reminders of one incident keep the
  schedule: the first comes no sooner than the base gap after the confirmation, and each later one
  no sooner than its own gap after the one before. An outage polled every second is not a reminder
  every second.
\<close>

theorem reminders_keep_schedule:
  assumes "0 < base" "0 < since" "\<forall>t\<in>set nows. 0 < t"
  shows "spaced base since 0 (reminders since base 0 0 nows)"
  using reminders_spaced [OF assms(1,2) _ assms(3), of 0 since 0] by simp

theorem reminders_keep_schedule_witness:
  "spaced 5 100 0 (reminders 100 5 0 0 [101, 105, 106, 124, 125, 130])"
  by (rule reminders_keep_schedule) auto

end
