(* ===== verification/EventBus.thy ===== *)
theory EventBus
  imports Prelude "HOL-Library.Word" "HOL-Library.Sublist"
begin

text \<open>
  The in-process event bus of \<open>internal/events/bus.go\<close>. A buffered channel is the list of the
  events in it and a flag for \<open>close\<close>; a send on a closed channel, which panics in Go, is \<open>None\<close>.
  The goroutines that publish, cancel and read interleave: each step of \<open>bus_step\<close> is what one of
  them does between two points where another can run, under the bus's \<open>RWMutex\<close>.
\<close>

section \<open>Events, subscriptions and the bus\<close>

datatype kind = KindHeartbeat | KindStatus | KindIncident

record 'p bus_event =
  ev_Kind :: kind
  ev_MonitorID :: int
  ev_At :: instant
  ev_Payload :: 'p
  ev_Seq :: "64 word"

record 'p subscription =
  s_ch :: "'p bus_event list"
  s_closed :: bool
  s_dropped :: "64 word"
  s_once :: bool

definition new_subscription :: "'p subscription" where
  "new_subscription = \<lparr>s_ch = [], s_closed = False, s_dropped = 0, s_once = False\<rparr>"

text \<open>\<open>NewBus\<close> replaces a depth that is not positive.\<close>

definition bus_depth :: "int \<Rightarrow> int" where
  "bus_depth buffer = (if buffer \<le> 0 then 256 else buffer)"

text \<open>One turn of the publishing loop: the \<open>select\<close> with its \<open>default\<close> arm.\<close>

definition offer :: "int \<Rightarrow> 'p bus_event \<Rightarrow> 'p subscription \<Rightarrow> 'p subscription option" where
  "offer depth e s =
     (if s_closed s then None
      else if int (length (s_ch s)) < depth then Some (s\<lparr>s_ch := s_ch s @ [e]\<rparr>)
      else Some (s\<lparr>s_dropped := s_dropped s + 1\<rparr>))"

section \<open>The goroutines around the bus\<close>

text \<open>
  Where one call of \<open>Publish\<close> is: not running; stamped with its time and sequence number and waiting
  for the read lock; or holding it, with the subscribers the map iteration has not reached.
\<close>

datatype 'p publisher = Idle | Stamped "'p bus_event" | Sending "'p bus_event" "nat list"

record 'p bus =
  b_depth :: int
  b_seq :: "64 word"
  b_subs :: "nat list"
  b_heap :: "nat \<Rightarrow> 'p subscription"
  b_next :: nat
  b_pub :: "nat \<Rightarrow> 'p publisher"
  b_closing :: "nat set"
  b_offered :: "nat \<Rightarrow> 'p bus_event list"
  b_got :: "nat \<Rightarrow> 'p bus_event list"

definition NewBus :: "int \<Rightarrow> 'p bus" where
  "NewBus buffer = \<lparr>b_depth = bus_depth buffer, b_seq = 0, b_subs = [],
     b_heap = (\<lambda>_. new_subscription), b_next = 0, b_pub = (\<lambda>_. Idle), b_closing = {},
     b_offered = (\<lambda>_. []), b_got = (\<lambda>_. [])\<rparr>"

definition no_reader :: "'p bus \<Rightarrow> bool" where
  "no_reader b \<longleftrightarrow> (\<forall>p e ss. b_pub b p \<noteq> Sending e ss)"

definition Subscribe :: "'p bus \<Rightarrow> 'p bus" where
  "Subscribe b = b\<lparr>b_subs := b_subs b @ [b_next b], b_next := Suc (b_next b)\<rparr>"

definition stamp :: "instant \<Rightarrow> nat \<Rightarrow> 'p bus_event \<Rightarrow> 'p bus \<Rightarrow> 'p bus" where
  "stamp now p e b =
     (let n = b_seq b + 1;
          e' = e\<lparr>ev_At := (if is_zero (ev_At e) then now else ev_At e), ev_Seq := n\<rparr>
      in b\<lparr>b_seq := n, b_pub := (b_pub b)(p := Stamped e')\<rparr>)"

definition lock_bus :: "nat \<Rightarrow> 'p bus_event \<Rightarrow> nat list \<Rightarrow> 'p bus \<Rightarrow> 'p bus" where
  "lock_bus p e ss b = b\<lparr>b_pub := (b_pub b)(p := Sending e ss)\<rparr>"

definition send_next ::
  "nat \<Rightarrow> 'p bus_event \<Rightarrow> nat \<Rightarrow> nat list \<Rightarrow> 'p bus \<Rightarrow> 'p bus option" where
  "send_next p e s ss b =
     (case offer (b_depth b) e (b_heap b s) of
        None \<Rightarrow> None
      | Some s' \<Rightarrow> Some (b\<lparr>b_heap := (b_heap b)(s := s'),
                         b_pub := (b_pub b)(p := Sending e ss),
                         b_offered := (b_offered b)(s := b_offered b s @ [e])\<rparr>))"

definition unlock_bus :: "nat \<Rightarrow> 'p bus \<Rightarrow> 'p bus" where
  "unlock_bus p b = b\<lparr>b_pub := (b_pub b)(p := Idle)\<rparr>"

text \<open>\<open>Close\<close>: \<open>sync.Once\<close> lets the first call through; it removes the subscriber under the write
  lock, and closes the channel after it has let the lock go.\<close>

definition remove_sub :: "nat \<Rightarrow> 'p bus \<Rightarrow> 'p bus" where
  "remove_sub s b = b\<lparr>b_subs := filter (\<lambda>x. x \<noteq> s) (b_subs b),
     b_heap := (b_heap b)(s := (b_heap b s)\<lparr>s_once := True\<rparr>),
     b_closing := insert s (b_closing b)\<rparr>"

definition close_ch :: "nat \<Rightarrow> 'p bus \<Rightarrow> 'p bus" where
  "close_ch s b = b\<lparr>b_heap := (b_heap b)(s := (b_heap b s)\<lparr>s_closed := True\<rparr>),
     b_closing := b_closing b - {s}\<rparr>"

definition receive :: "nat \<Rightarrow> 'p bus \<Rightarrow> 'p bus" where
  "receive s b = (case s_ch (b_heap b s) of
     [] \<Rightarrow> b
   | e # es \<Rightarrow> b\<lparr>b_heap := (b_heap b)(s := (b_heap b s)\<lparr>s_ch := es\<rparr>),
                 b_got := (b_got b)(s := b_got b s @ [e])\<rparr>)"

definition Subscribers :: "'p bus \<Rightarrow> nat" where
  "Subscribers b = length (b_subs b)"

definition LastSeq :: "'p bus \<Rightarrow> 64 word" where
  "LastSeq b = b_seq b"

inductive bus_step :: "'p bus \<Rightarrow> 'p bus \<Rightarrow> bool" where
  step_subscribe: "no_reader b \<Longrightarrow> bus_step b (Subscribe b)"
| step_stamp: "b_pub b p = Idle \<Longrightarrow> bus_step b (stamp now p e b)"
| step_lock: "b_pub b p = Stamped e \<Longrightarrow> distinct ss \<Longrightarrow> set ss = set (b_subs b) \<Longrightarrow>
    bus_step b (lock_bus p e ss b)"
| step_send: "b_pub b p = Sending e (s # ss) \<Longrightarrow> send_next p e s ss b = Some b' \<Longrightarrow> bus_step b b'"
| step_unlock: "b_pub b p = Sending e [] \<Longrightarrow> bus_step b (unlock_bus p b)"
| step_remove: "no_reader b \<Longrightarrow> s < b_next b \<Longrightarrow> \<not> s_once (b_heap b s) \<Longrightarrow> bus_step b (remove_sub s b)"
| step_close: "s \<in> b_closing b \<Longrightarrow> bus_step b (close_ch s b)"
| step_receive: "s < b_next b \<Longrightarrow> bus_step b (receive s b)"

inductive bus_reachable :: "int \<Rightarrow> 'p bus \<Rightarrow> bool" for buffer where
  bus_init: "bus_reachable buffer (NewBus buffer)"
| bus_more: "bus_reachable buffer b \<Longrightarrow> bus_step b b' \<Longrightarrow> bus_reachable buffer b'"

section \<open>The invariant\<close>

text \<open>Of one subscriber: its channel, its counter and what it was offered and has read.\<close>

definition sub_ok :: "int \<Rightarrow> 'p subscription \<Rightarrow> 'p bus_event list \<Rightarrow> 'p bus_event list \<Rightarrow> bool" where
  "sub_ok depth s offered got \<longleftrightarrow>
     int (length (s_ch s)) \<le> depth \<and> subseq (got @ s_ch s) offered \<and>
     (of_nat (length offered) :: 64 word) = of_nat (length got) + of_nat (length (s_ch s)) + s_dropped s"

definition bus_inv :: "int \<Rightarrow> 'p bus \<Rightarrow> bool" where
  "bus_inv buffer b \<longleftrightarrow>
     b_depth b = bus_depth buffer \<and> 0 < b_depth b \<and>
     (\<forall>s\<in>set (b_subs b). s < b_next b \<and> \<not> s_once (b_heap b s)) \<and>
     (\<forall>s. s_closed (b_heap b s) \<longrightarrow> s_once (b_heap b s)) \<and>
     (\<forall>p e ss. b_pub b p = Sending e ss \<longrightarrow> set ss \<subseteq> set (b_subs b)) \<and>
     (\<forall>s\<in>b_closing b. s_once (b_heap b s)) \<and>
     (\<forall>s\<ge>b_next b. b_heap b s = new_subscription) \<and>
     (\<forall>s. sub_ok (b_depth b) (b_heap b s) (b_offered b s) (b_got b s))"

lemma sub_ok_offer:
  assumes "sub_ok d s offered got" "offer d e s = Some s'"
  shows "sub_ok d s' (offered @ [e]) got"
proof (cases "int (length (s_ch s)) < d")
  case True
  then have "s' = s\<lparr>s_ch := s_ch s @ [e]\<rparr>" using assms(2) by (auto simp: offer_def split: if_splits)
  with True assms(1) show ?thesis
    by (simp add: sub_ok_def list_emb_append_mono flip: append_assoc)
next
  case False
  then have "s' = s\<lparr>s_dropped := s_dropped s + 1\<rparr>"
    using assms(2) by (auto simp: offer_def split: if_splits)
  with assms(1) show ?thesis by (auto simp: sub_ok_def intro: list_emb_prefix)
qed

lemma offer_flags:
  "offer d e s = Some s' \<Longrightarrow> s_closed s' = s_closed s \<and> s_once s' = s_once s"
  by (auto simp: offer_def split: if_splits)

lemma sub_ok_receive:
  "sub_ok d s offered got \<Longrightarrow> s_ch s = e # es \<Longrightarrow> sub_ok d (s\<lparr>s_ch := es\<rparr>) offered (got @ [e])"
  by (auto simp: sub_ok_def)

lemma bus_inv_new: "bus_inv buffer (NewBus buffer)"
  by (simp add: bus_inv_def NewBus_def bus_depth_def new_subscription_def sub_ok_def)

lemma bus_inv_step:
  assumes "bus_step b b'" "bus_inv buffer b"
  shows "bus_inv buffer b'"
  using assms
proof (induction rule: bus_step.induct)
  case (step_subscribe b)
  then show ?case
    by (auto simp: bus_inv_def Subscribe_def no_reader_def new_subscription_def less_Suc_eq)
next
  case (step_stamp b p now e)
  then show ?case by (auto simp: bus_inv_def stamp_def Let_def)
next
  case (step_lock b p e ss)
  then show ?case by (auto simp: bus_inv_def lock_bus_def)
next
  case (step_send b p e s ss b')
  then obtain s' where o: "offer (b_depth b) e (b_heap b s) = Some s'"
    and b': "b' = b\<lparr>b_heap := (b_heap b)(s := s'), b_pub := (b_pub b)(p := Sending e ss),
                    b_offered := (b_offered b)(s := b_offered b s @ [e])\<rparr>"
    by (auto simp: send_next_def split: option.splits)
  have "set (s # ss) \<subseteq> set (b_subs b)" using step_send(1,3) unfolding bus_inv_def by blast
  then have "s \<in> set (b_subs b)" "set ss \<subseteq> set (b_subs b)" by simp_all
  then show ?case
    using step_send(1,3) offer_flags [OF o] sub_ok_offer [OF _ o] unfolding b'
    by (auto simp: bus_inv_def)
next
  case (step_unlock b p e)
  then show ?case by (auto simp: bus_inv_def unlock_bus_def)
next
  case (step_remove b s)
  then show ?case by (auto simp: bus_inv_def remove_sub_def no_reader_def sub_ok_def)
next
  case (step_close s b)
  then show ?case by (auto simp: bus_inv_def close_ch_def sub_ok_def new_subscription_def)
next
  case (step_receive s b)
  then show ?case
    by (auto simp: bus_inv_def receive_def split: list.splits intro: sub_ok_receive)
qed

lemma bus_inv_reachable: "bus_reachable buffer b \<Longrightarrow> bus_inv buffer b"
  by (induction rule: bus_reachable.induct) (auto intro: bus_inv_new bus_inv_step)

section \<open>What the bus promises\<close>

text \<open>The rest of one \<open>Publish\<close> call once it holds the read lock.\<close>

fun publish_loop :: "nat \<Rightarrow> 'p bus_event \<Rightarrow> nat list \<Rightarrow> 'p bus \<Rightarrow> 'p bus option" where
  "publish_loop p e [] b = Some (unlock_bus p b)"
| "publish_loop p e (s # ss) b =
     (case send_next p e s ss b of None \<Rightarrow> None | Some b' \<Rightarrow> publish_loop p e ss b')"

lemma send_next_defined:
  assumes "bus_inv buffer b" "b_pub b p = Sending e (s # ss)"
  shows "\<exists>b'. send_next p e s ss b = Some b' \<and> b_pub b' p = Sending e ss"
proof -
  have "set (s # ss) \<subseteq> set (b_subs b)" using assms unfolding bus_inv_def by blast
  then have "\<not> s_once (b_heap b s)" using assms(1) by (auto simp: bus_inv_def)
  then have "\<not> s_closed (b_heap b s)" using assms(1) by (auto simp: bus_inv_def)
  then show ?thesis by (auto simp: send_next_def offer_def)
qed

lemma publish_loop_done:
  assumes "bus_inv buffer b" "b_pub b p = Sending e ss"
  shows "\<exists>b'. publish_loop p e ss b = Some b' \<and> b_pub b' p = Idle"
  using assms
proof (induction ss arbitrary: b)
  case Nil
  then show ?case by (simp add: unlock_bus_def)
next
  case (Cons s ss)
  obtain b' where b': "send_next p e s ss b = Some b'" "b_pub b' p = Sending e ss"
    using send_next_defined [OF Cons.prems] by blast
  have "bus_step b b'" using Cons.prems(2) b'(1) by (rule step_send)
  then show ?case using Cons.IH [OF bus_inv_step [OF _ Cons.prems(1)] b'(2)] b'(1) by simp
qed

text \<open>A bus of depth one with one subscriber and one publisher about to send to it.\<close>

definition sample_event :: "nat bus_event" where
  "sample_event = \<lparr>ev_Kind = KindStatus, ev_MonitorID = 7, ev_At = 5, ev_Payload = 0, ev_Seq = 0\<rparr>"

definition sample_bus :: "nat bus" where
  "sample_bus = lock_bus 0 (sample_event\<lparr>ev_Seq := 1\<rparr>) [0] (stamp 9 0 sample_event (Subscribe (NewBus 1)))"

lemma sample_bus_sending: "b_pub sample_bus 0 = Sending (sample_event\<lparr>ev_Seq := 1\<rparr>) [0]"
  by (simp add: sample_bus_def lock_bus_def)

lemma sample_bus_reachable: "bus_reachable 1 sample_bus"
proof -
  have 1: "bus_reachable 1 (Subscribe (NewBus 1) :: nat bus)"
    by (rule bus_more [OF bus_init step_subscribe]) (simp add: no_reader_def NewBus_def)
  have 2: "bus_reachable 1 (stamp 9 0 sample_event (Subscribe (NewBus 1)))"
    by (rule bus_more [OF 1 step_stamp]) (simp add: Subscribe_def NewBus_def)
  show ?thesis
    unfolding sample_bus_def
    by (rule bus_more [OF 2 step_lock])
       (auto simp: stamp_def Subscribe_def NewBus_def sample_event_def Let_def)
qed

text \<open>
  C39: a publisher never waits for a subscriber and never panics. However the publishers, readers and
  cancellations interleave, a \<open>Publish\<close> that holds the read lock gets through every subscriber left
  on its own steps alone, full buffers included, and never sends on a channel that \<open>Close\<close> closed.
\<close>

theorem publish_never_blocks_or_panics:
  assumes "bus_reachable buffer b" "b_pub b p = Sending e ss"
  shows "\<exists>b'. publish_loop p e ss b = Some b' \<and> b_pub b' p = Idle"
  by (rule publish_loop_done [OF bus_inv_reachable [OF assms(1)] assms(2)])

theorem publish_never_blocks_or_panics_witness:
  "\<exists>b'. publish_loop 0 (sample_event\<lparr>ev_Seq := 1\<rparr>) [0] sample_bus = Some b' \<and> b_pub b' 0 = Idle"
  by (rule publish_never_blocks_or_panics [OF sample_bus_reachable sample_bus_sending])

text \<open>
  Dropping is visible. For every subscriber, the events it was offered are as many as those it has
  read, those waiting in its channel and its dropped counter together (on 64 bits); what it reads is a
  subsequence of what it was offered, in order; and no more than the bus's depth ever waits.
\<close>

theorem dropped_counts_the_hole:
  assumes "bus_reachable buffer b"
  shows "of_nat (length (b_offered b s)) =
           of_nat (length (b_got b s)) + of_nat (length (s_ch (b_heap b s))) + s_dropped (b_heap b s) \<and>
         subseq (b_got b s @ s_ch (b_heap b s)) (b_offered b s) \<and>
         int (length (s_ch (b_heap b s))) \<le> (if buffer \<le> 0 then 256 else buffer)"
proof -
  have "b_depth b = bus_depth buffer" "sub_ok (b_depth b) (b_heap b s) (b_offered b s) (b_got b s)"
    using bus_inv_reachable [OF assms] unfolding bus_inv_def by blast+
  then show ?thesis unfolding bus_depth_def [symmetric] by (simp add: sub_ok_def)
qed

theorem dropped_counts_the_hole_witness:
  "of_nat (length (b_offered sample_bus 0)) =
     of_nat (length (b_got sample_bus 0)) + of_nat (length (s_ch (b_heap sample_bus 0)))
       + s_dropped (b_heap sample_bus 0)"
  using dropped_counts_the_hole [OF sample_bus_reachable, of 0] by blast

end
