(* ===== verification/DueQueue.thy ===== *)
theory DueQueue
  imports Prelude
begin

text \<open>
  What the scheduler asks of its queue: the item due first, removing it, and putting an item back.
  An item may carry bookkeeping of the queue's own (the heap writes positions into it); \<open>norm\<close>
  forgets it, and the contents are a multiset of items without it.
\<close>

locale due_queue =
  fixes peek :: "'q \<Rightarrow> 'a option"
    and pop :: "'q \<Rightarrow> 'a \<times> 'q"
    and push :: "'a \<Rightarrow> 'q \<Rightarrow> 'q"
    and contents :: "'q \<Rightarrow> 'a multiset"
    and ok :: "'q \<Rightarrow> bool"
    and key :: "'a \<Rightarrow> instant"
    and norm :: "'a \<Rightarrow> 'a"
  assumes peek_none: "ok q \<Longrightarrow> peek q = None \<longleftrightarrow> contents q = {#}"
    and peek_least: "ok q \<Longrightarrow> peek q = Some x \<Longrightarrow> \<forall>y\<in>#contents q. key x \<le> key y"
    and pop_removes: "ok q \<Longrightarrow> peek q = Some x \<Longrightarrow>
      ok (snd (pop q)) \<and> norm (fst (pop q)) = norm x \<and>
      contents q = add_mset (norm x) (contents (snd (pop q)))"
    and push_adds: "ok q \<Longrightarrow> ok (push x q) \<and> contents (push x q) = add_mset (norm x) (contents q)"
    and key_norm: "key (norm x) = key x"
begin

definition head_due :: "instant \<Rightarrow> 'q \<Rightarrow> bool" where
  "head_due now q = (case peek q of None \<Rightarrow> False | Some x \<Rightarrow> key x \<le> now)"

definition due_count :: "instant \<Rightarrow> 'q \<Rightarrow> nat" where
  "due_count now q = size (filter_mset (\<lambda>y. key y \<le> now) (contents q))"

text \<open>Nothing is due when the first item is not: the loop that stops there has missed nothing.\<close>

lemma head_decides:
  assumes "ok q"
  shows "head_due now q \<longleftrightarrow> (\<exists>y\<in>#contents q. key y \<le> now)"
proof (cases "peek q")
  case None
  then show ?thesis using peek_none [OF assms] by (simp add: head_due_def)
next
  case (Some x)
  have "norm x \<in># contents q" using pop_removes [OF assms Some] by simp
  moreover have "\<forall>y\<in>#contents q. key x \<le> key y" using peek_least [OF assms Some] .
  moreover have "head_due now q \<longleftrightarrow> key x \<le> now" by (simp add: head_due_def Some)
  ultimately show ?thesis using key_norm [of x] order_trans by metis
qed

text \<open>Serving one due item and putting it back for later is progress.\<close>

lemma serve_progress:
  assumes "ok q" "peek q = Some x" "key x \<le> now" "now < key x'"
  shows "ok (push x' (snd (pop q))) \<and>
         contents (push x' (snd (pop q))) = add_mset (norm x') (contents q - {#norm x#}) \<and>
         due_count now (push x' (snd (pop q))) < due_count now q"
  using pop_removes [OF assms(1,2)] push_adds [of "snd (pop q)" x'] key_norm assms(3,4)
  by (auto simp: due_count_def)

lemma key_of_popped:
  assumes "ok q" "peek q = Some x" shows "key (fst (pop q)) = key x"
  using pop_removes [OF assms] key_norm by metis

end

end
