(* ===== verification/JobHeap.thy ===== *)
theory JobHeap
  imports DueQueue
begin

text \<open>
  The scheduler's data (\<open>internal/scheduler/scheduler.go\<close>: \<open>Job\<close>, \<open>queueItem\<close>, \<open>jobHeap\<close>) and the
  priority queue it keeps with Go's \<open>container/heap\<close>. The heap is the list of the slice, with the
  \<open>index\<close> field the code writes into each item; \<open>up\<close>, \<open>down\<close>, \<open>Init\<close>, \<open>Push\<close> and \<open>Pop\<close> are the
  library's own loops over \<open>Less\<close>, \<open>Swap\<close>, \<open>Push\<close> and \<open>Pop\<close> of \<open>jobHeap\<close>.
\<close>

section \<open>Jobs\<close>

type_synonym checkType = string

record monitor =
  m_ID :: int
  m_Type :: checkType
  m_Timeout :: duration

record job =
  j_Failing :: bool
  j_Monitor :: monitor
  j_Interval :: duration
  j_NeverChecked :: bool
  j_LastCheck :: instant

record queueItem =
  q_job :: job
  q_next :: instant
  q_failingSeq :: nat
  q_index :: int

abbreviation q_ID :: "queueItem \<Rightarrow> int" where
  "q_ID x \<equiv> m_ID (j_Monitor (q_job x))"

section \<open>The methods of jobHeap\<close>

type_synonym jobHeap = "queueItem list"

definition Less :: "jobHeap \<Rightarrow> nat \<Rightarrow> nat \<Rightarrow> bool" where
  "Less h i j \<longleftrightarrow> q_next (h ! i) < q_next (h ! j)"

definition Swap :: "nat \<Rightarrow> nat \<Rightarrow> jobHeap \<Rightarrow> jobHeap" where
  "Swap i j h = h[i := (h ! j)\<lparr>q_index := int i\<rparr>, j := (h ! i)\<lparr>q_index := int j\<rparr>]"

definition Push_item :: "queueItem \<Rightarrow> jobHeap \<Rightarrow> jobHeap" where
  "Push_item x h = h @ [x\<lparr>q_index := int (length h)\<rparr>]"

definition Pop_item :: "jobHeap \<Rightarrow> queueItem \<times> jobHeap" where
  "Pop_item h = ((last h)\<lparr>q_index := -1\<rparr>, butlast h)"

section \<open>The loops of container/heap\<close>

lemma length_Swap [simp]: "length (Swap i j h) = length h"
  by (simp add: Swap_def)

function up :: "nat \<Rightarrow> jobHeap \<Rightarrow> jobHeap" where
  "up j h = (if j = 0 then h
             else let i = (j - 1) div 2 in
                  if \<not> Less h j i then h else up i (Swap i j h))"
  by pat_completeness auto
termination by (relation "measure fst") auto

text \<open>The child \<open>down\<close> compares with: the left one, or the right one when it is due sooner.\<close>

definition child :: "jobHeap \<Rightarrow> nat \<Rightarrow> nat \<Rightarrow> nat" where
  "child h i n = (if 2 * i + 2 < n \<and> Less h (2 * i + 2) (2 * i + 1) then 2 * i + 2 else 2 * i + 1)"

function down :: "nat \<Rightarrow> nat \<Rightarrow> jobHeap \<Rightarrow> jobHeap" where
  "down i n h =
     (if n \<le> 2 * i + 1 then h
      else let j = child h i n in
           if \<not> Less h j i then h else down j n (Swap i j h))"
  by pat_completeness auto
termination by (relation "measure (\<lambda>(i, n, h). n - i)") (auto simp: child_def)

declare up.simps [simp del] down.simps [simp del]

fun init_from :: "nat \<Rightarrow> jobHeap \<Rightarrow> jobHeap" where
  "init_from 0 h = h"
| "init_from (Suc i) h = init_from i (down i (length h) h)"

definition heap_Init :: "jobHeap \<Rightarrow> jobHeap" where
  "heap_Init h = init_from (length h div 2) h"

definition heap_Push :: "queueItem \<Rightarrow> jobHeap \<Rightarrow> jobHeap" where
  "heap_Push x h = up (length h) (Push_item x h)"

definition heap_Pop :: "jobHeap \<Rightarrow> queueItem \<times> jobHeap" where
  "heap_Pop h = (let n = length h - 1 in Pop_item (down 0 n (Swap 0 n h)))"

section \<open>What the loops keep: the length and the items\<close>

text \<open>Items up to the \<open>index\<close> field, which no operation of the scheduler reads.\<close>

definition strip :: "queueItem \<Rightarrow> queueItem" where
  "strip x = x\<lparr>q_index := 0\<rparr>"

definition items :: "jobHeap \<Rightarrow> queueItem multiset" where
  "items h = image_mset strip (mset h)"

lemma strip_index [simp]: "strip (x\<lparr>q_index := k\<rparr>) = strip x"
  by (simp add: strip_def)

lemma strip_sel [simp]:
  "q_next (strip x) = q_next x" "q_job (strip x) = q_job x" "q_failingSeq (strip x) = q_failingSeq x"
  by (simp_all add: strip_def)

lemma items_simps [simp]:
  "items [] = {#}" "items (x # h) = add_mset (strip x) (items h)" "items (g @ h) = items g + items h"
  by (simp_all add: items_def)

lemma size_items [simp]: "size (items h) = length h"
  by (simp add: items_def)

lemma items_eq_empty [simp]: "items h = {#} \<longleftrightarrow> h = []"
  by (simp add: items_def)

lemma set_items: "set_mset (items h) = strip ` set h"
  by (simp add: items_def)

lemma mset_swap_map:
  assumes "i < length xs" "j < length xs"
  shows "mset (xs[i := xs ! j, j := xs ! i]) = mset xs"
proof -
  have "xs[i := xs ! j, j := xs ! i] = xs[j := xs ! i, i := xs ! j]"
    by (cases "i = j") (simp_all add: list_update_swap)
  then show ?thesis using assms by (simp add: mset_swap)
qed

lemma map_strip_Swap:
  "i < length h \<Longrightarrow> j < length h \<Longrightarrow>
   map strip (Swap i j h) = (map strip h)[i := map strip h ! j, j := map strip h ! i]"
  by (simp add: Swap_def map_update)

lemma items_Swap [simp]:
  assumes "i < length h" "j < length h" shows "items (Swap i j h) = items h"
proof -
  have "items (Swap i j h) = mset (map strip (Swap i j h))" by (simp add: items_def)
  also have "\<dots> = mset (map strip h)"
    using assms mset_swap_map [of i "map strip h" j] by (simp add: map_strip_Swap)
  finally show ?thesis by (simp add: items_def)
qed

lemma child_less: "2 * i + 1 < n \<Longrightarrow> child h i n < n \<and> i < child h i n"
  by (auto simp: child_def)

lemma up_keeps: "j < length h \<Longrightarrow> length (up j h) = length h \<and> items (up j h) = items h"
proof (induction j h rule: up.induct)
  case (1 j h)
  then show ?case by (subst (1 2) up.simps) (auto simp: Let_def)
qed

lemma down_keeps:
  "i < n \<Longrightarrow> n \<le> length h \<Longrightarrow> length (down i n h) = length h \<and> items (down i n h) = items h"
proof (induction i n h rule: down.induct)
  case (1 i n h)
  show ?case
  proof (cases "n \<le> 2 * i + 1 \<or> \<not> Less h (child h i n) i")
    case True
    then show ?thesis by (subst (1 2) down.simps) (auto simp: Let_def)
  next
    case False
    then have c: "child h i n < n" using child_less by auto
    then have d: "down i n h = down (child h i n) n (Swap i (child h i n) h)"
      using False by (subst down.simps) (simp add: Let_def)
    show ?thesis
      using "1.IH" False c "1.prems" unfolding d by auto
  qed
qed

text \<open>\<open>down\<close> leaves the positions from its bound on alone: that is where \<open>Pop\<close> keeps the minimum.\<close>

lemma down_above: "i < n \<Longrightarrow> n \<le> k \<Longrightarrow> n \<le> length h \<Longrightarrow> down i n h ! k = h ! k"
proof (induction i n h rule: down.induct)
  case (1 i n h)
  show ?case
  proof (cases "n \<le> 2 * i + 1 \<or> \<not> Less h (child h i n) i")
    case True
    then show ?thesis by (subst down.simps) (auto simp: Let_def)
  next
    case False
    then have c: "child h i n < n" using child_less by auto
    then have d: "down i n h = down (child h i n) n (Swap i (child h i n) h)"
      using False by (subst down.simps) (simp add: Let_def)
    have "Swap i (child h i n) h ! k = h ! k" using c "1.prems" by (simp add: Swap_def)
    then show ?thesis using "1.IH" False c "1.prems" unfolding d by auto
  qed
qed

section \<open>Heap order\<close>

abbreviation due :: "jobHeap \<Rightarrow> nat \<Rightarrow> instant" where
  "due h j \<equiv> q_next (h ! j)"

abbreviation parent :: "nat \<Rightarrow> nat" where
  "parent j \<equiv> (j - 1) div 2"

text \<open>The first \<open>n\<close> positions are ordered below every parent from \<open>lo\<close> on.\<close>

definition ordered :: "nat \<Rightarrow> nat \<Rightarrow> jobHeap \<Rightarrow> bool" where
  "ordered lo n h \<longleftrightarrow> (\<forall>j<n. 0 < j \<longrightarrow> lo \<le> parent j \<longrightarrow> due h (parent j) \<le> due h j)"

definition heap_ok :: "jobHeap \<Rightarrow> bool" where
  "heap_ok h \<longleftrightarrow> ordered 0 (length h) h"

lemma due_Swap:
  "i < length h \<Longrightarrow> j < length h \<Longrightarrow> k < length h \<Longrightarrow>
   due (Swap i j h) k = (if k = i then due h j else if k = j then due h i else due h k)"
  by (auto simp: Swap_def nth_list_update)

lemma parent_cases: "0 < k \<Longrightarrow> parent k = i \<longleftrightarrow> k = 2 * i + 1 \<or> k = 2 * i + 2"
  by arith

lemma child_min:
  assumes "2 * i + 1 < n" "0 < k" "k < n" "parent k = i"
  shows "due h (child h i n) \<le> due h k"
proof -
  have "k = 2 * i + 1 \<or> k = 2 * i + 2" using assms(2,4) parent_cases by blast
  then show ?thesis using assms(1,3) by (auto simp: child_def Less_def)
qed

lemma child_parent: "parent (child h i n) = i"
  by (simp add: child_def)

lemma down_ordered:
  assumes "i < n" "n \<le> length h" "lo \<le> i"
    and "\<forall>j<n. 0 < j \<longrightarrow> lo \<le> parent j \<longrightarrow> parent j \<noteq> i \<longrightarrow> due h (parent j) \<le> due h j"
    and "\<forall>j<n. 0 < j \<longrightarrow> parent j = i \<longrightarrow> 0 < i \<longrightarrow> lo \<le> parent i \<longrightarrow> due h (parent i) \<le> due h j"
  shows "ordered lo n (down i n h)"
  using assms
proof (induction i n h rule: down.induct)
  case (1 i n h)
  let ?c = "child h i n"
  show ?case
  proof (cases "n \<le> 2 * i + 1 \<or> \<not> Less h ?c i")
    case True
    have "due h (parent j) \<le> due h j" if j: "j < n" "0 < j" "lo \<le> parent j" for j
    proof (cases "parent j = i")
      case pj: True
      with j have "2 * i + 1 < n" by linarith
      with True child_min [OF this j(2,1) pj, of h] pj show ?thesis by (auto simp: Less_def)
    qed (use "1.prems"(4) j in auto)
    then show ?thesis using True by (subst down.simps) (auto simp: Let_def ordered_def)
  next
    case False
    then have lt: "2 * i + 1 < n" by simp
    have c: "?c < n" "i < ?c" using child_less [OF lt] by auto
    have len: "i < length h" "?c < length h" using c "1.prems"(2) by auto
    let ?g = "Swap i ?c h"
    have due: "due ?g k = (if k = i then due h ?c else if k = ?c then due h i else due h k)"
      if "k < n" for k using due_Swap [OF len, of k] that "1.prems"(2) by simp
    have less: "due h ?c < due h i" using False by (simp add: Less_def)
    have par: "parent j < j" if "0 < j" for j :: nat using that by linarith
    have A: "due ?g (parent j) \<le> due ?g j"
      if j: "j < n" "0 < j" "lo \<le> parent j" "parent j \<noteq> ?c" for j
    proof (cases "parent j = i")
      case True
      then show ?thesis
        using due [of j] due [of i] j par [OF j(2)] "1.prems"(1) less child_min [OF lt j(2,1) True]
        by (auto split: if_splits)
    next
      case ne: False
      have pn: "parent j < n" using par [OF j(2)] j(1) by simp
      show ?thesis
      proof (cases "j = i")
        case True
        then have "due h (parent i) \<le> due h ?c"
          using "1.prems"(5) c child_parent [of h i n] j by auto
        then show ?thesis using True due [of j] due [OF pn] j ne by simp
      next
        case False
        have "j \<noteq> ?c" using ne child_parent [of h i n] by auto
        then show ?thesis
          using False ne j due [of j] due [OF pn] "1.prems"(4) by auto
      qed
    qed
    have B: "due ?g (parent ?c) \<le> due ?g j" if j: "j < n" "0 < j" "parent j = ?c" for j
    proof -
      have "due h ?c \<le> due h j"
        using "1.prems"(3,4) j c by auto
      moreover have "j \<noteq> i" "j \<noteq> ?c" using par [OF j(2)] j c by auto
      ultimately show ?thesis
        using child_parent [of h i n] due [of i] due [of j] j "1.prems"(1) by simp
    qed
    have "ordered lo n (down ?c n ?g)"
      using "1.IH" [OF _ refl] False c A B "1.prems" by auto
    then show ?thesis using False by (subst down.simps) (auto simp: Let_def)
  qed
qed

lemma up_ordered:
  assumes "j < length h"
    and "\<forall>k<length h. 0 < k \<longrightarrow> k \<noteq> j \<longrightarrow> due h (parent k) \<le> due h k"
    and "\<forall>k<length h. 0 < k \<longrightarrow> parent k = j \<longrightarrow> 0 < j \<longrightarrow> due h (parent j) \<le> due h k"
  shows "heap_ok (up j h)"
  using assms
proof (induction j h rule: up.induct)
  case (1 j h)
  let ?i = "parent j" and ?g = "Swap (parent j) j h"
  show ?case
  proof (cases "j = 0 \<or> \<not> Less h j ?i")
    case True
    then have "ordered 0 (length h) h" using "1.prems" by (auto simp: ordered_def Less_def not_less)
    with True show ?thesis by (subst up.simps) (auto simp: Let_def heap_ok_def)
  next
    case False
    then have j0: "0 < j" by simp
    have i: "?i < j" using j0 by linarith
    have len: "?i < length h" using i "1.prems"(1) by linarith
    have due: "due ?g k = (if k = ?i then due h j else if k = j then due h ?i else due h k)"
      if "k < length h" for k using due_Swap [OF len "1.prems"(1) that] .
    have less: "due h j < due h ?i" using False by (simp add: Less_def)
    have par: "parent k < k" if "0 < k" for k :: nat using that by linarith
    have A: "due ?g (parent k) \<le> due ?g k" if k: "k < length h" "0 < k" "k \<noteq> ?i" for k
    proof -
      have pk: "parent k < length h" using par [OF k(2)] k(1) by simp
      show ?thesis
      proof (cases "k = j")
        case True
        then show ?thesis using due [OF k(1)] due [OF pk] less i by simp
      next
        case kj: False
        have kk: "due h (parent k) \<le> due h k" using "1.prems"(2) k kj by auto
        have "parent k = j \<Longrightarrow> due h ?i \<le> due h k" using "1.prems"(3) k j0 by auto
        then show ?thesis using due [OF k(1)] due [OF pk] k(3) kj kk less by auto
      qed
    qed
    have B: "due ?g (parent ?i) \<le> due ?g k" if k: "k < length h" "0 < k" "parent k = ?i" "0 < ?i" for k
    proof -
      have pp: "parent ?i < ?i" using k(4) by linarith
      have up1: "due h (parent ?i) \<le> due h ?i" using "1.prems"(2) len k(4) i by auto
      have k': "k \<noteq> ?i" using par [OF k(2)] k(3) by auto
      have gp: "due ?g (parent ?i) = due h (parent ?i)"
        using due [of "parent ?i"] pp len i by simp
      show ?thesis
      proof (cases "k = j")
        case True
        then have "due ?g k = due h ?i" using due [OF k(1)] k' by simp
        then show ?thesis using gp up1 by simp
      next
        case False
        then have "due ?g k = due h k" using due [OF k(1)] k' by simp
        moreover have "due h ?i \<le> due h k" using "1.prems"(2) k False by metis
        ultimately show ?thesis using gp up1 by simp
      qed
    qed
    have "heap_ok (up ?i ?g)"
      using "1.IH" [OF j0 [THEN less_imp_neq, THEN not_sym] refl] False len A B by auto
    then show ?thesis using False by (subst up.simps) (auto simp: Let_def)
  qed
qed

section \<open>Init, Push and Pop\<close>

lemma init_from_ok:
  assumes "m \<le> length h div 2" "ordered m (length h) h"
  shows "heap_ok (init_from m h) \<and> items (init_from m h) = items h \<and> length (init_from m h) = length h"
  using assms
proof (induction m arbitrary: h)
  case 0
  then show ?case by (simp add: heap_ok_def)
next
  case (Suc m)
  have m: "m < length h" using Suc.prems(1) by linarith
  have keep: "length (down m (length h) h) = length h" "items (down m (length h) h) = items h"
    using down_keeps [OF m order_refl] by auto
  have "ordered m (length h) (down m (length h) h)"
    by (rule down_ordered [OF m order_refl order_refl])
       (use Suc.prems(2) in \<open>auto simp: ordered_def Suc_le_eq\<close>)
  then show ?case using Suc.IH [of "down m (length h) h"] Suc.prems(1) keep by simp
qed

lemma heap_Init_ok: "heap_ok (heap_Init h) \<and> items (heap_Init h) = items h \<and> length (heap_Init h) = length h"
  unfolding heap_Init_def
proof (rule init_from_ok)
  show "ordered (length h div 2) (length h) h" unfolding ordered_def by (auto; linarith)
qed simp

lemma heap_Push_ok:
  assumes "heap_ok h"
  shows "heap_ok (heap_Push x h) \<and> items (heap_Push x h) = add_mset (strip x) (items h)"
proof
  let ?g = "Push_item x h"
  have len: "length ?g = Suc (length h)" by (simp add: Push_item_def)
  have par: "parent k < k" if "0 < k" for k :: nat using that by linarith
  have A: "due ?g (parent k) \<le> due ?g k" if "k < length ?g" "0 < k" "k \<noteq> length h" for k
  proof -
    have "k < length h" "parent k < length h" using that len par [OF that(2)] by linarith+
    then show ?thesis using assms that(2) by (simp add: Push_item_def nth_append heap_ok_def ordered_def)
  qed
  have B: "parent k \<noteq> length h" if "k < length ?g" "0 < k" for k
    using that len par [OF that(2)] by linarith
  show "heap_ok (heap_Push x h)"
    unfolding heap_Push_def by (rule up_ordered) (use A B len in auto)
  show "items (heap_Push x h) = add_mset (strip x) (items h)"
    unfolding heap_Push_def using up_keeps [of "length h" ?g] len by (simp add: Push_item_def)
qed

definition heap_peek :: "jobHeap \<Rightarrow> queueItem option" where
  "heap_peek h = (if h = [] then None else Some (h ! 0))"

lemma heap_least:
  assumes "heap_ok h" "k < length h"
  shows "due h 0 \<le> due h k"
  using assms(2)
proof (induction k rule: less_induct)
  case (less k)
  show ?case
  proof (cases "k = 0")
    case False
    then have p: "parent k < k" by linarith
    then have "due h 0 \<le> due h (parent k)" using less by simp
    also have "\<dots> \<le> due h k" using assms(1) less.prems False by (simp add: heap_ok_def ordered_def)
    finally show ?thesis .
  qed simp
qed

lemma items_last: "h \<noteq> [] \<Longrightarrow> items h = add_mset (strip (last h)) (items (butlast h))"
  by (cases h rule: rev_cases) auto

lemma heap_Pop_ok:
  assumes "heap_ok h" "h \<noteq> []"
  shows "heap_ok (snd (heap_Pop h)) \<and> strip (fst (heap_Pop h)) = strip (h ! 0) \<and>
         items h = add_mset (strip (h ! 0)) (items (snd (heap_Pop h)))"
proof -
  let ?n = "length h - 1"
  let ?g = "Swap 0 ?n h"
  let ?d = "down 0 ?n ?g"
  have n: "?n < length h" "0 < length h" using assms(2) by auto
  have keep: "length ?d = length h \<and> items ?d = items h \<and> ?d ! ?n = ?g ! ?n"
  proof (cases "?n = 0")
    case True
    then have "?d = ?g" by (subst down.simps) simp
    then show ?thesis using n by simp
  next
    case False
    then show ?thesis using down_keeps [of 0 ?n ?g] down_above [of 0 ?n ?n ?g] n by simp
  qed
  have swap0: "due ?g k = due h k" if "0 < k" "k < ?n" for k
    using due_Swap [OF n(2) n(1), of k] that by auto
  have ord: "ordered 0 ?n ?d"
  proof (cases "?n = 0")
    case False
    have "due ?g (parent j) \<le> due ?g j" if "j < ?n" "0 < j" "parent j \<noteq> 0" for j
      using assms(1) that swap0 [of j] swap0 [of "parent j"] by (auto simp: heap_ok_def ordered_def)
    then show ?thesis using down_ordered [of 0 ?n ?g 0] False by auto
  qed (simp add: ordered_def)
  have g: "strip (?g ! ?n) = strip (h ! 0)"
    using n by (simp add: Swap_def nth_list_update)
  have ne: "?d \<noteq> []" using keep assms(2) by auto
  have last: "last ?d = ?g ! ?n" using keep ne by (simp add: last_conv_nth)
  have pop: "heap_Pop h = ((last ?d)\<lparr>q_index := -1\<rparr>, butlast ?d)"
    by (simp add: heap_Pop_def Pop_item_def Let_def)
  have 1: "heap_ok (butlast ?d)"
    using ord keep by (auto simp: heap_ok_def ordered_def nth_butlast)
  have 2: "items h = add_mset (strip (h ! 0)) (items (butlast ?d))"
    using items_last [OF ne] keep last g by simp
  show ?thesis using 1 2 g last unfolding pop by simp
qed

text \<open>The heap is the due queue the scheduler's loop relies on.\<close>

interpretation jq: due_queue heap_peek heap_Pop heap_Push items heap_ok q_next strip
proof
  fix h x
  assume ok: "heap_ok h"
  show "heap_peek h = None \<longleftrightarrow> items h = {#}" by (simp add: heap_peek_def)
  show "heap_ok (heap_Push x h) \<and> items (heap_Push x h) = add_mset (strip x) (items h)"
    by (rule heap_Push_ok [OF ok])
  assume p: "heap_peek h = Some x"
  then have h: "h \<noteq> []" "x = h ! 0" by (auto simp: heap_peek_def split: if_splits)
  show "\<forall>y\<in>#items h. q_next x \<le> q_next y"
    using heap_least [OF ok] h(2) by (auto simp: set_items in_set_conv_nth)
  show "heap_ok (snd (heap_Pop h)) \<and> strip (fst (heap_Pop h)) = strip x \<and>
        items h = add_mset (strip x) (items (snd (heap_Pop h)))"
    using heap_Pop_ok [OF ok h(1)] h(2) by simp
qed simp

end
