(* ===== verification/Scheduler.thy ===== *)
theory Scheduler
  imports JobHeap
begin

text \<open>
  The scheduler of \<open>internal/scheduler/scheduler.go\<close>: one loop over the heap of due times, a bounded
  worker pool, and the three other goroutines that touch its state under \<open>s.mu\<close> (workers, reloads,
  \<open>SetFailing\<close>). Each definition is one critical section or one operation of the code.

  \<open>rand.Float64\<close> is a parameter: \<open>rnd n\<close> is the \<open>n\<close>-th number drawn, and the state counts the draws.
  Its range, at least 0 and below 1, is the hypothesis \<open>unit_draws\<close>. The two floating-point products of
  the jitter are exact rationals, truncated as the conversion to \<open>time.Duration\<close> truncates. The
  checkers are parameters too: a function from the monitor to a result or a panic.
\<close>

section \<open>Cadence\<close>

definition TypeDomain :: checkType where
  "TypeDomain = ''domain''"

definition MinDomainInterval :: duration where
  "MinDomainInterval = hours 6"

definition MinInterval :: "checkType \<Rightarrow> duration" where
  "MinInterval t = (if t = TypeDomain then MinDomainInterval else 0)"

definition FailureRecheck :: duration where
  "FailureRecheck = minutes 1"

definition Cadence :: "checkType \<Rightarrow> duration \<Rightarrow> duration \<Rightarrow> bool \<Rightarrow> duration" where
  "Cadence typ interval timeout failing =
     (let interval' = (if failing then min interval FailureRecheck else interval)
      in max (max interval' (MinInterval typ)) ((timeout * 5) sdiv 4))"

definition cadence :: "job \<Rightarrow> duration" where
  "cadence j = Cadence (m_Type (j_Monitor j)) (j_Interval j) (m_Timeout (j_Monitor j)) (j_Failing j)"

section \<open>Jitter\<close>

text \<open>Go's conversion of a fraction to an integer drops what follows the point.\<close>

definition trunc :: "rat \<Rightarrow> int" where
  "trunc x = (if 0 \<le> x then \<lfloor>x\<rfloor> else \<lceil>x\<rceil>)"

definition jitterWindow :: "rat \<Rightarrow> duration \<Rightarrow> duration" where
  "jitterWindow jf c = (if jf \<le> 0 then 0 else trunc (of_int c * jf))"

type_synonym draws = "nat \<Rightarrow> rat"

definition unit_draws :: "draws \<Rightarrow> bool" where
  "unit_draws rnd \<longleftrightarrow> (\<forall>n. 0 \<le> rnd n \<and> rnd n < 1)"

definition spread :: "draws \<Rightarrow> nat \<Rightarrow> duration \<Rightarrow> duration \<times> nat" where
  "spread rnd n window =
     (if window \<le> 0 then (0, n) else (trunc (rnd n * of_int window), Suc n))"

definition nextRun :: "draws \<Rightarrow> rat \<Rightarrow> nat \<Rightarrow> instant \<Rightarrow> duration \<Rightarrow> instant \<times> nat" where
  "nextRun rnd jf n from' interval =
     (let (d, n') = spread rnd n (jitterWindow jf interval) in (from' + (interval + d), n'))"

definition firstCheckDelay :: duration where
  "firstCheckDelay = seconds 2"

definition catchUpSpread :: duration where
  "catchUpSpread = seconds 30"

definition firstRun :: "draws \<Rightarrow> rat \<Rightarrow> nat \<Rightarrow> instant \<Rightarrow> job \<Rightarrow> instant \<times> nat" where
  "firstRun rnd jf n now j =
     (let c = cadence j in
      if j_NeverChecked j then nextRun rnd jf n now firstCheckDelay
      else if is_zero (j_LastCheck j) then nextRun rnd jf n now c
      else let due = j_LastCheck j + c in
        if now + c < due then nextRun rnd jf n now c
        else if now + firstCheckDelay < due then
          (let (d, n') = spread rnd n (jitterWindow jf c) in (due + d, n'))
        else
          (let (d, n') = spread rnd n (min (jitterWindow jf c) catchUpSpread)
           in (now + (firstCheckDelay + d), n')))"

section \<open>The worker pool's size\<close>

definition minWorkers :: int where "minWorkers = 8"

definition maxWorkers :: int where "maxWorkers = 128"

definition monitorsPerWorker :: int where "monitorsPerWorker = 4"

definition autoWorkerCount :: "int \<Rightarrow> int \<Rightarrow> int" where
  "autoWorkerCount procs scheduled =
     (let byCPU = procs * 4;
          byMonitors = (scheduled + monitorsPerWorker - 1) sdiv monitorsPerWorker
      in min (max (max byCPU byMonitors) minWorkers) maxWorkers)"

section \<open>The scheduler\<close>

record result =
  r_OK :: bool
  r_Kind :: string
  r_Error :: string
  r_CheckedAt :: instant

record outcome =
  oc_Monitor :: monitor
  oc_Result :: result
  oc_Aborted :: bool

datatype checkEnd = Returned result | Panicked

type_synonym checkers = "checkType \<rightharpoonup> (monitor \<Rightarrow> checkEnd)"

text \<open>
  \<open>sc_tasks\<close> is the buffered channel to the pool, \<open>sc_handing\<close> the job the loop has marked in flight
  and not sent yet, \<open>sc_running\<close> the jobs the workers are inside of (\<open>busy\<close> counts them), and
  \<open>sc_outcomes\<close> what \<open>OnResult\<close> has received. \<open>sc_wake\<close> and \<open>sc_reloadSoon\<close> are the one-slot channels.
\<close>

record scheduler =
  sc_queue :: jobHeap
  sc_inFlight :: "int set"
  sc_handing :: "job option"
  sc_tasks :: "job list"
  sc_running :: "job list"
  sc_outcomes :: "outcome list"
  sc_skipped :: nat
  sc_failingSeq :: nat
  sc_workers :: int
  sc_workerTarget :: int
  sc_autoWorkers :: bool
  sc_reloadInterval :: duration
  sc_jitterFraction :: rat
  sc_drawn :: nat
  sc_wake :: bool
  sc_reloadSoon :: bool

record sched_options =
  op_Workers :: int
  op_ReloadInterval :: duration
  op_JitterFraction :: rat

definition new_scheduler :: "int \<Rightarrow> sched_options \<Rightarrow> scheduler" where
  "new_scheduler procs opts =
     (let auto = op_Workers opts \<le> 0;
          jf = (if op_JitterFraction opts = 0 then 1 / 10 else op_JitterFraction opts)
      in \<lparr>sc_queue = heap_Init [], sc_inFlight = {}, sc_handing = None, sc_tasks = [],
          sc_running = [], sc_outcomes = [], sc_skipped = 0, sc_failingSeq = 0,
          sc_workers = (if auto then autoWorkerCount procs 0 else op_Workers opts),
          sc_workerTarget = 0, sc_autoWorkers = auto,
          sc_reloadInterval = (if op_ReloadInterval opts \<le> 0 then seconds 30 else op_ReloadInterval opts),
          sc_jitterFraction = (if jf < 0 then 0 else jf),
          sc_drawn = 0, sc_wake = False, sc_reloadSoon = False\<rparr>)"

definition taskBuffer :: nat where
  "taskBuffer = nat (maxWorkers * 2)"

definition growPool :: "scheduler \<Rightarrow> scheduler" where
  "growPool s = (if sc_workers s < sc_workerTarget s then s\<lparr>sc_workers := sc_workerTarget s\<rparr> else s)"

definition timeUntilNext :: "instant \<Rightarrow> scheduler \<Rightarrow> duration" where
  "timeUntilNext now s =
     (if sc_queue s = [] then hours 1
      else let wait = q_next (sc_queue s ! 0) - now in if wait < 0 then 0 else wait)"

subsection \<open>Dispatching\<close>

text \<open>The part of one turn of \<open>dispatchDue\<close> under the lock: the job, whether it is skipped, the state.\<close>

definition dispatch_pick ::
  "draws \<Rightarrow> instant \<Rightarrow> scheduler \<Rightarrow> (job \<times> bool \<times> scheduler) option" where
  "dispatch_pick rnd now s =
     (if sc_queue s = [] \<or> now < q_next (sc_queue s ! 0) then None
      else
        let (item, h) = heap_Pop (sc_queue s);
            i = q_ID item;
            skip = (i \<in> sc_inFlight s);
            (t, n) = nextRun rnd (sc_jitterFraction s) (sc_drawn s) now (cadence (q_job item))
        in Some (q_job item, skip,
             s\<lparr>sc_inFlight := (if skip then sc_inFlight s else insert i (sc_inFlight s)),
               sc_queue := heap_Push (item\<lparr>q_next := t\<rparr>) h, sc_drawn := n\<rparr>))"

definition hand_over :: "job \<Rightarrow> scheduler \<Rightarrow> scheduler" where
  "hand_over j s = s\<lparr>sc_handing := None, sc_tasks := sc_tasks s @ [j]\<rparr>"

definition abandon :: "job \<Rightarrow> scheduler \<Rightarrow> scheduler" where
  "abandon j s = s\<lparr>sc_handing := None, sc_inFlight := sc_inFlight s - {m_ID (j_Monitor j)}\<rparr>"

text \<open>
  The whole loop. \<open>cancelled j\<close> says that the \<open>select\<close> which sends \<open>j\<close> takes the \<open>ctx.Done\<close> arm; a
  send that waits for room in the channel is the send. \<open>None\<close> is a loop that never ends.
\<close>

partial_function (option) dispatchDue ::
  "draws \<Rightarrow> (job \<Rightarrow> bool) \<Rightarrow> instant \<Rightarrow> scheduler \<Rightarrow> scheduler option" where
  "dispatchDue rnd cancelled now s =
     (case dispatch_pick rnd now s of
        None \<Rightarrow> Some s
      | Some (j, skip, s') \<Rightarrow>
          if skip then dispatchDue rnd cancelled now (s'\<lparr>sc_skipped := sc_skipped s' + 1\<rparr>)
          else if cancelled j then Some (abandon j s')
          else dispatchDue rnd cancelled now (hand_over j s'))"

subsection \<open>Running one check\<close>

definition FailInternal :: string where
  "FailInternal = ''internal''"

definition internal_failure :: "job \<Rightarrow> string \<Rightarrow> instant \<Rightarrow> outcome" where
  "internal_failure j err now =
     \<lparr>oc_Monitor = j_Monitor j,
      oc_Result = \<lparr>r_OK = False, r_Kind = FailInternal, r_Error = err, r_CheckedAt = now\<rparr>,
      oc_Aborted = False\<rparr>"

text \<open>\<open>ctxErr\<close> is whether the context is cancelled when the check returns.\<close>

definition check_outcome :: "checkers \<Rightarrow> bool \<Rightarrow> instant \<Rightarrow> job \<Rightarrow> outcome" where
  "check_outcome cs ctxErr now j =
     (case cs (m_Type (j_Monitor j)) of
        None \<Rightarrow> internal_failure j (''unsupported monitor type '' @ m_Type (j_Monitor j)) now
      | Some c \<Rightarrow> (case c (j_Monitor j) of
            Panicked \<Rightarrow> internal_failure j ''internal error during check'' now
          | Returned res \<Rightarrow> \<lparr>oc_Monitor = j_Monitor j, oc_Result = res,
                             oc_Aborted = (\<not> r_OK res \<and> ctxErr)\<rparr>))"

definition start_check :: "scheduler \<Rightarrow> scheduler" where
  "start_check s = (case sc_tasks s of [] \<Rightarrow> s
     | j # js \<Rightarrow> s\<lparr>sc_tasks := js, sc_running := j # sc_running s\<rparr>)"

definition runCheck :: "checkers \<Rightarrow> bool \<Rightarrow> instant \<Rightarrow> job \<Rightarrow> scheduler \<Rightarrow> scheduler" where
  "runCheck cs ctxErr now j s =
     s\<lparr>sc_outcomes := sc_outcomes s @ [check_outcome cs ctxErr now j],
       sc_running := remove1 j (sc_running s),
       sc_inFlight := sc_inFlight s - {m_ID (j_Monitor j)}\<rparr>"

subsection \<open>Reloading the monitor set\<close>

definition existing :: "jobHeap \<Rightarrow> int \<rightharpoonup> queueItem" where
  "existing h = foldl (\<lambda>m x. m(q_ID x \<mapsto> x)) Map.empty h"

text \<open>The loop over the jobs of the registry, with the number of draws so far.\<close>

fun reload_items ::
  "draws \<Rightarrow> rat \<Rightarrow> instant \<Rightarrow> nat \<Rightarrow> (int \<rightharpoonup> queueItem) \<Rightarrow> job list \<Rightarrow> nat \<Rightarrow> jobHeap \<times> nat" where
  "reload_items rnd jf now readFrom ex [] n = ([], n)"
| "reload_items rnd jf now readFrom ex (j # js) n =
     (if j_Interval j \<le> 0 then reload_items rnd jf now readFrom ex js n
      else
        let (item, n1) =
          (case ex (m_ID (j_Monitor j)) of
             Some old \<Rightarrow>
               let j' = (if readFrom < q_failingSeq old then j\<lparr>j_Failing := j_Failing (q_job old)\<rparr> else j);
                   item = \<lparr>q_job = j', q_next = q_next old, q_failingSeq = q_failingSeq old, q_index = 0\<rparr>
               in if cadence j' \<noteq> cadence (q_job old)
                  then let (t, n') = nextRun rnd jf n now (cadence j') in (item\<lparr>q_next := t\<rparr>, n')
                  else (item, n)
           | None \<Rightarrow>
               let (t, n') = firstRun rnd jf n now j
               in (\<lparr>q_job = j, q_next = t, q_failingSeq = 0, q_index = 0\<rparr>, n'));
            (items, n2) = reload_items rnd jf now readFrom ex js n1
        in (item # items, n2))"

text \<open>\<open>readFrom\<close> is the sequence number read before the registry was asked.\<close>

definition reload_read :: "scheduler \<Rightarrow> nat" where
  "reload_read s = sc_failingSeq s"

definition reload_apply ::
  "draws \<Rightarrow> int \<Rightarrow> instant \<Rightarrow> nat \<Rightarrow> job list \<Rightarrow> scheduler \<Rightarrow> scheduler" where
  "reload_apply rnd procs now readFrom jobs s =
     (let (xs, n) = reload_items rnd (sc_jitterFraction s) now readFrom (existing (sc_queue s)) jobs (sc_drawn s);
          h = heap_Init xs;
          want = autoWorkerCount procs (int (length h))
      in s\<lparr>sc_queue := h, sc_drawn := n,
           sc_workerTarget := (if sc_autoWorkers s \<and> sc_workerTarget s < want then want
                               else sc_workerTarget s),
           sc_wake := True\<rparr>)"

definition ReloadSoon :: "scheduler \<Rightarrow> scheduler" where
  "ReloadSoon s = s\<lparr>sc_reloadSoon := True\<rparr>"

subsection \<open>A check's outcome changes the cadence\<close>

fun position :: "int \<Rightarrow> jobHeap \<Rightarrow> nat option" where
  "position i [] = None"
| "position i (x # xs) = (if q_ID x = i then Some 0 else map_option Suc (position i xs))"

definition SetFailing :: "draws \<Rightarrow> instant \<Rightarrow> int \<Rightarrow> bool \<Rightarrow> scheduler \<Rightarrow> scheduler" where
  "SetFailing rnd now i failing s =
     (case position i (sc_queue s) of
        None \<Rightarrow> s
      | Some k \<Rightarrow>
          let h = sc_queue s;
              fseq = sc_failingSeq s + 1;
              item = (h ! k)\<lparr>q_failingSeq := fseq\<rparr>;
              s1 = s\<lparr>sc_failingSeq := fseq\<rparr>
          in if j_Failing (q_job item) = failing then s1\<lparr>sc_queue := h[k := item]\<rparr>
             else
               let previousCadence = cadence (q_job item);
                   item' = item\<lparr>q_job := (q_job item)\<lparr>j_Failing := failing\<rparr>\<rparr>
               in if cadence (q_job item') = previousCadence then s1\<lparr>sc_queue := h[k := item']\<rparr>
                  else
                    let (t, n) = nextRun rnd (sc_jitterFraction s) (sc_drawn s) now (cadence (q_job item'));
                        item'' = (if \<not> failing \<or> t < q_next item' then item'\<lparr>q_next := t\<rparr> else item')
                    in s1\<lparr>sc_queue := heap_Init (h[k := item'']), sc_drawn := n, sc_wake := True\<rparr>)"

subsection \<open>The readings\<close>

definition Size :: "scheduler \<Rightarrow> nat" where
  "Size s = length (sc_queue s)"

definition Busy :: "scheduler \<Rightarrow> nat" where
  "Busy s = length (sc_running s)"

definition QueueDepth :: "scheduler \<Rightarrow> nat" where
  "QueueDepth s = length (sc_tasks s)"

definition MaxCheckTimeout :: "scheduler \<Rightarrow> duration" where
  "MaxCheckTimeout s =
     foldl (\<lambda>m x. let t = m_Timeout (j_Monitor (q_job x)) in if m < t then t else m) 0 (sc_queue s)"

definition item_gap :: "rat \<Rightarrow> queueItem \<Rightarrow> duration" where
  "item_gap jf x = (let c = cadence (q_job x) in c + jitterWindow jf c + m_Timeout (j_Monitor (q_job x)))"

definition CheckGap :: "scheduler \<Rightarrow> duration" where
  "CheckGap s =
     foldl (\<lambda>gap x. let g = item_gap (sc_jitterFraction s) x in if gap = 0 \<or> g < gap then g else gap)
       0 (sc_queue s)"

end
