(* ===== verification/Dispatch.thy ===== *)
theory Dispatch
  imports SchedulerProps
begin

text \<open>
  The dispatching loop: seen from outside, the queue is a map from monitors to their entries, and one
  call of \<open>dispatchDue\<close> serves every entry that is due, once, and ends.
\<close>

section \<open>The queue as a map from monitors\<close>

definition entry :: "jobHeap \<Rightarrow> int \<rightharpoonup> queueItem" where
  "entry h = map_of (map (\<lambda>x. (q_ID x, strip x)) h)"

definition ids_ok :: "jobHeap \<Rightarrow> bool" where
  "ids_ok h \<longleftrightarrow> distinct (map q_ID h)"

lemma ids_ok_items: "items g = items h \<Longrightarrow> ids_ok g = ids_ok h"
proof -
  have "mset (map q_ID k) = image_mset q_ID (items k)" for k
    by (simp add: items_def multiset.map_comp comp_def)
  then show "items g = items h \<Longrightarrow> ids_ok g = ids_ok h"
    unfolding ids_ok_def by (metis mset_eq_imp_distinct_iff)
qed

lemma entry_Some:
  assumes "ids_ok h"
  shows "entry h i = Some x \<longleftrightarrow> x \<in># items h \<and> q_ID x = i"
proof -
  have "distinct (map fst (map (\<lambda>x. (q_ID x, strip x)) h))"
    using assms by (simp add: ids_ok_def comp_def)
  then show ?thesis by (auto simp: entry_def set_items map_of_eq_Some_iff)
qed

lemma entry_None: "entry h i = None \<longleftrightarrow> (\<forall>x\<in>#items h. q_ID x \<noteq> i)"
  by (auto simp: entry_def set_items map_of_eq_None_iff image_image)

lemma entry_items: "ids_ok h \<Longrightarrow> items g = items h \<Longrightarrow> entry g = entry h"
  using ids_ok_items [of g h] by (intro map_eqI) (simp add: entry_Some)

lemma entry_replace:
  assumes "ids_ok h" "x \<in># items h" "items h' = add_mset x' (items h - {#x#})" "q_ID x' = q_ID x"
  shows "ids_ok h' \<and> entry h' = (entry h)(q_ID x \<mapsto> x')"
proof
  have "mset (map q_ID k) = image_mset q_ID (items k)" for k
    by (simp add: items_def multiset.map_comp comp_def)
  moreover have "image_mset q_ID (items h') = image_mset q_ID (items h)"
  proof -
    have "image_mset q_ID (items h') = image_mset q_ID (add_mset x (items h - {#x#}))"
      using assms(3,4) by simp
    then show ?thesis using assms(2) by simp
  qed
  ultimately show ok': "ids_ok h'"
    using assms(1) unfolding ids_ok_def by (metis mset_eq_imp_distinct_iff)
  show "entry h' = (entry h)(q_ID x \<mapsto> x')"
  proof
    fix i
    show "entry h' i = ((entry h)(q_ID x \<mapsto> x')) i"
    proof (cases "i = q_ID x")
      case True
      then show ?thesis using entry_Some [OF ok', of i x'] assms(3,4) by simp
    next
      case False
      have "y \<in># items h' \<longleftrightarrow> y \<in># items h" if "q_ID y = i" for y
        using that False assms(3,4) by (auto simp: in_diff_count)
      then have "entry h' i = Some y \<longleftrightarrow> entry h i = Some y" for y
        using entry_Some [OF ok'] entry_Some [OF assms(1)] by metis
      then have "entry h' i = entry h i" by (metis not_Some_eq)
      then show ?thesis using False by simp
    qed
  qed
qed

section \<open>One turn of the loop\<close>

definition intervals_ok :: "jobHeap \<Rightarrow> bool" where
  "intervals_ok h \<longleftrightarrow> (\<forall>x\<in>#items h. 0 < j_Interval (q_job x))"

definition queue_ok :: "jobHeap \<Rightarrow> bool" where
  "queue_ok h \<longleftrightarrow> heap_ok h \<and> ids_ok h \<and> intervals_ok h"

lemma dispatch_pick_None:
  assumes "queue_ok (sc_queue s)"
  shows "dispatch_pick rnd now s = None \<longleftrightarrow> (\<forall>x\<in>#items (sc_queue s). now < q_next x)"
proof -
  have "dispatch_pick rnd now s = None \<longleftrightarrow> \<not> jq.head_due now (sc_queue s)"
    by (auto simp: dispatch_pick_def jq.head_due_def heap_peek_def Let_def not_le split: prod.splits)
  then show ?thesis using jq.head_decides [of "sc_queue s" now] assms by (auto simp: queue_ok_def not_le)
qed

text \<open>What a turn does to the queue: entry \<open>x\<close>, which is due, becomes \<open>x'\<close>.\<close>

definition rescheduled :: "rat \<Rightarrow> instant \<Rightarrow> queueItem \<Rightarrow> queueItem \<Rightarrow> bool" where
  "rescheduled jf now x x' \<longleftrightarrow>
     q_job x' = q_job x \<and> q_failingSeq x' = q_failingSeq x \<and>
     now + cadence (q_job x) \<le> q_next x' \<and>
     q_next x' \<le> now + cadence (q_job x) + jitterWindow jf (cadence (q_job x))"

lemma dispatch_pick_Some:
  assumes "queue_ok (sc_queue s)" "unit_draws rnd" "dispatch_pick rnd now s = Some (j, skip, s')"
  obtains x x' where
    "x \<in># items (sc_queue s)" "q_next x \<le> now" "j = q_job x"
    "rescheduled (sc_jitterFraction s) now x x'" "now < q_next x'"
    "queue_ok (sc_queue s')" "entry (sc_queue s') = (entry (sc_queue s))(q_ID x \<mapsto> x')"
    "jq.due_count now (sc_queue s') < jq.due_count now (sc_queue s)"
    "skip = (q_ID x \<in> sc_inFlight s)"
    "sc_inFlight s' = insert (q_ID x) (sc_inFlight s)"
    "sc_tasks s' = sc_tasks s" "sc_skipped s' = sc_skipped s"
    "sc_jitterFraction s' = sc_jitterFraction s"
proof -
  let ?h = "sc_queue s"
  have ok: "heap_ok ?h" "ids_ok ?h" "intervals_ok ?h" using assms(1) by (auto simp: queue_ok_def)
  have ne: "?h \<noteq> []" and due: "q_next (?h ! 0) \<le> now"
    using assms(3) by (auto simp: dispatch_pick_def split: if_splits)
  have peek: "heap_peek ?h = Some (?h ! 0)" using ne by (simp add: heap_peek_def)
  obtain item h where pop: "heap_Pop ?h = (item, h)" by (metis surj_pair)
  let ?x = "strip (?h ! 0)"
  have sitem: "strip item = ?x" using jq.pop_removes [OF ok(1) peek] pop by simp
  then have same: "q_job item = q_job ?x" "q_failingSeq item = q_failingSeq ?x"
    by (metis strip_sel)+
  have mem: "?x \<in># items ?h" using jq.pop_removes [OF ok(1) peek] by simp
  have pos: "0 < j_Interval (q_job ?x)" using ok(3) mem by (auto simp: intervals_ok_def)
  obtain t n where nr: "nextRun rnd (sc_jitterFraction s) (sc_drawn s) now (cadence (q_job item)) = (t, n)"
    by (metis surj_pair)
  have c: "0 < cadence (q_job ?x)" using pos by (simp add: cadence_pos)
  have t: "now + cadence (q_job ?x) \<le> t \<and>
      t \<le> now + cadence (q_job ?x) + jitterWindow (sc_jitterFraction s) (cadence (q_job ?x))"
    using nextRun_bounds [OF assms(2), of "cadence (q_job ?x)"] c nr same
    by (metis fst_conv less_imp_le)
  let ?x' = "strip (item\<lparr>q_next := t\<rparr>)"
  have late: "now < q_next (item\<lparr>q_next := t\<rparr>)" using t c by simp
  have s': "j = q_job item" "skip = (q_ID item \<in> sc_inFlight s)"
    "s' = s\<lparr>sc_inFlight := (if skip then sc_inFlight s else insert (q_ID item) (sc_inFlight s)),
            sc_queue := heap_Push (item\<lparr>q_next := t\<rparr>) h, sc_drawn := n\<rparr>"
    using assms(3) ne due pop nr by (auto simp: dispatch_pick_def Let_def split: if_splits)
  have q: "heap_ok (sc_queue s')" "items (sc_queue s') = add_mset ?x' (items ?h - {#?x#})"
    "jq.due_count now (sc_queue s') < jq.due_count now ?h"
    using jq.serve_progress [OF ok(1) peek due late] pop s'(3) by simp_all
  have id: "q_ID ?x' = q_ID ?x" using same by simp
  have rep: "ids_ok (sc_queue s')" "entry (sc_queue s') = (entry ?h)(q_ID ?x \<mapsto> ?x')"
    using entry_replace [OF ok(2) mem q(2) id] by auto
  have "intervals_ok (sc_queue s')"
    using ok(3) pos same q(2) by (auto simp: intervals_ok_def dest: in_diffD)
  then have "queue_ok (sc_queue s')" using q(1) rep(1) by (simp add: queue_ok_def)
  moreover have "rescheduled (sc_jitterFraction s) now ?x ?x'"
    using t same by (simp add: rescheduled_def)
  ultimately show thesis
    using that [of ?x ?x'] mem due s' same rep(2) q(3) late by (auto simp: insert_absorb)
qed

section \<open>The whole loop\<close>

abbreviation j_ID :: "job \<Rightarrow> int" where
  "j_ID j \<equiv> m_ID (j_Monitor j)"

definition due_ids :: "instant \<Rightarrow> scheduler \<Rightarrow> int set" where
  "due_ids now s = {i. \<exists>x. entry (sc_queue s) i = Some x \<and> q_next x \<le> now}"

text \<open>What a dispatch does to the entry of one monitor.\<close>

definition served :: "rat \<Rightarrow> instant \<Rightarrow> queueItem option \<Rightarrow> queueItem option \<Rightarrow> bool" where
  "served jf now x y \<longleftrightarrow>
     (case x of None \<Rightarrow> y = None
      | Some x \<Rightarrow> if now < q_next x then y = Some x else \<exists>x'. y = Some x' \<and> rescheduled jf now x x')"

text \<open>What a dispatch hands to the pool: the jobs of the due monitors that are not in flight.\<close>

definition handed :: "instant \<Rightarrow> scheduler \<Rightarrow> job list \<Rightarrow> bool" where
  "handed now s ts \<longleftrightarrow> distinct (map j_ID ts) \<and> j_ID ` set ts = due_ids now s - sc_inFlight s \<and>
     (\<forall>t\<in>set ts. \<exists>x. entry (sc_queue s) (j_ID t) = Some x \<and> t = q_job x)"

definition dispatched :: "instant \<Rightarrow> scheduler \<Rightarrow> scheduler \<Rightarrow> bool" where
  "dispatched now s s' \<longleftrightarrow>
     queue_ok (sc_queue s') \<and>
     (\<forall>i. served (sc_jitterFraction s) now (entry (sc_queue s) i) (entry (sc_queue s') i)) \<and>
     sc_inFlight s' = sc_inFlight s \<union> due_ids now s \<and>
     (\<exists>ts. sc_tasks s' = sc_tasks s @ ts \<and> handed now s ts) \<and>
     sc_skipped s' = sc_skipped s + card (due_ids now s \<inter> sc_inFlight s)"

lemma finite_due_ids [simp]: "finite (due_ids now s)"
proof -
  have "due_ids now s \<subseteq> dom (entry (sc_queue s))" by (auto simp: due_ids_def)
  then show ?thesis by (rule finite_subset) (simp add: entry_def finite_dom_map_of)
qed

lemma dispatched_done:
  assumes "queue_ok (sc_queue s)" "\<forall>x\<in>#items (sc_queue s). now < q_next x"
  shows "dispatched now s s"
proof -
  have ids: "ids_ok (sc_queue s)" using assms(1) by (simp add: queue_ok_def)
  have "now < q_next x" if "entry (sc_queue s) i = Some x" for i x
    using entry_Some [OF ids] that assms(2) by blast
  then have "due_ids now s = {}"
    and "served (sc_jitterFraction s) now (entry (sc_queue s) i) (entry (sc_queue s) i)" for i
    by (fastforce simp: due_ids_def served_def split: option.split)+
  then show ?thesis using assms(1) by (simp add: dispatched_def handed_def)
qed

text \<open>A turn, then the rest: the composition of the loop.\<close>

lemma dispatched_turn:
  assumes x: "entry (sc_queue s) i = Some x" "q_ID x = i" "q_next x \<le> now"
    and x': "rescheduled (sc_jitterFraction s) now x x'" "now < q_next x'"
    and s1: "entry (sc_queue s1) = (entry (sc_queue s))(i \<mapsto> x')"
      "sc_inFlight s1 = insert i (sc_inFlight s)" "sc_jitterFraction s1 = sc_jitterFraction s"
      "sc_tasks s1 = sc_tasks s @ (if i \<in> sc_inFlight s then [] else [q_job x])"
      "sc_skipped s1 = sc_skipped s + (if i \<in> sc_inFlight s then 1 else 0)"
    and rest: "dispatched now s1 s'"
  shows "dispatched now s s'"
proof -
  have due1: "due_ids now s1 = due_ids now s - {i}"
    using s1(1) x'(2) by (auto simp: due_ids_def)
  have i: "i \<in> due_ids now s" using x by (auto simp: due_ids_def)
  have "served (sc_jitterFraction s) now (entry (sc_queue s) k) (entry (sc_queue s') k)" for k
  proof -
    have r: "served (sc_jitterFraction s) now (((entry (sc_queue s))(i \<mapsto> x')) k) (entry (sc_queue s') k)"
      using rest s1(1,3) by (simp add: dispatched_def)
    show ?thesis
    proof (cases "k = i")
      case True
      then show ?thesis using r x x' by (simp add: served_def)
    next
      case False
      then show ?thesis using r by simp
    qed
  qed
  moreover have "sc_inFlight s' = sc_inFlight s \<union> due_ids now s"
    using rest i by (auto simp: dispatched_def due1 s1(2))
  moreover obtain ts where ts: "sc_tasks s' = sc_tasks s1 @ ts" "handed now s1 ts"
    using rest by (auto simp: dispatched_def)
  have "handed now s ((if i \<in> sc_inFlight s then [] else [q_job x]) @ ts)"
  proof -
    have ids: "j_ID ` set ts = due_ids now s - {i} - insert i (sc_inFlight s)"
      and ent: "\<forall>t\<in>set ts. \<exists>y. entry (sc_queue s1) (j_ID t) = Some y \<and> t = q_job y"
      and dis: "distinct (map j_ID ts)"
      using ts(2) by (simp_all add: handed_def due1 s1(2))
    have "\<exists>y. entry (sc_queue s) (j_ID t) = Some y \<and> t = q_job y" if "t \<in> set ts" for t
    proof -
      have "j_ID t \<noteq> i" using ids that by blast
      then show ?thesis using ent that s1(1) by auto
    qed
    then show ?thesis using ids dis i x by (auto simp: handed_def)
  qed
  then have "\<exists>ts. sc_tasks s' = sc_tasks s @ ts \<and> handed now s ts" using ts(1) s1(4) by auto
  moreover have "card (due_ids now s \<inter> sc_inFlight s) =
      card (due_ids now s1 \<inter> sc_inFlight s1) + (if i \<in> sc_inFlight s then 1 else 0)"
  proof (cases "i \<in> sc_inFlight s")
    case True
    then have "due_ids now s \<inter> sc_inFlight s = insert i (due_ids now s1 \<inter> sc_inFlight s1)"
      using i by (auto simp: due1 s1(2))
    then show ?thesis using True by (simp add: due1)
  next
    case False
    then have "due_ids now s \<inter> sc_inFlight s = due_ids now s1 \<inter> sc_inFlight s1"
      by (auto simp: due1 s1(2))
    then show ?thesis using False by simp
  qed
  ultimately show ?thesis using rest s1(5) by (simp add: dispatched_def)
qed

lemma dispatchDue_dispatched:
  assumes "unit_draws rnd" "queue_ok (sc_queue s)"
  shows "\<exists>s'. dispatchDue rnd (\<lambda>_. False) now s = Some s' \<and> dispatched now s s'"
  using assms(2)
proof (induction "jq.due_count now (sc_queue s)" arbitrary: s rule: less_induct)
  case less
  show ?case
  proof (cases "dispatch_pick rnd now s")
    case None
    then have "dispatched now s s" using dispatch_pick_None dispatched_done less.prems by blast
    then show ?thesis using None by (subst dispatchDue.simps) simp
  next
    case (Some r)
    then obtain j skip s1 where r: "dispatch_pick rnd now s = Some (j, skip, s1)" by (cases r) auto
    then obtain x x' where t: "x \<in># items (sc_queue s)" "q_next x \<le> now" "j = q_job x"
      "rescheduled (sc_jitterFraction s) now x x'" "now < q_next x'"
      "queue_ok (sc_queue s1)" "entry (sc_queue s1) = (entry (sc_queue s))(q_ID x \<mapsto> x')"
      "jq.due_count now (sc_queue s1) < jq.due_count now (sc_queue s)"
      "skip = (q_ID x \<in> sc_inFlight s)" "sc_inFlight s1 = insert (q_ID x) (sc_inFlight s)"
      "sc_tasks s1 = sc_tasks s" "sc_skipped s1 = sc_skipped s"
      "sc_jitterFraction s1 = sc_jitterFraction s"
      using dispatch_pick_Some [OF less.prems assms(1)] by metis
    let ?s2 = "if skip then s1\<lparr>sc_skipped := sc_skipped s1 + 1\<rparr> else hand_over j s1"
    have q2: "sc_queue ?s2 = sc_queue s1" by (simp add: hand_over_def)
    then obtain s' where s': "dispatchDue rnd (\<lambda>_. False) now ?s2 = Some s'" "dispatched now ?s2 s'"
      using less.hyps [of ?s2] t(6,8) by metis
    have x: "entry (sc_queue s) (q_ID x) = Some x"
      using t(1) entry_Some less.prems by (auto simp: queue_ok_def)
    have "dispatched now s s'"
      by (rule dispatched_turn [OF x refl t(2,4,5) _ _ _ _ _ s'(2)])
         (use t in \<open>auto simp: hand_over_def\<close>)
    moreover have "dispatchDue rnd (\<lambda>_. False) now s = Some s'"
      using s'(1) r by (subst dispatchDue.simps) (auto split: if_splits)
    ultimately show ?thesis by blast
  qed
qed

end
