(* ===== verification/Reload.thy ===== *)
theory Reload
  imports Dispatch
begin

text \<open>
  The two operations that change the queue from outside the loop: a check's outcome (\<open>SetFailing\<close>)
  and a reload of the monitor set, each as what it does to the map from monitors to entries.
\<close>

section \<open>Replacing one item of the heap\<close>

lemma position_Some: "position i h = Some k \<Longrightarrow> k < length h \<and> q_ID (h ! k) = i"
  by (induction h arbitrary: k) (auto split: if_splits)

lemma position_None: "position i h = None \<longleftrightarrow> (\<forall>x\<in>set h. q_ID x \<noteq> i)"
  by (induction h) auto

lemma items_update:
  assumes "k < length h"
  shows "items (h[k := y]) = add_mset (strip y) (items h - {#strip (h ! k)#})"
proof -
  have "items (h[k := y]) = mset ((map strip h)[k := strip y])" by (simp add: items_def flip: map_update)
  also have "\<dots> = add_mset (strip y) (mset (map strip h) - {#map strip h ! k#})"
    using assms by (intro mset_update) simp
  finally show ?thesis using assms by (simp add: items_def)
qed

lemma heap_ok_update:
  "heap_ok h \<Longrightarrow> k < length h \<Longrightarrow> q_next y = q_next (h ! k) \<Longrightarrow> heap_ok (h[k := y])"
proof -
  assume h: "heap_ok h" "k < length h" "q_next y = q_next (h ! k)"
  have "due (h[k := y]) m = due h m" for m using h(2,3) by (cases "m = k") simp_all
  then show "heap_ok (h[k := y])" using h(1) by (simp add: heap_ok_def ordered_def)
qed

lemma queue_ok_replaced:
  assumes "queue_ok h" "k < length h" "q_ID y = q_ID (h ! k)" "0 < j_Interval (q_job y)"
    and "items h' = items (h[k := y])" "heap_ok h'"
  shows "queue_ok h' \<and> entry h' = (entry h)(q_ID y \<mapsto> strip y)"
proof -
  have x: "strip (h ! k) \<in># items h" using assms(2) by (simp add: set_items)
  have it: "items h' = add_mset (strip y) (items h - {#strip (h ! k)#})"
    using items_update [OF assms(2)] assms(5) by simp
  have "ids_ok h' \<and> entry h' = (entry h)(q_ID (strip (h ! k)) \<mapsto> strip y)"
    by (rule entry_replace [OF _ x it]) (use assms(1,3) in \<open>auto simp: queue_ok_def\<close>)
  moreover have "intervals_ok h'"
    using assms(1,4) it by (auto simp: queue_ok_def intervals_ok_def dest: in_diffD)
  ultimately show ?thesis using assms(3,6) by (simp add: queue_ok_def)
qed

section \<open>SetFailing\<close>

definition next_in :: "rat \<Rightarrow> instant \<Rightarrow> job \<Rightarrow> instant \<Rightarrow> bool" where
  "next_in jf now j t \<longleftrightarrow> now + cadence j \<le> t \<and> t \<le> now + cadence j + jitterWindow jf (cadence j)"

text \<open>What an outcome does to the entry of its monitor.\<close>

definition outcome_applied :: "rat \<Rightarrow> instant \<Rightarrow> nat \<Rightarrow> bool \<Rightarrow> queueItem \<Rightarrow> queueItem \<Rightarrow> bool" where
  "outcome_applied jf now fseq failing x x' \<longleftrightarrow>
     q_job x' = (q_job x)\<lparr>j_Failing := failing\<rparr> \<and> q_failingSeq x' = fseq \<and>
     (if cadence (q_job x') = cadence (q_job x) then q_next x' = q_next x
      else if failing then q_next x' \<le> q_next x \<and>
             q_next x' \<le> now + cadence (q_job x') + jitterWindow jf (cadence (q_job x')) \<and>
             (q_next x' = q_next x \<or> next_in jf now (q_job x') (q_next x'))
      else next_in jf now (q_job x') (q_next x'))"

lemma SetFailing_spec:
  assumes "queue_ok (sc_queue s)" "unit_draws rnd" "s' = SetFailing rnd now i failing s"
  shows "queue_ok (sc_queue s') \<and>
    (case entry (sc_queue s) i of
       None \<Rightarrow> s' = s
     | Some x \<Rightarrow> sc_failingSeq s' = sc_failingSeq s + 1 \<and>
         (\<exists>x'. entry (sc_queue s') = (entry (sc_queue s))(i \<mapsto> x') \<and>
               outcome_applied (sc_jitterFraction s) now (sc_failingSeq s + 1) failing x x'))"
proof (cases "position i (sc_queue s)")
  case None
  then have "entry (sc_queue s) i = None" by (auto simp: entry_None set_items position_None)
  then show ?thesis using None assms(1,3) by (simp add: SetFailing_def)
next
  case (Some k)
  let ?h = "sc_queue s" and ?jf = "sc_jitterFraction s"
  let ?x = "?h ! k" and ?fs = "sc_failingSeq s + 1"
  have k: "k < length ?h" "q_ID ?x = i" using position_Some [OF Some] by auto
  have ok: "heap_ok ?h" "ids_ok ?h" using assms(1) by (simp_all add: queue_ok_def)
  have mem: "strip ?x \<in># items ?h" using k(1) by (simp add: set_items)
  then have e: "entry ?h i = Some (strip ?x)" using entry_Some [OF ok(2)] k(2) by simp
  have pos: "0 < j_Interval (q_job ?x)"
    using assms(1) mem by (auto simp: queue_ok_def intervals_ok_def)
  let ?j = "(q_job ?x)\<lparr>j_Failing := failing\<rparr>"
  have jpos: "0 < cadence ?j" using pos by simp
  have put: "queue_ok (sc_queue s') \<and> entry (sc_queue s') = (entry ?h)(i \<mapsto> strip y)"
    if "items (sc_queue s') = items (?h[k := y])" "heap_ok (sc_queue s')"
      "q_ID y = i" "j_Interval (q_job y) = j_Interval (q_job ?x)" for y
    using queue_ok_replaced [OF assms(1) k(1) _ _ that(1,2)] that(3,4) k(2) pos by simp
  show ?thesis
  proof (cases "j_Failing (q_job ?x) = failing")
    case True
    let ?y = "?x\<lparr>q_failingSeq := ?fs\<rparr>"
    have s': "s' = s\<lparr>sc_failingSeq := ?fs, sc_queue := ?h[k := ?y]\<rparr>"
      using assms(3) Some True by (simp add: SetFailing_def Let_def)
    have "queue_ok (sc_queue s') \<and> entry (sc_queue s') = (entry ?h)(i \<mapsto> strip ?y)"
      by (rule put) (use s' heap_ok_update [OF ok(1) k(1), of ?y] k(2) in simp_all)
    moreover have "outcome_applied ?jf now ?fs failing (strip ?x) (strip ?y)"
      using True by (simp add: outcome_applied_def)
    ultimately show ?thesis using e s' by auto
  next
    case differs: False
    let ?y = "?x\<lparr>q_failingSeq := ?fs, q_job := ?j\<rparr>"
    show ?thesis
    proof (cases "cadence ?j = cadence (q_job ?x)")
      case True
      have s': "s' = s\<lparr>sc_failingSeq := ?fs, sc_queue := ?h[k := ?y]\<rparr>"
        using assms(3) Some differs True by (simp add: SetFailing_def Let_def)
      have "queue_ok (sc_queue s') \<and> entry (sc_queue s') = (entry ?h)(i \<mapsto> strip ?y)"
        by (rule put) (use s' heap_ok_update [OF ok(1) k(1), of ?y] k(2) in simp_all)
      moreover have "outcome_applied ?jf now ?fs failing (strip ?x) (strip ?y)"
        using True by (simp add: outcome_applied_def)
      ultimately show ?thesis using e s' by auto
    next
      case cad: False
      obtain t n where nr: "nextRun rnd ?jf (sc_drawn s) now (cadence ?j) = (t, n)" by (metis surj_pair)
      have t: "next_in ?jf now ?j t"
        using nextRun_bounds [OF assms(2), of "cadence ?j"] jpos nr
        unfolding next_in_def by (metis fst_conv less_imp_le)
      let ?z = "if \<not> failing \<or> t < q_next ?y then ?y\<lparr>q_next := t\<rparr> else ?y"
      have s': "s' = s\<lparr>sc_failingSeq := ?fs, sc_queue := heap_Init (?h[k := ?z]), sc_drawn := n, sc_wake := True\<rparr>"
        using assms(3) Some differs cad nr by (simp add: SetFailing_def Let_def)
      have "queue_ok (sc_queue s') \<and> entry (sc_queue s') = (entry ?h)(i \<mapsto> strip ?z)"
        by (rule put) (use s' heap_Init_ok [of "?h[k := ?z]"] k(2) in auto)
      moreover have "outcome_applied ?jf now ?fs failing (strip ?x) (strip ?z)"
        using cad t by (auto simp: outcome_applied_def next_in_def)
      ultimately show ?thesis using e s' by auto
    qed
  qed
qed

lemma SetFailing_frame:
  "sc_inFlight (SetFailing rnd now i f s) = sc_inFlight s"
  "sc_handing (SetFailing rnd now i f s) = sc_handing s"
  "sc_tasks (SetFailing rnd now i f s) = sc_tasks s"
  "sc_running (SetFailing rnd now i f s) = sc_running s"
  "sc_workers (SetFailing rnd now i f s) = sc_workers s"
  "sc_workerTarget (SetFailing rnd now i f s) = sc_workerTarget s"
  "sc_autoWorkers (SetFailing rnd now i f s) = sc_autoWorkers s"
  "sc_jitterFraction (SetFailing rnd now i f s) = sc_jitterFraction s"
  by (auto simp: SetFailing_def Let_def split: option.split prod.split)

section \<open>Reloading\<close>

lemma existing_map_of: "existing h = map_of (rev (map (\<lambda>x. (q_ID x, x)) h))"
proof -
  have "foldl (\<lambda>m x. m(q_ID x \<mapsto> x)) m h = m ++ map_of (rev (map (\<lambda>x. (q_ID x, x)) h))" for m
    by (induction h arbitrary: m) (auto simp: map_add_def fun_eq_iff split: option.splits)
  then show ?thesis by (simp add: existing_def)
qed

lemma existing_entry:
  assumes "ids_ok h" shows "map_option strip (existing h i) = entry h i"
proof -
  have d: "distinct (map fst (rev (map (\<lambda>x. (q_ID x, x)) h)))"
    using assms by (simp add: ids_ok_def comp_def rev_map [symmetric])
  have ex: "existing h i = Some x \<longleftrightarrow> x \<in> set h \<and> q_ID x = i" for x
    using d by (auto simp: existing_map_of map_of_eq_Some_iff)
  show ?thesis
  proof (cases "existing h i")
    case None
    then have "\<forall>x\<in>set h. q_ID x \<noteq> i" using ex by force
    then have "entry h i = None" by (auto simp: entry_None set_items)
    then show ?thesis using None by simp
  next
    case (Some x)
    then have "x \<in> set h \<and> q_ID x = i" using ex by blast
    then have "entry h i = Some (strip x)" using entry_Some [OF assms] by (auto simp: set_items)
    then show ?thesis using Some by simp
  qed
qed

text \<open>What a reload makes of one job of the registry, given the entry the monitor had.\<close>

definition reloaded ::
  "draws \<Rightarrow> rat \<Rightarrow> instant \<Rightarrow> nat \<Rightarrow> queueItem option \<Rightarrow> job \<Rightarrow> queueItem \<Rightarrow> bool" where
  "reloaded rnd jf now readFrom old j x \<longleftrightarrow>
     (case old of
        None \<Rightarrow> q_job x = j \<and> q_failingSeq x = 0 \<and> (\<exists>n. q_next x = fst (firstRun rnd jf n now j))
      | Some old \<Rightarrow>
          q_job x = (if readFrom < q_failingSeq old then j\<lparr>j_Failing := j_Failing (q_job old)\<rparr> else j) \<and>
          q_failingSeq x = q_failingSeq old \<and>
          (if cadence (q_job x) = cadence (q_job old) then q_next x = q_next old
           else next_in jf now (q_job x) (q_next x)))"

lemma reloaded_strip [simp]:
  "reloaded rnd jf now r (map_option strip old) j (strip x) = reloaded rnd jf now r old j x"
  by (simp add: reloaded_def split: option.split)

lemma reload_items_spec:
  assumes "unit_draws rnd"
  shows "list_all2 (\<lambda>j x. reloaded rnd jf now readFrom (ex (j_ID j)) j x)
           (filter (\<lambda>j. 0 < j_Interval j) js) (fst (reload_items rnd jf now readFrom ex js n))"
proof (induction js arbitrary: n)
  case (Cons j js)
  show ?case
  proof (cases "j_Interval j \<le> 0")
    case False
    then have pos: "0 < j_Interval j" by simp
    have "\<exists>x n'. fst (reload_items rnd jf now readFrom ex (j # js) n) =
              x # fst (reload_items rnd jf now readFrom ex js n') \<and>
            reloaded rnd jf now readFrom (ex (j_ID j)) j x"
    proof (cases "ex (j_ID j)")
      case None
      obtain t n' where fr: "firstRun rnd jf n now j = (t, n')" by (metis surj_pair)
      let ?x = "\<lparr>q_job = j, q_next = t, q_failingSeq = 0, q_index = 0\<rparr>"
      have "fst (reload_items rnd jf now readFrom ex (j # js) n) =
          ?x # fst (reload_items rnd jf now readFrom ex js n')"
        using None False fr by (simp add: Let_def split: prod.split)
      moreover have "reloaded rnd jf now readFrom (ex (j_ID j)) j ?x"
        using None fr by (simp add: reloaded_def exI [of _ n])
      ultimately show ?thesis by blast
    next
      case (Some old)
      let ?j = "if readFrom < q_failingSeq old then j\<lparr>j_Failing := j_Failing (q_job old)\<rparr> else j"
      have c: "0 < cadence ?j" using pos by simp
      obtain t n' where nr: "nextRun rnd jf n now (cadence ?j) = (t, n')" by (metis surj_pair)
      have t: "next_in jf now ?j t"
        using nextRun_bounds [OF assms, of "cadence ?j"] c nr
        unfolding next_in_def by (metis fst_conv less_imp_le)
      let ?same = "cadence ?j = cadence (q_job old)"
      let ?x = "\<lparr>q_job = ?j, q_next = (if ?same then q_next old else t),
                 q_failingSeq = q_failingSeq old, q_index = 0\<rparr>"
      have "fst (reload_items rnd jf now readFrom ex (j # js) n) =
          ?x # fst (reload_items rnd jf now readFrom ex js (if ?same then n else n'))"
        using Some False nr by (cases ?same) (simp_all add: Let_def split: prod.split)
      moreover have "reloaded rnd jf now readFrom (ex (j_ID j)) j ?x"
        using Some t by (simp add: reloaded_def)
      ultimately show ?thesis by blast
    qed
    then obtain x n' where "fst (reload_items rnd jf now readFrom ex (j # js) n) =
        x # fst (reload_items rnd jf now readFrom ex js n')"
      "reloaded rnd jf now readFrom (ex (j_ID j)) j x" by blast
    then show ?thesis using pos Cons.IH by simp
  qed (use Cons.IH in simp)
qed simp

lemma reload_queue:
  assumes "unit_draws rnd" "queue_ok (sc_queue s)" "distinct (map j_ID jobs)"
    and "s' = reload_apply rnd procs now readFrom jobs s"
  shows "queue_ok (sc_queue s')"
    and "\<And>i. i \<notin> j_ID ` {j \<in> set jobs. 0 < j_Interval j} \<Longrightarrow> entry (sc_queue s') i = None"
    and "\<And>j. j \<in> set jobs \<Longrightarrow> 0 < j_Interval j \<Longrightarrow>
      \<exists>x. entry (sc_queue s') (j_ID j) = Some x \<and>
          reloaded rnd (sc_jitterFraction s) now readFrom (entry (sc_queue s) (j_ID j)) j x"
proof -
  let ?jf = "sc_jitterFraction s" and ?h = "sc_queue s"
  let ?js = "filter (\<lambda>j. 0 < j_Interval j) jobs"
  let ?xs = "fst (reload_items rnd ?jf now readFrom (existing ?h) jobs (sc_drawn s))"
  have h': "sc_queue s' = heap_Init ?xs"
    by (simp add: assms(4) reload_apply_def Let_def split: prod.split)
  have it: "items (sc_queue s') = items ?xs" "heap_ok (sc_queue s')"
    using heap_Init_ok [of ?xs] h' by simp_all
  have rel: "list_all2 (\<lambda>j x. reloaded rnd ?jf now readFrom (existing ?h (j_ID j)) j x) ?js ?xs"
    by (rule reload_items_spec [OF assms(1)])
  have job: "j_ID (q_job x) = j_ID j \<and> j_Interval (q_job x) = j_Interval j"
    if "reloaded rnd ?jf now readFrom old j x" for old j x
    using that by (auto simp: reloaded_def split: option.splits)
  have ids: "map q_ID ?xs = map j_ID ?js"
    using rel by (induction rule: list_all2_induct) (auto dest: job)
  have d: "ids_ok ?xs" using assms(3) unfolding ids_ok_def ids by (rule distinct_map_filter)
  then have idok: "ids_ok (sc_queue s')" using ids_ok_items [OF it(1)] by simp
  have ivs: "map (\<lambda>x. j_Interval (q_job x)) ?xs = map j_Interval ?js"
    using rel by (induction rule: list_all2_induct) (auto dest: job)
  have "\<forall>v\<in>set (map j_Interval ?js). 0 < v" by simp
  then have pos: "\<forall>x\<in>set ?xs. 0 < j_Interval (q_job x)" unfolding ivs [symmetric] by simp
  then show "queue_ok (sc_queue s')"
    using it idok by (simp add: queue_ok_def intervals_ok_def set_items)
  show "entry (sc_queue s') i = None" if "i \<notin> j_ID ` {j \<in> set jobs. 0 < j_Interval j}" for i
  proof -
    have "q_ID ` set ?xs = j_ID ` set ?js" using ids by (metis list.set_map)
    then show ?thesis using that by (auto simp: entry_None it(1) set_items)
  qed
  show "\<exists>x. entry (sc_queue s') (j_ID j) = Some x \<and>
          reloaded rnd ?jf now readFrom (entry ?h (j_ID j)) j x"
    if "j \<in> set jobs" "0 < j_Interval j" for j
  proof -
    have "j \<in> set ?js" using that by simp
    then obtain k where k: "k < length ?js" "?js ! k = j" by (metis in_set_conv_nth)
    let ?x = "?xs ! k"
    have r: "reloaded rnd ?jf now readFrom (existing ?h (j_ID j)) j ?x" "?x \<in> set ?xs"
      using rel k by (auto simp: list_all2_conv_all_nth)
    have "entry (sc_queue s') (j_ID j) = Some (strip ?x)"
      using entry_Some [OF idok] r(2) job [OF r(1)] by (auto simp: it(1) set_items)
    moreover have "reloaded rnd ?jf now readFrom (entry ?h (j_ID j)) j (strip ?x)"
      using r(1) existing_entry [of ?h "j_ID j"] assms(2)
        reloaded_strip [of rnd ?jf now readFrom "existing ?h (j_ID j)" j ?x]
      by (simp add: queue_ok_def)
    ultimately show ?thesis by blast
  qed
qed

lemma reload_frame:
  "sc_inFlight (reload_apply rnd procs now r jobs s) = sc_inFlight s"
  "sc_handing (reload_apply rnd procs now r jobs s) = sc_handing s"
  "sc_tasks (reload_apply rnd procs now r jobs s) = sc_tasks s"
  "sc_running (reload_apply rnd procs now r jobs s) = sc_running s"
  "sc_workers (reload_apply rnd procs now r jobs s) = sc_workers s"
  "sc_failingSeq (reload_apply rnd procs now r jobs s) = sc_failingSeq s"
  "sc_autoWorkers (reload_apply rnd procs now r jobs s) = sc_autoWorkers s"
  "sc_jitterFraction (reload_apply rnd procs now r jobs s) = sc_jitterFraction s"
  by (auto simp: reload_apply_def Let_def split: prod.split)

section \<open>Outcomes that land while the registry is being read\<close>

text \<open>Calls of \<open>SetFailing\<close>: when, for which monitor, failing or not.\<close>

fun SetFailing_all :: "draws \<Rightarrow> (instant \<times> int \<times> bool) list \<Rightarrow> scheduler \<Rightarrow> scheduler" where
  "SetFailing_all rnd [] s = s"
| "SetFailing_all rnd ((now, i, f) # cs) s = SetFailing_all rnd cs (SetFailing rnd now i f s)"

definition seqs_ok :: "scheduler \<Rightarrow> bool" where
  "seqs_ok s \<longleftrightarrow> (\<forall>i x. entry (sc_queue s) i = Some x \<longrightarrow> q_failingSeq x \<le> sc_failingSeq s)"

lemma SetFailing_seqs:
  assumes "queue_ok (sc_queue s)" "unit_draws rnd"
  shows "sc_failingSeq s \<le> sc_failingSeq (SetFailing rnd now i f s)"
    and "seqs_ok s \<Longrightarrow> seqs_ok (SetFailing rnd now i f s)"
  using SetFailing_spec [OF assms refl, of now i f]
  by (auto simp: seqs_ok_def outcome_applied_def split: option.splits if_splits; fastforce)+

lemma SetFailing_all_other:
  assumes "queue_ok (sc_queue s)" "unit_draws rnd" "\<forall>c\<in>set cs. fst (snd c) \<noteq> i"
  shows "queue_ok (sc_queue (SetFailing_all rnd cs s)) \<and>
         entry (sc_queue (SetFailing_all rnd cs s)) i = entry (sc_queue s) i"
  using assms(1,3)
proof (induction cs arbitrary: s)
  case (Cons c cs)
  obtain now k f where c: "c = (now, k, f)" by (cases c) auto
  let ?s = "SetFailing rnd now k f s"
  have "queue_ok (sc_queue ?s) \<and> entry (sc_queue ?s) i = entry (sc_queue s) i"
    using SetFailing_spec [OF Cons.prems(1) assms(2) refl, of now k f] Cons.prems(2) c
    by (auto split: option.splits)
  then show ?case using Cons.IH [of ?s] Cons.prems(2) c by simp
qed simp

lemma SetFailing_all_inv:
  assumes "queue_ok (sc_queue s)" "unit_draws rnd"
  shows "queue_ok (sc_queue (SetFailing_all rnd cs s)) \<and>
         sc_failingSeq s \<le> sc_failingSeq (SetFailing_all rnd cs s) \<and>
         dom (entry (sc_queue (SetFailing_all rnd cs s))) = dom (entry (sc_queue s)) \<and>
         sc_jitterFraction (SetFailing_all rnd cs s) = sc_jitterFraction s"
  using assms(1)
proof (induction cs arbitrary: s)
  case (Cons c cs)
  obtain now k f where c: "c = (now, k, f)" by (cases c) auto
  let ?s = "SetFailing rnd now k f s"
  have sp: "queue_ok (sc_queue ?s)" "dom (entry (sc_queue ?s)) = dom (entry (sc_queue s))"
    using SetFailing_spec [OF Cons.prems assms(2) refl, of now k f]
    by (auto split: option.splits if_splits)
  then show ?case
    using Cons.IH [of ?s] SetFailing_seqs(1) [OF Cons.prems assms(2), of now k f]
      SetFailing_frame(8) [of rnd now k f s] c by simp
qed simp

lemma SetFailing_all_append:
  "SetFailing_all rnd (xs @ ys) s = SetFailing_all rnd ys (SetFailing_all rnd xs s)"
  by (induction rnd xs s rule: SetFailing_all.induct) auto

end
