(* ===== verification/SchedulerRuns.thy ===== *)
theory SchedulerRuns
  imports Reload
begin

text \<open>
  The scheduler's goroutines interleaved: the steps between which another can take the lock, the
  invariant every reachable state satisfies, and the scheduler's promises.
\<close>

section \<open>The steps\<close>

text \<open>
  The second component is a reload under way: the sequence number it read before it asked the
  registry, which answers without the lock. The registry's monitors have distinct ids: they are
  the primary keys of the monitors table.
\<close>

inductive sched_step ::
  "int \<Rightarrow> draws \<Rightarrow> checkers \<Rightarrow> scheduler \<times> nat option \<Rightarrow> scheduler \<times> nat option \<Rightarrow> bool"
  for procs rnd cs where
  turn_skip: "sc_handing s = None \<Longrightarrow> dispatch_pick rnd now s = Some (j, True, s') \<Longrightarrow>
    sched_step procs rnd cs (s, r) (s'\<lparr>sc_skipped := sc_skipped s' + 1\<rparr>, r)"
| turn_mark: "sc_handing s = None \<Longrightarrow> dispatch_pick rnd now s = Some (j, False, s') \<Longrightarrow>
    sched_step procs rnd cs (s, r) (s'\<lparr>sc_handing := Some j\<rparr>, r)"
| turn_send: "sc_handing s = Some j \<Longrightarrow> length (sc_tasks s) < taskBuffer \<Longrightarrow>
    sched_step procs rnd cs (s, r) (hand_over j s, r)"
| turn_cancelled: "sc_handing s = Some j \<Longrightarrow> sched_step procs rnd cs (s, r) (abandon j s, r)"
| worker_start: "int (Busy s) < sc_workers s \<Longrightarrow> sched_step procs rnd cs (s, r) (start_check s, r)"
| worker_done: "j \<in> set (sc_running s) \<Longrightarrow>
    sched_step procs rnd cs (s, r) (runCheck cs ctxErr now j s, r)"
| outcome: "sched_step procs rnd cs (s, r) (SetFailing rnd now i f s, r)"
| registry_read: "sched_step procs rnd cs (s, None) (s, Some (reload_read s))"
| registry_failed: "sched_step procs rnd cs (s, Some n) (s, None)"
| registry_answer: "distinct (map j_ID jobs) \<Longrightarrow>
    sched_step procs rnd cs (s, Some n) (reload_apply rnd procs now n jobs s, None)"
| grow: "sched_step procs rnd cs (s, r) (growPool s, r)"
| request: "sched_step procs rnd cs (s, r) (ReloadSoon s, r)"

inductive sched_reachable ::
  "int \<Rightarrow> draws \<Rightarrow> checkers \<Rightarrow> sched_options \<Rightarrow> scheduler \<times> nat option \<Rightarrow> bool"
  for procs rnd cs opts where
  sched_init: "sched_reachable procs rnd cs opts (new_scheduler procs opts, None)"
| sched_more: "sched_reachable procs rnd cs opts s \<Longrightarrow> sched_step procs rnd cs s s' \<Longrightarrow>
    sched_reachable procs rnd cs opts s'"

section \<open>The invariant\<close>

text \<open>The jobs somewhere between the loop and the end of their check.\<close>

definition flying :: "scheduler \<Rightarrow> job list" where
  "flying s = (case sc_handing s of None \<Rightarrow> [] | Some j \<Rightarrow> [j]) @ sc_tasks s @ sc_running s"

definition flight_ok :: "scheduler \<Rightarrow> bool" where
  "flight_ok s \<longleftrightarrow> distinct (map j_ID (flying s)) \<and> j_ID ` set (flying s) = sc_inFlight s"

definition pool_ok :: "int \<Rightarrow> sched_options \<Rightarrow> scheduler \<Rightarrow> bool" where
  "pool_ok procs opts s \<longleftrightarrow>
     sc_autoWorkers s = (op_Workers opts \<le> 0) \<and>
     (if op_Workers opts \<le> 0
      then autoWorkerCount procs 0 \<le> sc_workers s \<and> sc_workers s \<le> maxWorkers \<and> sc_workerTarget s \<le> maxWorkers
      else sc_workers s = op_Workers opts \<and> sc_workerTarget s = 0) \<and>
     int (length (sc_running s)) \<le> sc_workers s \<and> length (sc_tasks s) \<le> taskBuffer"

definition sched_inv :: "int \<Rightarrow> sched_options \<Rightarrow> scheduler \<times> nat option \<Rightarrow> bool" where
  "sched_inv procs opts = (\<lambda>(s, r). queue_ok (sc_queue s) \<and> seqs_ok s \<and> flight_ok s \<and>
     pool_ok procs opts s \<and> (\<forall>n. r = Some n \<longrightarrow> n \<le> sc_failingSeq s))"

lemma autoWorkerCount_bounds: "minWorkers \<le> autoWorkerCount procs n \<and> autoWorkerCount procs n \<le> maxWorkers"
  by (simp add: autoWorkerCount_def minWorkers_def maxWorkers_def Let_def)

lemma queue_ok_Nil [simp]: "queue_ok []"
  by (simp add: queue_ok_def heap_ok_def ordered_def ids_ok_def intervals_ok_def)

lemma sched_inv_new: "sched_inv procs opts (new_scheduler procs opts, None)"
proof -
  have "heap_Init [] = []" by (simp add: heap_Init_def)
  then show ?thesis
    using autoWorkerCount_bounds [of procs 0]
    by (simp add: sched_inv_def new_scheduler_def Let_def seqs_ok_def entry_def flight_ok_def
        flying_def pool_ok_def taskBuffer_def maxWorkers_def minWorkers_def)
qed

lemma dispatch_frame:
  assumes "dispatch_pick rnd now s = Some (j, skip, s')"
  shows "sc_handing s' = sc_handing s" "sc_running s' = sc_running s" "sc_tasks s' = sc_tasks s"
    "sc_workers s' = sc_workers s" "sc_workerTarget s' = sc_workerTarget s"
    "sc_autoWorkers s' = sc_autoWorkers s" "sc_failingSeq s' = sc_failingSeq s"
  using assms by (auto simp: dispatch_pick_def Let_def split: if_splits prod.splits)

lemma dispatch_seqs:
  assumes "queue_ok (sc_queue s)" "unit_draws rnd" "dispatch_pick rnd now s = Some (j, skip, s')" "seqs_ok s"
  shows "seqs_ok s'"
proof -
  obtain x x' where *: "x \<in># items (sc_queue s)" "rescheduled (sc_jitterFraction s) now x x'"
    "entry (sc_queue s') = (entry (sc_queue s))(q_ID x \<mapsto> x')"
    using dispatch_pick_Some [OF assms(1-3)] by metis
  have "entry (sc_queue s) (q_ID x) = Some x"
    using * entry_Some assms(1) by (auto simp: queue_ok_def)
  then show ?thesis
    using * assms(4) dispatch_frame(7) [OF assms(3)] by (auto simp: seqs_ok_def rescheduled_def)
qed

lemma reload_seqs:
  assumes "unit_draws rnd" "queue_ok (sc_queue s)" "distinct (map j_ID jobs)" "seqs_ok s"
  shows "seqs_ok (reload_apply rnd procs now r jobs s)"
proof -
  let ?s = "reload_apply rnd procs now r jobs s"
  note rq = reload_queue [OF assms(1-3) refl, where procs = procs and now = now and readFrom = r]
  have "q_failingSeq x \<le> sc_failingSeq s" if e: "entry (sc_queue ?s) i = Some x" for i x
  proof -
    have "i \<in> j_ID ` {j \<in> set jobs. 0 < j_Interval j}" using rq(2) [of i] e by fastforce
    then obtain j where j: "j \<in> set jobs" "0 < j_Interval j" "i = j_ID j" by blast
    then have "reloaded rnd (sc_jitterFraction s) now r (entry (sc_queue s) (j_ID j)) j x"
      using rq(3) [OF j(1,2)] e by simp
    then show ?thesis using assms(4) by (auto simp: reloaded_def seqs_ok_def split: option.splits)
  qed
  then show ?thesis by (simp add: seqs_ok_def reload_frame)
qed

lemma flight_remove:
  assumes "flight_ok s" "j \<in> set (sc_running s)"
  shows "flight_ok (runCheck cs ctxErr now j s)"
proof -
  let ?l = "(case sc_handing s of None \<Rightarrow> [] | Some j \<Rightarrow> [j]) @ sc_tasks s"
  have d: "distinct (map j_ID (?l @ sc_running s))" "j_ID ` set (?l @ sc_running s) = sc_inFlight s"
    using assms(1) by (simp_all add: flight_ok_def flying_def)
  obtain as bs where r: "sc_running s = as @ j # bs" "j \<notin> set as"
    using assms(2) by (meson split_list_first)
  have "remove1 j (sc_running s) = as @ bs" using r by (simp add: remove1_append)
  then have fl: "flying (runCheck cs ctxErr now j s) = (?l @ as) @ bs"
    by (simp add: flying_def runCheck_def)
  have "?l @ sc_running s = (?l @ as) @ j # bs" using r by simp
  then have L: "distinct (map j_ID ((?l @ as) @ j # bs))"
    "j_ID ` set ((?l @ as) @ j # bs) = sc_inFlight s" using d by metis+
  have "sc_inFlight (runCheck cs ctxErr now j s) = sc_inFlight s - {j_ID j}" by (simp add: runCheck_def)
  then show ?thesis
    using distinct_map_delete [OF L(1)] unfolding flight_ok_def fl L(2) by blast
qed

lemma growPool_inv:
  assumes "pool_ok procs opts s" shows "pool_ok procs opts (growPool s)"
  using assms by (auto simp: pool_ok_def growPool_def split: if_splits)

lemma reload_pool:
  assumes "pool_ok procs opts s" shows "pool_ok procs opts (reload_apply rnd procs now r jobs s)"
  using assms autoWorkerCount_bounds
  by (auto simp: pool_ok_def reload_apply_def Let_def split: prod.splits if_splits)

lemma flight_ok_perm:
  assumes "mset (flying s') = mset (flying s)" "sc_inFlight s' = sc_inFlight s"
  shows "flight_ok s' = flight_ok s"
proof -
  have "mset (map j_ID (flying s')) = mset (map j_ID (flying s))" using assms(1) by simp
  then show ?thesis
    using assms(2) mset_eq_setD [OF assms(1)] unfolding flight_ok_def
    by (metis mset_eq_imp_distinct_iff)
qed

lemma start_check_flight: "flight_ok (start_check s) = flight_ok s"
  by (rule flight_ok_perm) (auto simp: flying_def start_check_def split: list.splits)

lemma start_check_pool:
  "pool_ok procs opts s \<Longrightarrow> int (Busy s) < sc_workers s \<Longrightarrow> pool_ok procs opts (start_check s)"
  by (auto simp: pool_ok_def start_check_def Busy_def split: list.splits)

lemma hand_over_flight: "sc_handing s = Some j \<Longrightarrow> flight_ok (hand_over j s) = flight_ok s"
  by (rule flight_ok_perm) (auto simp: flying_def hand_over_def)

lemma abandon_flight: "flight_ok s \<Longrightarrow> sc_handing s = Some j \<Longrightarrow> flight_ok (abandon j s)"
  using distinct_map_delete [of j_ID "[]" j "sc_tasks s @ sc_running s"]
  by (simp add: flight_ok_def flying_def abandon_def)

lemma pool_ok_cong:
  "sc_autoWorkers s' = sc_autoWorkers s \<Longrightarrow> sc_workers s' = sc_workers s \<Longrightarrow>
   sc_workerTarget s' = sc_workerTarget s \<Longrightarrow> sc_running s' = sc_running s \<Longrightarrow>
   sc_tasks s' = sc_tasks s \<Longrightarrow> pool_ok procs opts s' = pool_ok procs opts s"
  by (simp add: pool_ok_def)

lemma flight_ok_cong:
  "sc_handing s' = sc_handing s \<Longrightarrow> sc_tasks s' = sc_tasks s \<Longrightarrow> sc_running s' = sc_running s \<Longrightarrow>
   sc_inFlight s' = sc_inFlight s \<Longrightarrow> flight_ok s' = flight_ok s"
  by (simp add: flight_ok_def flying_def)

lemma seqs_ok_cong:
  "sc_queue s' = sc_queue s \<Longrightarrow> sc_failingSeq s' = sc_failingSeq s \<Longrightarrow> seqs_ok s' = seqs_ok s"
  by (simp add: seqs_ok_def)

lemma turn_inv:
  assumes "queue_ok (sc_queue s)" "seqs_ok s" "flight_ok s" "pool_ok procs opts s" "unit_draws rnd"
    and "sc_handing s = None" "dispatch_pick rnd now s = Some (j, skip, s')"
  shows "queue_ok (sc_queue s') \<and> seqs_ok s' \<and> pool_ok procs opts s' \<and>
         flight_ok (if skip then s' else s'\<lparr>sc_handing := Some j\<rparr>) \<and> sc_failingSeq s' = sc_failingSeq s"
proof -
  note fr = dispatch_frame [OF assms(7)]
  obtain x where x: "j = q_job x" "queue_ok (sc_queue s')" "skip = (q_ID x \<in> sc_inFlight s)"
    "sc_inFlight s' = insert (q_ID x) (sc_inFlight s)"
    using dispatch_pick_Some [OF assms(1,5,7)] by metis
  have fly: "flying (if skip then s' else s'\<lparr>sc_handing := Some j\<rparr>) = (if skip then [] else [j]) @ flying s"
    using fr assms(6) by (simp add: flying_def)
  have "flight_ok (if skip then s' else s'\<lparr>sc_handing := Some j\<rparr>)"
    unfolding flight_ok_def fly using assms(3) x by (auto simp: flight_ok_def)
  moreover have "pool_ok procs opts s'" using assms(4) pool_ok_cong [of s' s] fr by simp
  ultimately show ?thesis using x(2) dispatch_seqs [OF assms(1,5,7,2)] fr(7) by simp
qed

lemma sched_inv_step:
  assumes "sched_step procs rnd cs st st'" "sched_inv procs opts st" "unit_draws rnd"
  shows "sched_inv procs opts st'"
  using assms(1,2)
proof (induction rule: sched_step.induct)
  case (turn_skip s now j s' r)
  then show ?case
    using turn_inv [of s procs opts rnd now j True s'] assms(3)
      pool_ok_cong [of "s'\<lparr>sc_skipped := sc_skipped s' + 1\<rparr>" s']
      flight_ok_cong [of "s'\<lparr>sc_skipped := sc_skipped s' + 1\<rparr>" s']
      seqs_ok_cong [of "s'\<lparr>sc_skipped := sc_skipped s' + 1\<rparr>" s']
    by (simp add: sched_inv_def)
next
  case (turn_mark s now j s' r)
  then show ?case
    using turn_inv [of s procs opts rnd now j False s'] assms(3)
      pool_ok_cong [of "s'\<lparr>sc_handing := Some j\<rparr>" s']
      seqs_ok_cong [of "s'\<lparr>sc_handing := Some j\<rparr>" s']
    by (simp add: sched_inv_def)
next
  case (turn_send s j r)
  have "seqs_ok (hand_over j s) = seqs_ok s" by (rule seqs_ok_cong) (simp_all add: hand_over_def)
  moreover have "pool_ok procs opts (hand_over j s)"
    using turn_send by (simp add: sched_inv_def pool_ok_def hand_over_def)
  moreover have "sc_queue (hand_over j s) = sc_queue s" "sc_failingSeq (hand_over j s) = sc_failingSeq s"
    by (simp_all add: hand_over_def)
  ultimately show ?case using turn_send hand_over_flight by (simp add: sched_inv_def)
next
  case (turn_cancelled s j r)
  have "seqs_ok (abandon j s) = seqs_ok s" by (rule seqs_ok_cong) (simp_all add: abandon_def)
  moreover have "pool_ok procs opts (abandon j s) = pool_ok procs opts s"
    by (rule pool_ok_cong) (simp_all add: abandon_def)
  moreover have "sc_queue (abandon j s) = sc_queue s" "sc_failingSeq (abandon j s) = sc_failingSeq s"
    by (simp_all add: abandon_def)
  ultimately show ?case using turn_cancelled abandon_flight by (simp add: sched_inv_def)
next
  case (worker_start s r)
  have "seqs_ok (start_check s) = seqs_ok s"
    by (rule seqs_ok_cong) (auto simp: start_check_def split: list.split)
  moreover have "sc_queue (start_check s) = sc_queue s" "sc_failingSeq (start_check s) = sc_failingSeq s"
    by (auto simp: start_check_def split: list.split)
  ultimately show ?case
    using worker_start start_check_flight start_check_pool by (simp add: sched_inv_def)
next
  case (worker_done j s r ctxErr now)
  let ?s = "runCheck cs ctxErr now j s"
  have "seqs_ok ?s = seqs_ok s" by (rule seqs_ok_cong) (simp_all add: runCheck_def)
  moreover have "pool_ok procs opts ?s"
    using worker_done by (auto simp: sched_inv_def pool_ok_def runCheck_def length_remove1)
  moreover have "sc_queue ?s = sc_queue s" "sc_failingSeq ?s = sc_failingSeq s"
    by (simp_all add: runCheck_def)
  ultimately show ?case using worker_done flight_remove by (simp add: sched_inv_def)
next
  case (outcome s r now i f)
  let ?s = "SetFailing rnd now i f s"
  have q: "queue_ok (sc_queue s)" using outcome by (simp add: sched_inv_def)
  have "queue_ok (sc_queue ?s)" using SetFailing_spec [OF q assms(3) refl, of now i f] by blast
  moreover have "flight_ok ?s = flight_ok s" "pool_ok procs opts ?s = pool_ok procs opts s"
    by (rule flight_ok_cong pool_ok_cong; simp add: SetFailing_frame)+
  ultimately show ?case
    using outcome SetFailing_seqs [OF q assms(3), of now i f]
    by (auto simp: sched_inv_def)
next
  case (registry_read s)
  then show ?case by (simp add: sched_inv_def reload_read_def)
next
  case (registry_failed s n)
  then show ?case by (simp add: sched_inv_def)
next
  case (registry_answer jobs s n now)
  let ?s = "reload_apply rnd procs now n jobs s"
  have q: "queue_ok (sc_queue s)" "seqs_ok s" using registry_answer by (simp_all add: sched_inv_def)
  have "flight_ok ?s = flight_ok s" by (rule flight_ok_cong) (simp_all add: reload_frame)
  then show ?case
    using registry_answer reload_frame(6) [of rnd procs now n jobs s] reload_queue(1) [OF assms(3) q(1) registry_answer(1) refl]
      reload_seqs [OF assms(3) q(1) registry_answer(1) q(2)] reload_pool
    by (simp add: sched_inv_def)
next
  case (grow s r)
  have "seqs_ok (growPool s) = seqs_ok s" "flight_ok (growPool s) = flight_ok s"
    by (rule seqs_ok_cong flight_ok_cong; simp add: growPool_def)+
  moreover have "sc_queue (growPool s) = sc_queue s" "sc_failingSeq (growPool s) = sc_failingSeq s"
    by (simp_all add: growPool_def)
  ultimately show ?case using grow growPool_inv by (simp add: sched_inv_def)
next
  case (request s r)
  have "seqs_ok (ReloadSoon s) = seqs_ok s" "flight_ok (ReloadSoon s) = flight_ok s"
    "pool_ok procs opts (ReloadSoon s) = pool_ok procs opts s"
    by (rule seqs_ok_cong flight_ok_cong pool_ok_cong; simp add: ReloadSoon_def)+
  moreover have "sc_queue (ReloadSoon s) = sc_queue s" "sc_failingSeq (ReloadSoon s) = sc_failingSeq s"
    by (simp_all add: ReloadSoon_def)
  ultimately show ?case using request by (simp add: sched_inv_def)
qed

lemma sched_inv_reachable:
  "sched_reachable procs rnd cs opts st \<Longrightarrow> unit_draws rnd \<Longrightarrow> sched_inv procs opts st"
  by (induction rule: sched_reachable.induct) (auto intro: sched_inv_new sched_inv_step)

section \<open>A sample run\<close>

definition sample_job :: job where
  "sample_job = \<lparr>j_Failing = False,
     j_Monitor = \<lparr>m_ID = 7, m_Type = ''http'', m_Timeout = seconds 10\<rparr>,
     j_Interval = minutes 5, j_NeverChecked = False, j_LastCheck = hours 100\<rparr>"

definition sample_sched_options :: sched_options where
  "sample_sched_options = \<lparr>op_Workers = 0, op_ReloadInterval = 0, op_JitterFraction = 0\<rparr>"

definition sample_scheduler :: scheduler where
  "sample_scheduler =
     reload_apply (\<lambda>_. 1 / 2) 2 (hours 101) 0 [sample_job] (new_scheduler 2 sample_sched_options)"

lemma unit_draws_half [simp]: "unit_draws (\<lambda>_. 1 / 2)"
  by (simp add: unit_draws_def)

lemma sample_scheduler_reachable:
  "sched_reachable 2 (\<lambda>_. 1 / 2) cs sample_sched_options (sample_scheduler, None)"
proof -
  let ?s = "new_scheduler 2 sample_sched_options"
  have "sched_reachable 2 (\<lambda>_. 1 / 2) cs sample_sched_options (?s, Some (reload_read ?s))"
    by (rule sched_more [OF sched_init registry_read])
  moreover have "reload_read ?s = 0" by (simp add: reload_read_def new_scheduler_def Let_def)
  ultimately have "sched_reachable 2 (\<lambda>_. 1 / 2) cs sample_sched_options (?s, Some 0)" by simp
  then show ?thesis
    unfolding sample_scheduler_def by (rule sched_more [OF _ registry_answer]) simp
qed

lemma sample_scheduler_queue_ok: "queue_ok (sc_queue sample_scheduler)"
  using sched_inv_reachable [OF sample_scheduler_reachable unit_draws_half] by (simp add: sched_inv_def)

lemma sample_scheduler_entry:
  "\<exists>x. entry (sc_queue sample_scheduler) 7 = Some x \<and> q_job x = sample_job"
proof -
  let ?s = "new_scheduler 2 sample_sched_options"
  have "queue_ok (sc_queue ?s)" "entry (sc_queue ?s) 7 = None"
    by (simp_all add: new_scheduler_def Let_def heap_Init_def entry_def)
  then show ?thesis
    using reload_queue(3) [OF unit_draws_half, of ?s "[sample_job]" sample_scheduler 2 "hours 101" 0 sample_job]
    by (auto simp: sample_scheduler_def sample_job_def reloaded_def)
qed

section \<open>The scheduler's promises\<close>

text \<open>
  C32: one call of \<open>dispatchDue\<close> serves every monitor that is due, once, and ends. In every reachable
  state the loop terminates; then nothing is due, every entry that was not due is untouched, every
  one that was keeps its job and is due again between one cadence and one cadence plus its jitter
  window from now; the jobs handed to the pool are those of the due monitors not in flight, one each;
  and the ones in flight are counted as skipped.
\<close>

theorem dispatch_serves_every_due_monitor:
  assumes "sched_reachable procs rnd cs opts (s, r)" "unit_draws rnd"
  shows "\<exists>s'. dispatchDue rnd (\<lambda>_. False) now s = Some s' \<and> dispatched now s s' \<and>
              (\<forall>x\<in>set (sc_queue s'). now < q_next x)"
proof -
  have q: "queue_ok (sc_queue s)"
    using sched_inv_reachable [OF assms] by (simp add: sched_inv_def)
  obtain s' where s': "dispatchDue rnd (\<lambda>_. False) now s = Some s'" "dispatched now s s'"
    using dispatchDue_dispatched [OF assms(2) q] by blast
  have "now < q_next x" if "x \<in> set (sc_queue s')" for x
  proof -
    have "entry (sc_queue s') (q_ID x) = Some (strip x)"
      using entry_Some [of "sc_queue s'" "q_ID x" "strip x"] s'(2) that
      by (simp add: dispatched_def queue_ok_def set_items)
    then have sv: "served (sc_jitterFraction s) now (entry (sc_queue s) (q_ID x)) (Some (strip x))"
      using s'(2) unfolding dispatched_def by metis
    then obtain y where y: "entry (sc_queue s) (q_ID x) = Some y"
      by (cases "entry (sc_queue s) (q_ID x)") (auto simp: served_def)
    then have "0 < cadence (q_job y)"
      using q entry_Some by (auto simp: queue_ok_def intervals_ok_def)
    then show ?thesis using sv y by (auto simp: served_def rescheduled_def split: if_splits)
  qed
  then show ?thesis using s' by blast
qed

theorem dispatch_serves_every_due_monitor_witness:
  "\<exists>s'. dispatchDue (\<lambda>_. 1 / 2) (\<lambda>_. False) (hours 102) sample_scheduler = Some s' \<and>
        dispatched (hours 102) sample_scheduler s' \<and> (\<forall>x\<in>set (sc_queue s'). hours 102 < q_next x)"
  by (rule dispatch_serves_every_due_monitor [OF sample_scheduler_reachable unit_draws_half])

text \<open>
  C7: no monitor is checked twice at once. However the loop, the workers, reloads and outcomes
  interleave, the jobs between the loop and the end of their check (being handed over, waiting in the
  channel, or running) are of pairwise different monitors, and \<open>inFlight\<close> is exactly their ids.
\<close>

theorem one_check_per_monitor_at_a_time:
  assumes "sched_reachable procs rnd cs opts (s, r)" "unit_draws rnd"
  shows "distinct (map j_ID (flying s)) \<and> j_ID ` set (flying s) = sc_inFlight s"
  using sched_inv_reachable [OF assms] by (simp add: sched_inv_def flight_ok_def)

theorem one_check_per_monitor_at_a_time_witness:
  "distinct (map j_ID (flying sample_scheduler)) \<and> j_ID ` set (flying sample_scheduler) = sc_inFlight sample_scheduler"
  by (rule one_check_per_monitor_at_a_time [OF sample_scheduler_reachable unit_draws_half])

text \<open>
  The loop sleeps until the earliest due time of all monitors, and not at all when it has passed:
  reading the head of the heap is reading the minimum of the queue, in every reachable state.
\<close>

theorem loop_sleeps_until_earliest:
  assumes "sched_reachable procs rnd cs opts (s, r)" "unit_draws rnd" "sc_queue s \<noteq> []"
  shows "timeUntilNext now s = max 0 (Min (q_next ` set (sc_queue s)) - now)"
proof -
  have ok: "heap_ok (sc_queue s)"
    using sched_inv_reachable [OF assms(1,2)] by (simp add: sched_inv_def queue_ok_def)
  have "Min (q_next ` set (sc_queue s)) = q_next (sc_queue s ! 0)"
  proof (rule Min_eqI)
    show "q_next (sc_queue s ! 0) \<in> q_next ` set (sc_queue s)" using assms(3) by auto
    show "q_next (sc_queue s ! 0) \<le> y" if "y \<in> q_next ` set (sc_queue s)" for y
      using that heap_least [OF ok] by (auto simp: in_set_conv_nth)
  qed simp
  then show ?thesis using assms(3) by (simp add: timeUntilNext_def Let_def)
qed

lemma sample_scheduler_nonempty: "sc_queue sample_scheduler \<noteq> []"
  using sample_scheduler_entry by (auto simp: entry_def)

theorem loop_sleeps_until_earliest_witness:
  "timeUntilNext 0 sample_scheduler = max 0 (Min (q_next ` set (sc_queue sample_scheduler)) - 0)"
  by (rule loop_sleeps_until_earliest
        [OF sample_scheduler_reachable unit_draws_half sample_scheduler_nonempty])

text \<open>
  What a reload does. Afterwards the queue holds exactly the registry's monitors with a positive
  interval. One that was in the queue keeps its due time unless its cadence changed, and then is due
  one new cadence (with jitter) from now; one that was not is placed by \<open>firstRun\<close>; and an outcome
  newer than the registry's answer wins over it.
\<close>

theorem reload_exact:
  assumes "sched_reachable procs rnd cs opts (s, r)" "unit_draws rnd" "distinct (map j_ID jobs)"
  shows "dom (entry (sc_queue (reload_apply rnd procs now n jobs s))) =
           j_ID ` {j \<in> set jobs. 0 < j_Interval j} \<and>
         (\<forall>j\<in>set jobs. 0 < j_Interval j \<longrightarrow>
            (\<exists>x. entry (sc_queue (reload_apply rnd procs now n jobs s)) (j_ID j) = Some x \<and>
                 reloaded rnd (sc_jitterFraction s) now n (entry (sc_queue s) (j_ID j)) j x))"
proof -
  have q: "queue_ok (sc_queue s)"
    using sched_inv_reachable [OF assms(1,2)] by (simp add: sched_inv_def)
  note rq = reload_queue [OF assms(2) q assms(3) refl, where procs = procs and now = now and readFrom = n]
  let ?e = "entry (sc_queue (reload_apply rnd procs now n jobs s))"
  have "i \<in> j_ID ` {j \<in> set jobs. 0 < j_Interval j}" if "i \<in> dom ?e" for i
    using rq(2) [of i] that unfolding domIff by blast
  moreover have "j_ID j \<in> dom ?e" if "j \<in> set jobs" "0 < j_Interval j" for j
    using rq(3) [OF that] by blast
  ultimately have "dom ?e = j_ID ` {j \<in> set jobs. 0 < j_Interval j}" by blast
  then show ?thesis using rq(3) by blast
qed

theorem reload_exact_witness:
  "dom (entry (sc_queue (reload_apply (\<lambda>_. 1 / 2) 2 (hours 102) 0
      [sample_job, sample_job\<lparr>j_Monitor := \<lparr>m_ID = 8, m_Type = ''tcp'', m_Timeout = 0\<rparr>, j_Interval := 0\<rparr>]
      sample_scheduler))) = {7}"
  using reload_exact [OF sample_scheduler_reachable unit_draws_half,
      of "[sample_job, sample_job\<lparr>j_Monitor := \<lparr>m_ID = 8, m_Type = ''tcp'', m_Timeout = 0\<rparr>, j_Interval := 0\<rparr>]"
         "hours 102" 0]
  by (auto simp: sample_job_def)

text \<open>
  No outcome is lost to a reload. If any outcomes are reported between the moment a reload read the
  sequence number and the moment it applies the registry's answer, then afterwards each monitor that is
  still scheduled is on the cadence of its last outcome, whatever the registry answered.
\<close>

theorem reload_keeps_newer_outcome:
  assumes "sched_reachable procs rnd cs opts (s, r)" "unit_draws rnd"
    and "i \<in> dom (entry (sc_queue s))" "\<forall>c\<in>set post. fst (snd c) \<noteq> i"
    and "distinct (map j_ID jobs)" "j \<in> set jobs" "j_ID j = i" "0 < j_Interval j"
  shows "\<exists>x. entry (sc_queue (reload_apply rnd procs now (reload_read s) jobs
                 (SetFailing_all rnd (pre @ (t, i, failing) # post) s))) i = Some x \<and>
             j_Failing (q_job x) = failing"
proof -
  have q: "queue_ok (sc_queue s)"
    using sched_inv_reachable [OF assms(1,2)] by (simp add: sched_inv_def)
  let ?a = "SetFailing_all rnd pre s"
  let ?b = "SetFailing rnd t i failing ?a"
  let ?c = "SetFailing_all rnd post ?b"
  have a: "queue_ok (sc_queue ?a)" "sc_failingSeq s \<le> sc_failingSeq ?a" "i \<in> dom (entry (sc_queue ?a))"
    using SetFailing_all_inv [OF q assms(2), of pre] assms(3) by simp_all
  then obtain x where "entry (sc_queue ?a) i = Some x" by blast
  then obtain x' where b: "queue_ok (sc_queue ?b)" "entry (sc_queue ?b) i = Some x'"
    "j_Failing (q_job x') = failing" "sc_failingSeq s < q_failingSeq x'"
    using SetFailing_spec [OF a(1) assms(2) refl, of t i failing] a(2)
    by (auto simp: outcome_applied_def)
  have c: "queue_ok (sc_queue ?c)" "entry (sc_queue ?c) i = Some x'"
    using SetFailing_all_other [OF b(1) assms(2,4)] b(2) by simp_all
  have all: "SetFailing_all rnd (pre @ (t, i, failing) # post) s = ?c"
    by (simp add: SetFailing_all_append)
  show ?thesis
    using reload_queue(3) [OF assms(2) c(1) assms(5) refl assms(6,8), where procs = procs
        and now = now and readFrom = "reload_read s"] c(2) b(3,4) assms(7)
    unfolding all by (auto simp: reloaded_def reload_read_def)
qed

theorem reload_keeps_newer_outcome_witness:
  "\<exists>x. entry (sc_queue (reload_apply (\<lambda>_. 1 / 2) 2 (hours 103) (reload_read sample_scheduler) [sample_job]
         (SetFailing_all (\<lambda>_. 1 / 2) ([] @ (hours 102, 7, True) # [(hours 102, 8, False)]) sample_scheduler))) 7
       = Some x \<and> j_Failing (q_job x)"
  using reload_keeps_newer_outcome [OF sample_scheduler_reachable unit_draws_half, of 7
      "[(hours 102, 8, False)]" "[sample_job]" sample_job "hours 103" "[]" "hours 102" True]
    sample_scheduler_entry
  by (auto simp: sample_job_def)

text \<open>
  What a check's outcome does to the schedule. \<open>SetFailing\<close> changes only its own monitor's entry, and
  does nothing for a monitor that is not scheduled. A monitor that starts failing is due no later than
  before and no later than one failing cadence (with jitter) from now; one that stops is due one
  ordinary cadence from now; and an outcome that leaves the cadence alone leaves the due time alone, so
  repeated results never postpone a check.
\<close>

theorem outcome_reschedules_only_its_monitor:
  fixes now i
  assumes "sched_reachable procs rnd cs opts (s, r)" "unit_draws rnd"
  shows "case entry (sc_queue s) i of
      None \<Rightarrow> SetFailing rnd now i failing s = s
    | Some x \<Rightarrow> \<exists>x'. entry (sc_queue (SetFailing rnd now i failing s)) = (entry (sc_queue s))(i \<mapsto> x') \<and>
        outcome_applied (sc_jitterFraction s) now (sc_failingSeq s + 1) failing x x'"
proof -
  have "queue_ok (sc_queue s)"
    using sched_inv_reachable [OF assms] by (simp add: sched_inv_def)
  from SetFailing_spec [OF this assms(2) refl, of now i failing]
  show ?thesis by (auto split: option.splits)
qed

theorem outcome_reschedules_only_its_monitor_witness:
  "\<exists>x'. entry (sc_queue (SetFailing (\<lambda>_. 1 / 2) (hours 102) 7 True sample_scheduler)) 7 = Some x' \<and>
        j_Failing (q_job x')"
proof -
  obtain x where x: "entry (sc_queue sample_scheduler) 7 = Some x" using sample_scheduler_entry by blast
  show ?thesis
    using outcome_reschedules_only_its_monitor [OF sample_scheduler_reachable unit_draws_half,
        of "hours 102" 7 True] x
    by (auto simp: outcome_applied_def)
qed

text \<open>
  The pool's bounds. An auto-sized pool has at least 8 workers and never more than 128, however many
  monitors are loaded; a pool the operator sized stays at that number; never more checks run than there
  are workers; and the channel never holds more than its 256 places.
\<close>

theorem pool_stays_bounded:
  assumes "sched_reachable procs rnd cs opts (s, r)" "unit_draws rnd"
  shows "int (Busy s) \<le> sc_workers s \<and> QueueDepth s \<le> 256 \<and>
         (if op_Workers opts \<le> 0 then 8 \<le> sc_workers s \<and> sc_workers s \<le> 128
          else sc_workers s = op_Workers opts)"
  using sched_inv_reachable [OF assms] autoWorkerCount_bounds [of procs 0]
  by (auto simp: sched_inv_def pool_ok_def Busy_def QueueDepth_def taskBuffer_def
      minWorkers_def maxWorkers_def split: if_splits)

theorem pool_stays_bounded_witness:
  "int (Busy sample_scheduler) \<le> sc_workers sample_scheduler \<and> 8 \<le> sc_workers sample_scheduler"
  using pool_stays_bounded [OF sample_scheduler_reachable unit_draws_half]
  by (simp add: sample_sched_options_def)

end
