(* ===== verification/Canary.thy ===== *)
theory Canary
  imports Prelude
begin

text \<open>
  The connectivity canary of \<open>internal/connectivity/canary.go\<close>: the two kinds of round, the episode
  each of them keeps, the standing of the targets, and the operations that change them. What a dial
  or a lookup answers is a parameter, as is the clock and whether the context was cancelled. The
  validation of target lists is represented by its verdict.
\<close>

section \<open>The state\<close>

datatype round_kind = AddressRound | ResolverRound

record episode =
  ep_checkedAt :: instant
  ep_down :: bool
  ep_since :: instant

definition no_episode :: episode where
  "no_episode = \<lparr>ep_checkedAt = 0, ep_down = False, ep_since = 0\<rparr>"

datatype unusable_reason = Unanswered | Contradicted

text \<open>The reason is \<open>None\<close> where the code has the empty string.\<close>

record unusable =
  un_reason :: "unusable_reason option"
  un_since :: instant

definition usable :: unusable where
  "usable = \<lparr>un_reason = None, un_since = 0\<rparr>"

record canary =
  ca_cacheFor :: duration
  ca_names :: "string list"
  ca_targets :: "string list"
  ca_enabled :: bool
  ca_generation :: nat
  ca_address :: episode
  ca_resolver :: episode
  ca_proven :: bool
  ca_tried :: bool
  ca_unusable :: unusable

record canary_options =
  co_Targets :: "string list"
  co_Names :: "string list"
  co_Disabled :: bool
  co_CacheFor :: duration

definition DefaultCacheFor :: duration where
  "DefaultCacheFor = seconds 30"

definition new_canary :: "canary_options \<Rightarrow> canary" where
  "new_canary opts =
     \<lparr>ca_cacheFor = (if co_CacheFor opts \<le> 0 then DefaultCacheFor else co_CacheFor opts),
      ca_names = co_Names opts, ca_targets = co_Targets opts, ca_enabled = (\<not> co_Disabled opts),
      ca_generation = 0, ca_address = no_episode, ca_resolver = no_episode,
      ca_proven = False, ca_tried = False, ca_unusable = usable\<rparr>"

definition episode_of :: "round_kind \<Rightarrow> canary \<Rightarrow> episode" where
  "episode_of k c = (case k of AddressRound \<Rightarrow> ca_address c | ResolverRound \<Rightarrow> ca_resolver c)"

definition put_episode :: "round_kind \<Rightarrow> episode \<Rightarrow> canary \<Rightarrow> canary" where
  "put_episode k e c =
     (case k of AddressRound \<Rightarrow> c\<lparr>ca_address := e\<rparr> | ResolverRound \<Rightarrow> c\<lparr>ca_resolver := e\<rparr>)"

section \<open>What a round finds\<close>

definition anyReachable :: "(string \<Rightarrow> bool) \<Rightarrow> string list \<Rightarrow> bool" where
  "anyReachable dial targets = list_ex dial targets"

datatype lookup_error = DNSError bool | OtherError

text \<open>\<open>DNSError b\<close> carries \<open>IsNotFound\<close>: a name that does not exist is an answer.\<close>

fun Answered :: "lookup_error option \<Rightarrow> bool" where
  "Answered None = True"
| "Answered (Some (DNSError isNotFound)) = isNotFound"
| "Answered (Some OtherError) = False"

definition anyAnswered :: "(string \<Rightarrow> lookup_error option) \<Rightarrow> string list \<Rightarrow> bool" where
  "anyAnswered lookup names = list_ex (\<lambda>n. Answered (lookup n)) names"

section \<open>Recording a round\<close>

text \<open>The calls out: \<open>OnRestored\<close> and \<open>OnResolverRestored\<close> with the episode, \<open>OnUnusable\<close>.\<close>

datatype callback = Restored round_kind instant instant | OnUnusable unusable_reason

definition settle ::
  "bool \<Rightarrow> instant \<Rightarrow> nat \<Rightarrow> round_kind \<Rightarrow> bool \<Rightarrow> canary \<Rightarrow> canary \<times> bool \<times> callback list" where
  "settle ctxErr now generation k reached c =
     (if ctxErr then (c, False, [])
      else if ca_generation c \<noteq> generation then (c, False, [])
      else if k = AddressRound \<and> \<not> reached \<and> \<not> ca_proven c then
        let entered = (un_reason (ca_unusable c) = None)
        in (c\<lparr>ca_tried := True,
              ca_address := \<lparr>ep_checkedAt = now, ep_down = False, ep_since = 0\<rparr>,
              ca_unusable := (if entered then \<lparr>un_reason = Some Unanswered, un_since = now\<rparr>
                              else ca_unusable c)\<rparr>,
            False, if entered then [OnUnusable Unanswered] else [])
      else
        let c1 = (if k = AddressRound
                  then (if reached then c\<lparr>ca_tried := True, ca_proven := True, ca_unusable := usable\<rparr>
                        else c\<lparr>ca_tried := True\<rparr>)
                  else c);
            e = episode_of k c;
            e' = \<lparr>ep_checkedAt = now, ep_down = (\<not> reached),
                  ep_since = (if \<not> reached \<and> \<not> ep_down e then now else if reached then 0 else ep_since e)\<rparr>
        in (put_episode k e' c1, \<not> reached,
            if reached \<and> ep_down e then [Restored k (ep_since e) now] else []))"

section \<open>Asking\<close>

text \<open>\<open>cached\<close>: the answer of the last round, while it is fresh.\<close>

definition cached :: "instant \<Rightarrow> episode \<Rightarrow> canary \<Rightarrow> bool option" where
  "cached now e c =
     (if is_zero (ep_checkedAt e) \<or> ca_cacheFor c \<le> now - ep_checkedAt e then None else Some (ep_down e))"

text \<open>Whether \<open>round\<close> and \<open>resolverRound\<close> probe at all, and under which generation.\<close>

definition begin_round :: "round_kind \<Rightarrow> canary \<Rightarrow> nat option" where
  "begin_round k c =
     (if \<not> ca_enabled c \<or> (k = ResolverRound \<and> ca_names c = []) then None else Some (ca_generation c))"

text \<open>\<open>round\<close> and \<open>resolverRound\<close> when nothing else runs between their two critical sections.\<close>

definition addressRound ::
  "bool \<Rightarrow> (string \<Rightarrow> bool) \<Rightarrow> instant \<Rightarrow> canary \<Rightarrow> canary \<times> bool \<times> callback list" where
  "addressRound ctxErr dial now c =
     (case begin_round AddressRound c of
        None \<Rightarrow> (c, False, [])
      | Some g \<Rightarrow> settle ctxErr now g AddressRound (anyReachable dial (ca_targets c)) c)"

definition resolverRound ::
  "bool \<Rightarrow> (string \<Rightarrow> lookup_error option) \<Rightarrow> instant \<Rightarrow> canary \<Rightarrow> canary \<times> bool \<times> callback list" where
  "resolverRound ctxErr lookup now c =
     (case begin_round ResolverRound c of
        None \<Rightarrow> (c, False, [])
      | Some g \<Rightarrow> settle ctxErr now g ResolverRound (anyAnswered lookup (ca_names c)) c)"

definition ask ::
  "round_kind \<Rightarrow> (canary \<Rightarrow> canary \<times> bool \<times> callback list) \<Rightarrow> instant \<Rightarrow> canary \<Rightarrow>
   canary \<times> bool \<times> callback list" where
  "ask k rnd now c =
     (if \<not> ca_enabled c then (c, False, [])
      else (case cached now (episode_of k c) c of Some down \<Rightarrow> (c, down, []) | None \<Rightarrow> rnd c))"

definition Offline ::
  "bool \<Rightarrow> (string \<Rightarrow> bool) \<Rightarrow> instant \<Rightarrow> canary \<Rightarrow> canary \<times> bool \<times> callback list" where
  "Offline ctxErr dial now c = ask AddressRound (addressRound ctxErr dial now) now c"

definition ResolverDown ::
  "bool \<Rightarrow> (string \<Rightarrow> lookup_error option) \<Rightarrow> instant \<Rightarrow> canary \<Rightarrow> canary \<times> bool \<times> callback list" where
  "ResolverDown ctxErr lookup now c =
     (if ca_names c = [] then (c, False, [])
      else ask ResolverRound (resolverRound ctxErr lookup now) now c)"

definition downSince :: "episode \<Rightarrow> instant \<times> bool" where
  "downSince e = (ep_since e, ep_down e)"

definition TargetsUnusable :: "canary \<Rightarrow> (unusable_reason \<times> instant) option" where
  "TargetsUnusable c =
     (if \<not> ca_enabled c then None
      else map_option (\<lambda>r. (r, un_since (ca_unusable c))) (un_reason (ca_unusable c)))"

section \<open>Sweeping, configuring, evidence\<close>

definition Sweep ::
  "bool \<Rightarrow> (string \<Rightarrow> bool) \<Rightarrow> (string \<Rightarrow> lookup_error option) \<Rightarrow> instant \<Rightarrow> canary \<Rightarrow>
   canary \<times> callback list" where
  "Sweep ctxErr dial lookup now c =
     (let untried = (\<not> ca_tried c); offline = ep_down (ca_address c);
          resolverDown = ep_down (ca_resolver c)
      in if \<not> ca_enabled c \<or> (\<not> untried \<and> \<not> offline \<and> \<not> resolverDown) then (c, [])
         else
           let (c1, _, cb1) = (if offline \<or> untried then addressRound ctxErr dial now c else (c, False, []));
               (c2, _, cb2) = (if resolverDown then resolverRound ctxErr lookup now c1 else (c1, False, []))
           in (c2, cb1 @ cb2))"

text \<open>\<open>Configure\<close>, with the verdict of \<open>ValidateSavedTargets\<close> on the new list.\<close>

definition Configure :: "string option \<Rightarrow> bool \<Rightarrow> string list \<Rightarrow> canary \<Rightarrow> string + canary" where
  "Configure verdict enabled targets c =
     (case verdict of
        Some err \<Rightarrow> Inl err
      | None \<Rightarrow>
          if enabled = ca_enabled c \<and> targets = ca_targets c then Inr c
          else
            let c1 = (if targets \<noteq> ca_targets c
                      then c\<lparr>ca_proven := False, ca_tried := False, ca_unusable := usable\<rparr> else c)
            in Inr (c1\<lparr>ca_enabled := enabled, ca_targets := targets,
                       ca_generation := ca_generation c + 1,
                       ca_address := no_episode, ca_resolver := no_episode\<rparr>))"

definition evidenceWanted :: "instant \<Rightarrow> canary \<Rightarrow> bool" where
  "evidenceWanted t c =
     (if \<not> ca_enabled c then False
      else if ep_down (ca_address c) then ep_since (ca_address c) < t
      else un_reason (ca_unusable c) = Some Unanswered \<and> un_since (ca_unusable c) < t)"

text \<open>The part of \<open>PublicReached\<close> after its dials, which began under \<open>generation\<close>.\<close>

definition evidence_settled ::
  "bool \<Rightarrow> instant \<Rightarrow> nat \<Rightarrow> bool \<Rightarrow> canary \<Rightarrow> canary \<times> callback list" where
  "evidence_settled ctxErr now generation reached c =
     (if reached then
        let (c', _, cb) = settle ctxErr now generation AddressRound True c in (c', cb)
      else if ctxErr then (c, [])
      else if ca_generation c \<noteq> generation then (c, [])
      else
        (c\<lparr>ca_address := \<lparr>ep_checkedAt = now, ep_down = False, ep_since = 0\<rparr>, ca_proven := False,
           ca_unusable := \<lparr>un_reason = Some Contradicted, un_since = now\<rparr>\<rparr>,
         if un_reason (ca_unusable c) \<noteq> Some Contradicted then [OnUnusable Contradicted] else []))"

definition PublicReached ::
  "bool \<Rightarrow> (string \<Rightarrow> bool) \<Rightarrow> instant \<Rightarrow> instant \<Rightarrow> canary \<Rightarrow> canary \<times> callback list" where
  "PublicReached ctxErr dial t now c =
     (if \<not> evidenceWanted t c then (c, [])
      else evidence_settled ctxErr now (ca_generation c) (anyReachable dial (ca_targets c)) c)"

end
