(* ===== verification/CanaryRuns.thy ===== *)
theory CanaryRuns
  imports Canary
begin

text \<open>
  The canary as a whole: its operations interleaved with the dials of the one probe in flight, an
  abstract specification over what happened, and the proof that the code implements it.
\<close>

section \<open>The steps\<close>

text \<open>
  \<open>probeMu\<close> admits one probe at a time; the slot remembers what it was started for and under which
  generation. \<open>canary_event\<close> is what happened, as an observer outside the code would note it: a round
  recorded, a contradiction recorded, the settings changed (with or without the targets).
\<close>

datatype probe = Round round_kind nat | Evidence nat

datatype canary_event =
    Probed round_kind bool instant
  | Contradiction instant
  | TargetsChanged
  | SwitchChanged

record world =
  wo_canary :: canary
  wo_probe :: "probe option"
  wo_calls :: "callback list"
  wo_events :: "canary_event list"

definition round_event :: "bool \<Rightarrow> instant \<Rightarrow> nat \<Rightarrow> round_kind \<Rightarrow> bool \<Rightarrow> canary \<Rightarrow> canary_event list" where
  "round_event ctxErr now g k reached c =
     (if ctxErr \<or> ca_generation c \<noteq> g then [] else [Probed k reached now])"

definition finish_round :: "bool \<Rightarrow> instant \<Rightarrow> nat \<Rightarrow> round_kind \<Rightarrow> bool \<Rightarrow> world \<Rightarrow> world" where
  "finish_round ctxErr now g k reached w =
     (let (c, _, cb) = settle ctxErr now g k reached (wo_canary w)
      in w\<lparr>wo_canary := c, wo_probe := None, wo_calls := wo_calls w @ cb,
           wo_events := wo_events w @ round_event ctxErr now g k reached (wo_canary w)\<rparr>)"

definition finish_evidence :: "bool \<Rightarrow> instant \<Rightarrow> nat \<Rightarrow> bool \<Rightarrow> world \<Rightarrow> world" where
  "finish_evidence ctxErr now g reached w =
     (let (c, cb) = evidence_settled ctxErr now g reached (wo_canary w)
      in w\<lparr>wo_canary := c, wo_probe := None, wo_calls := wo_calls w @ cb,
           wo_events := wo_events w @
             (if ctxErr \<or> ca_generation (wo_canary w) \<noteq> g then []
              else if reached then [Probed AddressRound True now] else [Contradiction now])\<rparr>)"

definition configured :: "bool \<Rightarrow> string list \<Rightarrow> world \<Rightarrow> world" where
  "configured enabled targets w =
     (case Configure None enabled targets (wo_canary w) of
        Inl _ \<Rightarrow> w
      | Inr c \<Rightarrow> w\<lparr>wo_canary := c,
          wo_events := wo_events w @
            (if targets \<noteq> ca_targets (wo_canary w) then [TargetsChanged]
             else if enabled \<noteq> ca_enabled (wo_canary w) then [SwitchChanged] else [])\<rparr>)"

inductive canary_step :: "world \<Rightarrow> world \<Rightarrow> bool" where
  round_begins: "wo_probe w = None \<Longrightarrow> begin_round k (wo_canary w) = Some g \<Longrightarrow>
    canary_step w (w\<lparr>wo_probe := Some (Round k g)\<rparr>)"
| round_ends: "wo_probe w = Some (Round k g) \<Longrightarrow>
    canary_step w (finish_round ctxErr now g k reached w)"
| evidence_begins: "wo_probe w = None \<Longrightarrow> evidenceWanted t (wo_canary w) \<Longrightarrow>
    canary_step w (w\<lparr>wo_probe := Some (Evidence (ca_generation (wo_canary w)))\<rparr>)"
| evidence_ends: "wo_probe w = Some (Evidence g) \<Longrightarrow>
    canary_step w (finish_evidence ctxErr now g reached w)"
| settings: "canary_step w (configured enabled targets w)"

definition new_world :: "canary_options \<Rightarrow> world" where
  "new_world opts = \<lparr>wo_canary = new_canary opts, wo_probe = None, wo_calls = [], wo_events = []\<rparr>"

inductive canary_reachable :: "canary_options \<Rightarrow> world \<Rightarrow> bool" for opts where
  canary_init: "canary_reachable opts (new_world opts)"
| canary_more: "canary_reachable opts w \<Longrightarrow> canary_step w w' \<Longrightarrow> canary_reachable opts w'"

section \<open>The specification\<close>

text \<open>
  What the package promises, without generations, locks or timestamps of rounds: the targets are proven
  by a round that reaches one and unproven by a change of targets or a contradiction; an offline
  episode starts with the first failing round of proven targets and ends with a report when a round
  passes; a resolver episode starts with the first failing round.
\<close>

record canary_spec =
  sp_proven :: bool
  sp_offline :: "instant option"
  sp_resolver :: "instant option"
  sp_reports :: "(round_kind \<times> instant \<times> instant) list"

definition ended :: "round_kind \<Rightarrow> instant option \<Rightarrow> instant \<Rightarrow> (round_kind \<times> instant \<times> instant) list" where
  "ended k since now = (case since of None \<Rightarrow> [] | Some s \<Rightarrow> [(k, s, now)])"

definition started :: "instant option \<Rightarrow> instant \<Rightarrow> instant option" where
  "started since now = (case since of None \<Rightarrow> Some now | Some s \<Rightarrow> Some s)"

fun spec_step :: "canary_spec \<Rightarrow> canary_event \<Rightarrow> canary_spec" where
  "spec_step a (Probed AddressRound True now) =
     a\<lparr>sp_proven := True, sp_offline := None,
       sp_reports := sp_reports a @ ended AddressRound (sp_offline a) now\<rparr>"
| "spec_step a (Probed AddressRound False now) =
     (if sp_proven a then a\<lparr>sp_offline := started (sp_offline a) now\<rparr> else a)"
| "spec_step a (Probed ResolverRound True now) =
     a\<lparr>sp_resolver := None, sp_reports := sp_reports a @ ended ResolverRound (sp_resolver a) now\<rparr>"
| "spec_step a (Probed ResolverRound False now) = a\<lparr>sp_resolver := started (sp_resolver a) now\<rparr>"
| "spec_step a (Contradiction now) = a\<lparr>sp_proven := False, sp_offline := None\<rparr>"
| "spec_step a TargetsChanged = a\<lparr>sp_proven := False, sp_offline := None, sp_resolver := None\<rparr>"
| "spec_step a SwitchChanged = a\<lparr>sp_offline := None, sp_resolver := None\<rparr>"

definition spec_run :: "canary_event list \<Rightarrow> canary_spec" where
  "spec_run evs = foldl spec_step
     \<lparr>sp_proven = False, sp_offline = None, sp_resolver = None, sp_reports = []\<rparr> evs"

lemma spec_run_append [simp]: "spec_run (evs @ [e]) = spec_step (spec_run evs) e"
  by (simp add: spec_run_def)

section \<open>The code implements it\<close>

definition abs_episode :: "episode \<Rightarrow> instant option" where
  "abs_episode e = (if ep_down e then Some (ep_since e) else None)"

fun report_of :: "callback \<Rightarrow> (round_kind \<times> instant \<times> instant) list" where
  "report_of (Restored k from' to) = [(k, from', to)]"
| "report_of (OnUnusable r) = []"

definition abs_world :: "world \<Rightarrow> canary_spec" where
  "abs_world w = \<lparr>sp_proven = ca_proven (wo_canary w),
     sp_offline = abs_episode (ca_address (wo_canary w)),
     sp_resolver = abs_episode (ca_resolver (wo_canary w)),
     sp_reports = concat (map report_of (wo_calls w))\<rparr>"

text \<open>The invariant of the standing of the targets.\<close>

definition canary_inv :: "canary \<Rightarrow> bool" where
  "canary_inv c \<longleftrightarrow>
     (ep_down (ca_address c) \<longrightarrow> ca_proven c \<and> ca_enabled c) \<and>
     (ep_down (ca_resolver c) \<longrightarrow> ca_enabled c) \<and>
     (ca_proven c \<longrightarrow> ca_tried c \<and> ca_unusable c = usable) \<and>
     (un_reason (ca_unusable c) \<noteq> None \<longrightarrow> ca_tried c)"

definition probe_ok :: "world \<Rightarrow> bool" where
  "probe_ok w \<longleftrightarrow> (case wo_probe w of
     None \<Rightarrow> True
   | Some (Round k g) \<Rightarrow> g \<le> ca_generation (wo_canary w) \<and>
       (g = ca_generation (wo_canary w) \<longrightarrow> ca_enabled (wo_canary w))
   | Some (Evidence g) \<Rightarrow> g \<le> ca_generation (wo_canary w) \<and>
       (g = ca_generation (wo_canary w) \<longrightarrow> ca_enabled (wo_canary w) \<and> ca_tried (wo_canary w)))"

definition world_ok :: "world \<Rightarrow> bool" where
  "world_ok w \<longleftrightarrow> canary_inv (wo_canary w) \<and> probe_ok w \<and> abs_world w = spec_run (wo_events w)"

lemma abs_world_simps [simp]:
  "abs_world (w\<lparr>wo_probe := p\<rparr>) = abs_world w"
  "abs_world (w\<lparr>wo_events := es\<rparr>) = abs_world w"
  by (simp_all add: abs_world_def)

lemma settle_inv:
  assumes "canary_inv c" "ca_enabled c"
  shows "canary_inv (fst (settle ctxErr now g k reached c))"
  using assms by (cases k) (auto simp: settle_def canary_inv_def usable_def put_episode_def episode_of_def Let_def)

lemma settle_frame:
  "ca_generation (fst (settle ctxErr now g k reached c)) = ca_generation c"
  "ca_enabled (fst (settle ctxErr now g k reached c)) = ca_enabled c"
  by (cases k; simp add: settle_def put_episode_def Let_def)+

lemma settle_refines:
  assumes "canary_inv (wo_canary w)" "abs_world w = spec_run (wo_events w)"
  shows "abs_world (finish_round ctxErr now g k reached w) =
         spec_run (wo_events (finish_round ctxErr now g k reached w))"
proof (cases "ctxErr \<or> ca_generation (wo_canary w) \<noteq> g")
  case True
  then show ?thesis
    using assms(2) by (auto simp: finish_round_def settle_def round_event_def abs_world_def)
next
  case False
  then have ev: "wo_events (finish_round ctxErr now g k reached w) = wo_events w @ [Probed k reached now]"
    by (simp add: finish_round_def round_event_def split: prod.split)
  have nd: "\<not> ca_proven (wo_canary w) \<Longrightarrow> \<not> ep_down (ca_address (wo_canary w))"
    using assms(1) by (auto simp: canary_inv_def)
  show ?thesis
    unfolding ev spec_run_append assms(2) [symmetric]
    using False nd
    by (cases k; cases reached)
       (auto simp: finish_round_def settle_def abs_world_def abs_episode_def put_episode_def
          episode_of_def ended_def started_def Let_def)
qed

lemma finish_round_ok:
  assumes "world_ok w" "wo_probe w = Some (Round k g)"
  shows "world_ok (finish_round ctxErr now g k reached w)"
proof -
  let ?c = "wo_canary w"
  have c: "wo_canary (finish_round ctxErr now g k reached w) = fst (settle ctxErr now g k reached ?c)"
    "wo_probe (finish_round ctxErr now g k reached w) = None"
    by (simp_all add: finish_round_def split: prod.split)
  have "canary_inv (fst (settle ctxErr now g k reached ?c))"
  proof (cases "ca_generation ?c = g")
    case True
    then show ?thesis using assms settle_inv by (simp add: world_ok_def probe_ok_def)
  next
    case False
    then show ?thesis using assms(1) by (simp add: settle_def world_ok_def)
  qed
  then show ?thesis
    using settle_refines [of w ctxErr now g k reached] assms(1) c
    by (simp add: world_ok_def probe_ok_def)
qed

lemma finish_evidence_ok:
  assumes "world_ok w" "wo_probe w = Some (Evidence g)"
  shows "world_ok (finish_evidence ctxErr now g reached w)"
proof (cases reached)
  case True
  let ?w = "w\<lparr>wo_probe := Some (Round AddressRound g)\<rparr>"
  have "finish_evidence ctxErr now g True w = finish_round ctxErr now g AddressRound True ?w"
    by (simp add: finish_evidence_def finish_round_def evidence_settled_def round_event_def split: prod.split)
  moreover have "world_ok ?w" using assms by (simp add: world_ok_def probe_ok_def)
  ultimately show ?thesis using True finish_round_ok [of ?w] by simp
next
  case False
  show ?thesis
  proof (cases "ctxErr \<or> ca_generation (wo_canary w) \<noteq> g")
    case True
    then have "finish_evidence ctxErr now g reached w = w\<lparr>wo_probe := None\<rparr>"
      using False by (auto simp: finish_evidence_def evidence_settled_def)
    then show ?thesis using assms(1) by (simp add: world_ok_def probe_ok_def)
  next
    case live: False
    let ?w = "finish_evidence ctxErr now g reached w"
    have ev: "wo_events ?w = wo_events w @ [Contradiction now]"
      using False live by (simp add: finish_evidence_def split: prod.split)
    have inv: "canary_inv (wo_canary ?w)" "probe_ok ?w"
      using assms False live
      by (auto simp: world_ok_def canary_inv_def probe_ok_def finish_evidence_def evidence_settled_def)
    have "abs_world ?w = spec_step (abs_world w) (Contradiction now)"
      using False live by (simp add: finish_evidence_def evidence_settled_def abs_world_def abs_episode_def)
    then show ?thesis using inv ev assms(1) by (simp add: world_ok_def)
  qed
qed

lemma configured_ok:
  assumes "world_ok w"
  shows "world_ok (configured enabled targets w)"
proof (cases "enabled = ca_enabled (wo_canary w) \<and> targets = ca_targets (wo_canary w)")
  case True
  then show ?thesis using assms by (simp add: configured_def Configure_def)
next
  case False
  let ?w = "configured enabled targets w"
  have inv: "canary_inv (wo_canary ?w)"
    using False assms
    by (auto simp: configured_def Configure_def world_ok_def canary_inv_def no_episode_def usable_def Let_def)
  have gen: "ca_generation (wo_canary ?w) = ca_generation (wo_canary w) + 1" "wo_probe ?w = wo_probe w"
    using False by (auto simp: configured_def Configure_def Let_def)
  then have probe: "probe_ok ?w"
    using assms by (auto simp: world_ok_def probe_ok_def split: option.splits probe.splits)
  have "wo_events ?w = wo_events w @ [if targets \<noteq> ca_targets (wo_canary w) then TargetsChanged else SwitchChanged]"
    using False by (auto simp: configured_def Configure_def Let_def)
  moreover have "abs_world ?w =
      spec_step (abs_world w) (if targets \<noteq> ca_targets (wo_canary w) then TargetsChanged else SwitchChanged)"
    using False
    by (auto simp: configured_def Configure_def abs_world_def abs_episode_def no_episode_def Let_def)
  ultimately show ?thesis using inv probe assms by (simp add: world_ok_def)
qed

lemma evidence_tried: "canary_inv c \<Longrightarrow> evidenceWanted t c \<Longrightarrow> ca_enabled c \<and> ca_tried c"
  by (auto simp: canary_inv_def evidenceWanted_def split: if_splits)

lemma world_ok_step: "canary_step w w' \<Longrightarrow> world_ok w \<Longrightarrow> world_ok w'"
proof (induction rule: canary_step.induct)
  case (round_begins w k g)
  then show ?case by (auto simp: world_ok_def probe_ok_def begin_round_def split: if_splits)
next
  case (evidence_begins w t)
  then show ?case using evidence_tried by (auto simp: world_ok_def probe_ok_def)
qed (auto intro: finish_round_ok finish_evidence_ok configured_ok)

lemma world_ok_reachable: "canary_reachable opts w \<Longrightarrow> world_ok w"
proof (induction rule: canary_reachable.induct)
  case canary_init
  show ?case
    by (simp add: world_ok_def new_world_def new_canary_def canary_inv_def probe_ok_def no_episode_def
        usable_def abs_world_def abs_episode_def spec_run_def)
qed (auto intro: world_ok_step)

section \<open>What the specification says of the events\<close>

text \<open>What takes the proof of the targets away.\<close>

definition unproves :: "canary_event \<Rightarrow> bool" where
  "unproves e \<longleftrightarrow> e = TargetsChanged \<or> (\<exists>t. e = Contradiction t)"

text \<open>What ends an offline episode.\<close>

definition ends_episode :: "canary_event \<Rightarrow> bool" where
  "ends_episode e \<longleftrightarrow> unproves e \<or> e = SwitchChanged \<or> (\<exists>t. e = Probed AddressRound True t)"

lemma proven_witness:
  assumes "sp_proven (spec_run evs)"
  shows "\<exists>pre t mid. evs = pre @ Probed AddressRound True t # mid \<and> (\<forall>e\<in>set mid. \<not> unproves e)"
  using assms
proof (induction evs rule: rev_induct)
  case (snoc e evs)
  have "sp_proven (spec_run evs) \<and> \<not> unproves e \<or> (\<exists>t. e = Probed AddressRound True t)"
    using snoc.prems
    by (cases "(spec_run evs, e)" rule: spec_step.cases) (auto simp: unproves_def split: if_splits)
  then show ?case
  proof
    assume "sp_proven (spec_run evs) \<and> \<not> unproves e"
    with snoc.IH obtain pre t mid where
      "evs = pre @ Probed AddressRound True t # mid" "\<forall>e\<in>set mid. \<not> unproves e" "\<not> unproves e" by blast
    then have "evs @ [e] = pre @ Probed AddressRound True t # (mid @ [e])"
      "\<forall>e'\<in>set (mid @ [e]). \<not> unproves e'" by auto
    then show ?thesis by blast
  next
    assume "\<exists>t. e = Probed AddressRound True t"
    then show ?thesis by fastforce
  qed
qed (simp add: spec_run_def)

lemma offline_cases:
  assumes "sp_offline (spec_step a e) = Some s"
  shows "sp_offline a = Some s \<and> \<not> ends_episode e \<or>
         sp_offline a = None \<and> sp_proven a \<and> e = Probed AddressRound False s"
  using assms
  by (cases "(a, e)" rule: spec_step.cases)
     (auto simp: ends_episode_def unproves_def started_def split: option.splits if_splits)

lemma offline_witness:
  assumes "sp_offline (spec_run evs) = Some s"
  shows "\<exists>pre post. evs = pre @ Probed AddressRound False s # post \<and> sp_proven (spec_run pre) \<and>
                    (\<forall>e\<in>set post. \<not> ends_episode e)"
  using assms
proof (induction evs rule: rev_induct)
  case (snoc e evs)
  from offline_cases [OF snoc.prems [simplified]] show ?case
  proof
    assume "sp_offline (spec_run evs) = Some s \<and> \<not> ends_episode e"
    with snoc.IH obtain pre post where
      "evs = pre @ Probed AddressRound False s # post" "sp_proven (spec_run pre)"
      "\<forall>e\<in>set post. \<not> ends_episode e" "\<not> ends_episode e" by blast
    then have "evs @ [e] = pre @ Probed AddressRound False s # (post @ [e])"
      "\<forall>e'\<in>set (post @ [e]). \<not> ends_episode e'" by auto
    with \<open>sp_proven (spec_run pre)\<close> show ?thesis by blast
  next
    assume "sp_offline (spec_run evs) = None \<and> sp_proven (spec_run evs) \<and> e = Probed AddressRound False s"
    then show ?thesis by (intro exI [of _ evs] exI [of _ "[]"]) simp
  qed
qed (simp add: spec_run_def)

section \<open>A sample run\<close>

text \<open>The targets answer at second 10 and fail at second 50.\<close>

definition sample_canary :: canary_options where
  "sample_canary = \<lparr>co_Targets = [''1.1.1.1:53''], co_Names = [''one.one.one.one''],
     co_Disabled = False, co_CacheFor = 0\<rparr>"

definition probed :: "instant \<Rightarrow> bool \<Rightarrow> world \<Rightarrow> world" where
  "probed now reached w =
     finish_round False now (ca_generation (wo_canary w)) AddressRound reached
       (w\<lparr>wo_probe := Some (Round AddressRound (ca_generation (wo_canary w)))\<rparr>)"

definition sample_world :: world where
  "sample_world = probed (seconds 50) False (probed (seconds 10) True (new_world sample_canary))"

lemma probed_reachable:
  assumes "canary_reachable opts w" "wo_probe w = None" "ca_enabled (wo_canary w)"
  shows "canary_reachable opts (probed now reached w)"
  unfolding probed_def
  by (rule canary_more [OF canary_more [OF assms(1) round_begins] round_ends])
     (use assms(2,3) in \<open>auto simp: begin_round_def\<close>)

lemma sample_world_reachable: "canary_reachable sample_canary sample_world"
  unfolding sample_world_def
  by (intro probed_reachable canary_init)
     (simp_all add: new_world_def new_canary_def sample_canary_def probed_def finish_round_def
        settle_frame split: prod.split; metis settle_frame(2) fst_conv canary.select_convs(4))+

lemma sample_world_canary:
  "ca_address (wo_canary sample_world) =
     \<lparr>ep_checkedAt = seconds 50, ep_down = True, ep_since = seconds 50\<rparr>"
  by (simp add: sample_world_def probed_def finish_round_def settle_def new_world_def new_canary_def
      sample_canary_def no_episode_def put_episode_def episode_of_def Let_def)

section \<open>What the canary promises\<close>

text \<open>
  C15: the canary implements its specification. Whatever rounds, evidence and configuration changes
  interleave, with rounds in flight across them, the state it keeps and the reports it has made are
  exactly those of the abstract automaton over the events: one report per episode, with the first
  failing and the first passing round, and none for an episode cut short.
\<close>

theorem canary_implements_spec:
  assumes "canary_reachable opts w"
  shows "abs_world w = spec_run (wo_events w)"
  using world_ok_reachable [OF assms] by (simp add: world_ok_def)

theorem canary_implements_spec_witness:
  "sp_offline (spec_run (wo_events sample_world)) = Some (seconds 50)"
  unfolding canary_implements_spec [OF sample_world_reachable, symmetric]
  by (simp add: abs_world_def abs_episode_def sample_world_canary)

text \<open>
  The host is called offline only on proof. Whenever \<open>Offline\<close> answers true, the check is on, and the
  targets had answered a round since they were set and since they were last contradicted; either the
  round it has just run failed at every target, or the failing round that began the episode has been
  followed by no passing round, no contradiction and no change of settings.
\<close>

theorem offline_only_on_proof:
  assumes "canary_reachable opts w" "fst (snd (Offline ctxErr dial now (wo_canary w)))"
  shows "ca_enabled (wo_canary w) \<and>
    (\<exists>pre t mid. wo_events w = pre @ Probed AddressRound True t # mid \<and> (\<forall>e\<in>set mid. \<not> unproves e)) \<and>
    ((\<forall>x\<in>set (ca_targets (wo_canary w)). \<not> dial x) \<or>
     (\<exists>pre s post. wo_events w = pre @ Probed AddressRound False s # post \<and>
        sp_proven (spec_run pre) \<and> (\<forall>e\<in>set post. \<not> ends_episode e)))"
proof -
  let ?c = "wo_canary w"
  have ok: "canary_inv ?c" "abs_world w = spec_run (wo_events w)"
    using world_ok_reachable [OF assms(1)] by (simp_all add: world_ok_def)
  have en: "ca_enabled ?c" using assms(2) by (auto simp: Offline_def ask_def split: if_splits)
  have abs: "sp_proven (spec_run (wo_events w)) = ca_proven ?c"
    "sp_offline (spec_run (wo_events w)) = abs_episode (ca_address ?c)"
    unfolding ok(2) [symmetric] by (simp_all add: abs_world_def)
  show ?thesis
  proof (cases "cached now (ca_address ?c) ?c")
    case (Some d)
    then have d: "ep_down (ca_address ?c)"
      using assms(2) en by (auto simp: Offline_def ask_def episode_of_def cached_def split: if_splits)
    then have "ca_proven ?c" using ok(1) by (simp add: canary_inv_def)
    moreover have "sp_offline (spec_run (wo_events w)) = Some (ep_since (ca_address ?c))"
      using abs(2) d by (simp add: abs_episode_def)
    ultimately show ?thesis using en abs(1) proven_witness offline_witness by blast
  next
    case None
    then have *: "fst (snd (settle ctxErr now (ca_generation ?c) AddressRound
        (anyReachable dial (ca_targets ?c)) ?c))"
      using assms(2) en by (simp add: Offline_def ask_def episode_of_def addressRound_def begin_round_def)
    have "\<forall>x\<in>set (ca_targets ?c). \<not> dial x"
      using * by (auto simp: settle_def anyReachable_def list_ex_iff Let_def split: if_splits)
    moreover have "ca_proven ?c"
      using * by (auto simp: settle_def Let_def split: if_splits)
    ultimately show ?thesis using en abs(1) proven_witness by blast
  qed
qed

theorem offline_only_on_proof_witness:
  "\<exists>pre t mid. wo_events sample_world = pre @ Probed AddressRound True t # mid \<and> (\<forall>e\<in>set mid. \<not> unproves e)"
proof -
  have "ca_enabled (wo_canary sample_world)" "ca_cacheFor (wo_canary sample_world) = seconds 30"
    by (simp_all add: sample_world_def probed_def finish_round_def settle_def new_world_def new_canary_def
      sample_canary_def no_episode_def put_episode_def episode_of_def DefaultCacheFor_def Let_def)
  then have "fst (snd (Offline False (\<lambda>_. True) (seconds 60) (wo_canary sample_world)))"
    by (simp add: Offline_def ask_def cached_def episode_of_def sample_world_canary)
  from offline_only_on_proof [OF sample_world_reachable this] show ?thesis by blast
qed

text \<open>
  Targets that cannot speak for this host hold nothing back. While they stand unanswered or
  contradicted, \<open>Offline\<close> answers false whatever the dials do; only a round that reaches a target
  restores them, and the calls it makes report no episode.
\<close>

theorem unusable_targets_hold_nothing_back:
  assumes "canary_reachable opts w" "TargetsUnusable (wo_canary w) \<noteq> None"
    and "Offline ctxErr dial now (wo_canary w) = (c', answer, calls)"
  shows "\<not> answer \<and> calls = [] \<and>
         (TargetsUnusable c' \<noteq> None \<or> (\<exists>x\<in>set (ca_targets (wo_canary w)). dial x))"
proof -
  let ?c = "wo_canary w"
  have ok: "canary_inv ?c" using world_ok_reachable [OF assms(1)] by (simp add: world_ok_def)
  have un: "un_reason (ca_unusable ?c) \<noteq> None" "ca_enabled ?c"
    using assms(2) by (auto simp: TargetsUnusable_def split: if_splits)
  then have np: "\<not> ca_proven ?c" using ok by (auto simp: canary_inv_def usable_def)
  then have nd: "\<not> ep_down (ca_address ?c)" using ok by (auto simp: canary_inv_def)
  show ?thesis
    using assms(3) un np nd
    by (auto simp: Offline_def ask_def episode_of_def cached_def addressRound_def begin_round_def settle_def
        anyReachable_def list_ex_iff TargetsUnusable_def usable_def put_episode_def Let_def
        split: if_splits)
qed

text \<open>A world whose targets have never answered.\<close>

definition sample_blocked :: world where
  "sample_blocked = probed (seconds 10) False (new_world sample_canary)"

lemma sample_blocked_reachable: "canary_reachable sample_canary sample_blocked"
  unfolding sample_blocked_def
  by (intro probed_reachable canary_init) (simp_all add: new_world_def new_canary_def sample_canary_def)

theorem unusable_targets_hold_nothing_back_witness:
  "\<not> fst (snd (Offline False (\<lambda>_. False) (seconds 60) (wo_canary sample_blocked)))"
proof -
  have "TargetsUnusable (wo_canary sample_blocked) \<noteq> None"
    by (simp add: sample_blocked_def probed_def finish_round_def settle_def new_world_def new_canary_def
      sample_canary_def no_episode_def put_episode_def episode_of_def usable_def TargetsUnusable_def Let_def)
  moreover obtain c' a cb where r: "Offline False (\<lambda>_. False) (seconds 60) (wo_canary sample_blocked) = (c', a, cb)"
    by (metis surj_pair)
  ultimately show ?thesis
    using unusable_targets_hold_nothing_back [OF sample_blocked_reachable] by fastforce
qed

text \<open>
  One round serves every question asked within \<open>cacheFor\<close>. After a question that ran a round to its
  end, any question within that time gets the same answer, dials nothing and changes nothing, whatever
  a dial would find.
\<close>

theorem one_round_serves_all_within_cacheFor:
  assumes "canary_reachable opts w" "ca_enabled (wo_canary w)" "now \<noteq> 0"
    and "cached now (ca_address (wo_canary w)) (wo_canary w) = None"
    and "Offline False dial now (wo_canary w) = (c', answer, calls)"
    and "now \<le> later" "later < now + ca_cacheFor (wo_canary w)"
  shows "Offline ctxErr dial' later c' = (c', answer, [])"
proof -
  let ?c = "wo_canary w"
  have s: "settle False now (ca_generation ?c) AddressRound (anyReachable dial (ca_targets ?c)) ?c = (c', answer, calls)"
    using assms(2,4,5) by (simp add: Offline_def ask_def episode_of_def addressRound_def begin_round_def)
  then have "ep_checkedAt (ca_address c') = now" "ep_down (ca_address c') = answer"
    "ca_cacheFor c' = ca_cacheFor ?c" "ca_enabled c'"
    using assms(2) by (auto simp: settle_def put_episode_def Let_def split: if_splits)
  then show ?thesis
    using assms(3,6,7) by (simp add: Offline_def ask_def episode_of_def cached_def)
qed

theorem one_round_serves_all_within_cacheFor_witness:
  "\<exists>c' a. Offline True (\<lambda>_. True) (seconds 20) c' = (c', a, [])"
proof -
  let ?w = "new_world sample_canary"
  obtain c' a cb where r: "Offline False (\<lambda>_. False) (seconds 10) (wo_canary ?w) = (c', a, cb)"
    by (metis surj_pair)
  have "Offline True (\<lambda>_. True) (seconds 20) c' = (c', a, [])"
    by (rule one_round_serves_all_within_cacheFor [OF canary_init _ _ _ r])
       (simp_all add: new_world_def new_canary_def sample_canary_def cached_def no_episode_def DefaultCacheFor_def)
  then show ?thesis by blast
qed

end
