(* ===== verification/Text.thy ===== *)
theory Text
  imports Prelude
begin

text \<open>
  Byte strings as the code handles them: decimal numbers (\<open>strconv\<close>), splitting, joining and trimming
  (\<open>strings\<close>). A string is a list of bytes.
\<close>

section \<open>Decimal numbers\<close>

fun digits :: "nat \<Rightarrow> string" where
  "digits n = (if n < 10 then [char_of (48 + n)] else digits (n div 10) @ [char_of (48 + n mod 10)])"

declare digits.simps [simp del]

definition itoa :: "int \<Rightarrow> string" where
  "itoa i = (if i < 0 then ''-'' @ digits (nat (- i)) else digits (nat i))"

definition is_digit :: "char \<Rightarrow> bool" where
  "is_digit c \<longleftrightarrow> 48 \<le> (of_char c :: nat) \<and> of_char c \<le> (57 :: nat)"

definition digit_value :: "char \<Rightarrow> nat" where
  "digit_value c = of_char c - 48"

definition decimal :: "string \<Rightarrow> nat" where
  "decimal s = foldl (\<lambda>n c. 10 * n + digit_value c) 0 s"

text \<open>\<open>strconv.ParseUint(s, 10, bits)\<close> and \<open>strconv.ParseInt(s, 10, 64)\<close>; \<open>Atoi\<close> is the latter on a 64-bit machine.\<close>

definition ParseUint :: "nat \<Rightarrow> string \<Rightarrow> nat option" where
  "ParseUint bits s =
     (if s = [] \<or> \<not> list_all is_digit s \<or> 2 ^ bits \<le> decimal s then None else Some (decimal s))"

definition ParseInt :: "string \<Rightarrow> int option" where
  "ParseInt s =
     (let neg = (s \<noteq> [] \<and> hd s = CHR ''-''); t = (if s \<noteq> [] \<and> (hd s = CHR ''-'' \<or> hd s = CHR ''+'') then tl s else s) in
      if t = [] \<or> \<not> list_all is_digit t then None
      else if neg then if 2 ^ 63 < decimal t then None else Some (- int (decimal t))
      else if 2 ^ 63 \<le> decimal t then None else Some (int (decimal t)))"

lemma digits_nonempty [simp]: "digits n \<noteq> []"
  by (subst digits.simps) simp

lemma digits_are_digits: "list_all is_digit (digits n)"
proof (induction n rule: digits.induct)
  case (1 n)
  have "is_digit (char_of (48 + k))" if "k < 10" for k :: nat using that by (simp add: is_digit_def)
  then show ?case using 1
    by (subst digits.simps) simp
qed

lemma decimal_snoc: "decimal (s @ [c]) = 10 * decimal s + digit_value c"
  by (simp add: decimal_def)

lemma decimal_digits [simp]: "decimal (digits n) = n"
proof (induction n rule: digits.induct)
  case (1 n)
  show ?case
  proof (cases "n < 10")
    case True
    then show ?thesis by (subst digits.simps) (simp add: decimal_def digit_value_def)
  next
    case False
    then show ?thesis using 1
      by (subst digits.simps) (simp add: decimal_snoc digit_value_def)
  qed
qed

lemma digits_inject [simp]: "digits m = digits n \<longleftrightarrow> m = n"
  by (metis decimal_digits)

lemma length_digits: "n < 10 ^ k \<Longrightarrow> 0 < k \<Longrightarrow> length (digits n) \<le> k"
proof (induction n arbitrary: k rule: digits.induct)
  case (1 n)
  show ?case
  proof (cases "n < 10")
    case True
    then show ?thesis using 1(3) by (subst digits.simps) simp
  next
    case False
    then have "k \<noteq> 0" "k \<noteq> 1" using False 1(2,3) by (auto simp: not_less)
    then obtain j where k: "k = Suc j" "0 < j" by (cases k) auto
    have "n div 10 < 10 ^ j" using 1(2) k(1) by (simp add: div_less_iff_less_mult mult.commute)
    then have "length (digits (n div 10)) \<le> j" using 1(1) False k(2) by blast
    then show ?thesis using False k(1) by (subst digits.simps) simp
  qed
qed

lemma itoa_nonneg: "0 \<le> i \<Longrightarrow> itoa i = digits (nat i)"
  by (simp add: itoa_def)

lemma digit_not: "is_digit c \<Longrightarrow> c \<noteq> CHR ''-'' \<and> c \<noteq> CHR ''+'' \<and> c \<noteq> CHR ''.'' \<and> c \<noteq> CHR 0x0A \<and> c \<noteq> CHR 0x0D"
  by (auto simp: is_digit_def)

lemma ParseInt_itoa:
  assumes "0 \<le> i" "i < 2 ^ 63" shows "ParseInt (itoa i) = Some i"
proof -
  obtain c cs where d: "digits (nat i) = c # cs" by (cases "digits (nat i)") auto
  have c: "c \<noteq> CHR ''-''" "c \<noteq> CHR ''+''" using digits_are_digits [of "nat i"] digit_not [of c] by (simp_all add: d)
  have "nat i < 2 ^ 63" using assms by (simp add: nat_less_iff)
  then show ?thesis
    using assms c digits_are_digits [of "nat i"] decimal_digits [of "nat i"]
    by (simp add: ParseInt_def itoa_nonneg d)
qed

section \<open>Splitting and joining\<close>

fun split_on :: "char \<Rightarrow> string \<Rightarrow> string list" where
  "split_on c [] = [[]]"
| "split_on c (x # xs) =
     (if x = c then [] # split_on c xs
      else case split_on c xs of [] \<Rightarrow> [[x]] | y # ys \<Rightarrow> (x # y) # ys)"

fun join_with :: "string \<Rightarrow> string list \<Rightarrow> string" where
  "join_with sep [] = []"
| "join_with sep [x] = x"
| "join_with sep (x # y # ys) = x @ sep @ join_with sep (y # ys)"

lemma split_on_nonempty [simp]: "split_on c s \<noteq> []"
  by (induction s) (auto split: list.split)

lemma join_split_on [simp]: "join_with [c] (split_on c s) = s"
proof (induction s)
  case (Cons x xs)
  obtain y ys where "split_on c xs = y # ys" by (cases "split_on c xs") auto
  then show ?case using Cons by (cases ys) auto
qed simp

lemma split_on_append:
  "c \<notin> set w \<Longrightarrow> split_on c (w @ c # s) = w # split_on c s"
  by (induction w) auto

lemma split_on_single: "c \<notin> set w \<Longrightarrow> split_on c w = [w]"
  by (induction w) auto

lemma split_on_no_sep: "w \<in> set (split_on c s) \<Longrightarrow> c \<notin> set w"
proof (induction s arbitrary: w)
  case (Cons x xs)
  obtain y ys where "split_on c xs = y # ys" by (cases "split_on c xs") auto
  then show ?case using Cons by (auto split: if_splits)
qed simp

text \<open>
  \<open>strings.TrimSpace\<close>: the encodings of the white space of Unicode, taken off at either end.
\<close>

definition space_runes :: "string list" where
  "space_runes = map (map char_of) ([[9], [10], [11], [12], [13], [32], [0xC2, 0x85], [0xC2, 0xA0], [0xE1, 0x9A, 0x80],
     [0xE2, 0x80, 0xA8], [0xE2, 0x80, 0xA9], [0xE2, 0x80, 0xAF], [0xE2, 0x81, 0x9F], [0xE3, 0x80, 0x80]] @
     map (\<lambda>k. [0xE2, 0x80, 0x80 + k]) [0..<11] :: nat list list)"

fun strip_prefix :: "string list \<Rightarrow> string \<Rightarrow> string option" where
  "strip_prefix [] s = None"
| "strip_prefix (p # ps) s =
     (if p \<noteq> [] \<and> take (length p) s = p then Some (drop (length p) s) else strip_prefix ps s)"

lemma strip_prefix_shorter: "strip_prefix ps s = Some t \<Longrightarrow> length t < length s"
proof (induction ps)
  case (Cons p ps)
  then show ?case by (cases "p \<noteq> [] \<and> take (length p) s = p") (auto, metis diff_less length_0_conv length_greater_0_conv
      length_take min_0L min_def not_gr_zero take_Nil)
qed simp

function trim_left :: "string list \<Rightarrow> string \<Rightarrow> string" where
  "trim_left ps s = (case strip_prefix ps s of None \<Rightarrow> s | Some t \<Rightarrow> trim_left ps t)"
  by auto
termination
  by (relation "measure (\<lambda>(ps, s). length s)") (auto dest: strip_prefix_shorter)

declare trim_left.simps [simp del]

definition TrimSpace :: "string \<Rightarrow> string" where
  "TrimSpace s = rev (trim_left (map rev space_runes) (rev (trim_left space_runes s)))"

lemma strip_prefix_Nil [simp]: "strip_prefix ps [] = None"
  by (induction ps) auto

lemma TrimSpace_Nil [simp]: "TrimSpace [] = []"
  by (simp add: TrimSpace_def trim_left.simps [of _ "[]"])

lemma strip_prefix_None: "(\<And>p. p \<in> set ps \<Longrightarrow> p \<noteq> [] \<Longrightarrow> hd p \<noteq> c) \<Longrightarrow> strip_prefix ps (c # s) = None"
proof (induction ps)
  case (Cons p ps)
  have "\<not> (p \<noteq> [] \<and> take (length p) (c # s) = p)" using Cons.prems [of p] by (cases p) auto
  then show ?case using Cons by simp
qed simp

definition printable :: "char \<Rightarrow> bool" where
  "printable c \<longleftrightarrow> 33 \<le> (of_char c :: nat) \<and> of_char c \<le> (126 :: nat)"

lemma space_rune_ends:
  assumes "p \<in> set space_runes" shows "p \<noteq> [] \<and> \<not> printable (hd p) \<and> \<not> printable (hd (rev p))"
proof -
  have "list_all (\<lambda>q. q \<noteq> [] \<and> \<not> printable (char_of (hd q :: nat)) \<and> \<not> printable (char_of (hd (rev q))))
    ([[9], [10], [11], [12], [13], [32], [0xC2, 0x85], [0xC2, 0xA0], [0xE1, 0x9A, 0x80],
     [0xE2, 0x80, 0xA8], [0xE2, 0x80, 0xA9], [0xE2, 0x80, 0xAF], [0xE2, 0x81, 0x9F], [0xE3, 0x80, 0x80]] @
     map (\<lambda>k. [0xE2, 0x80, 0x80 + k]) [0..<11])"
    by (simp add: printable_def upt_rec)
  then show ?thesis using assms unfolding space_runes_def set_map list_all_iff
    by (auto simp: rev_map hd_map)
qed

text \<open>A string that starts and ends with printable ASCII has nothing to trim.\<close>

lemma TrimSpace_printable:
  assumes "s \<noteq> []" "printable (hd s)" "printable (last s)" shows "TrimSpace s = s"
proof -
  have trim: "trim_left ps t = t" if "t \<noteq> []" "\<And>p. p \<in> set ps \<Longrightarrow> p \<noteq> [] \<Longrightarrow> hd p \<noteq> hd t" for ps t
    using that strip_prefix_None [of ps "hd t" "tl t"] by (simp add: trim_left.simps [of ps t])
  have "hd p \<noteq> hd s" if "p \<in> set space_runes" for p using space_rune_ends [OF that] assms(2) by metis
  then have left: "trim_left space_runes s = s" using trim [of s space_runes] assms(1) by blast
  have "hd p \<noteq> hd (rev s)" if "p \<in> set (map rev space_runes)" for p
    using that space_rune_ends assms(1,3) by (fastforce simp: hd_rev)
  then have "trim_left (map rev space_runes) (rev s) = rev s" using trim [of "rev s" "map rev space_runes"] assms(1) by blast
  then show ?thesis using left by (simp add: TrimSpace_def)
qed

text \<open>\<open>strings.LastIndexByte\<close>, as the parts before and after the last \<open>c\<close>.\<close>

fun cut_last :: "char \<Rightarrow> string \<Rightarrow> (string \<times> string) option" where
  "cut_last c [] = None"
| "cut_last c (x # xs) =
     (case cut_last c xs of
        Some (a, b) \<Rightarrow> Some (x # a, b)
      | None \<Rightarrow> if x = c then Some ([], xs) else None)"

lemma cut_last_Some: "cut_last c s = Some (a, b) \<Longrightarrow> s = a @ c # b \<and> c \<notin> set b"
proof (induction s arbitrary: a)
  case (Cons x xs)
  have "cut_last c xs = None \<Longrightarrow> c \<notin> set xs" by (induction xs) (auto split: option.splits if_splits)
  then show ?case using Cons by (auto split: option.splits if_splits)
qed simp

lemma cut_last_None: "cut_last c s = None \<longleftrightarrow> c \<notin> set s"
  by (induction s) (auto split: option.splits if_splits)

lemma cut_last_append: "c \<notin> set b \<Longrightarrow> cut_last c (a @ c # b) = Some (a, b)"
proof (induction a)
  case Nil
  then show ?case using cut_last_None [of c b] by simp
qed simp

definition to_lower :: "char \<Rightarrow> char" where
  "to_lower c = (if 65 \<le> (of_char c :: nat) \<and> of_char c \<le> (90 :: nat) then char_of (of_char c + 32 :: nat) else c)"

end
