(* ===== verification/Alert.thy ===== *)
theory Alert
  imports StateEngine Text
begin

text \<open>
  The alert of \<open>internal/notifier/alert.go\<close> and what is read off it: whether it is bad news, the
  message of a batch (\<open>Summarise\<close>, \<open>sharedCause\<close> in \<open>group.go\<close>) and of a night of quiet hours
  (\<open>BuildDigest\<close>, \<open>digestEntries\<close> in \<open>digest.go\<close>), its leaves (\<open>order.go\<close>).

  The slices are stably sorted by time as \<open>sort.SliceStable\<close> sorts them.
\<close>

section \<open>Alerts\<close>

text \<open>The fields beside \<open>Members\<close>; the event is the string the code compares.\<close>

record alert_data =
  a_MonitorID :: int
  a_MonitorName :: string
  a_MonitorType :: string
  a_Target :: string
  a_Event :: string
  a_IncidentID :: int
  a_StartedAt :: instant
  a_At :: instant
  a_Cause :: string
  a_LastError :: string
  a_ReminderCount :: int
  a_GroupedNames :: "string list"
  a_GroupedCause :: string
  a_Digest :: bool
  a_DigestZone :: string
  a_Notice :: bool
  a_ReplacesAlert :: bool

datatype alert = Alert (Members: "alert list") (a_data: alert_data)

definition zero_data :: alert_data where
  "zero_data = \<lparr>a_MonitorID = 0, a_MonitorName = [], a_MonitorType = [], a_Target = [], a_Event = [],
     a_IncidentID = 0, a_StartedAt = 0, a_At = 0, a_Cause = [], a_LastError = [], a_ReminderCount = 0,
     a_GroupedNames = [], a_GroupedCause = [], a_Digest = False, a_DigestZone = [], a_Notice = False,
     a_ReplacesAlert = False\<rparr>"

fun event_string :: "event \<Rightarrow> string" where
  "event_string EventNone = ''''"
| "event_string EventIncidentOpened = ''incident_opened''"
| "event_string EventIncidentConfirmed = ''incident_confirmed''"
| "event_string EventIncidentReminder = ''incident_reminder''"
| "event_string EventIncidentResolved = ''incident_resolved''"

definition EventLocalNetworkRestored :: string where
  "EventLocalNetworkRestored = ''local_network_restored''"

definition EventLocalDNSRestored :: string where
  "EventLocalDNSRestored = ''local_dns_restored''"

definition EventBackupFailed :: string where
  "EventBackupFailed = ''backup_failed''"

definition EventChannelFailing :: string where
  "EventChannelFailing = ''channel_failing''"

definition EventQuietDigest :: string where
  "EventQuietDigest = ''quiet_hours_digest''"

definition Grouped :: "alert \<Rightarrow> bool" where
  "Grouped a \<longleftrightarrow> 1 < length (a_GroupedNames (a_data a))"

section \<open>The digest of a night\<close>

record digestEntry =
  de_name :: string
  de_down :: bool
  de_startedAt :: instant
  de_endedAt :: instant
  de_cause :: string
  de_notice :: bool
  de_noticeOpen :: bool
  de_subject :: string

definition new_entry :: "string \<Rightarrow> digestEntry" where
  "new_entry name = \<lparr>de_name = name, de_down = False, de_startedAt = 0, de_endedAt = 0, de_cause = [],
     de_notice = False, de_noticeOpen = False, de_subject = []\<rparr>"

definition noticeSubject :: "alert_data \<Rightarrow> string" where
  "noticeSubject a = (if a_MonitorType a = ''domain'' then ''domain registration'' else ''certificate'')"

text \<open>What one member changes in its monitor's entry.\<close>

definition entry_step :: "alert_data \<Rightarrow> digestEntry \<Rightarrow> digestEntry" where
  "entry_step m e =
     (if a_Notice m then
        e\<lparr>de_notice := True, de_noticeOpen := (a_Event m \<noteq> event_string EventIncidentResolved),
          de_subject := noticeSubject m\<rparr>
      else
        let started = (if is_zero (a_StartedAt m) then a_At m else a_StartedAt m) in
        if a_Event m = event_string EventIncidentResolved then
          e\<lparr>de_startedAt := (if is_zero (de_startedAt e) then started else de_startedAt e),
            de_down := False, de_endedAt := a_At m\<rparr>
        else
          let e1 = (if \<not> de_down e then e\<lparr>de_startedAt := started, de_cause := []\<rparr> else e);
              e2 = e1\<lparr>de_down := True, de_endedAt := 0\<rparr>
          in if a_Cause m \<noteq> [] then e2\<lparr>de_cause := a_Cause m\<rparr> else e2)"

definition entry_key :: "alert_data \<Rightarrow> string" where
  "entry_key m = (if a_MonitorID m \<noteq> 0 then itoa (a_MonitorID m) else a_MonitorName m)"

text \<open>The entries in the order their monitors first appeared, each with its key.\<close>

fun update_entry :: "alert_data \<Rightarrow> (string \<times> digestEntry) list \<Rightarrow> (string \<times> digestEntry) list" where
  "update_entry m [] = [(entry_key m, entry_step m (new_entry (a_MonitorName m)))]"
| "update_entry m ((k, e) # es) =
     (if k = entry_key m then (k, entry_step m e) # es else (k, e) # update_entry m es)"

definition digestEntries :: "alert list \<Rightarrow> digestEntry list" where
  "digestEntries ms = map snd (foldl (\<lambda>es m. update_entry (a_data m) es) [] ms)"

definition digestStillDown :: "digestEntry list \<Rightarrow> nat" where
  "digestStillDown es = length (filter de_down es)"

definition digestNoticeOpen :: "digestEntry list \<Rightarrow> bool" where
  "digestNoticeOpen es = list_ex de_noticeOpen es"

definition outage :: "digestEntry \<Rightarrow> bool" where
  "outage e \<longleftrightarrow> de_down e \<or> de_endedAt e \<noteq> 0"

definition entry_subject :: "digestEntry \<Rightarrow> string" where
  "entry_subject e = (if de_subject e = [] then ''certificate'' else de_subject e)"

definition noticeLine :: "digestEntry \<Rightarrow> string" where
  "noticeLine e = (if de_noticeOpen e then entry_subject e @ '' expires soon''
                   else entry_subject e @ '' no longer expires soon'')"

section \<open>Bad news or good news\<close>

definition Down :: "alert \<Rightarrow> bool" where
  "Down a =
     (if a_Digest (a_data a) then
        let entries = digestEntries (Members a) in 0 < digestStillDown entries \<or> digestNoticeOpen entries
      else if a_Event (a_data a) = EventLocalNetworkRestored \<or> a_Event (a_data a) = EventLocalDNSRestored
      then False
      else a_Event (a_data a) \<noteq> event_string EventIncidentResolved)"

section \<open>One message for a batch\<close>

fun sharedCause_from :: "string \<Rightarrow> alert list \<Rightarrow> string" where
  "sharedCause_from cause [] = cause"
| "sharedCause_from cause (a # as) =
     (if a_Cause (a_data a) = [] then []
      else if cause = [] then sharedCause_from (a_Cause (a_data a)) as
      else if a_Cause (a_data a) \<noteq> cause then []
      else sharedCause_from cause as)"

definition sharedCause :: "alert list \<Rightarrow> string" where
  "sharedCause as = sharedCause_from [] as"

text \<open>\<open>Summarise\<close> of no alerts indexes an empty slice; no caller has none, and the model says \<open>None\<close>.\<close>

definition Summarise :: "alert list \<Rightarrow> alert option" where
  "Summarise as =
     (case as of
        [] \<Rightarrow> None
      | [a] \<Rightarrow> Some a
      | _ \<Rightarrow>
         let sorted = sort_key (\<lambda>a. a_At (a_data a)) as; f = a_data (hd sorted) in
         Some (Alert sorted (zero_data\<lparr>a_Event := a_Event f, a_At := a_At f, a_StartedAt := a_StartedAt f,
           a_IncidentID := a_IncidentID f, a_MonitorName := a_MonitorName f,
           a_MonitorType := a_MonitorType f, a_Target := a_Target f,
           a_GroupedNames := map (\<lambda>a. a_MonitorName (a_data a)) sorted,
           a_GroupedCause := sharedCause sorted,
           a_ReplacesAlert := list_all (\<lambda>a. a_ReplacesAlert (a_data a)) sorted\<rparr>)))"

definition BuildDigest :: "alert list \<Rightarrow> string \<Rightarrow> instant \<Rightarrow> alert" where
  "BuildDigest as zone now =
     (let sorted = sort_key (\<lambda>a. a_At (a_data a)) as;
          d = zero_data\<lparr>a_Event := EventQuietDigest, a_At := now, a_Digest := True, a_DigestZone := zone\<rparr>
      in Alert sorted (case sorted of [] \<Rightarrow> d
           | a # _ \<Rightarrow> d\<lparr>a_MonitorID := a_MonitorID (a_data a), a_MonitorName := a_MonitorName (a_data a),
                       a_MonitorType := a_MonitorType (a_data a), a_Target := a_Target (a_data a)\<rparr>))"

section \<open>Leaves\<close>

fun alertLeaves :: "alert \<Rightarrow> alert list" where
  "alertLeaves (Alert ms d) = (if ms = [] then [Alert ms d] else concat (map alertLeaves ms))"

definition recoveredIncidents :: "alert \<Rightarrow> int set" where
  "recoveredIncidents a =
     set (map (\<lambda>l. a_IncidentID (a_data l))
       (filter (\<lambda>l. a_IncidentID (a_data l) \<noteq> 0 \<and> \<not> Down l) (alertLeaves a)))"

definition replacesAnAlert :: "alert \<Rightarrow> bool" where
  "replacesAnAlert a = list_ex (\<lambda>l. a_ReplacesAlert (a_data l)) (alertLeaves a)"

text \<open>The flag of a message is set bottom up; the flag of the result is the boolean the code returns.\<close>

fun markReplaced :: "int set \<Rightarrow> alert \<Rightarrow> alert" where
  "markReplaced alerted (Alert ms d) =
     (if ms = [] then
        Alert ms (d\<lparr>a_ReplacesAlert := (a_ReplacesAlert d \<or>
                    (\<not> Down (Alert ms d) \<and> a_IncidentID d \<in> alerted))\<rparr>)
      else
        let ms' = map (markReplaced alerted) ms
        in Alert ms' (d\<lparr>a_ReplacesAlert := (list_all (\<lambda>m. a_ReplacesAlert (a_data m)) ms' \<and> \<not> a_Digest d)\<rparr>))"

definition groupedReminder :: "alert \<Rightarrow> bool" where
  "groupedReminder a \<longleftrightarrow> Members a \<noteq> [] \<and>
     list_all (\<lambda>m. a_Event (a_data m) = event_string EventIncidentReminder) (Members a)"

end
