(* ===== verification/Tables.thy ===== *)
theory Tables
  imports Alert "HOL-Library.AList"
begin

text \<open>
  The tables of the database the notifier and the runner write (\<open>internal/store\<close>), as far as they
  write them. A table is the list of its rows in the order of their ids; an UPDATE, DELETE or SELECT is the
  \<open>map\<close> or \<open>filter\<close> of its WHERE clause, and a transaction is the composition of its statements. The
  tables the statements only consult (monitors, channels) are the sets of their keys.

  A payload is the alert it encodes, or text that is not JSON. Times in rows have the precision of
  the column: \<open>to_second\<close> is \<open>time.Unix(t.Unix(), 0)\<close>. A column that may be NULL is an option.
\<close>

section \<open>Rows\<close>

datatype outbox_status = OutboxPending | OutboxDelivered | OutboxFailed

datatype payload = Encoded alert | NotJSON string

fun DecodeAlert :: "payload \<Rightarrow> alert option" where
  "DecodeAlert (Encoded a) = Some a"
| "DecodeAlert (NotJSON s) = None"

record delivery =
  d_ID :: int
  d_ChannelID :: int
  d_MonitorID :: int
  d_IncidentID :: int
  d_Event :: string
  d_Payload :: payload
  d_Status :: outbox_status
  d_Attempts :: int
  d_LastError :: string
  d_QuietHeld :: bool
  d_Suppressed :: bool
  d_NextAttemptAt :: instant
  d_CreatedAt :: instant
  d_UpdatedAt :: instant

record heldAlert =
  h_ID :: int
  h_ChannelID :: int
  h_MonitorID :: int
  h_Payload :: payload
  h_Due :: instant
  h_Created :: instant

record channelFailure =
  cf_FailedAt :: instant
  cf_LastError :: string
  cf_NoticedAt :: "instant option"
  cf_NoticeChannelID :: int

record incident =
  i_ID :: int
  i_MonitorID :: int
  i_StartedAt :: instant
  i_ConfirmedAt :: "instant option"
  i_ResolvedAt :: "instant option"
  i_AckedAt :: "instant option"
  i_Cause :: string
  i_LastError :: string
  i_RemindedAt :: "instant option"
  i_ReminderCount :: int
  i_MaintenancePending :: bool
  i_Notice :: bool
  i_AlertOwed :: bool

text \<open>A heartbeat, with the response stored beside it and the reason none was; times are in the row's precision.\<close>

record snapshot =
  sn_Body :: string
  sn_Headers :: "(string \<times> string) list"
  sn_Truncated :: bool

record heartbeat =
  hb_MonitorID :: int
  hb_TS :: instant
  hb_OK :: bool
  hb_LatencyMS :: int
  hb_StatusCode :: int
  hb_Error :: string
  hb_Response :: "snapshot option"
  hb_Assessment :: string
  hb_FailureKind :: string
  hb_Maintenance :: bool
  hb_CaptureReason :: string

text \<open>
  Beside the outbox, the held alerts and the incidents: of a channel that fails its spell, and per
  incident and channel whether maintenance holds the first alert back (\<open>maintenance_channel_alerts\<close>).
\<close>

record database =
  db_rows :: "delivery list"
  db_nextID :: int
  db_held :: "heldAlert list"
  db_nextHeld :: int
  db_monitors :: "int set"
  db_channels :: "int set"
  db_incidents :: "incident list"
  db_nextIncident :: int
  db_maintAlerts :: "((int \<times> int) \<times> bool) list"
  db_failures :: "int \<rightharpoonup> channelFailure"
  db_heartbeats :: "heartbeat list"
  db_unknown :: "int \<rightharpoonup> instant \<times> string"

definition to_second :: "instant \<Rightarrow> instant" where
  "to_second t = t div 1000000000 * 1000000000"

definition update_rows :: "(delivery \<Rightarrow> bool) \<Rightarrow> (delivery \<Rightarrow> delivery) \<Rightarrow> database \<Rightarrow> database" where
  "update_rows P f s = s\<lparr>db_rows := map (\<lambda>r. if P r then f r else r) (db_rows s)\<rparr>"

definition update_incidents :: "(incident \<Rightarrow> bool) \<Rightarrow> (incident \<Rightarrow> incident) \<Rightarrow> database \<Rightarrow> database" where
  "update_incidents P f s = s\<lparr>db_incidents := map (\<lambda>x. if P x then f x else x) (db_incidents s)\<rparr>"

definition incident_of :: "int \<Rightarrow> database \<Rightarrow> incident option" where
  "incident_of i s = find (\<lambda>x. i_ID x = i) (db_incidents s)"

definition incident_exists :: "int \<Rightarrow> database \<Rightarrow> bool" where
  "incident_exists i s \<longleftrightarrow> list_ex (\<lambda>x. i_ID x = i) (db_incidents s)"

end
