(* ===== verification/Outbox.thy ===== *)
theory Outbox
  imports Tables "HOL-Library.Product_Lexorder"
begin

text \<open>
  The outbox table and the alerts held beside it: \<open>internal/store/outbox.go\<close>, \<open>outbox_speakers.go\<close>,
  \<open>held_alerts.go\<close>, \<open>maintenance_delivery.go\<close>, \<open>channel_failures.go\<close> and the deliveries of
  \<open>quiet_hours.go\<close>.
\<close>

section \<open>Rows\<close>

definition is_pending :: "int \<Rightarrow> delivery \<Rightarrow> bool" where
  "is_pending i r \<longleftrightarrow> d_ID r = i \<and> d_Status r = OutboxPending"

section \<open>Where the news of a closed delivery went\<close>

definition foldedIntoDigest :: string where
  "foldedIntoDigest = ''sent in quiet-hours digest ''"

definition replacedByRecovery :: string where
  "replacedByRecovery = ''sent as part of recovery ''"

datatype merged_into = NotMerged | MergedIntoDigest | MergedIntoRecovery

definition has_prefix :: "string \<Rightarrow> string \<Rightarrow> bool" where
  "has_prefix p s \<longleftrightarrow> take (length p) s = p"

definition MergedInto :: "delivery \<Rightarrow> merged_into" where
  "MergedInto d =
     (if \<not> d_Suppressed d then NotMerged
      else if has_prefix foldedIntoDigest (d_LastError d) then MergedIntoDigest
      else if has_prefix replacedByRecovery (d_LastError d) then MergedIntoRecovery
      else NotMerged)"

section \<open>Queueing\<close>

text \<open>The ids a payload names, in the order of the document: members come before the alert's own.\<close>

fun named_monitors :: "alert \<Rightarrow> int list" where
  "named_monitors (Alert ms d) = concat (map named_monitors ms) @ [a_MonitorID d]"

fun named_incidents :: "alert \<Rightarrow> int list" where
  "named_incidents (Alert ms d) = concat (map named_incidents ms) @
     (if a_IncidentID d = 0 then [] else [a_IncidentID d])"

definition payload_monitors :: "payload \<Rightarrow> int list" where
  "payload_monitors p = (case p of Encoded a \<Rightarrow> named_monitors a | NotJSON _ \<Rightarrow> [])"

definition payload_incidents :: "payload \<Rightarrow> int list" where
  "payload_incidents p = (case p of Encoded a \<Rightarrow> named_incidents a | NotJSON _ \<Rightarrow> [])"

datatype queue_error = ErrUnknownChannel | ErrNotFound

definition enqueueDelivery :: "instant \<Rightarrow> delivery \<Rightarrow> database \<Rightarrow> queue_error + delivery \<times> database" where
  "enqueueDelivery clock d s =
     (let now = to_second clock;
          due = (if is_zero (d_NextAttemptAt d) then now else to_second (d_NextAttemptAt d));
          owner = (if d_MonitorID d \<in> db_monitors s then Some (d_MonitorID d)
                   else find (\<lambda>i. i \<in> db_monitors s) (payload_monitors (d_Payload d)));
          incident = (if d_IncidentID d = 0 then 0
                      else if incident_exists (d_IncidentID d) s then d_IncidentID d
                      else case find (\<lambda>i. incident_exists i s) (payload_incidents (d_Payload d)) of
                             None \<Rightarrow> 0 | Some i \<Rightarrow> i)
      in if d_ChannelID d \<notin> db_channels s then Inl ErrUnknownChannel
         else case owner of
           None \<Rightarrow> Inl ErrNotFound
         | Some m \<Rightarrow>
             let row = \<lparr>d_ID = db_nextID s, d_ChannelID = d_ChannelID d, d_MonitorID = m,
                        d_IncidentID = incident, d_Event = d_Event d, d_Payload = d_Payload d,
                        d_Status = OutboxPending, d_Attempts = 0, d_LastError = [],
                        d_QuietHeld = False, d_Suppressed = False, d_NextAttemptAt = due,
                        d_CreatedAt = now, d_UpdatedAt = now\<rparr>
             in Inr (row, s\<lparr>db_rows := db_rows s @ [row], db_nextID := db_nextID s + 1\<rparr>))"

section \<open>Reading\<close>

definition waiting :: "delivery \<Rightarrow> bool" where
  "waiting r \<longleftrightarrow> d_Status r = OutboxPending \<and> \<not> d_Suppressed r"

definition DueDeliveries :: "instant \<Rightarrow> int \<Rightarrow> database \<Rightarrow> delivery list" where
  "DueDeliveries now limit s =
     take (nat (if limit \<le> 0 then 50 else limit))
       (sort_key (\<lambda>r. (d_NextAttemptAt r, d_ID r))
         (filter (\<lambda>r. waiting r \<and> d_NextAttemptAt r \<le> to_second now) (db_rows s)))"

definition PendingBefore :: "int \<Rightarrow> int \<Rightarrow> database \<Rightarrow> delivery list" where
  "PendingBefore ch i s = filter (\<lambda>r. d_ChannelID r = ch \<and> d_ID r < i \<and> waiting r) (db_rows s)"

definition GetDelivery :: "int \<Rightarrow> database \<Rightarrow> delivery option" where
  "GetDelivery i s = find (\<lambda>r. d_ID r = i) (db_rows s)"

definition HeldDeliveries :: "int \<Rightarrow> database \<Rightarrow> delivery list" where
  "HeldDeliveries ch s =
     sort_key (\<lambda>r. (d_CreatedAt r, d_ID r))
       (filter (\<lambda>r. d_ChannelID r = ch \<and> d_QuietHeld r \<and> waiting r) (db_rows s))"

definition StillHeld :: "int \<Rightarrow> database \<Rightarrow> bool" where
  "StillHeld i s = list_ex (\<lambda>r. d_ID r = i \<and> d_QuietHeld r \<and> waiting r) (db_rows s)"

section \<open>One delivery's outcome\<close>

definition MarkDelivered :: "instant \<Rightarrow> int \<Rightarrow> database \<Rightarrow> database" where
  "MarkDelivered clock i = update_rows (\<lambda>r. d_ID r = i)
     (\<lambda>r. r\<lparr>d_Status := OutboxDelivered, d_Attempts := d_Attempts r + 1, d_LastError := [],
           d_UpdatedAt := to_second clock\<rparr>)"

definition MarkRetry :: "instant \<Rightarrow> int \<Rightarrow> string \<Rightarrow> instant \<Rightarrow> database \<Rightarrow> database" where
  "MarkRetry clock i cause nxt = update_rows (\<lambda>r. d_ID r = i)
     (\<lambda>r. r\<lparr>d_Attempts := d_Attempts r + 1, d_LastError := cause, d_NextAttemptAt := to_second nxt,
           d_UpdatedAt := to_second clock\<rparr>)"

definition MarkFailed :: "instant \<Rightarrow> int \<Rightarrow> string \<Rightarrow> database \<Rightarrow> database" where
  "MarkFailed clock i cause = update_rows (\<lambda>r. d_ID r = i)
     (\<lambda>r. r\<lparr>d_Status := OutboxFailed, d_Attempts := d_Attempts r + 1, d_LastError := cause,
           d_UpdatedAt := to_second clock\<rparr>)"

definition DeferDelivery :: "instant \<Rightarrow> int \<Rightarrow> string \<Rightarrow> instant \<Rightarrow> database \<Rightarrow> database" where
  "DeferDelivery clock i cause nxt = update_rows (is_pending i)
     (\<lambda>r. r\<lparr>d_LastError := cause, d_NextAttemptAt := to_second nxt, d_UpdatedAt := to_second clock\<rparr>)"

definition WithholdDelivery :: "instant \<Rightarrow> int \<Rightarrow> string \<Rightarrow> database \<Rightarrow> database" where
  "WithholdDelivery clock i reason = update_rows (is_pending i)
     (\<lambda>r. r\<lparr>d_Suppressed := True, d_LastError := reason, d_UpdatedAt := to_second clock\<rparr>)"

definition HoldDelivery :: "instant \<Rightarrow> int \<Rightarrow> instant \<Rightarrow> database \<Rightarrow> database" where
  "HoldDelivery clock i until = update_rows (is_pending i)
     (\<lambda>r. r\<lparr>d_QuietHeld := True, d_NextAttemptAt := to_second until,
           d_LastError := ''held for quiet hours'', d_UpdatedAt := to_second clock\<rparr>)"

definition DropDelivery :: "instant \<Rightarrow> int \<Rightarrow> database \<Rightarrow> database" where
  "DropDelivery clock i = update_rows (is_pending i)
     (\<lambda>r. r\<lparr>d_Suppressed := True, d_LastError := ''dropped during quiet hours'',
           d_UpdatedAt := to_second clock\<rparr>)"

text \<open>\<open>releaseQuietHeld\<close>, which \<open>SetQuietHours\<close> and \<open>ClearQuietHours\<close> end with.\<close>

definition releaseQuietHeld :: "instant \<Rightarrow> int \<Rightarrow> database \<Rightarrow> database" where
  "releaseQuietHeld clock ch = update_rows (\<lambda>r. d_ChannelID r = ch \<and> d_QuietHeld r \<and> waiting r)
     (\<lambda>r. r\<lparr>d_NextAttemptAt := to_second clock, d_UpdatedAt := to_second clock\<rparr>)"

definition PruneDeliveries :: "instant \<Rightarrow> database \<Rightarrow> database" where
  "PruneDeliveries before s = s\<lparr>db_rows := filter (\<lambda>r.
     \<not> ((d_Status r = OutboxDelivered \<or> d_Suppressed r) \<and> d_Status r \<noteq> OutboxFailed \<and>
        d_UpdatedAt r < to_second before)) (db_rows s)\<rparr>"

section \<open>Merging rows\<close>

text \<open>\<open>FoldDigest\<close>.\<close>

definition FoldDigest ::
  "instant \<Rightarrow> int \<Rightarrow> string \<Rightarrow> payload \<Rightarrow> int list \<Rightarrow> instant \<Rightarrow> database \<Rightarrow> database" where
  "FoldDigest clock keep event pl folded due s =
     update_rows (\<lambda>r. d_ID r \<in> set folded)
       (\<lambda>r. r\<lparr>d_Suppressed := True, d_QuietHeld := False,
             d_LastError := foldedIntoDigest @ itoa keep, d_UpdatedAt := to_second clock\<rparr>)
     (update_rows (\<lambda>r. d_ID r = keep)
       (\<lambda>r. r\<lparr>d_Payload := pl, d_Event := event, d_QuietHeld := False,
             d_NextAttemptAt := to_second due, d_LastError := [], d_UpdatedAt := to_second clock\<rparr>) s)"

text \<open>A replaced row keeps a payload, or has nothing left to say.\<close>

record replaced =
  rp_ID :: int
  rp_Payload :: "payload option"

definition replace_row :: "instant \<Rightarrow> int \<Rightarrow> replaced \<Rightarrow> database \<Rightarrow> database" where
  "replace_row clock recovery r =
     update_rows (\<lambda>x. is_pending (rp_ID r) x \<and> \<not> d_Suppressed x)
       (case rp_Payload r of
          Some pl \<Rightarrow> (\<lambda>x. x\<lparr>d_Payload := pl, d_UpdatedAt := to_second clock\<rparr>)
        | None \<Rightarrow> (\<lambda>x. x\<lparr>d_Suppressed := True,
            d_LastError := replacedByRecovery @ itoa recovery @
              '': the monitor was back up before this alert went out'',
            d_UpdatedAt := to_second clock\<rparr>))"

definition ReplaceWithRecovery ::
  "instant \<Rightarrow> int \<Rightarrow> payload \<Rightarrow> delivery \<Rightarrow> replaced list \<Rightarrow> database \<Rightarrow> queue_error + database" where
  "ReplaceWithRecovery clock recovery pl from' rs s =
     (if \<not> list_ex (is_pending recovery) (db_rows s) then Inl ErrNotFound
      else Inr (foldl (\<lambda>s r. replace_row clock recovery r s)
        (update_rows (is_pending recovery)
          (\<lambda>x. x\<lparr>d_Payload := pl, d_Attempts := d_Attempts from', d_LastError := d_LastError from',
                d_NextAttemptAt := to_second (d_NextAttemptAt from'), d_UpdatedAt := to_second clock\<rparr>) s)
        rs))"

section \<open>Alerts held while they wait for company\<close>

definition clearAlertOwed :: "int list \<Rightarrow> database \<Rightarrow> database" where
  "clearAlertOwed is =
     update_incidents (\<lambda>x. i_ID x \<noteq> 0 \<and> i_ID x \<in> set is) (\<lambda>x. x\<lparr>i_AlertOwed := False\<rparr>)"

fun insert_held :: "instant \<Rightarrow> heldAlert list \<Rightarrow> database \<Rightarrow> int list \<times> database" where
  "insert_held clock [] s = ([], s)"
| "insert_held clock (h # hs) s =
     (let row = h\<lparr>h_ID := db_nextHeld s, h_Due := to_second (h_Due h), h_Created := to_second clock\<rparr>;
          (ids, s') = insert_held clock hs
            (s\<lparr>db_held := db_held s @ [row], db_nextHeld := db_nextHeld s + 1\<rparr>)
      in (h_ID row # ids, s'))"

definition DeferOwedToMaintenance :: "int \<Rightarrow> database \<Rightarrow> database" where
  "DeferOwedToMaintenance i =
     update_incidents (\<lambda>x. i_ID x = i) (\<lambda>x. x\<lparr>i_MaintenancePending := True, i_AlertOwed := False\<rparr>)"

text \<open>\<open>HoldAlerts\<close>: a row whose channel or monitor is gone fails the insert, and nothing is written.\<close>

definition HoldAlerts :: "instant \<Rightarrow> heldAlert list \<Rightarrow> int \<Rightarrow> database \<Rightarrow> (int list \<times> database) option" where
  "HoldAlerts clock hs owed s =
     (if \<exists>h\<in>set hs. h_ChannelID h \<notin> db_channels s \<or> h_MonitorID h \<notin> db_monitors s then None
      else let (ids, s') = insert_held clock hs s in Some (ids, clearAlertOwed [owed] s'))"

definition delete_held :: "int list \<Rightarrow> database \<Rightarrow> database" where
  "delete_held ids s = s\<lparr>db_held := filter (\<lambda>h. h_ID h \<notin> set ids) (db_held s)\<rparr>"

record batchWrite =
  bw_Delivery :: delivery
  bw_Held :: "int list"

fun write_batches ::
  "instant \<Rightarrow> batchWrite list \<Rightarrow> database \<Rightarrow> queue_error option list \<times> database" where
  "write_batches clock [] s = ([], s)"
| "write_batches clock (w # ws) s =
     (case enqueueDelivery clock (bw_Delivery w) s of
        Inl err \<Rightarrow> (let (es, s') = write_batches clock ws s in (Some err # es, s'))
      | Inr (row, s1) \<Rightarrow>
          (let (es, s') = write_batches clock ws (delete_held (bw_Held w) s1) in (None # es, s')))"

definition EnqueueBatches ::
  "instant \<Rightarrow> batchWrite list \<Rightarrow> int list \<Rightarrow> database \<Rightarrow> queue_error option list \<times> database" where
  "EnqueueBatches clock ws owed s =
     (let (es, s') = write_batches clock ws s in (es, clearAlertOwed owed s'))"

section \<open>Alerts put off by maintenance\<close>

definition HasPendingMaintenanceChannels :: "int \<Rightarrow> database \<Rightarrow> bool" where
  "HasPendingMaintenanceChannels inc s = list_ex (\<lambda>((i, c), pending). i = inc \<and> pending) (db_maintAlerts s)"

definition MaintenanceRecoverySuppressed :: "int \<Rightarrow> int \<Rightarrow> database \<Rightarrow> bool" where
  "MaintenanceRecoverySuppressed inc ch s =
     (case incident_of inc s of
        None \<Rightarrow> False
      | Some x \<Rightarrow> i_MaintenancePending x \<or> map_of (db_maintAlerts s) (inc, ch) = Some True)"

definition set_maint_alert :: "int \<Rightarrow> int \<Rightarrow> bool \<Rightarrow> database \<Rightarrow> database" where
  "set_maint_alert inc ch pending s = s\<lparr>db_maintAlerts := AList.update (inc, ch) pending (db_maintAlerts s)\<rparr>"

text \<open>
  \<open>FilterMaintenanceDelivery\<close>: the muted alerts taken out of a payload are remembered for the channel in
  the transaction that rewrites the row. An incident or a channel that is gone fails it.
\<close>

definition FilterMaintenanceDelivery ::
  "instant \<Rightarrow> delivery \<Rightarrow> payload \<Rightarrow> bool \<Rightarrow> int list \<Rightarrow> database \<Rightarrow> database option" where
  "FilterMaintenanceDelivery clock d pl keep held s =
     (if held \<noteq> [] \<and> (d_ChannelID d \<notin> db_channels s \<or> \<not> list_all (\<lambda>i. incident_exists i s) held) then None
      else Some (update_rows (\<lambda>r. d_ID r = d_ID d)
        (\<lambda>r. r\<lparr>d_Payload := pl, d_Suppressed := (\<not> keep),
              d_LastError := (if keep then [] else ''suppressed by scheduled maintenance''),
              d_UpdatedAt := to_second clock\<rparr>)
        (foldl (\<lambda>s inc. set_maint_alert inc (d_ChannelID d) True s) s held)))"

text \<open>The loop of \<open>EnqueueMaintenanceDeliveries\<close>; a channel or a monitor that is gone fails an insert.\<close>

fun maintenance_rows ::
  "instant \<Rightarrow> int \<Rightarrow> bool \<Rightarrow> delivery list \<Rightarrow> database \<Rightarrow> database option" where
  "maintenance_rows clock inc everywhere [] s = Some s"
| "maintenance_rows clock inc everywhere (d # ds) s =
     (if \<not> everywhere \<and> map_of (db_maintAlerts s) (inc, d_ChannelID d) \<noteq> Some True
      then maintenance_rows clock inc everywhere ds s
      else if d_ChannelID d \<notin> db_channels s \<or> d_MonitorID d \<notin> db_monitors s then None
      else
        let now = to_second clock;
            row = \<lparr>d_ID = db_nextID s, d_ChannelID = d_ChannelID d, d_MonitorID = d_MonitorID d,
                   d_IncidentID = inc, d_Event = d_Event d, d_Payload = d_Payload d,
                   d_Status = OutboxPending, d_Attempts = 0, d_LastError = [], d_QuietHeld = False,
                   d_Suppressed = False, d_NextAttemptAt = now, d_CreatedAt = now, d_UpdatedAt = now\<rparr>
        in maintenance_rows clock inc everywhere ds
             (set_maint_alert inc (d_ChannelID d) False
               (s\<lparr>db_rows := db_rows s @ [row], db_nextID := db_nextID s + 1\<rparr>)))"

text \<open>\<open>None\<close> is an error, which writes nothing; the boolean says whether the alert was dealt with.\<close>

definition EnqueueMaintenanceDeliveries ::
  "instant \<Rightarrow> int \<Rightarrow> delivery list \<Rightarrow> database \<Rightarrow> (bool \<times> database) option" where
  "EnqueueMaintenanceDeliveries clock inc ds s =
     (case incident_of inc s of
        None \<Rightarrow> Some (False, s)
      | Some x \<Rightarrow>
          let everywhere = i_MaintenancePending x;
              known = list_ex (\<lambda>((i, c), pending). i = inc) (db_maintAlerts s)
          in if \<not> everywhere \<and> \<not> known then Some (False, s)
             else if i_ResolvedAt x \<noteq> None then Some (True, s)
             else case maintenance_rows clock inc everywhere ds s of
               None \<Rightarrow> None
             | Some s' \<Rightarrow> Some (True, update_incidents (\<lambda>y. i_ID y = inc)
                 (\<lambda>y. y\<lparr>i_MaintenancePending := False, i_AlertOwed := False\<rparr>) s'))"

section \<open>Spells of a failing channel\<close>

definition RecordChannelFailure :: "int \<Rightarrow> instant \<Rightarrow> string \<Rightarrow> database \<Rightarrow> database option" where
  "RecordChannelFailure ch now cause s =
     (case db_failures s ch of
        Some f \<Rightarrow> Some (s\<lparr>db_failures := (db_failures s)(ch \<mapsto> f\<lparr>cf_LastError := cause\<rparr>)\<rparr>)
      | None \<Rightarrow>
          if ch \<notin> db_channels s then None
          else Some (s\<lparr>db_failures := (db_failures s)(ch \<mapsto>
            \<lparr>cf_FailedAt = to_second now, cf_LastError = cause, cf_NoticedAt = None,
             cf_NoticeChannelID = 0\<rparr>)\<rparr>))"

definition ClearChannelFailure :: "int \<Rightarrow> database \<Rightarrow> database" where
  "ClearChannelFailure ch s = s\<lparr>db_failures := (db_failures s)(ch := None)\<rparr>"

definition MarkChannelFailureNoticed ::
  "int \<Rightarrow> channelFailure \<Rightarrow> int \<Rightarrow> instant \<Rightarrow> database \<Rightarrow> database" where
  "MarkChannelFailureNoticed ch f via now s =
     (case db_failures s ch of
        None \<Rightarrow> s
      | Some g \<Rightarrow>
          if cf_FailedAt g = to_second (cf_FailedAt f) \<and> cf_NoticedAt g = None
          then s\<lparr>db_failures := (db_failures s)(ch \<mapsto>
                 g\<lparr>cf_NoticedAt := Some (to_second now), cf_NoticeChannelID := via\<rparr>)\<rparr>
          else s)"

section \<open>Deleting a monitor\<close>

text \<open>The first incident the payload names that is not one of monitor \<open>m\<close>; 0 stands for NULL.\<close>

definition otherIncidentNamed :: "int \<Rightarrow> payload \<Rightarrow> database \<Rightarrow> int" where
  "otherIncidentNamed m pl s =
     (case find (\<lambda>i. case incident_of i s of Some x \<Rightarrow> i_MonitorID x \<noteq> m | None \<Rightarrow> False) (payload_incidents pl) of
        None \<Rightarrow> 0 | Some i \<Rightarrow> i)"

definition otherMonitorNamed :: "int \<Rightarrow> payload \<Rightarrow> database \<Rightarrow> int option" where
  "otherMonitorNamed m pl s = find (\<lambda>i. i \<in> db_monitors s \<and> i \<noteq> m) (payload_monitors pl)"

definition keep_shared :: "int \<Rightarrow> database \<Rightarrow> delivery \<Rightarrow> delivery" where
  "keep_shared m s r =
     (case otherMonitorNamed m (d_Payload r) s of
        None \<Rightarrow> r
      | Some other \<Rightarrow>
          r\<lparr>d_IncidentID :=
              (if (case incident_of (d_IncidentID r) s of Some x \<Rightarrow> i_MonitorID x \<noteq> m | None \<Rightarrow> False)
               then d_IncidentID r else otherIncidentNamed m (d_Payload r) s),
            d_MonitorID := other\<rparr>)"

definition keepSharedDeliveries :: "int \<Rightarrow> database \<Rightarrow> database" where
  "keepSharedDeliveries m s = update_rows (\<lambda>r. d_MonitorID r = m) (keep_shared m s) s"

end
