(* ===== verification/Grouper.thy ===== *)
theory Grouper
  imports Alert "HOL-Library.Product_Lexorder"
begin

text \<open>
  The grouper of \<open>internal/notifier/group.go\<close>: the batches that wait for company, keyed on the channel
  and the kind of news, when they are released and in which order. The map of batches is the list of
  its values, in any iteration order, with pairwise different keys.
\<close>

section \<open>Kinds of news\<close>

datatype batchKind = kindAlert | kindReminder | kindRecovery

fun kind_number :: "batchKind \<Rightarrow> nat" where
  "kind_number kindAlert = 0"
| "kind_number kindReminder = 1"
| "kind_number kindRecovery = 2"

lemma kind_number_inject: "kind_number k = kind_number l \<Longrightarrow> k = l"
  by (cases k; cases l) auto

instantiation batchKind :: linorder
begin

definition less_eq_batchKind :: "batchKind \<Rightarrow> batchKind \<Rightarrow> bool" where
  "less_eq_batchKind k l \<longleftrightarrow> kind_number k \<le> kind_number l"

definition less_batchKind :: "batchKind \<Rightarrow> batchKind \<Rightarrow> bool" where
  "less_batchKind k l \<longleftrightarrow> kind_number k < kind_number l"

instance
  by standard (auto simp: less_eq_batchKind_def less_batchKind_def intro: kind_number_inject)

end

definition kindOf :: "alert \<Rightarrow> batchKind" where
  "kindOf a = (if \<not> Down a then kindRecovery
               else if a_Event (a_data a) = event_string EventIncidentReminder then kindReminder
               else kindAlert)"

section \<open>Batches\<close>

record pending =
  p_channel :: int
  p_alerts :: "alert list"
  p_deadline :: instant
  p_monitorID :: int
  p_incidentID :: int
  p_kind :: batchKind
  p_held :: "int list"
  p_owed :: "int list"

text \<open>\<open>groupKey\<close> renders the pair as text; the rendering is injective.\<close>

definition groupKey :: "pending \<Rightarrow> int \<times> batchKind" where
  "groupKey b = (p_channel b, p_kind b)"

definition DefaultGroupWindow :: duration where
  "DefaultGroupWindow = seconds 90"

definition group_window :: "duration \<Rightarrow> duration" where
  "group_window window = (if window = 0 then DefaultGroupWindow else window)"

definition append_alert :: "alert \<Rightarrow> pending \<Rightarrow> pending" where
  "append_alert a b = b\<lparr>p_alerts := p_alerts b @ [a],
     p_incidentID := (if a_IncidentID (a_data a) \<noteq> 0 \<and> p_incidentID b = 0
                      then a_IncidentID (a_data a) else p_incidentID b)\<rparr>"

fun add_alert :: "duration \<Rightarrow> instant \<Rightarrow> int \<Rightarrow> int \<Rightarrow> alert \<Rightarrow> pending list \<Rightarrow> pending list" where
  "add_alert window now ch mid a [] =
     [append_alert a \<lparr>p_channel = ch, p_alerts = [], p_deadline = now + window, p_monitorID = mid,
        p_incidentID = 0, p_kind = kindOf a, p_held = [], p_owed = []\<rparr>]"
| "add_alert window now ch mid a (b # bs) =
     (if groupKey b = (ch, kindOf a) then append_alert a b # bs
      else b # add_alert window now ch mid a bs)"

text \<open>\<open>sharesIncident\<close>: zero is no incident, so it is never shared.\<close>

definition sharesIncident :: "pending \<Rightarrow> pending \<Rightarrow> bool" where
  "sharesIncident b other =
     list_ex (\<lambda>a. a_IncidentID (a_data a) \<noteq> 0 \<and>
        a_IncidentID (a_data a) \<in> set (map (\<lambda>x. a_IncidentID (a_data x)) (p_alerts other))) (p_alerts b)"

definition waits :: "pending list \<Rightarrow> pending \<Rightarrow> bool" where
  "waits bs b =
     list_ex (\<lambda>k. case find (\<lambda>x. groupKey x = (p_channel b, k)) bs of
                    None \<Rightarrow> False | Some other \<Rightarrow> sharesIncident b other)
       (filter (\<lambda>k. k < p_kind b) [kindAlert, kindReminder])"

text \<open>\<open>sortBatches\<close>: no two batches of a list have the same key, so the order is the only one.\<close>

definition sortBatches :: "pending list \<Rightarrow> pending list" where
  "sortBatches bs = sort_key groupKey bs"

text \<open>The pass of \<open>due\<close> over the batches of one kind: what it releases, and what is left in the map.\<close>

definition releases :: "instant \<Rightarrow> batchKind \<Rightarrow> pending list \<Rightarrow> pending \<Rightarrow> bool" where
  "releases now k bs b \<longleftrightarrow> p_kind b = k \<and> \<not> now < p_deadline b \<and> \<not> waits bs b"

definition due_pass ::
  "instant \<Rightarrow> pending list \<times> pending list \<Rightarrow> batchKind \<Rightarrow> pending list \<times> pending list" where
  "due_pass now = (\<lambda>(out, bs) k.
     (out @ filter (releases now k bs) bs, filter (\<lambda>b. \<not> releases now k bs b) bs))"

definition due_batches :: "instant \<Rightarrow> pending list \<Rightarrow> pending list \<times> pending list" where
  "due_batches now bs =
     (let (out, bs') = foldl (due_pass now) ([], bs) [kindAlert, kindReminder, kindRecovery]
      in (sortBatches out, bs'))"

text \<open>\<open>takeAll\<close>: everything, for the final flush.\<close>

definition takeAll :: "pending list \<Rightarrow> pending list" where
  "takeAll bs = sortBatches bs"

section \<open>The grouper over time\<close>

datatype group_op = Add instant int int alert | Due instant | TakeAll

fun group_step ::
  "duration \<Rightarrow> pending list \<times> pending list \<Rightarrow> group_op \<Rightarrow> pending list \<times> pending list" where
  "group_step w (bs, out) (Add now ch mid a) = (add_alert w now ch mid a bs, out)"
| "group_step w (bs, out) (Due now) = (snd (due_batches now bs), out @ fst (due_batches now bs))"
| "group_step w (bs, out) TakeAll = ([], out @ takeAll bs)"

definition group_run :: "duration \<Rightarrow> group_op list \<Rightarrow> pending list \<times> pending list" where
  "group_run w ops = foldl (group_step w) ([], []) ops"

section \<open>Well-formed batches\<close>

definition batch_ok :: "pending \<Rightarrow> bool" where
  "batch_ok b \<longleftrightarrow> p_alerts b \<noteq> [] \<and> (\<forall>a\<in>set (p_alerts b). kindOf a = p_kind b)"

definition batches_ok :: "pending list \<Rightarrow> bool" where
  "batches_ok bs \<longleftrightarrow> distinct (map groupKey bs) \<and> (\<forall>b\<in>set bs. batch_ok b)"

lemma groupKey_append [simp]: "groupKey (append_alert a b) = groupKey b"
  by (simp add: groupKey_def append_alert_def)

lemma add_alert_keys:
  "set (map groupKey (add_alert w now ch mid a bs)) = insert (ch, kindOf a) (set (map groupKey bs))"
  by (induction bs) (auto simp: groupKey_def append_alert_def)

lemma add_alert_ok: "batches_ok bs \<Longrightarrow> batches_ok (add_alert w now ch mid a bs)"
proof (induction bs)
  case (Cons b bs)
  show ?case
  proof (cases "groupKey b = (ch, kindOf a)")
    case True
    then show ?thesis
      using Cons.prems by (auto simp: batches_ok_def batch_ok_def append_alert_def groupKey_def)
  next
    case False
    have "batches_ok (add_alert w now ch mid a bs)" using Cons by (simp add: batches_ok_def)
    then show ?thesis
      using Cons.prems False add_alert_keys [of w now ch mid a bs]
      by (auto simp: batches_ok_def simp del: set_map)
  qed
qed (simp add: batches_ok_def batch_ok_def append_alert_def)

lemma find_key:
  assumes "distinct (map groupKey bs)" "b \<in> set bs" "groupKey b = k"
  shows "find (\<lambda>x. groupKey x = k) bs = Some b"
  using assms by (induction bs) (auto simp: rev_image_eqI)

lemma waitsI:
  assumes "batches_ok bs" "o' \<in> set bs" "p_channel o' = p_channel b" "p_kind o' < p_kind b"
    and "sharesIncident b o'"
  shows "waits bs b"
proof -
  have "find (\<lambda>x. groupKey x = (p_channel b, p_kind o')) bs = Some o'"
    using assms(1,2,3) by (intro find_key) (auto simp: batches_ok_def groupKey_def)
  moreover have "p_kind o' \<in> set [kindAlert, kindReminder]"
    using assms(4) by (cases "p_kind o'"; cases "p_kind b") (auto simp: less_batchKind_def)
  ultimately show ?thesis
    using assms(4,5) by (auto simp: waits_def list_ex_iff intro!: bexI [of _ "p_kind o'"])
qed

lemma batches_ok_filter: "batches_ok bs \<Longrightarrow> batches_ok (filter P bs)"
  by (auto simp: batches_ok_def distinct_map_filter)

end
