(* ===== verification/GrouperRuns.thy ===== *)
theory GrouperRuns
  imports Grouper
begin

text \<open>
  The grouper's promises over any run of alerts and sweeps: no channel hears news about an incident
  before the earlier news it answers, nothing is lost or told twice, and nothing waits forever.
\<close>

section \<open>One sweep\<close>

definition released :: "instant \<Rightarrow> pending list \<Rightarrow> pending list" where
  "released now bs = fst (due_batches now bs)"

definition kept :: "instant \<Rightarrow> pending list \<Rightarrow> pending list" where
  "kept now bs = snd (due_batches now bs)"

definition rest :: "instant \<Rightarrow> batchKind \<Rightarrow> pending list \<Rightarrow> pending list" where
  "rest now k bs = filter (\<lambda>b. \<not> releases now k bs b) bs"

lemma due_unfold:
  fixes bs now
  defines "bs1 \<equiv> rest now kindAlert bs" and "bs2 \<equiv> rest now kindReminder (rest now kindAlert bs)"
  shows "kept now bs = rest now kindRecovery bs2"
    and "released now bs = sortBatches (filter (releases now kindAlert bs) bs @
      filter (releases now kindReminder bs1) bs1 @ filter (releases now kindRecovery bs2) bs2)"
  by (simp_all add: kept_def released_def due_batches_def due_pass_def rest_def bs1_def bs2_def)

lemma mset_rest: "mset (filter (releases now k bs) bs) + mset (rest now k bs) = mset bs"
  by (simp add: rest_def)

lemma mset_due: "mset (released now bs) + mset (kept now bs) = mset bs"
proof -
  let ?b1 = "rest now kindAlert bs"
  let ?b2 = "rest now kindReminder ?b1"
  have "mset (released now bs) + mset (kept now bs) =
      mset (filter (releases now kindAlert bs) bs) + (mset (filter (releases now kindReminder ?b1) ?b1) +
      (mset (filter (releases now kindRecovery ?b2) ?b2) + mset (rest now kindRecovery ?b2)))"
    by (simp add: due_unfold sortBatches_def ac_simps)
  then show ?thesis by (simp only: mset_rest)
qed

lemma rest_subset: "set (rest now k bs) \<subseteq> set bs"
  by (auto simp: rest_def)

lemma rest_ok: "batches_ok bs \<Longrightarrow> batches_ok (rest now k bs)"
  unfolding rest_def by (rule batches_ok_filter)

lemma kept_ok: "batches_ok bs \<Longrightarrow> batches_ok (kept now bs)"
  by (simp add: due_unfold(1) rest_ok)

lemma sortBatches_simps [simp]: "set (sortBatches bs) = set bs" "mset (sortBatches bs) = mset bs"
  by (simp_all add: sortBatches_def)

lemma released_subset: "set (released now bs) \<subseteq> set bs" "set (kept now bs) \<subseteq> set bs"
  using mset_due [of now bs] by (metis mset_subset_eq_add_left mset_subset_eq_add_right set_mset_mono set_mset_mset)+

lemma released_sorted:
  assumes "batches_ok bs"
  shows "sorted (map groupKey (released now bs))" "distinct (map groupKey (released now bs))"
proof -
  show "sorted (map groupKey (released now bs))" by (simp add: due_unfold(2) sortBatches_def)
  have "mset (map groupKey (released now bs)) + mset (map groupKey (kept now bs)) = mset (map groupKey bs)"
    using mset_due [of now bs] by (metis image_mset_union mset_map)
  then have "mset (map groupKey bs) = mset (map groupKey (released now bs) @ map groupKey (kept now bs))"
    by simp
  then have "distinct (map groupKey (released now bs) @ map groupKey (kept now bs))"
    using assms unfolding batches_ok_def by (metis mset_eq_imp_distinct_iff)
  then show "distinct (map groupKey (released now bs))" by simp
qed

lemma released_shares_nothing_kept:
  assumes "batches_ok bs" "b \<in> set (released now bs)" "o' \<in> set (kept now bs)"
    and "p_channel o' = p_channel b" "p_kind o' < p_kind b"
  shows "\<not> sharesIncident b o'"
proof
  assume sh: "sharesIncident b o'"
  let ?b1 = "rest now kindAlert bs"
  let ?b2 = "rest now kindReminder ?b1"
  have o2: "o' \<in> set ?b2" using assms(3) rest_subset unfolding due_unfold(1) by blast
  have o1: "o' \<in> set ?b1" using o2 rest_subset by blast
  have o0: "o' \<in> set bs" using o1 rest_subset by blast
  have "waits bs b" "waits ?b1 b" "waits ?b2 b"
    using waitsI [OF _ _ assms(4,5) sh] o0 o1 o2 assms(1) rest_ok by blast+
  then show False using assms(2) by (auto simp: due_unfold(2) releases_def)
qed

lemma released_deadline: "b \<in> set (released now bs) \<Longrightarrow> p_deadline b \<le> now"
  by (auto simp: due_unfold(2) releases_def)

text \<open>There is no circle of waiting: when every window has closed, one sweep releases everything.\<close>

lemma no_waits:
  assumes "\<forall>x\<in>set bs. \<not> p_kind x < p_kind b" shows "\<not> waits bs b"
proof
  assume "waits bs b"
  then obtain k where k: "k < p_kind b" "find (\<lambda>x. groupKey x = (p_channel b, k)) bs \<noteq> None"
    by (fastforce simp: waits_def list_ex_iff simp del: filter.simps split: option.splits)
  then obtain x where "x \<in> set bs" "groupKey x = (p_channel b, k)" by (auto simp: find_None_iff)
  then show False using assms k(1) by (auto simp: groupKey_def)
qed

lemma pass_empties:
  assumes "\<forall>b\<in>set bs. p_deadline b \<le> now \<and> k \<le> p_kind b" "x \<in> set (rest now k bs)"
  shows "k < p_kind x \<and> p_deadline x \<le> now"
proof -
  have x: "x \<in> set bs" "\<not> releases now k bs x" using assms(2) by (auto simp: rest_def)
  have "p_kind x \<noteq> k"
  proof
    assume k: "p_kind x = k"
    then have "\<not> waits bs x" using assms(1) by (intro no_waits) (auto simp: not_less)
    then show False using x assms(1) k by (auto simp: releases_def)
  qed
  then show ?thesis using assms(1) x(1) by auto
qed

lemma kind_bounds [simp]: "kindAlert \<le> k" "\<not> kindRecovery < k"
  by (cases k; simp add: less_eq_batchKind_def less_batchKind_def)+

lemma kind_next:
  "kindAlert < k \<Longrightarrow> kindReminder \<le> k" "kindReminder < k \<Longrightarrow> kindRecovery \<le> k"
  by (cases k; simp add: less_eq_batchKind_def less_batchKind_def)+

lemma kept_when_all_closed:
  assumes "\<forall>b\<in>set bs. p_deadline b \<le> now" shows "kept now bs = []"
proof -
  let ?b1 = "rest now kindAlert bs"
  let ?b2 = "rest now kindReminder ?b1"
  have 1: "\<forall>b\<in>set ?b1. p_deadline b \<le> now \<and> kindReminder \<le> p_kind b"
    using pass_empties [of bs now kindAlert] assms kind_next by auto
  have 2: "\<forall>b\<in>set ?b2. p_deadline b \<le> now \<and> kindRecovery \<le> p_kind b"
    using pass_empties [OF 1] kind_next by auto
  have "set (rest now kindRecovery ?b2) = {}" by (rule equals0I) (use pass_empties [OF 2] in auto)
  then show ?thesis unfolding due_unfold(1) set_empty .
qed

section \<open>Order\<close>

text \<open>In the messages to channel \<open>ch\<close>, wherever \<open>r\<close> is, \<open>d\<close> came in an earlier message.\<close>

definition heard_before :: "int \<Rightarrow> alert \<Rightarrow> alert \<Rightarrow> pending list \<Rightarrow> bool" where
  "heard_before ch d r out \<longleftrightarrow>
     (\<forall>n<length out. p_channel (out ! n) = ch \<longrightarrow> r \<in> set (p_alerts (out ! n)) \<longrightarrow>
        (\<exists>m<n. p_channel (out ! m) = ch \<and> d \<in> set (p_alerts (out ! m))))"

definition carries :: "int \<Rightarrow> alert \<Rightarrow> pending \<Rightarrow> bool" where
  "carries ch d b \<longleftrightarrow> p_channel b = ch \<and> d \<in> set (p_alerts b)"

lemma heard_before_append:
  assumes "heard_before ch d r out"
    and "\<And>n. n < length new \<Longrightarrow> carries ch r (new ! n) \<Longrightarrow>
      (\<exists>b\<in>set out. carries ch d b) \<or> (\<exists>m<n. carries ch d (new ! m))"
  shows "heard_before ch d r (out @ new)"
  unfolding heard_before_def
proof (intro allI impI)
  fix n
  assume n: "n < length (out @ new)" "p_channel ((out @ new) ! n) = ch" "r \<in> set (p_alerts ((out @ new) ! n))"
  show "\<exists>m<n. p_channel ((out @ new) ! m) = ch \<and> d \<in> set (p_alerts ((out @ new) ! m))"
  proof (cases "n < length out")
    case True
    then obtain m where "m < n" "p_channel (out ! m) = ch" "d \<in> set (p_alerts (out ! m))"
      using assms(1) n by (auto simp: heard_before_def nth_append)
    then show ?thesis using True by (auto simp: nth_append intro!: exI [of _ m])
  next
    case False
    let ?n = "n - length out"
    have "?n < length new" "carries ch r (new ! ?n)"
      using n False by (auto simp: carries_def nth_append)
    from assms(2) [OF this] show ?thesis
    proof
      assume "\<exists>b\<in>set out. carries ch d b"
      then obtain m where "m < length out" "carries ch d (out ! m)" by (metis in_set_conv_nth)
      then show ?thesis using False by (auto simp: carries_def nth_append intro!: exI [of _ m])
    next
      assume "\<exists>m<?n. carries ch d (new ! m)"
      then obtain m where "m < ?n" "carries ch d (new ! m)" by blast
      then show ?thesis
        using False n(1) by (auto simp: carries_def nth_append intro!: exI [of _ "length out + m"])
    qed
  qed
qed

text \<open>A list of batches in key order has the earlier kind of a channel first.\<close>

lemma sorted_keys_before:
  assumes "sorted (map groupKey bs)" "n < length bs" "m < length bs"
    and "p_channel (bs ! m) = p_channel (bs ! n)" "p_kind (bs ! m) < p_kind (bs ! n)"
  shows "m < n"
proof (rule ccontr)
  assume "\<not> m < n"
  then have "map groupKey bs ! n \<le> map groupKey bs ! m"
    using assms(1,3) by (intro sorted_nth_mono) auto
  then show False using assms by (auto simp: groupKey_def less_eq_prod_def)
qed

text \<open>\<open>d\<close> is told already or waiting, and what has been told of \<open>r\<close> came after it.\<close>

definition order_ok :: "int \<Rightarrow> alert \<Rightarrow> alert \<Rightarrow> pending list \<times> pending list \<Rightarrow> bool" where
  "order_ok ch d r = (\<lambda>(bs, out). batches_ok bs \<and> heard_before ch d r out \<and>
     ((\<exists>b\<in>set out. carries ch d b) \<or> (\<exists>b\<in>set bs. carries ch d b)))"

lemma add_alert_carries:
  "\<exists>b\<in>set bs. carries ch d b \<Longrightarrow> \<exists>b\<in>set (add_alert w now ch' mid a bs). carries ch d b"
  by (induction bs) (auto simp: carries_def append_alert_def)

lemma add_alert_carries_new: "\<exists>b\<in>set (add_alert w now ch mid a bs). carries ch a b"
  by (induction bs) (auto simp: carries_def append_alert_def groupKey_def)

lemma shares:
  assumes "carries ch d b'" "carries ch r b" "a_IncidentID (a_data d) = a_IncidentID (a_data r)"
    and "a_IncidentID (a_data r) \<noteq> 0"
  shows "sharesIncident b b'"
  using assms by (auto simp: sharesIncident_def carries_def list_ex_iff intro!: bexI [of _ r] image_eqI [of _ _ d])

lemma order_ok_release:
  assumes ok: "order_ok ch d r (bs, out)" and kinds: "kindOf d < kindOf r"
    and inc: "a_IncidentID (a_data d) = a_IncidentID (a_data r)" "a_IncidentID (a_data r) \<noteq> 0"
    and new: "sorted (map groupKey new)" "set new \<subseteq> set bs" "batches_ok left"
      "set bs \<subseteq> set new \<union> set left"
      "\<And>b o'. b \<in> set new \<Longrightarrow> o' \<in> set left \<Longrightarrow> p_channel o' = p_channel b \<Longrightarrow> p_kind o' < p_kind b \<Longrightarrow>
         \<not> sharesIncident b o'"
  shows "order_ok ch d r (left, out @ new)"
proof -
  have bok: "batches_ok bs" and hb: "heard_before ch d r out" using ok by (auto simp: order_ok_def)
  have kd: "p_kind b = kindOf a" if "b \<in> set bs" "carries ch a b" for a b
    using bok that by (auto simp: batches_ok_def batch_ok_def carries_def)
  have "heard_before ch d r (out @ new)"
  proof (rule heard_before_append [OF hb])
    fix n assume n: "n < length new" "carries ch r (new ! n)"
    have nb: "new ! n \<in> set new" "new ! n \<in> set bs" using n(1) new(2) by auto
    show "(\<exists>b\<in>set out. carries ch d b) \<or> (\<exists>m<n. carries ch d (new ! m))"
    proof (cases "\<exists>b\<in>set out. carries ch d b")
      case False
      then obtain b where b: "b \<in> set bs" "carries ch d b" using ok by (auto simp: order_ok_def)
      have lt: "p_kind b < p_kind (new ! n)" "p_channel b = p_channel (new ! n)"
        using kd [OF b] kd [OF nb(2) n(2)] kinds b(2) n(2) by (auto simp: carries_def)
      have "b \<in> set new"
        using new(4,5) nb(1) lt b(1) shares [OF b(2) n(2) inc] by blast
      then obtain m where "m < length new" "new ! m = b" by (metis in_set_conv_nth)
      then have "\<exists>m<n. carries ch d (new ! m)"
        using sorted_keys_before [OF new(1) n(1), of m] lt b(2) by auto
      then show ?thesis by blast
    qed blast
  qed
  moreover have "(\<exists>b\<in>set (out @ new). carries ch d b) \<or> (\<exists>b\<in>set left. carries ch d b)"
    using ok new(4) by (auto simp: order_ok_def)
  ultimately show ?thesis using new(3) by (simp add: order_ok_def)
qed

lemma order_ok_step:
  assumes "order_ok ch d r st" "kindOf d < kindOf r"
    and "a_IncidentID (a_data d) = a_IncidentID (a_data r)" "a_IncidentID (a_data r) \<noteq> 0"
  shows "order_ok ch d r (group_step w st op)"
proof -
  obtain bs out where st: "st = (bs, out)" by (metis surj_pair)
  have bok: "batches_ok bs" using assms(1) by (simp add: st order_ok_def)
  show ?thesis
  proof (cases op)
    case (Add now ch' mid a)
    then show ?thesis
      using assms(1) add_alert_ok [OF bok] add_alert_carries [of bs ch d w now ch' mid a]
      by (auto simp: st order_ok_def)
  next
    case (Due now)
    have "set bs \<subseteq> set (released now bs) \<union> set (kept now bs)"
      using mset_due [of now bs] by (metis set_mset_mset set_mset_union subset_refl)
    then have "order_ok ch d r (kept now bs, out @ released now bs)"
      using order_ok_release [OF assms(1) [unfolded st] assms(2-4) released_sorted(1) [OF bok]
          released_subset(1) kept_ok [OF bok]] released_shares_nothing_kept [OF bok] by blast
    then show ?thesis by (simp add: st Due released_def kept_def)
  next
    case TakeAll
    have "order_ok ch d r ([], out @ takeAll bs)"
      by (rule order_ok_release [OF assms(1) [unfolded st] assms(2-4)])
         (auto simp: takeAll_def sortBatches_def batches_ok_def)
    then show ?thesis by (simp add: st TakeAll)
  qed
qed

lemma order_ok_run:
  assumes "order_ok ch d r st" "kindOf d < kindOf r"
    and "a_IncidentID (a_data d) = a_IncidentID (a_data r)" "a_IncidentID (a_data r) \<noteq> 0"
  shows "order_ok ch d r (foldl (group_step w) st ops)"
  using assms(1)
proof (induction ops arbitrary: st)
  case (Cons op ops)
  then show ?case using order_ok_step [OF Cons.prems assms(2-4)] by simp
qed simp

section \<open>Conservation\<close>

text \<open>Every alert with the channel it is for.\<close>

definition told :: "pending list \<Rightarrow> (int \<times> alert) multiset" where
  "told bs = (\<Sum>b\<in>#mset bs. image_mset (Pair (p_channel b)) (mset (p_alerts b)))"

fun added :: "group_op list \<Rightarrow> (int \<times> alert) multiset" where
  "added [] = {#}"
| "added (Add now ch mid a # ops) = add_mset (ch, a) (added ops)"
| "added (Due now # ops) = added ops"
| "added (TakeAll # ops) = added ops"

lemma told_append [simp]: "told (xs @ ys) = told xs + told ys"
  by (simp add: told_def)

lemma told_Cons [simp]: "told (b # bs) = image_mset (Pair (p_channel b)) (mset (p_alerts b)) + told bs"
  by (simp add: told_def)

lemma told_Nil [simp]: "told [] = {#}"
  by (simp add: told_def)

lemma told_add: "told (add_alert w now ch mid a bs) = add_mset (ch, a) (told bs)"
  by (induction bs) (auto simp: append_alert_def groupKey_def)

lemma told_mset: "mset xs = mset ys \<Longrightarrow> told xs = told ys"
  by (simp add: told_def)

lemma told_run:
  "told (fst (foldl (group_step w) (bs, out) ops)) + told (snd (foldl (group_step w) (bs, out) ops)) =
   added ops + told bs + told out"
proof (induction ops arbitrary: bs out)
  case (Cons op ops)
  show ?case
  proof (cases op)
    case (Due now)
    have "told (released now bs @ kept now bs) = told bs"
      by (rule told_mset) (simp add: mset_due)
    then have "told (released now bs) + told (kept now bs) = told bs" by simp
    then show ?thesis using Cons.IH [of "kept now bs" "out @ released now bs"]
      by (simp add: Due released_def kept_def ac_simps)
  next
    case TakeAll
    have "told (takeAll bs) = told bs" by (rule told_mset) (simp add: takeAll_def)
    then show ?thesis using Cons.IH [of "[]" "out @ takeAll bs"] by (simp add: TakeAll ac_simps)
  qed (use Cons.IH told_add in simp)
qed simp

lemma batches_ok_run:
  "batches_ok bs \<Longrightarrow> batches_ok (fst (foldl (group_step w) (bs, out) ops))"
proof (induction ops arbitrary: bs out)
  case (Cons op ops)
  obtain bs' out' where st: "group_step w (bs, out) op = (bs', out')" by fastforce
  have "batches_ok bs'"
  proof (cases op)
    case (Add now ch mid a)
    then show ?thesis using st add_alert_ok [OF Cons.prems, of w now ch mid a] by simp
  next
    case (Due now)
    then show ?thesis using st kept_ok [OF Cons.prems, of now] by (simp add: kept_def)
  next
    case TakeAll
    then show ?thesis using st by (simp add: batches_ok_def)
  qed
  then show ?case using Cons.IH [of bs' out'] st by simp
qed simp

section \<open>Sample alerts\<close>

definition sample_alert :: "event \<Rightarrow> int \<Rightarrow> instant \<Rightarrow> alert" where
  "sample_alert ev i t = Alert [] (zero_data\<lparr>a_MonitorID := i, a_MonitorName := ''api'',
     a_Event := event_string ev, a_IncidentID := i, a_StartedAt := t, a_At := t\<rparr>)"

lemma sample_kind [simp]:
  "kindOf (sample_alert EventIncidentConfirmed i t) = kindAlert"
  "kindOf (sample_alert EventIncidentReminder i t) = kindReminder"
  "kindOf (sample_alert EventIncidentResolved i t) = kindRecovery"
  by (simp_all add: kindOf_def Down_def sample_alert_def zero_data_def EventLocalNetworkRestored_def
      EventLocalDNSRestored_def)

lemma sample_incident [simp]: "a_IncidentID (a_data (sample_alert ev i t)) = i"
  by (simp add: sample_alert_def)

section \<open>The grouper's promises\<close>

text \<open>
  C8: no channel hears of a recovery before the alert it closes, nor of a reminder before the alert it
  repeats. Once an alert \<open>d\<close> has been added for a channel, whatever is added, swept and flushed
  afterwards, every message to the channel that carries later news \<open>r\<close> about the same incident comes
  after a message that carries \<open>d\<close>, even when \<open>r\<close> joined a batch that was opened first.
\<close>

theorem no_recovery_before_its_alert:
  assumes "kindOf d < kindOf r" "a_IncidentID (a_data d) = a_IncidentID (a_data r)"
    and "a_IncidentID (a_data r) \<noteq> 0"
    and "\<forall>b\<in>set (snd (group_run w before)). p_channel b = ch \<longrightarrow> r \<notin> set (p_alerts b)"
  shows "heard_before ch d r (snd (group_run w (before @ Add now ch mid d # after)))"
proof -
  obtain bs out where st: "group_run w before = (bs, out)" by (metis surj_pair)
  have "batches_ok bs"
    using batches_ok_run [of "[]" w "[]" before] st by (simp add: group_run_def batches_ok_def)
  moreover have "heard_before ch d r out"
    using assms(4) by (auto simp: st heard_before_def)
  ultimately have "order_ok ch d r (add_alert w now ch mid d bs, out)"
    using add_alert_ok add_alert_carries_new by (auto simp: order_ok_def)
  then have "order_ok ch d r (foldl (group_step w) (add_alert w now ch mid d bs, out) after)"
    using order_ok_run assms(1-3) by blast
  then show ?thesis using st by (auto simp: group_run_def order_ok_def)
qed

theorem no_recovery_before_its_alert_witness:
  "heard_before 1 (sample_alert EventIncidentConfirmed 5 20) (sample_alert EventIncidentResolved 5 30)
     (snd (group_run (seconds 90)
        ([Add 0 1 9 (sample_alert EventIncidentResolved 4 0)] @
         Add (seconds 80) 1 5 (sample_alert EventIncidentConfirmed 5 20) #
         [Add (seconds 85) 1 5 (sample_alert EventIncidentResolved 5 30), Due (seconds 90), Due (seconds 200)])))"
  by (rule no_recovery_before_its_alert) (simp_all add: less_batchKind_def group_run_def)

text \<open>
  C40: no alert is lost or told twice. After any run, the alerts in the messages sent and in the batches
  still waiting, each with its channel, are exactly the alerts that were added; and every waiting batch
  holds one kind of news.
\<close>

theorem grouping_conserves_alerts:
  "told (fst (group_run w ops)) + told (snd (group_run w ops)) = added ops \<and>
   batches_ok (fst (group_run w ops))"
  using told_run [of w "[]" "[]" ops] batches_ok_run [of "[]" w "[]" ops]
  by (simp add: group_run_def batches_ok_def)

text \<open>
  there is no circle of waiting. A sweep after the last window has closed releases every batch of a
  run, whatever incidents they share.
\<close>

theorem sweep_after_all_windows_releases_everything:
  assumes "\<forall>b\<in>set (fst (group_run w ops)). p_deadline b \<le> now"
  shows "fst (group_run w (ops @ [Due now])) = []"
proof -
  obtain bs out where st: "group_run w ops = (bs, out)" by (metis surj_pair)
  then have "kept now bs = []" using kept_when_all_closed assms by simp
  then show ?thesis using st by (simp add: group_run_def kept_def)
qed

theorem sweep_after_all_windows_releases_everything_witness:
  "fst (group_run 90 ([Add 0 1 5 (sample_alert EventIncidentConfirmed 5 0)] @ [Due 90])) = []"
  by (rule sweep_after_all_windows_releases_everything) (simp add: group_run_def append_alert_def)

text \<open>
  A recovery can wait longer than one window past its own: the batch it waits in keeps taking in new
  recoveries, each of which may tie it to a batch opened later. Here the window is 90 seconds, the
  batch of recoveries closes at second 90, and the sweep at second 254 still holds it back.
\<close>

definition long_wait :: "group_op list" where
  "long_wait =
     [Add 0 1 4 (sample_alert EventIncidentResolved 4 0),
      Add (seconds 80) 1 5 (sample_alert EventIncidentConfirmed 5 1),
      Add (seconds 85) 1 5 (sample_alert EventIncidentResolved 5 2), Due (seconds 90),
      Add (seconds 165) 1 6 (sample_alert EventIncidentReminder 6 3),
      Add (seconds 168) 1 6 (sample_alert EventIncidentResolved 6 4), Due (seconds 170), Due (seconds 254)]"

lemma recovery_outwaits_one_window:
  "\<exists>b\<in>set (fst (group_run (seconds 90) long_wait)).
     p_deadline b = seconds 90 \<and> sample_alert EventIncidentResolved 4 0 \<in> set (p_alerts b)"
  by (simp add: group_run_def long_wait_def due_batches_def due_pass_def releases_def waits_def
      sharesIncident_def append_alert_def groupKey_def less_batchKind_def sortBatches_def Let_def)

end
