(* ===== verification/AlertProps.thy ===== *)
theory AlertProps
  imports GrouperRuns
begin

text \<open>
  What a reader of one message can rely on: a batch's message carries all its news and claims a common
  cause only when there is one, and a digest counts exactly the monitors that are still down.
\<close>

section \<open>Batches\<close>

lemma sharedCause_from_exact:
  assumes "c \<noteq> []"
  shows "sharedCause_from c as = (if \<forall>a\<in>set as. a_Cause (a_data a) = c then c else [])"
  using assms by (induction as) auto

lemma sharedCause_exact:
  assumes "as \<noteq> []" "c \<noteq> []"
  shows "sharedCause as = c \<longleftrightarrow> (\<forall>a\<in>set as. a_Cause (a_data a) = c)"
proof (cases as)
  case (Cons a as')
  then show ?thesis
    using assms(2) by (cases "a_Cause (a_data a) = []") (auto simp: sharedCause_def sharedCause_from_exact)
qed (use assms in simp)

lemma alertLeaves_group: "Members s \<noteq> [] \<Longrightarrow> alertLeaves s = concat (map alertLeaves (Members s))"
  by (cases s) simp

text \<open>The leaves of a list of alerts, as a multiset: the news, in no particular order.\<close>

definition news :: "alert list \<Rightarrow> alert multiset" where
  "news as = mset (concat (map alertLeaves as))"

lemma news_simps [simp]:
  "news [] = {#}" "news (a # as) = mset (alertLeaves a) + news as" "news (as @ bs) = news as + news bs"
  by (simp_all add: news_def)

lemma news_sum: "news as = (\<Sum>a\<in>#mset as. mset (alertLeaves a))"
  by (induction as) auto

lemma news_mset: "mset as = mset bs \<Longrightarrow> news as = news bs"
  by (simp add: news_sum)

lemma Summarise_some: "as \<noteq> [] \<Longrightarrow> \<exists>s. Summarise as = Some s"
  by (cases as; cases "tl as") (auto simp: Summarise_def Let_def)

lemma Summarise_news:
  assumes "Summarise as = Some s"
  shows "mset (alertLeaves s) = news as"
proof -
  consider (none) "as = []" | (one) a where "as = [a]" | (more) a b cs where "as = a # b # cs"
    by (metis list.exhaust)
  then show ?thesis
  proof cases
    case more
    let ?sorted = "sort_key (\<lambda>a. a_At (a_data a)) as"
    have ne: "?sorted \<noteq> []" using more by (metis length_0_conv length_sort list.distinct(1))
    obtain d where s: "s = Alert ?sorted d" using more assms by (auto simp: Summarise_def Let_def)
    have "mset (alertLeaves s) = news ?sorted" using ne by (simp add: s news_def)
    also have "\<dots> = news as" by (rule news_mset) simp
    finally show ?thesis .
  qed (use assms in \<open>auto simp: Summarise_def\<close>)
qed

lemma BuildDigest_news: "as \<noteq> [] \<Longrightarrow> mset (alertLeaves (BuildDigest as zone now)) = news as"
proof -
  assume "as \<noteq> []"
  then have ne: "sort_key (\<lambda>a. a_At (a_data a)) as \<noteq> []" by (metis length_0_conv length_sort)
  then have "mset (alertLeaves (BuildDigest as zone now)) = news (sort_key (\<lambda>a. a_At (a_data a)) as)"
    by (simp add: BuildDigest_def Let_def news_def)
  also have "\<dots> = news as" by (rule news_mset) simp
  finally show ?thesis .
qed

text \<open>
  What the message of a batch says. One alert is told as it is. Of two or more, the message has
  every alert as a member, oldest first, and every piece of news in them and no other; and it names a
  common cause exactly when every member gives that cause.
\<close>

theorem summary_tells_all_and_invents_nothing:
  assumes "as \<noteq> []"
  shows "\<exists>s. Summarise as = Some s \<and> mset (alertLeaves s) = news as \<and>
     (length as = 1 \<longrightarrow> s = hd as) \<and>
     (2 \<le> length as \<longrightarrow> mset (Members s) = mset as \<and>
        sorted (map (\<lambda>a. a_At (a_data a)) (Members s)) \<and>
        (\<forall>c. c \<noteq> [] \<longrightarrow> (a_GroupedCause (a_data s) = c \<longleftrightarrow> (\<forall>a\<in>set as. a_Cause (a_data a) = c))))"
proof -
  consider (one) a where "as = [a]" | (more) a b cs where "as = a # b # cs"
    using assms by (metis list.exhaust)
  then show ?thesis
  proof cases
    case one
    then show ?thesis by (simp add: Summarise_def)
  next
    case more
    let ?sorted = "sort_key (\<lambda>a. a_At (a_data a)) as"
    obtain d where s: "Summarise as = Some (Alert ?sorted d)" "a_GroupedCause d = sharedCause ?sorted"
      using more by (simp add: Summarise_def Let_def)
    have ne: "?sorted \<noteq> []" using assms by (metis length_0_conv length_sort)
    have "mset (alertLeaves (Alert ?sorted d)) = news ?sorted" using ne by (simp add: news_def)
    also have "\<dots> = news as" by (rule news_mset) simp
    finally have leaves: "mset (alertLeaves (Alert ?sorted d)) = news as" .
    have len: "2 \<le> length as" using more by simp
    show ?thesis
      by (rule exI [of _ "Alert ?sorted d"])
         (use s(1) leaves len in \<open>simp add: s(2) sharedCause_exact [OF ne]\<close>)
  qed
qed

theorem summary_tells_all_and_invents_nothing_witness:
  "\<exists>s. Summarise [sample_alert EventIncidentConfirmed 2 9, sample_alert EventIncidentConfirmed 1 5] = Some s \<and>
       mset (Members s) = {#sample_alert EventIncidentConfirmed 1 5, sample_alert EventIncidentConfirmed 2 9#}"
  using summary_tells_all_and_invents_nothing
    [of "[sample_alert EventIncidentConfirmed 2 9, sample_alert EventIncidentConfirmed 1 5]"]
  by auto

section \<open>Digests\<close>

lemma update_entry_map_of:
  "map_of (update_entry m es) =
     (map_of es)(entry_key m \<mapsto> entry_step m (case map_of es (entry_key m) of
                   None \<Rightarrow> new_entry (a_MonitorName m) | Some e \<Rightarrow> e))"
  by (induction es) auto

lemma update_entry_keys:
  "fst ` set (update_entry m es) = insert (entry_key m) (fst ` set es)"
proof (induction es)
  case (Cons p es)
  then show ?case by (cases p; cases "fst p = entry_key m") (simp_all add: insert_commute)
qed simp

lemma update_entry_distinct:
  "distinct (map fst es) \<Longrightarrow> distinct (map fst (update_entry m es))"
proof (induction es)
  case (Cons p es)
  then show ?case using update_entry_keys [of m es] by (cases p) auto
qed simp

definition still_down :: "string \<Rightarrow> alert_data list \<Rightarrow> bool" where
  "still_down k ms \<longleftrightarrow>
     (let ns = filter (\<lambda>m. entry_key m = k \<and> \<not> a_Notice m) ms
      in ns \<noteq> [] \<and> a_Event (last ns) \<noteq> event_string EventIncidentResolved)"

lemma entry_step_down:
  "de_down (entry_step m e) =
     (if a_Notice m then de_down e else a_Event m \<noteq> event_string EventIncidentResolved)"
  by (auto simp: entry_step_def Let_def)

definition entry_at :: "(digestEntry \<Rightarrow> bool) \<Rightarrow> (string \<times> digestEntry) list \<Rightarrow> string \<Rightarrow> bool" where
  "entry_at P es k = (case map_of es k of None \<Rightarrow> False | Some e \<Rightarrow> P e)"

text \<open>After any members, the entries have one key each and are down exactly when their monitor is.\<close>

lemma digest_fold:
  defines "es ms \<equiv> foldl (\<lambda>es m. update_entry m es) [] ms"
  shows "distinct (map fst (es ms)) \<and>
         (\<forall>k. entry_at de_down (es ms) k \<longleftrightarrow> still_down k ms)"
proof (induction ms rule: rev_induct)
  case Nil
  then show ?case by (simp add: es_def still_down_def entry_at_def)
next
  case (snoc m ms)
  have es: "es (ms @ [m]) = update_entry m (es ms)" by (simp add: es_def)
  have "entry_at de_down (es (ms @ [m])) k \<longleftrightarrow> still_down k (ms @ [m])" for k
  proof (cases "entry_key m = k")
    case True
    show ?thesis
    proof (cases "a_Notice m")
      case notice: True
      have "entry_at de_down (es (ms @ [m])) k \<longleftrightarrow> entry_at de_down (es ms) k"
        using True notice
        by (auto simp: entry_at_def es update_entry_map_of entry_step_down new_entry_def split: option.splits)
      then show ?thesis using snoc.IH notice by (simp add: still_down_def)
    next
      case False
      then show ?thesis using True by (simp add: entry_at_def es update_entry_map_of entry_step_down still_down_def)
    qed
  next
    case False
    then show ?thesis using snoc.IH by (simp add: entry_at_def es update_entry_map_of still_down_def)
  qed
  then show ?case using snoc.IH update_entry_distinct by (simp add: es)
qed

lemma count_by_key:
  assumes "distinct (map fst es)"
  shows "length (filter P (map snd es)) = card {k. entry_at P es k}"
  using assms
proof (induction es)
  case Nil
  have "entry_at P [] = (\<lambda>_. False)" by (simp add: fun_eq_iff entry_at_def)
  then show ?case by simp
next
  case (Cons p es)
  obtain k0 e0 where p: "p = (k0, e0)" by (cases p)
  let ?S = "{k. entry_at P es k}"
  have fin: "finite ?S"
    by (rule finite_subset [of _ "dom (map_of es)"])
       (auto simp: finite_dom_map_of entry_at_def split: option.splits)
  have k0: "map_of es k0 = None" using Cons.prems p by (simp add: map_of_eq_None_iff)
  have "{k. entry_at P (p # es) k} = (if P e0 then insert k0 ?S else ?S)"
    using k0 by (auto simp: p entry_at_def)
  moreover have "k0 \<notin> ?S" using k0 by (simp add: entry_at_def)
  ultimately show ?case using Cons fin by (simp add: p)
qed

text \<open>
  A digest counts the monitors that are still down. For any night's alerts, the number the digest
  reports is the number of monitors whose last news that is not a certificate notice is anything but a
  recovery; and the digest is bad news whenever that number is not zero.
\<close>

theorem digest_counts_monitors_still_down:
  "digestStillDown (digestEntries (Members (BuildDigest as zone now))) =
     card {k. still_down k (map a_data (sort_key (\<lambda>a. a_At (a_data a)) as))} \<and>
   (Down (BuildDigest as zone now) \<longleftrightarrow>
      (\<exists>k. still_down k (map a_data (sort_key (\<lambda>a. a_At (a_data a)) as))) \<or>
      digestNoticeOpen (digestEntries (Members (BuildDigest as zone now))))"
proof -
  let ?ms = "map a_data (sort_key (\<lambda>a. a_At (a_data a)) as)"
  let ?es = "foldl (\<lambda>es m. update_entry m es) [] ?ms"
  have mem: "Members (BuildDigest as zone now) = sort_key (\<lambda>a. a_At (a_data a)) as"
    by (simp add: BuildDigest_def Let_def)
  have entries: "digestEntries (sort_key (\<lambda>a. a_At (a_data a)) as) = map snd ?es"
    by (simp add: digestEntries_def foldl_map)
  have count: "digestStillDown (map snd ?es) = card {k. still_down k ?ms}"
    using digest_fold [of ?ms] count_by_key [of ?es de_down] by (simp add: digestStillDown_def)
  have "finite {k. still_down k ?ms}"
  proof (rule finite_subset)
    have "{k. still_down k ?ms} = {k. entry_at de_down ?es k}" using digest_fold [of ?ms] by simp
    also have "\<dots> \<subseteq> dom (map_of ?es)" by (auto simp: entry_at_def split: option.splits)
    finally show "{k. still_down k ?ms} \<subseteq> dom (map_of ?es)" .
  qed (simp add: finite_dom_map_of)
  then have "0 < card {k. still_down k ?ms} \<longleftrightarrow> (\<exists>k. still_down k ?ms)" by (auto simp: card_gt_0_iff)
  then show ?thesis
    unfolding mem entries count
    by (simp add: Down_def mem entries count) (simp add: BuildDigest_def Let_def split: list.split)
qed

end
