(* ===== verification/Delivery.thy ===== *)
theory Delivery
  imports Outbox AlertProps
begin

text \<open>
  The notifier's worker (\<open>internal/notifier/notifier.go\<close>, with \<open>order.go\<close>, \<open>digest.go\<close> and
  \<open>maintenance.go\<close>): one sweep takes the due rows and attempts them one by one. What the sweep asks of
  the rest of the program and of the network is a record of answers: the channels, the maintenance
  windows, the quiet hours, what a channel declines and how a send ends.
\<close>

section \<open>What an attempt asks\<close>

record channel =
  cn_Type :: string
  cn_Enabled :: bool
  cn_HasSender :: bool

text \<open>
  \<open>GetQuietHours\<close> with \<open>Active\<close> and \<open>EndAfter\<close>: no quiet hours; not in them now, with their zone; in
  them and set to drop; or in them until a moment.
\<close>

datatype quiet_answer = NoQuietHours | NotQuiet string | QuietDropNow | QuietUntil instant

datatype send_result = Accepted | Retryable string | Permanent string

record answers =
  an_now :: instant
  an_channel :: "int \<Rightarrow> channel option"
  an_muted :: "int \<Rightarrow> bool"
  an_anyWindow :: bool
  an_quiet :: "int \<Rightarrow> quiet_answer"
  an_withhold :: "delivery \<Rightarrow> alert \<Rightarrow> string"
  an_send :: "delivery \<Rightarrow> alert \<Rightarrow> send_result"
  an_jitter :: "duration \<Rightarrow> duration"
  an_decodeError :: "payload \<Rightarrow> string"
  an_writeError :: string

section \<open>Retries\<close>

definition maxAttempts :: int where
  "maxAttempts = 6"

text \<open>\<open>backoff\<close>, whose power of 3 is exact for every attempt the notifier makes.\<close>

definition backoff :: "(duration \<Rightarrow> duration) \<Rightarrow> int \<Rightarrow> duration" where
  "backoff jitter n =
     (let d0 = seconds 10 * 3 ^ nat (n - 1);
          d = (if minutes 10 < d0 \<or> d0 \<le> 0 then minutes 10 else d0)
      in d + (if d div 4 \<le> 0 then 0 else jitter (d div 4)))"

section \<open>Maintenance\<close>

text \<open>The loop over the members: those that stay, and the incidents whose first alert is held.\<close>

fun filter_members ::
  "answers \<Rightarrow> database \<Rightarrow> int \<Rightarrow> alert list \<Rightarrow> alert list \<times> int list" where
  "filter_members e s ch [] = ([], [])"
| "filter_members e s ch (m # ms) =
     (let (kept, held) = filter_members e s ch ms; d = a_data m in
      if an_muted e (a_MonitorID d) then
        (kept, if a_Event d = event_string EventIncidentConfirmed \<and> a_IncidentID d \<noteq> 0
               then a_IncidentID d # held else held)
      else if (a_Event d = event_string EventIncidentResolved \<or> a_Event d = event_string EventIncidentReminder)
              \<and> a_IncidentID d \<noteq> 0 \<and> MaintenanceRecoverySuppressed (a_IncidentID d) ch s then (kept, held)
      else (m # kept, held))"

definition filterMaintenance ::
  "answers \<Rightarrow> database \<Rightarrow> alert \<Rightarrow> int \<Rightarrow> alert \<times> bool \<times> int list" where
  "filterMaintenance e s a ch =
     (if Members a = [] \<and> Grouped a then (a, \<not> an_anyWindow e, [])
      else
        let ms = (if Members a = [] then [a] else Members a);
            (kept, held) = filter_members e s ch ms
        in if a_Digest (a_data a) \<and> kept \<noteq> []
           then (BuildDigest kept (a_DigestZone (a_data a)) (a_At (a_data a)), True, held)
           else (case Summarise kept of None \<Rightarrow> (a, False, held) | Some b \<Rightarrow> (b, True, held)))"

section \<open>Quiet hours\<close>

text \<open>The loop of \<open>foldHeld\<close> over the held rows: the alerts of the readable ones, the rows folded.\<close>

definition held_alerts :: "delivery list \<Rightarrow> alert list" where
  "held_alerts rows = concat (map (\<lambda>r. case DecodeAlert (d_Payload r) of
     None \<Rightarrow> [] | Some a \<Rightarrow> (if Members a \<noteq> [] then Members a else [a])) rows)"

definition folded_ids :: "int \<Rightarrow> delivery list \<Rightarrow> int list" where
  "folded_ids i rows = map d_ID (filter (\<lambda>r. d_ID r \<noteq> i \<and> DecodeAlert (d_Payload r) \<noteq> None) rows)"

definition foldHeld :: "answers \<Rightarrow> delivery \<Rightarrow> string \<Rightarrow> database \<Rightarrow> database" where
  "foldHeld e d zone s =
     (let held = HeldDeliveries (d_ChannelID d) s;
          alerts = held_alerts held; folded = folded_ids (d_ID d) held;
          self = (case find (\<lambda>r. d_ID r = d_ID d) held of None \<Rightarrow> d | Some h \<Rightarrow> h)
      in if folded = [] \<and> length alerts \<le> 1
         then FoldDigest (an_now e) (d_ID self) (d_Event self) (d_Payload self) [] (an_now e) s
         else FoldDigest (an_now e) (d_ID d) EventQuietDigest
                (Encoded (BuildDigest alerts zone (an_now e))) folded (an_now e) s)"

definition applyQuietHours :: "answers \<Rightarrow> delivery \<Rightarrow> database \<Rightarrow> bool \<times> database" where
  "applyQuietHours e d s =
     (case an_quiet e (d_ChannelID d) of
        QuietDropNow \<Rightarrow> (True, DropDelivery (an_now e) (d_ID d) s)
      | QuietUntil t \<Rightarrow> (True, HoldDelivery (an_now e) (d_ID d) t s)
      | NotQuiet zone \<Rightarrow> if \<not> d_QuietHeld d then (False, s) else (True, foldHeld e d zone s)
      | NoQuietHours \<Rightarrow> if \<not> d_QuietHeld d then (False, s) else (True, foldHeld e d ''UTC'' s))"

section \<open>A recovery replaces the alert queued before it\<close>

definition superseded :: "int set \<Rightarrow> alert \<Rightarrow> bool" where
  "superseded up l \<longleftrightarrow> a_IncidentID (a_data l) \<in> up \<and> Down l"

text \<open>What becomes of one earlier row: nothing, or what it still has to say.\<close>

definition replaced_row :: "int set \<Rightarrow> delivery \<Rightarrow> replaced option" where
  "replaced_row up r =
     (case DecodeAlert (d_Payload r) of
        None \<Rightarrow> None
      | Some ea \<Rightarrow>
          let kept = filter (\<lambda>l. \<not> superseded up l) (alertLeaves ea) in
          if kept = alertLeaves ea then None
          else Some \<lparr>rp_ID = d_ID r, rp_Payload =
            (if kept = [] then None
             else if a_Digest (a_data ea)
             then Some (Encoded (BuildDigest kept (a_DigestZone (a_data ea)) (a_At (a_data ea))))
             else map_option Encoded (Summarise kept))\<rparr>)"

text \<open>The incidents whose first alert is among what was taken out.\<close>

definition alerted_incidents :: "int set \<Rightarrow> delivery list \<Rightarrow> int set" where
  "alerted_incidents up rows =
     {a_IncidentID (a_data l) | r ea l. r \<in> set rows \<and> DecodeAlert (d_Payload r) = Some ea \<and>
        l \<in> set (alertLeaves ea) \<and> superseded up l \<and>
        a_Event (a_data l) \<noteq> event_string EventIncidentReminder}"

datatype merge_result = NothingToMerge | MergeFailed queue_error | Merged database "int set"

definition mergeEarlier :: "answers \<Rightarrow> delivery \<Rightarrow> alert \<Rightarrow> database \<Rightarrow> merge_result" where
  "mergeEarlier e d a s =
     (let up = recoveredIncidents a;
          earlier = PendingBefore (d_ChannelID d) (d_ID d) s;
          rows = filter (\<lambda>r. replaced_row up r \<noteq> None) earlier;
          rs = List.map_filter (replaced_row up) earlier
      in if up = {} \<or> rows = [] then NothingToMerge
         else
           let first = hd rows;
               from1 = first\<lparr>d_NextAttemptAt := (if d_NextAttemptAt first < an_now e then an_now e
                                               else d_NextAttemptAt first)\<rparr>;
               from2 = (if d_QuietHeld first then from1\<lparr>d_LastError := []\<rparr> else from1);
               a' = markReplaced (alerted_incidents up earlier) a
           in case ReplaceWithRecovery (an_now e) (d_ID d) (Encoded a') from2 rs s of
                Inl err \<Rightarrow> MergeFailed err
              | Inr s' \<Rightarrow> Merged s' (set (map rp_ID rs)))"

section \<open>One attempt, one sweep\<close>

text \<open>
  The state of the worker: the tables, the rows rewritten by a merge in this sweep, the delivery
  counters by channel type and outcome, when the failing channels are looked at next, and the messages
  handed to a sender in order, each with the row it was loaded from.
\<close>

record worker =
  sw_db :: database
  sw_rewritten :: "int set"
  sw_counts :: "string \<times> string \<Rightarrow> nat"
  sw_nextFailureCheck :: instant
  sw_sent :: "(delivery \<times> alert) list"

definition count_outcome :: "string \<Rightarrow> string \<Rightarrow> worker \<Rightarrow> worker" where
  "count_outcome typ result w =
     w\<lparr>sw_counts := (sw_counts w)((typ, result) := sw_counts w (typ, result) + 1)\<rparr>"

definition fail :: "answers \<Rightarrow> delivery \<Rightarrow> string \<Rightarrow> worker \<Rightarrow> worker" where
  "fail e d cause w = w\<lparr>sw_db := MarkFailed (an_now e) (d_ID d) cause (sw_db w)\<rparr>"

definition giveUp :: "answers \<Rightarrow> delivery \<Rightarrow> channel \<Rightarrow> string \<Rightarrow> worker \<Rightarrow> worker" where
  "giveUp e d ch cause w =
     (let w1 = fail e d cause (count_outcome (cn_Type ch) ''failed'' w)
      in case RecordChannelFailure (d_ChannelID d) (an_now e) cause (sw_db w1) of
           None \<Rightarrow> w1
         | Some s \<Rightarrow> w1\<lparr>sw_db := s, sw_nextFailureCheck := 0\<rparr>)"

text \<open>The send itself and what its outcome does to the row.\<close>

definition send_outcome :: "answers \<Rightarrow> delivery \<Rightarrow> channel \<Rightarrow> alert \<Rightarrow> worker \<Rightarrow> worker" where
  "send_outcome e d ch a w0 =
     (let w = w0\<lparr>sw_sent := sw_sent w0 @ [(d, a)]\<rparr> in
      case an_send e d a of
        Accepted \<Rightarrow>
          (let w1 = count_outcome (cn_Type ch) ''delivered'' w
           in w1\<lparr>sw_db := ClearChannelFailure (d_ChannelID d)
                            (MarkDelivered (an_now e) (d_ID d) (sw_db w1))\<rparr>)
      | Permanent err \<Rightarrow> giveUp e d ch err w
      | Retryable err \<Rightarrow>
          let nxt = d_Attempts d + 1 in
          if maxAttempts \<le> nxt
          then giveUp e d ch (''gave up after '' @ itoa nxt @ '' attempts: '' @ err) w
          else
            let w1 = count_outcome (cn_Type ch) ''retried'' w
            in w1\<lparr>sw_db := MarkRetry (an_now e) (d_ID d) err
                             (an_now e + backoff (an_jitter e) nxt) (sw_db w1)\<rparr>)"

definition retryMaintenance :: "answers \<Rightarrow> delivery \<Rightarrow> string \<Rightarrow> database \<Rightarrow> database" where
  "retryMaintenance e d cause s =
     DeferDelivery (an_now e) (d_ID d) cause (an_now e + backoff (an_jitter e) (d_Attempts d + 1)) s"

definition quoted :: "string \<Rightarrow> string" where
  "quoted s = [CHR 0x22] @ s @ [CHR 0x22]"

text \<open>The text of \<open>ReplaceWithRecovery\<close>'s \<open>ErrNotFound\<close>.\<close>

definition merge_error :: "delivery \<Rightarrow> string" where
  "merge_error d = ''replace with recovery '' @ itoa (d_ID d) @ '': store: not found: no pending recovery''"

text \<open>From the quiet hours on: the message \<open>a\<close> is what maintenance left of the alert.\<close>

definition attempt_send :: "answers \<Rightarrow> delivery \<Rightarrow> channel \<Rightarrow> alert \<Rightarrow> worker \<Rightarrow> worker" where
  "attempt_send e d ch a w =
     (let (handled, s) = applyQuietHours e d (sw_db w) in
      if handled then w\<lparr>sw_db := s\<rparr>
      else case mergeEarlier e d a s of
        MergeFailed err \<Rightarrow> w\<lparr>sw_db := retryMaintenance e d (merge_error d) s\<rparr>
      | Merged s' ids \<Rightarrow> w\<lparr>sw_db := s', sw_rewritten := sw_rewritten w \<union> ids\<rparr>
      | NothingToMerge \<Rightarrow>
          let reason = an_withhold e d a in
          if reason \<noteq> [] then w\<lparr>sw_db := WithholdDelivery (an_now e) (d_ID d) reason s\<rparr>
          else send_outcome e d ch a (w\<lparr>sw_db := s\<rparr>))"

definition attempt_alert :: "answers \<Rightarrow> delivery \<Rightarrow> channel \<Rightarrow> alert \<Rightarrow> worker \<Rightarrow> worker" where
  "attempt_alert e d ch a0 w =
     (let (a, keep, held) = filterMaintenance e (sw_db w) a0 (d_ChannelID d) in
      case FilterMaintenanceDelivery (an_now e) d (Encoded a) keep held (sw_db w) of
        None \<Rightarrow> w\<lparr>sw_db := retryMaintenance e d (an_writeError e) (sw_db w)\<rparr>
      | Some s \<Rightarrow>
          if \<not> keep then w\<lparr>sw_db := s\<rparr> else attempt_send e d ch a (w\<lparr>sw_db := s\<rparr>))"

definition attempt :: "answers \<Rightarrow> delivery \<Rightarrow> worker \<Rightarrow> worker" where
  "attempt e d w =
     (if d_ID d \<in> sw_rewritten w then w
      else if d_QuietHeld d \<and> \<not> StillHeld (d_ID d) (sw_db w) then w
      else case an_channel e (d_ChannelID d) of
        None \<Rightarrow> fail e d (''channel '' @ itoa (d_ChannelID d) @ '' no longer exists'') w
      | Some ch \<Rightarrow>
        if \<not> cn_Enabled ch then fail e d ''channel is disabled'' w
        else if \<not> cn_HasSender ch
        then fail e d (''no implementation for channel type '' @ quoted (cn_Type ch)) w
        else case DecodeAlert (d_Payload d) of
          None \<Rightarrow> fail e d (''stored alert could not be read: '' @ an_decodeError e (d_Payload d)) w
        | Some a \<Rightarrow> attempt_alert e d ch a w)"

text \<open>Attempt \<open>k\<close> of the sweep has the answers \<open>es k\<close>, so time goes on and the rest of the program too.\<close>

definition attempts :: "(nat \<Rightarrow> answers) \<Rightarrow> (nat \<times> delivery) list \<Rightarrow> worker \<Rightarrow> worker" where
  "attempts es ds w = foldl (\<lambda>w (k, d). attempt (es k) d w) w ds"

definition sweep :: "instant \<Rightarrow> (nat \<Rightarrow> answers) \<Rightarrow> int \<Rightarrow> worker \<Rightarrow> worker" where
  "sweep now es batch w =
     attempts es (enumerate 0 (DueDeliveries now batch (sw_db w))) (w\<lparr>sw_rewritten := {}\<rparr>)"

end
