(* ===== verification/OutboxProps.thy ===== *)
theory OutboxProps
  imports Outbox
begin

text \<open>
  Facts on the tables: a row is found by its id, updates keep ids and touch the rows they name, and what
  a transaction that queues batches writes.
\<close>

section \<open>Rows by id\<close>

definition row_ids :: "database \<Rightarrow> int list" where
  "row_ids s = map d_ID (db_rows s)"

definition keys_ok :: "database \<Rightarrow> bool" where
  "keys_ok s \<longleftrightarrow> distinct (row_ids s) \<and> (\<forall>r\<in>set (db_rows s). d_ID r < db_nextID s)"

named_theorems row_ops \<open>updates that keep the ids of the rows\<close>

lemma GetDelivery_update:
  assumes "\<And>r. d_ID (f r) = d_ID r"
  shows "GetDelivery i (update_rows P f s) =
    map_option (\<lambda>r. if P r then f r else r) (GetDelivery i s)"
proof -
  have "find (\<lambda>r. d_ID r = i) (map (\<lambda>r. if P r then f r else r) xs) =
      map_option (\<lambda>r. if P r then f r else r) (find (\<lambda>r. d_ID r = i) xs)" for xs
    using assms by (induction xs) auto
  then show ?thesis by (simp add: GetDelivery_def update_rows_def)
qed

lemma GetDelivery_Some: "GetDelivery i s = Some r \<Longrightarrow> r \<in> set (db_rows s) \<and> d_ID r = i"
  by (auto simp: GetDelivery_def find_Some_iff)

lemma GetDelivery_mem:
  assumes "distinct (row_ids s)" "r \<in> set (db_rows s)"
  shows "GetDelivery (d_ID r) s = Some r"
proof -
  have "distinct (map d_ID xs) \<Longrightarrow> r \<in> set xs \<Longrightarrow> find (\<lambda>x. d_ID x = d_ID r) xs = Some r" for xs
    by (induction xs) (auto simp: rev_image_eqI)
  then show ?thesis using assms by (simp add: GetDelivery_def row_ids_def)
qed

lemma mem_iff_GetDelivery:
  "distinct (row_ids s) \<Longrightarrow> r \<in> set (db_rows s) \<longleftrightarrow> GetDelivery (d_ID r) s = Some r"
  using GetDelivery_mem GetDelivery_Some by blast

lemma row_ids_update [simp]:
  assumes "\<And>r. d_ID (f r) = d_ID r" shows "row_ids (update_rows P f s) = row_ids s"
  using assms by (simp add: row_ids_def update_rows_def)

lemma update_rows_rest [simp]:
  "db_nextID (update_rows P f s) = db_nextID s" "db_held (update_rows P f s) = db_held s"
  "db_channels (update_rows P f s) = db_channels s"
  "db_monitors (update_rows P f s) = db_monitors s" "db_incidents (update_rows P f s) = db_incidents s"
  "db_failures (update_rows P f s) = db_failures s" "db_maintAlerts (update_rows P f s) = db_maintAlerts s"
  "db_nextHeld (update_rows P f s) = db_nextHeld s"
  "db_nextIncident (update_rows P f s) = db_nextIncident s"
  by (simp_all add: update_rows_def)

lemma GetDelivery_cong: "db_rows s = db_rows t \<Longrightarrow> GetDelivery i s = GetDelivery i t"
  by (simp add: GetDelivery_def)

section \<open>Queueing batches\<close>

definition speaker :: "database \<Rightarrow> delivery \<Rightarrow> int option" where
  "speaker s d = (if d_MonitorID d \<in> db_monitors s then Some (d_MonitorID d)
     else find (\<lambda>i. i \<in> db_monitors s) (payload_monitors (d_Payload d)))"

text \<open>What becomes of one batch, given the tables before the transaction.\<close>

definition refusal :: "database \<Rightarrow> batchWrite \<Rightarrow> queue_error option" where
  "refusal s w =
     (if d_ChannelID (bw_Delivery w) \<notin> db_channels s then Some ErrUnknownChannel
      else if speaker s (bw_Delivery w) = None then Some ErrNotFound else None)"

text \<open>The row says what the batch said, to the same channel, and waits with all its attempts.\<close>

definition row_for :: "database \<Rightarrow> instant \<Rightarrow> batchWrite \<Rightarrow> delivery \<Rightarrow> bool" where
  "row_for s clock w r \<longleftrightarrow>
     d_ChannelID r = d_ChannelID (bw_Delivery w) \<and> d_Payload r = d_Payload (bw_Delivery w) \<and>
     d_Event r = d_Event (bw_Delivery w) \<and> Some (d_MonitorID r) = speaker s (bw_Delivery w) \<and>
     waiting r \<and> \<not> d_QuietHeld r \<and> d_Attempts r = 0 \<and> d_CreatedAt r = to_second clock \<and>
     (d_IncidentID r = 0 \<or> incident_exists (d_IncidentID r) s)"

lemma enqueueDelivery_cases:
  "(\<exists>err. enqueueDelivery clock (bw_Delivery w) s = Inl err \<and> refusal s w = Some err) \<or>
   (\<exists>row. enqueueDelivery clock (bw_Delivery w) s =
        Inr (row, s\<lparr>db_rows := db_rows s @ [row], db_nextID := db_nextID s + 1\<rparr>) \<and>
      refusal s w = None \<and> row_for s clock w row \<and> d_ID row = db_nextID s)"
proof (cases "d_ChannelID (bw_Delivery w) \<in> db_channels s")
  case True
  show ?thesis
  proof (cases "speaker s (bw_Delivery w)")
    case None
    then show ?thesis using True
      by (auto simp: enqueueDelivery_def refusal_def speaker_def Let_def split: if_splits)
  next
    case (Some m)
    have inc: "(case find (\<lambda>i. incident_exists i s) xs of None \<Rightarrow> 0 | Some i \<Rightarrow> i) = 0 \<or>
        incident_exists (case find (\<lambda>i. incident_exists i s) xs of None \<Rightarrow> 0 | Some i \<Rightarrow> i) s" for xs
      by (auto simp: find_Some_iff split: option.splits)
    show ?thesis using True Some inc
      unfolding enqueueDelivery_def refusal_def speaker_def [symmetric] Let_def
      by (intro disjI2) (simp add: row_for_def waiting_def)
  qed
qed (simp add: enqueueDelivery_def refusal_def Let_def)

definition same_tables :: "database \<Rightarrow> database \<Rightarrow> bool" where
  "same_tables s t \<longleftrightarrow> db_channels s = db_channels t \<and> db_monitors s = db_monitors t \<and>
     db_incidents s = db_incidents t"

lemma refusal_cong:
  assumes "same_tables s t"
  shows "refusal s = refusal t" "row_for s = row_for t"
  using assms by (auto simp: refusal_def row_for_def speaker_def same_tables_def incident_exists_def fun_eq_iff)

lemma write_batches_spec:
  assumes "write_batches clock ws s = (es, s')"
  shows "es = map (refusal s) ws \<and>
    (\<exists>rows. db_rows s' = db_rows s @ rows \<and>
       list_all2 (row_for s clock) (filter (\<lambda>w. refusal s w = None) ws) rows \<and>
       map d_ID rows = map (\<lambda>k. db_nextID s + int k) [0..<length rows] \<and>
       db_nextID s' = db_nextID s + int (length rows)) \<and>
    db_held s' = filter (\<lambda>h. \<forall>w\<in>set ws. refusal s w = None \<longrightarrow> h_ID h \<notin> set (bw_Held w)) (db_held s) \<and>
    same_tables s' s"
  using assms
proof (induction ws arbitrary: s es s')
  case (Cons w ws)
  from enqueueDelivery_cases [of clock w s] show ?case
  proof
    assume "\<exists>err. enqueueDelivery clock (bw_Delivery w) s = Inl err \<and> refusal s w = Some err"
    then obtain err where e: "enqueueDelivery clock (bw_Delivery w) s = Inl err" "refusal s w = Some err" by blast
    obtain es1 s1 where r: "write_batches clock ws s = (es1, s1)" by (meson surj_pair)
    have eq: "es = Some err # es1" "s' = s1" using Cons.prems e r by simp_all
    show ?thesis using Cons.IH [OF r] by (simp add: eq e)
  next
    assume "\<exists>row. enqueueDelivery clock (bw_Delivery w) s =
        Inr (row, s\<lparr>db_rows := db_rows s @ [row], db_nextID := db_nextID s + 1\<rparr>) \<and>
      refusal s w = None \<and> row_for s clock w row \<and> d_ID row = db_nextID s"
    then obtain row where e: "enqueueDelivery clock (bw_Delivery w) s =
        Inr (row, s\<lparr>db_rows := db_rows s @ [row], db_nextID := db_nextID s + 1\<rparr>)"
      "refusal s w = None" "row_for s clock w row" "d_ID row = db_nextID s" by blast
    let ?t = "delete_held (bw_Held w) (s\<lparr>db_rows := db_rows s @ [row], db_nextID := db_nextID s + 1\<rparr>)"
    obtain es1 s1 where r: "write_batches clock ws ?t = (es1, s1)" by (meson surj_pair)
    have eq: "es = None # es1" "s' = s1" using Cons.prems e r by simp_all
    have st: "same_tables ?t s" by (simp add: same_tables_def delete_held_def)
    note IH = Cons.IH [OF r, unfolded refusal_cong [OF st]]
    then obtain rows where rows: "db_rows s1 = db_rows ?t @ rows"
       "list_all2 (row_for s clock) (filter (\<lambda>w. refusal s w = None) ws) rows"
       "map d_ID rows = map (\<lambda>k. db_nextID ?t + int k) [0..<length rows]"
       "db_nextID s1 = db_nextID ?t + int (length rows)" by blast
    have "map d_ID (row # rows) = map (\<lambda>k. db_nextID s + int k) [0..<length (row # rows)]"
      using rows(3) e(4) unfolding delete_held_def
      by (simp add: upt_conv_Cons map_Suc_upt [symmetric] o_def algebra_simps del: upt_Suc)
    moreover have "db_rows s1 = db_rows s @ row # rows" using rows(1) by (simp add: delete_held_def)
    moreover have "db_nextID s1 = db_nextID s + int (length (row # rows))"
      using rows(4) by (simp add: delete_held_def)
    moreover have "list_all2 (row_for s clock) (filter (\<lambda>w. refusal s w = None) (w # ws)) (row # rows)"
      using rows(2) e by simp
    moreover have "db_held s1 = filter (\<lambda>h. \<forall>x\<in>set (w # ws). refusal s x = None \<longrightarrow> h_ID h \<notin> set (bw_Held x)) (db_held s)"
      using IH e(2) by (auto simp: delete_held_def filter_filter conj_commute intro!: filter_cong)
    ultimately show ?thesis
      using IH e(2) st by (auto simp: eq same_tables_def delete_held_def)
  qed
qed (simp add: same_tables_def)

text \<open>
  C36: \<open>EnqueueBatches\<close> moves exactly the batches it accepts. A batch is refused when its channel is gone
  (\<open>ErrUnknownChannel\<close>) or every monitor it speaks for is (\<open>ErrNotFound\<close>), whatever else is in the
  transaction; for every other one a row is appended, in the order given and with consecutive ids, that
  says what the batch said to the channel it was for, filed under a monitor that exists, waiting, with no
  attempt charged. The held copies of the accepted batches are gone and every other one stays, and
  the incidents named are no longer owed and every other one still is.
\<close>

theorem EnqueueBatches_moves_exactly_what_it_accepts:
  assumes "EnqueueBatches clock ws owed s = (es, s')"
  shows "es = map (refusal s) ws \<and>
    (\<exists>rows. db_rows s' = db_rows s @ rows \<and>
       list_all2 (row_for s clock) (filter (\<lambda>w. refusal s w = None) ws) rows \<and>
       map d_ID rows = map (\<lambda>k. db_nextID s + int k) [0..<length rows]) \<and>
    db_held s' = filter (\<lambda>h. \<forall>w\<in>set ws. refusal s w = None \<longrightarrow> h_ID h \<notin> set (bw_Held w)) (db_held s) \<and>
    db_incidents s' =
      map (\<lambda>x. if i_ID x \<noteq> 0 \<and> i_ID x \<in> set owed then x\<lparr>i_AlertOwed := False\<rparr> else x) (db_incidents s)"
proof -
  obtain s1 where w: "write_batches clock ws s = (es, s1)" and s': "s' = clearAlertOwed owed s1"
    using assms by (auto simp: EnqueueBatches_def split: prod.splits)
  have "db_rows s' = db_rows s1" "db_held s' = db_held s1"
    "db_incidents s' =
      map (\<lambda>x. if i_ID x \<noteq> 0 \<and> i_ID x \<in> set owed then x\<lparr>i_AlertOwed := False\<rparr> else x) (db_incidents s1)"
    by (simp_all add: s' clearAlertOwed_def update_incidents_def)
  then show ?thesis using write_batches_spec [OF w] by (auto simp: same_tables_def)
qed

text \<open>A channel \<open>1\<close>, two monitors, and the copies of three alerts held; channel \<open>2\<close> was deleted.\<close>

definition example_incident :: "int \<Rightarrow> int \<Rightarrow> incident" where
  "example_incident i m = \<lparr>i_ID = i, i_MonitorID = m, i_StartedAt = 0, i_ConfirmedAt = Some 0, i_ResolvedAt = None,
     i_AckedAt = None, i_Cause = [], i_LastError = [], i_RemindedAt = None, i_ReminderCount = 0,
     i_MaintenancePending = False, i_Notice = False, i_AlertOwed = True\<rparr>"

definition example_tables :: database where
  "example_tables = \<lparr>db_rows = [], db_nextID = 7, db_held = [], db_nextHeld = 1, db_monitors = {10, 11},
     db_channels = {1}, db_incidents = [example_incident 100 10, example_incident 101 11],
     db_nextIncident = 102, db_maintAlerts = [], db_failures = Map.empty, db_heartbeats = [],
     db_unknown = Map.empty\<rparr>"

definition example_held :: "int \<Rightarrow> int \<Rightarrow> heldAlert" where
  "example_held i ch = \<lparr>h_ID = i, h_ChannelID = ch, h_MonitorID = 10, h_Payload = NotJSON [], h_Due = 0,
     h_Created = 0\<rparr>"

definition example_delivery :: "int \<Rightarrow> int \<Rightarrow> alert \<Rightarrow> delivery" where
  "example_delivery i ch a = \<lparr>d_ID = i, d_ChannelID = ch, d_MonitorID = 10, d_IncidentID = 100,
     d_Event = ''incident_confirmed'', d_Payload = Encoded a, d_Status = OutboxPending, d_Attempts = 0,
     d_LastError = [], d_QuietHeld = False, d_Suppressed = False, d_NextAttemptAt = 0,
     d_CreatedAt = 0, d_UpdatedAt = 0\<rparr>"

definition example_alert :: "int \<Rightarrow> event \<Rightarrow> alert" where
  "example_alert inc ev = Alert [] (zero_data\<lparr>a_MonitorID := 10, a_IncidentID := inc,
     a_Event := event_string ev\<rparr>)"

definition example_writes :: "batchWrite list" where
  "example_writes =
     [\<lparr>bw_Delivery = example_delivery 0 2 (example_alert 100 EventIncidentConfirmed), bw_Held = [5]\<rparr>,
      \<lparr>bw_Delivery = example_delivery 0 1 (example_alert 100 EventIncidentConfirmed), bw_Held = [6]\<rparr>]"

theorem EnqueueBatches_moves_exactly_what_it_accepts_witness:
  defines "s \<equiv> example_tables\<lparr>db_held := [example_held 5 2, example_held 6 1, example_held 7 1]\<rparr>"
  shows "fst (EnqueueBatches 0 example_writes [100] s) = [Some ErrUnknownChannel, None] \<and>
    db_held (snd (EnqueueBatches 0 example_writes [100] s)) = [example_held 5 2, example_held 7 1] \<and>
    map i_AlertOwed (db_incidents (snd (EnqueueBatches 0 example_writes [100] s))) = [False, True]"
proof -
  let ?w = example_writes
  have refs: "map (refusal s) ?w = [Some ErrUnknownChannel, None]"
    by (simp add: s_def example_writes_def example_tables_def example_delivery_def refusal_def speaker_def)
  then have kept: "(\<forall>w\<in>set ?w. refusal s w = None \<longrightarrow> x \<notin> set (bw_Held w)) \<longleftrightarrow> x \<noteq> 6" for x
    by (auto simp: example_writes_def)
  have f: "filter (\<lambda>h. \<forall>w\<in>set ?w. refusal s w = None \<longrightarrow> h_ID h \<notin> set (bw_Held w)) (db_held s) =
     [example_held 5 2, example_held 7 1]"
    unfolding kept by (simp add: s_def example_held_def)
  have o': "map (\<lambda>x. if i_ID x \<noteq> 0 \<and> i_ID x \<in> set [100] then x\<lparr>i_AlertOwed := False\<rparr> else x) (db_incidents s) =
     [example_incident 100 10\<lparr>i_AlertOwed := False\<rparr>, example_incident 101 11]"
    by (simp add: s_def example_tables_def) (simp add: example_incident_def)
  have "map i_AlertOwed [example_incident 100 10\<lparr>i_AlertOwed := False\<rparr>, example_incident 101 11] = [False, True]"
    by (simp add: example_incident_def)
  then show ?thesis
    using EnqueueBatches_moves_exactly_what_it_accepts [OF prod.collapse [symmetric], of 0 ?w "[100]" s]
    unfolding f o' refs by metis
qed

end
