(* ===== verification/MergeProps.thy ===== *)
theory MergeProps
  imports Delivery OutboxProps
begin

text \<open>
  A channel hears about an outage in the order it happened: what \<open>mergeEarlier\<close> of
  \<open>internal/notifier/order.go\<close> leaves behind, and what the morning's digest makes of the rows held for
  quiet hours.
\<close>

section \<open>Leaves\<close>

lemma alertLeaves_leaf: "l \<in> set (alertLeaves a) \<Longrightarrow> Members l = []"
  by (induction a rule: alertLeaves.induct) (auto split: if_splits)

lemma alertLeaves_self: "Members l = [] \<Longrightarrow> alertLeaves l = [l]"
  by (cases l) simp

lemma news_of_leaves:
  assumes "\<forall>l\<in>set ls. Members l = []" shows "news ls = mset ls"
  using assms by (induction ls) (auto simp: alertLeaves_self)

section \<open>Which rows a merge rewrites\<close>

definition earlier_row :: "delivery \<Rightarrow> delivery \<Rightarrow> bool" where
  "earlier_row d r \<longleftrightarrow> d_ChannelID r = d_ChannelID d \<and> d_ID r < d_ID d \<and> waiting r"

text \<open>What a row still has to report down of the incidents \<open>up\<close>, and what else it says.\<close>

definition stale_news :: "int set \<Rightarrow> delivery \<Rightarrow> alert list" where
  "stale_news up r = (case DecodeAlert (d_Payload r) of None \<Rightarrow> [] | Some b \<Rightarrow> filter (superseded up) (alertLeaves b))"

definition other_news :: "int set \<Rightarrow> delivery \<Rightarrow> alert list" where
  "other_news up r = (case DecodeAlert (d_Payload r) of None \<Rightarrow> [] | Some b \<Rightarrow> filter (\<lambda>l. \<not> superseded up l) (alertLeaves b))"

lemma PendingBefore_iff: "r \<in> set (PendingBefore (d_ChannelID d) (d_ID d) s) \<longleftrightarrow> r \<in> set (db_rows s) \<and> earlier_row d r"
  by (auto simp: PendingBefore_def earlier_row_def)

lemma replaced_row_None: "replaced_row up r = None \<longleftrightarrow> stale_news up r = []"
proof (cases "DecodeAlert (d_Payload r)")
  case (Some b)
  have "filter (\<lambda>l. \<not> superseded up l) (alertLeaves b) = alertLeaves b \<longleftrightarrow>
        (\<forall>l\<in>set (alertLeaves b). \<not> superseded up l)"
    by (metis filter_True filter_id_conv)
  then show ?thesis using Some by (auto simp: replaced_row_def stale_news_def Let_def filter_empty_conv)
qed (simp add: replaced_row_def stale_news_def)

lemma replaced_row_Some:
  assumes "replaced_row up r = Some x"
  shows "rp_ID x = d_ID r"
    and "other_news up r = [] \<Longrightarrow> rp_Payload x = None"
    and "other_news up r \<noteq> [] \<Longrightarrow>
      \<exists>b. rp_Payload x = Some (Encoded b) \<and> mset (alertLeaves b) = mset (other_news up r)"
proof -
  obtain b where b: "DecodeAlert (d_Payload r) = Some b"
    using assms by (cases "DecodeAlert (d_Payload r)") (simp_all add: replaced_row_def)
  let ?kept = "other_news up r"
  have leaves: "news ?kept = mset ?kept"
    by (rule news_of_leaves) (auto simp: other_news_def b dest: alertLeaves_leaf)
  have x: "x = \<lparr>rp_ID = d_ID r, rp_Payload =
            (if ?kept = [] then None
             else if a_Digest (a_data b)
             then Some (Encoded (BuildDigest ?kept (a_DigestZone (a_data b)) (a_At (a_data b))))
             else map_option Encoded (Summarise ?kept))\<rparr>"
    using assms b by (auto simp: replaced_row_def other_news_def Let_def split: if_splits)
  show "rp_ID x = d_ID r" by (simp add: x)
  show "?kept = [] \<Longrightarrow> rp_Payload x = None" by (simp add: x)
  show "\<exists>b. rp_Payload x = Some (Encoded b) \<and> mset (alertLeaves b) = mset ?kept" if "?kept \<noteq> []"
  proof (cases "a_Digest (a_data b)")
    case True
    then show ?thesis using that BuildDigest_news [OF that] leaves by (simp add: x)
  next
    case False
    have "\<exists>c. Summarise ?kept = Some c" using that by (rule Summarise_some)
    then obtain c where "Summarise ?kept = Some c" by blast
    then show ?thesis using that False Summarise_news leaves by (simp add: x)
  qed
qed

section \<open>The transaction\<close>

definition replaced_effect :: "instant \<Rightarrow> int \<Rightarrow> replaced \<Rightarrow> delivery \<Rightarrow> delivery" where
  "replaced_effect clock recovery x r =
     (if \<not> waiting r then r
      else case rp_Payload x of
        Some pl \<Rightarrow> r\<lparr>d_Payload := pl, d_UpdatedAt := to_second clock\<rparr>
      | None \<Rightarrow> r\<lparr>d_Suppressed := True, d_LastError := replacedByRecovery @ itoa recovery @
              '': the monitor was back up before this alert went out'', d_UpdatedAt := to_second clock\<rparr>)"

lemma replace_row_GetDelivery:
  "GetDelivery i (replace_row clock recovery x s) =
     map_option (\<lambda>r. if i = rp_ID x then replaced_effect clock recovery x r else r) (GetDelivery i s)"
proof -
  have "GetDelivery i (replace_row clock recovery x s) =
     map_option (\<lambda>r. if is_pending (rp_ID x) r \<and> \<not> d_Suppressed r then
        (case rp_Payload x of
          Some pl \<Rightarrow> (\<lambda>x. x\<lparr>d_Payload := pl, d_UpdatedAt := to_second clock\<rparr>)
        | None \<Rightarrow> (\<lambda>x. x\<lparr>d_Suppressed := True,
            d_LastError := replacedByRecovery @ itoa recovery @
              '': the monitor was back up before this alert went out'',
            d_UpdatedAt := to_second clock\<rparr>)) r else r) (GetDelivery i s)"
    unfolding replace_row_def by (rule GetDelivery_update) (simp split: option.split)
  also have "\<dots> = map_option (\<lambda>r. if i = rp_ID x then replaced_effect clock recovery x r else r) (GetDelivery i s)"
    by (cases "GetDelivery i s")
       (auto dest: GetDelivery_Some simp: replaced_effect_def is_pending_def waiting_def split: option.split)
  finally show ?thesis .
qed

lemma replace_row_ids [simp]: "row_ids (replace_row clock recovery x s) = row_ids s"
  unfolding replace_row_def by (rule row_ids_update) (simp split: option.split)

lemma replace_rows_GetDelivery:
  assumes "distinct (map rp_ID rs)"
  shows "GetDelivery i (foldl (\<lambda>s r. replace_row clock recovery r s) s rs) =
    (case find (\<lambda>x. rp_ID x = i) rs of None \<Rightarrow> GetDelivery i s
     | Some x \<Rightarrow> map_option (replaced_effect clock recovery x) (GetDelivery i s))"
  using assms
proof (induction rs arbitrary: s)
  case (Cons x rs)
  show ?case
  proof (cases "rp_ID x = i")
    case True
    then have "find (\<lambda>x. rp_ID x = i) rs = None" using Cons.prems by (fastforce simp: find_None_iff image_iff)
    then show ?thesis using Cons True by (simp add: replace_row_GetDelivery)
  next
    case False
    then show ?thesis using Cons by (simp add: replace_row_GetDelivery option.map_ident split: option.split)
  qed
qed simp

lemma replace_rows_ids [simp]: "row_ids (foldl (\<lambda>s r. replace_row clock recovery r s) s rs) = row_ids s"
  by (induction rs arbitrary: s) simp_all

lemma map_filter_find:
  assumes "distinct (map d_ID rows)" "\<And>r x. f r = Some x \<Longrightarrow> rp_ID x = d_ID r"
  shows "distinct (map rp_ID (List.map_filter f rows))"
    and "r \<in> set rows \<Longrightarrow> find (\<lambda>x. rp_ID x = d_ID r) (List.map_filter f rows) = f r"
    and "i \<notin> d_ID ` set rows \<Longrightarrow> find (\<lambda>x. rp_ID x = i) (List.map_filter f rows) = None"
proof -
  have sub: "rp_ID ` set (List.map_filter f xs) \<subseteq> d_ID ` set xs" for xs
    by (induction xs) (auto simp: List.map_filter_simps dest: assms(2) split: option.splits)
  show "distinct (map rp_ID (List.map_filter f rows))" using assms(1)
  proof (induction rows)
    case (Cons r rows)
    have "rp_ID x \<notin> rp_ID ` set (List.map_filter f rows)" if "f r = Some x" for x
      using sub [of rows] Cons.prems assms(2) [OF that] by auto
    then show ?case using Cons by (simp add: List.map_filter_simps split: option.split)
  qed (simp add: List.map_filter_simps)
  show none: "find (\<lambda>x. rp_ID x = i) (List.map_filter f rows) = None" if "i \<notin> d_ID ` set rows" for i rows
    using sub [of rows] that by (auto simp: find_None_iff)
  show "find (\<lambda>x. rp_ID x = d_ID r) (List.map_filter f rows) = f r" if "r \<in> set rows" using assms(1) that
  proof (induction rows)
    case (Cons r' rows)
    show ?case
    proof (cases "r = r'")
      case True
      then have "d_ID r \<notin> d_ID ` set rows" using Cons.prems by auto
      then show ?thesis using none True by (auto simp: List.map_filter_simps dest: assms(2) split: option.split)
    next
      case False
      then have "d_ID r' \<noteq> d_ID r" using Cons.prems by auto
      then show ?thesis using Cons False by (auto simp: List.map_filter_simps dest: assms(2) split: option.split)
    qed
  qed simp
qed


section \<open>The merge\<close>

lemma hd_filter_find: "filter P xs \<noteq> [] \<Longrightarrow> find P xs = Some (hd (filter P xs))"
  by (induction xs) auto

definition merge_origin :: "answers \<Rightarrow> int set \<Rightarrow> delivery \<Rightarrow> database \<Rightarrow> delivery option" where
  "merge_origin e up d s = find (\<lambda>r. stale_news up r \<noteq> []) (PendingBefore (d_ChannelID d) (d_ID d) s)"

lemma mergeEarlier_Nothing:
  assumes "mergeEarlier e d a s = NothingToMerge" "r \<in> set (db_rows s)" "earlier_row d r"
  shows "stale_news (recoveredIncidents a) r = []"
proof (cases "recoveredIncidents a = {}")
  case True
  then show ?thesis by (simp add: stale_news_def superseded_def split: option.split)
next
  case False
  have "r \<in> set (PendingBefore (d_ChannelID d) (d_ID d) s)" using assms(2,3) by (simp add: PendingBefore_iff)
  then show ?thesis
    using assms(1) False
    by (auto simp: mergeEarlier_def Let_def replaced_row_None filter_empty_conv split: if_splits sum.splits)
qed

lemma ReplaceWithRecovery_GetDelivery:
  assumes "ReplaceWithRecovery clock rid pl from' rs s = Inr s'" "distinct (row_ids s)" "distinct (map rp_ID rs)"
    and "rid \<notin> rp_ID ` set rs"
  shows "row_ids s' = row_ids s"
    and "i \<noteq> rid \<Longrightarrow> GetDelivery i s' =
      (case find (\<lambda>x. rp_ID x = i) rs of None \<Rightarrow> GetDelivery i s
       | Some x \<Rightarrow> map_option (replaced_effect clock rid x) (GetDelivery i s))"
    and "\<exists>r. GetDelivery rid s = Some r \<and> d_Status r = OutboxPending \<and> GetDelivery rid s' =
      Some (r\<lparr>d_Payload := pl, d_Attempts := d_Attempts from', d_LastError := d_LastError from',
             d_NextAttemptAt := to_second (d_NextAttemptAt from'), d_UpdatedAt := to_second clock\<rparr>)"
proof -
  let ?f = "\<lambda>x. x\<lparr>d_Payload := pl, d_Attempts := d_Attempts from', d_LastError := d_LastError from',
                d_NextAttemptAt := to_second (d_NextAttemptAt from'), d_UpdatedAt := to_second clock\<rparr>"
  let ?s1 = "update_rows (is_pending rid) ?f s"
  have s': "s' = foldl (\<lambda>s r. replace_row clock rid r s) ?s1 rs" "list_ex (is_pending rid) (db_rows s)"
    using assms(1) by (auto simp: ReplaceWithRecovery_def split: if_splits)
  have g1: "GetDelivery i ?s1 = map_option (\<lambda>r. if is_pending rid r then ?f r else r) (GetDelivery i s)" for i
    by (rule GetDelivery_update) simp
  show "row_ids s' = row_ids s" by (simp add: s'(1))
  show "GetDelivery i s' = (case find (\<lambda>x. rp_ID x = i) rs of None \<Rightarrow> GetDelivery i s
       | Some x \<Rightarrow> map_option (replaced_effect clock rid x) (GetDelivery i s))" if "i \<noteq> rid"
  proof -
    have same: "GetDelivery i ?s1 = GetDelivery i s"
      unfolding g1 using that by (cases "GetDelivery i s") (auto simp: is_pending_def dest: GetDelivery_Some)
    show ?thesis unfolding s'(1) replace_rows_GetDelivery [OF assms(3)] same ..
  qed
  obtain r where r: "r \<in> set (db_rows s)" "is_pending rid r" using s'(2) by (auto simp: list_ex_iff)
  then have g: "GetDelivery rid s = Some r" using GetDelivery_mem [OF assms(2) r(1)] by (simp add: is_pending_def)
  have "find (\<lambda>x. rp_ID x = rid) rs = None" using assms(4) by (auto simp: find_None_iff)
  then have "GetDelivery rid s' = Some (?f r)"
    using g r(2) by (simp add: s'(1) replace_rows_GetDelivery [OF assms(3)] g1)
  then show "\<exists>r. GetDelivery rid s = Some r \<and> d_Status r = OutboxPending \<and> GetDelivery rid s' = Some (?f r)"
    using g r(2) by (auto simp: is_pending_def)
qed

text \<open>What a merge does to the rows other than the recovery's own.\<close>

definition merge_effect :: "answers \<Rightarrow> delivery \<Rightarrow> int set \<Rightarrow> delivery \<Rightarrow> delivery" where
  "merge_effect e d up r =
     (case replaced_row up r of None \<Rightarrow> r | Some x \<Rightarrow> replaced_effect (an_now e) (d_ID d) x r)"

lemma mergeEarlier_rows:
  assumes m: "mergeEarlier e d a s = Merged s' ids" and dist: "distinct (row_ids s)"
  defines "up \<equiv> recoveredIncidents a"
  shows "row_ids s' = row_ids s"
    and "GetDelivery i s = Some r \<Longrightarrow> i \<noteq> d_ID d \<Longrightarrow>
      GetDelivery i s' = Some (if earlier_row d r then merge_effect e d up r else r)"
    and "ids = {d_ID r | r. r \<in> set (db_rows s) \<and> earlier_row d r \<and> stale_news up r \<noteq> []}"
    and "\<exists>r first. GetDelivery (d_ID d) s = Some r \<and> d_Status r = OutboxPending \<and>
      merge_origin e up d s = Some first \<and>
      GetDelivery (d_ID d) s' = Some (r\<lparr>d_Payload := Encoded (markReplaced
            (alerted_incidents up (PendingBefore (d_ChannelID d) (d_ID d) s)) a),
          d_Attempts := d_Attempts first,
          d_LastError := (if d_QuietHeld first then [] else d_LastError first),
          d_NextAttemptAt := to_second (max (an_now e) (d_NextAttemptAt first)),
          d_UpdatedAt := to_second (an_now e)\<rparr>)"
proof -
  let ?earlier = "PendingBefore (d_ChannelID d) (d_ID d) s"
  let ?rs = "List.map_filter (replaced_row up) ?earlier"
  let ?rows = "filter (\<lambda>r. replaced_row up r \<noteq> None) ?earlier"
  let ?first = "hd ?rows"
  let ?from1 = "?first\<lparr>d_NextAttemptAt := (if d_NextAttemptAt ?first < an_now e then an_now e
                                               else d_NextAttemptAt ?first)\<rparr>"
  let ?from = "if d_QuietHeld ?first then ?from1\<lparr>d_LastError := []\<rparr> else ?from1"
  let ?pl = "Encoded (markReplaced (alerted_incidents up ?earlier) a)"
  have ne: "?rows \<noteq> []" and ids: "ids = set (map rp_ID ?rs)"
    and R: "ReplaceWithRecovery (an_now e) (d_ID d) ?pl ?from ?rs s = Inr s'"
    using m unfolding mergeEarlier_def Let_def up_def [symmetric]
    by (auto split: if_splits sum.splits)
  have de: "distinct (map d_ID ?earlier)"
    using dist by (simp add: PendingBefore_def row_ids_def distinct_map_filter)
  have rp: "\<And>r x. replaced_row up r = Some x \<Longrightarrow> rp_ID x = d_ID r" by (rule replaced_row_Some(1))
  have mf1: "distinct (map rp_ID ?rs)" using de rp by (rule map_filter_find(1))
  have mf2: "r \<in> set ?earlier \<Longrightarrow> find (\<lambda>x. rp_ID x = d_ID r) ?rs = replaced_row up r" for r
    using de rp by (rule map_filter_find(2))
  have mf3: "i \<notin> d_ID ` set ?earlier \<Longrightarrow> find (\<lambda>x. rp_ID x = i) ?rs = None" for i
    using de rp by (rule map_filter_find(3))
  have idrs: "rp_ID ` set ?rs = d_ID ` {r \<in> set ?earlier. replaced_row up r \<noteq> None}"
  proof -
    have "set ?rs = (\<lambda>r. the (replaced_row up r)) ` {r \<in> set ?earlier. replaced_row up r \<noteq> None}"
      by (simp add: List.map_filter_def)
    also have "rp_ID ` \<dots> = d_ID ` {r \<in> set ?earlier. replaced_row up r \<noteq> None}"
      unfolding image_image by (rule image_cong) (auto dest: replaced_row_Some(1))
    finally show ?thesis .
  qed
  have notin: "d_ID d \<notin> rp_ID ` set ?rs"
    unfolding idrs by (auto simp: PendingBefore_iff earlier_row_def)
  note G = ReplaceWithRecovery_GetDelivery [OF R dist mf1 notin]
  show "row_ids s' = row_ids s" by (rule G(1))
  show "ids = {d_ID r | r. r \<in> set (db_rows s) \<and> earlier_row d r \<and> stale_news up r \<noteq> []}"
    unfolding ids set_map idrs by (auto simp: PendingBefore_iff replaced_row_None)
  show "GetDelivery i s' = Some (if earlier_row d r then merge_effect e d up r else r)"
    if g: "GetDelivery i s = Some r" and i: "i \<noteq> d_ID d"
  proof (cases "earlier_row d r")
    case True
    then have "r \<in> set ?earlier" using g by (auto simp: PendingBefore_iff dest: GetDelivery_Some)
    then have "find (\<lambda>x. rp_ID x = i) ?rs = replaced_row up r" using mf2 g by (auto dest: GetDelivery_Some)
    then show ?thesis using G(2) [OF i] True g by (simp add: merge_effect_def split: option.split)
  next
    case False
    have "i \<notin> d_ID ` set ?earlier"
    proof
      assume "i \<in> d_ID ` set ?earlier"
      then obtain x where x: "x \<in> set (db_rows s)" "earlier_row d x" "d_ID x = i" by (auto simp: PendingBefore_iff)
      then show False using GetDelivery_mem [OF dist x(1)] g False by simp
    qed
    then show ?thesis using mf3 G(2) [OF i] False g by simp
  qed
  have "find (\<lambda>r. stale_news up r \<noteq> []) ?earlier = Some ?first"
    using hd_filter_find [OF ne] by (simp add: replaced_row_None)
  then show "\<exists>r first. GetDelivery (d_ID d) s = Some r \<and> d_Status r = OutboxPending \<and>
      merge_origin e up d s = Some first \<and>
      GetDelivery (d_ID d) s' = Some (r\<lparr>d_Payload := ?pl, d_Attempts := d_Attempts first,
          d_LastError := (if d_QuietHeld first then [] else d_LastError first),
          d_NextAttemptAt := to_second (max (an_now e) (d_NextAttemptAt first)),
          d_UpdatedAt := to_second (an_now e)\<rparr>)"
    using G(3) by (auto simp: merge_origin_def max_def)
qed


section \<open>The recovery's own text\<close>

definition mark_leaf :: "int set \<Rightarrow> alert \<Rightarrow> alert" where
  "mark_leaf up l = Alert [] ((a_data l)\<lparr>a_ReplacesAlert := (a_ReplacesAlert (a_data l) \<or>
     (\<not> Down l \<and> a_IncidentID (a_data l) \<in> up))\<rparr>)"

lemma markReplaced_leaves: "alertLeaves (markReplaced up a) = map (mark_leaf up) (alertLeaves a)"
proof (induction up a rule: markReplaced.induct)
  case (1 up ms d)
  show ?case
  proof (cases "ms = []")
    case False
    have "concat (map (alertLeaves \<circ> markReplaced up) ms) = concat (map (map (mark_leaf up) \<circ> alertLeaves) ms)"
      using 1(1) [OF False] by (intro arg_cong [of _ _ concat] map_cong) simp_all
    then show ?thesis using False by (simp add: Let_def map_concat)
  qed (simp add: mark_leaf_def)
qed

definition leaves_of :: "delivery \<Rightarrow> alert list" where
  "leaves_of r = (case DecodeAlert (d_Payload r) of None \<Rightarrow> [] | Some b \<Rightarrow> alertLeaves b)"

text \<open>What a merge promises for a row that is not the recovery's own.\<close>

definition keeps_news :: "delivery \<Rightarrow> int set \<Rightarrow> delivery \<Rightarrow> delivery \<Rightarrow> bool" where
  "keeps_news d up r r' \<longleftrightarrow>
     (if earlier_row d r \<and> stale_news up r \<noteq> []
      then if other_news up r = []
           then d_Suppressed r' \<and> MergedInto r' = MergedIntoRecovery \<and> d_Payload r' = d_Payload r
           else waiting r' \<and> mset (leaves_of r') = mset (other_news up r) \<and>
                d_NextAttemptAt r' = d_NextAttemptAt r \<and> d_Attempts r' = d_Attempts r
      else r' = r)"

lemma merge_effect_keeps:
  assumes "earlier_row d r"
  shows "keeps_news d up r (merge_effect e d up r)"
    and "waiting (merge_effect e d up r) \<Longrightarrow> stale_news up (merge_effect e d up r) = []"
proof -
  have w: "waiting r" using assms by (simp add: earlier_row_def)
  consider (same) "replaced_row up r = None" "stale_news up r = []"
    | (gone) x where "replaced_row up r = Some x" "rp_Payload x = None" "stale_news up r \<noteq> []" "other_news up r = []"
    | (part) x b where "replaced_row up r = Some x" "rp_Payload x = Some (Encoded b)"
        "mset (alertLeaves b) = mset (other_news up r)" "stale_news up r \<noteq> []" "other_news up r \<noteq> []"
  proof (cases "replaced_row up r")
    case None
    then show ?thesis using same by (simp add: replaced_row_None)
  next
    case (Some x)
    then have st: "stale_news up r \<noteq> []" by (metis option.distinct(1) replaced_row_None)
    show ?thesis
    proof (cases "other_news up r = []")
      case True
      then show ?thesis using gone Some st replaced_row_Some(2) by blast
    next
      case False
      then show ?thesis using part Some st replaced_row_Some(3) by blast
    qed
  qed
  then have "keeps_news d up r (merge_effect e d up r) \<and>
     (waiting (merge_effect e d up r) \<longrightarrow> stale_news up (merge_effect e d up r) = [])"
  proof cases
    case gone
    then show ?thesis using assms w
      by (simp add: keeps_news_def merge_effect_def replaced_effect_def waiting_def MergedInto_def
          has_prefix_def replacedByRecovery_def foldedIntoDigest_def)
  next
    case part
    have "set (alertLeaves b) = set (other_news up r)" using part(3) by (rule mset_eq_setD)
    then have "filter (superseded up) (alertLeaves b) = []"
      by (auto simp: filter_empty_conv other_news_def split: option.splits)
    then show ?thesis using part assms w
      by (simp add: keeps_news_def merge_effect_def replaced_effect_def waiting_def leaves_of_def stale_news_def)
  qed (use assms in \<open>simp add: keeps_news_def merge_effect_def\<close>)
  then show "keeps_news d up r (merge_effect e d up r)"
    and "waiting (merge_effect e d up r) \<Longrightarrow> stale_news up (merge_effect e d up r) = []" by blast+
qed

text \<open>
  C14: a recovery that is about to go out while its alert is still queued replaces it. Afterwards no
  earlier message waiting for the channel reports an incident down that the recovery reports up; a
  message that had nothing else to say is closed, marked as merged into the recovery, and one that had
  keeps exactly its other news, its attempts and its time; every other row is as it was. The recovery's
  row says what it said, marked where its alert never reached the channel, and follows the retries of the
  oldest alert it replaced: its attempts, and its next attempt but no earlier than now.
\<close>

theorem recovery_replaces_the_alerts_before_it:
  assumes "mergeEarlier e d a s = Merged s' ids" "distinct (row_ids s)"
  shows "(\<forall>r\<in>set (db_rows s'). earlier_row d r \<longrightarrow> stale_news (recoveredIncidents a) r = []) \<and>
    (\<forall>r\<in>set (db_rows s). d_ID r \<noteq> d_ID d \<longrightarrow>
       (\<exists>r'. GetDelivery (d_ID r) s' = Some r' \<and> keeps_news d (recoveredIncidents a) r r')) \<and>
    (\<exists>r' first. GetDelivery (d_ID d) s' = Some r' \<and> merge_origin e (recoveredIncidents a) d s = Some first \<and>
       leaves_of r' = map (mark_leaf (alerted_incidents (recoveredIncidents a)
                             (PendingBefore (d_ChannelID d) (d_ID d) s))) (alertLeaves a) \<and>
       d_Attempts r' = d_Attempts first \<and>
       d_NextAttemptAt r' = to_second (max (an_now e) (d_NextAttemptAt first)))"
proof (intro conjI)
  note M = mergeEarlier_rows [OF assms]
  let ?up = "recoveredIncidents a"
  have rows: "\<exists>r'. GetDelivery (d_ID r) s' = Some r' \<and> keeps_news d ?up r r' \<and>
      (earlier_row d r' \<longrightarrow> stale_news ?up r' = [])"
    if "r \<in> set (db_rows s)" "d_ID r \<noteq> d_ID d" for r
  proof -
    note g = M(2) [OF GetDelivery_mem [OF assms(2) that(1)] that(2)]
    show ?thesis
    proof (cases "earlier_row d r")
      case True
      then show ?thesis using g merge_effect_keeps [OF True] by (auto simp: earlier_row_def)
    next
      case False
      then show ?thesis using g by (simp add: keeps_news_def)
    qed
  qed
  show "\<forall>r\<in>set (db_rows s). d_ID r \<noteq> d_ID d \<longrightarrow>
       (\<exists>r'. GetDelivery (d_ID r) s' = Some r' \<and> keeps_news d ?up r r')"
    using rows by blast
  show "\<forall>r\<in>set (db_rows s'). earlier_row d r \<longrightarrow> stale_news ?up r = []"
  proof (intro ballI impI)
    fix r assume r: "r \<in> set (db_rows s')" "earlier_row d r"
    have "d_ID r \<in> set (row_ids s)" using r(1) M(1) by (metis image_eqI row_ids_def set_map)
    then obtain x where x: "x \<in> set (db_rows s)" "d_ID x = d_ID r" by (auto simp: row_ids_def)
    have "GetDelivery (d_ID r) s' = Some r" using GetDelivery_mem r(1) M(1) assms(2) by metis
    then show "stale_news ?up r = []" using rows [OF x(1)] x(2) r(2) by (auto simp: earlier_row_def)
  qed
  show "\<exists>r' first. GetDelivery (d_ID d) s' = Some r' \<and> merge_origin e ?up d s = Some first \<and>
       leaves_of r' = map (mark_leaf (alerted_incidents ?up
                             (PendingBefore (d_ChannelID d) (d_ID d) s))) (alertLeaves a) \<and>
       d_Attempts r' = d_Attempts first \<and>
       d_NextAttemptAt r' = to_second (max (an_now e) (d_NextAttemptAt first))"
    using M(4) by (auto simp: leaves_of_def markReplaced_leaves)
qed

text \<open>The alert of incident 100 and another outage are queued in one message; then 100 recovers.\<close>

definition quiet_answers :: answers where
  "quiet_answers = \<lparr>an_now = seconds 60, an_channel = (\<lambda>_. Some \<lparr>cn_Type = ''slack'', cn_Enabled = True,
     cn_HasSender = True\<rparr>), an_muted = (\<lambda>_. False), an_anyWindow = False, an_quiet = (\<lambda>_. NoQuietHours),
     an_withhold = (\<lambda>_ _. []), an_send = (\<lambda>_ _. Accepted), an_jitter = (\<lambda>_. 0),
     an_decodeError = (\<lambda>_. ''unreadable''), an_writeError = ''locked''\<rparr>"

definition queued_pair :: database where
  "queued_pair = example_tables\<lparr>db_rows :=
     [example_delivery 3 1 (Alert [example_alert 100 EventIncidentConfirmed,
                                   example_alert 101 EventIncidentConfirmed] zero_data),
      example_delivery 5 1 (example_alert 100 EventIncidentResolved)]\<rparr>"

lemma queued_pair_merge:
  "\<exists>s' ids. mergeEarlier quiet_answers (example_delivery 5 1 (example_alert 100 EventIncidentResolved))
     (example_alert 100 EventIncidentResolved) queued_pair = Merged s' ids"
  by (simp add: mergeEarlier_def Let_def queued_pair_def PendingBefore_def example_delivery_def waiting_def
      example_alert_def recoveredIncidents_def Down_def zero_data_def replaced_row_def superseded_def
      List.map_filter_simps ReplaceWithRecovery_def is_pending_def EventLocalNetworkRestored_def
      EventLocalDNSRestored_def example_tables_def)

theorem recovery_replaces_the_alerts_before_it_witness:
  "\<exists>s' ids r'. mergeEarlier quiet_answers (example_delivery 5 1 (example_alert 100 EventIncidentResolved))
     (example_alert 100 EventIncidentResolved) queued_pair = Merged s' ids \<and>
     GetDelivery 3 s' = Some r' \<and> leaves_of r' = [example_alert 101 EventIncidentConfirmed]"
proof -
  let ?d = "example_delivery 5 1 (example_alert 100 EventIncidentResolved)"
  let ?a = "example_alert 100 EventIncidentResolved"
  let ?r = "example_delivery 3 1 (Alert [example_alert 100 EventIncidentConfirmed,
              example_alert 101 EventIncidentConfirmed] zero_data)"
  obtain s' ids where m: "mergeEarlier quiet_answers ?d ?a queued_pair = Merged s' ids"
    using queued_pair_merge by blast
  have ids: "distinct (row_ids queued_pair)"
    by (simp add: row_ids_def queued_pair_def example_delivery_def)
  have mem: "?r \<in> set (db_rows queued_pair)" "d_ID ?r \<noteq> d_ID ?d" "d_ID ?r = 3"
    by (simp_all add: queued_pair_def example_delivery_def)
  have row: "earlier_row ?d ?r" "stale_news (recoveredIncidents ?a) ?r \<noteq> []"
    "other_news (recoveredIncidents ?a) ?r = [example_alert 101 EventIncidentConfirmed]"
    by (simp_all add: earlier_row_def stale_news_def other_news_def example_delivery_def example_alert_def
        waiting_def recoveredIncidents_def Down_def zero_data_def superseded_def
        EventLocalNetworkRestored_def EventLocalDNSRestored_def)
  obtain r' where r': "GetDelivery 3 s' = Some r'" "keeps_news ?d (recoveredIncidents ?a) ?r r'"
    using recovery_replaces_the_alerts_before_it [OF m ids] mem by metis
  have "mset (leaves_of r') = {#example_alert 101 EventIncidentConfirmed#}"
    using r'(2) row by (simp add: keeps_news_def)
  then show ?thesis using m r'(1) by auto
qed

end
