(* ===== verification/SweepProps.thy ===== *)
theory SweepProps
  imports MergeProps
begin

text \<open>
  One sweep of the notifier's worker: which rows an attempt touches, that a message is handed to a sender
  only while its row still says it, and what the end of quiet hours makes of the rows held.
\<close>

section \<open>Rows held for quiet hours\<close>

definition held_row :: "delivery \<Rightarrow> bool" where
  "held_row r \<longleftrightarrow> d_QuietHeld r \<and> waiting r"

lemma StillHeld_iff:
  assumes "distinct (row_ids s)"
  shows "StillHeld i s \<longleftrightarrow> (\<exists>r. GetDelivery i s = Some r \<and> held_row r)"
  using assms by (auto simp: StillHeld_def held_row_def list_ex_iff mem_iff_GetDelivery dest: GetDelivery_Some)

lemma HeldDeliveries_iff:
  "r \<in> set (HeldDeliveries ch s) \<longleftrightarrow> r \<in> set (db_rows s) \<and> d_ChannelID r = ch \<and> held_row r"
  by (auto simp: HeldDeliveries_def held_row_def)

lemma HeldDeliveries_distinct:
  assumes "distinct (row_ids s)"
  shows "distinct (map d_ID (HeldDeliveries ch s))"
  using assms by (simp add: HeldDeliveries_def row_ids_def distinct_map_filter)

section \<open>The morning's digest\<close>

lemma FoldDigest_GetDelivery:
  "GetDelivery i (FoldDigest clock keep ev pl folded due s) =
     map_option (\<lambda>r.
       let r1 = (if i = keep then r\<lparr>d_Payload := pl, d_Event := ev, d_QuietHeld := False,
                   d_NextAttemptAt := to_second due, d_LastError := [], d_UpdatedAt := to_second clock\<rparr> else r)
       in if i \<in> set folded then r1\<lparr>d_Suppressed := True, d_QuietHeld := False,
             d_LastError := foldedIntoDigest @ itoa keep, d_UpdatedAt := to_second clock\<rparr> else r1)
     (GetDelivery i s)"
  unfolding FoldDigest_def
  by (cases "GetDelivery i s") (auto simp: GetDelivery_update Let_def dest: GetDelivery_Some)

lemma FoldDigest_ids [simp]: "row_ids (FoldDigest clock keep ev pl folded due s) = row_ids s"
  unfolding FoldDigest_def by (subst row_ids_update, simp)+ simp

lemma held_alerts_news: "news (held_alerts rows) = (\<Sum>r\<in>#mset rows. mset (leaves_of r))"
proof (induction rows)
  case (Cons r rows)
  have "news (case DecodeAlert (d_Payload r) of None \<Rightarrow> [] | Some a \<Rightarrow> (if Members a \<noteq> [] then Members a else [a]))
      = mset (leaves_of r)"
    by (auto simp: leaves_of_def news_def alertLeaves_group split: option.split)
  then show ?case using Cons by (simp add: held_alerts_def)
qed (simp add: held_alerts_def)

lemma folded_ids_iff:
  assumes "distinct (row_ids s)" "GetDelivery i s = Some r" "i \<noteq> k"
  shows "i \<in> set (folded_ids k (HeldDeliveries ch s)) \<longleftrightarrow>
    d_ChannelID r = ch \<and> held_row r \<and> DecodeAlert (d_Payload r) \<noteq> None"
proof -
  have same: "x = r" if "x \<in> set (HeldDeliveries ch s)" "d_ID x = i" for x
    using GetDelivery_mem [OF assms(1), of x] that assms(2) by (simp add: HeldDeliveries_iff)
  have r: "r \<in> set (db_rows s)" "d_ID r = i" using GetDelivery_Some [OF assms(2)] by auto
  have "i \<in> set (folded_ids k (HeldDeliveries ch s)) \<longleftrightarrow>
     (\<exists>x\<in>set (HeldDeliveries ch s). d_ID x = i \<and> DecodeAlert (d_Payload x) \<noteq> None)"
    using assms(3) unfolding folded_ids_def by force
  also have "\<dots> \<longleftrightarrow> r \<in> set (HeldDeliveries ch s) \<and> DecodeAlert (d_Payload r) \<noteq> None"
    using same r(2) by blast
  finally show ?thesis using r(1) by (simp add: HeldDeliveries_iff)
qed

lemma folded_ids_self: "k \<notin> set (folded_ids k rows)"
  by (auto simp: folded_ids_def)

lemma foldHeld_FoldDigest:
  "\<exists>ev pl. foldHeld e d zone s = FoldDigest (an_now e) (d_ID d) ev pl
     (folded_ids (d_ID d) (HeldDeliveries (d_ChannelID d) s)) (an_now e) s"
proof -
  let ?held = "HeldDeliveries (d_ChannelID d) s"
  have self: "d_ID (case find (\<lambda>r. d_ID r = d_ID d) ?held of None \<Rightarrow> d | Some h \<Rightarrow> h) = d_ID d"
    by (auto simp: find_Some_iff split: option.split)
  show ?thesis
    unfolding foldHeld_def Let_def self by (cases "folded_ids (d_ID d) ?held = []") auto
qed

text \<open>What folding does to the rows beside the one that carries the digest.\<close>

definition folded_away :: "delivery \<Rightarrow> delivery \<Rightarrow> bool" where
  "folded_away r r' \<longleftrightarrow> d_Suppressed r' \<and> \<not> d_QuietHeld r' \<and> MergedInto r' = MergedIntoDigest \<and>
     d_Payload r' = d_Payload r"

lemma foldHeld_others:
  assumes "distinct (row_ids s)" "GetDelivery i s = Some r" "i \<noteq> d_ID d"
  shows "\<exists>r'. GetDelivery i (foldHeld e d zone s) = Some r' \<and>
    (if d_ChannelID r = d_ChannelID d \<and> held_row r \<and> DecodeAlert (d_Payload r) \<noteq> None
     then folded_away r r' else r' = r)"
proof -
  let ?folded = "folded_ids (d_ID d) (HeldDeliveries (d_ChannelID d) s)"
  obtain ev pl where f: "foldHeld e d zone s = FoldDigest (an_now e) (d_ID d) ev pl ?folded (an_now e) s"
    using foldHeld_FoldDigest by blast
  show ?thesis
  proof (cases "i \<in> set ?folded")
    case True
    let ?r = "r\<lparr>d_Suppressed := True, d_QuietHeld := False,
       d_LastError := foldedIntoDigest @ itoa (d_ID d), d_UpdatedAt := to_second (an_now e)\<rparr>"
    have "GetDelivery i (foldHeld e d zone s) = Some ?r"
      unfolding f FoldDigest_GetDelivery using True assms(2,3) by simp
    moreover have "folded_away r ?r" by (simp add: folded_away_def MergedInto_def has_prefix_def)
    ultimately show ?thesis using True folded_ids_iff [OF assms] by auto
  next
    case False
    have "GetDelivery i (foldHeld e d zone s) = Some r"
      unfolding f FoldDigest_GetDelivery using False assms(2,3) by simp
    then show ?thesis using False folded_ids_iff [OF assms] by auto
  qed
qed

lemma foldHeld_ids [simp]: "row_ids (foldHeld e d zone s) = row_ids s"
  by (simp add: foldHeld_def Let_def)

text \<open>
  C38: when a channel's quiet hours end, everything held for it becomes one message and nothing is lost.
  The row that carries it is due now, no longer held, and says exactly the news of every held message
  of the channel that can be read, each piece once; every other one of those is closed, marked as merged
  into the digest. A held message that cannot be read, and every row of another channel or not held, is
  as it was.
\<close>

theorem morning_digest_carries_everything_held:
  assumes "distinct (row_ids s)" "GetDelivery (d_ID d) s = Some r" "held_row r"
    and "d_ChannelID r = d_ChannelID d" "DecodeAlert (d_Payload r) \<noteq> None"
  shows "(\<exists>r'. GetDelivery (d_ID d) (foldHeld e d zone s) = Some r' \<and> waiting r' \<and> \<not> d_QuietHeld r' \<and>
       d_NextAttemptAt r' = to_second (an_now e) \<and> d_Attempts r' = d_Attempts r \<and>
       mset (leaves_of r') = (\<Sum>h\<in>#mset (HeldDeliveries (d_ChannelID d) s). mset (leaves_of h))) \<and>
    (\<forall>x\<in>set (db_rows s). d_ID x \<noteq> d_ID d \<longrightarrow>
       (\<exists>x'. GetDelivery (d_ID x) (foldHeld e d zone s) = Some x' \<and>
         (if d_ChannelID x = d_ChannelID d \<and> held_row x \<and> DecodeAlert (d_Payload x) \<noteq> None
          then folded_away x x'
          else x' = x)))"
proof (intro conjI ballI impI)
  fix x assume x: "x \<in> set (db_rows s)" "d_ID x \<noteq> d_ID d"
  show "\<exists>x'. GetDelivery (d_ID x) (foldHeld e d zone s) = Some x' \<and>
         (if d_ChannelID x = d_ChannelID d \<and> held_row x \<and> DecodeAlert (d_Payload x) \<noteq> None
          then folded_away x x'
          else x' = x)"
    by (rule foldHeld_others [OF assms(1) GetDelivery_mem [OF assms(1) x(1)] x(2)])
next
  let ?held = "HeldDeliveries (d_ChannelID d) s"
  let ?folded = "folded_ids (d_ID d) ?held"
  have r: "r \<in> set ?held" "d_ID r = d_ID d"
    using assms GetDelivery_Some [OF assms(2)] by (auto simp: HeldDeliveries_iff)
  have find: "find (\<lambda>x. d_ID x = d_ID d) ?held = Some r"
  proof -
    have "distinct (map d_ID xs) \<Longrightarrow> r \<in> set xs \<Longrightarrow> find (\<lambda>x. d_ID x = d_ID d) xs = Some r" for xs
      using r(2) by (induction xs) (auto simp: rev_image_eqI)
    then show ?thesis using HeldDeliveries_distinct [OF assms(1)] r(1) by blast
  qed
  show "\<exists>r'. GetDelivery (d_ID d) (foldHeld e d zone s) = Some r' \<and> waiting r' \<and> \<not> d_QuietHeld r' \<and>
       d_NextAttemptAt r' = to_second (an_now e) \<and> d_Attempts r' = d_Attempts r \<and>
       mset (leaves_of r') = (\<Sum>h\<in>#mset ?held. mset (leaves_of h))"
  proof (cases "?folded = [] \<and> length (held_alerts ?held) \<le> 1")
    case True
    have other: "leaves_of h = []" if "h \<in> set ?held" "h \<noteq> r" for h
    proof -
      have "d_ID h \<noteq> d_ID d"
        using HeldDeliveries_distinct [OF assms(1), of "d_ChannelID d"] that r by (metis distinct_map inj_onD)
      then have "DecodeAlert (d_Payload h) = None" using True that(1) by (auto simp: folded_ids_def filter_empty_conv)
      then show ?thesis by (simp add: leaves_of_def)
    qed
    have "distinct ?held" using HeldDeliveries_distinct [OF assms(1)] by (simp add: distinct_map)
    then have "set (remove1 r ?held) = set ?held - {r}" by simp
    then have "\<forall>h\<in>set (remove1 r ?held). mset (leaves_of h) = {#}" using other by auto
    then obtain M where M: "mset ?held = add_mset r M" "\<forall>h\<in>#M. mset (leaves_of h) = {#}"
      using r(1) by (metis mset_remove1 insert_DiffM set_mset_mset)
    have "(\<Sum>h\<in>#M. mset (leaves_of h)) = {#}" using M(2) by (induction M) auto
    then have "(\<Sum>h\<in>#mset ?held. mset (leaves_of h)) = mset (leaves_of r)" unfolding M(1) by simp
    then show ?thesis
      using True assms(2,3) r(2)
      by (auto simp: foldHeld_def Let_def find FoldDigest_GetDelivery waiting_def held_row_def leaves_of_def)
  next
    case False
    have ne: "held_alerts ?held \<noteq> []"
    proof -
      obtain b where "DecodeAlert (d_Payload r) = Some b" using assms(5) by blast
      then show ?thesis using r(1) by (auto simp: held_alerts_def intro!: bexI [of _ r] split: if_splits)
    qed
    have "d_ID d \<notin> set ?folded" by (rule folded_ids_self)
    then show ?thesis
      using False assms(2,3) r(2) BuildDigest_news [OF ne] held_alerts_news [of ?held]
      by (auto simp: foldHeld_def Let_def find FoldDigest_GetDelivery waiting_def held_row_def leaves_of_def)
  qed
qed


definition held_night :: database where
  "held_night = example_tables\<lparr>db_rows :=
     [example_delivery 3 1 (example_alert 100 EventIncidentConfirmed)\<lparr>d_QuietHeld := True\<rparr>,
      example_delivery 5 1 (example_alert 100 EventIncidentResolved)\<lparr>d_QuietHeld := True\<rparr>]\<rparr>"

theorem morning_digest_carries_everything_held_witness:
  defines "d \<equiv> example_delivery 3 1 (example_alert 100 EventIncidentConfirmed)\<lparr>d_QuietHeld := True\<rparr>"
  shows "\<exists>r' x'. GetDelivery 3 (foldHeld quiet_answers d ''UTC'' held_night) = Some r' \<and>
     mset (leaves_of r') = {#example_alert 100 EventIncidentConfirmed, example_alert 100 EventIncidentResolved#} \<and>
     GetDelivery 5 (foldHeld quiet_answers d ''UTC'' held_night) = Some x' \<and> MergedInto x' = MergedIntoDigest"
proof -
  let ?x = "example_delivery 5 1 (example_alert 100 EventIncidentResolved)\<lparr>d_QuietHeld := True\<rparr>"
  have pre: "distinct (row_ids held_night)" "GetDelivery (d_ID d) held_night = Some d" "held_row d"
    "d_ChannelID d = d_ChannelID d" "DecodeAlert (d_Payload d) \<noteq> None"
    by (simp_all add: held_night_def d_def row_ids_def GetDelivery_def held_row_def waiting_def example_delivery_def)
  have x: "?x \<in> set (db_rows held_night)" "d_ID ?x \<noteq> d_ID d" "d_ChannelID ?x = d_ChannelID d" "held_row ?x"
    "DecodeAlert (d_Payload ?x) \<noteq> None" "d_ID ?x = 5" "d_ID d = 3"
    by (simp_all add: held_night_def d_def held_row_def waiting_def example_delivery_def)
  have held: "HeldDeliveries (d_ChannelID d) held_night = [d, ?x]"
    by (simp add: HeldDeliveries_def held_night_def d_def waiting_def example_delivery_def)
  have leaves: "leaves_of d = [example_alert 100 EventIncidentConfirmed]"
    "leaves_of ?x = [example_alert 100 EventIncidentResolved]"
    by (simp_all add: leaves_of_def d_def example_delivery_def example_alert_def)
  note M = morning_digest_carries_everything_held [OF pre, of quiet_answers "''UTC''"]
  obtain r' where "GetDelivery 3 (foldHeld quiet_answers d ''UTC'' held_night) = Some r'"
    "mset (leaves_of r') = {#example_alert 100 EventIncidentConfirmed, example_alert 100 EventIncidentResolved#}"
    using M unfolding held x(7) by (auto simp: leaves)
  moreover obtain x' where "GetDelivery 5 (foldHeld quiet_answers d ''UTC'' held_night) = Some x'" "folded_away ?x x'"
    using M x by metis
  ultimately show ?thesis by (auto simp: folded_away_def)
qed

section \<open>Which rows an attempt touches\<close>

text \<open>
  An attempt on row \<open>k\<close> keeps the ids and what it rewrote, and leaves every other row as it was, or marked
  as rewritten, or no longer held when it was.
\<close>

definition touches_only :: "int \<Rightarrow> worker \<Rightarrow> worker \<Rightarrow> bool" where
  "touches_only k w w' \<longleftrightarrow>
     row_ids (sw_db w') = row_ids (sw_db w) \<and> sw_rewritten w \<subseteq> sw_rewritten w' \<and>
     (\<forall>i r. i \<noteq> k \<and> GetDelivery i (sw_db w) = Some r \<longrightarrow>
        (\<exists>r'. GetDelivery i (sw_db w') = Some r' \<and>
          (r' = r \<or> (i \<in> sw_rewritten w' \<and> (held_row r' \<longrightarrow> held_row r)) \<or> (held_row r \<and> \<not> held_row r'))))"

lemma touches_only_refl: "touches_only k w w"
  by (simp add: touches_only_def)

lemma touches_only_trans:
  assumes "touches_only k w1 w2" "touches_only k w2 w3"
  shows "touches_only k w1 w3"
  unfolding touches_only_def
proof (intro conjI allI impI)
  show "row_ids (sw_db w3) = row_ids (sw_db w1)" "sw_rewritten w1 \<subseteq> sw_rewritten w3"
    using assms by (auto simp: touches_only_def)
  fix i r assume g: "i \<noteq> k \<and> GetDelivery i (sw_db w1) = Some r"
  then obtain r2 where r2: "GetDelivery i (sw_db w2) = Some r2"
    "r2 = r \<or> (i \<in> sw_rewritten w2 \<and> (held_row r2 \<longrightarrow> held_row r)) \<or> (held_row r \<and> \<not> held_row r2)"
    using assms(1) unfolding touches_only_def by metis
  then obtain r3 where r3: "GetDelivery i (sw_db w3) = Some r3"
    "r3 = r2 \<or> (i \<in> sw_rewritten w3 \<and> (held_row r3 \<longrightarrow> held_row r2)) \<or> (held_row r2 \<and> \<not> held_row r3)"
    using assms(2) g unfolding touches_only_def by metis
  have "sw_rewritten w2 \<subseteq> sw_rewritten w3" using assms(2) by (simp add: touches_only_def)
  then show "\<exists>r'. GetDelivery i (sw_db w3) = Some r' \<and>
      (r' = r \<or> (i \<in> sw_rewritten w3 \<and> (held_row r' \<longrightarrow> held_row r)) \<or> (held_row r \<and> \<not> held_row r'))"
    using r2 r3 by blast
qed

text \<open>Updates of one row.\<close>

definition one_row :: "int \<Rightarrow> database \<Rightarrow> database \<Rightarrow> bool" where
  "one_row k s s' \<longleftrightarrow> row_ids s' = row_ids s \<and> (\<forall>i. i \<noteq> k \<longrightarrow> GetDelivery i s' = GetDelivery i s)"

lemma one_row_update:
  assumes "\<And>r. d_ID (f r) = d_ID r" "\<And>r. P r \<Longrightarrow> d_ID r = k"
  shows "one_row k s (update_rows P f s)"
proof -
  have "GetDelivery i (update_rows P f s) = GetDelivery i s" if "i \<noteq> k" for i
    unfolding GetDelivery_update [OF assms(1)] using that assms(2)
    by (cases "GetDelivery i s") (auto dest: GetDelivery_Some)
  then show ?thesis using assms(1) by (simp add: one_row_def)
qed

lemma one_row_trans: "one_row k s t \<Longrightarrow> one_row k t u \<Longrightarrow> one_row k s u"
  by (simp add: one_row_def)

lemma one_row_rows: "db_rows s' = db_rows s \<Longrightarrow> one_row k s s'"
  by (simp add: one_row_def row_ids_def GetDelivery_def)

lemma one_row_marks:
  "one_row (d_ID d) s (MarkFailed clock (d_ID d) cause s)"
  "one_row (d_ID d) s (MarkDelivered clock (d_ID d) s)"
  "one_row (d_ID d) s (MarkRetry clock (d_ID d) cause t s)"
  "one_row (d_ID d) s (DeferDelivery clock (d_ID d) cause t s)"
  "one_row (d_ID d) s (WithholdDelivery clock (d_ID d) cause s)"
  "one_row (d_ID d) s (HoldDelivery clock (d_ID d) t s)"
  "one_row (d_ID d) s (DropDelivery clock (d_ID d) s)"
  unfolding MarkFailed_def MarkDelivered_def MarkRetry_def DeferDelivery_def WithholdDelivery_def
    HoldDelivery_def DropDelivery_def
  by (rule one_row_update; simp add: is_pending_def)+

lemma set_maint_rows: "db_rows (foldl (\<lambda>s inc. set_maint_alert inc ch b s) s held) = db_rows s"
  by (induction held arbitrary: s) (simp_all add: set_maint_alert_def)

lemma one_row_filter:
  assumes "FilterMaintenanceDelivery clock d pl keep held s = Some s'"
  shows "one_row (d_ID d) s s'"
proof -
  let ?t = "foldl (\<lambda>s inc. set_maint_alert inc (d_ChannelID d) True s) s held"
  have "s' = update_rows (\<lambda>r. d_ID r = d_ID d)
        (\<lambda>r. r\<lparr>d_Payload := pl, d_Suppressed := (\<not> keep),
              d_LastError := (if keep then [] else ''suppressed by scheduled maintenance''),
              d_UpdatedAt := to_second clock\<rparr>) ?t"
    using assms by (auto simp: FilterMaintenanceDelivery_def split: if_splits)
  moreover have "one_row (d_ID d) s ?t" by (rule one_row_rows) (rule set_maint_rows)
  ultimately show ?thesis by (simp only:) (erule one_row_trans, rule one_row_update; simp)
qed

lemma touches_one:
  assumes "one_row k (sw_db w) (sw_db w')" "sw_rewritten w' = sw_rewritten w"
  shows "touches_only k w w'"
  using assms by (auto simp: touches_only_def one_row_def)

lemma one_row_failures:
  "RecordChannelFailure ch now cause s = Some s' \<Longrightarrow> one_row k s s'"
  "one_row k s (ClearChannelFailure ch s)"
  by (auto simp: RecordChannelFailure_def ClearChannelFailure_def intro!: one_row_rows split: option.splits if_splits)


lemma fail_touches: "touches_only (d_ID d) w (fail e d cause w)"
  by (rule touches_one) (simp_all add: fail_def one_row_marks)

lemma giveUp_touches: "touches_only (d_ID d) w (giveUp e d ch cause w)"
proof (rule touches_one)
  let ?w1 = "fail e d cause (count_outcome (cn_Type ch) ''failed'' w)"
  have "one_row (d_ID d) (sw_db w) (sw_db ?w1)"
    by (simp add: fail_def count_outcome_def one_row_marks)
  then show "one_row (d_ID d) (sw_db w) (sw_db (giveUp e d ch cause w))"
    by (auto simp: giveUp_def Let_def intro: one_row_trans one_row_failures split: option.split)
qed (simp add: giveUp_def Let_def fail_def count_outcome_def split: option.split)

lemma send_outcome_touches: "touches_only (d_ID d) w (send_outcome e d ch a w)"
proof -
  let ?w = "w\<lparr>sw_sent := sw_sent w @ [(d, a)]\<rparr>"
  have same: "touches_only (d_ID d) w ?w" by (simp add: touches_only_def)
  have "touches_only (d_ID d) ?w (send_outcome e d ch a w)"
  proof (cases "an_send e d a")
    case Accepted
    then show ?thesis
      by (intro touches_one)
         (simp_all add: send_outcome_def Let_def count_outcome_def
           one_row_trans [OF one_row_marks(2) one_row_failures(2)])
  next
    case (Retryable err)
    show ?thesis
    proof (cases "maxAttempts \<le> d_Attempts d + 1")
      case True
      then show ?thesis using Retryable by (simp add: send_outcome_def Let_def giveUp_touches)
    next
      case False
      then show ?thesis using Retryable
        by (intro touches_one) (simp_all add: send_outcome_def Let_def count_outcome_def one_row_marks)
    qed
  next
    case (Permanent err)
    then show ?thesis by (simp add: send_outcome_def Let_def giveUp_touches)
  qed
  with same show ?thesis by (rule touches_only_trans)
qed

lemma merge_touches:
  assumes "mergeEarlier e d a s = Merged s' ids" "distinct (row_ids s)"
  shows "touches_only (d_ID d) (w\<lparr>sw_db := s\<rparr>) (w\<lparr>sw_db := s', sw_rewritten := sw_rewritten w \<union> ids\<rparr>)"
proof -
  note M = mergeEarlier_rows [OF assms]
  let ?up = "recoveredIncidents a"
  have "\<exists>r'. GetDelivery i s' = Some r' \<and>
      (r' = r \<or> (i \<in> sw_rewritten w \<union> ids \<and> (held_row r' \<longrightarrow> held_row r)) \<or> (held_row r \<and> \<not> held_row r'))"
    if "i \<noteq> d_ID d" "GetDelivery i s = Some r" for i r
  proof (cases "earlier_row d r \<and> stale_news ?up r \<noteq> []")
    case True
    then have "i \<in> ids" using M(3) GetDelivery_Some [OF that(2)] by auto
    moreover obtain x where "replaced_row ?up r = Some x" using True replaced_row_None by blast
    then have "held_row (merge_effect e d ?up r) \<longrightarrow> held_row r"
      by (auto simp: merge_effect_def replaced_effect_def held_row_def waiting_def split: option.splits)
    ultimately show ?thesis using M(2) [OF that(2,1)] True by auto
  next
    case False
    then have "merge_effect e d ?up r = r" if "earlier_row d r"
      using that by (simp add: merge_effect_def replaced_row_None split: option.split)
         (metis option.distinct(1) replaced_row_None)
    then show ?thesis using M(2) [OF that(2,1)] by (auto split: if_splits)
  qed
  then show ?thesis using M(1) by (simp add: touches_only_def)
qed

lemma foldHeld_touches:
  assumes "distinct (row_ids s)"
  shows "touches_only (d_ID d) (w\<lparr>sw_db := s\<rparr>) (w\<lparr>sw_db := foldHeld e d zone s\<rparr>)"
proof -
  have "\<exists>r'. GetDelivery i (foldHeld e d zone s) = Some r' \<and>
      (r' = r \<or> (i \<in> sw_rewritten w \<and> (held_row r' \<longrightarrow> held_row r)) \<or> (held_row r \<and> \<not> held_row r'))"
    if "i \<noteq> d_ID d" "GetDelivery i s = Some r" for i r
    using foldHeld_others [OF assms that(2,1), of e zone]
    by (auto simp: folded_away_def held_row_def split: if_splits)
  then show ?thesis by (simp add: touches_only_def)
qed

lemma quiet_touches:
  assumes "applyQuietHours e d s = (handled, s')" "distinct (row_ids s)"
  shows "touches_only (d_ID d) (w\<lparr>sw_db := s\<rparr>) (w\<lparr>sw_db := s'\<rparr>)"
proof -
  consider "s' = s" | "s' = DropDelivery (an_now e) (d_ID d) s" | t where "s' = HoldDelivery (an_now e) (d_ID d) t s"
    | zone where "s' = foldHeld e d zone s"
    using assms(1) by (auto simp: applyQuietHours_def split: quiet_answer.splits if_splits)
  then show ?thesis
  proof cases
    case (4 zone)
    then show ?thesis using foldHeld_touches [OF assms(2)] by simp
  qed (auto intro!: touches_one simp: one_row_marks intro: one_row_rows)
qed

lemma attempt_send_touches:
  assumes "distinct (row_ids (sw_db w))"
  shows "touches_only (d_ID d) w (attempt_send e d ch a w)"
proof -
  obtain handled s where q: "applyQuietHours e d (sw_db w) = (handled, s)" by (meson surj_pair)
  have t: "touches_only (d_ID d) w (w\<lparr>sw_db := s\<rparr>)" using quiet_touches [OF q assms, of w] by simp
  have ds: "distinct (row_ids s)" using t assms by (simp add: touches_only_def)
  show ?thesis
  proof (cases handled)
    case True
    then show ?thesis using t by (simp add: attempt_send_def q)
  next
    case False
    have "touches_only (d_ID d) (w\<lparr>sw_db := s\<rparr>) (attempt_send e d ch a w)"
    proof (cases "mergeEarlier e d a s")
      case NothingToMerge
      then show ?thesis using False send_outcome_touches [of d "w\<lparr>sw_db := s\<rparr>" e ch a]
        by (auto simp: attempt_send_def q Let_def one_row_marks intro!: touches_one)
    next
      case (MergeFailed err)
      then show ?thesis using False
        by (intro touches_one) (simp_all add: attempt_send_def q retryMaintenance_def one_row_marks)
    next
      case (Merged s' ids)
      then show ?thesis using False merge_touches [OF Merged ds, of w] by (simp add: attempt_send_def q)
    qed
    with t show ?thesis by (rule touches_only_trans)
  qed
qed

lemma attempt_touches:
  assumes "distinct (row_ids (sw_db w))"
  shows "touches_only (d_ID d) w (attempt e d w)"
proof -
  have "touches_only (d_ID d) w (attempt_alert e d ch a0 w)" for ch a0
  proof -
    obtain a keep held where f: "filterMaintenance e (sw_db w) a0 (d_ChannelID d) = (a, keep, held)"
      by (metis prod.exhaust)
    show ?thesis
    proof (cases "FilterMaintenanceDelivery (an_now e) d (Encoded a) keep held (sw_db w)")
      case None
      then show ?thesis
        by (intro touches_one) (simp_all add: attempt_alert_def f retryMaintenance_def one_row_marks)
    next
      case (Some s)
      have t: "touches_only (d_ID d) w (w\<lparr>sw_db := s\<rparr>)"
        by (rule touches_one) (use one_row_filter [OF Some] in simp_all)
      then have "distinct (row_ids s)" using assms by (simp add: touches_only_def)
      then have "touches_only (d_ID d) (w\<lparr>sw_db := s\<rparr>) (attempt_send e d ch a (w\<lparr>sw_db := s\<rparr>))"
        by (intro attempt_send_touches) simp
      then show ?thesis using t Some by (auto simp: attempt_alert_def f intro: touches_only_trans)
    qed
  qed
  then show ?thesis
    by (auto simp: attempt_def fail_touches touches_only_refl Let_def split: option.split)
qed

lemma attempts_touch:
  assumes "distinct (row_ids (sw_db w))" "k \<notin> d_ID ` snd ` set ds"
  shows "distinct (row_ids (sw_db (attempts es ds w)))"
    and "GetDelivery k (sw_db w) = Some r \<Longrightarrow>
      \<exists>r'. GetDelivery k (sw_db (attempts es ds w)) = Some r' \<and>
        (r' = r \<or> (k \<in> sw_rewritten (attempts es ds w)) \<or> (held_row r \<and> \<not> held_row r'))"
proof -
  have "distinct (row_ids (sw_db (attempts es ds w))) \<and>
    (\<forall>r. GetDelivery k (sw_db w) = Some r \<longrightarrow>
      (\<exists>r'. GetDelivery k (sw_db (attempts es ds w)) = Some r' \<and>
        (r' = r \<or> (k \<in> sw_rewritten (attempts es ds w) \<and> (held_row r' \<longrightarrow> held_row r)) \<or>
         (held_row r \<and> \<not> held_row r'))))"
    using assms
  proof (induction ds rule: rev_induct)
    case (snoc p ds)
    let ?w = "attempts es ds w" and ?d = "snd p"
    have IH: "distinct (row_ids (sw_db ?w))" using snoc by auto
    have t: "touches_only (d_ID ?d) ?w (attempts es (ds @ [p]) w)"
      using attempt_touches [OF IH] by (simp add: attempts_def case_prod_beta)
    have k: "k \<noteq> d_ID ?d" using snoc.prems(2) by auto
    have sub: "sw_rewritten ?w \<subseteq> sw_rewritten (attempts es (ds @ [p]) w)" using t by (simp add: touches_only_def)
    have "\<exists>r'. GetDelivery k (sw_db (attempts es (ds @ [p]) w)) = Some r' \<and>
        (r' = r \<or> (k \<in> sw_rewritten (attempts es (ds @ [p]) w) \<and> (held_row r' \<longrightarrow> held_row r)) \<or>
         (held_row r \<and> \<not> held_row r'))" if g: "GetDelivery k (sw_db w) = Some r" for r
    proof -
      obtain r1 where r1: "GetDelivery k (sw_db ?w) = Some r1"
        "r1 = r \<or> (k \<in> sw_rewritten ?w \<and> (held_row r1 \<longrightarrow> held_row r)) \<or> (held_row r \<and> \<not> held_row r1)"
        using snoc g by auto
      obtain r2 where r2: "GetDelivery k (sw_db (attempts es (ds @ [p]) w)) = Some r2"
        "r2 = r1 \<or> (k \<in> sw_rewritten (attempts es (ds @ [p]) w) \<and> (held_row r2 \<longrightarrow> held_row r1)) \<or>
          (held_row r1 \<and> \<not> held_row r2)"
        using t k r1(1) unfolding touches_only_def by metis
      show ?thesis using r1(2) r2 sub by blast
    qed
    moreover have "distinct (row_ids (sw_db (attempts es (ds @ [p]) w)))"
      using t IH by (simp add: touches_only_def)
    ultimately show ?case by blast
  qed (simp add: attempts_def)
  then show "distinct (row_ids (sw_db (attempts es ds w)))"
    and "GetDelivery k (sw_db w) = Some r \<Longrightarrow>
      \<exists>r'. GetDelivery k (sw_db (attempts es ds w)) = Some r' \<and>
        (r' = r \<or> (k \<in> sw_rewritten (attempts es ds w)) \<or> (held_row r \<and> \<not> held_row r'))"
    by blast+
qed

end
