(* ===== verification/DeliveryRuns.thy ===== *)
theory DeliveryRuns
  imports SweepProps
begin

text \<open>
  What a sweep sends, and how often a row is tried: a message goes out only while its row still says it
  and the channel may hear it, retries are bounded, and their gaps too.
\<close>

section \<open>When an attempt sends\<close>

lemma giveUp_sent [simp]: "sw_sent (giveUp e d ch cause w) = sw_sent w"
  by (simp add: giveUp_def Let_def fail_def count_outcome_def split: option.split)

lemma send_outcome_sent [simp]: "sw_sent (send_outcome e d ch a w) = sw_sent w @ [(d, a)]"
  by (simp add: send_outcome_def Let_def count_outcome_def split: send_result.split)

lemma applyQuietHours_not_handled:
  assumes "applyQuietHours e d s = (False, s')"
  shows "s' = s \<and> \<not> d_QuietHeld d \<and> (an_quiet e (d_ChannelID d) = NoQuietHours \<or>
    (\<exists>zone. an_quiet e (d_ChannelID d) = NotQuiet zone))"
  using assms by (auto simp: applyQuietHours_def split: quiet_answer.splits if_splits)

text \<open>Everything that has to hold for a message to be handed to a sender.\<close>

definition may_send :: "answers \<Rightarrow> delivery \<Rightarrow> worker \<Rightarrow> alert \<Rightarrow> bool" where
  "may_send e d w a \<longleftrightarrow>
     d_ID d \<notin> sw_rewritten w \<and> \<not> d_QuietHeld d \<and>
     (\<exists>ch. an_channel e (d_ChannelID d) = Some ch \<and> cn_Enabled ch \<and> cn_HasSender ch) \<and>
     (an_quiet e (d_ChannelID d) = NoQuietHours \<or> (\<exists>zone. an_quiet e (d_ChannelID d) = NotQuiet zone)) \<and>
     an_withhold e d a = [] \<and>
     (\<exists>a0 held s. DecodeAlert (d_Payload d) = Some a0 \<and>
        filterMaintenance e (sw_db w) a0 (d_ChannelID d) = (a, True, held) \<and>
        FilterMaintenanceDelivery (an_now e) d (Encoded a) True held (sw_db w) = Some s \<and>
        mergeEarlier e d a s = NothingToMerge)"

lemma attempt_send_sends:
  assumes "sw_sent (attempt_send e d ch a w) \<noteq> sw_sent w"
  shows "sw_sent (attempt_send e d ch a w) = sw_sent w @ [(d, a)]" "\<not> d_QuietHeld d"
    "an_quiet e (d_ChannelID d) = NoQuietHours \<or> (\<exists>zone. an_quiet e (d_ChannelID d) = NotQuiet zone)"
    "an_withhold e d a = []" "mergeEarlier e d a (sw_db w) = NothingToMerge"
proof -
  obtain handled s where q: "applyQuietHours e d (sw_db w) = (handled, s)" by (meson surj_pair)
  have nh: "\<not> handled" using assms by (auto simp: attempt_send_def q)
  then have q': "s = sw_db w" "\<not> d_QuietHeld d"
    "an_quiet e (d_ChannelID d) = NoQuietHours \<or> (\<exists>zone. an_quiet e (d_ChannelID d) = NotQuiet zone)"
    using applyQuietHours_not_handled [of e d "sw_db w" s] q by simp_all
  have m: "mergeEarlier e d a s = NothingToMerge" "an_withhold e d a = []"
    using assms nh by (auto simp: attempt_send_def q Let_def split: merge_result.splits if_splits)
  show "sw_sent (attempt_send e d ch a w) = sw_sent w @ [(d, a)]"
    using nh m by (simp add: attempt_send_def q)
  show "\<not> d_QuietHeld d" "an_quiet e (d_ChannelID d) = NoQuietHours \<or> (\<exists>zone. an_quiet e (d_ChannelID d) = NotQuiet zone)"
    "an_withhold e d a = []" "mergeEarlier e d a (sw_db w) = NothingToMerge"
    using q' m by simp_all
qed

lemma attempt_sends:
  assumes "sw_sent (attempt e d w) \<noteq> sw_sent w"
  shows "\<exists>a. sw_sent (attempt e d w) = sw_sent w @ [(d, a)] \<and> may_send e d w a"
proof -
  obtain ch a0 where c: "d_ID d \<notin> sw_rewritten w" "an_channel e (d_ChannelID d) = Some ch" "cn_Enabled ch"
    "cn_HasSender ch" "DecodeAlert (d_Payload d) = Some a0" "attempt e d w = attempt_alert e d ch a0 w"
    using assms by (auto simp: attempt_def fail_def split: if_splits option.splits)
  obtain a keep held where f: "filterMaintenance e (sw_db w) a0 (d_ChannelID d) = (a, keep, held)"
    by (metis prod.exhaust)
  obtain s where s: "FilterMaintenanceDelivery (an_now e) d (Encoded a) keep held (sw_db w) = Some s" "keep"
    "attempt e d w = attempt_send e d ch a (w\<lparr>sw_db := s\<rparr>)"
    using assms c(6) by (auto simp: attempt_alert_def f split: option.splits if_splits)
  have "sw_sent (attempt_send e d ch a (w\<lparr>sw_db := s\<rparr>)) \<noteq> sw_sent (w\<lparr>sw_db := s\<rparr>)" using assms s(3) by simp
  note S = attempt_send_sends [OF this]
  have "may_send e d w a" using c f s S by (auto simp: may_send_def)
  then show ?thesis using S(1) s(3) by auto
qed

section \<open>Maintenance takes the muted monitors out\<close>

lemma filter_members_unmuted:
  "m \<in> set (fst (filter_members e s ch ms)) \<Longrightarrow> m \<in> set ms \<and> \<not> an_muted e (a_MonitorID (a_data m))"
  by (induction ms) (auto simp: Let_def split: if_splits prod.splits)

lemma filterMaintenance_unmuted:
  assumes "filterMaintenance e s a0 ch = (a, True, held)" "\<forall>m\<in>set (Members a0). Members m = []"
    and "Members a0 \<noteq> [] \<or> \<not> Grouped a0" "l \<in> set (alertLeaves a)"
  shows "\<not> an_muted e (a_MonitorID (a_data l))"
proof -
  let ?ms = "if Members a0 = [] then [a0] else Members a0"
  obtain kept held' where k: "filter_members e s ch ?ms = (kept, held')" by (meson surj_pair)
  have flat: "\<forall>m\<in>set kept. Members m = [] \<and> \<not> an_muted e (a_MonitorID (a_data m))"
  proof
    fix m assume "m \<in> set kept"
    then have "m \<in> set ?ms \<and> \<not> an_muted e (a_MonitorID (a_data m))"
      using filter_members_unmuted [of m e s ch ?ms] k by simp
    then show "Members m = [] \<and> \<not> an_muted e (a_MonitorID (a_data m))"
      using assms(2) by (auto split: if_splits)
  qed
  have news: "news kept = mset kept" using flat by (intro news_of_leaves) simp
  have a: "(kept \<noteq> [] \<and> (\<exists>z t. a = BuildDigest kept z t)) \<or> Summarise kept = Some a"
    using assms(1,3) k
    by (cases "kept = []") (auto simp: filterMaintenance_def Let_def split: if_splits option.splits)
  then have "mset (alertLeaves a) = mset kept" using BuildDigest_news Summarise_news news by metis
  then have "l \<in> set kept" using assms(4) by (metis mset_eq_setD)
  then show ?thesis using flat by blast
qed

text \<open>
  C3: a sweep sends only what still stands. When the attempt on a row hands a message to a sender, at that
  moment the row is still exactly what was loaded at the start of the sweep: pending, not closed, not held,
  and due, whatever the earlier attempts folded or merged. The channel is switched on and not in its quiet
  hours; no monitor of the message is in maintenance (of the groups that name their members); and no earlier
  message still waiting for the channel reports an incident down that this one reports up.
\<close>

theorem sweep_sends_only_what_still_stands:
  assumes "distinct (row_ids (sw_db w0))"
    and "k < length (DueDeliveries now batch (sw_db w0))" "d = DueDeliveries now batch (sw_db w0) ! k"
    and "w = attempts es (take k (enumerate 0 (DueDeliveries now batch (sw_db w0)))) (w0\<lparr>sw_rewritten := {}\<rparr>)"
    and "sw_sent (attempt (es k) d w) \<noteq> sw_sent w"
  shows "\<exists>a a0. sw_sent (attempt (es k) d w) = sw_sent w @ [(d, a)] \<and>
    GetDelivery (d_ID d) (sw_db w) = Some d \<and> waiting d \<and> \<not> d_QuietHeld d \<and> d_NextAttemptAt d \<le> to_second now \<and>
    (\<exists>ch. an_channel (es k) (d_ChannelID d) = Some ch \<and> cn_Enabled ch) \<and>
    (\<forall>t. an_quiet (es k) (d_ChannelID d) \<noteq> QuietDropNow \<and> an_quiet (es k) (d_ChannelID d) \<noteq> QuietUntil t) \<and>
    DecodeAlert (d_Payload d) = Some a0 \<and>
    ((Members a0 \<noteq> [] \<or> \<not> Grouped a0) \<and> (\<forall>m\<in>set (Members a0). Members m = []) \<longrightarrow>
       (\<forall>l\<in>set (alertLeaves a). \<not> an_muted (es k) (a_MonitorID (a_data l)))) \<and>
    (\<forall>r\<in>set (db_rows (sw_db w)). earlier_row d r \<longrightarrow> stale_news (recoveredIncidents a) r = [])"
proof -
  let ?ds = "DueDeliveries now batch (sw_db w0)"
  have dd: "distinct (map d_ID ?ds)"
  proof -
    have "distinct (map d_ID (filter (\<lambda>r. waiting r \<and> d_NextAttemptAt r \<le> to_second now) (db_rows (sw_db w0))))"
      using assms(1) by (simp add: row_ids_def distinct_map_filter)
    then show ?thesis by (simp add: DueDeliveries_def take_map [symmetric])
  qed
  have dmem: "d \<in> set ?ds" using assms(2,3) by simp
  then have d: "d \<in> set (db_rows (sw_db w0))" "waiting d" "d_NextAttemptAt d \<le> to_second now"
    by (auto simp: DueDeliveries_def dest: in_set_takeD)
  have "snd ` set (take k (enumerate 0 ?ds)) = set (take k ?ds)"
    unfolding set_map [symmetric] take_map [symmetric] by simp
  moreover have "d_ID d \<notin> d_ID ` set (take k ?ds)"
  proof
    assume "d_ID d \<in> d_ID ` set (take k ?ds)"
    then obtain j where j: "j < k" "d_ID (?ds ! j) = d_ID d" using assms(2) by (auto simp: in_set_conv_nth)
    then have "map d_ID ?ds ! j = map d_ID ?ds ! k" using assms(2,3) by simp
    then show False using dd j(1) assms(2) nth_eq_iff_index_eq [OF dd, of j k] by simp
  qed
  ultimately have notin: "d_ID d \<notin> d_ID ` snd ` set (take k (enumerate 0 ?ds))" by simp
  have g0: "GetDelivery (d_ID d) (sw_db (w0\<lparr>sw_rewritten := {}\<rparr>)) = Some d"
    using GetDelivery_mem [OF assms(1) d(1)] by simp
  have d0: "distinct (row_ids (sw_db (w0\<lparr>sw_rewritten := {}\<rparr>)))" using assms(1) by simp
  note T = attempts_touch [OF d0 notin, where es = es, folded assms(4)]
  obtain a where a: "sw_sent (attempt (es k) d w) = sw_sent w @ [(d, a)]" "may_send (es k) d w a"
    using attempt_sends [OF assms(5)] by blast
  have "\<not> held_row d" using a(2) by (simp add: may_send_def held_row_def)
  then have row: "GetDelivery (d_ID d) (sw_db w) = Some d"
    using T(2) [OF g0] a(2) by (auto simp: may_send_def)
  obtain a0 held s where f: "DecodeAlert (d_Payload d) = Some a0"
    "filterMaintenance (es k) (sw_db w) a0 (d_ChannelID d) = (a, True, held)"
    "FilterMaintenanceDelivery (an_now (es k)) d (Encoded a) True held (sw_db w) = Some s"
    "mergeEarlier (es k) d a s = NothingToMerge"
    using a(2) by (auto simp: may_send_def)
  have stale: "stale_news (recoveredIncidents a) r = []"
    if r: "r \<in> set (db_rows (sw_db w))" "earlier_row d r" for r
  proof -
    have "GetDelivery (d_ID r) s = Some r"
      using one_row_filter [OF f(3)] GetDelivery_mem [OF T(1) r(1)] r(2)
      by (simp add: one_row_def earlier_row_def)
    then have "r \<in> set (db_rows s)" by (simp add: GetDelivery_Some)
    then show ?thesis using mergeEarlier_Nothing [OF f(4)] r(2) by blast
  qed
  have muted: "(Members a0 \<noteq> [] \<or> \<not> Grouped a0) \<and> (\<forall>m\<in>set (Members a0). Members m = []) \<longrightarrow>
       (\<forall>l\<in>set (alertLeaves a). \<not> an_muted (es k) (a_MonitorID (a_data l)))"
    using filterMaintenance_unmuted [OF f(2)] by blast
  show ?thesis
    by (rule exI [of _ a], rule exI [of _ a0])
       (use a row d f(1) stale muted in \<open>auto simp: may_send_def\<close>)
qed


definition one_alert_queued :: worker where
  "one_alert_queued = \<lparr>sw_db = example_tables\<lparr>db_rows := [example_delivery 3 1 (example_alert 100 EventIncidentConfirmed)]\<rparr>,
     sw_rewritten = {}, sw_counts = (\<lambda>_. 0), sw_nextFailureCheck = 0, sw_sent = []\<rparr>"

theorem sweep_sends_only_what_still_stands_witness:
  defines "d \<equiv> example_delivery 3 1 (example_alert 100 EventIncidentConfirmed)"
  shows "\<exists>a. sw_sent (attempt quiet_answers d one_alert_queued) = [(d, a)] \<and>
     (\<forall>l\<in>set (alertLeaves a). \<not> an_muted quiet_answers (a_MonitorID (a_data l)))"
proof -
  let ?w = "one_alert_queued"
  have due: "DueDeliveries (seconds 60) 50 (sw_db ?w) = [d]"
    by (simp add: DueDeliveries_def one_alert_queued_def d_def example_delivery_def waiting_def to_second_def)
  have ids: "distinct (row_ids (sw_db ?w))" by (simp add: row_ids_def one_alert_queued_def)
  have w: "?w = attempts (\<lambda>_. quiet_answers) (take 0 (enumerate 0 (DueDeliveries (seconds 60) 50 (sw_db ?w))))
      (?w\<lparr>sw_rewritten := {}\<rparr>)"
    by (simp add: attempts_def one_alert_queued_def)
  have rec: "recoveredIncidents (example_alert 100 EventIncidentConfirmed) = {}"
    by (simp add: recoveredIncidents_def example_alert_def Down_def zero_data_def EventLocalNetworkRestored_def
        EventLocalDNSRestored_def)
  let ?a = "example_alert 100 EventIncidentConfirmed" and ?e = quiet_answers
  let ?ch = "\<lparr>cn_Type = ''slack'', cn_Enabled = True, cn_HasSender = True\<rparr>"
  have qa: "an_channel ?e i = Some ?ch" "an_muted ?e i = False" "an_quiet ?e i = NoQuietHours" "an_withhold ?e d b = []"
    for i b by (simp_all add: quiet_answers_def)
  have ev: "a_Event (a_data ?a) = event_string EventIncidentConfirmed" "Members ?a = []" "\<not> Grouped ?a"
    "\<not> a_Digest (a_data ?a)"
    by (simp_all add: example_alert_def Grouped_def zero_data_def)
  have f: "filterMaintenance ?e s ?a ch = (?a, True, [])" for s ch
    by (simp add: filterMaintenance_def ev qa Let_def Summarise_def)
  have m: "mergeEarlier ?e d ?a s = NothingToMerge" for s by (simp add: mergeEarlier_def rec)
  have dd: "d_ID d \<notin> sw_rewritten ?w" "\<not> d_QuietHeld d" "DecodeAlert (d_Payload d) = Some ?a"
    by (simp_all add: d_def example_delivery_def one_alert_queued_def)
  have q: "applyQuietHours ?e d s = (False, s)" for s by (simp add: applyQuietHours_def qa dd)
  have snd: "sw_sent (attempt_send ?e d ?ch ?a w) = sw_sent w @ [(d, ?a)]" for w
    by (simp add: attempt_send_def q m qa)
  have len: "0 < length (DueDeliveries (seconds 60) 50 (sw_db ?w))" "d = DueDeliveries (seconds 60) 50 (sw_db ?w) ! 0"
    unfolding due by simp_all
  have sent: "sw_sent (attempt ?e d ?w) \<noteq> sw_sent ?w"
    by (simp add: attempt_def dd qa attempt_alert_def f FilterMaintenanceDelivery_def snd)
  obtain a a0 where a: "sw_sent (attempt quiet_answers d ?w) = sw_sent ?w @ [(d, a)]"
    "DecodeAlert (d_Payload d) = Some a0"
    "(Members a0 \<noteq> [] \<or> \<not> Grouped a0) \<and> (\<forall>m\<in>set (Members a0). Members m = []) \<longrightarrow>
       (\<forall>l\<in>set (alertLeaves a). \<not> an_muted quiet_answers (a_MonitorID (a_data l)))"
    using sweep_sends_only_what_still_stands [OF ids len w sent] by blast
  have "a0 = example_alert 100 EventIncidentConfirmed" using a(2) by (simp add: d_def example_delivery_def)
  then show ?thesis
    using a(1,3) by (simp add: one_alert_queued_def example_alert_def Grouped_def zero_data_def)
qed


section \<open>Retries\<close>

text \<open>The waits before the second to the sixth attempt, without their jitter.\<close>

definition retry_delays :: "duration list" where
  "retry_delays = [seconds 10, seconds 30, seconds 90, seconds 270, minutes 10]"

lemma backoff_bounds:
  assumes "\<And>span. 0 < span \<Longrightarrow> 0 \<le> jitter span \<and> jitter span < span" "k < 5"
  shows "retry_delays ! k \<le> backoff jitter (int k + 1)"
    and "backoff jitter (int k + 1) < retry_delays ! k + retry_delays ! k div 4"
proof -
  have "backoff jitter (int k + 1) = retry_delays ! k + jitter (retry_delays ! k div 4)" "0 < retry_delays ! k div 4"
    using assms(2) by (auto simp: backoff_def retry_delays_def less_Suc_eq numeral_eq_Suc Let_def nth_Cons')
  then show "retry_delays ! k \<le> backoff jitter (int k + 1)"
    and "backoff jitter (int k + 1) < retry_delays ! k + retry_delays ! k div 4"
    using assms(1) [of "retry_delays ! k div 4"] by simp_all
qed

text \<open>The row is tried whenever it waits, and every send ends the same way for a while.\<close>

definition try_row :: "int \<Rightarrow> channel \<Rightarrow> alert \<Rightarrow> answers \<Rightarrow> worker \<Rightarrow> worker" where
  "try_row i ch a e w =
     (case GetDelivery i (sw_db w) of
        None \<Rightarrow> w
      | Some d \<Rightarrow> if waiting d then send_outcome e d ch a w else w)"

definition tries :: "int \<Rightarrow> channel \<Rightarrow> alert \<Rightarrow> answers list \<Rightarrow> worker \<Rightarrow> worker" where
  "tries i ch a es w = foldl (\<lambda>w e. try_row i ch a e w) w es"

definition tried :: "nat \<Rightarrow> delivery \<Rightarrow> answers list \<Rightarrow> delivery \<Rightarrow> bool" where
  "tried k r es r' \<longleftrightarrow> d_Attempts r' = int k \<and> d_Payload r' = d_Payload r \<and> d_Suppressed r' = d_Suppressed r \<and>
     (if k = 0 then r' = r
      else if k < 6 then d_Status r' = OutboxPending \<and>
        d_NextAttemptAt r' = to_second (an_now (es ! (k - 1)) + backoff (an_jitter (es ! (k - 1))) (int k))
      else d_Status r' = OutboxFailed)"

lemma MarkRetry_row:
  "GetDelivery i s = Some r \<Longrightarrow> GetDelivery i (MarkRetry clock i cause t s) =
     Some (r\<lparr>d_Attempts := d_Attempts r + 1, d_LastError := cause, d_NextAttemptAt := to_second t,
             d_UpdatedAt := to_second clock\<rparr>)"
  unfolding MarkRetry_def by (subst GetDelivery_update) (auto dest: GetDelivery_Some)

lemma MarkFailed_row:
  "GetDelivery i s = Some r \<Longrightarrow> GetDelivery i (MarkFailed clock i cause s) =
     Some (r\<lparr>d_Status := OutboxFailed, d_Attempts := d_Attempts r + 1, d_LastError := cause,
             d_UpdatedAt := to_second clock\<rparr>)"
  unfolding MarkFailed_def by (subst GetDelivery_update) (auto dest: GetDelivery_Some)

lemma giveUp_row:
  "GetDelivery (d_ID d) (sw_db w) = Some r \<Longrightarrow> GetDelivery (d_ID d) (sw_db (giveUp e d ch cause w)) =
     Some (r\<lparr>d_Status := OutboxFailed, d_Attempts := d_Attempts r + 1, d_LastError := cause,
             d_UpdatedAt := to_second (an_now e)\<rparr>)"
  by (auto simp: giveUp_def Let_def fail_def count_outcome_def RecordChannelFailure_def MarkFailed_row
      split: option.split if_splits cong: GetDelivery_cong)

lemma tries_step:
  assumes "GetDelivery i (sw_db w) = Some d" "d_Status d = OutboxPending" "\<not> d_Suppressed d"
    and "an_send e d a = Retryable err" "d_Attempts d = int k" "k < 6"
  shows "\<exists>r'. GetDelivery i (sw_db (try_row i ch a e w)) = Some r' \<and> d_Attempts r' = int (Suc k) \<and>
     d_Payload r' = d_Payload d \<and> d_Suppressed r' = d_Suppressed d \<and>
     (if Suc k < 6 then d_Status r' = OutboxPending \<and>
        d_NextAttemptAt r' = to_second (an_now e + backoff (an_jitter e) (int (Suc k)))
      else d_Status r' = OutboxFailed) \<and>
     sw_sent (try_row i ch a e w) = sw_sent w @ [(d, a)]"
proof -
  have i: "d_ID d = i" using GetDelivery_Some [OF assms(1)] by simp
  have t: "try_row i ch a e w = send_outcome e d ch a w" using assms(1-3) by (simp add: try_row_def waiting_def)
  show ?thesis
  proof (cases "Suc k < 6")
    case True
    then have k: "\<not> maxAttempts \<le> d_Attempts d + 1" using assms(5) by (simp add: maxAttempts_def)
    show ?thesis
      unfolding t using True k assms(1,2,4,5)
      by (simp add: send_outcome_def Let_def count_outcome_def i MarkRetry_row add.commute)
  next
    case False
    then have k: "maxAttempts \<le> d_Attempts d + 1" using assms(5,6) by (simp add: maxAttempts_def)
    have "GetDelivery (d_ID d) (sw_db (w\<lparr>sw_sent := sw_sent w @ [(d, a)]\<rparr>)) = Some d" using assms(1) i by simp
    from giveUp_row [OF this] show ?thesis
      unfolding t using False k assms(4,5) by (simp add: send_outcome_def Let_def i)
  qed
qed

text \<open>
  C37: a message its channel keeps refusing for now is tried exactly six times. After \<open>k\<close> refusals of a fresh
  row, \<open>min k 6\<close> attempts are charged and as many sends were made, its message unchanged; below six it waits
  with the next attempt 10, 30, 90, 270 or 600 seconds after the last one, plus less than a quarter of that;
  at six it is in the dead letter, and no later pass sends it again.
\<close>

theorem six_attempts_and_no_more:
  assumes "GetDelivery i (sw_db w) = Some r" "waiting r" "d_Attempts r = 0"
    and "\<And>e d. e \<in> set es \<Longrightarrow> \<exists>err. an_send e d a = Retryable err"
    and "\<And>e span. e \<in> set es \<Longrightarrow> 0 < span \<Longrightarrow> 0 \<le> an_jitter e span \<and> an_jitter e span < span"
  shows "length (sw_sent (tries i ch a es w)) = length (sw_sent w) + min (length es) 6 \<and>
    (\<exists>r'. GetDelivery i (sw_db (tries i ch a es w)) = Some r' \<and> d_Payload r' = d_Payload r \<and>
      d_Attempts r' = int (min (length es) 6) \<and>
      (if length es < 6 then d_Status r' = OutboxPending else d_Status r' = OutboxFailed) \<and>
      (0 < length es \<and> length es < 6 \<longrightarrow>
        (\<exists>delay. d_NextAttemptAt r' = to_second (an_now (last es) + delay) \<and>
           retry_delays ! (length es - 1) \<le> delay \<and>
           delay < retry_delays ! (length es - 1) + retry_delays ! (length es - 1) div 4)))"
proof -
  have "length (sw_sent (tries i ch a es w)) = length (sw_sent w) + min (length es) 6 \<and>
    (\<exists>r'. GetDelivery i (sw_db (tries i ch a es w)) = Some r' \<and> tried (min (length es) 6) r es r')"
    using assms(4)
  proof (induction es rule: rev_induct)
    case Nil
    then show ?case using assms by (simp add: tries_def tried_def)
  next
    case (snoc e es)
    let ?w = "tries i ch a es w" and ?n = "length es"
    have step: "tries i ch a (es @ [e]) w = try_row i ch a e ?w" by (simp add: tries_def)
    obtain r1 where r1: "length (sw_sent ?w) = length (sw_sent w) + min ?n 6"
      "GetDelivery i (sw_db ?w) = Some r1" "tried (min ?n 6) r es r1"
      using snoc.IH snoc.prems by auto
    show ?case
    proof (cases "?n < 6")
      case False
      then have "\<not> waiting r1" using r1(3) by (simp add: tried_def waiting_def)
      then show ?thesis using r1 False by (simp add: step try_row_def) (simp add: tried_def)
    next
      case True
      obtain err where err: "an_send e r1 a = Retryable err" using snoc.prems [of e r1] by auto
      have p: "d_Status r1 = OutboxPending" "\<not> d_Suppressed r1" "d_Attempts r1 = int ?n" "d_Payload r1 = d_Payload r"
        "d_Suppressed r1 = d_Suppressed r"
        using r1(3) True assms(2) by (auto simp: tried_def waiting_def split: if_splits)
      obtain r2 where "GetDelivery i (sw_db (try_row i ch a e ?w)) = Some r2" "d_Attempts r2 = int (Suc ?n)"
        "d_Payload r2 = d_Payload r1" "d_Suppressed r2 = d_Suppressed r1"
        "if Suc ?n < 6 then d_Status r2 = OutboxPending \<and>
          d_NextAttemptAt r2 = to_second (an_now e + backoff (an_jitter e) (int (Suc ?n)))
         else d_Status r2 = OutboxFailed"
        "sw_sent (try_row i ch a e ?w) = sw_sent ?w @ [(r1, a)]"
        using tries_step [OF r1(2) p(1,2) err p(3) True, where ch = ch] by auto
      then show ?thesis using True p r1(1) by (simp add: step tried_def nth_append)
    qed
  qed
  then obtain r' where r': "length (sw_sent (tries i ch a es w)) = length (sw_sent w) + min (length es) 6"
    "GetDelivery i (sw_db (tries i ch a es w)) = Some r'" "tried (min (length es) 6) r es r'" by blast
  have delay: "\<exists>delay. d_NextAttemptAt r' = to_second (an_now (last es) + delay) \<and>
           retry_delays ! (length es - 1) \<le> delay \<and>
           delay < retry_delays ! (length es - 1) + retry_delays ! (length es - 1) div 4"
    if l: "0 < length es" "length es < 6"
  proof -
    let ?k = "length es - 1"
    have k: "int (length es) = int ?k + 1" using l(1) by linarith
    have e: "es ! ?k = last es" "last es \<in> set es" using l(1) by (simp_all add: last_conv_nth)
    have "d_NextAttemptAt r' = to_second (an_now (last es) + backoff (an_jitter (last es)) (int ?k + 1))"
      unfolding k [symmetric] using r'(3) l e(1) by (simp add: tried_def)
    then show ?thesis using backoff_bounds [of "an_jitter (last es)" ?k] assms(5) [OF e(2)] l by auto
  qed
  have st: "if length es < 6 then d_Status r' = OutboxPending else d_Status r' = OutboxFailed"
    using r'(3) assms(2)
    by (cases "length es < 6"; cases "length es = 0") (simp_all add: tried_def waiting_def min_def)
  show ?thesis
    by (intro conjI impI exI [of _ r'] r'(1,2) st)
       (use r'(3) delay in \<open>auto simp: tried_def\<close>)
qed

theorem six_attempts_and_no_more_witness:
  defines "e \<equiv> quiet_answers\<lparr>an_send := (\<lambda>_ _. Retryable ''503'')\<rparr>"
  shows "\<exists>r'. GetDelivery 3 (sw_db (tries 3 \<lparr>cn_Type = ''slack'', cn_Enabled = True, cn_HasSender = True\<rparr> (example_alert 100 EventIncidentConfirmed)
      (replicate 7 (quiet_answers\<lparr>an_send := (\<lambda>_ _. Retryable ''503'')\<rparr>)) one_alert_queued)) = Some r' \<and>
    d_Status r' = OutboxFailed \<and> d_Attempts r' = 6"
proof -
  have "GetDelivery 3 (sw_db one_alert_queued) = Some (example_delivery 3 1 (example_alert 100 EventIncidentConfirmed))"
    "waiting (example_delivery 3 1 (example_alert 100 EventIncidentConfirmed))"
    "d_Attempts (example_delivery 3 1 (example_alert 100 EventIncidentConfirmed)) = 0"
    by (simp_all add: GetDelivery_def one_alert_queued_def example_delivery_def waiting_def)
  from six_attempts_and_no_more [OF this, of "replicate 7 e" "example_alert 100 EventIncidentConfirmed"
      "\<lparr>cn_Type = ''slack'', cn_Enabled = True, cn_HasSender = True\<rparr>"]
  show ?thesis by (force simp: e_def quiet_answers_def)
qed

end
