(* ===== verification/Incidents.thy ===== *)
theory Incidents
  imports Tables
begin

text \<open>
  The incidents of \<open>internal/store/incidents.go\<close> and the heartbeats of \<open>monitors.go\<close> and
  \<open>capture_reason.go\<close>: what the runner writes of a check and reads back after a restart. The partial
  unique index on open incidents and the foreign key to the monitor are the errors of the inserts.
\<close>

section \<open>Operations\<close>

datatype incident_error = ErrIncidentAlreadyOpen | ErrNoOpenIncident | ErrMonitorGone

definition open_for :: "int \<Rightarrow> incident \<Rightarrow> bool" where
  "open_for m x \<longleftrightarrow> i_MonitorID x = m \<and> i_ResolvedAt x = None"

definition Resolved :: "incident \<Rightarrow> bool" where
  "Resolved x \<longleftrightarrow> i_ResolvedAt x \<noteq> None"

definition new_incident :: "int \<Rightarrow> int \<Rightarrow> instant \<Rightarrow> string \<Rightarrow> string \<Rightarrow> incident" where
  "new_incident i m seen cause err = \<lparr>i_ID = i, i_MonitorID = m, i_StartedAt = to_second seen,
     i_ConfirmedAt = None, i_ResolvedAt = None, i_AckedAt = None, i_Cause = cause, i_LastError = err,
     i_RemindedAt = None, i_ReminderCount = 0, i_MaintenancePending = False, i_Notice = False,
     i_AlertOwed = False\<rparr>"

definition insert_incident :: "int \<Rightarrow> incident \<Rightarrow> database \<Rightarrow> incident_error + incident \<times> database" where
  "insert_incident m x s =
     (if list_ex (open_for m) (db_incidents s) then Inl ErrIncidentAlreadyOpen
      else if m \<notin> db_monitors s then Inl ErrMonitorGone
      else Inr (x, s\<lparr>db_incidents := db_incidents s @ [x], db_nextIncident := db_nextIncident s + 1\<rparr>))"

definition OpenIncident ::
  "int \<Rightarrow> instant \<Rightarrow> string \<Rightarrow> string \<Rightarrow> database \<Rightarrow> incident_error + incident \<times> database" where
  "OpenIncident m seen cause err s = insert_incident m (new_incident (db_nextIncident s) m seen cause err) s"

definition OpenNotice ::
  "int \<Rightarrow> instant \<Rightarrow> string \<Rightarrow> string \<Rightarrow> database \<Rightarrow> incident_error + incident \<times> database" where
  "OpenNotice m seen cause err s =
     insert_incident m ((new_incident (db_nextIncident s) m seen cause err)
       \<lparr>i_ConfirmedAt := Some (to_second seen), i_Notice := True\<rparr>) s"

definition confirmIncident ::
  "bool \<Rightarrow> int \<Rightarrow> instant \<Rightarrow> string \<Rightarrow> string \<Rightarrow> database \<Rightarrow> incident_error + database" where
  "confirmIncident owed m seen cause err s =
     (if \<not> list_ex (open_for m) (db_incidents s) then Inl ErrNoOpenIncident
      else Inr (update_incidents (open_for m) (\<lambda>x. x\<lparr>
        i_ConfirmedAt := (case i_ConfirmedAt x of None \<Rightarrow> Some (to_second seen) | Some t \<Rightarrow> Some t),
        i_Cause := cause, i_LastError := err, i_AlertOwed := (owed \<or> i_AlertOwed x)\<rparr>) s))"

definition OpenIncidentFor :: "int \<Rightarrow> database \<Rightarrow> incident option" where
  "OpenIncidentFor m s = find (open_for m) (db_incidents s)"

definition ResolveIncident :: "int \<Rightarrow> instant \<Rightarrow> database \<Rightarrow> incident_error + incident \<times> database" where
  "ResolveIncident m seen s =
     (case OpenIncidentFor m s of
        None \<Rightarrow> Inl ErrNoOpenIncident
      | Some x \<Rightarrow> Inr (x\<lparr>i_ResolvedAt := Some (to_second seen)\<rparr>,
          update_incidents (\<lambda>y. i_ID y = i_ID x) (\<lambda>y. y\<lparr>i_ResolvedAt := Some (to_second seen)\<rparr>) s))"

definition UpdateIncidentError :: "int \<Rightarrow> string \<Rightarrow> string \<Rightarrow> database \<Rightarrow> database" where
  "UpdateIncidentError m cause err =
     update_incidents (open_for m) (\<lambda>x. x\<lparr>i_Cause := cause, i_LastError := err\<rparr>)"

text \<open>\<open>AckIncident\<close> and \<open>RecordReminder\<close> say so when no row matched.\<close>

definition AckIncident :: "int \<Rightarrow> instant \<Rightarrow> database \<Rightarrow> database option" where
  "AckIncident i seen s =
     (if \<not> incident_exists i s then None
      else Some (update_incidents (\<lambda>x. i_ID x = i)
        (\<lambda>x. x\<lparr>i_AckedAt := (case i_AckedAt x of None \<Rightarrow> Some (to_second seen) | Some t \<Rightarrow> Some t)\<rparr>) s))"

definition remindable_now :: "int \<Rightarrow> incident \<Rightarrow> bool" where
  "remindable_now i x \<longleftrightarrow> i_ID x = i \<and> i_ResolvedAt x = None \<and> i_AckedAt x = None"

definition RecordReminder :: "int \<Rightarrow> instant \<Rightarrow> database \<Rightarrow> incident_error + database" where
  "RecordReminder i seen s =
     (if \<not> list_ex (remindable_now i) (db_incidents s) then Inl ErrNoOpenIncident
      else Inr (update_incidents (remindable_now i)
        (\<lambda>x. x\<lparr>i_RemindedAt := Some (to_second seen), i_ReminderCount := i_ReminderCount x + 1\<rparr>) s))"

definition SetMaintenancePending :: "int \<Rightarrow> bool \<Rightarrow> database \<Rightarrow> database" where
  "SetMaintenancePending i pending =
     update_incidents (\<lambda>x. i_ID x = i) (\<lambda>x. x\<lparr>i_MaintenancePending := pending\<rparr>)"

definition ListOpenIncidents :: "database \<Rightarrow> incident list" where
  "ListOpenIncidents s = sort_key (\<lambda>x. - i_StartedAt x) (rev (sort_key i_ID
     (filter (\<lambda>x. i_ResolvedAt x = None) (db_incidents s))))"

text \<open>\<open>RemindableIncidents\<close>; \<open>repeat_after\<close> is the monitor's setting, when the monitor is enabled.\<close>

definition RemindableIncidents ::
  "(int \<rightharpoonup> duration) \<Rightarrow> database \<Rightarrow> (incident \<times> duration) list" where
  "RemindableIncidents repeat_after s =
     List.map_filter (\<lambda>x. case repeat_after (i_MonitorID x) of
         None \<Rightarrow> None
       | Some d \<Rightarrow> if 0 < d \<and> i_ResolvedAt x = None \<and> i_AckedAt x = None \<and> i_ConfirmedAt x \<noteq> None
                  then Some (x, d) else None)
       (sort_key i_ID (db_incidents s))"

definition OwedIncidents :: "database \<Rightarrow> incident list" where
  "OwedIncidents s = sort_key i_ID (filter (\<lambda>x. i_AlertOwed x \<and> i_ResolvedAt x = None \<and> i_ConfirmedAt x \<noteq> None)
     (db_incidents s))"

section \<open>Heartbeats\<close>

definition RecordHeartbeat :: "heartbeat \<Rightarrow> database \<Rightarrow> database" where
  "RecordHeartbeat hb s = s\<lparr>db_heartbeats := db_heartbeats s @ [hb\<lparr>hb_TS := to_second (hb_TS hb)\<rparr>]\<rparr>"

text \<open>A reason goes with a failed heartbeat without a response only; anything else is an error.\<close>

definition RecordHeartbeatWithCaptureReason :: "heartbeat \<Rightarrow> string \<Rightarrow> database \<Rightarrow> database option" where
  "RecordHeartbeatWithCaptureReason hb reason s =
     (if reason = [] then Some (RecordHeartbeat (hb\<lparr>hb_CaptureReason := []\<rparr>) s)
      else if hb_OK hb \<or> hb_Response hb \<noteq> None then None
      else Some (RecordHeartbeat (hb\<lparr>hb_CaptureReason := reason\<rparr>) s))"

definition FailureKindLocalNetwork :: string where
  "FailureKindLocalNetwork = ''local_network''"

definition FailureKindLocalDNS :: string where
  "FailureKindLocalDNS = ''local_dns''"

definition counts_against :: "int \<Rightarrow> instant \<Rightarrow> heartbeat \<Rightarrow> bool" where
  "counts_against m since h \<longleftrightarrow> hb_MonitorID h = m \<and> to_second since \<le> hb_TS h \<and> \<not> hb_OK h \<and>
     hb_FailureKind h \<noteq> FailureKindLocalNetwork \<and> hb_FailureKind h \<noteq> FailureKindLocalDNS"

definition CountSnapshotsSince :: "int \<Rightarrow> instant \<Rightarrow> int \<Rightarrow> database \<Rightarrow> int" where
  "CountSnapshotsSince m since limit s =
     (if limit \<le> 0 then 0
      else min limit (int (length (filter (\<lambda>h. hb_MonitorID h = m \<and> to_second since \<le> hb_TS h \<and>
        hb_Response h \<noteq> None) (db_heartbeats s)))))"

definition CountFailedHeartbeatsSince :: "int \<Rightarrow> instant \<Rightarrow> int \<Rightarrow> database \<Rightarrow> int" where
  "CountFailedHeartbeatsSince m since limit s =
     (if limit \<le> 0 then 0
      else min limit (int (length (filter (counts_against m since) (db_heartbeats s)))))"

text \<open>
  The failures later than the latest pass, the newest \<open>limit\<close> of them, with the time of the first; the
  time 0 of \<open>coalesce\<close> is the Unix epoch.
\<close>

definition unix_epoch :: instant where
  "unix_epoch = seconds 62135596800"

definition last_pass :: "int \<Rightarrow> instant \<Rightarrow> database \<Rightarrow> instant" where
  "last_pass m since s =
     (case map hb_TS (filter (\<lambda>h. hb_MonitorID h = m \<and> to_second since \<le> hb_TS h \<and> hb_OK h) (db_heartbeats s)) of
        [] \<Rightarrow> unix_epoch | t # ts \<Rightarrow> foldl max t ts)"

definition FailedStreakAfterLastPass :: "int \<Rightarrow> instant \<Rightarrow> int \<Rightarrow> database \<Rightarrow> int \<times> instant" where
  "FailedStreakAfterLastPass m since limit s =
     (if limit \<le> 0 then (0, 0)
      else
        let ts = take (nat limit) (rev (sort (map hb_TS (filter (\<lambda>h. counts_against m since h \<and>
                   last_pass m since s < hb_TS h) (db_heartbeats s)))))
        in (int (length ts), case ts of [] \<Rightarrow> 0 | t # ts' \<Rightarrow> foldl min t ts'))"

definition RecordUnknownCheck :: "int \<Rightarrow> instant \<Rightarrow> string \<Rightarrow> database \<Rightarrow> database" where
  "RecordUnknownCheck m seen reason s = s\<lparr>db_unknown := (db_unknown s)(m \<mapsto> (to_second seen, reason))\<rparr>"

definition ClearUnknownCheck :: "int \<Rightarrow> database \<Rightarrow> database" where
  "ClearUnknownCheck m s = s\<lparr>db_unknown := (db_unknown s)(m := None)\<rparr>"

section \<open>The invariant of the table\<close>

text \<open>Ids are unique and below the next one, and a monitor has at most one open incident.\<close>

definition incidents_ok :: "database \<Rightarrow> bool" where
  "incidents_ok s \<longleftrightarrow>
     distinct (map i_ID (db_incidents s)) \<and> (\<forall>x\<in>set (db_incidents s). i_ID x < db_nextIncident s) \<and>
     distinct (map i_MonitorID (filter (\<lambda>x. i_ResolvedAt x = None) (db_incidents s))) \<and>
     (\<forall>x\<in>set (db_incidents s). i_Notice x \<longrightarrow> i_ConfirmedAt x \<noteq> None)"

lemma distinct_filter_update:
  assumes "\<And>x. k (g x) = k x" "\<And>x. P (g x) \<Longrightarrow> P x" "distinct (map k (filter P xs))"
  shows "distinct (map k (filter P (map g xs)))"
  using assms(3)
proof (induction xs)
  case (Cons x xs)
  have "k x \<notin> k ` set (filter P (map g xs))" if "k x \<notin> k ` set (filter P xs)"
  proof
    assume "k x \<in> k ` set (filter P (map g xs))"
    then obtain y where "y \<in> set xs" "P (g y)" "k x = k (g y)" by auto
    then show False using that assms(1) [of y] assms(2) [of y] by auto
  qed
  then show ?case using Cons assms(1) [of x] assms(2) [of x] by (cases "P x") auto
qed simp

lemma update_incidents_ok:
  assumes "incidents_ok s"
    and "\<And>x. i_ID (f x) = i_ID x \<and> i_MonitorID (f x) = i_MonitorID x"
    and "\<And>x. i_ResolvedAt (f x) = None \<Longrightarrow> i_ResolvedAt x = None"
    and "\<And>x. i_Notice (f x) = i_Notice x \<and> (i_ConfirmedAt x \<noteq> None \<longrightarrow> i_ConfirmedAt (f x) \<noteq> None)"
  shows "incidents_ok (update_incidents P f s)"
proof -
  define g where "g x = (if P x then f x else x)" for x
  have g: "i_ID (g x) = i_ID x" "i_MonitorID (g x) = i_MonitorID x" "i_ResolvedAt (g x) = None \<Longrightarrow> i_ResolvedAt x = None"
    "(i_Notice x \<longrightarrow> i_ConfirmedAt x \<noteq> None) \<Longrightarrow> (i_Notice (g x) \<longrightarrow> i_ConfirmedAt (g x) \<noteq> None)" for x
    using assms(2-4) [of x] by (simp_all only: g_def split: if_splits) blast+
  have eq: "update_incidents P f s = s\<lparr>db_incidents := map g (db_incidents s)\<rparr>"
    by (simp add: update_incidents_def g_def [abs_def])
  have ids: "map i_ID (map g (db_incidents s)) = map i_ID (db_incidents s)" by (simp add: g(1))
  have ok: "distinct (map i_ID (db_incidents s))" "\<forall>x\<in>set (db_incidents s). i_ID x < db_nextIncident s"
    "distinct (map i_MonitorID (filter (\<lambda>x. i_ResolvedAt x = None) (db_incidents s)))"
    "\<forall>x\<in>set (db_incidents s). i_Notice x \<longrightarrow> i_ConfirmedAt x \<noteq> None"
    using assms(1) unfolding incidents_ok_def by blast+
  have "\<forall>y\<in>set (map g (db_incidents s)). i_ID y < db_nextIncident s" using ok(2) by (simp add: g(1))
  moreover have "\<forall>y\<in>set (map g (db_incidents s)). i_Notice y \<longrightarrow> i_ConfirmedAt y \<noteq> None"
    using ok(4) g(4) unfolding set_map ball_simps by blast
  moreover have "distinct (map i_MonitorID (filter (\<lambda>x. i_ResolvedAt x = None) (map g (db_incidents s))))"
    by (rule distinct_filter_update [OF g(2) g(3) ok(3)])
  ultimately show ?thesis
    unfolding incidents_ok_def eq using ok(1) unfolding ids [symmetric] by simp
qed

lemma insert_incident_ok:
  assumes "incidents_ok s" "insert_incident m x s = Inr (y, s')"
    and "i_ID x = db_nextIncident s" "i_MonitorID x = m" "i_Notice x \<longrightarrow> i_ConfirmedAt x \<noteq> None"
  shows "incidents_ok s'"
proof -
  have s': "s' = s\<lparr>db_incidents := db_incidents s @ [x], db_nextIncident := db_nextIncident s + 1\<rparr>"
    "\<forall>y\<in>set (db_incidents s). \<not> open_for m y"
    using assms(2) by (auto simp: insert_incident_def list_ex_iff split: if_splits)
  have ok: "distinct (map i_ID (db_incidents s))" "\<forall>y\<in>set (db_incidents s). i_ID y < db_nextIncident s"
    "distinct (map i_MonitorID (filter (\<lambda>y. i_ResolvedAt y = None) (db_incidents s)))"
    "\<forall>y\<in>set (db_incidents s). i_Notice y \<longrightarrow> i_ConfirmedAt y \<noteq> None"
    using assms(1) unfolding incidents_ok_def by blast+
  have "m \<notin> i_MonitorID ` set (filter (\<lambda>y. i_ResolvedAt y = None) (db_incidents s))"
    using s'(2) unfolding open_for_def by auto
  then have "distinct (map i_MonitorID (filter (\<lambda>y. i_ResolvedAt y = None) (db_incidents s @ [x])))"
    using ok(3) assms(4) by simp
  moreover have "distinct (map i_ID (db_incidents s @ [x]))" using ok(1,2) assms(3) by auto
  moreover have "\<forall>y\<in>set (db_incidents s @ [x]). i_ID y < db_nextIncident s + 1" using ok(2) assms(3) by auto
  moreover have "\<forall>y\<in>set (db_incidents s @ [x]). i_Notice y \<longrightarrow> i_ConfirmedAt y \<noteq> None"
    using ok(4) assms(5) by simp
  ultimately show ?thesis unfolding incidents_ok_def s'(1) by simp
qed

lemma open_incident_unique:
  assumes "incidents_ok s" "x \<in> set (db_incidents s)" "y \<in> set (db_incidents s)" "open_for m x" "open_for m y"
  shows "x = y"
proof -
  let ?os = "filter (\<lambda>x. i_ResolvedAt x = None) (db_incidents s)"
  have "inj_on i_MonitorID (set ?os)" using assms(1) by (simp add: incidents_ok_def distinct_map)
  then show ?thesis using assms(2-5) by (auto simp: open_for_def inj_on_def)
qed

lemma OpenIncidentFor_iff:
  assumes "incidents_ok s"
  shows "OpenIncidentFor m s = Some x \<longleftrightarrow> x \<in> set (db_incidents s) \<and> open_for m x"
proof
  assume "OpenIncidentFor m s = Some x"
  then show "x \<in> set (db_incidents s) \<and> open_for m x" by (auto simp: OpenIncidentFor_def find_Some_iff)
next
  assume x: "x \<in> set (db_incidents s) \<and> open_for m x"
  then obtain y where y: "find (open_for m) (db_incidents s) = Some y"
    by (cases "find (open_for m) (db_incidents s)") (auto simp: find_None_iff)
  then have "y \<in> set (db_incidents s) \<and> open_for m y" by (auto simp: find_Some_iff)
  then show "OpenIncidentFor m s = Some x"
    using open_incident_unique [OF assms, of y x m] x y by (simp add: OpenIncidentFor_def)
qed

lemma OpenIncidentFor_None: "OpenIncidentFor m s = None \<longleftrightarrow> \<not> list_ex (open_for m) (db_incidents s)"
  by (auto simp: OpenIncidentFor_def find_None_iff list_ex_iff)

lemma OpenIncidentFor_update:
  assumes "\<And>x. open_for m (if P x then f x else x) = open_for m x"
  shows "OpenIncidentFor m (update_incidents P f s) =
    map_option (\<lambda>x. if P x then f x else x) (OpenIncidentFor m s)"
proof -
  have "find (open_for m) (map (\<lambda>x. if P x then f x else x) xs) =
      map_option (\<lambda>x. if P x then f x else x) (find (open_for m) xs)" for xs
    using assms by (induction xs) auto
  then show ?thesis by (simp add: OpenIncidentFor_def update_incidents_def)
qed

end
