(* ===== verification/Runner.thy ===== *)
theory Runner
  imports Incidents Scheduler Canary
begin

text \<open>
  The runner (\<open>internal/monitor/runner.go\<close>): it records what a check found, drives the state engine, writes
  the incident side of every transition, and says who is to be told. The engine, the scheduler's queue,
  the connectivity canary and the tables are the ones of the other theories; what the runner hands to
  the event bus and to the notifier is a list each.

  A statement that fails is an input: \<open>v_fails\<close> names the database calls that return an error, and such a
  call writes nothing.
\<close>

section \<open>What the runner works on\<close>

record checkedMonitor = monitor +
  cm_Retries :: int
  cm_RecoveryThreshold :: int
  cm_CaptureResponse :: bool

record checkResult = result +
  cr_Latency :: int
  cr_StatusCode :: int
  cr_Expiring :: bool
  cr_ResolverFailed :: bool
  cr_Peer :: "string option"
  cr_Response :: "snapshot option"

record checkOutcome =
  co_Monitor :: checkedMonitor
  co_Result :: checkResult
  co_Aborted :: bool

datatype db_call =
    CReadMaintenance | CHeartbeat | CUnknown | CClearUnknown
  | CUpdateError | COpen | COpenNotice | CReload | CResolve
  | CCloseNotice | COpenReplacing | CConfirm | COpenOnConfirm | CConfirmOpened
  | CSetPending | CReadOpen | CReadPendingChannels | CGetMonitor

datatype runner_error = Failed db_call | Refused incident_error

datatype frame =
    HeartbeatFrame int instant bool string bool "bool option" string int int string "(int \<times> int) option" bool
  | StatusFrame int instant event string string bool bool
  | UnknownFrame int instant string

record runner =
  rn_engine :: engine
  rn_sch :: scheduler
  rn_canary :: "canary option"
  rn_db :: database
  rn_checks :: nat
  rn_hbFailures :: nat
  rn_frames :: "frame list"
  rn_alerts :: "(int \<times> incident \<times> event \<times> instant) list"

text \<open>The clock, the maintenance windows, the network and the notifier, as one recording finds them.\<close>

record env =
  v_now :: instant
  v_maintained :: bool
  v_maintainedNow :: "bool option"
  v_ctxErr :: bool
  v_dial :: "string \<Rightarrow> bool"
  v_lookup :: "string \<Rightarrow> lookup_error option"
  v_public :: "string \<Rightarrow> bool"
  v_draws :: draws
  v_notify :: bool
  v_fails :: "db_call \<Rightarrow> bool"

definition zero_incident :: incident where
  "zero_incident = \<lparr>i_ID = 0, i_MonitorID = 0, i_StartedAt = 0, i_ConfirmedAt = None, i_ResolvedAt = None,
     i_AckedAt = None, i_Cause = [], i_LastError = [], i_RemindedAt = None, i_ReminderCount = 0,
     i_MaintenancePending = False, i_Notice = False, i_AlertOwed = False\<rparr>"

section \<open>The incident side of a transition\<close>

text \<open>
  \<open>confirmOutage\<close>. A notice the outage replaces is closed where the outage began, and the outage is a
  new incident from there; without a pending phase the incident is opened now.
\<close>

definition confirm_or_open ::
  "env \<Rightarrow> int \<Rightarrow> transition \<Rightarrow> bool \<Rightarrow> database \<Rightarrow> runner_error option \<times> database" where
  "confirm_or_open v m t owed s =
     (if v_fails v CConfirm then (Some (Failed CConfirm), s)
      else case confirmIncident owed m (t_At t) (t_Cause t) (t_Error t) s of
        Inr s' \<Rightarrow> (None, s')
      | Inl _ \<Rightarrow>
          if v_fails v COpenOnConfirm then (Some (Failed COpenOnConfirm), s)
          else case OpenIncident m (t_At t) (t_Cause t) (t_Error t) s of
            Inl err \<Rightarrow> (Some (Refused err), s)
          | Inr (x, s1) \<Rightarrow>
              if v_fails v CConfirmOpened then (Some (Failed CConfirmOpened), s1)
              else case confirmIncident owed m (t_At t) (t_Cause t) (t_Error t) s1 of
                Inl err \<Rightarrow> (Some (Refused err), s1)
              | Inr s2 \<Rightarrow> (None, s2))"

definition close_notice :: "env \<Rightarrow> int \<Rightarrow> transition \<Rightarrow> database \<Rightarrow> runner_error option \<times> database" where
  "close_notice v m t s =
     (if v_fails v CCloseNotice then (Some (Failed CCloseNotice), s)
      else
        let s1 = (case ResolveIncident m (t_StartedAt t) s of Inl _ \<Rightarrow> s | Inr (x, s1) \<Rightarrow> s1) in
        if v_fails v COpenReplacing then (Some (Failed COpenReplacing), s1)
        else case OpenIncident m (t_StartedAt t) (t_Cause t) (t_Error t) s1 of
          Inl err \<Rightarrow> (Some (Refused err), s1)
        | Inr (x, s2) \<Rightarrow> (None, s2))"

definition reload_incident :: "env \<Rightarrow> int \<Rightarrow> database \<Rightarrow> incident" where
  "reload_incident v m s =
     (if v_fails v CReload then zero_incident
      else case OpenIncidentFor m s of None \<Rightarrow> zero_incident | Some x \<Rightarrow> x)"

definition confirmOutage ::
  "env \<Rightarrow> int \<Rightarrow> transition \<Rightarrow> bool \<Rightarrow> database \<Rightarrow> runner_error option \<times> incident \<times> database" where
  "confirmOutage v m t owed s =
     (case (if t_Replaces t then close_notice v m t s else (None, s)) of
        (Some err, s1) \<Rightarrow> (Some err, zero_incident, s1)
      | (None, s1) \<Rightarrow>
          case confirm_or_open v m t owed s1 of
            (Some err, s2) \<Rightarrow> (Some err, zero_incident, s2)
          | (None, s2) \<Rightarrow> (None, reload_incident v m s2, s2))"

text \<open>
  The switch of \<open>applyTransition\<close>: \<open>Inl\<close> is an early return with its error, \<open>Inr\<close> the incident the rest
  works on and the error kept for the end.
\<close>

definition switch_event ::
  "env \<Rightarrow> checkOutcome \<Rightarrow> transition \<Rightarrow> database \<Rightarrow>
     runner_error option \<times> database + incident \<times> runner_error option \<times> database" where
  "switch_event v co t s =
     (let m = m_ID (co_Monitor co) in
      case t_Event t of
        EventNone \<Rightarrow>
          if (\<not> r_OK (co_Result co) \<and> \<not> t_Notice t) \<or> t_To t = StatusExpiring
          then if v_fails v CUpdateError then Inr (zero_incident, Some (Failed CUpdateError), s)
               else Inr (zero_incident, None, UpdateIncidentError m (t_Cause t) (t_Error t) s)
          else Inr (zero_incident, None, s)
      | EventIncidentOpened \<Rightarrow>
          if v_fails v COpen then Inl (Some (Failed COpen), s)
          else (case OpenIncident m (t_At t) (t_Cause t) (t_Error t) s of
                  Inl err \<Rightarrow> Inl (Some (Refused err), s)
                | Inr (x, s') \<Rightarrow> Inr (x, None, s'))
      | EventIncidentConfirmed \<Rightarrow>
          if \<not> t_Notice t then
            (case confirmOutage v m t (t_Notify t \<and> \<not> v_maintained v \<and> v_notify v) s of
               (Some err, _, s') \<Rightarrow> Inl (Some err, s')
             | (None, x, s') \<Rightarrow> Inr (x, None, s'))
          else if v_fails v COpenNotice then Inl (Some (Failed COpenNotice), s)
          else (case OpenNotice m (t_At t) (t_Cause t) (t_Error t) s of
                  Inl err \<Rightarrow> Inl (Some (Refused err), s)
                | Inr (x, s') \<Rightarrow> Inr (reload_incident v m s', None, s'))
      | EventIncidentResolved \<Rightarrow>
          if v_fails v CResolve then Inl (Some (Failed CResolve), s)
          else (case ResolveIncident m (t_RecoveredAt t) s of
                  Inl _ \<Rightarrow> Inl (None, s)
                | Inr (x, s') \<Rightarrow> Inr (x, None, s'))
      | EventIncidentReminder \<Rightarrow> Inr (zero_incident, None, s))"

text \<open>
  A confirmation in maintenance is remembered; the first check after it that still sees the outage or the
  notice announces it. \<open>Inl\<close> is an early return.
\<close>

definition deferred ::
  "env \<Rightarrow> int \<Rightarrow> transition \<Rightarrow> incident \<Rightarrow> database \<Rightarrow> runner_error + transition \<times> incident" where
  "deferred v m t x s =
     (if \<not> v_maintained v \<and> (t_To t = StatusDown \<or> t_To t = StatusExpiring) \<and> t_Event t = EventNone then
        if v_fails v CReadOpen then Inl (Failed CReadOpen)
        else case OpenIncidentFor m s of
          None \<Rightarrow> Inl (Refused ErrNoOpenIncident)
        | Some pending \<Rightarrow>
            if v_fails v CReadPendingChannels then Inl (Failed CReadPendingChannels)
            else if (i_MaintenancePending pending \<or>
                     list_ex (\<lambda>((i, c), p). i = i_ID pending \<and> p) (db_maintAlerts s)) \<and> \<not> t_Flapping t
            then Inr (t\<lparr>t_Event := EventIncidentConfirmed, t_Notify := True\<rparr>, pending)
            else Inr (t, x)
      else Inr (t, x))"

definition silence :: "env \<Rightarrow> incident \<Rightarrow> transition \<Rightarrow> transition" where
  "silence v x t =
     (if v_maintained v \<or> (t_Event t = EventIncidentResolved \<and> i_MaintenancePending x)
      then t\<lparr>t_Suppressed := (t_Suppressed t \<or> t_Notify t), t_Notify := False\<rparr> else t)"

definition announce :: "env \<Rightarrow> int \<Rightarrow> transition \<Rightarrow> incident \<Rightarrow> runner \<Rightarrow> runner" where
  "announce v m t x w =
     (let w1 = (if t_Event t = EventNone then w
                else w\<lparr>rn_frames := rn_frames w @
                  [StatusFrame m (t_At t) (t_Event t) (t_Cause t) (t_Error t) (t_Suppressed t) (t_Notice t)]\<rparr>)
      in if \<not> t_Notify t \<or> \<not> v_notify v \<or> t_Event t = EventNone \<or> v_fails v CGetMonitor then w1
         else w1\<lparr>rn_alerts := rn_alerts w1 @ [(m, x, t_Event t, t_At t)]\<rparr>)"

definition applyTransition ::
  "env \<Rightarrow> checkOutcome \<Rightarrow> transition \<Rightarrow> runner \<Rightarrow> runner_error option \<times> runner" where
  "applyTransition v co t w =
     (let m = m_ID (co_Monitor co) in
      case switch_event v co t (rn_db w) of
        Inl (err, s) \<Rightarrow> (err, w\<lparr>rn_db := s\<rparr>)
      | Inr (x, err, s) \<Rightarrow>
          let remember = (t_Event t = EventIncidentConfirmed \<and> v_maintained v) in
          if remember \<and> v_fails v CSetPending then (Some (Failed CSetPending), w\<lparr>rn_db := s\<rparr>)
          else
            let s1 = (if remember then SetMaintenancePending (i_ID x) True s else s) in
            case deferred v m t x s1 of
              Inl err' \<Rightarrow> (Some err', w\<lparr>rn_db := s1\<rparr>)
            | Inr (t1, x1) \<Rightarrow> (err, announce v m (silence v x1 t1) x1 (w\<lparr>rn_db := s1\<rparr>)))"

section \<open>What a check result says about the host\<close>

definition network_kinds :: "string list" where
  "network_kinds = [''dns'', ''connection'', ''timeout'']"

definition localNetworkFailure :: "env \<Rightarrow> checkOutcome \<Rightarrow> runner \<Rightarrow> (bool \<times> bool) \<times> runner" where
  "localNetworkFailure v co w =
     (let m = co_Monitor co; r = co_Result co in
      case rn_canary w of
        None \<Rightarrow> ((False, False), w)
      | Some c \<Rightarrow>
          if r_OK r \<or> r_Kind r \<notin> set network_kinds \<or> \<not> WouldConfirm (rn_engine w) (m_ID m) (cm_Retries m)
          then ((False, False), w)
          else
            let (c1, offline, _) = Offline (v_ctxErr v) (v_dial v) (v_now v) c in
            if offline then ((True, False), w\<lparr>rn_canary := Some c1\<rparr>)
            else if \<not> cr_ResolverFailed r then ((False, False), w\<lparr>rn_canary := Some c1\<rparr>)
            else
              let (c2, down, _) = ResolverDown (v_ctxErr v) (v_lookup v) (v_now v) c1
              in ((down, down), w\<lparr>rn_canary := Some c2\<rparr>))"

definition reportPublicPeer :: "env \<Rightarrow> checkOutcome \<Rightarrow> runner \<Rightarrow> runner" where
  "reportPublicPeer v co w =
     (case (rn_canary w, cr_Peer (co_Result co)) of
        (Some c, Some peer) \<Rightarrow>
          if v_public v peer
          then w\<lparr>rn_canary := Some (fst (PublicReached (v_ctxErr v) (v_dial v) (r_CheckedAt (co_Result co)) (v_now v) c))\<rparr>
          else w
      | _ \<Rightarrow> w)"

definition maxSnapshotsPerIncident :: int where
  "maxSnapshotsPerIncident = 3"

definition snapshotToStore :: "checkResult \<Rightarrow> int \<Rightarrow> bool \<Rightarrow> snapshot option \<times> string" where
  "snapshotToStore r spent flapping =
     (if cr_Response r = None \<or> r_OK r then (None, [])
      else if flapping then (None, ''flapping'')
      else if maxSnapshotsPerIncident \<le> spent then (None, ''budget'')
      else (cr_Response r, []))"

fun status_string :: "status \<Rightarrow> string" where
  "status_string StatusUnknown = ''unknown''"
| "status_string StatusUp = ''up''"
| "status_string StatusWarning = ''warning''"
| "status_string StatusDown = ''down''"
| "status_string StatusRecovering = ''recovering''"
| "status_string StatusExpiring = ''expiring''"

definition heartbeatAssessment :: "status \<Rightarrow> string" where
  "heartbeatAssessment s =
     (if s = StatusRecovering \<or> s = StatusExpiring then status_string StatusUp else status_string s)"

definition recoveryFor :: "transition \<Rightarrow> (int \<times> int) option" where
  "recoveryFor t =
     (if t_To t \<noteq> StatusRecovering then None else Some (t_ConsecutiveOKs t, t_RecoveryThreshold t))"

section \<open>Recording an outcome\<close>

text \<open>\<open>recordUnknown\<close>: a check that could not find out is neither a heartbeat nor an observation.\<close>

definition recordUnknown :: "env \<Rightarrow> checkOutcome \<Rightarrow> runner \<Rightarrow> runner_error list \<times> runner" where
  "recordUnknown v co w =
     (let r = co_Result co; m = m_ID (co_Monitor co);
          seen = (if is_zero (r_CheckedAt r) then v_now v else r_CheckedAt r)
      in if v_fails v CUnknown then ([Failed CUnknown], w\<lparr>rn_hbFailures := rn_hbFailures w + 1\<rparr>)
         else ([], w\<lparr>rn_db := RecordUnknownCheck m seen (r_Error r) (rn_db w), rn_checks := rn_checks w + 1,
                     rn_frames := rn_frames w @ [UnknownFrame m seen (r_Error r)]\<rparr>))"

definition observation_of :: "checkOutcome \<Rightarrow> instant \<Rightarrow> bool \<Rightarrow> bool \<Rightarrow> observation" where
  "observation_of co ts lnet ldns =
     (let m = co_Monitor co; r = co_Result co in
      \<lparr>o_MonitorID = m_ID m, o_OK = r_OK r, o_At = ts, o_Kind = r_Kind r, o_Error = r_Error r,
       o_Expiring = (r_OK r \<and> cr_Expiring r), o_FailureThreshold = cm_Retries m,
       o_RecoveryThreshold = cm_RecoveryThreshold m, o_LocalNetwork = lnet, o_LocalDNS = ldns\<rparr>)"

text \<open>The engine sees the check once, or twice when it ends an outage with an expiring certificate.\<close>

definition observe_check :: "env \<Rightarrow> observation \<Rightarrow> engine \<Rightarrow> engine \<times> transition list" where
  "observe_check v ob e =
     (let (e1, t) = Observe (v_now v) e ob in
      if o_Expiring ob \<and> t_Event t = EventIncidentResolved \<and> \<not> t_Notice t
      then let (e2, t2) = Observe (v_now v) e1 ob in (e2, [t, t2])
      else (e1, [t]))"

definition heartbeat_of ::
  "env \<Rightarrow> checkOutcome \<Rightarrow> instant \<Rightarrow> bool \<Rightarrow> bool \<Rightarrow> transition \<Rightarrow> transition \<Rightarrow> heartbeat" where
  "heartbeat_of v co ts lnet ldns first final =
     (let r = co_Result co in
      \<lparr>hb_MonitorID = m_ID (co_Monitor co), hb_TS = ts, hb_OK = r_OK r, hb_LatencyMS = cr_Latency r,
       hb_StatusCode = cr_StatusCode r, hb_Error = (if r_OK r then [] else r_Error r),
       hb_Response = fst (snapshotToStore r (t_SnapshotsSpent first) (t_Flapping first)),
       hb_Assessment = heartbeatAssessment (t_To final),
       hb_FailureKind = (if ldns then FailureKindLocalDNS else if lnet then FailureKindLocalNetwork
                         else if r_OK r then [] else r_Kind r),
       hb_Maintenance = v_maintained v, hb_CaptureReason = []\<rparr>)"

definition capture_reason :: "checkOutcome \<Rightarrow> transition \<Rightarrow> string" where
  "capture_reason co first =
     (let r = co_Result co; m = co_Monitor co in
      if \<not> r_OK r \<and> cr_Response r = None \<and> r_Kind r \<in> {''status'', ''keyword'', ''assertion''} \<and>
         m_Type m = ''http'' \<and> \<not> cm_CaptureResponse m
      then ''disabled'' else snd (snapshotToStore r (t_SnapshotsSpent first) (t_Flapping first)))"

definition write_heartbeat ::
  "env \<Rightarrow> heartbeat \<Rightarrow> string \<Rightarrow> runner \<Rightarrow> runner_error option \<times> runner" where
  "write_heartbeat v hb reason w =
     (case (if v_fails v CHeartbeat then None else RecordHeartbeatWithCaptureReason hb reason (rn_db w)) of
        None \<Rightarrow> (Some (Failed CHeartbeat), w\<lparr>rn_hbFailures := rn_hbFailures w + 1\<rparr>)
      | Some s \<Rightarrow>
          (None, w\<lparr>rn_db := s, rn_checks := rn_checks w + 1,
                   rn_engine := (if hb_Response hb \<noteq> None then fst (SpendSnapshot (hb_MonitorID hb) (rn_engine w))
                                 else rn_engine w)\<rparr>))"

definition clear_unknown :: "env \<Rightarrow> checkOutcome \<Rightarrow> bool \<Rightarrow> runner \<Rightarrow> runner_error option \<times> runner" where
  "clear_unknown v co stored w =
     (if m_Type (co_Monitor co) = TypeDomain \<and> stored then
        if v_fails v CClearUnknown then (Some (Failed CClearUnknown), w)
        else (None, w\<lparr>rn_db := ClearUnknownCheck (m_ID (co_Monitor co)) (rn_db w)\<rparr>)
      else (None, w))"

fun apply_all ::
  "env \<Rightarrow> checkOutcome \<Rightarrow> transition list \<Rightarrow> runner \<Rightarrow> runner_error list \<times> runner" where
  "apply_all v co [] w = ([], w)"
| "apply_all v co (t # ts) w =
     (let (err, w1) = applyTransition v co t w; (errs, w2) = apply_all v co ts w1
      in (case err of None \<Rightarrow> errs | Some x \<Rightarrow> x # errs, w2))"

definition heartbeat_frame :: "env \<Rightarrow> checkOutcome \<Rightarrow> heartbeat \<Rightarrow> transition \<Rightarrow> transition \<Rightarrow> frame" where
  "heartbeat_frame v co hb first final =
     HeartbeatFrame (m_ID (co_Monitor co)) (hb_TS hb) (hb_OK hb) (hb_Assessment hb) (hb_Maintenance hb)
       (v_maintainedNow v)
       (if t_To final = StatusExpiring then r_Kind (co_Result co) else hb_FailureKind hb)
       (hb_LatencyMS hb) (hb_StatusCode hb)
       (if t_To final = StatusExpiring then r_Error (co_Result co) else hb_Error hb)
       (recoveryFor first) (t_To final = StatusExpiring)"

definition record_observed ::
  "env \<Rightarrow> checkOutcome \<Rightarrow> instant \<Rightarrow> bool \<Rightarrow> bool \<Rightarrow> runner \<Rightarrow> runner_error list \<times> runner" where
  "record_observed v co ts lnet ldns w =
     (let (e, trs) = observe_check v (observation_of co ts lnet ldns) (rn_engine w);
          first = hd trs; final = last trs; m = m_ID (co_Monitor co);
          hb = heartbeat_of v co ts lnet ldns first final;
          w1 = w\<lparr>rn_engine := e, rn_sch := SetFailing (v_draws v) (v_now v) m (Failing (t_To final)) (rn_sch w)\<rparr>;
          (hbErr, w2) = write_heartbeat v hb (capture_reason co first) w1;
          w3 = w2\<lparr>rn_frames := rn_frames w2 @ [heartbeat_frame v co hb first final]\<rparr>;
          (clrErr, w4) = clear_unknown v co (hbErr = None) w3;
          (errs, w5) = apply_all v co trs w4
      in (List.map_filter id [hbErr, clrErr] @ errs, w5))"

definition recordOutcome :: "env \<Rightarrow> checkOutcome \<Rightarrow> runner \<Rightarrow> runner_error list \<times> runner" where
  "recordOutcome v co w =
     (let r = co_Result co in
      if co_Aborted co then ([], w)
      else if r_Kind r = ''unknown'' then recordUnknown v co w
      else
        let ts = (if is_zero (r_CheckedAt r) then v_now v else r_CheckedAt r) in
        if v_fails v CReadMaintenance
        then ([Failed CReadMaintenance], w\<lparr>rn_hbFailures := rn_hbFailures w + 1\<rparr>)
        else
          let ((lnet, ldns), w1) = localNetworkFailure v co (reportPublicPeer v co w)
          in record_observed v co ts lnet ldns w1)"

end
