(* ===== verification/RunnerProps.thy ===== *)
theory RunnerProps
  imports Runner EngineInvariant
begin

text \<open>
  The incident side of the runner: the phase a monitor's open incident is in, how every statement moves it,
  and the proof that the table follows the state engine as long as no incident write is lost.
\<close>

section \<open>The phase of the incident table\<close>

definition row_phase :: "incident \<Rightarrow> phase" where
  "row_phase x = (if i_Notice x then Notice else if i_ConfirmedAt x = None then Pending else Outage)"

definition table_phase :: "database \<Rightarrow> int \<Rightarrow> phase" where
  "table_phase s m = (case OpenIncidentFor m s of None \<Rightarrow> NoIncident | Some x \<Rightarrow> row_phase x)"

text \<open>\<open>moves s m p s'\<close>: the tables stay well formed and the incident of one monitor, of no other, is in phase \<open>p\<close> after.\<close>

definition moves :: "database \<Rightarrow> int \<Rightarrow> phase \<Rightarrow> database \<Rightarrow> bool" where
  "moves s m p s' \<longleftrightarrow> incidents_ok s' \<and> db_monitors s' = db_monitors s \<and>
     db_heartbeats s' = db_heartbeats s \<and> table_phase s' = (table_phase s)(m := p)"

lemma moves_refl: "incidents_ok s \<Longrightarrow> moves s m (table_phase s m) s"
  by (simp add: moves_def)

lemma moves_trans: "moves s m p s1 \<Longrightarrow> moves s1 m q s2 \<Longrightarrow> moves s m q s2"
  by (simp add: moves_def)

lemma moves_ok: "moves s m p s' \<Longrightarrow> incidents_ok s'"
  by (simp add: moves_def)

lemma moves_phase: "moves s m p s' \<Longrightarrow> table_phase s' m = p"
  by (simp add: moves_def)

lemma table_phase_None: "table_phase s m = NoIncident \<longleftrightarrow> OpenIncidentFor m s = None"
  by (simp add: table_phase_def row_phase_def split: option.split)

lemma open_listed: "list_ex (open_for m) (db_incidents s) \<longleftrightarrow> table_phase s m \<noteq> NoIncident"
  by (simp add: table_phase_None OpenIncidentFor_None)

lemma moves_update:
  assumes "incidents_ok s"
    and "\<And>x. i_ID (f x) = i_ID x \<and> i_MonitorID (f x) = i_MonitorID x \<and> i_ResolvedAt (f x) = i_ResolvedAt x \<and>
           i_Notice (f x) = i_Notice x \<and> (i_ConfirmedAt x \<noteq> None \<longrightarrow> i_ConfirmedAt (f x) \<noteq> None)"
    and "\<And>x. P x \<Longrightarrow> open_for m x \<or> row_phase (f x) = row_phase x"
    and "\<And>x. OpenIncidentFor m s = Some x \<Longrightarrow> row_phase (if P x then f x else x) = p"
    and "OpenIncidentFor m s = None \<Longrightarrow> p = NoIncident"
  shows "moves s m p (update_incidents P f s)"
proof -
  have ok: "incidents_ok (update_incidents P f s)"
    using update_incidents_ok [OF assms(1), of f P] assms(2) by simp
  have look: "OpenIncidentFor k (update_incidents P f s) =
      map_option (\<lambda>x. if P x then f x else x) (OpenIncidentFor k s)" for k
    by (rule OpenIncidentFor_update) (simp add: open_for_def assms(2))
  have other: "row_phase (if P x then f x else x) = row_phase x"
    if "OpenIncidentFor k s = Some x" "k \<noteq> m" for k x
    using that assms(3) [of x] by (auto simp: OpenIncidentFor_iff [OF assms(1)] open_for_def)
  have "table_phase (update_incidents P f s) k = table_phase s k" if "k \<noteq> m" for k
    using other [OF _ that] by (cases "OpenIncidentFor k s") (simp_all add: table_phase_def look del: if_split)
  moreover have "table_phase (update_incidents P f s) m = p"
    using assms(4,5) by (cases "OpenIncidentFor m s") (simp_all add: table_phase_def look del: if_split)
  ultimately show ?thesis using ok by (auto simp: moves_def fun_upd_def update_incidents_def)
qed

lemma table_phase_Some: "OpenIncidentFor m s = Some x \<Longrightarrow> table_phase s m = row_phase x"
  by (simp add: table_phase_def)

lemma moves_UpdateIncidentError:
  "incidents_ok s \<Longrightarrow> moves s m (table_phase s m) (UpdateIncidentError m cause err s)"
  unfolding UpdateIncidentError_def
  by (rule moves_update) (auto simp: row_phase_def table_phase_None table_phase_Some)

lemma moves_SetMaintenancePending:
  "incidents_ok s \<Longrightarrow> moves s m (table_phase s m) (SetMaintenancePending i b s)"
  unfolding SetMaintenancePending_def
  by (rule moves_update) (auto simp: row_phase_def table_phase_None table_phase_Some)

lemma moves_confirmIncident:
  assumes "incidents_ok s" "confirmIncident owed m seen cause err s = Inr s'"
  shows "moves s m (if table_phase s m = Notice then Notice else Outage) s' \<and> table_phase s m \<noteq> NoIncident"
proof -
  define f where "f = (\<lambda>x :: incident. x\<lparr>
        i_ConfirmedAt := (case i_ConfirmedAt x of None \<Rightarrow> Some (to_second seen) | Some t \<Rightarrow> Some t),
        i_Cause := cause, i_LastError := err, i_AlertOwed := (owed \<or> i_AlertOwed x)\<rparr>)"
  have some: "table_phase s m \<noteq> NoIncident" and s': "s' = update_incidents (open_for m) f s"
    using assms(2) by (simp_all add: confirmIncident_def f_def open_listed split: if_splits)
  have row: "row_phase (f x) = (if row_phase x = Notice then Notice else Outage)" for x
    by (simp add: row_phase_def f_def split: option.split)
  have "moves s m (if table_phase s m = Notice then Notice else Outage) s'"
    unfolding s'
  proof (rule moves_update [OF assms(1)])
    show "row_phase (if open_for m x then f x else x) = (if table_phase s m = Notice then Notice else Outage)"
      if "OpenIncidentFor m s = Some x" for x
      using that by (simp add: table_phase_Some row OpenIncidentFor_iff [OF assms(1)])
  qed (use some in \<open>auto simp: f_def table_phase_None split: option.split\<close>)
  then show ?thesis using some by simp
qed

lemma confirmIncident_Inl:
  "confirmIncident owed m seen cause err s = Inl e \<longleftrightarrow> table_phase s m = NoIncident \<and> e = ErrNoOpenIncident"
  by (auto simp: confirmIncident_def open_listed)

lemma moves_insert:
  assumes "incidents_ok s" "insert_incident m x s = Inr (y, s')"
    and "i_ID x = db_nextIncident s" "i_MonitorID x = m" "i_ResolvedAt x = None"
    and "i_Notice x \<longrightarrow> i_ConfirmedAt x \<noteq> None"
  shows "moves s m (row_phase x) s' \<and> y = x \<and> table_phase s m = NoIncident"
proof -
  have ex: "table_phase s m = NoIncident" and y: "y = x"
    and s': "s' = s\<lparr>db_incidents := db_incidents s @ [x], db_nextIncident := db_nextIncident s + 1\<rparr>"
    using assms(2) by (auto simp: insert_incident_def open_listed split: if_splits)
  have none: "find (open_for m) (db_incidents s) = None"
    using ex by (simp add: table_phase_None OpenIncidentFor_def)
  have app: "find P (xs @ [x]) = (case find P xs of None \<Rightarrow> if P x then Some x else None | Some z \<Rightarrow> Some z)"
    for P :: "incident \<Rightarrow> bool" and xs
    by (induction xs) auto
  have mine: "open_for k x \<longleftrightarrow> k = m" for k using assms(4,5) by (auto simp: open_for_def)
  have look: "OpenIncidentFor k s' = (if k = m then Some x else OpenIncidentFor k s)" for k
    using none by (cases "find (open_for k) (db_incidents s)") (auto simp: OpenIncidentFor_def s' app mine)
  have "incidents_ok s'" by (rule insert_incident_ok [OF assms(1,2,3,4,6)])
  moreover have "table_phase s' = (table_phase s)(m := row_phase x)"
    by (simp add: table_phase_def look fun_eq_iff)
  ultimately show ?thesis using ex y by (simp add: moves_def s')
qed

lemma moves_OpenIncident:
  "incidents_ok s \<Longrightarrow> OpenIncident m seen cause err s = Inr (x, s') \<Longrightarrow>
   moves s m Pending s' \<and> table_phase s m = NoIncident"
  using moves_insert [of s m "new_incident (db_nextIncident s) m seen cause err" x s']
  by (simp add: OpenIncident_def new_incident_def row_phase_def)

lemma moves_OpenNotice:
  "incidents_ok s \<Longrightarrow> OpenNotice m seen cause err s = Inr (x, s') \<Longrightarrow>
   moves s m Notice s' \<and> table_phase s m = NoIncident"
  using moves_insert [of s m "(new_incident (db_nextIncident s) m seen cause err)
       \<lparr>i_ConfirmedAt := Some (to_second seen), i_Notice := True\<rparr>" x s']
  by (simp add: OpenNotice_def new_incident_def row_phase_def)

lemma insert_incident_Inl:
  "insert_incident m x s = Inl e \<Longrightarrow> m \<in> db_monitors s \<Longrightarrow> table_phase s m \<noteq> NoIncident"
  by (auto simp: insert_incident_def open_listed split: if_splits)

lemma insert_accepted:
  assumes "m \<in> db_monitors s" "table_phase s m = NoIncident"
  obtains y s' where "insert_incident m x s = Inr (y, s')"
  using insert_incident_Inl [of m x s] assms by (cases "insert_incident m x s") auto

lemma open_accepted:
  assumes "m \<in> db_monitors s" "table_phase s m = NoIncident"
  obtains y s' where "OpenIncident m seen cause err s = Inr (y, s')"
  using insert_accepted [OF assms] unfolding OpenIncident_def by blast

lemma notice_accepted:
  assumes "m \<in> db_monitors s" "table_phase s m = NoIncident"
  obtains y s' where "OpenNotice m seen cause err s = Inr (y, s')"
  using insert_accepted [OF assms] unfolding OpenNotice_def by blast

lemma moves_ResolveIncident:
  assumes "incidents_ok s" "ResolveIncident m seen s = Inr (x, s')"
  shows "moves s m NoIncident s' \<and> table_phase s m \<noteq> NoIncident"
proof -
  obtain y where y: "OpenIncidentFor m s = Some y"
    and s': "s' = update_incidents (\<lambda>z. i_ID z = i_ID y) (\<lambda>z. z\<lparr>i_ResolvedAt := Some (to_second seen)\<rparr>) s"
    using assms(2) by (auto simp: ResolveIncident_def split: option.splits)
  have yin: "y \<in> set (db_incidents s)" "open_for m y" using y OpenIncidentFor_iff [OF assms(1)] by blast+
  have same: "z = y" if "z \<in> set (db_incidents s)" "i_ID z = i_ID y" for z
    using assms(1) yin(1) that unfolding incidents_ok_def distinct_map inj_on_def by blast
  have ok: "incidents_ok s'" unfolding s' by (rule update_incidents_ok [OF assms(1)]) auto
  define g where "g z = (if i_ID z = i_ID y then z\<lparr>i_ResolvedAt := Some (to_second seen)\<rparr> else z)" for z :: incident
  have fm: "find (open_for k) (map g xs) = find (\<lambda>z. open_for k z \<and> z \<noteq> y) xs"
    if "set xs \<subseteq> set (db_incidents s)" for k xs
    using that
  proof (induction xs)
    case (Cons z xs)
    have "open_for k (g z) \<longleftrightarrow> open_for k z \<and> z \<noteq> y" "z \<noteq> y \<Longrightarrow> g z = z"
      using same [of z] Cons.prems by (auto simp: g_def open_for_def)
    then show ?case using Cons by auto
  qed simp
  have gone: "find (\<lambda>z. open_for m z \<and> z \<noteq> y) (db_incidents s) = None"
    unfolding find_None_iff using open_incident_unique [OF assms(1) _ yin(1) _ yin(2)] by blast
  have stay: "find (\<lambda>z. open_for k z \<and> z \<noteq> y) (db_incidents s) = find (open_for k) (db_incidents s)" if "k \<noteq> m" for k
    by (rule find_cong) (use that yin(2) in \<open>auto simp: open_for_def\<close>)
  have inc: "db_incidents s' = map g (db_incidents s)" by (simp add: s' update_incidents_def g_def)
  have "OpenIncidentFor k s' = (if k = m then None else OpenIncidentFor k s)" for k
    using fm [of "db_incidents s" k] gone stay [of k] by (simp add: OpenIncidentFor_def inc)
  then have "table_phase s' = (table_phase s)(m := NoIncident)"
    by (simp add: table_phase_def fun_eq_iff)
  moreover have "db_monitors s' = db_monitors s \<and> db_heartbeats s' = db_heartbeats s"
    by (simp add: s' update_incidents_def)
  ultimately show ?thesis
    using ok y by (simp add: moves_def table_phase_None)
qed

lemma ResolveIncident_Inl: "ResolveIncident m seen s = Inl e \<longleftrightarrow> table_phase s m = NoIncident \<and> e = ErrNoOpenIncident"
  by (auto simp: ResolveIncident_def table_phase_None split: option.splits)

section \<open>The switch of a transition\<close>

definition incident_writes :: "db_call set" where
  "incident_writes = {COpen, COpenNotice, CResolve, CCloseNotice, COpenReplacing, CConfirm, COpenOnConfirm, CConfirmOpened}"

text \<open>
  What a step of the incident side does to the tables, whatever fails and whatever phase it starts in; and what
  it does when the table agreed with the engine before: it ends in the phase it should, or a write was lost.
\<close>

definition keeps :: "database \<Rightarrow> int \<Rightarrow> database \<Rightarrow> bool" where
  "keeps s m s' \<longleftrightarrow> (\<exists>p. moves s m p s')"

definition reaches :: "database \<Rightarrow> int \<Rightarrow> phase \<Rightarrow> runner_error option \<times> database \<Rightarrow> bool" where
  "reaches s m p r \<longleftrightarrow> (case r of (Some e, s') \<Rightarrow> keeps s m s' \<and> e \<in> Failed ` incident_writes | (None, s') \<Rightarrow> moves s m p s')"

lemma keeps_refl: "incidents_ok s \<Longrightarrow> keeps s m s"
  by (auto simp: keeps_def intro: moves_refl)

lemma keeps_trans: "keeps s m s1 \<Longrightarrow> keeps s1 m s2 \<Longrightarrow> keeps s m s2"
  by (auto simp: keeps_def intro: moves_trans)

lemma keeps_ok: "keeps s m s' \<Longrightarrow> incidents_ok s'"
  by (auto simp: keeps_def intro: moves_ok)

lemma keeps_moves: "moves s m p s' \<Longrightarrow> keeps s m s'"
  by (auto simp: keeps_def)

lemma keeps_monitors: "keeps s m s' \<Longrightarrow> db_monitors s' = db_monitors s"
  by (auto simp: keeps_def moves_def)

lemma keeps_heartbeats: "keeps s m s' \<Longrightarrow> db_heartbeats s' = db_heartbeats s"
  by (auto simp: keeps_def moves_def)

lemma keeps_other: "keeps s m s' \<Longrightarrow> k \<noteq> m \<Longrightarrow> table_phase s' k = table_phase s k"
  by (auto simp: keeps_def moves_def)

lemma keeps_confirm_or_open:
  assumes "incidents_ok s"
  shows "keeps s m (snd (confirm_or_open v m t owed s))"
proof -
  note opened = conjunct1 [OF moves_OpenIncident, THEN keeps_moves]
  note confirmed = conjunct1 [OF moves_confirmIncident, THEN keeps_moves]
  show ?thesis
    using assms
    by (auto simp: confirm_or_open_def intro: keeps_refl dest: confirmed opened
        dest: keeps_trans [OF opened confirmed [OF keeps_ok [OF opened]], of s] split: sum.split)
qed

lemma reaches_confirm_or_open:
  assumes "incidents_ok s" "m \<in> db_monitors s" "table_phase s m \<noteq> Notice"
  shows "reaches s m Outage (confirm_or_open v m t owed s)"
proof (cases "confirmIncident owed m (t_At t) (t_Cause t) (t_Error t) s")
  case (Inr s')
  then show ?thesis
    using assms moves_confirmIncident [OF assms(1) Inr] keeps_refl [OF assms(1)]
    by (simp add: confirm_or_open_def reaches_def incident_writes_def)
next
  case (Inl e)
  then have none: "table_phase s m = NoIncident" by (simp add: confirmIncident_Inl)
  then obtain x s1 where o: "OpenIncident m (t_At t) (t_Cause t) (t_Error t) s = Inr (x, s1)"
    by (metis open_accepted [OF assms(2)])
  have mv: "moves s m Pending s1" using moves_OpenIncident [OF assms(1) o] by simp
  then have ok: "incidents_ok s1" "table_phase s1 m = Pending" by (simp_all add: moves_ok moves_phase)
  then obtain s2 where c: "confirmIncident owed m (t_At t) (t_Cause t) (t_Error t) s1 = Inr s2"
    using confirmIncident_Inl by (metis phase.distinct(1) sum.exhaust)
  have "moves s m Outage s2"
    using moves_trans [OF mv] moves_confirmIncident [OF ok(1) c] ok(2) by simp
  then show ?thesis
    using Inl o c keeps_refl [OF assms(1), of m] keeps_moves [OF mv]
    by (simp add: confirm_or_open_def reaches_def incident_writes_def)
qed

lemma keeps_close_notice:
  assumes "incidents_ok s"
  shows "keeps s m (snd (close_notice v m t s))"
proof -
  define s1 where "s1 = (case ResolveIncident m (t_StartedAt t) s of Inl _ \<Rightarrow> s | Inr (x, s1) \<Rightarrow> s1)"
  have k1: "keeps s m s1"
    using keeps_refl [OF assms] moves_ResolveIncident [OF assms, THEN conjunct1, THEN keeps_moves]
    by (auto simp: s1_def split: sum.split)
  have "keeps s m s2" if "OpenIncident m seen cause err s1 = Inr (x, s2)" for seen cause err x s2
    using keeps_trans [OF k1 keeps_moves [OF conjunct1 [OF moves_OpenIncident [OF keeps_ok [OF k1] that]]]] .
  then show ?thesis
    using k1 keeps_refl [OF assms] unfolding close_notice_def s1_def [symmetric]
    by (auto simp: Let_def split: sum.split)
qed

lemma reaches_close_notice:
  assumes "incidents_ok s" "m \<in> db_monitors s" "table_phase s m = Notice"
  shows "reaches s m Pending (close_notice v m t s)"
proof -
  obtain x s1 where r: "ResolveIncident m (t_StartedAt t) s = Inr (x, s1)"
    using ResolveIncident_Inl assms(3) by (metis phase.distinct(5) sum.exhaust surj_pair)
  have mv: "moves s m NoIncident s1" using moves_ResolveIncident [OF assms(1) r] by simp
  then have ok: "incidents_ok s1" "m \<in> db_monitors s1" "table_phase s1 m = NoIncident"
    using assms(2) by (simp_all add: moves_def)
  obtain y s2 where o: "OpenIncident m (t_StartedAt t) (t_Cause t) (t_Error t) s1 = Inr (y, s2)"
    by (rule open_accepted [OF ok(2,3)])
  have "moves s m Pending s2" using moves_trans [OF mv] moves_OpenIncident [OF ok(1) o] by simp
  then show ?thesis
    using r o keeps_refl [OF assms(1), of m] keeps_moves [OF mv]
    by (simp add: close_notice_def reaches_def incident_writes_def)
qed

lemma keeps_confirmOutage:
  assumes "incidents_ok s"
  shows "keeps s m (snd (snd (confirmOutage v m t owed s)))"
proof -
  define r where "r = (if t_Replaces t then close_notice v m t s else (None, s))"
  have r: "keeps s m (snd r)" using keeps_close_notice [OF assms] keeps_refl [OF assms] by (simp add: r_def)
  have "keeps s m (snd (confirm_or_open v m t owed (snd r)))"
    using keeps_trans [OF r keeps_confirm_or_open [OF keeps_ok [OF r]]] .
  then show ?thesis
    using r unfolding confirmOutage_def r_def [symmetric]
    by (cases r; cases "confirm_or_open v m t owed (snd r)") (auto split: option.split)
qed

lemma reaches_confirmOutage:
  assumes "incidents_ok s" "m \<in> db_monitors s" "t_Replaces t \<longleftrightarrow> table_phase s m = Notice"
  shows "reaches s m Outage (case confirmOutage v m t owed s of (err, _, s') \<Rightarrow> (err, s'))"
proof -
  define r where "r = (if t_Replaces t then close_notice v m t s else (None, s))"
  obtain p where r: "reaches s m p r" "p \<noteq> Notice"
  proof (cases "t_Replaces t")
    case True
    then show ?thesis using that reaches_close_notice [OF assms(1,2), of v t] assms(3) by (simp add: r_def)
  next
    case False
    then show ?thesis using that [of "table_phase s m"] moves_refl [OF assms(1), of m] assms(3)
      by (simp add: r_def reaches_def)
  qed
  obtain err s1 where r1: "r = (err, s1)" by (cases r)
  show ?thesis
  proof (cases err)
    case (Some e)
    then show ?thesis using r r1 unfolding confirmOutage_def r_def [symmetric] by (simp add: reaches_def)
  next
    case None
    then have mv: "moves s m p s1" using r r1 by (simp add: reaches_def)
    then have ok: "incidents_ok s1" "m \<in> db_monitors s1" "table_phase s1 m \<noteq> Notice"
      using assms(2) r(2) by (simp_all add: moves_def)
    have "reaches s m Outage (confirm_or_open v m t owed s1)"
      using reaches_confirm_or_open [OF ok, of v t owed] keeps_trans [OF keeps_moves [OF mv]] moves_trans [OF mv]
      by (auto simp: reaches_def split: prod.splits option.splits)
    then show ?thesis
      using r1 None unfolding confirmOutage_def r_def [symmetric]
      by (cases "confirm_or_open v m t owed s1") (auto simp: reaches_def split: option.splits)
  qed
qed

fun switch_db :: "runner_error option \<times> database + incident \<times> runner_error option \<times> database \<Rightarrow> database" where
  "switch_db (Inl (_, s)) = s"
| "switch_db (Inr (_, _, s)) = s"

lemma keeps_switch_event:
  assumes "incidents_ok s"
  shows "keeps s (m_ID (co_Monitor co)) (switch_db (switch_event v co t s))"
proof -
  let ?m = "m_ID (co_Monitor co)"
  note ok = keeps_refl [OF assms, of ?m]
  show ?thesis
  proof (cases "t_Event t")
    case EventNone
    then show ?thesis
      using ok keeps_moves [OF moves_UpdateIncidentError [OF assms]] by (simp add: switch_event_def Let_def)
  next
    case EventIncidentOpened
    then show ?thesis
      using ok moves_OpenIncident [OF assms, THEN conjunct1, THEN keeps_moves]
      by (auto simp: switch_event_def Let_def split: sum.split)
  next
    case EventIncidentConfirmed
    then show ?thesis
      using ok moves_OpenNotice [OF assms, THEN conjunct1, THEN keeps_moves]
        keeps_confirmOutage [OF assms, of ?m v t "t_Notify t \<and> \<not> v_maintained v \<and> v_notify v"]
      by (auto simp: switch_event_def Let_def split: sum.split prod.split option.split)
  next
    case EventIncidentReminder
    then show ?thesis using ok by (simp add: switch_event_def Let_def)
  next
    case EventIncidentResolved
    then show ?thesis
      using ok moves_ResolveIncident [OF assms, THEN conjunct1, THEN keeps_moves]
      by (auto simp: switch_event_def Let_def split: sum.split)
  qed
qed

fun switched :: "int \<Rightarrow> phase \<Rightarrow> runner_error option \<times> database + incident \<times> runner_error option \<times> database \<Rightarrow> bool" where
  "switched m p (Inl (None, s)) = False"
| "switched m p (Inl (Some e, s)) = (e \<in> Failed ` incident_writes)"
| "switched m p (Inr (x, err, s)) = (table_phase s m = p \<and> (err = None \<or> err = Some (Failed CUpdateError)))"

lemma switched_switch_event:
  assumes "incidents_ok s" "m_ID (co_Monitor co) = m" "m \<in> db_monitors s"
    and "lifecycle (table_phase s m) (t_Event t) (t_Notice t) (t_Replaces t) = Some p"
  shows "switched m p (switch_event v co t s)"
proof (cases "t_Event t")
  case EventNone
  then have "p = table_phase s m" using assms(4) by (cases "t_Replaces t") auto
  then show ?thesis
    using EventNone assms(2) moves_phase [OF moves_UpdateIncidentError [OF assms(1)]]
    by (simp add: switch_event_def Let_def)
next
  case EventIncidentOpened
  then have p: "p = Pending" "table_phase s m = NoIncident"
    using assms(4) by (cases "table_phase s m"; cases "t_Replaces t"; cases "t_Notice t"; simp)+
  obtain x s' where o: "OpenIncident m (t_At t) (t_Cause t) (t_Error t) s = Inr (x, s')"
    by (rule open_accepted [OF assms(3) p(2)])
  then show ?thesis
    using EventIncidentOpened assms(2) p moves_phase [OF conjunct1 [OF moves_OpenIncident [OF assms(1) o]]]
    by (simp add: switch_event_def Let_def incident_writes_def)
next
  case EventIncidentConfirmed
  show ?thesis
  proof (cases "t_Notice t")
    case True
    then have p: "p = Notice" "table_phase s m = NoIncident"
      using EventIncidentConfirmed assms(4) by (cases "table_phase s m"; cases "t_Replaces t"; simp)+
    obtain x s' where o: "OpenNotice m (t_At t) (t_Cause t) (t_Error t) s = Inr (x, s')"
      by (rule notice_accepted [OF assms(3) p(2)])
    then show ?thesis
      using EventIncidentConfirmed True assms(2) p moves_phase [OF conjunct1 [OF moves_OpenNotice [OF assms(1) o]]]
      by (simp add: switch_event_def Let_def incident_writes_def)
  next
    case False
    then have p: "p = Outage" "t_Replaces t \<longleftrightarrow> table_phase s m = Notice"
      using EventIncidentConfirmed assms(4) by (cases "table_phase s m"; cases "t_Replaces t"; simp)+
    then show ?thesis
      using EventIncidentConfirmed False assms(2)
        reaches_confirmOutage [OF assms(1,3) p(2), of v "t_Notify t \<and> \<not> v_maintained v \<and> v_notify v"]
      by (auto simp: switch_event_def Let_def reaches_def moves_phase split: prod.split option.splits)
  qed
next
  case EventIncidentReminder
  then show ?thesis using assms(4) by (cases "table_phase s m") simp_all
next
  case EventIncidentResolved
  then have p: "p = NoIncident" "table_phase s m \<noteq> NoIncident"
    using assms(4) by (cases "table_phase s m"; cases "t_Replaces t"; cases "t_Notice t"; simp)+
  obtain x s' where r: "ResolveIncident m (t_RecoveredAt t) s = Inr (x, s')"
    using ResolveIncident_Inl p(2) by (metis sum.exhaust surj_pair)
  then show ?thesis
    using EventIncidentResolved assms(2) p moves_phase [OF conjunct1 [OF moves_ResolveIncident [OF assms(1) r]]]
    by (simp add: switch_event_def Let_def incident_writes_def)
qed

section \<open>Applying a transition\<close>

lemma announce_frame [simp]:
  "rn_db (announce v m t x w) = rn_db w" "rn_engine (announce v m t x w) = rn_engine w"
  by (simp_all add: announce_def Let_def)

lemma applyTransition_engine [simp]: "rn_engine (snd (applyTransition v co t w)) = rn_engine w"
  by (simp add: applyTransition_def Let_def split: sum.split prod.split)

lemma keeps_applyTransition:
  assumes "incidents_ok (rn_db w)"
  shows "keeps (rn_db w) (m_ID (co_Monitor co)) (rn_db (snd (applyTransition v co t w)))"
proof -
  have k: "keeps (rn_db w) (m_ID (co_Monitor co)) (switch_db (switch_event v co t (rn_db w)))"
    by (rule keeps_switch_event [OF assms])
  note p = keeps_trans [OF k keeps_moves [OF moves_SetMaintenancePending [OF keeps_ok [OF k]]]]
  show ?thesis
  proof (cases "switch_event v co t (rn_db w)")
    case (Inl r)
    then show ?thesis using k by (cases r) (simp add: applyTransition_def Let_def)
  next
    case (Inr r)
    obtain x err s where r: "r = (x, err, s)" by (cases r)
    then show ?thesis
      using k p [of "i_ID x" True] Inr by (simp add: applyTransition_def Let_def split: sum.split prod.split)
  qed
qed

text \<open>
  \<open>applied\<close>: what one transition may return. The last case is a confirmation announced late that finds no
  open incident, which a table that agrees with the engine never shows.
\<close>

lemma applied_applyTransition:
  assumes "incidents_ok (rn_db w)" "m_ID (co_Monitor co) = m" "m \<in> db_monitors (rn_db w)"
    and "lifecycle (table_phase (rn_db w) m) (t_Event t) (t_Notice t) (t_Replaces t) = Some p"
    and "t_To t \<in> {StatusDown, StatusExpiring} \<longrightarrow> p \<noteq> NoIncident"
  shows "(\<exists>e. fst (applyTransition v co t w) = Some e \<and> e \<in> Failed ` incident_writes) \<or>
    (table_phase (rn_db (snd (applyTransition v co t w))) m = p \<and>
     fst (applyTransition v co t w) \<notin> range (Some \<circ> Refused))"
proof (cases "switch_event v co t (rn_db w)")
  case (Inl r)
  then show ?thesis
    using switched_switch_event [OF assms(1-4), of v]
    by (cases r; cases "fst r") (simp_all add: applyTransition_def Let_def)
next
  case (Inr r)
  obtain x err s where r: "r = (x, err, s)" by (cases r)
  have sw: "table_phase s m = p" "err = None \<or> err = Some (Failed CUpdateError)"
    using switched_switch_event [OF assms(1-4), of v] Inr r by simp_all
  have ok: "incidents_ok s" using keeps_ok [OF keeps_switch_event [OF assms(1), of co v t]] Inr r by simp
  define s1 where "s1 = (if t_Event t = EventIncidentConfirmed \<and> v_maintained v then SetMaintenancePending (i_ID x) True s else s)"
  have s1: "table_phase s1 m = p"
    using sw(1) moves_phase [OF moves_SetMaintenancePending [OF ok]] by (simp add: s1_def)
  have "deferred v m t x s1 \<noteq> Inl (Refused e)" for e
    using s1 assms(5) by (auto simp: deferred_def table_phase_None split: option.split)
  then show ?thesis
    using Inr r sw s1 assms(2)
    by (auto simp: applyTransition_def Let_def s1_def [symmetric] split: sum.split prod.split)
qed

end
