(* ===== verification/Restart.thy ===== *)
theory Restart
  imports Runner Reminder
begin

text \<open>
  The rest of the runner (\<open>internal/monitor/runner.go\<close>): what it reads back at the start (\<open>restore\<close>), the
  reconciliation with the monitor table on every reload (\<open>jobs\<close>), the reminder sweep, and the readings.
\<close>

section \<open>Restoring the engine from the open incidents\<close>

text \<open>The reads of \<open>restore\<close> that may fail, each for the incident's monitor.\<close>

datatype restore_call = RListOpen | RStreak int | RFails int | RSnapshots int

definition maxRestoredFailStreak :: int where
  "maxRestoredFailStreak = 100"

definition restored_of :: "(restore_call \<Rightarrow> bool) \<Rightarrow> database \<Rightarrow> incident \<Rightarrow> restoredState" where
  "restored_of broken s x =
     (let m = i_MonitorID x in
      if i_Notice x then
        let (fails, since) = (if broken (RStreak m) then (0, 0)
              else FailedStreakAfterLastPass m (i_StartedAt x) maxRestoredFailStreak s)
        in \<lparr>rs_Status = (if 0 < fails then StatusWarning else StatusExpiring), rs_IncidentOpen = True,
            rs_IncidentConfirmed = True, rs_ConsecutiveFails = fails, rs_SnapshotsSpent = 0,
            rs_Notice = True, rs_FailingSince = since\<rparr>
      else
        \<lparr>rs_Status = (if i_ConfirmedAt x \<noteq> None then StatusDown else StatusWarning), rs_IncidentOpen = True,
         rs_IncidentConfirmed = (i_ConfirmedAt x \<noteq> None),
         rs_ConsecutiveFails = (if broken (RFails m) then maxRestoredFailStreak
            else CountFailedHeartbeatsSince m (i_StartedAt x) maxRestoredFailStreak s),
         rs_SnapshotsSpent = (if broken (RSnapshots m) then maxSnapshotsPerIncident
            else CountSnapshotsSince m (i_StartedAt x) maxSnapshotsPerIncident s),
         rs_Notice = False, rs_FailingSince = 0\<rparr>)"

fun restore_each :: "(restore_call \<Rightarrow> bool) \<Rightarrow> database \<Rightarrow> incident list \<Rightarrow> engine \<Rightarrow> engine" where
  "restore_each broken s [] e = e"
| "restore_each broken s (x # xs) e = restore_each broken s xs (Restore (i_MonitorID x) (restored_of broken s x) e)"

text \<open>\<open>restore\<close>, with whether it returned an error; \<open>Run\<close> logs it and goes on with the engine it has.\<close>

definition restore :: "(restore_call \<Rightarrow> bool) \<Rightarrow> database \<Rightarrow> engine \<Rightarrow> bool \<times> engine" where
  "restore broken s e =
     (if broken RListOpen then (False, e) else (True, restore_each broken s (ListOpenIncidents s) e))"

section \<open>The monitors the schedule runs\<close>

record storeMonitor =
  sm_ID :: int
  sm_Type :: string
  sm_IntervalS :: int
  sm_TimeoutS :: int
  sm_Retries :: int
  sm_RecoveryThreshold :: int
  sm_Enabled :: bool
  sm_CaptureResponse :: bool
  sm_PushIntervalS :: int
  sm_PushGraceS :: int
  sm_PushTimezone :: string
  sm_ResumedAt :: instant
  sm_CreatedAt :: instant

definition TypePush :: string where
  "TypePush = ''push''"

definition ListEnabledMonitors :: "storeMonitor list \<Rightarrow> storeMonitor list" where
  "ListEnabledMonitors = filter sm_Enabled"

definition toCheckerMonitor :: "storeMonitor \<Rightarrow> checkedMonitor" where
  "toCheckerMonitor m = \<lparr>m_ID = sm_ID m, m_Type = sm_Type m, m_Timeout = seconds (sm_TimeoutS m),
     cm_Retries = sm_Retries m, cm_RecoveryThreshold = sm_RecoveryThreshold m,
     cm_CaptureResponse = sm_CaptureResponse m\<rparr>"

text \<open>\<open>LastCheckTimes\<close>: the newest heartbeat of every monitor that has one.\<close>

definition LastCheckTimes :: "database \<Rightarrow> int \<rightharpoonup> instant" where
  "LastCheckTimes s m =
     (if m \<notin> db_monitors s then None
      else case map hb_TS (filter (\<lambda>h. hb_MonitorID h = m) (db_heartbeats s)) of
        [] \<Rightarrow> None | t # ts \<Rightarrow> Some (foldl max t ts))"

datatype jobs_call = JListEnabled | JLastChecks | JListOpen | JResolve int

definition job_of :: "(int \<rightharpoonup> instant) option \<Rightarrow> engine \<Rightarrow> storeMonitor \<Rightarrow> job" where
  "job_of seen e m = \<lparr>j_Failing = Failing (Status e (sm_ID m)),
     j_Monitor = monitor.truncate (toCheckerMonitor m), j_Interval = seconds (sm_IntervalS m),
     j_NeverChecked = (case seen of None \<Rightarrow> False | Some f \<Rightarrow> f (sm_ID m) = None),
     j_LastCheck = (case seen of None \<Rightarrow> 0 | Some f \<Rightarrow> (case f (sm_ID m) of None \<Rightarrow> 0 | Some t \<Rightarrow> t))\<rparr>"

fun close_orphans :: "(jobs_call \<Rightarrow> bool) \<Rightarrow> instant \<Rightarrow> int set \<Rightarrow> incident list \<Rightarrow> database \<Rightarrow> database" where
  "close_orphans broken now live [] s = s"
| "close_orphans broken now live (x # xs) s =
     close_orphans broken now live xs
       (if i_MonitorID x \<in> live \<or> broken (JResolve (i_MonitorID x)) then s
        else case ResolveIncident (i_MonitorID x) now s of Inl _ \<Rightarrow> s | Inr (y, s') \<Rightarrow> s')"

definition closeOrphanedIncidents :: "(jobs_call \<Rightarrow> bool) \<Rightarrow> instant \<Rightarrow> int set \<Rightarrow> database \<Rightarrow> database" where
  "closeOrphanedIncidents broken now live s =
     (if broken JListOpen then s else close_orphans broken now live (ListOpenIncidents s) s)"

definition jobs ::
  "(jobs_call \<Rightarrow> bool) \<Rightarrow> instant \<Rightarrow> storeMonitor list \<Rightarrow> runner \<Rightarrow> job list option \<times> runner" where
  "jobs broken now table w =
     (if broken JListEnabled then (None, w)
      else
        let ms = ListEnabledMonitors table; live = set (map sm_ID ms);
            seen = (if broken JLastChecks then None else Some (LastCheckTimes (rn_db w)))
        in (Some (map (job_of seen (rn_engine w)) (filter (\<lambda>m. sm_Type m \<noteq> TypePush) ms)),
            w\<lparr>rn_engine := Retain live (rn_engine w),
              rn_db := closeOrphanedIncidents broken now live (rn_db w)\<rparr>))"

section \<open>Reminders\<close>

text \<open>What one sweep finds; \<open>p_maintained\<close> is None where the windows cannot be read.\<close>

record sweep_env =
  p_now :: instant
  p_maintained :: "int \<Rightarrow> bool option"
  p_getMonitor :: "int \<Rightarrow> bool"
  p_stamped :: "int \<Rightarrow> bool"
  p_notify :: bool

definition reminder_wanted :: "sweep_env \<Rightarrow> engine \<Rightarrow> incident \<Rightarrow> duration \<Rightarrow> bool" where
  "reminder_wanted v e x after \<longleftrightarrow>
     p_maintained v (i_MonitorID x) = Some False \<and> \<not> i_MaintenancePending x \<and>
     ReminderDue (p_now v) (case i_ConfirmedAt x of None \<Rightarrow> 0 | Some t \<Rightarrow> t)
       (case i_RemindedAt x of None \<Rightarrow> 0 | Some t \<Rightarrow> t) (i_ReminderCount x) after \<and>
     \<not> Flapping e (i_MonitorID x) \<and> Status e (i_MonitorID x) \<noteq> StatusRecovering"

definition remind :: "sweep_env \<Rightarrow> incident \<times> duration \<Rightarrow> runner \<Rightarrow> runner" where
  "remind v c w =
     (let x = fst c; m = i_MonitorID x in
      if \<not> reminder_wanted v (rn_engine w) x (snd c) \<or> \<not> p_getMonitor v m \<or> \<not> p_stamped v (i_ID x) then w
      else case RecordReminder (i_ID x) (p_now v) (rn_db w) of
        Inl _ \<Rightarrow> w
      | Inr s \<Rightarrow>
          let x' = x\<lparr>i_RemindedAt := Some (p_now v), i_ReminderCount := i_ReminderCount x + 1\<rparr>;
              w1 = w\<lparr>rn_db := s, rn_frames := rn_frames w @
                [StatusFrame m (p_now v) EventIncidentReminder (i_Cause x) (i_LastError x) False False]\<rparr>
          in if p_notify v then w1\<lparr>rn_alerts := rn_alerts w1 @ [(m, x', EventIncidentReminder, p_now v)]\<rparr> else w1)"

definition sendDueReminders :: "sweep_env \<Rightarrow> (int \<rightharpoonup> duration) \<Rightarrow> bool \<Rightarrow> runner \<Rightarrow> runner" where
  "sendDueReminders v repeat_after listed w =
     (if \<not> listed then w else fold (remind v) (RemindableIncidents repeat_after (rn_db w)) w)"

section \<open>A check on demand\<close>

datatype probe_error = ErrPushNotProbeable | ErrUnsupportedType string

text \<open>
  \<open>CheckNow\<close>; a checker is the function from the monitor to its result. The result of a monitor that is
  not enabled is returned, not recorded.
\<close>

definition CheckNow ::
  "env \<Rightarrow> (checkType \<rightharpoonup> (checkedMonitor \<Rightarrow> checkResult)) \<Rightarrow> storeMonitor \<Rightarrow> runner \<Rightarrow>
     (probe_error + checkResult) \<times> runner" where
  "CheckNow v checkers m w =
     (if sm_Type m = TypePush then (Inl ErrPushNotProbeable, w)
      else
        let cm = toCheckerMonitor m in
        case checkers (m_Type cm) of
          None \<Rightarrow> (Inl (ErrUnsupportedType (m_Type cm)), w)
        | Some c \<Rightarrow>
            let res = c cm in
            (Inr res, if sm_Enabled m
              then snd (recordOutcome v \<lparr>co_Monitor = cm, co_Result = res, co_Aborted = False\<rparr> w) else w))"

section \<open>The readings\<close>

definition recordTimeout :: duration where
  "recordTimeout = seconds 5"

definition runner_CheckGap :: "runner \<Rightarrow> duration" where
  "runner_CheckGap w = (let gap = CheckGap (rn_sch w) in if gap = 0 then 0 else gap + recordTimeout)"

end
