(* ===== verification/RunnerRuns.thy ===== *)
theory RunnerRuns
  imports RunnerProps Restart
begin

text \<open>
  Runs of the runner: recording one outcome, sequences of outcomes and restarts, and the proof that the
  incidents in the database stay those the state engine reports.
\<close>

section \<open>The transitions of one check\<close>

lemma t_To_observeFailure: "t_To t = ms_status ms \<Longrightarrow> t_To (snd (observeFailure e ob (ms, t))) = ms_status (fst (observeFailure e ob (ms, t)))"
  by (simp add: observeFailure_def recordChange_def Let_def)

lemma t_To_observeSuccess: "t_To t = ms_status ms \<Longrightarrow> t_To (snd (observeSuccess e ob (ms, t))) = ms_status (fst (observeSuccess e ob (ms, t)))"
  by (simp add: observeSuccess_def closeIncident_def recordChange_def Let_def)

lemma t_To_observeExpiring: "t_To t = ms_status ms \<Longrightarrow> t_To (snd (observeExpiring e ob (ms, t))) = ms_status (fst (observeExpiring e ob (ms, t)))"
  by (simp add: observeExpiring_def t_To_observeSuccess)

lemma t_To_observe_ms: "t_To (snd (observe_ms e ob ms)) = ms_status (fst (observe_ms e ob ms))"
  by (simp add: observe_ms_def decide_def t_To_observeFailure t_To_observeSuccess t_To_observeExpiring observeLocalNetwork_def)

lemma core_ok_phase: "core_ok ms \<Longrightarrow> ms_status ms \<in> {StatusDown, StatusExpiring} \<Longrightarrow> phase ms \<noteq> NoIncident"
  by (auto simp: core_ok_def phase_def)

text \<open>\<open>runs p ts q\<close>: the transitions lead the incident from \<open>p\<close> to \<open>q\<close>, and end in a failing status only with one open.\<close>

fun runs :: "phase \<Rightarrow> transition list \<Rightarrow> phase \<Rightarrow> bool" where
  "runs p [] q = (q = p)"
| "runs p (t # ts) q = (\<exists>p'. lifecycle p (t_Event t) (t_Notice t) (t_Replaces t) = Some p' \<and>
     (t_To t \<in> {StatusDown, StatusExpiring} \<longrightarrow> p' \<noteq> NoIncident) \<and> runs p' ts q)"

lemma runs_Observe:
  assumes "wf_engine e" "o_MonitorID ob = m"
  shows "runs (phase_of e m) [snd (Observe now e ob)] (phase_of (fst (Observe now e ob)) m)"
proof -
  have "core_ok (lookup_ms (fst (Observe now e ob)) m)"
    using wf_lookup_ms [OF wf_Observe [OF assms(1)]] by blast
  moreover have "t_To (snd (Observe now e ob)) = ms_status (lookup_ms (fst (Observe now e ob)) m)"
    using assms(2) by (simp add: Observe_eq lookup_ms_def [of "_\<lparr>e_state := _\<rparr>"] Let_def t_To_observe_ms)
  ultimately show ?thesis
    using phase_of_Observe_mine [OF assms] core_ok_phase by (simp add: phase_of_def)
qed

lemma runs_append: "runs p ts q \<Longrightarrow> runs q us r \<Longrightarrow> runs p (ts @ us) r"
  by (induction ts arbitrary: p) auto

lemma observe_check_runs:
  assumes "wf_engine e" "o_MonitorID ob = m" "observe_check v ob e = (e', ts)"
  shows "wf_engine e' \<and> runs (phase_of e m) ts (phase_of e' m) \<and> ts \<noteq> [] \<and>
    (\<forall>k. k \<noteq> m \<longrightarrow> phase_of e' k = phase_of e k)"
proof -
  define e1 where "e1 = fst (Observe (v_now v) e ob)"
  define e2 where "e2 = fst (Observe (v_now v) e1 ob)"
  have wf: "wf_engine e1" "wf_engine e2" using assms(1) by (simp_all add: e1_def e2_def wf_Observe)
  note r1 = runs_Observe [OF assms(1,2), of "v_now v", folded e1_def]
  note r2 = runs_Observe [OF wf(1) assms(2), of "v_now v", folded e2_def]
  have same: "phase_of e1 k = phase_of e k" "phase_of e2 k = phase_of e1 k" if "k \<noteq> m" for k
    using that assms(2) by (simp_all add: e1_def e2_def phase_of_Observe_other)
  have "(e' = e1 \<and> ts = [snd (Observe (v_now v) e ob)]) \<or>
    (e' = e2 \<and> ts = [snd (Observe (v_now v) e ob)] @ [snd (Observe (v_now v) e1 ob)])"
    using assms(3) by (auto simp: observe_check_def Let_def e1_def e2_def split: prod.splits if_splits)
  then show ?thesis using wf r1 runs_append [OF r1 r2] same by auto
qed

section \<open>Applying them\<close>

definition lost_writes :: "runner_error set" where
  "lost_writes = Failed ` incident_writes"

lemma apply_all_engine [simp]: "rn_engine (snd (apply_all v co ts w)) = rn_engine w"
  by (induction ts arbitrary: w) (simp_all add: Let_def case_prod_beta)

lemma apply_all_keeps:
  "incidents_ok (rn_db w) \<Longrightarrow> keeps (rn_db w) (m_ID (co_Monitor co)) (rn_db (snd (apply_all v co ts w)))"
proof (induction ts arbitrary: w)
  case Nil
  then show ?case by (simp add: keeps_refl)
next
  case (Cons t ts)
  have k: "keeps (rn_db w) (m_ID (co_Monitor co)) (rn_db (snd (applyTransition v co t w)))"
    by (rule keeps_applyTransition [OF Cons.prems])
  show ?case using keeps_trans [OF k Cons.IH [OF keeps_ok [OF k]]] by (simp add: Let_def case_prod_beta)
qed

lemma apply_all_reaches:
  assumes "incidents_ok (rn_db w)" "m_ID (co_Monitor co) = m" "m \<in> db_monitors (rn_db w)"
    and "runs (table_phase (rn_db w) m) ts q"
    and "set (fst (apply_all v co ts w)) \<inter> lost_writes = {}"
  shows "table_phase (rn_db (snd (apply_all v co ts w))) m = q \<and>
    set (fst (apply_all v co ts w)) \<inter> range Refused = {}"
  using assms
proof (induction ts arbitrary: w)
  case Nil
  then show ?case by simp
next
  case (Cons t ts)
  define r where "r = applyTransition v co t w"
  define r' where "r' = apply_all v co ts (snd r)"
  have split: "fst (apply_all v co (t # ts) w) = (case fst r of None \<Rightarrow> fst r' | Some e \<Rightarrow> e # fst r')"
    "snd (apply_all v co (t # ts) w) = snd r'"
    unfolding r'_def r_def by (simp_all add: Let_def case_prod_beta)
  obtain p where p: "lifecycle (table_phase (rn_db w) m) (t_Event t) (t_Notice t) (t_Replaces t) = Some p"
    "t_To t \<in> {StatusDown, StatusExpiring} \<longrightarrow> p \<noteq> NoIncident" "runs p ts q" using Cons.prems(4) by auto
  have k: "keeps (rn_db w) m (rn_db (snd r))"
    using keeps_applyTransition [OF Cons.prems(1)] Cons.prems(2) unfolding r_def by blast
  have none: "set (fst r') \<inter> lost_writes = {}" "\<And>e. fst r = Some e \<Longrightarrow> e \<notin> lost_writes"
    using Cons.prems(5) unfolding split by (auto split: option.splits)
  have step: "table_phase (rn_db (snd r)) m = p" "fst r \<notin> range (Some \<circ> Refused)"
    using applied_applyTransition [OF Cons.prems(1-3) p(1,2), of v] none(2)
    unfolding r_def [symmetric] lost_writes_def by blast+
  have "table_phase (rn_db (snd r')) m = q \<and> set (fst r') \<inter> range Refused = {}"
    unfolding r'_def
    by (rule Cons.IH) (use keeps_ok [OF k] keeps_monitors [OF k] Cons.prems(2,3) p(3) step(1) none(1) in
        \<open>simp_all add: r'_def\<close>)
  then show ?case using step(2) unfolding split by (auto split: option.splits)
qed

section \<open>Recording one outcome\<close>

text \<open>Writes of heartbeats and of unknown checks leave the incidents alone.\<close>

definition same_incidents :: "database \<Rightarrow> database \<Rightarrow> bool" where
  "same_incidents s s' \<longleftrightarrow> db_incidents s' = db_incidents s \<and> db_nextIncident s' = db_nextIncident s \<and>
     db_monitors s' = db_monitors s"

lemma same_incidents_phase: "same_incidents s s' \<Longrightarrow> table_phase s' = table_phase s"
  by (simp add: same_incidents_def table_phase_def OpenIncidentFor_def fun_eq_iff)

lemma same_incidents_ok: "same_incidents s s' \<Longrightarrow> incidents_ok s' = incidents_ok s"
  by (simp add: same_incidents_def incidents_ok_def)

lemma same_incidents_trans: "same_incidents s s1 \<Longrightarrow> same_incidents s1 s2 \<Longrightarrow> same_incidents s s2"
  by (simp add: same_incidents_def)

definition in_step :: "runner \<Rightarrow> bool" where
  "in_step w \<longleftrightarrow> wf_engine (rn_engine w) \<and> incidents_ok (rn_db w) \<and>
     (\<forall>m\<in>db_monitors (rn_db w). table_phase (rn_db w) m = phase_of (rn_engine w) m)"

lemma phase_of_SpendSnapshot [simp]: "phase_of (fst (SpendSnapshot i e)) k = phase_of e k"
  by (simp add: phase_of_def lookup_ms_def SpendSnapshot_def phase_def Let_def split: option.split)

lemma write_heartbeat_frame:
  "same_incidents (rn_db w) (rn_db (snd (write_heartbeat v hb reason w)))"
  "phase_of (rn_engine (snd (write_heartbeat v hb reason w))) k = phase_of (rn_engine w) k"
  "wf_engine (rn_engine w) \<Longrightarrow> wf_engine (rn_engine (snd (write_heartbeat v hb reason w)))"
  by (simp_all add: write_heartbeat_def same_incidents_def RecordHeartbeatWithCaptureReason_def RecordHeartbeat_def
      wf_SpendSnapshot split: option.split)

lemma clear_unknown_frame:
  "same_incidents (rn_db w) (rn_db (snd (clear_unknown v co stored w)))"
  "rn_engine (snd (clear_unknown v co stored w)) = rn_engine w"
  by (simp_all add: clear_unknown_def same_incidents_def ClearUnknownCheck_def)

lemma write_heartbeat_errors: "fst (write_heartbeat v hb reason w) \<in> {None, Some (Failed CHeartbeat)}"
  by (simp add: write_heartbeat_def split: option.split)

lemma clear_unknown_errors: "fst (clear_unknown v co stored w) \<in> {None, Some (Failed CClearUnknown)}"
  by (simp add: clear_unknown_def)

text \<open>The heartbeat's part of \<open>record_observed\<close>, up to the transitions.\<close>

definition before_apply ::
  "env \<Rightarrow> checkOutcome \<Rightarrow> instant \<Rightarrow> bool \<Rightarrow> bool \<Rightarrow> runner \<Rightarrow> transition list \<times> runner_error list \<times> runner" where
  "before_apply v co ts lnet ldns w =
     (let (e, trs) = observe_check v (observation_of co ts lnet ldns) (rn_engine w);
          first = hd trs; final = last trs; m = m_ID (co_Monitor co);
          hb = heartbeat_of v co ts lnet ldns first final;
          w1 = w\<lparr>rn_engine := e, rn_sch := SetFailing (v_draws v) (v_now v) m (Failing (t_To final)) (rn_sch w)\<rparr>;
          (hbErr, w2) = write_heartbeat v hb (capture_reason co first) w1;
          w3 = w2\<lparr>rn_frames := rn_frames w2 @ [heartbeat_frame v co hb first final]\<rparr>;
          (clrErr, w4) = clear_unknown v co (hbErr = None) w3
      in (trs, List.map_filter id [hbErr, clrErr], w4))"

lemma record_observed_eq:
  "record_observed v co ts lnet ldns w =
     (let (trs, errs, w4) = before_apply v co ts lnet ldns w; (errs', w5) = apply_all v co trs w4
      in (errs @ errs', w5))"
  unfolding record_observed_def before_apply_def by (simp add: Let_def case_prod_beta)

lemma before_apply_spec:
  assumes "wf_engine (rn_engine w)" "m_ID (co_Monitor co) = m" "before_apply v co ts lnet ldns w = (trs, errs, w4)"
  shows "wf_engine (rn_engine w4) \<and> same_incidents (rn_db w) (rn_db w4) \<and>
    runs (phase_of (rn_engine w) m) trs (phase_of (rn_engine w4) m) \<and>
    (\<forall>k. k \<noteq> m \<longrightarrow> phase_of (rn_engine w4) k = phase_of (rn_engine w) k) \<and>
    (\<forall>k. phase_of (rn_engine w4) k = phase_of (fst (observe_check v (observation_of co ts lnet ldns) (rn_engine w))) k) \<and>
    set errs \<subseteq> {Failed CHeartbeat, Failed CClearUnknown}"
proof -
  obtain e trs' where o: "observe_check v (observation_of co ts lnet ldns) (rn_engine w) = (e, trs')" by force
  have mid: "o_MonitorID (observation_of co ts lnet ldns) = m" using assms(2) by (simp add: observation_of_def Let_def)
  note oc = observe_check_runs [OF assms(1) mid o]
  define hb where "hb = heartbeat_of v co ts lnet ldns (hd trs') (last trs')"
  define w1 where "w1 = w\<lparr>rn_engine := e, rn_sch := SetFailing (v_draws v) (v_now v) m (Failing (t_To (last trs'))) (rn_sch w)\<rparr>"
  define W where "W = write_heartbeat v hb (capture_reason co (hd trs')) w1"
  define w3 where "w3 = (snd W)\<lparr>rn_frames := rn_frames (snd W) @ [heartbeat_frame v co hb (hd trs') (last trs')]\<rparr>"
  define C where "C = clear_unknown v co (fst W = None) w3"
  have "before_apply v co ts lnet ldns w = (trs', List.map_filter id [fst W, fst C], snd C)"
    unfolding before_apply_def o C_def w3_def W_def w1_def hb_def by (simp only: Let_def case_prod_beta prod.sel assms(2))
  then have eq: "trs = trs'" "errs = List.map_filter id [fst W, fst C]" "w4 = snd C"
    using assms(3) by simp_all
  have "fst W \<in> {None, Some (Failed CHeartbeat)}" "fst C \<in> {None, Some (Failed CClearUnknown)}"
    unfolding W_def C_def by (rule write_heartbeat_errors clear_unknown_errors)+
  then have errs: "set errs \<subseteq> {Failed CHeartbeat, Failed CClearUnknown}"
    unfolding eq(2) by (auto simp: map_filter_simps split: option.splits)
  have "rn_engine w4 = rn_engine (snd W)" unfolding eq(3) C_def clear_unknown_frame by (simp add: w3_def)
  then have eng: "phase_of (rn_engine w4) k = phase_of e k" "wf_engine (rn_engine w4)" for k
    using write_heartbeat_frame(2,3) [where v = v and hb = hb and reason = "capture_reason co (hd trs')" and w = w1] oc by (simp_all add: W_def w1_def)
  have "same_incidents (rn_db w) (rn_db (snd W))"
    using write_heartbeat_frame(1) [where v = v and hb = hb and reason = "capture_reason co (hd trs')" and w = w1] by (simp add: W_def w1_def)
  moreover have "same_incidents (rn_db (snd W)) (rn_db w4)"
    using clear_unknown_frame(1) [where w = w3 and v = v and co = co and stored = "fst W = None"] unfolding eq(3) C_def by (simp add: w3_def)
  ultimately have "same_incidents (rn_db w) (rn_db w4)" by (rule same_incidents_trans)
  then show ?thesis using errs eng oc eq(1) o by simp
qed

lemma localNetworkFailure_frame:
  assumes "localNetworkFailure v co w = (b, w')"
  shows "rn_db w' = rn_db w \<and> rn_engine w' = rn_engine w"
  using assms by (auto simp: localNetworkFailure_def Let_def split: option.splits prod.splits if_splits)

lemma reportPublicPeer_frame: "rn_db (reportPublicPeer v co w) = rn_db w \<and> rn_engine (reportPublicPeer v co w) = rn_engine w"
  by (simp add: reportPublicPeer_def split: option.split)

text \<open>The three ways an outcome ends: not recorded, recorded as unknown, observed.\<close>

lemma recordOutcome_cases:
  assumes "recordOutcome v co w = (errs, w')"
  obtains (skipped) "rn_engine w' = rn_engine w" "same_incidents (rn_db w) (rn_db w')"
      "set errs \<subseteq> {Failed CUnknown, Failed CReadMaintenance} \<inter> Failed ` Collect (v_fails v)"
      "co_Aborted co \<or> r_Kind (co_Result co) = ''unknown'' \<or> errs = [Failed CReadMaintenance]"
    | (observed) ts lnet ldns w1 where "rn_db w1 = rn_db w" "rn_engine w1 = rn_engine w"
        "record_observed v co ts lnet ldns w1 = (errs, w')" "\<not> v_fails v CReadMaintenance"
        "localNetworkFailure v co (reportPublicPeer v co w) = ((lnet, ldns), w1)"
        "ts = (if is_zero (r_CheckedAt (co_Result co)) then v_now v else r_CheckedAt (co_Result co))"
proof (cases "co_Aborted co \<or> r_Kind (co_Result co) = ''unknown'' \<or> v_fails v CReadMaintenance")
  case True
  show ?thesis
    by (rule skipped) (use True assms in \<open>auto simp: recordOutcome_def recordUnknown_def RecordUnknownCheck_def
      same_incidents_def Let_def split: if_splits\<close>)
next
  case False
  obtain lnet ldns w1 where l: "localNetworkFailure v co (reportPublicPeer v co w) = ((lnet, ldns), w1)"
    by (metis surj_pair)
  show ?thesis
    by (rule observed) (use False assms l localNetworkFailure_frame [OF l] reportPublicPeer_frame in
        \<open>auto simp: recordOutcome_def Let_def\<close>)
qed

lemma record_observed_spec:
  assumes "wf_engine (rn_engine w)" "incidents_ok (rn_db w)" "m_ID (co_Monitor co) = m"
    and "record_observed v co ts lnet ldns w = (errs, w')"
  shows "wf_engine (rn_engine w') \<and> incidents_ok (rn_db w') \<and> db_monitors (rn_db w') = db_monitors (rn_db w) \<and>
    (\<forall>k. k \<noteq> m \<longrightarrow> table_phase (rn_db w') k = table_phase (rn_db w) k \<and>
       phase_of (rn_engine w') k = phase_of (rn_engine w) k)"
    and "m \<in> db_monitors (rn_db w) \<Longrightarrow> table_phase (rn_db w) m = phase_of (rn_engine w) m \<Longrightarrow>
      set errs \<inter> lost_writes = {} \<Longrightarrow>
      table_phase (rn_db w') m = phase_of (rn_engine w') m \<and> set errs \<inter> range Refused = {}"
proof -
  obtain trs errs1 w4 where b: "before_apply v co ts lnet ldns w = (trs, errs1, w4)" by (metis surj_pair)
  note bs' = before_apply_spec [OF assms(1,3) b]
  have same: "same_incidents (rn_db w) (rn_db w4)"
    and bs: "wf_engine (rn_engine w4)" "runs (phase_of (rn_engine w) m) trs (phase_of (rn_engine w4) m)"
      "\<forall>k. k \<noteq> m \<longrightarrow> phase_of (rn_engine w4) k = phase_of (rn_engine w) k"
      "set errs1 \<subseteq> {Failed CHeartbeat, Failed CClearUnknown}"
    using bs' by blast+
  note ph = same_incidents_phase [OF same]
  have ok4: "incidents_ok (rn_db w4)" using assms(2) same_incidents_ok [OF same] by simp
  have mon4: "db_monitors (rn_db w4) = db_monitors (rn_db w)" using same by (simp add: same_incidents_def)
  define r where "r = apply_all v co trs w4"
  have res: "errs = errs1 @ fst r" "w' = snd r"
    using assms(4) by (simp_all add: record_observed_eq b r_def case_prod_beta)
  have eng: "rn_engine w' = rn_engine w4" by (simp add: res r_def)
  have k: "keeps (rn_db w4) m (rn_db w')" using apply_all_keeps [OF ok4] assms(3) unfolding res r_def by blast
  show "wf_engine (rn_engine w') \<and> incidents_ok (rn_db w') \<and> db_monitors (rn_db w') = db_monitors (rn_db w) \<and>
    (\<forall>k. k \<noteq> m \<longrightarrow> table_phase (rn_db w') k = table_phase (rn_db w) k \<and>
       phase_of (rn_engine w') k = phase_of (rn_engine w) k)"
    using bs keeps_ok [OF k] keeps_monitors [OF k] keeps_other [OF k] mon4 by (simp add: eng ph)
  assume m: "m \<in> db_monitors (rn_db w)" "table_phase (rn_db w) m = phase_of (rn_engine w) m"
    "set errs \<inter> lost_writes = {}"
  have "runs (table_phase (rn_db w4) m) trs (phase_of (rn_engine w4) m)" using bs m(2) by (simp add: ph)
  moreover have "set (fst r) \<inter> lost_writes = {}" using m(3) by (auto simp: res)
  ultimately have "table_phase (rn_db w') m = phase_of (rn_engine w4) m \<and> set (fst r) \<inter> range Refused = {}"
    using apply_all_reaches [OF ok4 assms(3)] m(1) mon4 unfolding r_def res(2) by blast
  moreover have "set errs1 \<inter> range Refused = {}" using bs by auto
  ultimately show "table_phase (rn_db w') m = phase_of (rn_engine w') m \<and> set errs \<inter> range Refused = {}"
    by (auto simp: res(1) eng)
qed

lemma record_observed_phase:
  assumes "wf_engine (rn_engine w)" "record_observed v co ts lnet ldns w = (errs, w')"
  shows "phase_of (rn_engine w') k = phase_of (fst (observe_check v (observation_of co ts lnet ldns) (rn_engine w))) k"
proof -
  obtain trs errs1 w4 where b: "before_apply v co ts lnet ldns w = (trs, errs1, w4)" by (metis surj_pair)
  then have "rn_engine w' = rn_engine (snd (apply_all v co trs w4))"
    using assms(2) by (auto simp: record_observed_eq case_prod_beta)
  then show ?thesis using before_apply_spec [OF assms(1) refl b] by simp
qed

lemma recordOutcome_in_step:
  assumes "in_step w" "m_ID (co_Monitor co) \<in> db_monitors (rn_db w)" "recordOutcome v co w = (errs, w')"
    and "set errs \<inter> lost_writes = {}"
  shows "in_step w' \<and> set errs \<inter> range Refused = {}"
  using assms(3)
proof (cases rule: recordOutcome_cases)
  case skipped
  then have "in_step w' = in_step w"
    by (simp add: in_step_def same_incidents_phase same_incidents_ok) (simp add: same_incidents_def)
  then show ?thesis using skipped(3) assms(1) by auto
next
  case (observed ts lnet ldns w1)
  let ?m = "m_ID (co_Monitor co)"
  have w1: "wf_engine (rn_engine w1)" "incidents_ok (rn_db w1)"
    "\<forall>k\<in>db_monitors (rn_db w1). table_phase (rn_db w1) k = phase_of (rn_engine w1) k"
    using assms(1) observed(1,2) by (simp_all add: in_step_def)
  note spec = record_observed_spec [OF w1(1,2) refl observed(3)]
  have "?m \<in> db_monitors (rn_db w1)" using assms(2) observed(1) by simp
  then have mine: "table_phase (rn_db w') ?m = phase_of (rn_engine w') ?m \<and> set errs \<inter> range Refused = {}"
    using spec(2) w1(3) assms(4) by blast
  have "table_phase (rn_db w') k = phase_of (rn_engine w') k" if "k \<in> db_monitors (rn_db w')" for k
    using that spec(1) mine w1(3) by (cases "k = ?m") simp_all
  then show ?thesis using spec(1) mine by (simp add: in_step_def)
qed

end
