(* ===== verification/RestartRuns.thy ===== *)
theory RestartRuns
  imports RunnerRuns
begin

text \<open>
  Restarts and reloads: the engine restored from the open incidents is in step with them, a reload keeps it so,
  and with them the states the runner can reach.
\<close>

section \<open>What a restart restores\<close>

lemma phase_restored: "phase (restore_ms (restored_of broken s x)) = row_phase x"
  by (simp add: restored_of_def restore_ms_def phase_def row_phase_def zero_monitorState_def Let_def case_prod_beta)

lemma restorable_restored: "restorable (restored_of broken s x)"
  by (simp add: restorable_def restored_status_def restored_of_def Let_def case_prod_beta)

lemma phase_of_Restore: "phase_of (Restore m rs e) k = (if k = m then phase (restore_ms rs) else phase_of e k)"
  by (simp add: phase_of_def lookup_ms_def Restore_def)

lemma restore_each_spec:
  assumes "distinct (map i_MonitorID xs)" "wf_engine e"
  shows "wf_engine (restore_each broken s xs e) \<and>
    (\<forall>x\<in>set xs. phase_of (restore_each broken s xs e) (i_MonitorID x) = row_phase x) \<and>
    (\<forall>m. m \<notin> i_MonitorID ` set xs \<longrightarrow> phase_of (restore_each broken s xs e) m = phase_of e m)"
  using assms
proof (induction xs arbitrary: e)
  case (Cons x xs)
  let ?e = "Restore (i_MonitorID x) (restored_of broken s x) e"
  have "wf_engine ?e" using Cons.prems(2) by (simp add: wf_Restore restorable_restored)
  moreover have "phase_of ?e k = (if k = i_MonitorID x then row_phase x else phase_of e k)" for k
    by (simp add: phase_of_Restore phase_restored)
  ultimately show ?case using Cons.IH [of ?e] Cons.prems(1) by auto
qed simp

lemma set_ListOpenIncidents: "set (ListOpenIncidents s) = {x \<in> set (db_incidents s). i_ResolvedAt x = None}"
  by (simp add: ListOpenIncidents_def)

lemma distinct_ListOpenIncidents:
  assumes "incidents_ok s"
  shows "distinct (map i_MonitorID (ListOpenIncidents s))"
proof -
  have "distinct (map i_MonitorID (filter (\<lambda>x. i_ResolvedAt x = None) (db_incidents s)))"
    using assms unfolding incidents_ok_def by blast
  then have "distinct (map i_MonitorID (rev (sort_key i_ID (filter (\<lambda>x. i_ResolvedAt x = None) (db_incidents s)))))"
    by (simp add: rev_map [symmetric] distinct_map_sort_key)
  then show ?thesis unfolding ListOpenIncidents_def by (simp only: distinct_map_sort_key)
qed

lemma fresh_phase: "phase_of (new_engine opts) m = NoIncident"
  by (simp add: phase_of_def lookup_ms_def new_engine_def phase_def zero_monitorState_def)

lemma restore_spec:
  assumes "incidents_ok s" "\<not> broken RListOpen"
  shows "wf_engine (snd (restore broken s (new_engine opts))) \<and>
    phase_of (snd (restore broken s (new_engine opts))) m = table_phase s m"
proof -
  note spec = restore_each_spec [OF distinct_ListOpenIncidents [OF assms(1)] wf_new_engine, of broken s opts]
  show ?thesis
  proof (cases "OpenIncidentFor m s")
    case None
    then have "m \<notin> i_MonitorID ` set (ListOpenIncidents s)"
      by (auto simp: set_ListOpenIncidents OpenIncidentFor_None list_ex_iff open_for_def)
    then show ?thesis using spec assms(2) None by (simp add: restore_def fresh_phase table_phase_def)
  next
    case (Some x)
    then have "x \<in> set (ListOpenIncidents s)" "i_MonitorID x = m"
      by (auto simp: OpenIncidentFor_iff [OF assms(1)] set_ListOpenIncidents open_for_def)
    then show ?thesis using spec assms(2) Some by (auto simp: restore_def table_phase_Some)
  qed
qed

text \<open>The status that makes an outage confirmed is the phase \<open>Outage\<close>.\<close>

lemma Confirmed_phase: "core_ok ms \<Longrightarrow> Confirmed (ms_status ms) \<longleftrightarrow> phase ms = Outage"
  by (cases "ms_status ms"; simp add: core_ok_def phase_def Confirmed_def; auto)

lemma Status_lookup: "Status e m = ms_status (lookup_ms e m)"
  by (simp add: Status_def lookup_ms_def zero_monitorState_def split: option.split)

lemma Confirmed_Status: "wf_engine e \<Longrightarrow> Confirmed (Status e m) \<longleftrightarrow> phase_of e m = Outage"
  using Confirmed_phase wf_lookup_ms by (simp add: Status_lookup phase_of_def)

section \<open>A reload\<close>

lemma close_orphans_spec:
  assumes "incidents_ok s"
  shows "incidents_ok (close_orphans broken now live xs s) \<and>
    db_monitors (close_orphans broken now live xs s) = db_monitors s \<and>
    (\<forall>m. table_phase (close_orphans broken now live xs s) m =
      (if m \<in> live \<or> broken (JResolve m) \<or> m \<notin> i_MonitorID ` set xs then table_phase s m else NoIncident))"
  using assms
proof (induction xs arbitrary: s)
  case (Cons x xs)
  let ?m = "i_MonitorID x"
  define s1 where "s1 = (if ?m \<in> live \<or> broken (JResolve ?m) then s
      else case ResolveIncident ?m now s of Inl _ \<Rightarrow> s | Inr (y, s') \<Rightarrow> s')"
  have "moves s ?m (if ?m \<in> live \<or> broken (JResolve ?m) then table_phase s ?m else NoIncident) s1"
  proof (cases "?m \<in> live \<or> broken (JResolve ?m)")
    case True
    then show ?thesis using moves_refl [OF Cons.prems] by (simp add: s1_def)
  next
    case False
    show ?thesis
    proof (cases "ResolveIncident ?m now s")
      case (Inl e)
      then have "table_phase s ?m = NoIncident" by (simp add: ResolveIncident_Inl)
      then show ?thesis using False Inl moves_refl [OF Cons.prems, of ?m] by (simp add: s1_def)
    next
      case (Inr r)
      then show ?thesis using False moves_ResolveIncident [OF Cons.prems] by (cases r) (simp add: s1_def)
    qed
  qed
  then have s1: "incidents_ok s1" "db_monitors s1 = db_monitors s"
    "table_phase s1 = (table_phase s)(?m := (if ?m \<in> live \<or> broken (JResolve ?m) then table_phase s ?m else NoIncident))"
    by (simp_all add: moves_def)
  have "close_orphans broken now live (x # xs) s = close_orphans broken now live xs s1" by (simp add: s1_def)
  then show ?case using Cons.IH [OF s1(1)] s1(2,3) by auto
qed simp

lemma closeOrphaned_spec:
  assumes "incidents_ok s" "\<not> broken JListOpen" "\<forall>m. \<not> broken (JResolve m)"
  shows "incidents_ok (closeOrphanedIncidents broken now live s) \<and>
    db_monitors (closeOrphanedIncidents broken now live s) = db_monitors s \<and>
    table_phase (closeOrphanedIncidents broken now live s) m = (if m \<in> live then table_phase s m else NoIncident)"
proof -
  have "table_phase s m = NoIncident" if "m \<notin> i_MonitorID ` set (ListOpenIncidents s)"
    using that by (auto simp: table_phase_None OpenIncidentFor_None set_ListOpenIncidents list_ex_iff open_for_def)
  then show ?thesis
    using close_orphans_spec [OF assms(1), of broken now live "ListOpenIncidents s"] assms(2,3)
    by (simp add: closeOrphanedIncidents_def)
qed

lemma phase_of_Retain: "phase_of (Retain live e) m = (if m \<in> live then phase_of e m else NoIncident)"
  by (simp add: phase_of_def lookup_ms_def Retain_def restrict_map_def phase_def zero_monitorState_def)

definition reload_writes :: "(jobs_call \<Rightarrow> bool) \<Rightarrow> bool" where
  "reload_writes broken \<longleftrightarrow> \<not> broken JListOpen \<and> (\<forall>m. \<not> broken (JResolve m))"

lemma jobs_in_step:
  assumes "in_step w" "jobs broken now table w = (js, w')" "reload_writes broken"
  shows "in_step w'"
proof (cases "broken JListEnabled")
  case True
  then show ?thesis using assms(1,2) by (simp add: jobs_def)
next
  case False
  define live where "live = set (map sm_ID (ListEnabledMonitors table))"
  have w': "rn_engine w' = Retain live (rn_engine w)" "rn_db w' = closeOrphanedIncidents broken now live (rn_db w)"
    using False assms(2) by (auto simp: jobs_def Let_def live_def)
  have ok: "incidents_ok (rn_db w)" "wf_engine (rn_engine w)" using assms(1) by (simp_all add: in_step_def)
  note c = closeOrphaned_spec [OF ok(1), of broken now live]
  show ?thesis
    using c assms(1,3) wf_Retain [OF ok(2)] unfolding in_step_def w' reload_writes_def by (simp add: phase_of_Retain)
qed

section \<open>The reminder sweep\<close>

lemma moves_RecordReminder:
  assumes "incidents_ok s" "RecordReminder i now s = Inr s'"
  shows "moves s m (table_phase s m) s'"
proof -
  have s': "s' = update_incidents (remindable_now i)
      (\<lambda>x. x\<lparr>i_RemindedAt := Some (to_second now), i_ReminderCount := i_ReminderCount x + 1\<rparr>) s"
    using assms(2) by (auto simp: RecordReminder_def split: if_splits)
  show ?thesis unfolding s'
    by (rule moves_update [OF assms(1)]) (auto simp: row_phase_def table_phase_None table_phase_Some)
qed

lemma remind_in_step:
  assumes "in_step w"
  shows "in_step (remind v c w)"
proof (cases "RecordReminder (i_ID (fst c)) (p_now v) (rn_db w)")
  case (Inl e)
  then show ?thesis using assms by (simp add: remind_def Let_def)
next
  case (Inr s)
  have ok: "incidents_ok (rn_db w)" using assms by (simp add: in_step_def)
  have "table_phase s k = table_phase (rn_db w) k" for k
    using moves_RecordReminder [OF ok Inr, of k] by (simp add: moves_def)
  moreover have "incidents_ok s" "db_monitors s = db_monitors (rn_db w)"
    using moves_RecordReminder [OF ok Inr, of 0] by (simp_all add: moves_def)
  ultimately show ?thesis using assms Inr by (simp add: remind_def Let_def in_step_def)
qed

lemma sweep_in_step: "in_step w \<Longrightarrow> in_step (sendDueReminders v repeat_after listed w)"
proof -
  have "in_step w \<Longrightarrow> in_step (fold (remind v) cs w)" for cs
    by (induction cs arbitrary: w) (simp_all add: remind_in_step)
  then show "in_step w \<Longrightarrow> in_step (sendDueReminders v repeat_after listed w)" by (simp add: sendDueReminders_def)
qed

section \<open>The states of a runner\<close>

text \<open>
  A process starts on tables with an engine restored from them, records outcomes of monitors in the table,
  reloads, sweeps for reminders, and may be replaced by a new process on the same tables at any moment. A step
  in which a write of an incident is lost is not one of these; a read or any other write may fail in any.
\<close>

inductive runner_reachable :: "options \<Rightarrow> runner \<Rightarrow> bool" for opts where
  started: "incidents_ok (rn_db w) \<Longrightarrow> \<not> broken RListOpen \<Longrightarrow>
     rn_engine w = snd (restore broken (rn_db w) (new_engine opts)) \<Longrightarrow> runner_reachable opts w"
| recorded: "runner_reachable opts w \<Longrightarrow> m_ID (co_Monitor co) \<in> db_monitors (rn_db w) \<Longrightarrow>
     recordOutcome v co w = (errs, w') \<Longrightarrow> set errs \<inter> lost_writes = {} \<Longrightarrow> runner_reachable opts w'"
| reloaded: "runner_reachable opts w \<Longrightarrow> jobs broken now table w = (js, w') \<Longrightarrow> reload_writes broken \<Longrightarrow>
     runner_reachable opts w'"
| reminded: "runner_reachable opts w \<Longrightarrow> runner_reachable opts (sendDueReminders v repeat_after listed w)"
| restarted: "runner_reachable opts w \<Longrightarrow> \<not> broken RListOpen \<Longrightarrow> rn_db w' = rn_db w \<Longrightarrow>
     rn_engine w' = snd (restore broken (rn_db w) (new_engine opts)) \<Longrightarrow> runner_reachable opts w'"

lemma restored_in_step:
  "incidents_ok (rn_db w) \<Longrightarrow> \<not> broken RListOpen \<Longrightarrow>
   rn_engine w = snd (restore broken (rn_db w) (new_engine opts)) \<Longrightarrow> in_step w"
  using restore_spec [of "rn_db w" broken opts] by (simp add: in_step_def)

lemma reachable_in_step: "runner_reachable opts w \<Longrightarrow> in_step w"
proof (induction rule: runner_reachable.induct)
  case (started w broken)
  then show ?case by (rule restored_in_step)
next
  case (recorded w co v errs w')
  then show ?case using recordOutcome_in_step by blast
next
  case (reloaded w broken now table js w')
  then show ?case using jobs_in_step by blast
next
  case (reminded w v repeat_after listed)
  then show ?case by (simp add: sweep_in_step)
next
  case (restarted w broken w')
  then show ?case using restored_in_step [of w' broken opts] by (simp add: in_step_def)
qed

section \<open>What a caller is told\<close>

text \<open>An error names a call that failed, or is the refusal of a statement by the table.\<close>

definition explained :: "env \<Rightarrow> runner_error \<Rightarrow> bool" where
  "explained v e \<longleftrightarrow> e \<in> Failed ` Collect (v_fails v) \<union> range Refused"

lemma explained_simps [simp]:
  "explained v (Failed c) = v_fails v c" "explained v (Refused e)"
  by (auto simp: explained_def)

lemma explained_close_notice: "close_notice v m t s = (Some e, s') \<Longrightarrow> explained v e"
  by (auto simp: close_notice_def Let_def split: if_splits sum.splits)

lemma explained_confirm_or_open: "confirm_or_open v m t owed s = (Some e, s') \<Longrightarrow> explained v e"
  by (auto simp: confirm_or_open_def split: if_splits sum.splits)

lemma explained_confirmOutage: "confirmOutage v m t owed s = (Some e, x, s') \<Longrightarrow> explained v e"
  by (auto simp: confirmOutage_def dest: explained_close_notice explained_confirm_or_open
      split: prod.splits option.splits if_splits)

fun switch_error :: "runner_error option \<times> database + incident \<times> runner_error option \<times> database \<Rightarrow> runner_error option" where
  "switch_error (Inl (e, _)) = e"
| "switch_error (Inr (_, e, _)) = e"

lemma explained_switch: "switch_error (switch_event v co t s) = Some e \<Longrightarrow> explained v e"
  by (cases "t_Event t")
     (auto simp: switch_event_def Let_def dest: explained_confirmOutage split: if_splits sum.splits prod.splits option.splits)

lemma explained_deferred: "deferred v m t x s = Inl e \<Longrightarrow> explained v e"
  by (auto simp: deferred_def split: if_splits option.splits)

lemma explained_applyTransition:
  assumes "fst (applyTransition v co t w) = Some e"
  shows "explained v e"
proof (cases "switch_event v co t (rn_db w)")
  case (Inl r)
  then show ?thesis
    using assms explained_switch [of v co t "rn_db w" e] by (cases r) (simp add: applyTransition_def Let_def)
next
  case (Inr r)
  then show ?thesis
    using assms explained_switch [of v co t "rn_db w" e]
    by (cases r) (auto simp: applyTransition_def Let_def dest: explained_deferred split: if_splits sum.splits)
qed

lemma explained_apply_all: "e \<in> set (fst (apply_all v co ts w)) \<Longrightarrow> explained v e"
proof (induction ts arbitrary: w)
  case (Cons t ts)
  then show ?case
    using explained_applyTransition [of v co t w]
    by (auto simp: Let_def case_prod_beta split: option.splits)
qed simp

lemma capture_reason_fits:
  "capture_reason co first \<noteq> [] \<Longrightarrow>
   \<not> hb_OK (heartbeat_of v co ts lnet ldns first final) \<and> hb_Response (heartbeat_of v co ts lnet ldns first final) = None"
  by (auto simp: capture_reason_def heartbeat_of_def snapshotToStore_def Let_def split: if_splits)

lemma write_heartbeat_cases:
  assumes "reason \<noteq> [] \<Longrightarrow> \<not> hb_OK hb \<and> hb_Response hb = None"
  shows "if v_fails v CHeartbeat then fst (write_heartbeat v hb reason w) = Some (Failed CHeartbeat)
    else fst (write_heartbeat v hb reason w) = None \<and>
      (\<exists>hb'. db_heartbeats (rn_db (snd (write_heartbeat v hb reason w))) = db_heartbeats (rn_db w) @ [hb'] \<and>
        hb_MonitorID hb' = hb_MonitorID hb \<and> hb_OK hb' = hb_OK hb \<and> hb_TS hb' = to_second (hb_TS hb))"
  using assms by (auto simp: write_heartbeat_def RecordHeartbeatWithCaptureReason_def RecordHeartbeat_def)

lemma before_apply_heartbeat:
  assumes "before_apply v co ts lnet ldns w = (trs, errs, w4)"
  shows "set errs \<subseteq> Failed ` Collect (v_fails v)"
    and "errs = [] \<Longrightarrow> \<exists>hb. db_heartbeats (rn_db w4) = db_heartbeats (rn_db w) @ [hb] \<and>
      hb_MonitorID hb = m_ID (co_Monitor co) \<and> hb_OK hb = r_OK (co_Result co) \<and> hb_TS hb = to_second ts"
proof -
  obtain e trs' where o: "observe_check v (observation_of co ts lnet ldns) (rn_engine w) = (e, trs')" by force
  define hb where "hb = heartbeat_of v co ts lnet ldns (hd trs') (last trs')"
  define w1 where "w1 = w\<lparr>rn_engine := e, rn_sch := SetFailing (v_draws v) (v_now v) (m_ID (co_Monitor co))
    (Failing (t_To (last trs'))) (rn_sch w)\<rparr>"
  define W where "W = write_heartbeat v hb (capture_reason co (hd trs')) w1"
  define w3 where "w3 = (snd W)\<lparr>rn_frames := rn_frames (snd W) @ [heartbeat_frame v co hb (hd trs') (last trs')]\<rparr>"
  define C where "C = clear_unknown v co (fst W = None) w3"
  have "before_apply v co ts lnet ldns w = (trs', List.map_filter id [fst W, fst C], snd C)"
    unfolding before_apply_def o C_def w3_def W_def w1_def hb_def by (simp only: Let_def case_prod_beta prod.sel)
  then have eq: "errs = List.map_filter id [fst W, fst C]" "w4 = snd C"
    using assms by simp_all
  have hb: "hb_MonitorID hb = m_ID (co_Monitor co)" "hb_OK hb = r_OK (co_Result co)" "hb_TS hb = ts"
    by (simp_all add: hb_def heartbeat_of_def Let_def)
  have fits: "capture_reason co (hd trs') \<noteq> [] \<Longrightarrow> \<not> hb_OK hb \<and> hb_Response hb = None"
    unfolding hb_def by (rule capture_reason_fits)
  note wh = write_heartbeat_cases [where reason = "capture_reason co (hd trs')" and hb = hb and v = v and w = w1, OF fits,
      folded W_def]
  have C: "fst C = Some x \<Longrightarrow> x = Failed CClearUnknown \<and> v_fails v CClearUnknown" for x
    by (auto simp: C_def clear_unknown_def split: if_splits)
  show "set errs \<subseteq> Failed ` Collect (v_fails v)"
    using wh C unfolding eq(1) by (cases "v_fails v CHeartbeat") (auto simp: map_filter_simps split: option.splits)
  assume "errs = []"
  then have none: "fst W = None" unfolding eq(1) by (simp add: map_filter_simps split: option.splits)
  have "db_heartbeats (rn_db w4) = db_heartbeats (rn_db (snd W))"
    unfolding eq(2) C_def w3_def by (simp add: clear_unknown_def ClearUnknownCheck_def)
  then show "\<exists>hb. db_heartbeats (rn_db w4) = db_heartbeats (rn_db w) @ [hb] \<and>
      hb_MonitorID hb = m_ID (co_Monitor co) \<and> hb_OK hb = r_OK (co_Result co) \<and> hb_TS hb = to_second ts"
    using wh none hb by (cases "v_fails v CHeartbeat") (simp_all add: w1_def)
qed

lemma recordOutcome_errors:
  assumes "recordOutcome v co w = (errs, w')" "e \<in> set errs"
  shows "explained v e"
  using assms(1)
proof (cases rule: recordOutcome_cases)
  case skipped
  then show ?thesis using assms(2) by (auto simp: explained_def)
next
  case (observed ts lnet ldns w1)
  obtain trs errs1 w4 where b: "before_apply v co ts lnet ldns w1 = (trs, errs1, w4)" by (metis surj_pair)
  then have "errs = errs1 @ fst (apply_all v co trs w4)"
    using observed(3) by (simp add: record_observed_eq case_prod_beta)
  then show ?thesis
    using before_apply_heartbeat(1) [OF b] explained_apply_all [of e v co trs w4] assms(2) by (auto simp: explained_def)
qed

lemma recordOutcome_stores:
  assumes "recordOutcome v co w = ([], w')" "incidents_ok (rn_db w)" "wf_engine (rn_engine w)"
    and "\<not> co_Aborted co" "r_Kind (co_Result co) \<noteq> ''unknown''"
  shows "\<exists>hb. db_heartbeats (rn_db w') = db_heartbeats (rn_db w) @ [hb] \<and> hb_MonitorID hb = m_ID (co_Monitor co) \<and>
    hb_OK hb = r_OK (co_Result co) \<and>
    hb_TS hb = to_second (if is_zero (r_CheckedAt (co_Result co)) then v_now v else r_CheckedAt (co_Result co))"
  using assms(1)
proof (cases rule: recordOutcome_cases)
  case skipped
  then show ?thesis using assms(4,5) by simp
next
  case (observed ts lnet ldns w1)
  obtain trs errs1 w4 where b: "before_apply v co ts lnet ldns w1 = (trs, errs1, w4)" by (metis surj_pair)
  then have e: "errs1 = []" "w' = snd (apply_all v co trs w4)"
    using observed(3) by (simp_all add: record_observed_eq case_prod_beta)
  have "same_incidents (rn_db w) (rn_db w4)"
    using before_apply_spec [OF _ refl b] assms(3) observed(1,2) by simp
  then have "incidents_ok (rn_db w4)" using assms(2) same_incidents_ok by blast
  then have "db_heartbeats (rn_db w') = db_heartbeats (rn_db w4)"
    unfolding e(2) by (rule keeps_heartbeats [OF apply_all_keeps])
  then show ?thesis
    using before_apply_heartbeat(2) [OF b e(1)] observed(1,6) by simp
qed

lemma recordOutcome_monitors:
  assumes "incidents_ok (rn_db w)" "wf_engine (rn_engine w)" "recordOutcome v co w = (errs, w')"
  shows "db_monitors (rn_db w') = db_monitors (rn_db w)"
  using assms(3)
proof (cases rule: recordOutcome_cases)
  case skipped
  then show ?thesis by (simp add: same_incidents_def)
next
  case (observed ts lnet ldns w1)
  then show ?thesis using record_observed_spec(1) [OF _ _ refl observed(3)] assms(1,2) by simp
qed

lemma recordOutcome_no_failure:
  assumes "in_step w" "m_ID (co_Monitor co) \<in> db_monitors (rn_db w)" "recordOutcome v co w = (errs, w')"
    and "\<forall>c. \<not> v_fails v c"
  shows "errs = []"
proof -
  have "set errs \<subseteq> range Refused" using recordOutcome_errors [OF assms(3)] assms(4) by (auto simp: explained_def)
  moreover from this have "set errs \<inter> lost_writes = {}" by (auto simp: lost_writes_def)
  ultimately have "set errs \<inter> range Refused = {}" "set errs \<subseteq> range Refused"
    using recordOutcome_in_step [OF assms(1-3)] by simp_all
  then have "set errs = {}" by (simp add: inf.absorb1)
  then show ?thesis by simp
qed

section \<open>Properties\<close>

definition sample_db :: database where
  "sample_db = \<lparr>db_rows = [], db_nextID = 1, db_held = [], db_nextHeld = 1, db_monitors = {7}, db_channels = {1},
     db_incidents = [], db_nextIncident = 1, db_maintAlerts = [], db_failures = Map.empty, db_heartbeats = [],
     db_unknown = Map.empty\<rparr>"

definition sample_runner :: runner where
  "sample_runner = \<lparr>rn_engine = new_engine default_options,
     rn_sch = new_scheduler 2 \<lparr>op_Workers = 0, op_ReloadInterval = 0, op_JitterFraction = 0\<rparr>, rn_canary = None,
     rn_db = sample_db, rn_checks = 0, rn_hbFailures = 0, rn_frames = [], rn_alerts = []\<rparr>"

definition sample_env :: env where
  "sample_env = \<lparr>v_now = hours 3, v_maintained = False, v_maintainedNow = Some False, v_ctxErr = False,
     v_dial = \<lambda>_. True, v_lookup = \<lambda>_. None, v_public = \<lambda>_. True, v_draws = \<lambda>_. 1 / 2, v_notify = True,
     v_fails = \<lambda>_. False\<rparr>"

definition sample_down :: checkOutcome where
  "sample_down = \<lparr>co_Monitor = \<lparr>m_ID = 7, m_Type = ''http'', m_Timeout = seconds 10, cm_Retries = 1,
       cm_RecoveryThreshold = 1, cm_CaptureResponse = True\<rparr>,
     co_Result = \<lparr>r_OK = False, r_Kind = ''status'', r_Error = ''500'', r_CheckedAt = hours 2, cr_Latency = 40,
       cr_StatusCode = 500, cr_Expiring = False, cr_ResolverFailed = False, cr_Peer = None, cr_Response = None\<rparr>,
     co_Aborted = False\<rparr>"

lemma sample_runner_reachable: "runner_reachable default_options sample_runner"
  by (rule started [where broken = "\<lambda>_. False"])
     (simp_all add: sample_runner_def sample_db_def incidents_ok_def restore_def ListOpenIncidents_def)

lemma sample_recorded:
  "fst (recordOutcome sample_env sample_down sample_runner) = []"
  "runner_reachable default_options (snd (recordOutcome sample_env sample_down sample_runner))"
proof -
  have m: "m_ID (co_Monitor sample_down) \<in> db_monitors (rn_db sample_runner)"
    by (simp add: sample_down_def sample_runner_def sample_db_def)
  show none: "fst (recordOutcome sample_env sample_down sample_runner) = []"
    by (rule recordOutcome_no_failure [OF reachable_in_step [OF sample_runner_reachable] m surjective_pairing])
       (simp add: sample_env_def)
  show "runner_reachable default_options (snd (recordOutcome sample_env sample_down sample_runner))"
    by (rule recorded [OF sample_runner_reachable m surjective_pairing]) (simp add: none)
qed

text \<open>
  C31: a restart loses no incident and invents none. Restoring a new engine from the tables of any reachable
  state, whichever of the counts behind it cannot be read, puts every monitor in the phase the old engine had it
  in; so an outage that was confirmed stays confirmed, and is not announced as new by the next failing check.
\<close>

theorem restart_keeps_phases:
  assumes "runner_reachable opts w" "m \<in> db_monitors (rn_db w)" "\<not> broken RListOpen"
  shows "phase_of (snd (restore broken (rn_db w) (new_engine opts))) m = phase_of (rn_engine w) m \<and>
    Confirmed (Status (snd (restore broken (rn_db w) (new_engine opts))) m) = Confirmed (Status (rn_engine w) m)"
proof -
  have "in_step w" by (rule reachable_in_step [OF assms(1)])
  then have ok: "incidents_ok (rn_db w)" "wf_engine (rn_engine w)" "table_phase (rn_db w) m = phase_of (rn_engine w) m"
    using assms(2) by (simp_all add: in_step_def)
  note r = restore_spec [OF ok(1), where broken = broken and opts = opts and m = m, OF assms(3)]
  show ?thesis
    using r ok(3) Confirmed_Status [OF ok(2)] Confirmed_Status [OF conjunct1 [OF r]] by simp
qed

theorem restart_keeps_phases_witness:
  "phase_of (snd (restore (\<lambda>c. c = RFails 7) (rn_db sample_runner) (new_engine default_options))) 7 =
     phase_of (rn_engine sample_runner) 7"
  using restart_keeps_phases [OF sample_runner_reachable, of 7 "\<lambda>c. c = RFails 7"]
  by (simp add: sample_runner_def sample_db_def)



end
