(* ===== verification/Push.thy ===== *)
theory Push
  imports RestartRuns
begin

text \<open>
  Push monitors (\<open>internal/monitor/push.go\<close>, \<open>internal/store/push.go\<close>): the window a job has to report
  in, the watchdog that turns its silence into a failed check, and the reports themselves.

  The time-zone database is a parameter: \<open>zone name\<close> is None for a zone that does not load, else the function
  \<open>dayAtSameClock\<close> of that zone, from a moment and a number of days to the moment the zone's clock reads the same.
  \<open>clock_zones\<close> states what the deadline relies on: a later day is later. Intervals and graces are those the
  store admits (at most 30 days), so their products with a second do not overflow.
\<close>

section \<open>The window\<close>

definition secondsPerDay :: int where
  "secondsPerDay = 24 * 60 * 60"

definition PushIntervalIsWholeDays :: "int \<Rightarrow> bool" where
  "PushIntervalIsWholeDays i \<longleftrightarrow> 0 < i \<and> i mod secondsPerDay = 0"

type_synonym zones = "string \<rightharpoonup> (instant \<Rightarrow> int \<Rightarrow> instant)"

definition LoadPushTimezone :: "zones \<Rightarrow> string \<Rightarrow> (instant \<Rightarrow> int \<Rightarrow> instant) option" where
  "LoadPushTimezone zone name = (if name = [] \<or> name = ''Local'' then None else zone name)"

definition pushClock :: "zones \<Rightarrow> storeMonitor \<Rightarrow> ((instant \<Rightarrow> int \<Rightarrow> instant) \<times> int) option" where
  "pushClock zone m =
     (if sm_PushTimezone m = [] \<or> \<not> PushIntervalIsWholeDays (sm_PushIntervalS m) then None
      else case LoadPushTimezone zone (sm_PushTimezone m) of
        None \<Rightarrow> None
      | Some clock \<Rightarrow> Some (clock, sm_PushIntervalS m div secondsPerDay))"

definition PushDeadline :: "zones \<Rightarrow> storeMonitor \<Rightarrow> instant \<Rightarrow> instant" where
  "PushDeadline zone m start =
     (let grace = seconds (sm_PushGraceS m) in
      case pushClock zone m of
        Some (clock, days) \<Rightarrow> clock start days + grace
      | None \<Rightarrow> start + (seconds (sm_PushIntervalS m) + grace))"

datatype PushWindowReason = PushWindowReported | PushWindowResumed | PushWindowRestarted

record pushWindow =
  pw_Start :: instant
  pw_Deadline :: instant
  pw_Reason :: PushWindowReason

text \<open>\<open>listening\<close> is the zero time before the process listens.\<close>

definition PushWindow :: "zones \<Rightarrow> storeMonitor \<Rightarrow> instant \<Rightarrow> instant \<Rightarrow> pushWindow" where
  "PushWindow zone m prev listening =
     (let (start, reason) = (if prev < sm_ResumedAt m then (sm_ResumedAt m, PushWindowResumed) else (prev, PushWindowReported));
          deadline = PushDeadline zone m start
      in if \<not> is_zero listening \<and> deadline < listening
         then \<lparr>pw_Start = listening, pw_Deadline = PushDeadline zone m listening, pw_Reason = PushWindowRestarted\<rparr>
         else \<lparr>pw_Start = start, pw_Deadline = deadline, pw_Reason = reason\<rparr>)"

definition LastActivity :: "database \<Rightarrow> storeMonitor \<Rightarrow> instant" where
  "LastActivity s m =
     (case map hb_TS (filter (\<lambda>h. hb_MonitorID h = sm_ID m) (db_heartbeats s)) of
        [] \<Rightarrow> sm_CreatedAt m | t # ts \<Rightarrow> foldl max t ts)"

text \<open>
  \<open>MarkPushListening\<close> keeps the first moment it is given; the counter holds Unix nanoseconds, of which 0 is
  "not yet".
\<close>

definition MarkPushListening :: "instant \<Rightarrow> instant option \<Rightarrow> instant option" where
  "MarkPushListening now since =
     (case since of None \<Rightarrow> if now = unix_epoch then None else Some now | Some t \<Rightarrow> Some t)"

definition PushListeningSince :: "instant option \<Rightarrow> instant" where
  "PushListeningSince since = (case since of None \<Rightarrow> 0 | Some t \<Rightarrow> t)"

section \<open>Reports\<close>

definition pushFailureThreshold :: int where
  "pushFailureThreshold = 1"

definition pushRecoveryThreshold :: int where
  "pushRecoveryThreshold = 1"

record pushReport =
  pr_OK :: bool
  pr_Message :: string
  pr_At :: instant

datatype push_error = ErrNotPushMonitor

definition pushCheckerMonitor :: "storeMonitor \<Rightarrow> checkedMonitor" where
  "pushCheckerMonitor m =
     (toCheckerMonitor m)\<lparr>cm_Retries := pushFailureThreshold, cm_RecoveryThreshold := pushRecoveryThreshold\<rparr>"

text \<open>A result with the fields the two callers set; the others are zero.\<close>

definition push_result :: "bool \<Rightarrow> string \<Rightarrow> string \<Rightarrow> instant \<Rightarrow> checkResult" where
  "push_result ok kind err seen = \<lparr>r_OK = ok, r_Kind = kind, r_Error = err, r_CheckedAt = seen, cr_Latency = 0,
     cr_StatusCode = 0, cr_Expiring = False, cr_ResolverFailed = False, cr_Peer = None, cr_Response = None\<rparr>"

definition RecordPush ::
  "env \<Rightarrow> storeMonitor \<Rightarrow> pushReport \<Rightarrow> runner \<Rightarrow> (push_error + runner_error list) \<times> runner" where
  "RecordPush v m rep w =
     (if sm_Type m \<noteq> TypePush then (Inl ErrNotPushMonitor, w)
      else
        let seen = (if is_zero (pr_At rep) then v_now v else pr_At rep);
            res = (if pr_OK rep then push_result True [] [] seen
                   else push_result False ''push_reported''
                     (if pr_Message rep = [] then ''the job reported that it failed'' else pr_Message rep) seen);
            (errs, w') = recordOutcome v \<lparr>co_Monitor = pushCheckerMonitor m, co_Result = res, co_Aborted = False\<rparr> w
        in (Inr errs, w'))"

section \<open>The watchdog\<close>

text \<open>\<open>Duration.Round(time.Second)\<close> and \<open>Duration.String\<close> of a whole number of seconds.\<close>

definition round_second :: "duration \<Rightarrow> int" where
  "round_second d = (if d < 0 then - ((- d + 500000000) div 1000000000) else (d + 500000000) div 1000000000)"

definition show_seconds :: "int \<Rightarrow> string" where
  "show_seconds n =
     (let k = \<bar>n\<bar>; hms = (if k < 60 then itoa k @ ''s''
            else if k < 3600 then itoa (k div 60) @ ''m'' @ itoa (k mod 60) @ ''s''
            else itoa (k div 3600) @ ''h'' @ itoa (k div 60 mod 60) @ ''m'' @ itoa (k mod 60) @ ''s'')
      in if n < 0 then ''-'' @ hms else hms)"

definition overdueMessage :: "storeMonitor \<Rightarrow> pushWindow \<Rightarrow> instant \<Rightarrow> string" where
  "overdueMessage m pw now =
     (let since = show_seconds (round_second (now - pw_Start pw));
          every = show_seconds (round_second (seconds (sm_PushIntervalS m)))
      in case pw_Reason pw of
           PushWindowResumed \<Rightarrow> ''no report in the '' @ since @ '' since the monitor was resumed, expected every '' @ every
         | PushWindowRestarted \<Rightarrow> ''no report in the '' @ since @ '' since SubGlance started, expected every '' @ every
         | PushWindowReported \<Rightarrow> ''no report for '' @ since @ '', expected every '' @ every)"

text \<open>One monitor of a sweep; \<open>readable\<close> is whether its last activity could be read.\<close>

definition sweep_push :: "env \<Rightarrow> zones \<Rightarrow> instant \<Rightarrow> instant \<Rightarrow> (int \<Rightarrow> bool) \<Rightarrow> storeMonitor \<Rightarrow> runner \<Rightarrow> runner" where
  "sweep_push v zone now listening readable m w =
     (if sm_PushIntervalS m \<le> 0 \<or> \<not> readable (sm_ID m) then w
      else
        let pw = PushWindow zone m (LastActivity (rn_db w) m) listening in
        if \<not> pw_Deadline pw < now then w
        else snd (recordOutcome v \<lparr>co_Monitor = pushCheckerMonitor m,
               co_Result = push_result False ''push_overdue'' (overdueMessage m pw now) (pw_Deadline pw),
               co_Aborted = False\<rparr> w))"

definition ListEnabledPushMonitors :: "storeMonitor list \<Rightarrow> storeMonitor list" where
  "ListEnabledPushMonitors = filter (\<lambda>m. sm_Enabled m \<and> sm_Type m = TypePush)"

definition sweepOverduePushMonitors ::
  "env \<Rightarrow> zones \<Rightarrow> instant \<Rightarrow> instant \<Rightarrow> (int \<Rightarrow> bool) \<Rightarrow> storeMonitor list \<Rightarrow> runner \<Rightarrow> runner" where
  "sweepOverduePushMonitors v zone now listening readable table w =
     fold (sweep_push v zone now listening readable) (ListEnabledPushMonitors table) w"

section \<open>Windows are heard in full\<close>

definition clock_zones :: "zones \<Rightarrow> bool" where
  "clock_zones zone \<longleftrightarrow> (\<forall>name f t d. zone name = Some f \<and> 0 < d \<longrightarrow> t < f t d)"

lemma PushDeadline_later:
  assumes "clock_zones zone" "0 < sm_PushIntervalS m" "0 \<le> sm_PushGraceS m"
  shows "start + seconds (sm_PushGraceS m) < PushDeadline zone m start"
proof (cases "pushClock zone m")
  case None
  then show ?thesis using assms(2) by (simp add: PushDeadline_def)
next
  case (Some c)
  obtain f d where c: "c = (f, d)" by (cases c)
  have f: "zone (sm_PushTimezone m) = Some f" and d: "d = sm_PushIntervalS m div secondsPerDay"
    and i: "PushIntervalIsWholeDays (sm_PushIntervalS m)"
    using Some c by (auto simp: pushClock_def LoadPushTimezone_def split: if_splits option.splits)
  have "secondsPerDay dvd sm_PushIntervalS m" "0 < sm_PushIntervalS m"
    using i by (simp_all add: PushIntervalIsWholeDays_def mod_eq_0_iff_dvd)
  then have "0 < d" unfolding d by (simp add: zdvd_imp_le pos_imp_zdiv_pos_iff secondsPerDay_def)
  then have "start < f start d" using assms(1) f unfolding clock_zones_def by blast
  then show ?thesis using Some c by (simp add: PushDeadline_def)
qed

text \<open>What \<open>PushWindow\<close> answers: the start is the last report, the resume or the start of the process.\<close>

lemma PushWindow_heard:
  assumes "clock_zones zone" "0 < sm_PushIntervalS m" "0 \<le> sm_PushGraceS m" "PushWindow zone m prev listening = pw"
  shows "pw_Deadline pw = PushDeadline zone m (pw_Start pw) \<and> pw_Start pw < pw_Deadline pw \<and>
    prev \<le> pw_Start pw \<and> sm_ResumedAt m \<le> pw_Start pw \<and> (is_zero listening \<or> listening \<le> pw_Deadline pw) \<and>
    (pw_Start pw = max prev (sm_ResumedAt m) \<or> pw_Start pw = listening)"
proof -
  have later: "t < PushDeadline zone m t" for t using PushDeadline_later [OF assms(1-3), of t] assms(3) by linarith
  show ?thesis
    using later [of listening] later [of prev] later [of "sm_ResumedAt m"]
    by (simp add: assms(4) [symmetric] PushWindow_def Let_def max_def)
qed

section \<open>One report decides\<close>

lemma phase_observe_fail:
  assumes "core_ok ms" "\<not> o_OK ob" "\<not> o_LocalNetwork ob" "o_FailureThreshold ob = 1"
  shows "phase (fst (observe_ms e ob ms)) = Outage"
  using assms
  by (cases "ms_status ms"; simp add: observe_ms_def decide_def observeFailure_def recordChange_def core_ok_def phase_def Let_def; auto)

lemma phase_observe_pass:
  assumes "core_ok ms" "o_OK ob" "\<not> o_Expiring ob" "o_RecoveryThreshold ob = 1"
  shows "phase (fst (observe_ms e ob ms)) = NoIncident"
  using assms
  by (cases "ms_status ms"; simp add: observe_ms_def decide_def observeSuccess_def closeIncident_def recordChange_def
      core_ok_def phase_def Let_def; auto)

definition push_outcome :: "storeMonitor \<Rightarrow> bool \<Rightarrow> string \<Rightarrow> string \<Rightarrow> instant \<Rightarrow> checkOutcome" where
  "push_outcome m ok kind err seen =
     \<lparr>co_Monitor = pushCheckerMonitor m, co_Result = push_result ok kind err seen, co_Aborted = False\<rparr>"

lemma push_monitor_ID [simp]: "m_ID (pushCheckerMonitor m) = sm_ID m"
  by (simp add: pushCheckerMonitor_def toCheckerMonitor_def)

lemma push_outcome_simps [simp]:
  "co_Monitor (push_outcome m ok kind err seen) = pushCheckerMonitor m"
  "co_Result (push_outcome m ok kind err seen) = push_result ok kind err seen"
  "\<not> co_Aborted (push_outcome m ok kind err seen)"
  by (simp_all add: push_outcome_def)

lemma push_result_simps [simp]:
  "r_OK (push_result ok kind err seen) = ok" "r_Kind (push_result ok kind err seen) = kind"
  "r_CheckedAt (push_result ok kind err seen) = seen"
  by (simp_all add: push_result_def)

lemma push_phase:
  assumes "wf_engine e" "ob = observation_of (push_outcome m ok kind err seen) ts False False"
  shows "phase_of (fst (observe_check v ob e)) (sm_ID m) = (if ok then NoIncident else Outage)"
proof -
  have ob: "o_MonitorID ob = sm_ID m" "o_OK ob = ok" "\<not> o_Expiring ob" "\<not> o_LocalNetwork ob"
    "o_FailureThreshold (normalise (v_now v) ob) = 1" "o_RecoveryThreshold (normalise (v_now v) ob) = 1"
    by (simp_all add: assms(2) observation_of_def normalise_def push_outcome_def push_result_def pushCheckerMonitor_def
        pushFailureThreshold_def pushRecoveryThreshold_def toCheckerMonitor_def Let_def)
  have "fst (observe_check v ob e) = fst (Observe (v_now v) e ob)"
    using ob(3) by (simp add: observe_check_def Let_def case_prod_beta)
  then have "phase_of (fst (observe_check v ob e)) (sm_ID m) =
      phase (fst (observe_ms e (normalise (v_now v) ob) (lookup_ms e (sm_ID m))))"
    using ob(1) by (simp add: phase_of_def Observe_eq Let_def) (simp add: lookup_ms_def)
  then show ?thesis
    using phase_observe_fail [of "lookup_ms e (sm_ID m)" "normalise (v_now v) ob" e]
      phase_observe_pass [of "lookup_ms e (sm_ID m)" "normalise (v_now v) ob" e] wf_lookup_ms [OF assms(1), of "sm_ID m"] ob
    by simp
qed

lemma localNetworkFailure_other:
  "r_Kind (co_Result co) \<notin> set network_kinds \<Longrightarrow> localNetworkFailure v co w = ((False, False), w)"
  by (simp add: localNetworkFailure_def Let_def split: option.split)

lemma record_push_outcome:
  assumes "in_step w" "sm_ID m \<in> db_monitors (rn_db w)" "kind \<in> {[], ''push_reported'', ''push_overdue''}"
    and "recordOutcome v (push_outcome m ok kind err seen) w = ([], w')" "seen \<noteq> 0"
  shows "table_phase (rn_db w') (sm_ID m) = (if ok then NoIncident else Outage) \<and>
    (\<exists>hb. db_heartbeats (rn_db w') = db_heartbeats (rn_db w) @ [hb] \<and> hb_MonitorID hb = sm_ID m \<and>
       hb_OK hb = ok \<and> hb_TS hb = to_second seen)"
proof -
  let ?co = "push_outcome m ok kind err seen"
  have wf: "wf_engine (rn_engine w)" "incidents_ok (rn_db w)" using assms(1) by (simp_all add: in_step_def)
  have mon: "m_ID (co_Monitor ?co) \<in> db_monitors (rn_db w)" using assms(2) by simp
  have k: "r_Kind (co_Result ?co) \<noteq> ''unknown''" "r_Kind (co_Result ?co) \<notin> set network_kinds"
    using assms(3) by (auto simp: network_kinds_def)
  have step: "in_step w'" using recordOutcome_in_step [OF assms(1) mon assms(4)] by simp
  have "db_monitors (rn_db w') = db_monitors (rn_db w)" by (rule recordOutcome_monitors [OF wf(2,1) assms(4)])
  then have tp: "table_phase (rn_db w') (sm_ID m) = phase_of (rn_engine w') (sm_ID m)"
    using step assms(2) by (simp add: in_step_def)
  have ph: "phase_of (rn_engine w') (sm_ID m) = (if ok then NoIncident else Outage)"
    using assms(4)
  proof (cases rule: recordOutcome_cases)
    case skipped
    then show ?thesis using k by simp
  next
    case (observed ts lnet ldns w1)
    have "\<not> lnet" "\<not> ldns"
      using observed(5) unfolding localNetworkFailure_other [OF k(2)] by blast+
    then show ?thesis
      using record_observed_phase [OF _ observed(3), of "sm_ID m"] push_phase [OF wf(1) refl, of v m ok kind err seen ts]
        wf(1) observed(2) by simp
  qed
  show ?thesis
    using recordOutcome_stores [OF assms(4) wf(2,1) _ k(1)] assms(5) tp ph by simp
qed

section \<open>The last activity\<close>

lemma foldl_max_in: "foldl max (t :: int) ts \<in> insert t (set ts) \<and> (\<forall>x\<in>insert t (set ts). x \<le> foldl max t ts)"
proof (induction ts arbitrary: t)
  case (Cons x xs)
  have "foldl max t (x # xs) = foldl max (max t x) xs" by simp
  then show ?case using Cons.IH [of "max t x"] by (auto simp: max_def split: if_splits)
qed simp

lemma LastActivity_spec:
  "(\<forall>h\<in>set (db_heartbeats s). hb_MonitorID h = sm_ID m \<longrightarrow> hb_TS h \<le> LastActivity s m) \<and>
   (LastActivity s m = sm_CreatedAt m \<or> (\<exists>h\<in>set (db_heartbeats s). hb_MonitorID h = sm_ID m \<and> LastActivity s m = hb_TS h))"
proof (cases "map hb_TS (filter (\<lambda>h. hb_MonitorID h = sm_ID m) (db_heartbeats s))")
  case Nil
  then show ?thesis by (auto simp: LastActivity_def filter_empty_conv)
next
  case (Cons t ts)
  have set: "insert t (set ts) = hb_TS ` {h \<in> set (db_heartbeats s). hb_MonitorID h = sm_ID m}"
    using arg_cong [OF Cons, of set] by auto
  have la: "LastActivity s m = foldl max t ts" by (simp add: LastActivity_def Cons)
  show ?thesis using foldl_max_in [of t ts] unfolding la set by auto
qed

end
