(* ===== verification/PushRuns.thy ===== *)
theory PushRuns
  imports Push
begin

text \<open>What a push monitor's reports and its silence do to its incident.\<close>

lemma RecordPush_outcome:
  assumes "RecordPush v m rep w = (Inr errs, w')"
  shows "sm_Type m = TypePush \<and>
    (\<exists>kind err. kind \<in> {[], ''push_reported'', ''push_overdue''} \<and>
       recordOutcome v (push_outcome m (pr_OK rep) kind err (if is_zero (pr_At rep) then v_now v else pr_At rep)) w = (errs, w'))"
  using assms by (cases "pr_OK rep") (auto simp: RecordPush_def push_outcome_def Let_def split: if_splits prod.splits)

lemma sweep_push_unfold:
  assumes "0 < sm_PushIntervalS m" "readable (sm_ID m)"
    and "PushWindow zone m (LastActivity (rn_db w) m) listening = pw"
  shows "sweep_push v zone now listening readable m w =
    (if pw_Deadline pw < now
     then snd (recordOutcome v (push_outcome m False ''push_overdue'' (overdueMessage m pw now) (pw_Deadline pw)) w) else w)"
  using assms by (simp add: sweep_push_def push_outcome_def Let_def)

definition sample_push :: storeMonitor where
  "sample_push = \<lparr>sm_ID = 7, sm_Type = ''push'', sm_IntervalS = 60, sm_TimeoutS = 10, sm_Retries = 3,
     sm_RecoveryThreshold = 2, sm_Enabled = True, sm_CaptureResponse = False, sm_PushIntervalS = 3600,
     sm_PushGraceS = 60, sm_PushTimezone = [], sm_ResumedAt = 0, sm_CreatedAt = hours 1\<rparr>"

lemma sample_push_stored: "sm_ID sample_push \<in> db_monitors (rn_db sample_runner)"
  by (simp add: sample_push_def sample_runner_def sample_db_def)

lemma sample_push_outcome:
  "recordOutcome sample_env (push_outcome sample_push ok kind err seen) sample_runner =
     ([], snd (recordOutcome sample_env (push_outcome sample_push ok kind err seen) sample_runner))"
proof -
  have "fst (recordOutcome sample_env (push_outcome sample_push ok kind err seen) sample_runner) = []"
    by (rule recordOutcome_no_failure [OF reachable_in_step [OF sample_runner_reachable] _ surjective_pairing])
       (simp_all add: sample_push_stored sample_env_def)
  then show ?thesis by (metis prod.collapse)
qed



text \<open>
  The signs of life a push monitor's window may start at, as \<open>store/push.go\<close> describes them: its reports, or its
  creation while it has none, and the moment it was last resumed.
\<close>

definition signs_of_life :: "database \<Rightarrow> storeMonitor \<Rightarrow> instant set" where
  "signs_of_life s m =
     (let reports = hb_TS ` {h \<in> set (db_heartbeats s). hb_MonitorID h = sm_ID m}
      in insert (sm_ResumedAt m) (if reports = {} then {sm_CreatedAt m} else reports))"

lemma last_sign: "max (LastActivity s m) (sm_ResumedAt m) = Max (signs_of_life s m)"
proof -
  let ?hbs = "filter (\<lambda>h. hb_MonitorID h = sm_ID m) (db_heartbeats s)"
  let ?r = "hb_TS ` {h \<in> set (db_heartbeats s). hb_MonitorID h = sm_ID m}"
  have r: "?r = set (map hb_TS ?hbs)" by auto
  have "LastActivity s m = Max (if ?r = {} then {sm_CreatedAt m} else ?r)"
  proof (cases "map hb_TS ?hbs")
    case (Cons t ts)
    then have "?r = insert t (set ts)" using r by simp
    then show ?thesis using foldl_max_in [of t ts] by (simp add: LastActivity_def Cons) (rule Max_eqI [symmetric]; auto)
  qed (use r in \<open>simp add: LastActivity_def\<close>)
  then show ?thesis by (simp add: signs_of_life_def Let_def max.commute)
qed

lemma PushWindow_start:
  assumes "PushWindow zone m (LastActivity s m) listening = pw"
  shows "pw_Start pw = (if \<not> is_zero listening \<and> PushDeadline zone m (Max (signs_of_life s m)) < listening
      then listening else Max (signs_of_life s m)) \<and> pw_Deadline pw = PushDeadline zone m (pw_Start pw)"
  unfolding assms [symmetric] by (simp add: last_sign [symmetric] PushWindow_def Let_def max_def)

text \<open>
  C34: the watchdog reports silence, all of it and only it. The window counts from the last sign of life, or from the
  moment the process started to listen when the deadline of that sign passed before. When no call fails, a turn of
  the sweep whose time is past the deadline of that window records one failed heartbeat, dated at the deadline, and
  leaves a confirmed outage; before the deadline and at it, it changes nothing. The window never starts before a
  report or a resume, and what is reported fell while the process was listening.
\<close>

theorem watchdog_reports_silence:
  fixes now listening :: instant
  assumes "runner_reachable opts w" "sm_ID m \<in> db_monitors (rn_db w)" "clock_zones zone"
    and "0 < sm_PushIntervalS m" "0 \<le> sm_PushGraceS m" "0 \<le> sm_ResumedAt m" "\<forall>c. \<not> v_fails v c" "readable (sm_ID m)"
  defines "w' \<equiv> sweep_push v zone now listening readable m w"
    and "sign \<equiv> Max (signs_of_life (rn_db w) m)"
  defines "start \<equiv> (if \<not> is_zero listening \<and> PushDeadline zone m sign < listening then listening else sign)"
  shows "sign \<le> start \<and> start < PushDeadline zone m start \<and> (is_zero listening \<or> listening \<le> PushDeadline zone m start) \<and>
    (if PushDeadline zone m start < now
     then table_phase (rn_db w') (sm_ID m) = Outage \<and>
       (\<exists>hb. db_heartbeats (rn_db w') = db_heartbeats (rn_db w) @ [hb] \<and> hb_MonitorID hb = sm_ID m \<and> \<not> hb_OK hb \<and>
         hb_TS hb = to_second (PushDeadline zone m start))
     else w' = w)"
proof -
  obtain pw where pw: "PushWindow zone m (LastActivity (rn_db w) m) listening = pw" by blast
  note heard = PushWindow_heard [OF assms(3-5) pw]
  have start: "pw_Start pw = start" "pw_Deadline pw = PushDeadline zone m start"
    using PushWindow_start [OF pw] by (simp_all add: start_def sign_def)
  have window: "sign \<le> start" "start < PushDeadline zone m start" "is_zero listening \<or> listening \<le> PushDeadline zone m start"
    using heard start by (simp_all add: sign_def last_sign [symmetric])
  have w': "w' = (if PushDeadline zone m start < now
      then snd (recordOutcome v (push_outcome m False ''push_overdue'' (overdueMessage m pw now) (PushDeadline zone m start)) w) else w)"
    using sweep_push_unfold [where readable = readable and zone = zone and listening = listening and m = m and w = w
        and v = v and now = now and pw = pw, OF assms(4,8) pw] by (simp add: w'_def start)
  show ?thesis
  proof (cases "PushDeadline zone m start < now")
    case True
    define co where "co = push_outcome m False ''push_overdue'' (overdueMessage m pw now) (PushDeadline zone m start)"
    obtain errs where r: "recordOutcome v co w = (errs, w')" using True by (metis w' co_def prod.collapse)
    have step: "in_step w" by (rule reachable_in_step [OF assms(1)])
    have none: "errs = []" by (rule recordOutcome_no_failure [OF step _ r assms(7)]) (simp add: co_def assms(2))
    have nz: "PushDeadline zone m start \<noteq> 0" using heard assms(6) start by linarith
    show ?thesis using True window record_push_outcome [OF step assms(2) _ r [unfolded none co_def] nz] by simp
  qed (use w' window in simp)
qed

text \<open>
  The sample monitor was created at one o'clock and expects a report an hour and a minute later; nothing was ever
  heard of it. The process listens from half past one: at three o'clock the silence is reported, dated at the
  deadline, and at two it is not.
\<close>

theorem watchdog_reports_silence_witness:
  "(\<exists>hb. db_heartbeats (rn_db (sweep_push sample_env Map.empty (hours 3) (minutes 90) (\<lambda>_. True) sample_push sample_runner)) = [hb] \<and>
     hb_TS hb = to_second (hours 1 + seconds 3660) \<and> \<not> hb_OK hb) \<and>
   sweep_push sample_env Map.empty (hours 2) (minutes 90) (\<lambda>_. True) sample_push sample_runner = sample_runner"
proof -
  have zones: "clock_zones Map.empty" by (simp add: clock_zones_def)
  have none: "db_heartbeats (rn_db sample_runner) = []" by (simp add: sample_runner_def sample_db_def)
  have dl: "PushDeadline Map.empty sample_push start = start + seconds 3660" for start
    by (simp add: PushDeadline_def pushClock_def sample_push_def)
  have ok: "0 < sm_PushIntervalS sample_push" "0 \<le> sm_PushGraceS sample_push" "0 \<le> sm_ResumedAt sample_push"
    "\<forall>c. \<not> v_fails sample_env c"
    by (simp_all add: sample_push_def sample_env_def)
  have last: "Max (signs_of_life (rn_db sample_runner) sample_push) = hours 1"
    by (simp add: signs_of_life_def none sample_push_def)
  note turn = watchdog_reports_silence [OF sample_runner_reachable sample_push_stored zones ok, of "\<lambda>_. True", unfolded last dl none]
  show ?thesis using turn [where now = "hours 3" and listening = "minutes 90"] turn [where now = "hours 2" and listening = "minutes 90"] by auto
qed

end
