(* ===== verification/OutcomeRuns.thy ===== *)
theory OutcomeRuns
  imports RestartRuns
begin

text \<open>
  Outcomes in flight at once. \<open>recordOutcome\<close> takes no lock: workers of the scheduler, checks on demand, reports of
  push monitors and the watchdog run it side by side, with reloads and reminders in between. Here each call on the
  engine and each statement on the tables is a step, and the steps of several outcomes interleave.

  What is one step: an asking of the canary (whose rounds \<open>CanaryRuns\<close> interleaves), the heartbeat with the count of its
  snapshot and its frame, and \<open>ResolveIncident\<close>, whose write names the row its read found.
\<close>

section \<open>The statements of one outcome\<close>

datatype task =
    FirstLook instant bool bool
  | SecondLook instant bool bool transition
  | SetPace instant bool bool "transition list"
  | WriteBeat instant bool bool "transition list"
  | ClearOld bool "transition list"
  | Switch transition
  | CloseNotice transition | OpenReplacing transition | ConfirmRow transition | OpenLate transition | ConfirmLate transition
  | ReloadRow transition
  | Remember transition incident "runner_error option"
  | Tell transition incident "runner_error option"

text \<open>
  One statement of the outcome of a monitor: the error it leaves, if any, and the statements that follow it. After an
  early return none follow.
\<close>

abbreviation owed_by :: "env \<Rightarrow> transition \<Rightarrow> bool" where
  "owed_by v t \<equiv> t_Notify t \<and> \<not> v_maintained v \<and> v_notify v"

fun perform :: "env \<Rightarrow> checkOutcome \<Rightarrow> task \<Rightarrow> runner \<Rightarrow> runner_error option \<times> task list \<times> runner" where
  "perform v co (FirstLook ts lnet ldns) w =
     (let ob = observation_of co ts lnet ldns; (e, t) = Observe (v_now v) (rn_engine w) ob
      in (None, [if o_Expiring ob \<and> t_Event t = EventIncidentResolved \<and> \<not> t_Notice t
                 then SecondLook ts lnet ldns t else SetPace ts lnet ldns [t]], w\<lparr>rn_engine := e\<rparr>))"
| "perform v co (SecondLook ts lnet ldns t) w =
     (let (e, t2) = Observe (v_now v) (rn_engine w) (observation_of co ts lnet ldns)
      in (None, [SetPace ts lnet ldns [t, t2]], w\<lparr>rn_engine := e\<rparr>))"
| "perform v co (SetPace ts lnet ldns trs) w =
     (None, [WriteBeat ts lnet ldns trs],
      w\<lparr>rn_sch := SetFailing (v_draws v) (v_now v) (m_ID (co_Monitor co)) (Failing (t_To (last trs))) (rn_sch w)\<rparr>)"
| "perform v co (WriteBeat ts lnet ldns trs) w =
     (let hb = heartbeat_of v co ts lnet ldns (hd trs) (last trs);
          (err, w1) = write_heartbeat v hb (capture_reason co (hd trs)) w
      in (err, [ClearOld (err = None) trs], w1\<lparr>rn_frames := rn_frames w1 @ [heartbeat_frame v co hb (hd trs) (last trs)]\<rparr>))"
| "perform v co (ClearOld stored trs) w = (let (err, w1) = clear_unknown v co stored w in (err, map Switch trs, w1))"
| "perform v co (Switch t) w =
     (let m = m_ID (co_Monitor co); s = rn_db w in
      case t_Event t of
        EventNone \<Rightarrow>
          if (\<not> r_OK (co_Result co) \<and> \<not> t_Notice t) \<or> t_To t = StatusExpiring
          then if v_fails v CUpdateError then (None, [Remember t zero_incident (Some (Failed CUpdateError))], w)
               else (None, [Remember t zero_incident None], w\<lparr>rn_db := UpdateIncidentError m (t_Cause t) (t_Error t) s\<rparr>)
          else (None, [Remember t zero_incident None], w)
      | EventIncidentOpened \<Rightarrow>
          if v_fails v COpen then (Some (Failed COpen), [], w)
          else (case OpenIncident m (t_At t) (t_Cause t) (t_Error t) s of
                  Inl err \<Rightarrow> (Some (Refused err), [], w)
                | Inr (x, s') \<Rightarrow> (None, [Remember t x None], w\<lparr>rn_db := s'\<rparr>))
      | EventIncidentConfirmed \<Rightarrow>
          if \<not> t_Notice t then (None, [if t_Replaces t then CloseNotice t else ConfirmRow t], w)
          else if v_fails v COpenNotice then (Some (Failed COpenNotice), [], w)
          else (case OpenNotice m (t_At t) (t_Cause t) (t_Error t) s of
                  Inl err \<Rightarrow> (Some (Refused err), [], w)
                | Inr (x, s') \<Rightarrow> (None, [ReloadRow t], w\<lparr>rn_db := s'\<rparr>))
      | EventIncidentResolved \<Rightarrow>
          if v_fails v CResolve then (Some (Failed CResolve), [], w)
          else (case ResolveIncident m (t_RecoveredAt t) s of
                  Inl _ \<Rightarrow> (None, [], w)
                | Inr (x, s') \<Rightarrow> (None, [Remember t x None], w\<lparr>rn_db := s'\<rparr>))
      | EventIncidentReminder \<Rightarrow> (None, [Remember t zero_incident None], w))"
| "perform v co (CloseNotice t) w =
     (if v_fails v CCloseNotice then (Some (Failed CCloseNotice), [], w)
      else (None, [OpenReplacing t],
            case ResolveIncident (m_ID (co_Monitor co)) (t_StartedAt t) (rn_db w) of Inl _ \<Rightarrow> w | Inr (x, s1) \<Rightarrow> w\<lparr>rn_db := s1\<rparr>))"
| "perform v co (OpenReplacing t) w =
     (if v_fails v COpenReplacing then (Some (Failed COpenReplacing), [], w)
      else case OpenIncident (m_ID (co_Monitor co)) (t_StartedAt t) (t_Cause t) (t_Error t) (rn_db w) of
        Inl err \<Rightarrow> (Some (Refused err), [], w)
      | Inr (x, s') \<Rightarrow> (None, [ConfirmRow t], w\<lparr>rn_db := s'\<rparr>))"
| "perform v co (ConfirmRow t) w =
     (if v_fails v CConfirm then (Some (Failed CConfirm), [], w)
      else case confirmIncident (owed_by v t) (m_ID (co_Monitor co)) (t_At t) (t_Cause t) (t_Error t) (rn_db w) of
        Inr s' \<Rightarrow> (None, [ReloadRow t], w\<lparr>rn_db := s'\<rparr>)
      | Inl _ \<Rightarrow> (None, [OpenLate t], w))"
| "perform v co (OpenLate t) w =
     (if v_fails v COpenOnConfirm then (Some (Failed COpenOnConfirm), [], w)
      else case OpenIncident (m_ID (co_Monitor co)) (t_At t) (t_Cause t) (t_Error t) (rn_db w) of
        Inl err \<Rightarrow> (Some (Refused err), [], w)
      | Inr (x, s') \<Rightarrow> (None, [ConfirmLate t], w\<lparr>rn_db := s'\<rparr>))"
| "perform v co (ConfirmLate t) w =
     (if v_fails v CConfirmOpened then (Some (Failed CConfirmOpened), [], w)
      else case confirmIncident (owed_by v t) (m_ID (co_Monitor co)) (t_At t) (t_Cause t) (t_Error t) (rn_db w) of
        Inl err \<Rightarrow> (Some (Refused err), [], w)
      | Inr s' \<Rightarrow> (None, [ReloadRow t], w\<lparr>rn_db := s'\<rparr>))"
| "perform v co (ReloadRow t) w = (None, [Remember t (reload_incident v (m_ID (co_Monitor co)) (rn_db w)) None], w)"
| "perform v co (Remember t x err) w =
     (if t_Event t = EventIncidentConfirmed \<and> v_maintained v
      then if v_fails v CSetPending then (Some (Failed CSetPending), [], w)
           else (None, [Tell t x err], w\<lparr>rn_db := SetMaintenancePending (i_ID x) True (rn_db w)\<rparr>)
      else (None, [Tell t x err], w))"
| "perform v co (Tell t x err) w =
     (let m = m_ID (co_Monitor co) in
      case deferred v m t x (rn_db w) of
        Inl err' \<Rightarrow> (Some err', [], w)
      | Inr (t1, x1) \<Rightarrow> (err, [], announce v m (silence v x1 t1) x1 w))"

text \<open>What \<open>recordOutcome\<close> does before the engine sees the check: the statements that are then to follow.\<close>

definition begin_outcome :: "env \<Rightarrow> checkOutcome \<Rightarrow> runner \<Rightarrow> runner_error list \<times> task list \<times> runner" where
  "begin_outcome v co w =
     (let r = co_Result co in
      if co_Aborted co then ([], [], w)
      else if r_Kind r = ''unknown'' then (let (errs, w1) = recordUnknown v co w in (errs, [], w1))
      else
        let ts = (if is_zero (r_CheckedAt r) then v_now v else r_CheckedAt r) in
        if v_fails v CReadMaintenance
        then ([Failed CReadMaintenance], [], w\<lparr>rn_hbFailures := rn_hbFailures w + 1\<rparr>)
        else
          let ((lnet, ldns), w1) = localNetworkFailure v co (reportPublicPeer v co w)
          in ([], [FirstLook ts lnet ldns], w1))"

section \<open>An outcome alone is \<open>recordOutcome\<close>\<close>

fun weight :: "task \<Rightarrow> nat" where
  "weight (FirstLook _ _ _) = 40" | "weight (SecondLook _ _ _ _) = 30"
| "weight (SetPace _ _ _ trs) = 3 + 10 * length trs" | "weight (WriteBeat _ _ _ trs) = 2 + 10 * length trs"
| "weight (ClearOld _ trs) = 1 + 10 * length trs" | "weight (Switch _) = 10" | "weight (CloseNotice _) = 9"
| "weight (OpenReplacing _) = 8" | "weight (ConfirmRow _) = 7" | "weight (OpenLate _) = 6" | "weight (ConfirmLate _) = 5"
| "weight (ReloadRow _) = 4" | "weight (Remember _ _ _) = 3" | "weight (Tell _ _ _) = 2"

lemma weight_Switch: "sum_list (map weight (map Switch trs)) = 10 * length trs"
  by (induction trs) simp_all

lemma perform_lighter: "sum_list (map weight (fst (snd (perform v co k w)))) < weight k"
  by (cases k) (simp_all add: Let_def case_prod_beta weight_Switch [unfolded map_map] split: event.split sum.split option.split)

lemma perform_lighter': "(err, ns, w1) = perform v co k w \<Longrightarrow> sum_list (map weight ns) < weight k"
  using perform_lighter [of v co k w] by (metis fst_conv snd_conv)

function run_tasks :: "env \<Rightarrow> checkOutcome \<Rightarrow> task list \<Rightarrow> runner \<Rightarrow> runner_error list \<times> runner" where
  "run_tasks v co [] w = ([], w)"
| "run_tasks v co (k # ks) w =
     (let (err, ns, w1) = perform v co k w; (errs, w2) = run_tasks v co (ns @ ks) w1
      in (case err of None \<Rightarrow> errs | Some e \<Rightarrow> e # errs, w2))"
  by pat_completeness auto
termination
  by (relation "measure (\<lambda>(v, co, ks, w). sum_list (map weight ks))") (auto dest: perform_lighter')

text \<open>Run to the end with nothing in between, the statements of a transition are \<open>applyTransition\<close>.\<close>

definition note_error :: "runner_error option \<Rightarrow> runner_error list \<times> runner \<Rightarrow> runner_error list \<times> runner" where
  "note_error err r = (case err of None \<Rightarrow> r | Some e \<Rightarrow> (e # fst r, snd r))"

lemma run_tasks_Cons:
  "run_tasks v co (k # ks) w =
     (case perform v co k w of (err, ns, w1) \<Rightarrow> note_error err (run_tasks v co (ns @ ks) w1))"
  by (simp add: note_error_def split: prod.split option.split)

declare run_tasks.simps(2) [simp del]

lemma run_Tell:
  "run_tasks v co (Tell t x err # ks) w =
     (case deferred v (m_ID (co_Monitor co)) t x (rn_db w) of
        Inl err' \<Rightarrow> note_error (Some err') (run_tasks v co ks w)
      | Inr (t1, x1) \<Rightarrow> note_error err (run_tasks v co ks
          (announce v (m_ID (co_Monitor co)) (silence v x1 t1) x1 w)))"
  by (simp add: run_tasks_Cons Let_def split: sum.split)

definition finish_transition ::
  "env \<Rightarrow> checkOutcome \<Rightarrow> transition \<Rightarrow> incident \<Rightarrow> runner_error option \<Rightarrow> runner \<Rightarrow> runner_error option \<times> runner" where
  "finish_transition v co t x err w =
     (let remember = (t_Event t = EventIncidentConfirmed \<and> v_maintained v); m = m_ID (co_Monitor co); s = rn_db w in
      if remember \<and> v_fails v CSetPending then (Some (Failed CSetPending), w)
      else let s1 = (if remember then SetMaintenancePending (i_ID x) True s else s) in
        case deferred v m t x s1 of
          Inl err' \<Rightarrow> (Some err', w\<lparr>rn_db := s1\<rparr>)
        | Inr (t1, x1) \<Rightarrow> (err, announce v m (silence v x1 t1) x1 (w\<lparr>rn_db := s1\<rparr>)))"

lemma applyTransition_finish:
  "applyTransition v co t w =
     (case switch_event v co t (rn_db w) of
        Inl (err, s) \<Rightarrow> (err, w\<lparr>rn_db := s\<rparr>)
      | Inr (x, err, s) \<Rightarrow> finish_transition v co t x err (w\<lparr>rn_db := s\<rparr>))"
  by (auto simp: applyTransition_def finish_transition_def Let_def split: sum.split prod.split)

lemma run_Remember:
  "run_tasks v co (Remember t x err # ks) w =
     (case finish_transition v co t x err w of (err', w1) \<Rightarrow> note_error err' (run_tasks v co ks w1))"
  by (cases "t_Event t = EventIncidentConfirmed"; cases "v_maintained v")
    (simp_all add: run_tasks_Cons [of _ _ "Remember t x err"] run_Tell finish_transition_def note_error_def Let_def
      split: sum.split prod.split)

lemma run_ReloadRow:
  "run_tasks v co (ReloadRow t # ks) w =
     (case finish_transition v co t (reload_incident v (m_ID (co_Monitor co)) (rn_db w)) None w of
        (err', w1) \<Rightarrow> note_error err' (run_tasks v co ks w1))"
  by (simp add: run_tasks_Cons [of _ _ "ReloadRow t"] run_Remember note_error_def)

lemma run_ConfirmRow:
  "run_tasks v co (ConfirmRow t # ks) w =
     (case confirm_or_open v (m_ID (co_Monitor co)) t (owed_by v t) (rn_db w) of
        (Some err, s) \<Rightarrow> note_error (Some err) (run_tasks v co ks (w\<lparr>rn_db := s\<rparr>))
      | (None, s) \<Rightarrow> run_tasks v co (ReloadRow t # ks) (w\<lparr>rn_db := s\<rparr>))"
  by (simp add: run_tasks_Cons [of _ _ "ConfirmRow t"] run_tasks_Cons [of _ _ "OpenLate t"] run_tasks_Cons [of _ _ "ConfirmLate t"]
      confirm_or_open_def note_error_def split: sum.split prod.split)

lemma run_confirmOutage:
  "run_tasks v co ((if t_Replaces t then CloseNotice t else ConfirmRow t) # ks) w =
     (case confirmOutage v (m_ID (co_Monitor co)) t (owed_by v t) (rn_db w) of
        (Some err, _, s) \<Rightarrow> note_error (Some err) (run_tasks v co ks (w\<lparr>rn_db := s\<rparr>))
      | (None, x, s) \<Rightarrow> (case finish_transition v co t x None (w\<lparr>rn_db := s\<rparr>) of
          (err', w1) \<Rightarrow> note_error err' (run_tasks v co ks w1)))"
  by (auto simp: run_tasks_Cons [of _ _ "CloseNotice t"] run_tasks_Cons [of _ _ "OpenReplacing t"] run_ConfirmRow
      run_ReloadRow confirmOutage_def close_notice_def note_error_def Let_def split: sum.split prod.split option.split)

lemma run_Switch:
  "run_tasks v co (Switch t # ks) w =
     (case applyTransition v co t w of (err, w1) \<Rightarrow> note_error err (run_tasks v co ks w1))"
proof (cases "t_Event t = EventIncidentConfirmed \<and> \<not> t_Notice t")
  case True
  then show ?thesis
    using run_confirmOutage [of v co t ks w]
    by (simp add: run_tasks_Cons [of _ _ "Switch t"] applyTransition_finish switch_event_def note_error_def Let_def
        split: prod.split option.split)
next
  case False
  then show ?thesis
    by (cases "t_Event t")
      (auto simp: run_tasks_Cons [of _ _ "Switch t"] run_ReloadRow run_Remember applyTransition_finish switch_event_def
        note_error_def Let_def split: sum.split prod.split option.split)
qed

lemma run_all_Switch: "run_tasks v co (map Switch ts) w = apply_all v co ts w"
proof (induction ts arbitrary: w)
  case (Cons t ts)
  then show ?case
    by (simp add: run_Switch) (simp add: note_error_def Let_def case_prod_beta split: option.split)
qed simp

lemma run_SetPace:
  "run_tasks v co [SetPace ts lnet ldns trs] w =
     (let first = hd trs; final = last trs; m = m_ID (co_Monitor co);
          hb = heartbeat_of v co ts lnet ldns first final;
          w1 = w\<lparr>rn_sch := SetFailing (v_draws v) (v_now v) m (Failing (t_To final)) (rn_sch w)\<rparr>;
          (hbErr, w2) = write_heartbeat v hb (capture_reason co first) w1;
          w3 = w2\<lparr>rn_frames := rn_frames w2 @ [heartbeat_frame v co hb first final]\<rparr>;
          (clrErr, w4) = clear_unknown v co (hbErr = None) w3;
          (errs, w5) = apply_all v co trs w4
      in (List.map_filter id [hbErr, clrErr] @ errs, w5))"
  by (simp add: run_tasks_Cons [of _ _ "SetPace ts lnet ldns trs"] run_tasks_Cons [of _ _ "WriteBeat ts lnet ldns trs"]
      run_tasks_Cons [of _ _ "ClearOld _ trs"] run_all_Switch note_error_def Let_def List.map_filter_simps case_prod_beta
      split: option.split)

lemma record_observed_SetPace:
  "record_observed v co ts lnet ldns w =
     (case observe_check v (observation_of co ts lnet ldns) (rn_engine w) of
        (e, trs) \<Rightarrow> run_tasks v co [SetPace ts lnet ldns trs] (w\<lparr>rn_engine := e\<rparr>))"
  by (cases "observe_check v (observation_of co ts lnet ldns) (rn_engine w)") (simp add: record_observed_def run_SetPace)

lemma run_FirstLook: "run_tasks v co [FirstLook ts lnet ldns] w = record_observed v co ts lnet ldns w"
proof -
  obtain e t where o: "Observe (v_now v) (rn_engine w) (observation_of co ts lnet ldns) = (e, t)" by force
  obtain e2 t2 where o2: "Observe (v_now v) e (observation_of co ts lnet ldns) = (e2, t2)" by force
  show ?thesis
    by (simp add: record_observed_SetPace observe_check_def o o2 run_tasks_Cons [of _ _ "FirstLook ts lnet ldns"]
        run_tasks_Cons [of _ _ "SecondLook ts lnet ldns _"] note_error_def Let_def)
qed

theorem outcome_alone_is_recordOutcome:
  "recordOutcome v co w =
     (case begin_outcome v co w of (errs, ks, w1) \<Rightarrow> (case run_tasks v co ks w1 of (errs', w2) \<Rightarrow> (errs @ errs', w2)))"
  by (simp add: begin_outcome_def recordOutcome_def run_FirstLook Let_def split: prod.split)

end
