(* ===== verification/Flights.thy ===== *)
theory Flights
  imports OutcomeRuns
begin

text \<open>
  What every statement of an outcome does to the incident of its monitor, and the steps of a process in which several
  outcomes, a reload, reminders and the rest of the program interleave.
\<close>

section \<open>Where the statements left to do lead\<close>

fun looks :: "task \<Rightarrow> bool" where
  "looks (FirstLook _ _ _) \<longleftrightarrow> True" | "looks (SecondLook _ _ _ _) \<longleftrightarrow> True" | "looks _ \<longleftrightarrow> False"

definition transition_phase :: "phase \<Rightarrow> transition \<Rightarrow> phase option" where
  "transition_phase p t = lifecycle p (t_Event t) (t_Notice t) (t_Replaces t)"

fun phases_after :: "phase \<Rightarrow> transition list \<Rightarrow> phase option" where
  "phases_after p [] = Some p"
| "phases_after p (t # ts) = Option.bind (transition_phase p t) (\<lambda>q. phases_after q ts)"

text \<open>The phase of the table once a task and what it hands on are done, from the phase it is in now.\<close>

fun task_phase :: "phase \<Rightarrow> task \<Rightarrow> phase option" where
  "task_phase p (SecondLook _ _ _ t) = transition_phase p t"
| "task_phase p (SetPace _ _ _ trs) = phases_after p trs"
| "task_phase p (WriteBeat _ _ _ trs) = phases_after p trs"
| "task_phase p (ClearOld _ trs) = phases_after p trs"
| "task_phase p (Switch t) = transition_phase p t"
| "task_phase p (CloseNotice t) = (if p = Notice then Some Outage else None)"
| "task_phase p (OpenReplacing t) = (if p = NoIncident then Some Outage else None)"
| "task_phase p (ConfirmRow t) = (if p = Notice then None else Some Outage)"
| "task_phase p (OpenLate t) = (if p = NoIncident then Some Outage else None)"
| "task_phase p (ConfirmLate t) = (if p = Pending then Some Outage else None)"
| "task_phase p _ = Some p"

fun leads :: "phase \<Rightarrow> task list \<Rightarrow> phase \<Rightarrow> bool" where
  "leads p [] q \<longleftrightarrow> p = q"
| "leads p (k # ks) q \<longleftrightarrow> (looks k \<longrightarrow> ks = []) \<and> (\<exists>r. task_phase p k = Some r \<and> leads r ks q)"

lemma leads_append: "leads p ns r \<Longrightarrow> \<forall>k\<in>set ns. \<not> looks k \<Longrightarrow> leads r ks q \<Longrightarrow> leads p (ns @ ks) q"
  by (induction ns arbitrary: p) auto

lemma leads_Switch: "leads p (map Switch trs) q \<longleftrightarrow> phases_after p trs = Some q"
  by (induction trs arbitrary: p) (auto simp: bind_eq_Some_conv)

section \<open>One statement\<close>

text \<open>Whatever a statement finds, it affects the incident of its own monitor alone.\<close>

definition affects :: "int \<Rightarrow> runner \<Rightarrow> runner \<Rightarrow> bool" where
  "affects m w w' \<longleftrightarrow> wf_engine (rn_engine w') \<and> incidents_ok (rn_db w') \<and> db_monitors (rn_db w') = db_monitors (rn_db w) \<and>
     (\<forall>j. j \<noteq> m \<longrightarrow> table_phase (rn_db w') j = table_phase (rn_db w) j \<and> phase_of (rn_engine w') j = phase_of (rn_engine w) j)"

lemma affects_keeps:
  "wf_engine (rn_engine w) \<Longrightarrow> rn_engine w' = rn_engine w \<Longrightarrow> keeps (rn_db w) m (rn_db w') \<Longrightarrow> affects m w w'"
  using keeps_ok keeps_monitors keeps_other by (auto simp: affects_def)

lemma affects_same:
  "wf_engine (rn_engine w') \<Longrightarrow> incidents_ok (rn_db w) \<Longrightarrow> \<forall>j. phase_of (rn_engine w') j = phase_of (rn_engine w) j \<Longrightarrow>
   same_incidents (rn_db w) (rn_db w') \<Longrightarrow> affects m w w'"
  by (simp add: affects_def same_incidents_phase same_incidents_ok) (simp add: same_incidents_def)

lemma affects_refl: "wf_engine (rn_engine w) \<Longrightarrow> incidents_ok (rn_db w) \<Longrightarrow> affects m w w"
  by (simp add: affects_def)

lemma affects_look:
  assumes "wf_engine (rn_engine w)" "incidents_ok (rn_db w)" "o_MonitorID ob = m"
  shows "affects m w (w\<lparr>rn_engine := fst (Observe now (rn_engine w) ob)\<rparr>)"
  using assms by (simp add: affects_def wf_Observe phase_of_Observe_other)

lemma observation_monitor [simp]: "o_MonitorID (observation_of co ts lnet ldns) = m_ID (co_Monitor co)"
  by (simp add: observation_of_def Let_def)

lemma switch_affects:
  assumes "wf_engine (rn_engine w)" "incidents_ok (rn_db w)"
  shows "affects (m_ID (co_Monitor co)) w (snd (snd (perform v co (Switch t) w)))"
proof -
  let ?m = "m_ID (co_Monitor co)"
  note r = affects_refl [OF assms]
  note keep = affects_keeps [OF assms(1), of "w\<lparr>rn_db := _\<rparr>" ?m, simplified]
  show ?thesis
    using r moves_UpdateIncidentError [OF assms(2), of ?m, THEN keeps_moves, THEN keep]
      moves_OpenIncident [OF assms(2), THEN conjunct1, THEN keeps_moves, THEN keep]
      moves_OpenNotice [OF assms(2), THEN conjunct1, THEN keeps_moves, THEN keep]
      moves_ResolveIncident [OF assms(2), THEN conjunct1, THEN keeps_moves, THEN keep]
    by (cases "t_Event t") (auto simp: Let_def split: sum.split)
qed

lemma perform_affects:
  assumes "wf_engine (rn_engine w)" "incidents_ok (rn_db w)"
  shows "affects (m_ID (co_Monitor co)) w (snd (snd (perform v co k w)))"
proof -
  let ?m = "m_ID (co_Monitor co)"
  note r = affects_refl [OF assms]
  note keep = affects_keeps [OF assms(1), of "w\<lparr>rn_db := _\<rparr>" ?m, simplified]
  note opened = moves_OpenIncident [OF assms(2), THEN conjunct1, THEN keeps_moves, THEN keep]
  note resolved = moves_ResolveIncident [OF assms(2), THEN conjunct1, THEN keeps_moves, THEN keep]
  note confirmed = moves_confirmIncident [OF assms(2), THEN conjunct1, THEN keeps_moves, THEN keep]
  show ?thesis
  proof (cases k)
    case (FirstLook ts lnet ldns)
    then show ?thesis using affects_look [OF assms] by (simp add: Let_def case_prod_beta)
  next
    case (SecondLook ts lnet ldns t)
    then show ?thesis using affects_look [OF assms] by (simp add: case_prod_beta)
  next
    case (SetPace ts lnet ldns trs)
    then show ?thesis using affects_same [OF _ assms(2)] assms(1) by (simp add: same_incidents_def)
  next
    case (WriteBeat ts lnet ldns trs)
    then show ?thesis
      by (simp add: Let_def case_prod_beta)
        (rule affects_same; simp add: assms write_heartbeat_frame)
  next
    case (ClearOld stored trs)
    then show ?thesis
      by (simp add: case_prod_beta) (rule affects_same; simp add: assms clear_unknown_frame)
  next
    case (Switch t)
    then show ?thesis using switch_affects [OF assms] by simp
  next
    case (Remember t x err)
    then show ?thesis using r moves_SetMaintenancePending [OF assms(2), THEN keeps_moves, THEN keep] by simp
  next
    case (Tell t x err)
    then show ?thesis using r affects_same [OF _ assms(2)] assms(1)
      by (auto simp: Let_def same_incidents_def split: sum.split)
  qed (use r opened resolved confirmed in \<open>auto split: sum.split\<close>)
qed

text \<open>And where the statements left to do lead the table to the engine, they still do after it, or a write was lost.\<close>

definition hands_on :: "int \<Rightarrow> phase \<Rightarrow> runner_error option \<times> task list \<times> runner \<Rightarrow> bool" where
  "hands_on m r res \<longleftrightarrow> (\<exists>e\<in>lost_writes. fst res = Some e) \<or>
     (leads (table_phase (rn_db (snd (snd res))) m) (fst (snd res)) r \<and> (\<forall>k\<in>set (fst (snd res)). \<not> looks k))"

lemma lost_writes_iff [simp]: "Failed c \<in> lost_writes \<longleftrightarrow> c \<in> incident_writes" "Refused e \<notin> lost_writes"
  by (auto simp: lost_writes_def)

lemma hands_on_simps [simp]:
  "hands_on m r (Some (Failed c), ns, w) \<longleftrightarrow>
     c \<in> incident_writes \<or> (leads (table_phase (rn_db w) m) ns r \<and> (\<forall>k\<in>set ns. \<not> looks k))"
  "hands_on m r (None, ns, w) \<longleftrightarrow> leads (table_phase (rn_db w) m) ns r \<and> (\<forall>k\<in>set ns. \<not> looks k)"
  by (auto simp: hands_on_def)

lemma hands_on_leads: "leads (table_phase (rn_db w) m) ns r \<Longrightarrow> \<forall>k\<in>set ns. \<not> looks k \<Longrightarrow> hands_on m r (err, ns, w)"
  by (auto simp: hands_on_def)

lemma hands_on_Switch:
  assumes "incidents_ok (rn_db w)" "m_ID (co_Monitor co) = m" "m \<in> db_monitors (rn_db w)"
    and "transition_phase (table_phase (rn_db w) m) t = Some r"
  shows "hands_on m r (perform v co (Switch t) w)"
proof (cases "t_Event t")
  case EventNone
  then have "r = table_phase (rn_db w) m" using assms(4) by (cases "t_Replaces t") (auto simp: transition_phase_def)
  then show ?thesis
    using EventNone assms(2) moves_phase [OF moves_UpdateIncidentError [OF assms(1)]] by (simp add: Let_def)
next
  case EventIncidentOpened
  then have p: "r = Pending" "table_phase (rn_db w) m = NoIncident"
    using assms(4) by (cases "table_phase (rn_db w) m"; cases "t_Replaces t"; cases "t_Notice t"; simp add: transition_phase_def)+
  obtain x s' where o: "OpenIncident m (t_At t) (t_Cause t) (t_Error t) (rn_db w) = Inr (x, s')"
    by (rule open_accepted [OF assms(3) p(2)])
  then show ?thesis
    using EventIncidentOpened assms(2) p moves_phase [OF conjunct1 [OF moves_OpenIncident [OF assms(1) o]]]
    by (simp add: Let_def incident_writes_def)
next
  case EventIncidentConfirmed
  show ?thesis
  proof (cases "t_Notice t")
    case True
    then have p: "r = Notice" "table_phase (rn_db w) m = NoIncident"
      using EventIncidentConfirmed assms(4)
      by (cases "table_phase (rn_db w) m"; cases "t_Replaces t"; simp add: transition_phase_def)+
    obtain x s' where o: "OpenNotice m (t_At t) (t_Cause t) (t_Error t) (rn_db w) = Inr (x, s')"
      by (rule notice_accepted [OF assms(3) p(2)])
    then show ?thesis
      using EventIncidentConfirmed True assms(2) p moves_phase [OF conjunct1 [OF moves_OpenNotice [OF assms(1) o]]]
      by (simp add: Let_def incident_writes_def)
  next
    case False
    then have "r = Outage" "t_Replaces t \<longleftrightarrow> table_phase (rn_db w) m = Notice"
      using EventIncidentConfirmed assms(4)
      by (cases "table_phase (rn_db w) m"; cases "t_Replaces t"; simp add: transition_phase_def)+
    then show ?thesis using EventIncidentConfirmed False by (simp add: Let_def)
  qed
next
  case EventIncidentReminder
  then show ?thesis using assms(4) by (cases "table_phase (rn_db w) m") (simp_all add: transition_phase_def)
next
  case EventIncidentResolved
  then have p: "r = NoIncident" "table_phase (rn_db w) m \<noteq> NoIncident"
    using assms(4) by (cases "table_phase (rn_db w) m"; cases "t_Replaces t"; cases "t_Notice t"; simp add: transition_phase_def)+
  obtain x s' where o: "ResolveIncident m (t_RecoveredAt t) (rn_db w) = Inr (x, s')"
    using ResolveIncident_Inl p(2) by (metis sum.exhaust surj_pair)
  then show ?thesis
    using EventIncidentResolved assms(2) p moves_phase [OF conjunct1 [OF moves_ResolveIncident [OF assms(1) o]]]
    by (simp add: Let_def incident_writes_def)
qed

lemma hands_on_open:
  assumes "incidents_ok (rn_db w)" "m_ID (co_Monitor co) = m" "m \<in> db_monitors (rn_db w)"
    and "k = OpenReplacing t \<or> k = OpenLate t" "task_phase (table_phase (rn_db w) m) k = Some r"
  shows "hands_on m r (perform v co k w)"
proof -
  have p: "table_phase (rn_db w) m = NoIncident" "r = Outage" using assms(4,5) by (auto split: if_splits)
  obtain x s' where o: "OpenIncident m (t_StartedAt t) (t_Cause t) (t_Error t) (rn_db w) = Inr (x, s')"
    by (rule open_accepted [OF assms(3) p(1)])
  obtain y s'' where o': "OpenIncident m (t_At t) (t_Cause t) (t_Error t) (rn_db w) = Inr (y, s'')"
    by (rule open_accepted [OF assms(3) p(1)])
  show ?thesis
    using assms(2,4) p(2) o o' moves_phase [OF conjunct1 [OF moves_OpenIncident [OF assms(1) o]]]
      moves_phase [OF conjunct1 [OF moves_OpenIncident [OF assms(1) o']]]
    by (auto simp: incident_writes_def)
qed

lemma hands_on_confirm:
  assumes "incidents_ok (rn_db w)" "m_ID (co_Monitor co) = m"
    and "k = ConfirmRow t \<or> k = ConfirmLate t" "task_phase (table_phase (rn_db w) m) k = Some r"
  shows "hands_on m r (perform v co k w)"
proof -
  have p: "table_phase (rn_db w) m \<noteq> Notice" "r = Outage" "k = ConfirmLate t \<Longrightarrow> table_phase (rn_db w) m = Pending"
    using assms(3,4) by (auto split: if_splits)
  show ?thesis
  proof (cases "confirmIncident (owed_by v t) m (t_At t) (t_Cause t) (t_Error t) (rn_db w)")
    case (Inl e)
    then have "table_phase (rn_db w) m = NoIncident" by (simp add: confirmIncident_Inl)
    then show ?thesis using Inl assms(2,3) p by (auto simp: incident_writes_def)
  next
    case (Inr s')
    then show ?thesis
      using assms(2,3) p moves_phase [OF conjunct1 [OF moves_confirmIncident [OF assms(1) Inr]]]
      by (auto simp: incident_writes_def)
  qed
qed

lemma hands_on_close:
  assumes "incidents_ok (rn_db w)" "m_ID (co_Monitor co) = m" "task_phase (table_phase (rn_db w) m) (CloseNotice t) = Some r"
  shows "hands_on m r (perform v co (CloseNotice t) w)"
proof -
  have p: "table_phase (rn_db w) m = Notice" "r = Outage" using assms(3) by (auto split: if_splits)
  then obtain x s1 where o: "ResolveIncident m (t_StartedAt t) (rn_db w) = Inr (x, s1)"
    using ResolveIncident_Inl by (metis phase.distinct(5) sum.exhaust surj_pair)
  then show ?thesis
    using assms(2) p moves_phase [OF conjunct1 [OF moves_ResolveIncident [OF assms(1) o]]]
    by (simp add: incident_writes_def)
qed

lemma hands_on_rest:
  assumes "incidents_ok (rn_db w)" "k = ReloadRow t \<or> k = Remember t x err \<or> k = Tell t x err"
    and "task_phase (table_phase (rn_db w) m) k = Some r"
  shows "hands_on m r (perform v co k w)"
proof -
  have "table_phase (SetMaintenancePending i b (rn_db w)) j = table_phase (rn_db w) j" for i b j
    using moves_phase [OF moves_SetMaintenancePending [OF assms(1)]] .
  then show ?thesis using assms(2,3) by (auto simp: Let_def hands_on_leads split: sum.split)
qed

lemma hands_on_beat:
  assumes "k = SetPace ts lnet ldns trs \<or> k = WriteBeat ts lnet ldns trs \<or> k = ClearOld b trs"
    and "phases_after (table_phase (rn_db w) m) trs = Some r"
  shows "hands_on m r (perform v co k w)"
proof -
  have "table_phase (rn_db (snd (write_heartbeat v hb reason w))) = table_phase (rn_db w)" for hb reason
    by (rule same_incidents_phase [OF write_heartbeat_frame(1)])
  moreover have "table_phase (rn_db (snd (clear_unknown v co stored w))) = table_phase (rn_db w)" for stored
    by (rule same_incidents_phase [OF clear_unknown_frame(1)])
  ultimately show ?thesis
    using assms by (elim disjE) (simp_all add: Let_def case_prod_beta, (rule hands_on_leads; auto simp: leads_Switch)+)
qed

lemma hands_on_task:
  assumes "incidents_ok (rn_db w)" "m_ID (co_Monitor co) = m" "m \<in> db_monitors (rn_db w)"
    and "\<not> looks k" "task_phase (table_phase (rn_db w) m) k = Some r"
  shows "hands_on m r (perform v co k w)"
  using assms(4,5) hands_on_Switch [OF assms(1-3)] hands_on_open [OF assms(1-3), of k] hands_on_confirm [OF assms(1,2), of k]
    hands_on_close [OF assms(1,2)] hands_on_rest [OF assms(1), of k] hands_on_beat [of k]
  by (cases k) simp_all

lemma perform_leads:
  assumes "wf_engine (rn_engine w)" "incidents_ok (rn_db w)" "m_ID (co_Monitor co) = m" "m \<in> db_monitors (rn_db w)"
    and "leads (table_phase (rn_db w) m) (k # ks) (phase_of (rn_engine w) m)" "perform v co k w = (err, ns, w')"
  shows "(\<exists>e\<in>lost_writes. err = Some e) \<or> leads (table_phase (rn_db w') m) (ns @ ks) (phase_of (rn_engine w') m)"
proof (cases "looks k")
  case True
  let ?m = "m_ID (co_Monitor co)"
  have seen: "transition_phase (phase_of (rn_engine w) ?m) (snd (Observe (v_now v) (rn_engine w) (observation_of co ts lnet ldns))) =
      Some (phase_of (fst (Observe (v_now v) (rn_engine w) (observation_of co ts lnet ldns))) ?m)" for ts lnet ldns
    using phase_of_Observe_mine [OF assms(1)] by (simp add: transition_phase_def)
  show ?thesis
    using True assms(3,5,6) by (cases k)
      (auto simp: Let_def case_prod_beta seen bind_eq_Some_conv)
next
  case False
  obtain r where r: "task_phase (table_phase (rn_db w) m) k = Some r" "leads r ks (phase_of (rn_engine w) m)"
    using assms(5) by auto
  have "phase_of (rn_engine w') m = phase_of (rn_engine w) m"
    using False assms(6) by (cases k) (auto simp: Let_def case_prod_beta write_heartbeat_frame clear_unknown_frame
      split: event.splits sum.splits if_splits)
  then show ?thesis
    using hands_on_task [OF assms(2-4) False r(1), of v] leads_append r(2) assms(6) by (auto simp: hands_on_def)
qed

end
