(* ===== verification/ProcessRuns.thy ===== *)
theory ProcessRuns
  imports Flights
begin

text \<open>
  The runs of a process: outcomes of many monitors in flight at once, the statements of a reload between theirs, the
  reminders, the rest of the program and restarts, in any order; and the proof that the incidents in the table follow
  the engine for every monitor whose bookkeeping was not disturbed.
\<close>

section \<open>A process\<close>

text \<open>
  Beside the runner's own state: the outcomes in flight with the statements they have left, the reload under way with
  the monitors it keeps and, once they are listed, the incidents it still looks at; and, for the proof alone, the
  monitors whose bookkeeping was disturbed since the start.
\<close>

record process =
  pc_runner :: runner
  pc_flights :: "(env \<times> checkOutcome \<times> task list) list"
  pc_reload :: "(int set \<times> incident list option) option"
  pc_disturbed :: "int set"

definition tasks_of :: "int \<Rightarrow> (env \<times> checkOutcome \<times> task list) list \<Rightarrow> task list list" where
  "tasks_of m fs = [ks. (v, co, ks) \<leftarrow> fs, m_ID (co_Monitor co) = m \<and> ks \<noteq> []]"

definition in_flight :: "int \<Rightarrow> process \<Rightarrow> bool" where
  "in_flight m P \<longleftrightarrow> tasks_of m (pc_flights P) \<noteq> []"

definition drops :: "int \<Rightarrow> (int set \<times> incident list option) option \<Rightarrow> bool" where
  "drops m R \<longleftrightarrow> (case R of None \<Rightarrow> False | Some (live, _) \<Rightarrow> m \<notin> live)"

definition being_dropped :: "int \<Rightarrow> process \<Rightarrow> bool" where
  "being_dropped m P \<longleftrightarrow> drops m (pc_reload P)"

text \<open>A reload's look at one incident it has listed.\<close>

definition close_orphan :: "bool \<Rightarrow> instant \<Rightarrow> int set \<Rightarrow> incident \<Rightarrow> database \<Rightarrow> database" where
  "close_orphan fails now live x s =
     (if i_MonitorID x \<in> live \<or> fails then s
      else case ResolveIncident (i_MonitorID x) now s of Inl _ \<Rightarrow> s | Inr (y, s') \<Rightarrow> s')"

text \<open>
  What disturbs a monitor: a write of its incident that fails, an outcome that begins while another of it is in flight
  or while a reload is dropping it, a reload that drops it under an outcome in flight, and one that cannot close its
  incident. The rest of the program marks incidents, deletes resolved ones, and deletes and adds monitors.
\<close>

definition marks_only :: "process \<Rightarrow> runner \<Rightarrow> bool" where
  "marks_only P w' \<longleftrightarrow> rn_engine w' = rn_engine (pc_runner P) \<and> incidents_ok (rn_db w') \<and>
     (\<forall>m\<in>db_monitors (rn_db w').
        if m \<in> db_monitors (rn_db (pc_runner P)) then table_phase (rn_db w') m = table_phase (rn_db (pc_runner P)) m
        else table_phase (rn_db w') m = NoIncident \<and> phase_of (rn_engine w') m = NoIncident \<and> \<not> in_flight m P)"

inductive process_reachable :: "options \<Rightarrow> process \<Rightarrow> bool" for opts where
  process_started: "incidents_ok (rn_db w) \<Longrightarrow> \<not> broken RListOpen \<Longrightarrow>
     rn_engine w = snd (restore broken (rn_db w) (new_engine opts)) \<Longrightarrow>
     process_reachable opts \<lparr>pc_runner = w, pc_flights = [], pc_reload = None, pc_disturbed = {}\<rparr>"
| outcome_begun: "process_reachable opts P \<Longrightarrow> begin_outcome v co (pc_runner P) = (errs, ks, w) \<Longrightarrow>
     m = m_ID (co_Monitor co) \<Longrightarrow>
     process_reachable opts (P\<lparr>pc_runner := w, pc_flights := pc_flights P @ [(v, co, ks)],
       pc_disturbed := pc_disturbed P \<union> (if ks \<noteq> [] \<and> (in_flight m P \<or> being_dropped m P) then {m} else {})\<rparr>)"
| outcome_went_on: "process_reachable opts P \<Longrightarrow> pc_flights P = fs @ (v, co, k # ks) # gs \<Longrightarrow>
     perform v co k (pc_runner P) = (err, ns, w) \<Longrightarrow>
     process_reachable opts (P\<lparr>pc_runner := w, pc_flights := fs @ (v, co, ns @ ks) # gs,
       pc_disturbed := pc_disturbed P \<union> (if \<exists>e\<in>lost_writes. err = Some e then {m_ID (co_Monitor co)} else {})\<rparr>)"
| outcome_done: "process_reachable opts P \<Longrightarrow> pc_flights P = fs @ (v, co, []) # gs \<Longrightarrow>
     process_reachable opts (P\<lparr>pc_flights := fs @ gs\<rparr>)"
| reload_begun: "process_reachable opts P \<Longrightarrow> pc_reload P = None \<Longrightarrow>
     process_reachable opts (P\<lparr>pc_runner := (pc_runner P)\<lparr>rn_engine := Retain live (rn_engine (pc_runner P))\<rparr>,
       pc_reload := Some (live, None), pc_disturbed := pc_disturbed P \<union> {m. m \<notin> live \<and> in_flight m P}\<rparr>)"
| reload_listed: "process_reachable opts P \<Longrightarrow> pc_reload P = Some (live, None) \<Longrightarrow>
     process_reachable opts (if fails then P\<lparr>pc_reload := None, pc_disturbed := pc_disturbed P \<union> - live\<rparr>
       else P\<lparr>pc_reload := Some (live, Some (ListOpenIncidents (rn_db (pc_runner P))))\<rparr>)"
| reload_closed: "process_reachable opts P \<Longrightarrow> pc_reload P = Some (live, Some (x # xs)) \<Longrightarrow>
     process_reachable opts (P\<lparr>pc_runner := (pc_runner P)\<lparr>rn_db := close_orphan fails now live x (rn_db (pc_runner P))\<rparr>,
       pc_reload := Some (live, Some xs),
       pc_disturbed := pc_disturbed P \<union> (if fails \<and> i_MonitorID x \<notin> live then {i_MonitorID x} else {})\<rparr>)"
| reload_ended: "process_reachable opts P \<Longrightarrow> pc_reload P = Some (live, Some []) \<Longrightarrow>
     process_reachable opts (P\<lparr>pc_reload := None\<rparr>)"
| process_reminded: "process_reachable opts P \<Longrightarrow> process_reachable opts (P\<lparr>pc_runner := remind v c (pc_runner P)\<rparr>)"
| process_marked: "process_reachable opts P \<Longrightarrow> marks_only P w' \<Longrightarrow> process_reachable opts (P\<lparr>pc_runner := w'\<rparr>)"
| process_restarted: "process_reachable opts P \<Longrightarrow> \<not> broken RListOpen \<Longrightarrow> rn_db w = rn_db (pc_runner P) \<Longrightarrow>
     rn_engine w = snd (restore broken (rn_db w) (new_engine opts)) \<Longrightarrow>
     process_reachable opts \<lparr>pc_runner = w, pc_flights = [], pc_reload = None, pc_disturbed = {}\<rparr>"

section \<open>What a run keeps\<close>

text \<open>The bookkeeping of one monitor, in terms of what its outcomes have left, the reload and the two phases.\<close>

definition to_close :: "int \<Rightarrow> (int set \<times> incident list option) option \<Rightarrow> bool" where
  "to_close m R \<longleftrightarrow>
     (case R of Some (_, Some xs) \<Rightarrow> m \<in> i_MonitorID ` set xs | Some (_, None) \<Rightarrow> True | None \<Rightarrow> False)"

definition agrees :: "int \<Rightarrow> task list list \<Rightarrow> (int set \<times> incident list option) option \<Rightarrow> phase \<Rightarrow> phase \<Rightarrow> bool" where
  "agrees m kss R tp ep \<longleftrightarrow>
     (if drops m R then kss = [] \<and> ep = NoIncident \<and> (tp = NoIncident \<or> to_close m R)
      else case kss of [] \<Rightarrow> tp = ep | [ks] \<Rightarrow> leads tp ks ep | _ \<Rightarrow> False)"

definition in_order :: "process \<Rightarrow> int \<Rightarrow> bool" where
  "in_order P m \<longleftrightarrow> m \<in> pc_disturbed P \<or> m \<notin> db_monitors (rn_db (pc_runner P)) \<or>
     agrees m (tasks_of m (pc_flights P)) (pc_reload P) (table_phase (rn_db (pc_runner P)) m)
       (phase_of (rn_engine (pc_runner P)) m)"

definition tidy :: "process \<Rightarrow> bool" where
  "tidy P \<longleftrightarrow> wf_engine (rn_engine (pc_runner P)) \<and> incidents_ok (rn_db (pc_runner P)) \<and> (\<forall>m. in_order P m)"

lemma agrees_idle [simp]: "\<not> drops m R \<Longrightarrow> agrees m [] R tp ep \<longleftrightarrow> tp = ep"
  by (simp add: agrees_def)

lemma agrees_busy [simp]: "\<not> drops m R \<Longrightarrow> agrees m [ks] R tp ep \<longleftrightarrow> leads tp ks ep"
  by (simp add: agrees_def)

lemma agrees_dropped [simp]:
  "drops m R \<Longrightarrow> agrees m kss R tp ep \<longleftrightarrow> kss = [] \<and> ep = NoIncident \<and> (tp = NoIncident \<or> to_close m R)"
  by (simp add: agrees_def)

lemma drops_simps [simp]: "\<not> drops m None" "drops m (Some (live, xs)) \<longleftrightarrow> m \<notin> live"
  by (simp_all add: drops_def)

lemma agrees_kept [simp]: "m \<in> live \<Longrightarrow> agrees m kss (Some (live, xs)) tp ep = agrees m kss None tp ep"
  by (simp add: agrees_def)

lemma to_close_simps [simp]:
  "\<not> to_close m None" "to_close m (Some (live, None))" "to_close m (Some (live, Some xs)) \<longleftrightarrow> m \<in> i_MonitorID ` set xs"
  by (simp_all add: to_close_def)

lemma tasks_of_simps [simp]:
  "tasks_of m [] = []"
  "tasks_of m (fs @ gs) = tasks_of m fs @ tasks_of m gs"
  "tasks_of m ((v, co, ks) # fs) = (if m_ID (co_Monitor co) = m \<and> ks \<noteq> [] then ks # tasks_of m fs else tasks_of m fs)"
  by (simp_all add: tasks_of_def)

lemma begin_outcome_frame:
  assumes "begin_outcome v co w = (errs, ks, w')"
  shows "rn_engine w' = rn_engine w \<and> same_incidents (rn_db w) (rn_db w') \<and> (ks = [] \<or> (\<exists>ts lnet ldns. ks = [FirstLook ts lnet ldns]))"
  using assms reportPublicPeer_frame [of v co w]
  by (auto simp: begin_outcome_def recordUnknown_def RecordUnknownCheck_def same_incidents_def Let_def
      dest!: localNetworkFailure_frame split: if_splits prod.splits)

lemma tidy_started:
  assumes "incidents_ok (rn_db w)" "\<not> broken RListOpen" "rn_engine w = snd (restore broken (rn_db w) (new_engine opts))"
  shows "tidy \<lparr>pc_runner = w, pc_flights = [], pc_reload = None, pc_disturbed = {}\<rparr>"
  using restore_spec [of "rn_db w" broken opts] assms by (simp add: tidy_def in_order_def)

lemma tidy_begun:
  assumes "tidy P" "begin_outcome v co (pc_runner P) = (errs, ks, w)" "m = m_ID (co_Monitor co)"
  shows "tidy (P\<lparr>pc_runner := w, pc_flights := pc_flights P @ [(v, co, ks)],
    pc_disturbed := pc_disturbed P \<union> (if ks \<noteq> [] \<and> (in_flight m P \<or> being_dropped m P) then {m} else {})\<rparr>)" (is "tidy ?P")
proof -
  have f: "rn_engine w = rn_engine (pc_runner P)" "same_incidents (rn_db (pc_runner P)) (rn_db w)"
    "ks = [] \<or> (\<exists>ts lnet ldns. ks = [FirstLook ts lnet ldns])"
    using begin_outcome_frame [OF assms(2)] by blast+
  have same: "table_phase (rn_db w) = table_phase (rn_db (pc_runner P))" "db_monitors (rn_db w) = db_monitors (rn_db (pc_runner P))"
    "incidents_ok (rn_db w) = incidents_ok (rn_db (pc_runner P))"
    using f(2) by (simp_all add: same_incidents_phase same_incidents_ok) (simp add: same_incidents_def)
  have "in_order ?P j" for j
  proof (cases "j = m \<and> ks \<noteq> []")
    case True
    then show ?thesis
      using assms(1,3) f same
      by (auto simp: tidy_def in_order_def in_flight_def being_dropped_def)
  next
    case False
    then have "tasks_of j (pc_flights ?P) = tasks_of j (pc_flights P)" using assms(3) by auto
    then show ?thesis using assms(1) f same by (auto simp: tidy_def in_order_def)
  qed
  then show ?thesis using assms(1) f same by (simp add: tidy_def)
qed

lemma agrees_one:
  assumes "agrees m (xs @ ks # ys) R tp ep"
  shows "\<not> drops m R \<and> xs = [] \<and> ys = [] \<and> leads tp ks ep"
  using assms by (cases "drops m R"; cases xs; cases ys) (auto simp: agrees_def split: list.splits)

lemma tidy_went_on:
  assumes "tidy P" "pc_flights P = fs @ (v, co, k # ks) # gs" "perform v co k (pc_runner P) = (err, ns, w)"
  shows "tidy (P\<lparr>pc_runner := w, pc_flights := fs @ (v, co, ns @ ks) # gs,
    pc_disturbed := pc_disturbed P \<union> (if \<exists>e\<in>lost_writes. err = Some e then {m_ID (co_Monitor co)} else {})\<rparr>)" (is "tidy ?P")
proof -
  let ?m = "m_ID (co_Monitor co)" and ?w = "pc_runner P"
  have ok: "wf_engine (rn_engine ?w)" "incidents_ok (rn_db ?w)" using assms(1) by (simp_all add: tidy_def)
  have t: "affects ?m ?w w" using perform_affects [OF ok, of co v k] assms(3) by simp
  have "in_order ?P j" for j
  proof (cases "j = ?m")
    case True
    show ?thesis
    proof (cases "?m \<in> pc_disturbed ?P \<or> ?m \<notin> db_monitors (rn_db ?w)")
      case True
      then show ?thesis using t \<open>j = ?m\<close> by (auto simp: in_order_def affects_def)
    next
      case False
      then have "agrees ?m (tasks_of ?m fs @ (k # ks) # tasks_of ?m gs) (pc_reload P) (table_phase (rn_db ?w) ?m) (phase_of (rn_engine ?w) ?m)"
        using assms(1,2) by (auto simp: tidy_def in_order_def)
      then have one: "\<not> drops ?m (pc_reload P)" "tasks_of ?m fs = []" "tasks_of ?m gs = []"
        "leads (table_phase (rn_db ?w) ?m) (k # ks) (phase_of (rn_engine ?w) ?m)"
        using agrees_one by blast+
      have "leads (table_phase (rn_db w) ?m) (ns @ ks) (phase_of (rn_engine w) ?m)"
        using perform_leads [OF ok refl _ one(4) assms(3)] False by auto
      then show ?thesis using one \<open>j = ?m\<close> by (cases "ns @ ks = []") (simp_all add: in_order_def)
    qed
  next
    case False
    then have "tasks_of j (pc_flights ?P) = tasks_of j (pc_flights P)" using assms(2) by simp
    then show ?thesis using assms(1) t False by (auto simp: tidy_def in_order_def affects_def)
  qed
  then show ?thesis using t by (simp add: tidy_def affects_def)
qed

lemma tidy_done: "tidy P \<Longrightarrow> pc_flights P = fs @ (v, co, []) # gs \<Longrightarrow> tidy (P\<lparr>pc_flights := fs @ gs\<rparr>)"
  by (simp add: tidy_def in_order_def)

lemma tidy_reload_begun:
  assumes "tidy P" "pc_reload P = None"
  shows "tidy (P\<lparr>pc_runner := (pc_runner P)\<lparr>rn_engine := Retain live (rn_engine (pc_runner P))\<rparr>,
    pc_reload := Some (live, None), pc_disturbed := pc_disturbed P \<union> {m. m \<notin> live \<and> in_flight m P}\<rparr>)"
  using assms by (auto simp: tidy_def in_order_def phase_of_Retain in_flight_def wf_Retain)

lemma listed_if_open: "table_phase s m \<noteq> NoIncident \<Longrightarrow> m \<in> i_MonitorID ` set (ListOpenIncidents s)"
  by (auto simp: table_phase_None OpenIncidentFor_None set_ListOpenIncidents list_ex_iff open_for_def)

lemma tidy_reload_listed:
  assumes "tidy P" "pc_reload P = Some (live, None)"
  shows "tidy (if fails then P\<lparr>pc_reload := None, pc_disturbed := pc_disturbed P \<union> - live\<rparr>
    else P\<lparr>pc_reload := Some (live, Some (ListOpenIncidents (rn_db (pc_runner P))))\<rparr>)"
proof -
  note open_listed' = listed_if_open [of "rn_db (pc_runner P)"]
  have "in_order (P\<lparr>pc_reload := None, pc_disturbed := pc_disturbed P \<union> - live\<rparr>) m" for m
    using assms by (cases "m \<in> live") (auto simp: tidy_def in_order_def agrees_def)
  moreover have "in_order (P\<lparr>pc_reload := Some (live, Some (ListOpenIncidents (rn_db (pc_runner P))))\<rparr>) m" for m
    using assms open_listed' [of m] by (cases "m \<in> live") (auto simp: tidy_def in_order_def agrees_def)
  ultimately show ?thesis using assms(1) by (simp add: tidy_def)
qed

lemma moves_close_orphan:
  assumes "incidents_ok s"
  shows "moves s (i_MonitorID x) (if i_MonitorID x \<in> live \<or> fails then table_phase s (i_MonitorID x) else NoIncident)
    (close_orphan fails now live x s)"
proof (cases "ResolveIncident (i_MonitorID x) now s")
  case (Inl e)
  then have "table_phase s (i_MonitorID x) = NoIncident" by (simp add: ResolveIncident_Inl)
  then show ?thesis using Inl moves_refl [OF assms, of "i_MonitorID x"] by (simp add: close_orphan_def)
next
  case (Inr r)
  obtain y s' where r: "r = (y, s')" by (cases r)
  show ?thesis
    using moves_refl [OF assms, of "i_MonitorID x"] moves_ResolveIncident [OF assms Inr [unfolded r]] Inr r
    by (simp add: close_orphan_def)
qed

lemma tidy_reload_closed:
  assumes "tidy P" "pc_reload P = Some (live, Some (x # xs))"
  shows "tidy (P\<lparr>pc_runner := (pc_runner P)\<lparr>rn_db := close_orphan fails now live x (rn_db (pc_runner P))\<rparr>,
       pc_reload := Some (live, Some xs),
       pc_disturbed := pc_disturbed P \<union> (if fails \<and> i_MonitorID x \<notin> live then {i_MonitorID x} else {})\<rparr>)" (is "tidy ?P")
proof -
  let ?m = "i_MonitorID x" and ?old = "rn_db (pc_runner P)" and ?s = "close_orphan fails now live x (rn_db (pc_runner P))"
  have s: "incidents_ok ?s" "db_monitors ?s = db_monitors ?old"
    "table_phase ?s = (table_phase ?old)(?m := (if ?m \<in> live \<or> fails then table_phase ?old ?m else NoIncident))"
    using moves_close_orphan [of ?old x live fails now] assms(1) by (simp_all add: moves_def tidy_def)
  have "in_order ?P m" for m
  proof -
    have m: "in_order P m" using assms(1) by (simp add: tidy_def)
    show ?thesis
    proof (cases "m \<in> live")
      case True
      then have "table_phase ?s m = table_phase ?old m" using s(3) by auto
      then show ?thesis using m True assms(2) s(2) by (auto simp: in_order_def)
    next
      case False
      then have "table_phase ?s m = (if m = ?m \<and> \<not> fails then NoIncident else table_phase ?old m)" using s(3) by auto
      then show ?thesis using m False assms(2) s(2) by (cases "m = ?m"; cases fails) (auto simp: in_order_def)
    qed
  qed
  then show ?thesis using assms(1) s(1) by (simp add: tidy_def)
qed

lemma tidy_reload_ended: "tidy P \<Longrightarrow> pc_reload P = Some (live, Some []) \<Longrightarrow> tidy (P\<lparr>pc_reload := None\<rparr>)"
  by (auto simp: tidy_def in_order_def agrees_def split: if_splits)

lemma tidy_runner:
  assumes "tidy P" "rn_engine w = rn_engine (pc_runner P)" "incidents_ok (rn_db w)" "table_phase (rn_db w) = table_phase (rn_db (pc_runner P))"
    "db_monitors (rn_db w) = db_monitors (rn_db (pc_runner P))"
  shows "tidy (P\<lparr>pc_runner := w\<rparr>)"
  using assms by (simp add: tidy_def in_order_def)

lemma tidy_reminded: 
  assumes "tidy P"
  shows "tidy (P\<lparr>pc_runner := remind v c (pc_runner P)\<rparr>)"
proof (cases "RecordReminder (i_ID (fst c)) (p_now v) (rn_db (pc_runner P))")
  case (Inl e)
  then show ?thesis using assms by (simp add: remind_def Let_def)
next
  case (Inr s)
  have ok: "incidents_ok (rn_db (pc_runner P))" using assms by (simp add: tidy_def)
  have "table_phase s k = table_phase (rn_db (pc_runner P)) k" for k
    using moves_RecordReminder [OF ok Inr, of k] by (simp add: moves_def)
  then have ph: "table_phase s = table_phase (rn_db (pc_runner P))" by blast
  have s: "incidents_ok s" "db_monitors s = db_monitors (rn_db (pc_runner P))"
    using moves_RecordReminder [OF ok Inr, of 0] by (simp_all add: moves_def)
  show ?thesis by (rule tidy_runner [OF assms]) (use Inr s ph ok in \<open>simp_all add: remind_def Let_def\<close>)
qed

lemma tidy_marked:
  assumes "tidy P" "marks_only P w'"
  shows "tidy (P\<lparr>pc_runner := w'\<rparr>)"
proof -
  have m: "rn_engine w' = rn_engine (pc_runner P)" "incidents_ok (rn_db w')"
    "\<And>j. j \<in> db_monitors (rn_db w') \<Longrightarrow> j \<in> db_monitors (rn_db (pc_runner P)) \<Longrightarrow>
      table_phase (rn_db w') j = table_phase (rn_db (pc_runner P)) j"
    "\<And>j. j \<in> db_monitors (rn_db w') \<Longrightarrow> j \<notin> db_monitors (rn_db (pc_runner P)) \<Longrightarrow>
      table_phase (rn_db w') j = NoIncident \<and> phase_of (rn_engine w') j = NoIncident \<and> tasks_of j (pc_flights P) = []"
    using assms(2) by (auto simp: marks_only_def in_flight_def)
  have "in_order (P\<lparr>pc_runner := w'\<rparr>) j" for j
  proof (cases "j \<in> db_monitors (rn_db (pc_runner P))")
    case True
    then show ?thesis using m(1) m(3) [of j] assms(1) by (auto simp: tidy_def in_order_def)
  next
    case False
    then show ?thesis using m(4) [of j] by (cases "drops j (pc_reload P)") (auto simp: in_order_def)
  qed
  then show ?thesis using m(1,2) assms(1) by (simp add: tidy_def)
qed

lemma process_tidy: "process_reachable opts P \<Longrightarrow> tidy P"
proof (induction rule: process_reachable.induct)
  case (process_started w broken)
  then show ?case by (rule tidy_started)
next
  case (outcome_begun P v co errs ks w m) then show ?case using tidy_begun by blast
next
  case (outcome_went_on P fs v co k ks gs err ns w) then show ?case using tidy_went_on by blast
next
  case (outcome_done P fs v co gs) then show ?case using tidy_done by blast
next
  case (reload_begun P live) then show ?case using tidy_reload_begun by blast
next
  case (reload_listed P live fails) then show ?case using tidy_reload_listed by blast
next
  case (reload_closed P live x xs fails now) then show ?case using tidy_reload_closed by blast
next
  case (reload_ended P live) then show ?case using tidy_reload_ended by blast
next
  case (process_reminded P v c) then show ?case using tidy_reminded by blast
next
  case (process_marked P w') then show ?case using tidy_marked by blast
next
  case (process_restarted P broken w)
  then have "incidents_ok (rn_db w)" by (simp add: tidy_def)
  then show ?case using process_restarted(2,4) by (rule tidy_started)
qed

section \<open>Outcomes that run alone\<close>

text \<open>\<open>recordOutcome\<close> with nothing in between is one way the statements may interleave.\<close>

lemma flight_to_the_end:
  "process_reachable opts P \<Longrightarrow> pc_flights P = fs @ (v, co, ks) # gs \<Longrightarrow> run_tasks v co ks w0 = (errs, w) \<Longrightarrow> pc_runner P = w0 \<Longrightarrow>
   \<exists>D. process_reachable opts (P\<lparr>pc_runner := w, pc_flights := fs @ gs, pc_disturbed := D\<rparr>) \<and>
     (set errs \<inter> lost_writes = {} \<longrightarrow> D = pc_disturbed P)"
proof (induction v co ks w0 arbitrary: P errs w rule: run_tasks.induct)
  case (1 v co w0)
  have "process_reachable opts (P\<lparr>pc_flights := fs @ gs\<rparr>)" by (rule outcome_done [OF 1(1,2)])
  moreover have "P\<lparr>pc_runner := w, pc_flights := fs @ gs, pc_disturbed := pc_disturbed P\<rparr> = P\<lparr>pc_flights := fs @ gs\<rparr>"
    using 1(3,4) by (cases P) simp
  ultimately show ?case by (intro exI [of _ "pc_disturbed P"]) simp
next
  case (2 v co k ks w0)
  obtain err ns w1 where p: "perform v co k w0 = (err, ns, w1)" by (metis surj_pair)
  obtain errs' w' where r: "run_tasks v co (ns @ ks) w1 = (errs', w')" by (metis surj_pair)
  define P1 where "P1 = P\<lparr>pc_runner := w1, pc_flights := fs @ (v, co, ns @ ks) # gs,
    pc_disturbed := pc_disturbed P \<union> (if \<exists>e\<in>lost_writes. err = Some e then {m_ID (co_Monitor co)} else {})\<rparr>"
  have res: "w = w'" "errs = (case err of None \<Rightarrow> errs' | Some e \<Rightarrow> e # errs')"
    using 2(4) p r by (auto simp: run_tasks_Cons note_error_def split: option.splits)
  have P1: "process_reachable opts P1" "pc_flights P1 = fs @ (v, co, ns @ ks) # gs" "pc_runner P1 = w1"
    unfolding P1_def by (rule outcome_went_on [OF 2(2,3)]) (use p 2(5) in simp_all)
  obtain D where "process_reachable opts (P1\<lparr>pc_runner := w', pc_flights := fs @ gs, pc_disturbed := D\<rparr>)"
    "set errs' \<inter> lost_writes = {} \<longrightarrow> D = pc_disturbed P1"
    using 2(1) [OF p [symmetric] refl refl P1(1,2) r P1(3)] by blast
  then show ?case by (intro exI [of _ D]) (auto simp: P1_def res split: option.splits)
qed

lemma outcome_alone_reachable:
  assumes "process_reachable opts P" "recordOutcome v co (pc_runner P) = (errs, w)" "set errs \<inter> lost_writes = {}"
    and "\<not> in_flight (m_ID (co_Monitor co)) P" "\<not> being_dropped (m_ID (co_Monitor co)) P"
  shows "process_reachable opts (P\<lparr>pc_runner := w\<rparr>)"
proof -
  obtain errs1 ks w1 where b: "begin_outcome v co (pc_runner P) = (errs1, ks, w1)" by (metis surj_pair)
  obtain errs2 w2 where r: "run_tasks v co ks w1 = (errs2, w2)" by force
  have res: "errs = errs1 @ errs2" "w = w2" using assms(2) b r by (simp_all add: outcome_alone_is_recordOutcome)
  define P1 where "P1 = P\<lparr>pc_runner := w1, pc_flights := pc_flights P @ [(v, co, ks)], pc_disturbed := pc_disturbed P\<rparr>"
  have P1: "process_reachable opts P1" "pc_flights P1 = pc_flights P @ (v, co, ks) # []" "pc_runner P1 = w1"
    using outcome_begun [OF assms(1) b refl] assms(4,5) by (simp_all add: P1_def)
  have "process_reachable opts (P1\<lparr>pc_runner := w2, pc_flights := pc_flights P @ [], pc_disturbed := pc_disturbed P1\<rparr>)"
    using flight_to_the_end [OF P1(1,2) r P1(3)] assms(3) res(1) by auto
  moreover have "P1\<lparr>pc_runner := w2, pc_flights := pc_flights P @ [], pc_disturbed := pc_disturbed P1\<rparr> = P\<lparr>pc_runner := w\<rparr>"
    by (cases P) (simp add: P1_def res(2))
  ultimately show ?thesis by simp
qed

text \<open>An acknowledgement from the alert's link or the interface is one of the marks of the rest of the program.\<close>

lemma acknowledging_marks_only:
  assumes "incidents_ok (rn_db (pc_runner P))" "AckIncident i now (rn_db (pc_runner P)) = Some s"
  shows "marks_only P ((pc_runner P)\<lparr>rn_db := s\<rparr>)"
proof -
  have s: "s = update_incidents (\<lambda>x. i_ID x = i)
      (\<lambda>x. x\<lparr>i_AckedAt := (case i_AckedAt x of None \<Rightarrow> Some (to_second now) | Some t \<Rightarrow> Some t)\<rparr>) (rn_db (pc_runner P))"
    using assms(2) by (auto simp: AckIncident_def split: if_splits)
  have "moves (rn_db (pc_runner P)) m (table_phase (rn_db (pc_runner P)) m) s" for m
    unfolding s by (rule moves_update [OF assms(1)]) (auto simp: row_phase_def table_phase_None table_phase_Some)
  then have "incidents_ok s" "db_monitors s = db_monitors (rn_db (pc_runner P))"
    "\<And>m. table_phase s m = table_phase (rn_db (pc_runner P)) m"
    by (simp_all add: moves_def)
  then show ?thesis by (simp add: marks_only_def)
qed

section \<open>Properties\<close>

text \<open>
  C2: the open incident in the database is the one the state engine reports. A process starts on well-formed tables;
  then outcomes of any monitors are in flight at once, each call on the engine and each statement of theirs in between
  those of others, of reloads, of reminders and of the rest of the program, any of which may fail, and the process may
  end at any moment and be started again on the same tables. In every state a monitor has at most one open incident;
  and a monitor of the table with no outcome in flight, which no reload is just dropping, has none open, an unconfirmed
  one, a confirmed one or a notice exactly as the engine reports no outage, a pending one, a confirmed one or a notice.
  The second part excludes the monitors that were disturbed since the process started: a write of their incident failed
  in an outcome, two of their outcomes were in flight at once, or a reload dropped them under one or failed to close
  their incident. A restart leaves no monitor disturbed.
\<close>

theorem incidents_follow_engine:
  assumes "process_reachable opts P"
  shows "(\<forall>x y. x \<in> set (db_incidents (rn_db (pc_runner P))) \<and> y \<in> set (db_incidents (rn_db (pc_runner P))) \<and>
      open_for m x \<and> open_for m y \<longrightarrow> x = y) \<and>
    (m \<in> db_monitors (rn_db (pc_runner P)) \<and> m \<notin> pc_disturbed P \<and> \<not> in_flight m P \<and> \<not> being_dropped m P \<longrightarrow>
      table_phase (rn_db (pc_runner P)) m = phase_of (rn_engine (pc_runner P)) m)"
proof -
  have tidy: "incidents_ok (rn_db (pc_runner P))" "in_order P m"
    using process_tidy [OF assms] by (simp_all add: tidy_def)
  then show ?thesis
    using open_incident_unique [OF tidy(1), of _ _ m] by (auto simp: in_order_def in_flight_def being_dropped_def)
qed

theorem incidents_follow_engine_witness:
  "\<exists>P :: process. pc_runner P = snd (recordOutcome sample_env sample_down sample_runner) \<and> pc_disturbed P = {} \<and>
     table_phase (rn_db (pc_runner P)) 7 = phase_of (rn_engine (pc_runner P)) 7"
proof -
  let ?w = "snd (recordOutcome sample_env sample_down sample_runner)"
  define P where "P w = \<lparr>pc_runner = w, pc_flights = [], pc_reload = None, pc_disturbed = {}\<rparr>" for w
  have "process_reachable default_options (P sample_runner)"
    unfolding P_def by (rule process_started [where broken = "\<lambda>_. False"])
      (simp_all add: sample_runner_def sample_db_def incidents_ok_def restore_def ListOpenIncidents_def)
  then have "process_reachable default_options (P sample_runner\<lparr>pc_runner := ?w\<rparr>)"
    by (rule outcome_alone_reachable [where errs = "[]"])
      (use sample_recorded(1) in \<open>simp_all add: P_def prod_eq_iff in_flight_def being_dropped_def\<close>)
  then have P: "process_reachable default_options (P ?w)" by (simp add: P_def)
  have "db_monitors (rn_db ?w) = {7}"
    using recordOutcome_monitors [OF _ _ prod.collapse [symmetric], of sample_runner sample_env sample_down]
      reachable_in_step [OF sample_runner_reachable]
    by (simp add: in_step_def sample_runner_def sample_db_def)
  then have "table_phase (rn_db ?w) 7 = phase_of (rn_engine ?w) 7"
    using incidents_follow_engine [OF P, of 7] by (simp add: P_def in_flight_def being_dropped_def)
  then show ?thesis by (intro exI [of _ "P ?w"]) (simp add: P_def)
qed

section \<open>Overlapping outcomes\<close>

text \<open>
  Two outcomes of one monitor that overlap: a worker's check finds it down, a check on demand finds it up again. The
  engine sees them in that order, the second is written first; it finds nothing to close, and the first then opens and
  confirms an outage the engine has already ended. No call fails. (\<open>CheckNow\<close> and the scheduler record the same monitor
  without knowing of each other.)
\<close>

definition sample_back :: checkOutcome where
  "sample_back = sample_down\<lparr>co_Result := (co_Result sample_down)\<lparr>r_OK := True, r_Kind := [], r_Error := []\<rparr>\<rparr>"

lemmas look_defs = Observe_eq phase_of_def lookup_ms_def observation_of_def normalise_def observe_ms_def decide_def observeFailure_def
  observeSuccess_def closeIncident_def zero_monitorState_def recordChange_def phase_def Let_def

lemmas sample_defs = sample_env_def sample_down_def sample_back_def sample_runner_def sample_db_def new_engine_def default_options_def

definition seen_down :: runner where
  "seen_down = snd (snd (perform sample_env sample_down (FirstLook (hours 2) False False) sample_runner))"

lemma first_look_down:
  "\<exists>t. perform sample_env sample_down (FirstLook (hours 2) False False) sample_runner =
     (None, [SetPace (hours 2) False False [t]], seen_down) \<and> transition_phase NoIncident t = Some Outage"
  by (simp add: seen_down_def transition_phase_def look_defs sample_defs)

lemma seen_down_phase: "phase_of (rn_engine seen_down) 7 = Outage" "rn_db seen_down = sample_db"
  "phase_of (fst (observe_check sample_env (observation_of sample_back (hours 2) False False) (rn_engine seen_down))) 7 = NoIncident"
  by (simp_all add: seen_down_def observe_check_def look_defs sample_defs)

lemma run_SetPace_beat:
  assumes "run_tasks v co [SetPace ts lnet ldns trs] w = (errs, w')" "\<forall>c. \<not> v_fails v c"
  shows "\<exists>w4. same_incidents (rn_db w) (rn_db w4) \<and> (\<forall>k. phase_of (rn_engine w4) k = phase_of (rn_engine w) k) \<and>
    apply_all v co trs w4 = (errs, w')"
proof -
  define hb where "hb = heartbeat_of v co ts lnet ldns (hd trs) (last trs)"
  define w1 where "w1 = w\<lparr>rn_sch := SetFailing (v_draws v) (v_now v) (m_ID (co_Monitor co)) (Failing (t_To (last trs))) (rn_sch w)\<rparr>"
  define W where "W = write_heartbeat v hb (capture_reason co (hd trs)) w1"
  define w3 where "w3 = (snd W)\<lparr>rn_frames := rn_frames (snd W) @ [heartbeat_frame v co hb (hd trs) (last trs)]\<rparr>"
  define C where "C = clear_unknown v co (fst W = None) w3"
  have none: "fst W = None" "fst C = None"
    using write_heartbeat_cases [where hb = hb and reason = "capture_reason co (hd trs)" and v = v and w = w1]
      capture_reason_fits [of co "hd trs" v ts lnet ldns "last trs"] assms(2)
    by (auto simp: W_def C_def hb_def clear_unknown_def split: if_splits)
  have "run_tasks v co [SetPace ts lnet ldns trs] w = (List.map_filter id [fst W, fst C] @ fst (apply_all v co trs (snd C)), snd (apply_all v co trs (snd C)))"
    unfolding run_SetPace C_def w3_def W_def w1_def hb_def by (simp only: Let_def case_prod_beta)
  then have "apply_all v co trs (snd C) = (errs, w')" using assms(1) none by (simp add: List.map_filter_simps)
  moreover have "same_incidents (rn_db w) (rn_db (snd C))"
    using write_heartbeat_frame(1) [of w1 v hb "capture_reason co (hd trs)"] clear_unknown_frame(1) [of w3 v co "fst W = None"] same_incidents_trans
    unfolding C_def by (fastforce simp: w3_def W_def w1_def)
  moreover have "phase_of (rn_engine (snd C)) k = phase_of (rn_engine w) k" for k
    using write_heartbeat_frame(2) [of v hb "capture_reason co (hd trs)" w1] by (simp add: C_def clear_unknown_frame w3_def W_def w1_def)
  ultimately show ?thesis by blast
qed

lemma overlap_resolve:
  obtains w where "run_tasks sample_env sample_back [FirstLook (hours 2) False False] seen_down = ([], w)"
    "db_incidents (rn_db w) = []" "db_monitors (rn_db w) = {7}" "phase_of (rn_engine w) 7 = NoIncident"
proof -
  let ?v = sample_env and ?co = sample_back and ?ts = "hours 2"
  have mid: "m_ID (co_Monitor ?co) = 7" and fine: "\<forall>c. \<not> v_fails ?v c" by (simp_all add: sample_defs)
  obtain trs errs w4 where b: "before_apply ?v ?co ?ts False False seen_down = (trs, errs, w4)" by (metis surj_pair)
  have wf: "wf_engine (rn_engine seen_down)"
    using perform_affects [of sample_runner sample_down sample_env "FirstLook ?ts False False"] reachable_in_step [OF sample_runner_reachable]
    by (simp add: affects_def in_step_def seen_down_def del: perform.simps)
  note bs = before_apply_spec [OF wf mid b]
  have errs: "errs = []" using before_apply_heartbeat(1) [OF b] fine by (cases errs) auto
  have db: "db_incidents (rn_db w4) = []" "db_monitors (rn_db w4) = {7}"
    using bs by (simp_all add: seen_down_phase same_incidents_def) (simp_all add: sample_db_def)
  have up_again: "phase_of (rn_engine w4) 7 = NoIncident" using bs seen_down_phase by simp
  moreover have "runs (phase_of (rn_engine seen_down) 7) trs (phase_of (rn_engine w4) 7)" using bs by blast
  ultimately have one: "runs Outage trs NoIncident" "phase_of (rn_engine w4) 7 = NoIncident"
    by (simp_all only: seen_down_phase(1))
  obtain t where t: "trs = [t]"
    using b by (auto simp: before_apply_def observe_check_def observation_of_def sample_back_def sample_down_def Let_def
      split: prod.splits)
  moreover have "t_Event t = EventIncidentResolved"
    using one(1) t by (cases "t_Event t"; cases "t_Notice t"; cases "t_Replaces t") simp_all
  ultimately have t: "trs = [t]" "t_Event t = EventIncidentResolved" by simp_all
  have "apply_all ?v ?co trs w4 = ([], w4)"
    using t db fine by (simp add: applyTransition_def switch_event_def ResolveIncident_def OpenIncidentFor_def)
  then have "run_tasks ?v ?co [FirstLook ?ts False False] seen_down = ([], w4)"
    unfolding run_FirstLook record_observed_eq b errs by simp
  then show ?thesis using that db one(2) by blast
qed

lemma overlapping_outcomes_leave_an_outage:
  "\<exists>t w2 w3. perform sample_env sample_down (FirstLook (hours 2) False False) sample_runner =
      (None, [SetPace (hours 2) False False [t]], seen_down) \<and>
    run_tasks sample_env sample_back [FirstLook (hours 2) False False] seen_down = ([], w2) \<and>
    run_tasks sample_env sample_down [SetPace (hours 2) False False [t]] w2 = ([], w3) \<and>
    table_phase (rn_db w3) 7 = Outage \<and> phase_of (rn_engine w3) 7 = NoIncident"
proof -
  obtain t where t: "perform sample_env sample_down (FirstLook (hours 2) False False) sample_runner =
      (None, [SetPace (hours 2) False False [t]], seen_down)" "transition_phase NoIncident t = Some Outage"
    using first_look_down by blast
  obtain w2 where w2: "run_tasks sample_env sample_back [FirstLook (hours 2) False False] seen_down = ([], w2)"
    "db_incidents (rn_db w2) = []" "db_monitors (rn_db w2) = {7}" "phase_of (rn_engine w2) 7 = NoIncident"
    by (rule overlap_resolve)
  obtain errs w3 where r: "run_tasks sample_env sample_down [SetPace (hours 2) False False [t]] w2 = (errs, w3)" by force
  have fine: "\<forall>c. \<not> v_fails sample_env c" and mid: "m_ID (co_Monitor sample_down) = 7" by (simp_all add: sample_defs)
  obtain w4 where w4: "same_incidents (rn_db w2) (rn_db w4)" "phase_of (rn_engine w4) 7 = NoIncident"
    "apply_all sample_env sample_down [t] w4 = (errs, w3)"
    using run_SetPace_beat [OF r fine] w2(4) by auto
  have w4db: "db_incidents (rn_db w4) = []" "7 \<in> db_monitors (rn_db w4)" using w4(1) w2 by (simp_all add: same_incidents_def)
  then have ok: "incidents_ok (rn_db w4)" "table_phase (rn_db w4) 7 = NoIncident"
    by (simp_all add: incidents_ok_def table_phase_def OpenIncidentFor_def)
  have "runs NoIncident [t] Outage" using t(2) by (simp add: transition_phase_def)
  moreover have "set errs \<subseteq> range Refused" using explained_apply_all [of _ sample_env sample_down "[t]" w4] w4(3) fine by (auto simp: explained_def)
  ultimately have "table_phase (rn_db w3) 7 = Outage \<and> set errs \<inter> range Refused = {}"
    using apply_all_reaches [OF ok(1) mid w4db(2), of "[t]" Outage sample_env] ok(2) w4(3) by (auto simp: lost_writes_def)
  moreover from this have "errs = []" using \<open>set errs \<subseteq> range Refused\<close> by (cases errs) auto
  moreover have "phase_of (rn_engine w3) 7 = NoIncident" using w4(2,3) apply_all_engine [of sample_env sample_down "[t]" w4] by simp
  ultimately show ?thesis using t(1) w2(1) r by blast
qed

end
