(* ===== verification/Intake.thy ===== *)
theory Intake
  imports Incidents Outbox Grouper
begin

text \<open>
  The intake of the notifier (\<open>internal/notifier/notifier.go\<close> and \<open>internal/store/held_alerts.go\<close>): from the
  runner's alert to rows of the outbox, through the batches that wait for company, their copies on disk and the
  owed mark of an outage whose first alert is not on disk yet.

  The mutex makes every operation atomic. A call that fails is an input (\<open>ie_fails\<close>), as are the maintenance windows
  and the routing of the monitor. Encoding an alert, which cannot fail, is not a call.
\<close>

section \<open>State and inputs\<close>

record intake =
  it_db :: database
  it_batches :: "pending list"
  it_stopped :: bool

datatype intake_call =
    QMaintenance | QPendingChannels | QDefer | QClearOwed | QChannels | QMaintenanceDeliveries | QHold | QEnqueue
  | QListHeld | QRelease | QListOwed | QGetMonitor int

record intake_env =
  ie_now :: instant
  ie_window :: duration
  ie_muted :: bool
  ie_channels :: "(int \<times> bool) list"
  ie_fails :: "intake_call \<Rightarrow> bool"

record alertMonitor =
  am_ID :: int
  am_Name :: string
  am_Type :: string
  am_Target :: string

definition AlertFromStore :: "alertMonitor \<Rightarrow> incident \<Rightarrow> event \<Rightarrow> instant \<Rightarrow> alert" where
  "AlertFromStore m x ev seen = Alert [] (zero_data
     \<lparr>a_MonitorID := am_ID m, a_MonitorName := am_Name m, a_MonitorType := am_Type m, a_Target := am_Target m,
      a_Event := event_string ev, a_IncidentID := i_ID x, a_StartedAt := i_StartedAt x, a_At := seen,
      a_Cause := i_Cause x, a_LastError := i_LastError x, a_ReminderCount := i_ReminderCount x,
      a_Notice := i_Notice x\<rparr>)"

definition owedBy :: "incident \<Rightarrow> event \<Rightarrow> int" where
  "owedBy x ev = (if ev \<noteq> EventIncidentConfirmed \<or> \<not> i_AlertOwed x then 0 else i_ID x)"

definition owedList :: "int \<Rightarrow> int list" where
  "owedList i = (if i = 0 then [] else [i])"

definition appendOwed :: "int list \<Rightarrow> int \<Rightarrow> int list" where
  "appendOwed owed i = (if i = 0 then owed else owed @ [i])"

definition enabled :: "duration \<Rightarrow> bool" where
  "enabled window \<longleftrightarrow> 0 < window"

definition clearOwed :: "intake_env \<Rightarrow> int \<Rightarrow> intake \<Rightarrow> intake_call option \<times> intake" where
  "clearOwed v owed st =
     (if owed = 0 then (None, st)
      else if ie_fails v QClearOwed then (Some QClearOwed, st)
      else (None, st\<lparr>it_db := clearAlertOwed [owed] (it_db st)\<rparr>))"

section \<open>Writing batches\<close>

definition pending_delivery :: "instant \<Rightarrow> pending \<Rightarrow> alert \<Rightarrow> delivery" where
  "pending_delivery now b summary = \<lparr>d_ID = 0, d_ChannelID = p_channel b, d_MonitorID = p_monitorID b,
     d_IncidentID = p_incidentID b, d_Event = a_Event (a_data summary), d_Payload = Encoded summary,
     d_Status = OutboxPending, d_Attempts = 0, d_LastError = [], d_QuietHeld = False, d_Suppressed = False,
     d_NextAttemptAt = now, d_CreatedAt = 0, d_UpdatedAt = 0\<rparr>"

text \<open>The writes of \<open>write\<close>; a batch without alerts has no summary and is skipped.\<close>

definition batch_writes :: "instant \<Rightarrow> pending list \<Rightarrow> batchWrite list" where
  "batch_writes now bs = List.map_filter (\<lambda>b. map_option
     (\<lambda>summary. \<lparr>bw_Delivery = pending_delivery now b summary, bw_Held = p_held b\<rparr>) (Summarise (p_alerts b))) bs"

definition write_out :: "intake_env \<Rightarrow> pending list \<Rightarrow> int list \<Rightarrow> intake \<Rightarrow> intake" where
  "write_out v bs owed st =
     (let ws = batch_writes (ie_now v) bs in
      if (ws = [] \<and> owed = []) \<or> ie_fails v QEnqueue then st
      else st\<lparr>it_db := snd (EnqueueBatches (ie_now v) ws owed (it_db st))\<rparr>)"

definition carriesOwed :: "int \<Rightarrow> pending list \<Rightarrow> bool" where
  "carriesOwed i bs \<longleftrightarrow> list_ex (\<lambda>b. i \<in> set (p_owed b)) bs"

definition releasableOwed :: "pending list \<Rightarrow> pending list \<Rightarrow> int list" where
  "releasableOwed taken rest =
     filter (\<lambda>i. \<not> carriesOwed i rest) (rev (remdups (rev (concat (map p_owed taken)))))"

section \<open>Enqueue\<close>

text \<open>\<open>hold\<close>, on the batches with the given keys.\<close>

definition on_batch :: "int \<times> batchKind \<Rightarrow> (pending \<Rightarrow> pending) \<Rightarrow> pending list \<Rightarrow> pending list" where
  "on_batch k f bs = map (\<lambda>b. if groupKey b = k then f b else b) bs"

definition batch_deadline :: "int \<times> batchKind \<Rightarrow> pending list \<Rightarrow> instant" where
  "batch_deadline k bs = (case find (\<lambda>b. groupKey b = k) bs of None \<Rightarrow> 0 | Some b \<Rightarrow> p_deadline b)"

definition held_copy :: "int \<Rightarrow> alert \<Rightarrow> pending list \<Rightarrow> int \<times> batchKind \<Rightarrow> heldAlert" where
  "held_copy mid a bs k = \<lparr>h_ID = 0, h_ChannelID = fst k, h_MonitorID = mid, h_Payload = Encoded a,
     h_Due = batch_deadline k bs, h_Created = 0\<rparr>"

definition hold :: "intake_env \<Rightarrow> (int \<times> batchKind) list \<Rightarrow> int \<Rightarrow> alert \<Rightarrow> int \<Rightarrow> intake \<Rightarrow> intake" where
  "hold v keys mid a owed st =
     (case (if ie_fails v QHold then None
            else HoldAlerts (ie_now v) (map (held_copy mid a (it_batches st)) keys) owed (it_db st)) of
        None \<Rightarrow> st\<lparr>it_batches := fold (\<lambda>k. on_batch k (\<lambda>b. b\<lparr>p_owed := appendOwed (p_owed b) owed\<rparr>)) keys (it_batches st)\<rparr>
      | Some (ids, s) \<Rightarrow> st\<lparr>it_db := s,
          it_batches := fold (\<lambda>(k, i). on_batch k (\<lambda>b. b\<lparr>p_held := p_held b @ [i]\<rparr>)) (zip keys ids) (it_batches st)\<rparr>)"

text \<open>
  The loop over the channels: a notice, or any alert once grouping is off or the notifier has stopped, is written
  directly; the others join their batches. It returns the batches, those to write and the keys of those that hold.
\<close>

fun collect_each ::
  "intake_env \<Rightarrow> bool \<Rightarrow> int \<Rightarrow> alert \<Rightarrow> (int \<times> bool) list \<Rightarrow>
     pending list \<Rightarrow> pending list \<times> pending list \<times> (int \<times> batchKind) list" where
  "collect_each v stopped mid a [] bs = (bs, [], [])"
| "collect_each v stopped mid a ((ch, on) # chs) bs =
     (if \<not> on then collect_each v stopped mid a chs bs
      else if a_Notice (a_data a) then
        (let (bs', direct, holding) = collect_each v stopped mid a chs bs
         in (bs', \<lparr>p_channel = ch, p_alerts = [a], p_deadline = 0, p_monitorID = mid,
                    p_incidentID = a_IncidentID (a_data a), p_kind = kindOf a, p_held = [], p_owed = []\<rparr> # direct, holding))
      else
        (let bs1 = add_alert (ie_window v) (ie_now v) ch mid a bs; k = (ch, kindOf a) in
         if \<not> enabled (ie_window v) \<or> stopped then
           (let (bs', direct, holding) = collect_each v stopped mid a chs (filter (\<lambda>b. groupKey b \<noteq> k) bs1)
            in (bs', filter (\<lambda>b. groupKey b = k) bs1 @ direct, holding))
         else
           (let (bs', direct, holding) = collect_each v stopped mid a chs bs1 in (bs', direct, k # holding))))"

definition collect ::
  "intake_env \<Rightarrow> int \<Rightarrow> alert \<Rightarrow> int \<Rightarrow> intake \<Rightarrow> intake_call option \<times> intake" where
  "collect v mid a owed st =
     (let (bs, direct, holding) = collect_each v (it_stopped st) mid a (ie_channels v) (it_batches st);
          st1 = st\<lparr>it_batches := bs\<rparr>
      in if direct = [] \<and> holding = [] then clearOwed v owed st1
         else
           let (st2, owed2) = (if holding \<noteq> [] then (hold v holding mid a owed st1, 0) else (st1, owed))
           in (None, if direct \<noteq> [] then write_out v direct (owedList owed2) st2 else st2))"

definition deferred_deliveries :: "intake_env \<Rightarrow> int \<Rightarrow> int \<Rightarrow> event \<Rightarrow> alert \<Rightarrow> delivery list" where
  "deferred_deliveries v mid inc ev a = map (\<lambda>(ch, on). \<lparr>d_ID = 0, d_ChannelID = ch, d_MonitorID = mid,
     d_IncidentID = inc, d_Event = event_string ev, d_Payload = Encoded a, d_Status = OutboxPending, d_Attempts = 0,
     d_LastError = [], d_QuietHeld = False, d_Suppressed = False, d_NextAttemptAt = 0, d_CreatedAt = 0,
     d_UpdatedAt = 0\<rparr>) (filter snd (ie_channels v))"

definition Enqueue ::
  "intake_env \<Rightarrow> alertMonitor \<Rightarrow> incident \<Rightarrow> event \<Rightarrow> instant \<Rightarrow> intake \<Rightarrow> intake_call option \<times> intake" where
  "Enqueue v m x ev seen st =
     (let owed = owedBy x ev; first = (ev = EventIncidentConfirmed \<and> i_ID x \<noteq> 0) in
      if ie_fails v QMaintenance then (Some QMaintenance, st)
      else if ie_muted v then
        if \<not> first then (None, st)
        else if ie_fails v QPendingChannels then (Some QPendingChannels, st)
        else if HasPendingMaintenanceChannels (i_ID x) (it_db st) then clearOwed v owed st
        else if ie_fails v QDefer then (Some QDefer, st)
        else (None, st\<lparr>it_db := DeferOwedToMaintenance (i_ID x) (it_db st)\<rparr>)
      else if ie_fails v QChannels then (Some QChannels, st)
      else if ie_channels v = [] then clearOwed v owed st
      else
        let a = AlertFromStore m x ev seen in
        case (if \<not> first then Some (False, it_db st)
              else if ie_fails v QMaintenanceDeliveries then None
              else EnqueueMaintenanceDeliveries (ie_now v) (i_ID x)
                     (deferred_deliveries v (am_ID m) (i_ID x) ev a) (it_db st)) of
          None \<Rightarrow> (Some QMaintenanceDeliveries, st)
        | Some (True, s) \<Rightarrow> (None, st\<lparr>it_db := s\<rparr>)
        | Some (False, s) \<Rightarrow> collect v (am_ID m) a owed (st\<lparr>it_db := s\<rparr>))"

section \<open>Announcing what the last process owed\<close>

text \<open>Every incident finds its own moment's inputs; its monitor may be gone.\<close>

fun announce_each ::
  "(int \<Rightarrow> intake_env) \<Rightarrow> (int \<Rightarrow> alertMonitor option) \<Rightarrow> incident list \<Rightarrow> intake \<Rightarrow> int list \<times> intake" where
  "announce_each vs get [] st = ([], st)"
| "announce_each vs get (x # xs) st =
     (let (err, st1) = (case get (i_MonitorID x) of
            None \<Rightarrow> (Some (QGetMonitor (i_MonitorID x)), st)
          | Some m \<Rightarrow> Enqueue (vs (i_ID x)) m x EventIncidentConfirmed
                        (case i_ConfirmedAt x of None \<Rightarrow> 0 | Some t \<Rightarrow> t) st);
          (errs, st2) = announce_each vs get xs st1
      in (case err of None \<Rightarrow> errs | Some _ \<Rightarrow> i_ID x # errs, st2))"

definition AnnounceOwed ::
  "(int \<Rightarrow> intake_env) \<Rightarrow> (int \<Rightarrow> alertMonitor option) \<Rightarrow> bool \<Rightarrow> intake \<Rightarrow> int list option \<times> intake" where
  "AnnounceOwed vs get listed st =
     (if \<not> listed then (None, st)
      else let (errs, st') = announce_each vs get (OwedIncidents (it_db st)) st in (Some errs, st'))"

section \<open>Restoring what was held\<close>

definition ListHeldAlerts :: "database \<Rightarrow> heldAlert list" where
  "ListHeldAlerts s = sort_key h_ID (db_held s)"

definition restored_batch :: "heldAlert \<Rightarrow> alert \<Rightarrow> pending" where
  "restored_batch h a = \<lparr>p_channel = h_ChannelID h, p_alerts = [a], p_deadline = h_Due h, p_monitorID = h_MonitorID h,
     p_incidentID = a_IncidentID (a_data a), p_kind = kindOf a, p_held = [h_ID h], p_owed = []\<rparr>"

definition join_restored :: "heldAlert \<Rightarrow> alert \<Rightarrow> pending \<Rightarrow> pending" where
  "join_restored h a b = b\<lparr>p_deadline := (if h_Due h < p_deadline b then h_Due h else p_deadline b),
     p_alerts := p_alerts b @ [a], p_held := p_held b @ [h_ID h],
     p_incidentID := (if p_incidentID b = 0 then a_IncidentID (a_data a) else p_incidentID b)\<rparr>"

fun restore_into :: "heldAlert \<Rightarrow> alert \<Rightarrow> pending list \<Rightarrow> pending list" where
  "restore_into h a [] = [restored_batch h a]"
| "restore_into h a (b # bs) =
     (if groupKey b = (h_ChannelID h, kindOf a) then join_restored h a b # bs else b # restore_into h a bs)"

text \<open>The loop over the held alerts that no live batch has; one that cannot be read is discarded.\<close>

fun restore_held_each ::
  "intake_env \<Rightarrow> int set \<Rightarrow> heldAlert list \<Rightarrow> pending list \<Rightarrow> database \<Rightarrow> pending list \<times> database" where
  "restore_held_each v live [] bs s = (bs, s)"
| "restore_held_each v live (h # hs) bs s =
     (if h_ID h \<in> live then restore_held_each v live hs bs s
      else case DecodeAlert (h_Payload h) of
        None \<Rightarrow> restore_held_each v live hs bs (if ie_fails v QRelease then s else delete_held [h_ID h] s)
      | Some a \<Rightarrow> restore_held_each v live hs (restore_into h a bs) s)"

text \<open>A restored batch goes before the live one of its key.\<close>

definition merge_live :: "pending \<Rightarrow> pending \<Rightarrow> pending" where
  "merge_live b live = b\<lparr>p_alerts := p_alerts b @ p_alerts live, p_held := p_held b @ p_held live,
     p_owed := p_owed b @ p_owed live,
     p_deadline := (if p_deadline live < p_deadline b then p_deadline live else p_deadline b),
     p_incidentID := (if p_incidentID b = 0 then p_incidentID live else p_incidentID b)\<rparr>"

fun merge_restored :: "pending list \<Rightarrow> pending list \<Rightarrow> pending list" where
  "merge_restored [] bs = bs"
| "merge_restored (b # rs) bs =
     (let b' = (case find (\<lambda>y. groupKey y = groupKey b) bs of None \<Rightarrow> b | Some live \<Rightarrow> merge_live b live)
      in merge_restored rs (b' # filter (\<lambda>y. groupKey y \<noteq> groupKey b) bs))"

definition restoreHeld :: "intake_env \<Rightarrow> intake \<Rightarrow> intake" where
  "restoreHeld v st =
     (if ie_fails v QListHeld then st
      else
        let live = \<Union> (set ` p_held ` set (it_batches st));
            (rs, s) = restore_held_each v live (ListHeldAlerts (it_db st)) [] (it_db st)
        in st\<lparr>it_db := s, it_batches := merge_restored rs (it_batches st)\<rparr>)"

section \<open>Flushing\<close>

definition flushDue :: "intake_env \<Rightarrow> intake \<Rightarrow> intake" where
  "flushDue v st =
     (let (due, rest) = due_batches (ie_now v) (it_batches st)
      in write_out v due (releasableOwed due rest) (st\<lparr>it_batches := rest\<rparr>))"

definition flushAll :: "intake_env \<Rightarrow> intake \<Rightarrow> intake" where
  "flushAll v st =
     (let all = takeAll (it_batches st)
      in write_out v all (releasableOwed all []) (st\<lparr>it_batches := []\<rparr>))"

definition stop :: "intake_env \<Rightarrow> intake \<Rightarrow> intake" where
  "stop v st = (flushAll v st)\<lparr>it_stopped := True\<rparr>"

end
