(* ===== verification/IntakeProps.thy ===== *)
theory IntakeProps
  imports Intake AlertProps
begin

text \<open>
  The first alert of an outage through the intake: while the process runs, at every moment and whatever call
  fails, the database still has it for each of its channels, or has the incident marked as owed.
\<close>

section \<open>What the database keeps\<close>

definition on_disk :: "database \<Rightarrow> int \<Rightarrow> int \<Rightarrow> bool" where
  "on_disk s ch i \<longleftrightarrow>
     (\<exists>h\<in>set (db_held s). h_ChannelID h = ch \<and> i \<in> set (payload_incidents (h_Payload h))) \<or>
     (\<exists>r\<in>set (db_rows s). d_ChannelID r = ch \<and> i \<in> set (payload_incidents (d_Payload r)))"

definition owed :: "database \<Rightarrow> int \<Rightarrow> bool" where
  "owed s i \<longleftrightarrow> (\<exists>x\<in>set (db_incidents s). i_ID x = i \<and> i_AlertOwed x)"

lemma owed_clearAlertOwed: "owed (clearAlertOwed is s) i \<longleftrightarrow> owed s i \<and> (i = 0 \<or> i \<notin> set is)"
  by (auto simp: owed_def clearAlertOwed_def update_incidents_def)

lemma clearAlertOwed_frame [simp]:
  "db_held (clearAlertOwed is s) = db_held s" "db_rows (clearAlertOwed is s) = db_rows s"
  "db_channels (clearAlertOwed is s) = db_channels s" "db_monitors (clearAlertOwed is s) = db_monitors s"
  "db_nextHeld (clearAlertOwed is s) = db_nextHeld s"
  by (simp_all add: clearAlertOwed_def update_incidents_def)

lemma kept_clearAlertOwed [simp]: "on_disk (clearAlertOwed is s) ch i = on_disk s ch i"
  by (simp add: on_disk_def)

section \<open>Writing batches keeps alerts\<close>

text \<open>A batch's held rows are copies of its alerts.\<close>

definition copies :: "heldAlert list \<Rightarrow> pending \<Rightarrow> bool" where
  "copies hs b \<longleftrightarrow> (\<forall>h\<in>set hs. h_ID h \<in> set (p_held b) \<longrightarrow>
     h_ChannelID h = p_channel b \<and> (\<exists>a\<in>set (p_alerts b). h_Payload h = Encoded a))"

definition write_copies :: "heldAlert list \<Rightarrow> batchWrite \<Rightarrow> bool" where
  "write_copies hs w \<longleftrightarrow> (\<forall>h\<in>set hs. h_ID h \<in> set (bw_Held w) \<longrightarrow> h_ChannelID h = d_ChannelID (bw_Delivery w) \<and>
     set (payload_incidents (h_Payload h)) \<subseteq> set (payload_incidents (d_Payload (bw_Delivery w))))"

lemma write_copies_mono: "write_copies hs w \<Longrightarrow> set hs' \<subseteq> set hs \<Longrightarrow> write_copies hs' w"
  unfolding write_copies_def by blast

lemma copies_mono: "copies hs b \<Longrightarrow> set hs' \<subseteq> set hs \<Longrightarrow> copies hs' b"
  unfolding copies_def by blast

lemma Summarise_named:
  assumes "Summarise as = Some s" "a \<in> set as"
  shows "set (named_incidents a) \<subseteq> set (named_incidents s) \<and> set (named_monitors a) \<subseteq> set (named_monitors s)"
proof (cases "\<exists>b. as = [b]")
  case True
  then show ?thesis using assms by (auto simp: Summarise_def)
next
  case False
  then obtain x y zs where as: "as = x # y # zs" using assms(2) by (cases as rule: remdups_adj.cases) auto
  obtain d where "s = Alert (sort_key (\<lambda>a. a_At (a_data a)) as) d"
    using assms(1) unfolding Summarise_def as Let_def by (metis list.case option.inject)
  moreover have "a \<in> set (sort_key (\<lambda>a. a_At (a_data a)) as)" using assms(2) by simp
  ultimately show ?thesis by fastforce
qed

lemma enqueueDelivery_Inr:
  assumes "enqueueDelivery clock d s = Inr (row, s')"
  shows "db_rows s' = db_rows s @ [row] \<and> d_ChannelID row = d_ChannelID d \<and> d_Payload row = d_Payload d \<and>
    db_held s' = db_held s \<and> db_incidents s' = db_incidents s \<and> db_channels s' = db_channels s \<and>
    db_monitors s' = db_monitors s \<and> db_nextHeld s' = db_nextHeld s"
  using assms by (auto simp: enqueueDelivery_def Let_def split: if_splits option.splits)

lemma enqueueDelivery_accepts:
  assumes "d_ChannelID d \<in> db_channels s" "set (payload_monitors (d_Payload d)) \<inter> db_monitors s \<noteq> {}"
  shows "\<exists>r. enqueueDelivery clock d s = Inr r"
  using assms by (auto simp: enqueueDelivery_def Let_def find_None_iff split: option.split)

lemma write_batches_frame:
  "db_incidents (snd (write_batches clock ws s)) = db_incidents s \<and>
   db_channels (snd (write_batches clock ws s)) = db_channels s \<and>
   db_monitors (snd (write_batches clock ws s)) = db_monitors s \<and>
   db_nextHeld (snd (write_batches clock ws s)) = db_nextHeld s \<and>
   set (db_held (snd (write_batches clock ws s))) \<subseteq> set (db_held s)"
proof (induction ws arbitrary: s)
  case (Cons w ws)
  show ?case
  proof (cases "enqueueDelivery clock (bw_Delivery w) s")
    case (Inl e)
    then show ?thesis using Cons.IH [of s] by (simp add: case_prod_beta)
  next
    case (Inr r)
    obtain row s1 where r: "r = (row, s1)" by (cases r)
    show ?thesis
      using Cons.IH [of "delete_held (bw_Held w) s1"] enqueueDelivery_Inr [OF Inr [unfolded r]] Inr r
      by (auto simp: case_prod_beta delete_held_def)
  qed
qed simp

lemma write_batches_on_disk:
  assumes "\<forall>w\<in>set ws. write_copies (db_held s) w" "on_disk s ch i"
  shows "on_disk (snd (write_batches clock ws s)) ch i"
  using assms
proof (induction ws arbitrary: s)
  case (Cons w ws)
  show ?case
  proof (cases "enqueueDelivery clock (bw_Delivery w) s")
    case (Inl e)
    then show ?thesis using Cons by (simp add: case_prod_beta)
  next
    case (Inr r)
    obtain row s1 where r: "r = (row, s1)" by (cases r)
    note e = enqueueDelivery_Inr [OF Inr [unfolded r]]
    let ?s2 = "delete_held (bw_Held w) s1"
    have sub: "set (db_held ?s2) \<subseteq> set (db_held s)" using e by (auto simp: delete_held_def)
    have "on_disk ?s2 ch i"
      using Cons.prems(2) unfolding on_disk_def
    proof (elim disjE bexE conjE)
      fix h assume h: "h \<in> set (db_held s)" "h_ChannelID h = ch" "i \<in> set (payload_incidents (h_Payload h))"
      show "(\<exists>h\<in>set (db_held ?s2). h_ChannelID h = ch \<and> i \<in> set (payload_incidents (h_Payload h))) \<or>
        (\<exists>r\<in>set (db_rows ?s2). d_ChannelID r = ch \<and> i \<in> set (payload_incidents (d_Payload r)))"
      proof (cases "h_ID h \<in> set (bw_Held w)")
        case True
        then have "d_ChannelID row = ch" "i \<in> set (payload_incidents (d_Payload row))"
          using Cons.prems(1) h e unfolding write_copies_def by auto
        then show ?thesis using e by (simp add: delete_held_def)
      next
        case False
        then show ?thesis using h e by (auto simp: delete_held_def)
      qed
    qed (use e in \<open>auto simp: delete_held_def\<close>)
    moreover have "\<forall>w\<in>set ws. write_copies (db_held ?s2) w"
      using Cons.prems(1) write_copies_mono [OF _ sub] by simp
    ultimately show ?thesis using Cons.IH [of ?s2] Inr r by (simp add: case_prod_beta)
  qed
qed simp

lemma write_batches_writes:
  assumes "\<forall>w\<in>set ws. write_copies (db_held s) w" "w \<in> set ws" "d_ChannelID (bw_Delivery w) = ch"
    and "ch \<in> db_channels s" "set (payload_monitors (d_Payload (bw_Delivery w))) \<inter> db_monitors s \<noteq> {}"
    and "i \<in> set (payload_incidents (d_Payload (bw_Delivery w)))"
  shows "on_disk (snd (write_batches clock ws s)) ch i"
  using assms
proof (induction ws arbitrary: s)
  case (Cons v ws)
  show ?case
  proof (cases "enqueueDelivery clock (bw_Delivery v) s")
    case (Inl e)
    have "v \<noteq> w" using Inl enqueueDelivery_accepts [of "bw_Delivery w" s clock] Cons.prems(3-5) by auto
    then show ?thesis using Inl Cons by (simp add: case_prod_beta)
  next
    case (Inr r)
    obtain row s1 where r: "r = (row, s1)" by (cases r)
    note e = enqueueDelivery_Inr [OF Inr [unfolded r]]
    let ?s2 = "delete_held (bw_Held v) s1"
    have c: "\<forall>w\<in>set ws. write_copies (db_held ?s2) w"
      using Cons.prems(1) write_copies_mono [of "db_held s" _ "db_held ?s2"] e by (auto simp: delete_held_def)
    have "on_disk (snd (write_batches clock ws ?s2)) ch i"
    proof (cases "v = w")
      case True
      have "on_disk ?s2 ch i" using e Cons.prems(3,6) True unfolding on_disk_def delete_held_def by auto
      then show ?thesis by (rule write_batches_on_disk [OF c])
    next
      case False
      show ?thesis
        by (rule Cons.IH [OF c]) (use False Cons.prems e in \<open>auto simp: delete_held_def\<close>)
    qed
    then show ?thesis using Inr r by (simp add: case_prod_beta)
  qed
qed simp

lemma EnqueueBatches_eq: "snd (EnqueueBatches clock ws ids s) = clearAlertOwed ids (snd (write_batches clock ws s))"
  by (simp add: EnqueueBatches_def case_prod_beta)

lemma set_batch_writes:
  "w \<in> set (batch_writes now bs) \<longleftrightarrow> (\<exists>b\<in>set bs. \<exists>summary. Summarise (p_alerts b) = Some summary \<and>
     w = \<lparr>bw_Delivery = pending_delivery now b summary, bw_Held = p_held b\<rparr>)"
  by (induction bs) (auto simp: batch_writes_def map_filter_simps split: option.splits)

lemma batch_writes_copies:
  assumes "\<forall>b\<in>set bs. copies hs b"
  shows "\<forall>w\<in>set (batch_writes now bs). write_copies hs w"
proof
  fix w assume "w \<in> set (batch_writes now bs)"
  then obtain b summary where b: "b \<in> set bs" "Summarise (p_alerts b) = Some summary"
    "w = \<lparr>bw_Delivery = pending_delivery now b summary, bw_Held = p_held b\<rparr>" by (auto simp: set_batch_writes)
  have "set (payload_incidents (h_Payload h)) \<subseteq> set (named_incidents summary)"
    if "h_Payload h = Encoded a" "a \<in> set (p_alerts b)" for h :: heldAlert and a
    using Summarise_named [OF b(2) that(2)] that(1) by (simp add: payload_incidents_def)
  then show "write_copies hs w"
    using assms b(1,3) unfolding write_copies_def copies_def by (fastforce simp: pending_delivery_def payload_incidents_def)
qed

lemma write_out_frame [simp]:
  "it_batches (write_out v bs ids st) = it_batches st" "it_stopped (write_out v bs ids st) = it_stopped st"
  by (simp_all add: write_out_def Let_def)

lemma write_out_failed: "ie_fails v QEnqueue \<Longrightarrow> write_out v bs ids st = st"
  by (simp add: write_out_def Let_def)

lemma write_out_spec:
  fixes v bs ids st
  assumes "\<forall>b\<in>set bs. copies (db_held (it_db st)) b"
  defines "s' \<equiv> it_db (write_out v bs ids st)"
  shows "db_channels s' = db_channels (it_db st) \<and> db_monitors s' = db_monitors (it_db st) \<and>
      db_nextHeld s' = db_nextHeld (it_db st) \<and> set (db_held s') \<subseteq> set (db_held (it_db st))"
    and "on_disk (it_db st) ch i \<Longrightarrow> on_disk s' ch i"
    and "owed s' i \<longleftrightarrow> owed (it_db st) i \<and> (ie_fails v QEnqueue \<or> i = 0 \<or> i \<notin> set ids)"
    and "\<not> ie_fails v QEnqueue \<Longrightarrow> b \<in> set bs \<Longrightarrow> a \<in> set (p_alerts b) \<Longrightarrow> i \<in> set (named_incidents a) \<Longrightarrow>
      set (named_monitors a) \<inter> db_monitors (it_db st) \<noteq> {} \<Longrightarrow> p_channel b \<in> db_channels (it_db st) \<Longrightarrow>
      on_disk s' (p_channel b) i"
proof -
  define ws where "ws = batch_writes (ie_now v) bs"
  define s1 where "s1 = snd (write_batches (ie_now v) ws (it_db st))"
  have c: "\<forall>w\<in>set ws. write_copies (db_held (it_db st)) w" unfolding ws_def by (rule batch_writes_copies [OF assms(1)])
  have s': "s' = (if (ws = [] \<and> ids = []) \<or> ie_fails v QEnqueue then it_db st else clearAlertOwed ids s1)"
    by (simp add: s'_def write_out_def Let_def EnqueueBatches_eq ws_def s1_def)
  note f = write_batches_frame [of "ie_now v" ws "it_db st", folded s1_def]
  show "db_channels s' = db_channels (it_db st) \<and> db_monitors s' = db_monitors (it_db st) \<and>
      db_nextHeld s' = db_nextHeld (it_db st) \<and> set (db_held s') \<subseteq> set (db_held (it_db st))"
    using f by (simp add: s')
  show "on_disk (it_db st) ch i \<Longrightarrow> on_disk s' ch i"
    using write_batches_on_disk [OF c] by (simp add: s' s1_def)
  have same: "owed s1 i = owed (it_db st) i" using f by (simp add: owed_def)
  have none: "s1 = it_db st" if "ws = []" using that by (simp add: s1_def)
  show "owed s' i \<longleftrightarrow> owed (it_db st) i \<and> (ie_fails v QEnqueue \<or> i = 0 \<or> i \<notin> set ids)"
    using same by (auto simp: s' owed_clearAlertOwed)
  assume b: "\<not> ie_fails v QEnqueue" "b \<in> set bs" "a \<in> set (p_alerts b)" "i \<in> set (named_incidents a)"
    "set (named_monitors a) \<inter> db_monitors (it_db st) \<noteq> {}" "p_channel b \<in> db_channels (it_db st)"
  have "p_alerts b \<noteq> []" using b(3) by (cases "p_alerts b") simp_all
  then obtain summary where sm: "Summarise (p_alerts b) = Some summary" using Summarise_some by blast
  define w where "w = \<lparr>bw_Delivery = pending_delivery (ie_now v) b summary, bw_Held = p_held b\<rparr>"
  have w: "w \<in> set ws" using b(2) sm by (auto simp: ws_def set_batch_writes w_def)
  have pd: "d_ChannelID (bw_Delivery w) = p_channel b" "d_Payload (bw_Delivery w) = Encoded summary"
    by (simp_all add: w_def pending_delivery_def)
  have "on_disk s1 (p_channel b) i"
    unfolding s1_def
    by (rule write_batches_writes [OF c w pd(1) b(6)]) (use Summarise_named [OF sm b(3)] b(4,5) in \<open>auto simp: pd payload_monitors_def payload_incidents_def\<close>)
  then show "on_disk s' (p_channel b) i" using b(1) w by (auto simp: s')
qed

section \<open>Joining batches\<close>

text \<open>\<open>ext b b'\<close>: the batch went on, with the alerts it had; \<open>grown\<close>: every batch did, and the others are new.\<close>

definition ext :: "pending \<Rightarrow> pending \<Rightarrow> bool" where
  "ext b b' \<longleftrightarrow> groupKey b' = groupKey b \<and> p_held b' = p_held b \<and> p_owed b' = p_owed b \<and>
     set (p_alerts b) \<subseteq> set (p_alerts b')"

definition grown :: "pending list \<Rightarrow> pending list \<Rightarrow> bool" where
  "grown bs bs' \<longleftrightarrow> (\<forall>b'\<in>set bs'. (\<exists>b\<in>set bs. ext b b') \<or> (p_held b' = [] \<and> p_owed b' = [])) \<and>
     (\<forall>b\<in>set bs. \<exists>b'\<in>set bs'. ext b b')"

lemma ext_refl [simp]: "ext b b"
  by (simp add: ext_def)

lemma ext_trans: "ext b b1 \<Longrightarrow> ext b1 b2 \<Longrightarrow> ext b b2"
  by (auto simp: ext_def)

lemma grown_refl: "grown bs bs"
  unfolding grown_def using ext_refl by blast

lemma grown_trans:
  assumes "grown bs bs1" "grown bs1 bs2"
  shows "grown bs bs2"
  unfolding grown_def
proof (intro conjI ballI)
  fix b2 assume "b2 \<in> set bs2"
  then consider (old) b1 where "b1 \<in> set bs1" "ext b1 b2" | (fresh) "p_held b2 = []" "p_owed b2 = []"
    using assms(2) unfolding grown_def by blast
  then show "(\<exists>b\<in>set bs. ext b b2) \<or> (p_held b2 = [] \<and> p_owed b2 = [])"
  proof cases
    case old
    then consider b where "b \<in> set bs" "ext b b1" | "p_held b1 = []" "p_owed b1 = []"
      using assms(1) unfolding grown_def by blast
    then show ?thesis
    proof cases
      case 1
      then show ?thesis using ext_trans [OF 1(2) old(2)] by blast
    next
      case 2
      then show ?thesis using old(2) by (simp add: ext_def)
    qed
  qed simp
next
  fix b assume "b \<in> set bs"
  then obtain b1 where b1: "b1 \<in> set bs1" "ext b b1" using assms(1) unfolding grown_def by blast
  then obtain b2 where "b2 \<in> set bs2" "ext b1 b2" using assms(2) unfolding grown_def by blast
  then show "\<exists>b2\<in>set bs2. ext b b2" using ext_trans [OF b1(2)] by blast
qed

lemma ext_append: "ext b (append_alert a b)"
  by (auto simp: ext_def groupKey_def append_alert_def)

lemma grown_add_alert: "grown bs (add_alert W now ch mid a bs)"
proof (induction bs)
  case Nil
  show ?case by (simp add: grown_def append_alert_def)
next
  case (Cons b bs)
  then show ?case using ext_append [of b a] by (fastforce simp: grown_def)
qed

lemma add_alert_joined: "\<exists>b\<in>set (add_alert W now ch mid a bs). groupKey b = (ch, kindOf a) \<and> a \<in> set (p_alerts b)"
  by (induction bs) (auto simp: append_alert_def groupKey_def)

lemma grown_joined:
  assumes "grown bs bs'" "\<exists>b\<in>set bs. groupKey b = k \<and> a \<in> set (p_alerts b)"
  shows "\<exists>b\<in>set bs'. groupKey b = k \<and> a \<in> set (p_alerts b)"
proof -
  obtain b where b: "b \<in> set bs" "groupKey b = k" "a \<in> set (p_alerts b)" using assms(2) by blast
  then obtain b' where "b' \<in> set bs'" "ext b b'" using assms(1) unfolding grown_def by blast
  then show ?thesis using b unfolding ext_def by auto
qed

lemma add_alert_drop:
  "filter (\<lambda>b. groupKey b \<noteq> (ch, kindOf a)) (add_alert W now ch mid a bs) = filter (\<lambda>b. groupKey b \<noteq> (ch, kindOf a)) bs"
  by (induction bs) (auto simp: groupKey_def append_alert_def)

section \<open>The loop over the channels\<close>

definition ons :: "(int \<times> bool) list \<Rightarrow> int list" where
  "ons chs = map fst (filter snd chs)"

lemma ons_simps [simp]: "ons [] = []" "ons ((ch, on) # chs) = (if on then ch # ons chs else ons chs)"
  by (simp_all add: ons_def)

definition single :: "int \<Rightarrow> int \<Rightarrow> alert \<Rightarrow> pending" where
  "single mid ch a = \<lparr>p_channel = ch, p_alerts = [a], p_deadline = 0, p_monitorID = mid,
     p_incidentID = a_IncidentID (a_data a), p_kind = kindOf a, p_held = [], p_owed = []\<rparr>"

lemma collect_notice:
  "a_Notice (a_data a) \<Longrightarrow> collect_each v stopped mid a chs bs = (bs, map (\<lambda>ch. single mid ch a) (ons chs), [])"
  by (induction chs arbitrary: bs) (auto simp: single_def)

lemma collect_holding:
  assumes "\<not> a_Notice (a_data a)" "enabled (ie_window v)" "\<not> stopped"
  shows "\<exists>bs'. collect_each v stopped mid a chs bs = (bs', [], map (\<lambda>ch. (ch, kindOf a)) (ons chs)) \<and>
    grown bs bs' \<and> (batches_ok bs \<longrightarrow> batches_ok bs') \<and>
    (\<forall>ch\<in>set (ons chs). \<exists>b\<in>set bs'. groupKey b = (ch, kindOf a) \<and> a \<in> set (p_alerts b))"
proof (induction chs arbitrary: bs)
  case Nil
  then show ?case by (simp add: grown_refl)
next
  case (Cons c chs)
  obtain ch on where c: "c = (ch, on)" by (cases c)
  show ?case
  proof (cases on)
    case False
    then show ?thesis using Cons.IH [of bs] c by simp
  next
    case True
    let ?bs1 = "add_alert (ie_window v) (ie_now v) ch mid a bs"
    obtain bs' where r: "collect_each v stopped mid a chs ?bs1 = (bs', [], map (\<lambda>ch. (ch, kindOf a)) (ons chs))"
      "grown ?bs1 bs'" "batches_ok ?bs1 \<longrightarrow> batches_ok bs'"
      "\<forall>ch\<in>set (ons chs). \<exists>b\<in>set bs'. groupKey b = (ch, kindOf a) \<and> a \<in> set (p_alerts b)"
      using Cons.IH [of ?bs1] by blast
    have "\<exists>b\<in>set bs'. groupKey b = (ch, kindOf a) \<and> a \<in> set (p_alerts b)"
      by (rule grown_joined [OF r(2) add_alert_joined])
    moreover have "grown bs bs'" by (rule grown_trans [OF grown_add_alert r(2)])
    moreover have "batches_ok bs \<longrightarrow> batches_ok bs'" using r(3) add_alert_ok by blast
    ultimately show ?thesis using True c r(1,4) assms by simp
  qed
qed

lemma collect_direct:
  assumes "\<not> a_Notice (a_data a)" "\<not> enabled (ie_window v) \<or> stopped"
  shows "\<exists>bs' direct. collect_each v stopped mid a chs bs = (bs', direct, []) \<and>
    set bs' \<subseteq> set bs \<and> (batches_ok bs \<longrightarrow> batches_ok bs') \<and>
    (\<forall>d\<in>set direct. (\<exists>b\<in>set bs. ext b d) \<or> (p_held d = [] \<and> p_owed d = [])) \<and>
    (\<forall>ch\<in>set (ons chs). \<exists>d\<in>set direct. p_channel d = ch \<and> a \<in> set (p_alerts d))"
proof (induction chs arbitrary: bs)
  case (Cons c chs)
  obtain ch on where c: "c = (ch, on)" by (cases c)
  show ?case
  proof (cases on)
    case False
    then show ?thesis using Cons.IH [of bs] c by simp
  next
    case True
    let ?bs1 = "add_alert (ie_window v) (ie_now v) ch mid a bs"
    let ?k = "(ch, kindOf a)"
    let ?rest = "filter (\<lambda>b. groupKey b \<noteq> ?k) ?bs1"
    obtain bs' direct where r: "collect_each v stopped mid a chs ?rest = (bs', direct, [])" "set bs' \<subseteq> set ?rest"
      "batches_ok ?rest \<longrightarrow> batches_ok bs'"
      "\<forall>d\<in>set direct. (\<exists>b\<in>set ?rest. ext b d) \<or> (p_held d = [] \<and> p_owed d = [])"
      "\<forall>ch\<in>set (ons chs). \<exists>d\<in>set direct. p_channel d = ch \<and> a \<in> set (p_alerts d)"
      using Cons.IH [of ?rest] by blast
    have sub: "set ?rest \<subseteq> set bs" unfolding add_alert_drop by auto
    let ?mine = "filter (\<lambda>b. groupKey b = ?k) ?bs1"
    have mine: "\<forall>d\<in>set ?mine. (\<exists>b\<in>set bs. ext b d) \<or> (p_held d = [] \<and> p_owed d = [])"
      using grown_add_alert [of bs "ie_window v" "ie_now v" ch mid a] by (auto simp: grown_def)
    have "\<exists>d\<in>set ?mine. p_channel d = ch \<and> a \<in> set (p_alerts d)"
      using add_alert_joined [of "ie_window v" "ie_now v" ch mid a bs] by (auto simp: groupKey_def)
    moreover have "batches_ok bs \<longrightarrow> batches_ok bs'" using r(3) batches_ok_filter [OF add_alert_ok] by blast
    moreover have "\<forall>d\<in>set direct. (\<exists>b\<in>set bs. ext b d) \<or> (p_held d = [] \<and> p_owed d = [])" using r(4) sub by blast
    moreover have "collect_each v stopped mid a (c # chs) bs = (bs', ?mine @ direct, [])"
      using True c r(1) assms by (simp add: Let_def)
    ultimately show ?thesis using mine r(2,5) sub c True
      by (intro exI [of _ bs'] exI [of _ "?mine @ direct"] conjI) (simp, blast, blast, auto)
  qed
qed simp

end
