(* ===== verification/IntakeRuns.thy ===== *)
theory IntakeRuns
  imports IntakeProps
begin

text \<open>
  Runs of the intake within one process, with the pairs of a channel and an outage it owes a first alert, and the
  invariant that the database never forgets one of them.
\<close>

section \<open>Holding\<close>

lemma insert_held_spec:
  "insert_held clock hs s = (ids, s') \<Longrightarrow> length ids = length hs \<and>
   (\<forall>j<length hs. ids ! j = db_nextHeld s + int j) \<and> db_nextHeld s' = db_nextHeld s + int (length hs) \<and>
   (\<exists>rows. db_held s' = db_held s @ rows \<and> length rows = length hs \<and> (\<forall>j<length hs. h_ID (rows ! j) = db_nextHeld s + int j \<and>
      h_ChannelID (rows ! j) = h_ChannelID (hs ! j) \<and> h_Payload (rows ! j) = h_Payload (hs ! j))) \<and>
   db_rows s' = db_rows s \<and> db_incidents s' = db_incidents s \<and> db_channels s' = db_channels s \<and> db_monitors s' = db_monitors s"
proof (induction hs arbitrary: s ids s')
  case (Cons h hs)
  define row where "row = h\<lparr>h_ID := db_nextHeld s, h_Due := to_second (h_Due h), h_Created := to_second clock\<rparr>"
  define s1 where "s1 = s\<lparr>db_held := db_held s @ [row], db_nextHeld := db_nextHeld s + 1\<rparr>"
  obtain ids' where i: "insert_held clock hs s1 = (ids', s')" "ids = db_nextHeld s # ids'"
    using Cons.prems by (auto simp: row_def s1_def Let_def split: prod.splits)
  obtain rows where ih: "length ids' = length hs" "\<forall>j<length hs. ids' ! j = db_nextHeld s1 + int j"
    "db_nextHeld s' = db_nextHeld s1 + int (length hs)" "db_held s' = db_held s1 @ rows" "length rows = length hs"
    "\<forall>j<length hs. h_ID (rows ! j) = db_nextHeld s1 + int j \<and> h_ChannelID (rows ! j) = h_ChannelID (hs ! j) \<and>
      h_Payload (rows ! j) = h_Payload (hs ! j)"
    "db_rows s' = db_rows s1" "db_incidents s' = db_incidents s1" "db_channels s' = db_channels s1" "db_monitors s' = db_monitors s1"
    using Cons.IH [OF i(1)] by blast
  have "\<forall>j<Suc (length hs). ((row # rows) ! j = row \<and> j = 0) \<or> (0 < j \<and> (row # rows) ! j = rows ! (j - 1))"
    by (auto simp: nth_Cons split: nat.split)
  then have "\<forall>j<length (h # hs). h_ID ((row # rows) ! j) = db_nextHeld s + int j \<and>
      h_ChannelID ((row # rows) ! j) = h_ChannelID ((h # hs) ! j) \<and> h_Payload ((row # rows) ! j) = h_Payload ((h # hs) ! j)"
    using ih(6) by (auto simp: nth_Cons row_def s1_def split: nat.split)
  moreover have "\<forall>j<length (h # hs). ids ! j = db_nextHeld s + int j"
    using ih(2) i(2) by (auto simp: nth_Cons s1_def split: nat.split)
  moreover have "db_held s' = db_held s @ row # rows" using ih(4) by (simp add: s1_def)
  ultimately show ?case
    using ih i(2) by (intro conjI exI [of _ "row # rows"]) (simp_all add: s1_def)
qed simp

lemma fold_held:
  "fold (\<lambda>(k, i). on_batch k (\<lambda>b. b\<lparr>p_held := p_held b @ [i]\<rparr>)) ps bs =
   map (\<lambda>b. b\<lparr>p_held := p_held b @ map snd (filter (\<lambda>p. fst p = groupKey b) ps)\<rparr>) bs"
  by (induction ps arbitrary: bs) (auto simp: on_batch_def groupKey_def)

lemma fold_owed:
  "i \<noteq> 0 \<Longrightarrow> fold (\<lambda>k. on_batch k (\<lambda>b. b\<lparr>p_owed := appendOwed (p_owed b) i\<rparr>)) ks bs =
   map (\<lambda>b. b\<lparr>p_owed := p_owed b @ map (\<lambda>k. i) (filter (\<lambda>k. k = groupKey b) ks)\<rparr>) bs"
  by (induction ks arbitrary: bs) (auto simp: on_batch_def groupKey_def appendOwed_def)

lemma fold_not_owed: "fold (\<lambda>k. on_batch k (\<lambda>b. b\<lparr>p_owed := appendOwed (p_owed b) 0\<rparr>)) ks bs = bs"
  by (induction ks arbitrary: bs) (auto simp: on_batch_def appendOwed_def intro!: map_idI)

lemma write_batches_distinct:
  "distinct (map h_ID (db_held s)) \<Longrightarrow> distinct (map h_ID (db_held (snd (write_batches clock ws s))))"
proof (induction ws arbitrary: s)
  case (Cons w ws)
  show ?case
  proof (cases "enqueueDelivery clock (bw_Delivery w) s")
    case (Inr r)
    obtain row s1 where r: "r = (row, s1)" by (cases r)
    have "distinct (map h_ID (db_held (delete_held (bw_Held w) s1)))"
      using Cons.prems enqueueDelivery_Inr [OF Inr [unfolded r]] by (simp add: delete_held_def distinct_map_filter)
    then show ?thesis using Cons.IH Inr r by (simp add: case_prod_beta)
  qed (use Cons in \<open>simp add: case_prod_beta\<close>)
qed simp

section \<open>The invariant\<close>

text \<open>Held ids are unique and given out in order, and a batch's ids are those of copies of its alerts.\<close>

definition links :: "intake \<Rightarrow> bool" where
  "links st \<longleftrightarrow> batches_ok (it_batches st) \<and> distinct (map h_ID (db_held (it_db st))) \<and>
     (\<forall>h\<in>set (db_held (it_db st)). h_ID h < db_nextHeld (it_db st)) \<and>
     (\<forall>b\<in>set (it_batches st). copies (db_held (it_db st)) b \<and> (\<forall>i\<in>set (p_held b). i < db_nextHeld (it_db st)))"

definition idle :: "duration \<Rightarrow> intake \<Rightarrow> bool" where
  "idle W st \<longleftrightarrow> (it_stopped st \<longrightarrow> it_batches st = []) \<and> (\<not> enabled W \<longrightarrow> (\<forall>b\<in>set (it_batches st). p_owed b = []))"

text \<open>A batch that waits carries the owed alert of an incident to its channel.\<close>

definition carries_owed :: "intake \<Rightarrow> int \<Rightarrow> int \<Rightarrow> bool" where
  "carries_owed st ch i \<longleftrightarrow> (\<exists>b\<in>set (it_batches st). p_channel b = ch \<and> i \<in> set (p_owed b) \<and>
     (\<exists>a\<in>set (p_alerts b). i \<in> set (named_incidents a) \<and> set (named_monitors a) \<inter> db_monitors (it_db st) \<noteq> {}))"

lemma carries_owedI:
  "b \<in> set (it_batches st) \<Longrightarrow> p_channel b = ch \<Longrightarrow> i \<in> set (p_owed b) \<Longrightarrow> a \<in> set (p_alerts b) \<Longrightarrow>
   i \<in> set (named_incidents a) \<Longrightarrow> set (named_monitors a) \<inter> db_monitors (it_db st) \<noteq> {} \<Longrightarrow> carries_owed st ch i"
  unfolding carries_owed_def by blast

lemma carries_owedE:
  assumes "carries_owed st ch i"
  obtains b a where "b \<in> set (it_batches st)" "p_channel b = ch" "i \<in> set (p_owed b)" "a \<in> set (p_alerts b)"
    "i \<in> set (named_incidents a)" "set (named_monitors a) \<inter> db_monitors (it_db st) \<noteq> {}"
  using assms unfolding carries_owed_def by blast

definition secure :: "intake \<Rightarrow> int \<Rightarrow> int \<Rightarrow> bool" where
  "secure st ch i \<longleftrightarrow> ch \<in> db_channels (it_db st) \<and> i \<noteq> 0 \<and> (on_disk (it_db st) ch i \<or>
     (owed (it_db st) i \<and> (carries_owed st ch i \<or> \<not> carriesOwed i (it_batches st))))"

lemma carriesOwed_iff: "carriesOwed i bs \<longleftrightarrow> (\<exists>b\<in>set bs. i \<in> set (p_owed b))"
  by (simp add: carriesOwed_def list_ex_iff)

lemma set_releasable: "set (releasableOwed taken leftover) = {i \<in> \<Union> (set ` p_owed ` set taken). \<not> carriesOwed i leftover}"
  by (auto simp: releasableOwed_def)

lemma links_subset:
  assumes "links st" "set bs \<subseteq> set (it_batches st)" "batches_ok bs"
  shows "links (st\<lparr>it_batches := bs\<rparr>)"
  using assms unfolding links_def by auto

lemma links_write:
  assumes "links st" "\<forall>b\<in>set bs. copies (db_held (it_db st)) b"
  shows "links (write_out v bs ids st)"
proof -
  let ?st = "write_out v bs ids st"
  note w = write_out_spec(1) [where v = v and bs = bs and ids = ids and st = st, OF assms(2)]
  have "distinct (map h_ID (db_held (it_db ?st)))"
    using assms(1) unfolding write_out_def by (simp add: links_def Let_def EnqueueBatches_eq write_batches_distinct)
  moreover have "copies (db_held (it_db ?st)) b \<and> (\<forall>i\<in>set (p_held b). i < db_nextHeld (it_db ?st))" if "b \<in> set (it_batches st)" for b
    using that assms(1) copies_mono w unfolding links_def by auto
  moreover have "\<forall>h\<in>set (db_held (it_db ?st)). h_ID h < db_nextHeld (it_db ?st)"
    using assms(1) w unfolding links_def by auto
  ultimately show ?thesis using assms(1) unfolding links_def write_out_frame by blast
qed

text \<open>Writing out batches that were taken from the waiting ones.\<close>

lemma write_taken:
  assumes "links st" "set taken \<union> set leftover = set (it_batches st)" "batches_ok leftover"
    and "ie_fails v QEnqueue \<longrightarrow> (\<forall>b\<in>set taken. \<forall>i\<in>set (p_owed b). \<not> carriesOwed i leftover)"
  defines "st' \<equiv> write_out v taken (releasableOwed taken leftover) (st\<lparr>it_batches := leftover\<rparr>)"
  shows "links st'" and "secure st ch i \<Longrightarrow> secure st' ch i"
proof -
  have c: "\<forall>b\<in>set taken. copies (db_held (it_db (st\<lparr>it_batches := leftover\<rparr>))) b"
    using assms(1,2) by (auto simp: links_def)
  note w = write_out_spec [where v = v and bs = taken and ids = "releasableOwed taken leftover" and st = "st\<lparr>it_batches := leftover\<rparr>",
      OF c, folded st'_def]
  have b': "it_batches st' = leftover" by (simp add: st'_def)
  have mon: "db_monitors (it_db st') = db_monitors (it_db st)" using w(1) by simp
  have "links (st\<lparr>it_batches := leftover\<rparr>)" by (rule links_subset [OF assms(1) _ assms(3)]) (use assms(2) in blast)
  then show "links st'" unfolding st'_def by (rule links_write [OF _ c])
  assume s: "secure st ch i"
  show "secure st' ch i"
  proof (cases "on_disk (it_db st) ch i")
    case True
    then show ?thesis using s w(1) w(2) [of ch i] by (simp add: secure_def)
  next
    case False
    then have o: "owed (it_db st) i" "i \<noteq> 0" "ch \<in> db_channels (it_db st)"
      and cc: "carries_owed st ch i \<or> \<not> carriesOwed i (it_batches st)"
      using s by (auto simp: secure_def)
    show ?thesis
    proof (cases "carriesOwed i leftover \<or> (\<forall>b\<in>set taken. i \<notin> set (p_owed b))")
      case keep: True
      then have "owed (it_db st') i" using w(3) [of i] o(1) by (auto simp: set_releasable)
      moreover have "carries_owed st' ch i \<or> \<not> carriesOwed i leftover \<or> on_disk (it_db st') ch i"
      proof (cases "carries_owed st ch i")
        case True
        then obtain b a where b: "b \<in> set (it_batches st)" "p_channel b = ch" "i \<in> set (p_owed b)" "a \<in> set (p_alerts b)"
          "i \<in> set (named_incidents a)" "set (named_monitors a) \<inter> db_monitors (it_db st) \<noteq> {}"
          by (auto simp: carries_owed_def)
        show ?thesis
        proof (cases "b \<in> set leftover")
          case True
          then have "carries_owed st' ch i" unfolding carries_owed_def b' mon using b(2-6) by blast
          then show ?thesis ..
        next
          case False
          then have t: "b \<in> set taken" using assms(2) b(1) by blast
          show ?thesis
          proof (cases "ie_fails v QEnqueue")
            case True
            then show ?thesis using assms(4) t b(3) by blast
          next
            case False
            then show ?thesis using w(4) [of b a i] t b o(3) by simp
          qed
        qed
      next
        case False
        then have "\<not> carriesOwed i (it_batches st)" using cc by blast
        then show ?thesis using assms(2) by (auto simp: carriesOwed_iff)
      qed
      ultimately show ?thesis using o w(1) unfolding secure_def b' by auto
    next
      case gone: False
      then have "carries_owed st ch i" using cc assms(2) by (auto simp: carriesOwed_iff)
      then obtain b a where b: "b \<in> set (it_batches st)" "p_channel b = ch" "i \<in> set (p_owed b)" "a \<in> set (p_alerts b)"
          "i \<in> set (named_incidents a)" "set (named_monitors a) \<inter> db_monitors (it_db st) \<noteq> {}"
          by (auto simp: carries_owed_def)
      have t: "b \<in> set taken" using gone assms(2) b(1,3) by (auto simp: carriesOwed_iff)
      show ?thesis
      proof (cases "ie_fails v QEnqueue")
        case True
        then have "st' = st\<lparr>it_batches := leftover\<rparr>" by (simp add: st'_def write_out_failed)
        then show ?thesis using o gone by (simp add: secure_def)
      next
        case False
        then show ?thesis using w(1) w(4) [of b a i] t b o by (simp add: secure_def)
      qed
    qed
  qed
qed

lemma flushDue_secure:
  assumes "links st" "ie_fails v QEnqueue \<longrightarrow> (\<forall>b\<in>set (fst (due_batches (ie_now v) (it_batches st))).
      \<forall>i\<in>set (p_owed b). \<not> carriesOwed i (snd (due_batches (ie_now v) (it_batches st))))"
  shows "links (flushDue v st)" "secure st ch i \<Longrightarrow> secure (flushDue v st) ch i"
proof -
  obtain taken leftover where d: "due_batches (ie_now v) (it_batches st) = (taken, leftover)" by (cases "due_batches (ie_now v) (it_batches st)")
  have m: "mset taken + mset leftover = mset (it_batches st)"
    using mset_due [of "ie_now v" "it_batches st"] d by (simp add: released_def GrouperRuns.kept_def)
  then have u: "set taken \<union> set leftover = set (it_batches st)" by (metis set_mset_mset set_mset_union)
  have ok: "batches_ok leftover"
    using kept_ok [of "it_batches st" "ie_now v"] assms(1) d by (simp add: links_def GrouperRuns.kept_def)
  have f: "ie_fails v QEnqueue \<longrightarrow> (\<forall>b\<in>set taken. \<forall>i\<in>set (p_owed b). \<not> carriesOwed i leftover)" using assms(2) d by simp
  show "links (flushDue v st)" "secure st ch i \<Longrightarrow> secure (flushDue v st) ch i"
    using write_taken [OF assms(1) u ok f] by (simp_all add: flushDue_def d)
qed

lemma stop_secure:
  assumes "links st"
  shows "links (stop v st)" "secure st ch i \<Longrightarrow> secure (stop v st) ch i"
proof -
  have u: "set (takeAll (it_batches st)) \<union> set [] = set (it_batches st)" by (simp add: takeAll_def)
  have ok: "batches_ok []" by (simp add: batches_ok_def)
  have f: "ie_fails v QEnqueue \<longrightarrow> (\<forall>b\<in>set (takeAll (it_batches st)). \<forall>i\<in>set (p_owed b). \<not> carriesOwed i [])"
    by (simp add: carriesOwed_iff)
  note w = write_taken [OF assms u ok f]
  have e: "secure (x\<lparr>it_stopped := True\<rparr>) ch i = secure x ch i" "links (x\<lparr>it_stopped := True\<rparr>) = links x" for x
    by (simp_all add: secure_def carries_owed_def links_def)
  show "links (stop v st)" "secure st ch i \<Longrightarrow> secure (stop v st) ch i"
    using w by (simp_all add: stop_def flushAll_def e Let_def)
qed

section \<open>One alert\<close>

lemma grown_carries: "grown bs bs' \<Longrightarrow> carriesOwed j bs' = carriesOwed j bs"
  unfolding grown_def ext_def carriesOwed_iff by (metis list.set(1) empty_iff)

lemma copies_ext:
  assumes "copies hs b" "ext b d"
  shows "copies hs d"
proof -
  have "p_held d = p_held b" "p_channel d = p_channel b" "set (p_alerts b) \<subseteq> set (p_alerts d)"
    using assms(2) by (simp_all add: ext_def groupKey_def)
  then show ?thesis using assms(1) unfolding copies_def by (metis subsetD)
qed

lemma links_grown:
  assumes "links st" "grown (it_batches st) bs" "batches_ok bs"
  shows "links (st\<lparr>it_batches := bs\<rparr>)"
proof -
  have "copies (db_held (it_db st)) b' \<and> (\<forall>i\<in>set (p_held b'). i < db_nextHeld (it_db st))" if b': "b' \<in> set bs" for b'
  proof -
    consider (old) b where "b \<in> set (it_batches st)" "ext b b'" | (fresh) "p_held b' = []"
      using assms(2) b' unfolding grown_def by blast
    then show ?thesis
    proof cases
      case old
      have "copies (db_held (it_db st)) b" "\<forall>i\<in>set (p_held b). i < db_nextHeld (it_db st)"
        using assms(1) old(1) unfolding links_def by blast+
      then show ?thesis using copies_ext [OF _ old(2)] old(2) by (simp add: ext_def)
    qed (simp add: copies_def)
  qed
  then show ?thesis using assms(1,3) unfolding links_def by simp
qed

lemma secure_grown:
  assumes "grown (it_batches st) bs" "secure st ch j"
  shows "secure (st\<lparr>it_batches := bs\<rparr>) ch j"
proof -
  have "carries_owed (st\<lparr>it_batches := bs\<rparr>) ch j" if c: "carries_owed st ch j"
  proof -
    obtain b a where b: "b \<in> set (it_batches st)" "p_channel b = ch" "j \<in> set (p_owed b)" "a \<in> set (p_alerts b)"
      "j \<in> set (named_incidents a)" "set (named_monitors a) \<inter> db_monitors (it_db st) \<noteq> {}"
      using c by (auto simp: carries_owed_def)
    obtain b' where b': "b' \<in> set bs" "ext b b'" using assms(1) b(1) unfolding grown_def by blast
    then have "p_channel b' = ch" "j \<in> set (p_owed b')" "a \<in> set (p_alerts b')"
      using b(2-4) unfolding ext_def groupKey_def by auto
    then show ?thesis using b' b(5,6) unfolding carries_owed_def by auto
  qed
  then show ?thesis using assms(2) grown_carries [OF assms(1), of j] by (auto simp: secure_def)
qed

text \<open>Alerts written directly.\<close>

lemma write_direct:
  fixes v direct i st
  assumes "links st" "\<forall>d\<in>set direct. copies (db_held (it_db st)) d" "\<not> carriesOwed i (it_batches st)"
    and "i \<noteq> 0 \<longrightarrow> owed (it_db st) i"
    and "\<forall>ch\<in>set chs. ch \<in> db_channels (it_db st) \<and> (\<exists>d\<in>set direct. p_channel d = ch \<and> a \<in> set (p_alerts d))"
    and "set (named_monitors a) \<inter> db_monitors (it_db st) \<noteq> {}" "i \<noteq> 0 \<longrightarrow> i \<in> set (named_incidents a)"
  defines "st' \<equiv> write_out v direct (owedList i) st"
  shows "links st'" "j \<noteq> i \<Longrightarrow> secure st ch j \<Longrightarrow> secure st' ch j" "i \<noteq> 0 \<Longrightarrow> ch \<in> set chs \<Longrightarrow> secure st' ch i"
proof -
  note w = write_out_spec [where v = v and bs = direct and ids = "owedList i" and st = st, OF assms(2), folded st'_def]
  have mon: "db_monitors (it_db st') = db_monitors (it_db st)" "db_channels (it_db st') = db_channels (it_db st)"
    using w(1) by simp_all
  have b': "it_batches st' = it_batches st" by (simp add: st'_def)
  show "links st'" unfolding st'_def by (rule links_write [OF assms(1,2)])
  show "secure st' ch j" if "j \<noteq> i" "secure st ch j"
  proof -
    note j = that
    have "owed (it_db st') j = owed (it_db st) j" using w(3) [of j] j(1) by (auto simp: owedList_def)
    moreover have "carries_owed st' ch j = carries_owed st ch j" by (simp add: carries_owed_def b' mon)
    ultimately show ?thesis using j(2) w(2) [of ch j] by (auto simp: secure_def b' mon)
  qed
  show "secure st' ch i" if nz: "i \<noteq> 0" and chin: "ch \<in> set chs"
  proof (cases "ie_fails v QEnqueue")
    case True
    then have "st' = st" by (simp add: st'_def write_out_failed)
    then show ?thesis using that assms(3,4,5) by (auto simp: secure_def)
  next
    case False
    obtain d where "d \<in> set direct" "p_channel d = ch" "a \<in> set (p_alerts d)" "ch \<in> db_channels (it_db st)"
      using assms(5) chin by blast
    then show ?thesis using w(4) [OF False, of d a i] assms(6,7) nz by (auto simp: secure_def mon)
  qed
qed

lemma collect_each_nobody: "ons chs = [] \<Longrightarrow> collect_each v stopped mid a chs bs = (bs, [], [])"
  by (induction chs) auto

lemma links_db: "links st \<Longrightarrow> db_held s = db_held (it_db st) \<Longrightarrow> db_nextHeld s = db_nextHeld (it_db st) \<Longrightarrow> links (st\<lparr>it_db := s\<rparr>)"
  by (simp add: links_def)

text \<open>A change of the database that forgets nothing but the mark of one incident.\<close>

lemma secure_db:
  assumes "secure st ch j" "db_channels s = db_channels (it_db st)" "db_monitors s = db_monitors (it_db st)"
    and "on_disk (it_db st) ch j \<Longrightarrow> on_disk s ch j" "owed (it_db st) j \<Longrightarrow> owed s j"
  shows "secure (st\<lparr>it_db := s\<rparr>) ch j"
proof -
  have "carries_owed (st\<lparr>it_db := s\<rparr>) ch j = carries_owed st ch j" by (simp add: carries_owed_def assms(3))
  then show ?thesis using assms(1,2,4,5) by (auto simp: secure_def)
qed

lemma clearOwed_secure:
  assumes "clearOwed v i st = (err, st')" "links st"
  shows "links st' \<and> it_batches st' = it_batches st \<and> it_stopped st' = it_stopped st \<and>
    (\<forall>ch j. j \<noteq> i \<longrightarrow> secure st ch j \<longrightarrow> secure st' ch j)"
proof (cases "i = 0 \<or> ie_fails v QClearOwed")
  case True
  then have "st' = st" using assms(1) by (auto simp: clearOwed_def split: if_splits)
  then show ?thesis using assms(2) by simp
next
  case False
  then have st': "st' = st\<lparr>it_db := clearAlertOwed [i] (it_db st)\<rparr>" using assms(1) by (simp add: clearOwed_def)
  have "secure st' ch j" if "j \<noteq> i" "secure st ch j" for ch j
    unfolding st' by (rule secure_db [OF that(2)]) (use that(1) in \<open>simp_all add: owed_clearAlertOwed\<close>)
  then show ?thesis using links_db [OF assms(2)] by (simp add: st')
qed

text \<open>Holding: the failure leaves the incident owed by its batches, the success puts a copy on disk for each.\<close>

lemma batches_ok_map:
  assumes "batches_ok bs" "\<And>b. groupKey (f b) = groupKey b \<and> p_alerts (f b) = p_alerts b \<and> p_kind (f b) = p_kind b"
  shows "batches_ok (map f bs)"
proof -
  have "map groupKey (map f bs) = map groupKey bs" using assms(2) by simp
  then show ?thesis using assms unfolding batches_ok_def batch_ok_def by (simp del: map_map)
qed

lemma hold_failed:
  fixes i a chs
  defines "keys \<equiv> map (\<lambda>ch. (ch, kindOf a)) chs"
  assumes "links st" "i \<noteq> 0"
    and "\<forall>ch\<in>set chs. \<exists>b\<in>set (it_batches st). groupKey b = (ch, kindOf a) \<and> a \<in> set (p_alerts b)"
    and "set (named_monitors a) \<inter> db_monitors (it_db st) \<noteq> {}" "i \<in> set (named_incidents a)" "owed (it_db st) i"
    and "set chs \<subseteq> db_channels (it_db st)"
    and "st' = st\<lparr>it_batches := fold (\<lambda>k. on_batch k (\<lambda>b. b\<lparr>p_owed := appendOwed (p_owed b) i\<rparr>)) keys (it_batches st)\<rparr>"
  shows "links st'" "j \<noteq> i \<Longrightarrow> secure st ch j \<Longrightarrow> secure st' ch j" "ch \<in> set chs \<Longrightarrow> secure st' ch i"
    "j \<noteq> i \<Longrightarrow> carriesOwed j (it_batches st') = carriesOwed j (it_batches st)"
proof -
  define f where "f b = b\<lparr>p_owed := p_owed b @ map (\<lambda>k. i) (filter (\<lambda>k. k = groupKey b) keys)\<rparr>" for b :: pending
  have st': "st' = st\<lparr>it_batches := map f (it_batches st)\<rparr>" using fold_owed [OF assms(3)] assms(9) by (simp add: f_def [abs_def])
  have f: "groupKey (f b) = groupKey b" "p_alerts (f b) = p_alerts b" "p_kind (f b) = p_kind b" "p_held (f b) = p_held b"
    "p_channel (f b) = p_channel b" "set (p_owed b) \<subseteq> set (p_owed (f b))" "set (p_owed (f b)) \<subseteq> insert i (set (p_owed b))" for b
    by (auto simp: f_def groupKey_def)
  have "copies hs (f b) = copies hs b" for hs b by (simp add: copies_def f)
  then show "links st'" using assms(2) batches_ok_map [of "it_batches st" f] f(1-4) unfolding st' links_def by simp
  show co: "carriesOwed j (it_batches st') = carriesOwed j (it_batches st)" if "j \<noteq> i" for j
    using f(6,7) that unfolding st' carriesOwed_iff by fastforce
  show "secure st' ch j" if j: "j \<noteq> i" "secure st ch j"
  proof -
    have "carries_owed st' ch j" if c: "carries_owed st ch j"
    proof -
      obtain b where b: "b \<in> set (it_batches st)" "p_channel b = ch" "j \<in> set (p_owed b)"
        "\<exists>a\<in>set (p_alerts b). j \<in> set (named_incidents a) \<and> set (named_monitors a) \<inter> db_monitors (it_db st) \<noteq> {}"
        using c unfolding carries_owed_def by blast
      have "f b \<in> set (it_batches st')" using b(1) by (simp add: st')
      moreover have "db_monitors (it_db st') = db_monitors (it_db st)" by (simp add: st')
      ultimately show ?thesis using b(2-4) f(2,5,6) [of b] unfolding carries_owed_def by (metis subsetD)
    qed
    then show ?thesis using j(2) co [OF j(1)] by (auto simp: secure_def st')
  qed
  show "secure st' ch i" if ch: "ch \<in> set chs"
  proof -
    obtain b where b: "b \<in> set (it_batches st)" "groupKey b = (ch, kindOf a)" "a \<in> set (p_alerts b)"
      using assms(4) ch by blast
    have "i \<in> set (p_owed (f b))" using ch b(2) by (auto simp: f_def keys_def)
    moreover have "f b \<in> set (it_batches st')" using b(1) by (simp add: st')
    moreover have "p_channel (f b) = ch" "a \<in> set (p_alerts (f b))" using b f(2,5) by (simp_all add: groupKey_def)
    moreover have "db_monitors (it_db st') = db_monitors (it_db st)" by (simp add: st')
    ultimately have "carries_owed st' ch i" using assms(5,6) unfolding carries_owed_def by metis
    then show ?thesis using assms(3,7,8) ch by (auto simp: secure_def st')
  qed
qed

lemma hold_kept:
  fixes i a chs
  defines "keys \<equiv> map (\<lambda>ch. (ch, kindOf a)) chs"
  assumes "links st" "HoldAlerts now (map (held_copy mid a (it_batches st)) keys) i (it_db st) = Some (ids, s)"
    and "\<forall>ch\<in>set chs. \<exists>b\<in>set (it_batches st). groupKey b = (ch, kindOf a) \<and> a \<in> set (p_alerts b)"
    and "i \<noteq> 0 \<longrightarrow> i \<in> set (named_incidents a)" "set chs \<subseteq> db_channels (it_db st)"
    and "st' = st\<lparr>it_db := s, it_batches := fold (\<lambda>(k, i). on_batch k (\<lambda>b. b\<lparr>p_held := p_held b @ [i]\<rparr>)) (zip keys ids) (it_batches st)\<rparr>"
  shows "links st'" "j \<noteq> i \<Longrightarrow> secure st ch j \<Longrightarrow> secure st' ch j" "i \<noteq> 0 \<Longrightarrow> ch \<in> set chs \<Longrightarrow> secure st' ch i"
    "carriesOwed j (it_batches st') = carriesOwed j (it_batches st)"
proof -
  let ?hs = "map (held_copy mid a (it_batches st)) keys"
  let ?n = "db_nextHeld (it_db st)"
  obtain s1 where i1: "insert_held now ?hs (it_db st) = (ids, s1)" and s: "s = clearAlertOwed [i] s1"
    using assms(3) by (auto simp: HoldAlerts_def Let_def split: if_splits prod.splits)
  obtain rows where sp: "length ids = length ?hs" "\<forall>j<length ?hs. ids ! j = ?n + int j"
    "db_nextHeld s1 = ?n + int (length ?hs)" "db_held s1 = db_held (it_db st) @ rows" "length rows = length ?hs"
    "\<forall>j<length ?hs. h_ID (rows ! j) = ?n + int j \<and> h_ChannelID (rows ! j) = h_ChannelID (?hs ! j) \<and> h_Payload (rows ! j) = h_Payload (?hs ! j)"
    "db_rows s1 = db_rows (it_db st)" "db_incidents s1 = db_incidents (it_db st)" "db_channels s1 = db_channels (it_db st)"
    "db_monitors s1 = db_monitors (it_db st)"
    using insert_held_spec [OF i1] by blast
  have len: "length ?hs = length chs" by (simp add: keys_def)
  have row: "h_ID (rows ! j) = ?n + int j" "h_ChannelID (rows ! j) = chs ! j" "h_Payload (rows ! j) = Encoded a" if "j < length chs" for j
    using sp(6) that by (simp_all add: keys_def held_copy_def)
  define f where "f b = b\<lparr>p_held := p_held b @ map snd (filter (\<lambda>p. fst p = groupKey b) (zip keys ids))\<rparr>" for b :: pending
  have st': "st' = st\<lparr>it_db := s, it_batches := map f (it_batches st)\<rparr>" using fold_held assms(7) by (simp add: f_def [abs_def])
  have f: "groupKey (f b) = groupKey b" "p_alerts (f b) = p_alerts b" "p_kind (f b) = p_kind b" "p_owed (f b) = p_owed b"
    "p_channel (f b) = p_channel b" for b by (simp_all add: f_def groupKey_def)
  have new: "id \<in> set (p_held b) \<or> (\<exists>j<length chs. id = ?n + int j \<and> groupKey b = (chs ! j, kindOf a))" if "id \<in> set (p_held (f b))" for id b
    using that sp(1,2) by (auto simp: f_def set_zip keys_def)
  have held: "db_held (it_db st') = db_held (it_db st) @ rows" "db_nextHeld (it_db st') = ?n + int (length chs)"
    using sp(3,4) len by (simp_all add: st' s)
  have rowin: "\<exists>j<length chs. h = rows ! j" if "h \<in> set rows" for h using that sp(5) len by (auto simp: in_set_conv_nth)
  have bound: "\<forall>h\<in>set (db_held (it_db st)). h_ID h < ?n" and dist: "distinct (map h_ID (db_held (it_db st)))"
    and bok: "batches_ok (it_batches st)"
    and bat: "\<forall>b\<in>set (it_batches st). copies (db_held (it_db st)) b \<and> (\<forall>i\<in>set (p_held b). i < ?n)"
    using assms(2) unfolding links_def by blast+
  have cp: "copies (db_held (it_db st')) (f b) \<and> (\<forall>i\<in>set (p_held (f b)). i < db_nextHeld (it_db st'))" if b: "b \<in> set (it_batches st)" for b
  proof
    have old: "copies (db_held (it_db st)) b" "\<forall>i\<in>set (p_held b). i < ?n" using bat b by blast+
    show "\<forall>i\<in>set (p_held (f b)). i < db_nextHeld (it_db st')"
      using new [of _ b] old(2) held(2) by fastforce
    show "copies (db_held (it_db st')) (f b)"
      unfolding copies_def
    proof (intro ballI impI)
      fix h assume h: "h \<in> set (db_held (it_db st'))" "h_ID h \<in> set (p_held (f b))"
      show "h_ChannelID h = p_channel (f b) \<and> (\<exists>a\<in>set (p_alerts (f b)). h_Payload h = Encoded a)"
      proof (cases "h \<in> set (db_held (it_db st))")
        case True
        then have "h_ID h < ?n" using bound by blast
        then have "h_ID h \<in> set (p_held b)" using new [OF h(2)] by auto
        then show ?thesis using old(1) True unfolding copies_def f by blast
      next
        case False
        then obtain j where j: "j < length chs" "h = rows ! j" using h(1) held(1) rowin by auto
        have "h_ID h \<notin> set (p_held b)" using old(2) row(1) [OF j(1)] j(2) by auto
        then have g: "groupKey b = (chs ! j, kindOf a)" using new [OF h(2)] row(1) [OF j(1)] j(2) by auto
        obtain b2 where "b2 \<in> set (it_batches st)" "groupKey b2 = (chs ! j, kindOf a)" "a \<in> set (p_alerts b2)"
          using assms(4) j(1) nth_mem by blast
        then have "a \<in> set (p_alerts b)" using bok b g unfolding batches_ok_def by (metis distinct_map inj_onD)
        then show ?thesis using row(2,3) [OF j(1)] j(2) g by (simp add: f groupKey_def)
      qed
    qed
  qed
  have ids_rows: "map h_ID rows = map (\<lambda>j. ?n + int j) [0..<length chs]"
    by (rule nth_equalityI) (use sp(5) len row(1) in \<open>simp_all add: keys_def\<close>)
  have "distinct (map h_ID (db_held (it_db st')))"
    unfolding held map_append ids_rows using dist bound by (auto simp: distinct_map inj_on_def)
  moreover have "\<forall>h\<in>set (db_held (it_db st')). h_ID h < db_nextHeld (it_db st')"
    unfolding held using bound rowin row(1) by fastforce
  moreover have "batches_ok (it_batches st')" using batches_ok_map [OF bok, of f] f by (simp add: st')
  ultimately show "links st'" using cp unfolding links_def by (simp add: st')
  show co: "carriesOwed j (it_batches st') = carriesOwed j (it_batches st)" for j by (simp add: st' carriesOwed_iff f)
  have disk: "on_disk (it_db st') ch j" if "on_disk (it_db st) ch j" for ch j
    using that sp(7) by (auto simp: on_disk_def held) (simp add: st' s)
  show "secure st' ch j" if j: "j \<noteq> i" "secure st ch j"
  proof -
    have "owed (it_db st') j = owed (it_db st) j"
      using sp(8) j(1) by (simp add: st' s owed_clearAlertOwed) (simp add: owed_def)
    moreover have "carries_owed st' ch j = carries_owed st ch j" using sp(10) by (simp add: carries_owed_def st' s f)
    ultimately show ?thesis using j(2) co [of j] disk sp(9) by (auto simp: secure_def st' s)
  qed
  show "secure st' ch i" if nz: "i \<noteq> 0" and ch: "ch \<in> set chs"
  proof -
    obtain j where j: "j < length chs" "ch = chs ! j" using ch by (auto simp: in_set_conv_nth)
    then have "rows ! j \<in> set (db_held (it_db st'))" using sp(5) len by (simp add: held)
    moreover have "i \<in> set (payload_incidents (Encoded a))" using assms(5) nz by (simp add: payload_incidents_def)
    ultimately have "on_disk (it_db st') ch i" using row(2,3) [OF j(1)] j(2) unfolding on_disk_def by auto
    then show ?thesis using assms(6) ch nz sp(9) by (auto simp: secure_def st' s)
  qed
qed

end
