(* ===== verification/OwedRuns.thy ===== *)
theory OwedRuns
  imports IntakeRuns
begin

text \<open>
  What one alert does to the owed alerts: the paths of \<open>Enqueue\<close>, through maintenance, the batches and the direct
  writes, with every call that may fail on the way.
\<close>

section \<open>Collecting\<close>

text \<open>
  What an operation on the alert of incident \<open>i\<close> (0 for an alert nobody is owed) does to the others, and for \<open>i\<close>
  itself for the channels it was accepted for.
\<close>

definition handles :: "duration \<Rightarrow> intake \<Rightarrow> int \<Rightarrow> int list \<Rightarrow> intake \<Rightarrow> bool" where
  "handles W st i chs st' \<longleftrightarrow> links st' \<and> idle W st' \<and> it_stopped st' = it_stopped st \<and>
     (\<forall>ch j. j \<noteq> i \<longrightarrow> secure st ch j \<longrightarrow> secure st' ch j) \<and>
     (i \<noteq> 0 \<longrightarrow> (\<forall>ch\<in>set chs. secure st' ch i)) \<and>
     (\<forall>j. carriesOwed j (it_batches st') \<longrightarrow> carriesOwed j (it_batches st) \<or> (j = i \<and> i \<noteq> 0 \<and> chs \<noteq> []))"

lemma hold_handles:
  fixes i a chs
  defines "keys \<equiv> map (\<lambda>ch. (ch, kindOf a)) chs"
  assumes "links st" "enabled W" "\<not> it_stopped st" "chs \<noteq> []"
    and "\<forall>ch\<in>set chs. \<exists>b\<in>set (it_batches st). groupKey b = (ch, kindOf a) \<and> a \<in> set (p_alerts b)"
    and "set (named_monitors a) \<inter> db_monitors (it_db st) \<noteq> {}" "i \<noteq> 0 \<longrightarrow> i \<in> set (named_incidents a) \<and> owed (it_db st) i"
    and "set chs \<subseteq> db_channels (it_db st)"
  shows "handles W st i chs (hold v keys mid a i st)"
proof (cases "if ie_fails v QHold then None
    else HoldAlerts (ie_now v) (map (held_copy mid a (it_batches st)) keys) i (it_db st)")
  case None
  define st' where "st' = st\<lparr>it_batches := fold (\<lambda>k. on_batch k (\<lambda>b. b\<lparr>p_owed := appendOwed (p_owed b) i\<rparr>)) keys (it_batches st)\<rparr>"
  have h: "hold v keys mid a i st = st'" unfolding hold_def None st'_def by simp
  show ?thesis
  proof (cases "i = 0")
    case True
    have "st' = st" unfolding st'_def True fold_not_owed by simp
    then have "hold v keys mid a i st = st" using h by simp
    then show ?thesis using assms(2-4) True by (simp add: handles_def idle_def)
  next
    case False
    note f = hold_failed [OF assms(2) False assms(6,7) _ _ assms(9) st'_def [unfolded keys_def]]
    have "i \<in> set (named_incidents a)" "owed (it_db st) i" using assms(8) False by simp_all
    note f = f [OF this]
    show ?thesis using f False assms(3,4,5) by (auto simp: h handles_def idle_def st'_def)
  qed
next
  case (Some r)
  obtain ids s where r: "r = (ids, s)" by (cases r)
  then have ha: "HoldAlerts (ie_now v) (map (held_copy mid a (it_batches st)) keys) i (it_db st) = Some (ids, s)"
    using Some by (simp split: if_splits)
  define st' where "st' = st\<lparr>it_db := s, it_batches := fold (\<lambda>(k, i). on_batch k (\<lambda>b. b\<lparr>p_held := p_held b @ [i]\<rparr>)) (zip keys ids) (it_batches st)\<rparr>"
  have h: "hold v keys mid a i st = st'" unfolding hold_def Some r st'_def by simp
  have nm: "i \<noteq> 0 \<longrightarrow> i \<in> set (named_incidents a)" using assms(8) by simp
  note k = hold_kept [OF assms(2) ha [unfolded keys_def] assms(6) nm assms(9) st'_def [unfolded keys_def]]
  show ?thesis using k assms(3,4) by (auto simp: h handles_def idle_def st'_def)
qed

lemma handles_grown:
  assumes "grown (it_batches st) bs" "handles W (st\<lparr>it_batches := bs\<rparr>) i chs st'"
  shows "handles W st i chs st'"
  using assms(2) secure_grown [OF assms(1)] grown_carries [OF assms(1)] by (simp add: handles_def)

lemma write_handles:
  assumes "links st" "\<forall>d\<in>set direct. copies (db_held (it_db st)) d" "\<not> carriesOwed i (it_batches st)" "idle W st"
    and "i \<noteq> 0 \<longrightarrow> i \<in> set (named_incidents a) \<and> owed (it_db st) i"
    and "\<forall>ch\<in>set chs. \<exists>d\<in>set direct. p_channel d = ch \<and> a \<in> set (p_alerts d)" "set chs \<subseteq> db_channels (it_db st)"
    and "set (named_monitors a) \<inter> db_monitors (it_db st) \<noteq> {}"
  shows "handles W st i chs (write_out v direct (owedList i) st)"
proof -
  have o: "i \<noteq> 0 \<longrightarrow> owed (it_db st) i" "i \<noteq> 0 \<longrightarrow> i \<in> set (named_incidents a)" using assms(5) by simp_all
  have c: "\<forall>ch\<in>set chs. ch \<in> db_channels (it_db st) \<and> (\<exists>d\<in>set direct. p_channel d = ch \<and> a \<in> set (p_alerts d))"
    using assms(6,7) by blast
  note w = write_direct [OF assms(1-3) o(1) c assms(8) o(2)]
  show ?thesis using w assms(4) by (simp add: handles_def idle_def)
qed

lemma collect_handles:
  assumes "links st" "idle (ie_window v) st" "collect v mid a i st = (err, st')"
    and "set (ons (ie_channels v)) \<subseteq> db_channels (it_db st)" "set (named_monitors a) \<inter> db_monitors (it_db st) \<noteq> {}"
    and "i \<noteq> 0 \<longrightarrow> i \<in> set (named_incidents a) \<and> owed (it_db st) i" "\<not> carriesOwed i (it_batches st)"
  shows "handles (ie_window v) st i (ons (ie_channels v)) st'"
proof -
  let ?chs = "ons (ie_channels v)" and ?W = "ie_window v"
  consider (nobody) "?chs = []" | (notice) "?chs \<noteq> []" "a_Notice (a_data a)"
    | (holding) "?chs \<noteq> []" "\<not> a_Notice (a_data a)" "enabled ?W" "\<not> it_stopped st"
    | (direct) "?chs \<noteq> []" "\<not> a_Notice (a_data a)" "\<not> enabled ?W \<or> it_stopped st" by blast
  then show ?thesis
  proof cases
    case nobody
    then have "clearOwed v i st = (err, st')" using assms(3) by (simp add: collect_def collect_each_nobody)
    note c = clearOwed_secure [OF this assms(1)]
    show ?thesis using c assms(2) nobody by (simp add: handles_def idle_def)
  next
    case notice
    have st': "st' = write_out v (map (\<lambda>ch. single mid ch a) ?chs) (owedList i) st"
      using assms(3) notice by (simp add: collect_def collect_notice)
    show ?thesis unfolding st'
      by (rule write_handles [OF assms(1) _ assms(7,2,6) _ assms(4,5)]) (auto simp: single_def copies_def)
  next
    case holding
    obtain bs where c: "collect_each v (it_stopped st) mid a (ie_channels v) (it_batches st) = (bs, [], map (\<lambda>ch. (ch, kindOf a)) ?chs)"
      "grown (it_batches st) bs" "batches_ok (it_batches st) \<longrightarrow> batches_ok bs"
      "\<forall>ch\<in>set ?chs. \<exists>b\<in>set bs. groupKey b = (ch, kindOf a) \<and> a \<in> set (p_alerts b)"
      using collect_holding [OF holding(2-4)] by blast
    have st': "st' = hold v (map (\<lambda>ch. (ch, kindOf a)) ?chs) mid a i (st\<lparr>it_batches := bs\<rparr>)"
      using assms(3) holding(1) by (simp add: collect_def c(1))
    have l: "links (st\<lparr>it_batches := bs\<rparr>)" using links_grown [OF assms(1) c(2)] c(3) assms(1) by (simp add: links_def)
    have "handles ?W (st\<lparr>it_batches := bs\<rparr>) i ?chs st'" unfolding st'
      by (rule hold_handles [OF l holding(3) _ holding(1)]) (use holding(4) c(4) assms(4-6) in simp_all)
    then show ?thesis by (rule handles_grown [OF c(2)])
  next
    case direct
    obtain bs ds where c: "collect_each v (it_stopped st) mid a (ie_channels v) (it_batches st) = (bs, ds, [])"
      "set bs \<subseteq> set (it_batches st)" "batches_ok (it_batches st) \<longrightarrow> batches_ok bs"
      "\<forall>d\<in>set ds. (\<exists>b\<in>set (it_batches st). ext b d) \<or> (p_held d = [] \<and> p_owed d = [])"
      "\<forall>ch\<in>set ?chs. \<exists>d\<in>set ds. p_channel d = ch \<and> a \<in> set (p_alerts d)"
      using collect_direct [OF direct(2,3)] by blast
    have ne: "ds \<noteq> []" using direct(1) c(5) by (cases ?chs) auto
    then have st': "st' = write_out v ds (owedList i) (st\<lparr>it_batches := bs\<rparr>)"
      using assms(3) by (simp add: collect_def c(1))
    let ?st = "st\<lparr>it_batches := bs\<rparr>"
    have l: "links ?st" using links_subset [OF assms(1) c(2)] c(3) assms(1) by (simp add: links_def)
    have no: "\<not> carriesOwed j (it_batches st)" for j using assms(2) direct(3) by (auto simp: idle_def carriesOwed_iff)
    have no': "\<not> carriesOwed j bs" for j using no [of j] c(2) unfolding carriesOwed_iff by blast
    have cp: "copies (db_held (it_db ?st)) d" if din: "d \<in> set ds" for d
    proof -
      consider (old) b where "b \<in> set (it_batches st)" "ext b d" | (fresh) "p_held d = []" using c(4) din by blast
      then show ?thesis
      proof cases
        case old
        then have "copies (db_held (it_db st)) b" using assms(1) unfolding links_def by blast
        then show ?thesis using copies_ext [OF _ old(2)] by simp
      qed (simp add: copies_def)
    qed
    have i: "idle ?W ?st" using assms(2) c(2) unfolding idle_def by auto
    have "handles ?W ?st i ?chs st'" unfolding st'
      by (rule write_handles [OF l _ _ i _ c(5)]) (use cp no' assms(4-6) in simp_all)
    moreover have "secure ?st ch j" if "secure st ch j" for ch j using that no' by (auto simp: secure_def)
    ultimately show ?thesis using no' unfolding handles_def by auto
  qed
qed

lemma collect_accepts:
  assumes "collect v mid a i st = (err, st')" "ons (ie_channels v) \<noteq> []"
  shows "err = None"
proof -
  obtain bs ds ks where c: "collect_each v (it_stopped st) mid a (ie_channels v) (it_batches st) = (bs, ds, ks)"
    by (metis surj_pair)
  consider "a_Notice (a_data a)" | "\<not> a_Notice (a_data a)" "enabled (ie_window v)" "\<not> it_stopped st"
    | "\<not> a_Notice (a_data a)" "\<not> enabled (ie_window v) \<or> it_stopped st" by blast
  then have "ds \<noteq> [] \<or> ks \<noteq> []"
  proof cases
    case 1
    then show ?thesis using c assms(2) by (auto simp: collect_notice)
  next
    case 2
    then show ?thesis using c assms(2) collect_holding [OF 2, of mid "ie_channels v" "it_batches st"] by auto
  next
    case 3
    then show ?thesis
      using c assms(2) collect_direct [OF 3, of mid "ie_channels v" "it_batches st"] by (cases "ons (ie_channels v)") auto
  qed
  then show ?thesis using assms(1) by (auto simp: collect_def c Let_def split: if_splits)
qed

section \<open>Enqueue\<close>

text \<open>Whether scheduled maintenance already has this outage's alert, and the channels an accepted alert is for.\<close>

definition in_maintenance :: "int \<Rightarrow> database \<Rightarrow> bool" where
  "in_maintenance i s \<longleftrightarrow> (case incident_of i s of None \<Rightarrow> False
     | Some y \<Rightarrow> i_MaintenancePending y \<or> list_ex (\<lambda>((k, c), p). k = i) (db_maintAlerts s))"

definition accepted :: "intake_env \<Rightarrow> incident \<Rightarrow> event \<Rightarrow> database \<Rightarrow> intake_call option \<Rightarrow> (int \<times> int) set" where
  "accepted v x ev s err =
     (if err = None \<and> owedBy x ev \<noteq> 0 \<and> \<not> ie_muted v \<and> \<not> in_maintenance (i_ID x) s
      then (\<lambda>ch. (ch, i_ID x)) ` set (ons (ie_channels v)) else {})"

lemma maintenance_rows_frame:
  "maintenance_rows clock inc everywhere ds s = Some s' \<Longrightarrow>
   db_incidents s' = db_incidents s \<and> db_held s' = db_held s \<and> db_nextHeld s' = db_nextHeld s \<and>
   db_channels s' = db_channels s \<and> db_monitors s' = db_monitors s \<and> set (db_rows s) \<subseteq> set (db_rows s')"
proof (induction ds arbitrary: s)
  case (Cons d ds)
  show ?case
  proof (cases "\<not> everywhere \<and> map_of (db_maintAlerts s) (inc, d_ChannelID d) \<noteq> Some True")
    case True
    then show ?thesis using Cons by simp
  next
    case False
    then obtain row where "maintenance_rows clock inc everywhere ds (set_maint_alert inc (d_ChannelID d) False
        (s\<lparr>db_rows := db_rows s @ [row], db_nextID := db_nextID s + 1\<rparr>)) = Some s'"
      using Cons.prems by (auto simp: Let_def split: if_splits)
    from Cons.IH [OF this] show ?thesis by (simp add: set_maint_alert_def)
  qed
qed simp

lemma EnqueueMaintenance_frame:
  assumes "EnqueueMaintenanceDeliveries clock inc ds s = Some (b, s')"
  shows "b \<longleftrightarrow> in_maintenance inc s" "\<not> b \<Longrightarrow> s' = s"
    and "db_held s' = db_held s \<and> db_nextHeld s' = db_nextHeld s \<and> db_channels s' = db_channels s \<and>
      db_monitors s' = db_monitors s \<and> set (db_rows s) \<subseteq> set (db_rows s')"
    and "j \<noteq> inc \<Longrightarrow> owed s' j = owed s j"
proof -
  have up: "owed (update_incidents (\<lambda>y. i_ID y = inc) (\<lambda>y. y\<lparr>i_MaintenancePending := False, i_AlertOwed := False\<rparr>) t) j = owed t j"
    if "j \<noteq> inc" for t j using that by (auto simp: owed_def update_incidents_def)
  show "b \<longleftrightarrow> in_maintenance inc s" "\<not> b \<Longrightarrow> s' = s"
    using assms by (auto simp: EnqueueMaintenanceDeliveries_def in_maintenance_def Let_def split: option.splits if_splits)
  consider "s' = s" | t where "maintenance_rows clock inc (i_MaintenancePending (the (incident_of inc s))) ds s = Some t"
      "s' = update_incidents (\<lambda>y. i_ID y = inc) (\<lambda>y. y\<lparr>i_MaintenancePending := False, i_AlertOwed := False\<rparr>) t"
    using assms by (auto simp: EnqueueMaintenanceDeliveries_def Let_def split: option.splits if_splits)
  then have all: "(db_held s' = db_held s \<and> db_nextHeld s' = db_nextHeld s \<and> db_channels s' = db_channels s \<and>
      db_monitors s' = db_monitors s \<and> set (db_rows s) \<subseteq> set (db_rows s')) \<and> (j \<noteq> inc \<longrightarrow> owed s' j = owed s j)"
  proof cases
    case 2
    note f = maintenance_rows_frame [OF 2(1)]
    have "j \<noteq> inc \<longrightarrow> owed s' j = owed t j" using up [of j t] by (simp add: 2(2))
    moreover have "owed t j = owed s j" using f by (simp add: owed_def)
    ultimately show ?thesis using f by (simp add: 2(2) update_incidents_def)
  qed simp
  then show "db_held s' = db_held s \<and> db_nextHeld s' = db_nextHeld s \<and> db_channels s' = db_channels s \<and>
      db_monitors s' = db_monitors s \<and> set (db_rows s) \<subseteq> set (db_rows s')" by blast
  show "j \<noteq> inc \<Longrightarrow> owed s' j = owed s j" using all by blast
qed

lemma on_disk_more:
  "on_disk s ch i \<Longrightarrow> db_held s' = db_held s \<Longrightarrow> set (db_rows s) \<subseteq> set (db_rows s') \<Longrightarrow> on_disk s' ch i"
  by (auto simp: on_disk_def)

lemma named_AlertFromStore [simp]:
  "set (named_monitors (AlertFromStore m x ev seen)) = {am_ID m}"
  "i_ID x \<noteq> 0 \<Longrightarrow> set (named_incidents (AlertFromStore m x ev seen)) = {i_ID x}"
  by (simp_all add: AlertFromStore_def)

text \<open>The incident whose mark an alert of this event may clear.\<close>

definition touches :: "incident \<Rightarrow> event \<Rightarrow> int" where
  "touches x ev = (if ev = EventIncidentConfirmed then i_ID x else 0)"

definition enqueued :: "duration \<Rightarrow> intake \<Rightarrow> int \<Rightarrow> (int \<times> int) set \<Rightarrow> intake \<Rightarrow> bool" where
  "enqueued W st i new st' \<longleftrightarrow> links st' \<and> idle W st' \<and> it_stopped st' = it_stopped st \<and>
     (\<forall>ch j. j \<noteq> i \<longrightarrow> secure st ch j \<longrightarrow> secure st' ch j) \<and>
     (\<forall>(ch, j)\<in>new. secure st' ch j) \<and>
     (\<forall>j. carriesOwed j (it_batches st') \<longrightarrow> carriesOwed j (it_batches st) \<or> j \<in> snd ` new)"

lemma enqueued_refl: "links st \<Longrightarrow> idle W st \<Longrightarrow> enqueued W st i {} st"
  by (simp add: enqueued_def)

lemma enqueued_clearOwed:
  assumes "clearOwed v k st = (err, st')" "links st" "idle W st" "k = 0 \<or> k = i"
  shows "enqueued W st i {} st'"
proof -
  note c = clearOwed_secure [OF assms(1,2)]
  have "secure st' ch j" if s: "j \<noteq> i" "secure st ch j" for ch j
  proof -
    have "j \<noteq> 0" using s(2) by (simp add: secure_def)
    then have "j \<noteq> k" using s(1) assms(4) by auto
    then show ?thesis using c s(2) by blast
  qed
  then show ?thesis using c assms(3) by (simp add: enqueued_def idle_def)
qed

lemma owed_DeferOwed: "j \<noteq> i \<Longrightarrow> owed (DeferOwedToMaintenance i s) j = owed s j"
  by (auto simp: owed_def DeferOwedToMaintenance_def update_incidents_def)

lemma Enqueue_spec:
  assumes "links st" "idle (ie_window v) st" "Enqueue v m x ev seen st = (err, st')"
    and "set (ons (ie_channels v)) \<subseteq> db_channels (it_db st)" "am_ID m \<in> db_monitors (it_db st)"
    and "owedBy x ev \<noteq> 0 \<longrightarrow> owed (it_db st) (owedBy x ev)" "\<not> carriesOwed (touches x ev) (it_batches st)"
    and "\<not> carriesOwed 0 (it_batches st)"
  shows "enqueued (ie_window v) st (touches x ev) (accepted v x ev (it_db st) err) st'"
proof -
  let ?i = "owedBy x ev" and ?W = "ie_window v" and ?a = "AlertFromStore m x ev seen"
  let ?first = "ev = EventIncidentConfirmed \<and> i_ID x \<noteq> 0"
  have i: "?i = 0 \<or> (?i = touches x ev \<and> ?i = i_ID x \<and> ?first)" by (auto simp: owedBy_def touches_def)
  note same = enqueued_refl [OF assms(1,2)]
  note clear = enqueued_clearOwed [OF _ assms(1,2), of v ?i err st' "touches x ev"]
  have upd: "enqueued ?W st (touches x ev) {} (st\<lparr>it_db := s\<rparr>)"
    if "db_held s = db_held (it_db st) \<and> db_nextHeld s = db_nextHeld (it_db st) \<and> db_channels s = db_channels (it_db st) \<and>
      db_monitors s = db_monitors (it_db st) \<and> set (db_rows (it_db st)) \<subseteq> set (db_rows s)"
      "\<And>j. j \<noteq> touches x ev \<Longrightarrow> owed s j = owed (it_db st) j" for s
    using links_db [OF assms(1)] secure_db [of st _ _ s] on_disk_more [of "it_db st" _ _ s] that assms(2)
    by (simp add: enqueued_def idle_def)
  have nobody_new: "accepted v x ev (it_db st) err = {}" if "err \<noteq> None \<or> ie_muted v \<or> ie_channels v = []"
    using that by (auto simp: accepted_def)
  show ?thesis
  proof (cases "ie_fails v QMaintenance \<or> (\<not> ie_muted v \<and> ie_fails v QChannels)")
    case True
    then have e: "err \<noteq> None" "st' = st" using assms(3) by (auto simp: Enqueue_def Let_def split: if_splits)
    have "accepted v x ev (it_db st) err = {}" using nobody_new e(1) by blast
    then show ?thesis using same e(2) by simp
  next
    case answered: False
    show ?thesis
    proof (cases "ie_muted v")
      case True
      then have no: "accepted v x ev (it_db st) err = {}" by (rule nobody_new [OF disjI2 [OF disjI1]])
      consider "st' = st" | "clearOwed v ?i st = (err, st')"
        | "st' = st\<lparr>it_db := DeferOwedToMaintenance (i_ID x) (it_db st)\<rparr>" "?first"
        using assms(3) True answered by (auto simp: Enqueue_def Let_def split: if_splits)
      then show ?thesis
      proof cases
        case 3
        have "touches x ev = i_ID x" using 3(2) by (simp add: touches_def)
        then show ?thesis
          unfolding no 3(1) using owed_DeferOwed [of _ "i_ID x" "it_db st"]
          by (intro upd) (simp_all add: DeferOwedToMaintenance_def update_incidents_def)
      qed (use same clear i no in auto)
    next
      case unmuted: False
      show ?thesis
      proof (cases "ie_channels v = []")
        case True
        then have "clearOwed v ?i st = (err, st')" using assms(3) answered unmuted by (simp add: Enqueue_def Let_def)
        then show ?thesis using clear i nobody_new True by auto
      next
        case False
        let ?ds = "deferred_deliveries v (am_ID m) (i_ID x) ev ?a"
        define r where "r = (if \<not> ?first then Some (False, it_db st) else if ie_fails v QMaintenanceDeliveries then None
          else EnqueueMaintenanceDeliveries (ie_now v) (i_ID x) ?ds (it_db st))"
        have e: "(case r of None \<Rightarrow> (Some QMaintenanceDeliveries, st) | Some (True, s) \<Rightarrow> (None, st\<lparr>it_db := s\<rparr>)
            | Some (False, s) \<Rightarrow> collect v (am_ID m) ?a ?i (st\<lparr>it_db := s\<rparr>)) = (err, st')"
          using assms(3) answered unmuted False unfolding Enqueue_def Let_def r_def by simp
        have rs: "?first \<and> EnqueueMaintenanceDeliveries (ie_now v) (i_ID x) ?ds (it_db st) = Some (b, s) \<or>
            (\<not> ?first \<and> \<not> b \<and> s = it_db st)" if "r = Some (b, s)" for b s
          using that unfolding r_def by (auto split: if_splits)
        show ?thesis
        proof (cases r)
          case None
          then have e: "err \<noteq> None" "st' = st" using e by auto
          have "accepted v x ev (it_db st) err = {}" using nobody_new e(1) by blast
    then show ?thesis using same e(2) by simp
        next
          case (Some bs)
          obtain b s where bs: "bs = (b, s)" by (cases bs)
          show ?thesis
          proof (cases b)
            case True
            then have f: "?first" "EnqueueMaintenanceDeliveries (ie_now v) (i_ID x) ?ds (it_db st) = Some (True, s)"
              using rs Some bs by auto
            note fr = EnqueueMaintenance_frame [OF f(2)]
            have st': "st' = st\<lparr>it_db := s\<rparr>" using e Some bs True by simp
            have "touches x ev = i_ID x" "accepted v x ev (it_db st) err = {}"
              using f(1) fr(1) by (auto simp: touches_def accepted_def)
            then show ?thesis unfolding st' using upd [of s] fr(3,4) by simp
          next
            case nb: False
            have s: "s = it_db st" "?first \<longrightarrow> \<not> in_maintenance (i_ID x) (it_db st)"
              using rs [of b s] Some bs nb EnqueueMaintenance_frame(1,2) by auto
            have c: "collect v (am_ID m) ?a ?i st = (err, st')" using e Some bs nb s(1) by simp
            have h: "handles ?W st ?i (ons (ie_channels v)) st'"
              by (rule collect_handles [OF assms(1,2) c assms(4)]) (use assms(5-8) i in auto)
            have new: "accepted v x ev (it_db st) err = (if ?i = 0 then {} else (\<lambda>ch. (ch, ?i)) ` set (ons (ie_channels v)))"
              using i s(2) unmuted collect_accepts [OF c] by (auto simp: accepted_def)
            have "secure st' ch j" if "j \<noteq> touches x ev" "secure st ch j" for ch j
            proof -
              have "j \<noteq> 0" using that(2) by (simp add: secure_def)
              then have "j \<noteq> ?i" using that(1) i by auto
              then show ?thesis using h that(2) unfolding handles_def by blast
            qed
            moreover have "j \<in> snd ` ((\<lambda>ch. (ch, ?i)) ` set chs) \<longleftrightarrow> j = ?i \<and> chs \<noteq> []" for j and chs :: "int list"
              by (cases chs) auto
            ultimately show ?thesis using h unfolding enqueued_def new handles_def by auto
          qed
        qed
      qed
    qed
  qed
qed

end
