(* ===== verification/HeldRuns.thy ===== *)
theory HeldRuns
  imports OwedRuns
begin

text \<open>
  Restoring the held alerts, the states the intake of a process can reach, and the property: an owed alert accepted
  for a channel is on disk or still owed, whatever fails, unless a failing write splits its copies; and what
  happens when one does.
\<close>

section \<open>Restoring\<close>

definition sources :: "heldAlert list \<Rightarrow> pending \<Rightarrow> bool" where
  "sources hs b \<longleftrightarrow> (\<forall>i\<in>set (p_held b). \<exists>h\<in>set hs. h_ID h = i \<and> h_ChannelID h = p_channel b \<and>
     (\<exists>a\<in>set (p_alerts b). h_Payload h = Encoded a))"

lemma sources_copies:
  assumes "sources hs b" "distinct (map h_ID hs)" "set hs' \<subseteq> set hs"
  shows "copies hs' b"
  unfolding copies_def
proof (intro ballI impI)
  fix h assume h: "h \<in> set hs'" "h_ID h \<in> set (p_held b)"
  obtain g where g: "g \<in> set hs" "h_ID g = h_ID h" "h_ChannelID g = p_channel b" "\<exists>a\<in>set (p_alerts b). h_Payload g = Encoded a"
    using assms(1) h(2) unfolding sources_def by blast
  have "g = h" using assms(2,3) g(1,2) h(1) unfolding distinct_map inj_on_def by blast
  then show "h_ChannelID h = p_channel b \<and> (\<exists>a\<in>set (p_alerts b). h_Payload h = Encoded a)" using g by blast
qed

definition restorable_batches :: "heldAlert list \<Rightarrow> pending list \<Rightarrow> bool" where
  "restorable_batches hs rs \<longleftrightarrow> batches_ok rs \<and> (\<forall>b\<in>set rs. sources hs b \<and> p_owed b = [])"

lemma restore_into_keys: "set (map groupKey (restore_into h a bs)) = insert (h_ChannelID h, kindOf a) (set (map groupKey bs))"
  by (induction bs) (auto simp: restored_batch_def join_restored_def groupKey_def)

lemma restore_into_ok:
  assumes "h \<in> set hs" "h_Payload h = Encoded a"
  shows "restorable_batches hs bs \<Longrightarrow> restorable_batches hs (restore_into h a bs)"
proof (induction bs)
  case Nil
  show ?case using assms by (auto simp: restorable_batches_def batches_ok_def batch_ok_def restored_batch_def sources_def)
next
  case (Cons b bs)
  have b: "batch_ok b" "sources hs b" "p_owed b = []" and bs: "restorable_batches hs bs"
    and key: "groupKey b \<notin> set (map groupKey bs)"
    using Cons.prems by (auto simp: restorable_batches_def batches_ok_def)
  show ?case
  proof (cases "groupKey b = (h_ChannelID h, kindOf a)")
    case True
    let ?b = "join_restored h a b"
    have "sources hs ?b"
      using b(2) assms True unfolding sources_def by (auto simp: join_restored_def groupKey_def)
    moreover have "batch_ok ?b" using b(1) True by (auto simp: batch_ok_def join_restored_def groupKey_def)
    moreover have "groupKey ?b = groupKey b" "p_owed ?b = []" using b(3) by (simp_all add: join_restored_def groupKey_def)
    ultimately show ?thesis using bs key True by (auto simp: restorable_batches_def batches_ok_def)
  next
    case False
    have "groupKey b \<notin> set (map groupKey (restore_into h a bs))" unfolding restore_into_keys using False key by auto
    then show ?thesis
      using Cons.IH [OF bs] b False by (auto simp: restorable_batches_def batches_ok_def)
  qed
qed

lemma restore_held_each_spec:
  assumes "restore_held_each v live hs bs s = (rs, s')" "set hs \<subseteq> set hs0" "restorable_batches hs0 bs"
  shows "restorable_batches hs0 rs \<and> (\<exists>P. s' = s\<lparr>db_held := filter P (db_held s)\<rparr> \<and>
    (\<forall>h\<in>set (db_held s). \<not> P h \<longrightarrow> (\<exists>g\<in>set hs0. h_ID g = h_ID h \<and> DecodeAlert (h_Payload g) = None)))"
  using assms
proof (induction hs arbitrary: bs s)
  case Nil
  then have "rs = bs" "s' = s\<lparr>db_held := filter (\<lambda>_. True) (db_held s)\<rparr>" by simp_all
  then show ?case using Nil by (metis filter_True)
next
  case (Cons h hs)
  show ?case
  proof (cases "h_ID h \<in> live")
    case True
    then show ?thesis using Cons by simp
  next
    case dead: False
    show ?thesis
    proof (cases "h_Payload h")
      case (Encoded a)
      then show ?thesis
        using Cons.IH [of "restore_into h a bs" s] Cons.prems dead restore_into_ok [of h hs0 a bs] by simp
    next
      case (NotJSON t)
      define s1 where "s1 = (if ie_fails v QRelease then s else delete_held [h_ID h] s)"
      have s1: "s1 = s\<lparr>db_held := filter (\<lambda>g. ie_fails v QRelease \<or> h_ID g \<noteq> h_ID h) (db_held s)\<rparr>"
        by (auto simp: s1_def delete_held_def)
      have r: "restore_held_each v live hs bs s1 = (rs, s')" using Cons.prems(1) dead NotJSON by (simp add: s1_def)
      have ih: "restorable_batches hs0 rs \<and> (\<exists>P. s' = s1\<lparr>db_held := filter P (db_held s1)\<rparr> \<and>
        (\<forall>h\<in>set (db_held s1). \<not> P h \<longrightarrow> (\<exists>g\<in>set hs0. h_ID g = h_ID h \<and> DecodeAlert (h_Payload g) = None)))"
        by (rule Cons.IH [OF r]) (use Cons.prems in auto)
      then obtain P where P: "s' = s1\<lparr>db_held := filter P (db_held s1)\<rparr>"
        "\<forall>h\<in>set (db_held s1). \<not> P h \<longrightarrow> (\<exists>g\<in>set hs0. h_ID g = h_ID h \<and> DecodeAlert (h_Payload g) = None)" by blast
      let ?Q = "\<lambda>g. P g \<and> (ie_fails v QRelease \<or> h_ID g \<noteq> h_ID h)"
      have "s' = s\<lparr>db_held := filter ?Q (db_held s)\<rparr>" using P(1) by (simp add: s1 conj_commute)
      moreover have "\<forall>g\<in>set (db_held s). \<not> ?Q g \<longrightarrow> (\<exists>g'\<in>set hs0. h_ID g' = h_ID g \<and> DecodeAlert (h_Payload g') = None)"
      proof (intro ballI impI)
        fix g assume g: "g \<in> set (db_held s)" "\<not> ?Q g"
        show "\<exists>g'\<in>set hs0. h_ID g' = h_ID g \<and> DecodeAlert (h_Payload g') = None"
        proof (cases "ie_fails v QRelease \<or> h_ID g \<noteq> h_ID h")
          case True
          then show ?thesis using P(2) g by (auto simp: s1)
        next
          case False
          then show ?thesis using Cons.prems(2) NotJSON by (intro bexI [of _ h]) simp_all
        qed
      qed
      ultimately show ?thesis using ih by (intro conjI exI [of _ ?Q]) simp_all
    qed
  qed
qed

text \<open>Merging into the live batches.\<close>

definition absorbs :: "pending list \<Rightarrow> pending list \<Rightarrow> bool" where
  "absorbs bs bs' \<longleftrightarrow> (\<forall>b\<in>set bs. \<exists>b'\<in>set bs'. p_channel b' = p_channel b \<and> set (p_owed b) \<subseteq> set (p_owed b') \<and>
      set (p_alerts b) \<subseteq> set (p_alerts b')) \<and> (\<forall>b'\<in>set bs'. \<forall>i\<in>set (p_owed b'). \<exists>b\<in>set bs. i \<in> set (p_owed b))"

lemma absorbs_refl: "absorbs bs bs"
  unfolding absorbs_def by blast

lemma absorbs_trans:
  assumes "absorbs bs bs1" "absorbs bs1 bs2"
  shows "absorbs bs bs2"
proof -
  have "\<exists>b2\<in>set bs2. p_channel b2 = p_channel b \<and> set (p_owed b) \<subseteq> set (p_owed b2) \<and> set (p_alerts b) \<subseteq> set (p_alerts b2)"
    if bin: "b \<in> set bs" for b
  proof -
    obtain b1 where b1: "b1 \<in> set bs1" "p_channel b1 = p_channel b" "set (p_owed b) \<subseteq> set (p_owed b1)" "set (p_alerts b) \<subseteq> set (p_alerts b1)"
      using assms(1) bin unfolding absorbs_def by blast
    obtain b2 where "b2 \<in> set bs2" "p_channel b2 = p_channel b1" "set (p_owed b1) \<subseteq> set (p_owed b2)" "set (p_alerts b1) \<subseteq> set (p_alerts b2)"
      using assms(2) b1(1) unfolding absorbs_def by blast
    then show ?thesis using b1 by (intro bexI [of _ b2]) auto
  qed
  moreover have "\<exists>b\<in>set bs. i \<in> set (p_owed b)" if "b2 \<in> set bs2" "i \<in> set (p_owed b2)" for b2 i
    using assms that unfolding absorbs_def by blast
  ultimately show ?thesis unfolding absorbs_def by blast
qed

lemma copies_merge_live:
  assumes "copies hs b" "copies hs live" "groupKey live = groupKey b"
  shows "copies hs (merge_live b live)"
  using assms unfolding copies_def merge_live_def groupKey_def by fastforce

lemma merge_restored_spec:
  assumes "batches_ok bs" "\<forall>b\<in>set bs. copies hs b \<and> (\<forall>i\<in>set (p_held b). i < n)"
    and "\<forall>b\<in>set rs. batch_ok b \<and> copies hs b \<and> (\<forall>i\<in>set (p_held b). i < n) \<and> p_owed b = []"
  shows "batches_ok (merge_restored rs bs) \<and> absorbs bs (merge_restored rs bs) \<and>
    (\<forall>b\<in>set (merge_restored rs bs). copies hs b \<and> (\<forall>i\<in>set (p_held b). i < n))"
  using assms
proof (induction rs arbitrary: bs)
  case Nil
  then show ?case by (simp add: absorbs_refl)
next
  case (Cons b rs)
  let ?others = "filter (\<lambda>y. groupKey y \<noteq> groupKey b) bs"
  define b' where "b' = (case find (\<lambda>y. groupKey y = groupKey b) bs of None \<Rightarrow> b | Some live \<Rightarrow> merge_live b live)"
  have b: "batch_ok b" "copies hs b" "\<forall>i\<in>set (p_held b). i < n" "p_owed b = []" using Cons.prems(3) by simp_all
  have key: "groupKey b' = groupKey b" by (simp add: b'_def merge_live_def groupKey_def split: option.split)
  have step: "batch_ok b' \<and> copies hs b' \<and> (\<forall>i\<in>set (p_held b'). i < n) \<and> absorbs bs (b' # ?others)"
  proof (cases "find (\<lambda>y. groupKey y = groupKey b) bs")
    case None
    then have "?others = bs" by (auto simp: find_None_iff intro: filter_True)
    then show ?thesis using None b by (auto simp: b'_def absorbs_def)
  next
    case (Some live)
    then have live: "live \<in> set bs" "groupKey live = groupKey b" by (auto simp: find_Some_iff)
    have eq: "b' = merge_live b live" by (simp add: b'_def Some)
    have only: "y = live" if "y \<in> set bs" "groupKey y = groupKey b" for y
      using Cons.prems(1) that live unfolding batches_ok_def distinct_map inj_on_def by metis
    have lo: "batch_ok live" "copies hs live" "\<forall>i\<in>set (p_held live). i < n"
      using Cons.prems(1,2) live(1) unfolding batches_ok_def by blast+
    have "batch_ok b'" using b(1) lo(1) live(2) by (auto simp: eq batch_ok_def merge_live_def groupKey_def)
    moreover have "copies hs b'" unfolding eq by (rule copies_merge_live [OF b(2) lo(2) live(2)])
    moreover have "\<forall>i\<in>set (p_held b'). i < n" using b(3) lo(3) by (auto simp: eq merge_live_def)
    moreover have "absorbs bs (b' # ?others)"
      unfolding absorbs_def
    proof (intro conjI ballI)
      fix y assume y: "y \<in> set bs"
      show "\<exists>z\<in>set (b' # ?others). p_channel z = p_channel y \<and> set (p_owed y) \<subseteq> set (p_owed z) \<and> set (p_alerts y) \<subseteq> set (p_alerts z)"
      proof (cases "groupKey y = groupKey b")
        case True
        then have "y = live" by (rule only [OF y])
        then show ?thesis using live(2) by (simp add: eq merge_live_def groupKey_def)
      qed (use y in auto)
    next
      fix z i assume "z \<in> set (b' # ?others)" "i \<in> set (p_owed z)"
      then show "\<exists>y\<in>set bs. i \<in> set (p_owed y)" using live(1) b(4) by (auto simp: eq merge_live_def)
    qed
    ultimately show ?thesis by blast
  qed
  have ok: "batches_ok (b' # ?others)"
    using step Cons.prems(1) batches_ok_filter [OF Cons.prems(1)] key by (auto simp: batches_ok_def)
  have all: "\<forall>y\<in>set (b' # ?others). copies hs y \<and> (\<forall>i\<in>set (p_held y). i < n)" using step Cons.prems(2) by auto
  note ih = Cons.IH [OF ok all] 
  have "merge_restored (b # rs) bs = merge_restored rs (b' # ?others)" by (simp add: b'_def Let_def)
  then show ?case using ih Cons.prems(3) absorbs_trans step by auto
qed

lemma on_disk_filter:
  assumes "on_disk s ch i" "\<forall>h\<in>set (db_held s). \<not> P h \<longrightarrow> payload_incidents (h_Payload h) = []"
  shows "on_disk (s\<lparr>db_held := filter P (db_held s)\<rparr>) ch i"
  using assms(1) unfolding on_disk_def
proof (elim disjE bexE conjE)
  fix h assume h: "h \<in> set (db_held s)" "h_ChannelID h = ch" "i \<in> set (payload_incidents (h_Payload h))"
  then have "P h" using assms(2) by (metis empty_iff list.set(1))
  then show "(\<exists>h\<in>set (db_held (s\<lparr>db_held := filter P (db_held s)\<rparr>)). h_ChannelID h = ch \<and> i \<in> set (payload_incidents (h_Payload h))) \<or>
    (\<exists>r\<in>set (db_rows (s\<lparr>db_held := filter P (db_held s)\<rparr>)). d_ChannelID r = ch \<and> i \<in> set (payload_incidents (d_Payload r)))"
    using h by auto
qed auto

lemma restoreHeld_secure:
  assumes "links st" "idle W st" "\<not> it_stopped st"
  shows "links (restoreHeld v st)" "idle W (restoreHeld v st)" "secure st ch i \<Longrightarrow> secure (restoreHeld v st) ch i"
    "carriesOwed j (it_batches (restoreHeld v st)) \<Longrightarrow> carriesOwed j (it_batches st)"
proof -
  have "links (restoreHeld v st) \<and> idle W (restoreHeld v st) \<and> (secure st ch i \<longrightarrow> secure (restoreHeld v st) ch i) \<and>
    (carriesOwed j (it_batches (restoreHeld v st)) \<longrightarrow> carriesOwed j (it_batches st))"
  proof (cases "ie_fails v QListHeld")
    case True
    then show ?thesis using assms by (simp add: restoreHeld_def)
  next
    case False
    let ?s = "it_db st" and ?bs = "it_batches st"
    have l: "batches_ok ?bs" "distinct (map h_ID (db_held ?s))" "\<forall>h\<in>set (db_held ?s). h_ID h < db_nextHeld ?s"
      "\<forall>b\<in>set ?bs. copies (db_held ?s) b \<and> (\<forall>i\<in>set (p_held b). i < db_nextHeld ?s)"
      using assms(1) unfolding links_def by blast+
    obtain rs s' where r: "restore_held_each v (\<Union> (set ` p_held ` set ?bs)) (ListHeldAlerts ?s) [] ?s = (rs, s')"
      by (metis surj_pair)
    have sub: "set (ListHeldAlerts ?s) \<subseteq> set (db_held ?s)" by (simp add: ListHeldAlerts_def)
    have none: "restorable_batches (db_held ?s) []" by (simp add: restorable_batches_def batches_ok_def)
    obtain P where rs: "restorable_batches (db_held ?s) rs" and s': "s' = ?s\<lparr>db_held := filter P (db_held ?s)\<rparr>"
      and P: "\<forall>h\<in>set (db_held ?s). \<not> P h \<longrightarrow> (\<exists>g\<in>set (db_held ?s). h_ID g = h_ID h \<and> DecodeAlert (h_Payload g) = None)"
      using restore_held_each_spec [OF r sub none] by blast
    define bs' where "bs' = merge_restored rs ?bs"
    have st': "restoreHeld v st = st\<lparr>it_db := s', it_batches := bs'\<rparr>" using False r by (simp add: restoreHeld_def bs'_def Let_def)
    have c: "\<forall>b\<in>set rs. batch_ok b \<and> copies (db_held ?s) b \<and> (\<forall>i\<in>set (p_held b). i < db_nextHeld ?s) \<and> p_owed b = []"
    proof
      fix b assume b: "b \<in> set rs"
      then have so: "sources (db_held ?s) b" and bo: "batch_ok b" "p_owed b = []"
        using rs unfolding restorable_batches_def batches_ok_def by blast+
      have "\<forall>i\<in>set (p_held b). i < db_nextHeld ?s" using so l(3) unfolding sources_def by metis
      then show "batch_ok b \<and> copies (db_held ?s) b \<and> (\<forall>i\<in>set (p_held b). i < db_nextHeld ?s) \<and> p_owed b = []"
        using sources_copies [OF so l(2) subset_refl] bo by blast
    qed
    note m = merge_restored_spec [OF l(1,4) c, folded bs'_def]
    have ab: "absorbs ?bs bs'" using m by blast
    have "links (restoreHeld v st)"
      using m l(2,3) copies_mono [of "db_held ?s" _ "filter P (db_held ?s)"] unfolding st' links_def s'
      by (simp add: distinct_map_filter)
    moreover have "carriesOwed j bs' \<Longrightarrow> carriesOwed j ?bs" for j using ab unfolding absorbs_def carriesOwed_iff by blast
    moreover have "idle W (restoreHeld v st)"
      using assms(2,3) ab unfolding idle_def st' absorbs_def by (simp, metis empty_iff empty_set equals0I set_empty2)
    moreover have "secure (restoreHeld v st) ch i" if sec: "secure st ch i"
    proof -
      have "payload_incidents (h_Payload h) = []" if h: "h \<in> set (db_held ?s)" "\<not> P h" for h
      proof -
        obtain g where "g \<in> set (db_held ?s)" "h_ID g = h_ID h" "DecodeAlert (h_Payload g) = None" using P h by blast
        then have "DecodeAlert (h_Payload h) = None" using l(2) h(1) unfolding distinct_map inj_on_def by metis
        then show ?thesis by (cases "h_Payload h") (simp_all add: payload_incidents_def)
      qed
      then have disk: "on_disk ?s ch i \<Longrightarrow> on_disk s' ch i" unfolding s' by (intro on_disk_filter) auto
      have "carries_owed (restoreHeld v st) ch i" if c: "carries_owed st ch i"
      proof -
        obtain b a where b: "b \<in> set ?bs" "p_channel b = ch" "i \<in> set (p_owed b)" "a \<in> set (p_alerts b)"
          "i \<in> set (named_incidents a)" "set (named_monitors a) \<inter> db_monitors ?s \<noteq> {}" by (rule carries_owedE [OF c])
        obtain b' where b': "b' \<in> set bs'" "p_channel b' = p_channel b" "set (p_owed b) \<subseteq> set (p_owed b')" "set (p_alerts b) \<subseteq> set (p_alerts b')"
          using ab b(1) unfolding absorbs_def by blast
        show ?thesis
          by (rule carries_owedI [of b' _ _ _ a]) (use b b' in \<open>auto simp: st' s'\<close>)
      qed
      moreover have "owed s' i = owed ?s i" by (simp add: owed_def s')
      moreover have "\<not> carriesOwed i ?bs \<Longrightarrow> \<not> carriesOwed i bs'" using ab unfolding absorbs_def carriesOwed_iff by blast
      ultimately show ?thesis using sec disk unfolding secure_def st' by (auto simp: s')
    qed
    ultimately show ?thesis by (simp add: st')
  qed
  then show "links (restoreHeld v st)" "idle W (restoreHeld v st)" "secure st ch i \<Longrightarrow> secure (restoreHeld v st) ch i"
    "carriesOwed j (it_batches (restoreHeld v st)) \<Longrightarrow> carriesOwed j (it_batches st)" by blast+
qed

section \<open>The intake of a process\<close>

text \<open>
  What the rest of the program may do to the database meanwhile: the runner confirms and marks incidents, the worker
  sends and rewrites rows. It leaves the held alerts to the intake, keeps the incidents a row names and clears no mark.
\<close>

definition undisturbed :: "database \<Rightarrow> database \<Rightarrow> bool" where
  "undisturbed s s' \<longleftrightarrow> db_held s' = db_held s \<and> db_nextHeld s' = db_nextHeld s \<and> db_channels s' = db_channels s \<and>
     db_monitors s' = db_monitors s \<and> (\<forall>i. owed s i \<longrightarrow> owed s' i) \<and>
     (\<forall>r\<in>set (db_rows s). \<exists>r'\<in>set (db_rows s'). d_ChannelID r' = d_ChannelID r \<and>
        set (payload_incidents (d_Payload r)) \<subseteq> set (payload_incidents (d_Payload r')))"

text \<open>The batches of a pass whose write fails must not share an owed incident with those that stay.\<close>

definition splits_no_owed :: "intake_env \<Rightarrow> pending list \<Rightarrow> bool" where
  "splits_no_owed v bs \<longleftrightarrow> (\<forall>b\<in>set (fst (due_batches (ie_now v) bs)). \<forall>i\<in>set (p_owed b).
     \<not> carriesOwed i (snd (due_batches (ie_now v) bs)))"

text \<open>
  The states with the pairs of a channel and an incident whose owed alert was accepted for it. An incident's owed
  alert is enqueued once: by the runner that confirmed it, or at the start by \<open>AnnounceOwed\<close>.
\<close>

inductive intake_reachable :: "duration \<Rightarrow> (int \<times> int) set \<Rightarrow> intake \<Rightarrow> bool" for W where
  started: "it_batches st = [] \<Longrightarrow> \<not> it_stopped st \<Longrightarrow> distinct (map h_ID (db_held (it_db st))) \<Longrightarrow>
     \<forall>h\<in>set (db_held (it_db st)). h_ID h < db_nextHeld (it_db st) \<Longrightarrow> intake_reachable W {} st"
| enqueued: "intake_reachable W acc st \<Longrightarrow> ie_window v = W \<Longrightarrow> Enqueue v m x ev seen st = (err, st') \<Longrightarrow>
     set (ons (ie_channels v)) \<subseteq> db_channels (it_db st) \<Longrightarrow> am_ID m \<in> db_monitors (it_db st) \<Longrightarrow>
     owedBy x ev \<noteq> 0 \<longrightarrow> owed (it_db st) (owedBy x ev) \<Longrightarrow> touches x ev \<notin> snd ` acc \<Longrightarrow>
     intake_reachable W (acc \<union> accepted v x ev (it_db st) err) st'"
| flushed: "intake_reachable W acc st \<Longrightarrow> ie_fails v QEnqueue \<longrightarrow> splits_no_owed v (it_batches st) \<Longrightarrow>
     intake_reachable W acc (flushDue v st)"
| stopped: "intake_reachable W acc st \<Longrightarrow> intake_reachable W acc (stop v st)"
| restored: "intake_reachable W acc st \<Longrightarrow> \<not> it_stopped st \<Longrightarrow> intake_reachable W acc (restoreHeld v st)"
| elsewhere: "intake_reachable W acc st \<Longrightarrow> undisturbed (it_db st) s \<Longrightarrow> intake_reachable W acc (st\<lparr>it_db := s\<rparr>)"

definition promised :: "duration \<Rightarrow> (int \<times> int) set \<Rightarrow> intake \<Rightarrow> bool" where
  "promised W acc st \<longleftrightarrow> links st \<and> idle W st \<and> (\<forall>(ch, i)\<in>acc. secure st ch i) \<and>
     (\<forall>i. carriesOwed i (it_batches st) \<longrightarrow> i \<in> snd ` acc)"

lemma promised_nonzero: "promised W acc st \<Longrightarrow> 0 \<notin> snd ` acc"
  by (auto simp: promised_def secure_def)

lemma idle_after_write:
  assumes "idle W st" "set leftover \<subseteq> set (it_batches st)"
  shows "idle W (write_out v bs ids (st\<lparr>it_batches := leftover\<rparr>))"
  using assms unfolding idle_def by auto

lemma due_leaves: "set (snd (due_batches now bs)) \<subseteq> set bs"
  using released_subset(2) [of now bs] by (simp add: GrouperRuns.kept_def)

lemma carriesOwed_subset: "set bs \<subseteq> set bs' \<Longrightarrow> carriesOwed i bs \<Longrightarrow> carriesOwed i bs'"
  by (auto simp: carriesOwed_iff)

lemma promised_reachable: "intake_reachable W acc st \<Longrightarrow> promised W acc st"
proof (induction rule: intake_reachable.induct)
  case (started st)
  then show ?case by (simp add: promised_def links_def idle_def carriesOwed_iff batches_ok_def)
next
  case (enqueued acc st v m x ev seen err st')
  note inv = enqueued.IH [unfolded promised_def]
  have c: "\<not> carriesOwed (touches x ev) (it_batches st)" "\<not> carriesOwed 0 (it_batches st)"
    using inv enqueued.hyps(7) promised_nonzero [OF enqueued.IH] by blast+
  have "enqueued W st (touches x ev) (accepted v x ev (it_db st) err) st'"
    using Enqueue_spec [OF _ _ enqueued.hyps(3-6) c] inv enqueued.hyps(2) by blast
  moreover have "j \<noteq> touches x ev" if "(ch, j) \<in> acc" for ch j using that enqueued.hyps(7) by force
  ultimately show ?case using inv unfolding promised_def enqueued_def by (auto simp: image_Un)
next
  case (flushed acc st v)
  note inv = flushed.IH [unfolded promised_def]
  have f: "ie_fails v QEnqueue \<longrightarrow> (\<forall>b\<in>set (fst (due_batches (ie_now v) (it_batches st))).
      \<forall>i\<in>set (p_owed b). \<not> carriesOwed i (snd (due_batches (ie_now v) (it_batches st))))"
    using flushed.hyps(2) by (simp add: splits_no_owed_def)
  have l: "links st" using inv by blast
  have b: "it_batches (flushDue v st) = snd (due_batches (ie_now v) (it_batches st))"
    by (simp add: flushDue_def case_prod_beta)
  have "idle W (flushDue v st)"
    using inv idle_after_write [OF _ due_leaves] by (simp add: flushDue_def case_prod_beta)
  moreover have "carriesOwed i (it_batches (flushDue v st)) \<Longrightarrow> i \<in> snd ` acc" for i
    using inv carriesOwed_subset [OF due_leaves] unfolding b by blast
  ultimately show ?case using flushDue_secure [OF l f] inv unfolding promised_def by blast
next
  case (stopped acc st v)
  note inv = stopped.IH [unfolded promised_def]
  have "it_batches (stop v st) = []" by (simp add: stop_def flushAll_def Let_def)
  then show ?case using stop_secure [where st = st and v = v] inv by (auto simp: promised_def idle_def carriesOwed_iff)
next
  case (restored acc st v)
  note inv = restored.IH [unfolded promised_def]
  have l: "links st" and i: "idle W st" using inv by blast+
  show ?case using restoreHeld_secure [OF l i restored.hyps(2)] inv unfolding promised_def by blast
next
  case (elsewhere acc st s)
  note inv = elsewhere.IH [unfolded promised_def]
  note u = elsewhere.hyps(2) [unfolded undisturbed_def]
  have disk: "on_disk s ch i" if "on_disk (it_db st) ch i" for ch i
    using that u unfolding on_disk_def by (metis subsetD)
  have "secure (st\<lparr>it_db := s\<rparr>) ch i" if "secure st ch i" for ch i
    by (rule secure_db [OF that]) (use u disk in blast)+
  then show ?case using inv u by (auto simp: promised_def links_def idle_def)
qed

section \<open>Properties\<close>

definition owed_incident :: "int \<Rightarrow> incident" where
  "owed_incident i = \<lparr>i_ID = i, i_MonitorID = 7, i_StartedAt = 0, i_ConfirmedAt = Some 0, i_ResolvedAt = None,
     i_AckedAt = None, i_Cause = ''timeout'', i_LastError = [], i_RemindedAt = None, i_ReminderCount = 0,
     i_MaintenancePending = False, i_Notice = False, i_AlertOwed = True\<rparr>"

definition owed_db :: database where
  "owed_db = \<lparr>db_rows = [], db_nextID = 1, db_held = [], db_nextHeld = 1, db_monitors = {7}, db_channels = {1, 2},
     db_incidents = [owed_incident 5, owed_incident 6], db_nextIncident = 7, db_maintAlerts = [],
     db_failures = Map.empty, db_heartbeats = [], db_unknown = Map.empty\<rparr>"

definition owed_intake :: intake where
  "owed_intake = \<lparr>it_db = owed_db, it_batches = [], it_stopped = False\<rparr>"

definition seven :: alertMonitor where
  "seven = \<lparr>am_ID = 7, am_Name = ''shop'', am_Type = ''http'', am_Target = ''https://shop''\<rparr>"

text \<open>A moment at which the given calls fail.\<close>

definition moment :: "int \<Rightarrow> int list \<Rightarrow> intake_call list \<Rightarrow> intake_env" where
  "moment s chs broken = \<lparr>ie_now = seconds s, ie_window = seconds 90, ie_muted = False,
     ie_channels = map (\<lambda>ch. (ch, True)) chs, ie_fails = (\<lambda>c. c \<in> set broken)\<rparr>"

definition first_alert :: "intake_env \<Rightarrow> int \<Rightarrow> intake \<Rightarrow> intake_call option \<times> intake" where
  "first_alert v i st = Enqueue v seven (owed_incident i) EventIncidentConfirmed (ie_now v) st"

lemma first_alert_accepted: "fst (first_alert (moment 0 [1, 2] []) 5 owed_intake) = None"
  by code_simp

lemma first_alert_reachable:
  "intake_reachable (seconds 90) {(1, 5), (2, 5)} (snd (first_alert (moment 0 [1, 2] []) 5 owed_intake))"
proof -
  have s: "intake_reachable (seconds 90) {} owed_intake"
    by (rule started) (simp_all add: owed_intake_def owed_db_def)
  have "intake_reachable (seconds 90)
      ({} \<union> accepted (moment 0 [1, 2] []) (owed_incident 5) EventIncidentConfirmed (it_db owed_intake) None)
      (snd (first_alert (moment 0 [1, 2] []) 5 owed_intake))"
    by (rule enqueued [OF s, where m = seven and seen = 0])
       (use first_alert_accepted in \<open>auto simp: first_alert_def moment_def ons_def seven_def owed_intake_def owed_db_def
          owedBy_def owed_def owed_incident_def prod_eq_iff\<close>)
  then show ?thesis
    by (simp add: accepted_def in_maintenance_def incident_of_def moment_def ons_def owed_intake_def owed_db_def
        owedBy_def owed_incident_def)
qed



text \<open>
  the condition is needed: a failed write can lose a first alert. Incident 6 is confirmed while the held copies
  cannot be written, so its batches of channels 1 and 2 carry the mark; channel 1's window, opened earlier by incident
  5, closes first and its write fails, which drops the batch; when channel 2's window closes its write succeeds and
  clears the mark, as no waiting batch carries it any more. The alert is then neither queued, held nor owed for
  channel 1, and no restart sends it.
\<close>

theorem failed_write_loses_owed_alert:
  "let st1 = snd (first_alert (moment 0 [1] []) 5 owed_intake);
       st2 = snd (first_alert (moment 60 [1, 2] [QHold]) 6 st1);
       st3 = flushDue (moment 100 [] [QEnqueue]) st2;
       st4 = flushDue (moment 160 [] []) st3
   in owed (it_db st3) 6 \<and> on_disk (it_db st4) 2 6 \<and> \<not> on_disk (it_db st4) 1 6 \<and> \<not> owed (it_db st4) 6"
  by code_simp

end
