(* ===== verification/Address.thy ===== *)
theory Address
  imports Text "HOL-Library.Word"
begin

unbundle bit_operations_syntax

text \<open>
  The part of Go's \<open>net/netip\<close> that the address guard and the trusted proxies use: addresses with their
  zones, the predicates, prefixes, parsing and rendering. An address is a 32-bit or a 128-bit word; the
  invalid \<open>Addr{}\<close> is None.
\<close>

section \<open>Addresses\<close>

datatype addr = V4 "32 word" | V6 "128 word" (zone: string)
  where "zone (V4 a) = []"

definition v6u16 :: "128 word \<Rightarrow> nat \<Rightarrow> nat" where
  "v6u16 a i = unat (drop_bit (112 - 16 * i) a AND 0xffff)"

definition v4byte :: "32 word \<Rightarrow> nat \<Rightarrow> nat" where
  "v4byte a i = unat (drop_bit (24 - 8 * i) a AND 0xff)"

fun Is4 :: "addr \<Rightarrow> bool" where
  "Is4 (V4 a) = True" | "Is4 (V6 a z) = False"

fun Is4In6 :: "addr \<Rightarrow> bool" where
  "Is4In6 (V4 a) = False" | "Is4In6 (V6 a z) = (drop_bit 32 a = 0xffff)"

fun Unmap :: "addr \<Rightarrow> addr" where
  "Unmap (V4 a) = V4 a" | "Unmap (V6 a z) = (if Is4In6 (V6 a z) then V4 (ucast a) else V6 a z)"

fun WithoutZone :: "addr \<Rightarrow> addr" where
  "WithoutZone (V4 a) = V4 a" | "WithoutZone (V6 a z) = V6 a []"

fun IsLoopback :: "addr \<Rightarrow> bool" where
  "IsLoopback (V4 a) = (v4byte a 0 = 127)" | "IsLoopback (V6 a z) = (a = 1)"

fun IsPrivate :: "addr \<Rightarrow> bool" where
  "IsPrivate (V4 a) = (v4byte a 0 = 10 \<or> v4byte a 0 = 172 \<and> drop_bit 4 (v4byte a 1) = 1 \<or>
     v4byte a 0 = 192 \<and> v4byte a 1 = 168)"
| "IsPrivate (V6 a z) = (drop_bit 9 (v6u16 a 0) = 0x7e)"

fun IsLinkLocalUnicast :: "addr \<Rightarrow> bool" where
  "IsLinkLocalUnicast (V4 a) = (v4byte a 0 = 169 \<and> v4byte a 1 = 254)"
| "IsLinkLocalUnicast (V6 a z) = (drop_bit 6 (v6u16 a 0) = 0x3fa)"

fun IsLinkLocalMulticast :: "addr \<Rightarrow> bool" where
  "IsLinkLocalMulticast (V4 a) = (v4byte a 0 = 224 \<and> v4byte a 1 = 0 \<and> v4byte a 2 = 0)"
| "IsLinkLocalMulticast (V6 a z) = (v6u16 a 0 AND 0xff0f = 0xff02)"

fun IsInterfaceLocalMulticast :: "addr \<Rightarrow> bool" where
  "IsInterfaceLocalMulticast (V4 a) = False"
| "IsInterfaceLocalMulticast (V6 a z) = (v6u16 a 0 AND 0xff0f = 0xff01)"

fun IsMulticast :: "addr \<Rightarrow> bool" where
  "IsMulticast (V4 a) = (drop_bit 4 (v4byte a 0) = 0xe)" | "IsMulticast (V6 a z) = (drop_bit 8 (v6u16 a 0) = 0xff)"

text \<open>\<open>IsUnspecified\<close> compares with \<open>IPv6Unspecified()\<close>, which has no zone.\<close>

fun IsUnspecified :: "addr \<Rightarrow> bool" where
  "IsUnspecified (V4 a) = (a = 0)" | "IsUnspecified (V6 a z) = (a = 0 \<and> z = [])"

section \<open>Prefixes\<close>

record prefix =
  pfx_addr :: addr
  pfx_bits :: nat

text \<open>\<open>Prefix.Contains\<close>: an address with a zone is in no prefix.\<close>

definition pfx_contains :: "prefix \<Rightarrow> addr \<Rightarrow> bool" where
  "pfx_contains p ip =
     (case (pfx_addr p, ip) of
        (V4 a, V4 b) \<Rightarrow> drop_bit (32 - pfx_bits p) (a XOR b) = 0
      | (V6 a z, V6 b z') \<Rightarrow> z' = [] \<and> drop_bit (128 - pfx_bits p) (a XOR b) = 0
      | _ \<Rightarrow> False)"

fun BitLen :: "addr \<Rightarrow> nat" where
  "BitLen (V4 a) = 32" | "BitLen (V6 a z) = 128"

definition PrefixFrom :: "addr \<Rightarrow> nat \<Rightarrow> prefix" where
  "PrefixFrom a n = \<lparr>pfx_addr = WithoutZone a, pfx_bits = n\<rparr>"

fun Masked :: "prefix \<Rightarrow> prefix" where
  "Masked p = (case pfx_addr p of
      V4 a \<Rightarrow> p\<lparr>pfx_addr := V4 (a AND NOT (mask (32 - pfx_bits p)))\<rparr>
    | V6 a z \<Rightarrow> p\<lparr>pfx_addr := V6 (a AND NOT (mask (128 - pfx_bits p))) []\<rparr>)"

lemma drop_bit_xor_0:
  fixes a b :: "'a::len word"
  shows "drop_bit k (a XOR b) = 0 \<longleftrightarrow> unat a div 2 ^ k = unat b div 2 ^ k"
proof -
  have "drop_bit k (a XOR b) = 0 \<longleftrightarrow> drop_bit k a = drop_bit k b"
    by (auto simp: bit_eq_iff bit_xor_iff bit_drop_bit_eq)
  also have "\<dots> \<longleftrightarrow> unat (drop_bit k a) = unat (drop_bit k b)" by (simp add: word_unat_eq_iff)
  finally show ?thesis unfolding unat_drop_bit_eq by (simp add: drop_bit_eq_div [where ?'a = nat])
qed

lemma pfx4: "pfx_contains (PrefixFrom (V4 p) n) (V4 b) \<longleftrightarrow> unat b div 2 ^ (32 - n) = unat p div 2 ^ (32 - n)"
  using drop_bit_xor_0 [of "32 - n" p b] by (auto simp add: pfx_contains_def PrefixFrom_def simp del: drop_bit_xor)

lemma pfx46 [simp]: "\<not> pfx_contains (PrefixFrom (V6 p z) n) (V4 b)" "\<not> pfx_contains (PrefixFrom (V4 q) n) (V6 c z)"
  by (simp_all add: pfx_contains_def PrefixFrom_def)

lemma pfx6: "pfx_contains (PrefixFrom (V6 p y) n) (V6 b []) \<longleftrightarrow> unat b div 2 ^ (128 - n) = unat p div 2 ^ (128 - n)"
  using drop_bit_xor_0 [of "128 - n" p b] by (auto simp add: pfx_contains_def PrefixFrom_def simp del: drop_bit_xor)

section \<open>Parsing\<close>

definition parse_octet :: "string \<Rightarrow> nat option" where
  "parse_octet s =
     (if s = [] \<or> \<not> list_all is_digit s \<or> (1 < length s \<and> hd s = CHR ''0'') \<or> 255 < decimal s then None
      else Some (decimal s))"

definition parse4 :: "string \<Rightarrow> 32 word option" where
  "parse4 s =
     (case map parse_octet (split_on CHR ''.'' s) of
        [Some a, Some b, Some c, Some d] \<Rightarrow> Some (of_nat (((a * 256 + b) * 256 + c) * 256 + d))
      | _ \<Rightarrow> None)"

definition hex_value :: "char \<Rightarrow> nat option" where
  "hex_value c =
     (let n = of_char c in
      if 48 \<le> n \<and> n \<le> 57 then Some (n - 48)
      else if 97 \<le> n \<and> n \<le> 102 then Some (n - 87)
      else if 65 \<le> n \<and> n \<le> 70 then Some (n - 55) else None)"

definition hexadecimal :: "string \<Rightarrow> nat" where
  "hexadecimal s = foldl (\<lambda>n c. 16 * n + (case hex_value c of None \<Rightarrow> 0 | Some k \<Rightarrow> k)) 0 s"

text \<open>
  The loop of \<open>parseIPv6\<close> over the fields; \<open>fs\<close> are the 16-bit fields read so far and \<open>ell\<close> the number
  of fields before the \<open>::\<close>. An IPv4 address at the end is two fields.
\<close>

function parse6_fields :: "string \<Rightarrow> nat list \<Rightarrow> nat option \<Rightarrow> (nat list \<times> nat option) option" where
  "parse6_fields s fs ell =
     (if 8 \<le> length fs then None
      else
        let h = takeWhile (\<lambda>c. hex_value c \<noteq> None) s; t = dropWhile (\<lambda>c. hex_value c \<noteq> None) s in
        if h = [] \<or> 4 < length h then None
        else if t \<noteq> [] \<and> hd t = CHR ''.'' then
          if (ell = None \<and> length fs \<noteq> 6) \<or> 6 < length fs then None
          else (case parse4 s of None \<Rightarrow> None
                | Some a \<Rightarrow> Some (fs @ [v4byte a 0 * 256 + v4byte a 1, v4byte a 2 * 256 + v4byte a 3], ell))
        else
          let fs' = fs @ [hexadecimal h] in
          case t of
            [] \<Rightarrow> Some (fs', ell)
          | c # u \<Rightarrow>
              if c \<noteq> CHR '':'' \<or> u = [] then None
              else if hd u = CHR '':'' then
                if ell \<noteq> None then None
                else if tl u = [] then Some (fs', Some (length fs'))
                else if length fs' = 8 then None
                else parse6_fields (tl u) fs' (Some (length fs'))
              else if length fs' = 8 then None else parse6_fields u fs' ell)"
  by pat_completeness auto
termination
proof (relation "measure (\<lambda>(s, fs, ell). length s)")
  have t: "length (dropWhile P s) \<le> length s" for P :: "char \<Rightarrow> bool" and s by (simp add: length_dropWhile_le)
  show "wf (measure (\<lambda>(s, fs, ell). length s))" by simp
  fix s :: string and fs :: "nat list" and ell :: "nat option" and h t :: string and c u fs'
  assume "t = dropWhile (\<lambda>c. hex_value c \<noteq> None) s" and "t = c # u" and "\<not> (c \<noteq> CHR '':'' \<or> u = [])"
  then have "length (c # u) \<le> length s" using t by metis
  then show "((tl u, fs', Some (length fs')), s, fs, ell) \<in> measure (\<lambda>(s, fs, ell). length s)"
    "((u, fs', ell), s, fs, ell) \<in> measure (\<lambda>(s, fs, ell). length s)" by auto
qed

definition groups_value :: "nat list \<Rightarrow> 128 word" where
  "groups_value fs = of_nat (foldl (\<lambda>n f. n * 65536 + f) 0 fs)"

definition parse6_groups :: "string \<Rightarrow> nat list option" where
  "parse6_groups s =
     (case (if take 2 s = ''::'' then if drop 2 s = [] then Some ([], Some 0) else parse6_fields (drop 2 s) [] (Some 0)
            else parse6_fields s [] None) of
        None \<Rightarrow> None
      | Some (fs, None) \<Rightarrow> if length fs = 8 then Some fs else None
      | Some (fs, Some e) \<Rightarrow>
          if 8 \<le> length fs then None else Some (take e fs @ replicate (8 - length fs) 0 @ drop e fs))"

definition parse6 :: "string \<Rightarrow> addr option" where
  "parse6 s =
     (let body = takeWhile (\<lambda>c. c \<noteq> CHR ''%'') s; z = dropWhile (\<lambda>c. c \<noteq> CHR ''%'') s in
      if z \<noteq> [] \<and> tl z = [] then None
      else map_option (\<lambda>fs. V6 (groups_value fs) (if z = [] then [] else tl z)) (parse6_groups body))"

text \<open>\<open>ParseAddr\<close>: the first of the three characters decides which form is read.\<close>

definition ParseAddr :: "string \<Rightarrow> addr option" where
  "ParseAddr s =
     (case dropWhile (\<lambda>c. c \<notin> {CHR ''.'', CHR '':'', CHR ''%''}) s of
        [] \<Rightarrow> None
      | c # _ \<Rightarrow> if c = CHR ''.'' then map_option V4 (parse4 s) else if c = CHR '':'' then parse6 s else None)"

definition ParseAddrPort :: "string \<Rightarrow> (addr \<times> nat) option" where
  "ParseAddrPort s =
     (case cut_last CHR '':'' s of
        None \<Rightarrow> None
      | Some (ip, port) \<Rightarrow>
          if ip = [] \<or> port = [] then None
          else
            let bracket = (hd ip = CHR ''['') in
            if bracket \<and> (length ip < 2 \<or> last ip \<noteq> CHR '']'') then None
            else case (ParseUint 16 port, ParseAddr (if bracket then butlast (tl ip) else ip)) of
              (Some p, Some a) \<Rightarrow> if bracket = Is4 a then None else Some (a, p)
            | _ \<Rightarrow> None)"

definition ParsePrefix :: "string \<Rightarrow> prefix option" where
  "ParsePrefix s =
     (case cut_last CHR ''/'' s of
        None \<Rightarrow> None
      | Some (ip, bits) \<Rightarrow>
          case ParseAddr ip of
            None \<Rightarrow> None
          | Some a \<Rightarrow>
              if zone a \<noteq> [] then None
              else if 1 < length bits \<and> (\<not> is_digit (hd bits) \<or> hd bits = CHR ''0'') then None
              else case ParseInt bits of
                None \<Rightarrow> None
              | Some n \<Rightarrow> if n < 0 \<or> int (BitLen a) < n then None else Some (PrefixFrom a (nat n)))"

section \<open>Rendering\<close>

definition hex_digit :: "nat \<Rightarrow> char" where
  "hex_digit n = (if n < 10 then char_of (48 + n) else char_of (87 + n))"

fun hex_digits :: "nat \<Rightarrow> string" where
  "hex_digits n = (if n < 16 then [hex_digit n] else hex_digits (n div 16) @ [hex_digit (n mod 16)])"

declare hex_digits.simps [simp del]

definition zero_run :: "nat list \<Rightarrow> nat" where
  "zero_run gs = length (takeWhile (\<lambda>g. g = 0) gs)"

text \<open>The first longest run of at least two zero fields, as its start and length; the last fold wins only when longer.\<close>

definition longest_run :: "nat list \<Rightarrow> nat \<times> nat" where
  "longest_run gs = foldl (\<lambda>(i, l) j. let k = zero_run (drop j gs) in if 2 \<le> k \<and> l < k then (j, k) else (i, l)) (8, 0) [0..<8]"

definition addr_string :: "addr \<Rightarrow> string" where
  "addr_string a =
     (case a of
        V4 w \<Rightarrow> join_with ''.'' (map (\<lambda>i. digits (v4byte w i)) [0..<4])
      | V6 w z \<Rightarrow>
          let suffix = (if z = [] then [] else ''%'' @ z) in
          if Is4In6 a then ''::ffff:'' @ join_with ''.'' (map (\<lambda>i. digits (v4byte (ucast w) i)) [0..<4]) @ suffix
          else
            let gs = map (v6u16 w) [0..<8]; (i, k) = longest_run gs in
            (if k = 0 then join_with '':'' (map hex_digits gs)
             else join_with '':'' (map hex_digits (take i gs)) @ ''::'' @ join_with '':'' (map hex_digits (drop (i + k) gs)))
            @ suffix)"

section \<open>Evaluation\<close>

lemma replicate_numeral [simp]: "replicate (numeral k) x = x # replicate (pred_numeral k) x"
  by (simp add: numeral_eq_Suc)

lemmas parse_address = ParseAddr_def parse6_def parse6_groups_def parse6_fields.simps groups_value_def
  hex_value_def hexadecimal_def

end
