(* ===== verification/Guard.thy ===== *)
theory Guard
  imports Address
begin

text \<open>
  The guard on what a check may connect to (\<open>internal/checker/guard.go\<close>). Name resolution is an argument;
  the errors of the code differ in their text only by the class of address they name.
\<close>

section \<open>The guard\<close>

datatype guard_error =
    InvalidAddress | LoopbackAddress | PrivateAddress | LinkLocalAddress | UnspecifiedAddress
  | MulticastAddress | InterfaceLocalAddress | ReservedAddress | Unresolved | BadAddress

definition reservedPrefixes :: "prefix list" where
  "reservedPrefixes =
     [PrefixFrom (V4 0) 8, PrefixFrom (V4 0x64400000) 10, PrefixFrom (V4 0xC0000000) 24, PrefixFrom (V4 0xC0000200) 24,
      PrefixFrom (V4 0xC0586300) 24, PrefixFrom (V4 0xC6120000) 15, PrefixFrom (V4 0xC6336400) 24,
      PrefixFrom (V4 0xCB007100) 24, PrefixFrom (V4 0xF0000000) 4, PrefixFrom (V4 0xFFFFFFFF) 32,
      PrefixFrom (V6 0 []) 128, PrefixFrom (V6 0x0064FF9B000000000000000000000000 []) 96,
      PrefixFrom (V6 0x01000000000000000000000000000000 []) 64, PrefixFrom (V6 0x20010DB8000000000000000000000000 []) 32,
      PrefixFrom (V6 0xFC000000000000000000000000000000 []) 7]"

definition CheckAddr :: "bool \<Rightarrow> addr option \<Rightarrow> guard_error option" where
  "CheckAddr allowPrivate ip =
     (if allowPrivate then None
      else case ip of
        None \<Rightarrow> Some InvalidAddress
      | Some a \<Rightarrow>
          let b = (if Is4In6 a then Unmap a else a) in
          if IsLoopback b then Some LoopbackAddress
          else if IsPrivate b then Some PrivateAddress
          else if IsLinkLocalUnicast b \<or> IsLinkLocalMulticast b then Some LinkLocalAddress
          else if IsUnspecified b then Some UnspecifiedAddress
          else if IsMulticast b then Some MulticastAddress
          else if IsInterfaceLocalMulticast b then Some InterfaceLocalAddress
          else if list_ex (\<lambda>p. pfx_contains p b) reservedPrefixes then Some ReservedAddress
          else None)"

text \<open>\<open>net.SplitHostPort\<close>, of which only the host is used.\<close>

definition SplitHost :: "string \<Rightarrow> string option" where
  "SplitHost s =
     (case cut_last CHR '':'' s of
        None \<Rightarrow> None
      | Some (before, port) \<Rightarrow>
          if s \<noteq> [] \<and> hd s = CHR ''['' then
            let host = takeWhile (\<lambda>c. c \<noteq> CHR '']'') (tl s) in
            if before \<noteq> ''['' @ host @ '']'' \<or> CHR ''['' \<in> set (tl s) \<or> CHR '']'' \<in> set port then None else Some host
          else if CHR '':'' \<in> set before \<or> CHR ''['' \<in> set s \<or> CHR '']'' \<in> set s then None
          else Some before)"

definition ControlFunc :: "bool \<Rightarrow> string \<Rightarrow> guard_error option" where
  "ControlFunc allowPrivate address =
     (case SplitHost address of
        None \<Rightarrow> Some BadAddress
      | Some host \<Rightarrow>
          case ParseAddr host of None \<Rightarrow> Some BadAddress | Some a \<Rightarrow> CheckAddr allowPrivate (Some a))"

fun first_refused :: "bool \<Rightarrow> addr list \<Rightarrow> guard_error option" where
  "first_refused allowPrivate [] = None"
| "first_refused allowPrivate (a # as) =
     (case CheckAddr allowPrivate (Some a) of None \<Rightarrow> first_refused allowPrivate as | Some err \<Rightarrow> Some err)"

definition CheckHost :: "(string \<Rightarrow> addr list option) \<Rightarrow> bool \<Rightarrow> string \<Rightarrow> guard_error option" where
  "CheckHost lookup allowPrivate host =
     (if allowPrivate then None
      else case ParseAddr host of
        Some a \<Rightarrow> CheckAddr allowPrivate (Some a)
      | None \<Rightarrow>
          case lookup host of
            None \<Rightarrow> Some Unresolved
          | Some as \<Rightarrow> if as = [] then Some Unresolved else first_refused allowPrivate as)"

section \<open>The addresses it refuses\<close>

text \<open>The same ranges as intervals of numbers.\<close>

definition internal4 :: "(nat \<times> nat) list" where
  "internal4 =
     [(0, 0x00FFFFFF), (0x0A000000, 0x0AFFFFFF), (0x64400000, 0x647FFFFF), (0x7F000000, 0x7FFFFFFF),
      (0xA9FE0000, 0xA9FEFFFF), (0xAC100000, 0xAC1FFFFF), (0xC0000000, 0xC00000FF), (0xC0000200, 0xC00002FF),
      (0xC0586300, 0xC05863FF), (0xC0A80000, 0xC0A8FFFF), (0xC6120000, 0xC613FFFF), (0xC6336400, 0xC63364FF),
      (0xCB007100, 0xCB0071FF), (0xE0000000, 0xEFFFFFFF),
      (0xF0000000, 0xFFFFFFFF)]"

definition internal6 :: "(nat \<times> nat) list" where
  "internal6 =
     [(0, 0), (1, 1), (0x0064FF9B000000000000000000000000, 0x0064FF9B0000000000000000FFFFFFFF),
      (0x01000000000000000000000000000000, 0x0100000000000000FFFFFFFFFFFFFFFF),
      (0x20010DB8000000000000000000000000, 0x20010DB8FFFFFFFFFFFFFFFFFFFFFFFF),
      (0xFC000000000000000000000000000000, 0xFDFFFFFFFFFFFFFFFFFFFFFFFFFFFFFF),
      (0xFE800000000000000000000000000000, 0xFEBFFFFFFFFFFFFFFFFFFFFFFFFFFFFF),
      (0xFF000000000000000000000000000000, 0xFFFFFFFFFFFFFFFFFFFFFFFFFFFFFFFF)]"

definition in_ranges :: "nat \<Rightarrow> (nat \<times> nat) list \<Rightarrow> bool" where
  "in_ranges n rs \<longleftrightarrow> list_ex (\<lambda>(lo, hi). lo \<le> n \<and> n \<le> hi) rs"

definition internal :: "addr \<Rightarrow> bool" where
  "internal a = (case Unmap a of V4 w \<Rightarrow> in_ranges (unat w) internal4 | V6 w z \<Rightarrow> in_ranges (unat w) internal6)"

lemma v4byte_eq: "v4byte a i = unat a div 2 ^ (24 - 8 * i) mod 256"
proof -
  have "(0xff :: 32 word) = mask 8" by (simp add: mask_eq_exp_minus_1)
  then have "v4byte a i = unat (take_bit 8 (drop_bit (24 - 8 * i) a))" by (simp add: v4byte_def take_bit_eq_mask)
  then show ?thesis unfolding unsigned_take_bit_eq unat_drop_bit_eq
    by (simp add: drop_bit_eq_div [where ?'a = nat] take_bit_eq_mod [where ?'a = nat])
qed

lemma v6u16_eq: "v6u16 a i = unat a div 2 ^ (112 - 16 * i) mod 65536"
proof -
  have "(0xffff :: 128 word) = mask 16" by (simp add: mask_eq_exp_minus_1)
  then have "v6u16 a i = unat (take_bit 16 (drop_bit (112 - 16 * i) a))" by (simp add: v6u16_def take_bit_eq_mask)
  then show ?thesis unfolding unsigned_take_bit_eq unat_drop_bit_eq
    by (simp add: drop_bit_eq_div [where ?'a = nat] take_bit_eq_mod [where ?'a = nat])
qed

lemma div_interval: "0 < d \<Longrightarrow> (n::nat) div d = q \<longleftrightarrow> q * d \<le> n \<and> n \<le> q * d + (d - 1)"
proof -
  assume d: "0 < d"
  have "n div d = q \<longleftrightarrow> q \<le> n div d \<and> n div d < Suc q" by auto
  also have "\<dots> \<longleftrightarrow> q * d \<le> n \<and> n < Suc q * d" using d by (simp add: less_eq_div_iff_mult_less_eq div_less_iff_less_mult)
  finally show ?thesis using d by auto
qed

lemma CheckAddr_None:
  "CheckAddr False (Some a) = None \<longleftrightarrow>
     (let b = Unmap a in
      \<not> IsLoopback b \<and> \<not> IsPrivate b \<and> \<not> IsLinkLocalUnicast b \<and> \<not> IsLinkLocalMulticast b \<and> \<not> IsUnspecified b \<and>
      \<not> IsMulticast b \<and> \<not> IsInterfaceLocalMulticast b \<and> \<not> list_ex (\<lambda>p. pfx_contains p b) reservedPrefixes)"
proof -
  have "(if Is4In6 a then Unmap a else a) = Unmap a" by (cases a) auto
  then show ?thesis unfolding CheckAddr_def Let_def by simp
qed

lemma split_byte: "x div 256 = p \<and> x mod 256 = q \<longleftrightarrow> q < 256 \<and> x = p * 256 + (q :: nat)"
  using div_mult_mod_eq [of x 256] by auto

lemma split_nibble: "x div 256 = p \<and> x mod 256 div 16 = q \<longleftrightarrow> q < 16 \<and> x div 16 = p * 16 + (q :: nat)"
proof -
  have "x div 256 = x div 16 div 16" "x mod 256 div 16 = x div 16 mod 16"
    using div_mult2_eq [of x 16 16] mod_mult2_eq [of x 16 16] by simp_all
  then show ?thesis using div_mult_mod_eq [of "x div 16" 16] by auto
qed

lemma unat_lt4: "unat (a :: 32 word) < 4294967296" 
  using unsigned_less [of a, where ?'a = nat] by simp

lemma top_byte: "v4byte a 0 = unat a div 65536 div 256"
  using unat_lt4 [of a] by (simp add: v4byte_eq div_less_iff_less_mult div_mult2_eq [symmetric])

lemma second_byte: "v4byte a (Suc 0) = unat a div 65536 mod 256"
  by (simp add: v4byte_eq)

lemma private4: "IsPrivate (V4 a) \<longleftrightarrow> unat a div 16777216 = 10 \<or> unat a div 1048576 = 2753 \<or> unat a div 65536 = 49320"
  using split_byte [of "unat a div 65536" 192 168] split_nibble [of "unat a div 65536" 172 1]
  by (simp add: top_byte second_byte drop_bit_eq_div [where ?'a = nat] div_mult2_eq [symmetric])

lemma link4: "IsLinkLocalUnicast (V4 a) \<longleftrightarrow> unat a div 65536 = 43518"
  using split_byte [of "unat a div 65536" 169 254] by (simp add: top_byte second_byte)

lemma multicast4: "IsMulticast (V4 a) \<longleftrightarrow> unat a div 268435456 = 14"
  by (simp add: top_byte drop_bit_eq_div [where ?'a = nat] div_mult2_eq [symmetric])

lemma loopback4: "IsLoopback (V4 a) \<longleftrightarrow> unat a div 16777216 = 127"
  by (simp add: top_byte div_mult2_eq [symmetric])

lemma link_multicast4: "IsLinkLocalMulticast (V4 a) \<Longrightarrow> IsMulticast (V4 a)"
  by (simp add: drop_bit_eq_div [where ?'a = nat])

lemma unspecified4: "IsUnspecified (V4 a) \<Longrightarrow> unat a div 16777216 = 0"
  by simp

lemma reserved4: "list_ex (\<lambda>p. pfx_contains p (V4 a)) reservedPrefixes \<longleftrightarrow>
   unat a div 16777216 = 0 \<or> unat a div 4194304 = 401 \<or> unat a div 256 = 12582912 \<or> unat a div 256 = 12582914 \<or>
   unat a div 256 = 12605539 \<or> unat a div 131072 = 25353 \<or> unat a div 256 = 12989284 \<or>
   unat a div 256 = 13303921 \<or> unat a div 268435456 = 15 \<or> unat a = 4294967295"
  unfolding reservedPrefixes_def by (simp add: pfx4)

lemma guard4: "CheckAddr False (Some (V4 a)) = None \<longleftrightarrow> \<not> in_ranges (unat a) internal4"
proof -
  have "CheckAddr False (Some (V4 a)) = None \<longleftrightarrow>
    \<not> (IsLoopback (V4 a) \<or> IsPrivate (V4 a) \<or> IsLinkLocalUnicast (V4 a) \<or> IsMulticast (V4 a) \<or>
       list_ex (\<lambda>p. pfx_contains p (V4 a)) reservedPrefixes)"
    using link_multicast4 [of a] unspecified4 [of a] unfolding CheckAddr_None Unmap.simps Let_def reserved4
      IsInterfaceLocalMulticast.simps by blast
  also have "\<dots> \<longleftrightarrow> \<not> in_ranges (unat a) internal4"
    using unat_lt4 [of a] unfolding private4 link4 multicast4 loopback4 reserved4
    apply (simp add: div_interval in_ranges_def internal4_def del: de_Morgan_disj) by (rule iffI; elim disjE; simp)
  finally show ?thesis .
qed


section \<open>IPv6\<close>

lemma between_eq: "k \<le> n \<and> n \<le> k \<longleftrightarrow> n = (k :: nat)"
  by auto

lemma unat_lt6: "unat (a :: 128 word) < 2 ^ 128"
  using unsigned_less [of a, where ?'a = nat] by simp

lemma group0: "v6u16 a 0 = unat a div 2 ^ 112"
  using unat_lt6 [of a] by (simp add: v6u16_eq div_less_iff_less_mult)

lemma loopback6: "IsLoopback (V6 a z) \<longleftrightarrow> unat a = 1"
  by (simp add: word_unat_eq_iff)

lemma private6: "IsPrivate (V6 a z) \<longleftrightarrow> unat a div 2 ^ 121 = 126"
  by (simp add: group0 drop_bit_eq_div [where ?'a = nat] div_mult2_eq [symmetric])

lemma link6: "IsLinkLocalUnicast (V6 a z) \<longleftrightarrow> unat a div 2 ^ 118 = 1018"
  by (simp add: group0 drop_bit_eq_div [where ?'a = nat] div_mult2_eq [symmetric])

lemma multicast6: "IsMulticast (V6 a z) \<longleftrightarrow> unat a div 2 ^ 120 = 255"
  by (simp add: group0 drop_bit_eq_div [where ?'a = nat] div_mult2_eq [symmetric])

lemma masked_ff: "(n :: nat) AND 0xff0f = m \<Longrightarrow> n < 65536 \<Longrightarrow> drop_bit 8 m = 0xff \<Longrightarrow> drop_bit 8 n = 0xff"
proof -
  assume n: "n AND 0xff0f = m" "n < 65536" "drop_bit 8 m = 0xff"
  have "drop_bit 8 n < 256" using n(2) by (simp add: drop_bit_eq_div div_less_iff_less_mult)
  moreover have "drop_bit 8 m = drop_bit 8 n AND drop_bit 8 0xff0f" unfolding n(1) [symmetric] by (rule drop_bit_and)
  then have "drop_bit 8 n AND mask 8 = 0xff" using n(3) by (simp add: mask_eq_exp_minus_1)
  ultimately show ?thesis by (simp add: take_bit_eq_mask [symmetric] take_bit_nat_eq_self)
qed

lemma special_multicast6:
  assumes "IsLinkLocalMulticast (V6 a z) \<or> IsInterfaceLocalMulticast (V6 a z)" shows "IsMulticast (V6 a z)"
proof -
  have "v6u16 a 0 < 65536" by (simp add: v6u16_eq)
  then show ?thesis using assms masked_ff [of "v6u16 a 0"] by (auto simp: drop_bit_eq_div [where ?'a = nat])
qed

lemma reserved6: "list_ex (\<lambda>p. pfx_contains p (V6 a [])) reservedPrefixes \<longleftrightarrow>
   unat a = 0 \<or> unat a div 2 ^ 32 = 0x0064FF9B0000000000000000 \<or> unat a div 2 ^ 64 = 0x0100000000000000 \<or>
   unat a div 2 ^ 96 = 0x20010DB8 \<or> unat a div 2 ^ 121 = 126"
  unfolding reservedPrefixes_def by (simp add: pfx6)

lemma guard6:
  assumes "\<not> Is4In6 (V6 a [])"
  shows "CheckAddr False (Some (V6 a [])) = None \<longleftrightarrow> \<not> in_ranges (unat a) internal6"
proof -
  have um: "Unmap (V6 a []) = V6 a []" using assms by simp
  have un: "IsUnspecified (V6 a []) \<Longrightarrow> unat a = 0" by simp
  have "CheckAddr False (Some (V6 a [])) = None \<longleftrightarrow>
    \<not> (IsLoopback (V6 a []) \<or> IsPrivate (V6 a []) \<or> IsLinkLocalUnicast (V6 a []) \<or> IsMulticast (V6 a []) \<or>
       list_ex (\<lambda>p. pfx_contains p (V6 a [])) reservedPrefixes)"
    using special_multicast6 [of a "[]"] un unfolding CheckAddr_None um Let_def reserved6 by blast
  also have "\<dots> \<longleftrightarrow> \<not> in_ranges (unat a) internal6"
    using unat_lt6 [of a] unfolding private6 link6 multicast6 loopback6 reserved6
    by (simp add: div_interval in_ranges_def internal6_def between_eq del: de_Morgan_disj One_nat_def) (rule iffI; elim disjE; simp)
  finally show ?thesis .
qed

section \<open>Properties\<close>

text \<open>
  C18: the guard admits exactly the public addresses. An address without a zone, IPv4, IPv6 or IPv4 in IPv6 form,
  passes precisely when its number lies in none of the reserved, private, loopback, link-local and multicast
  ranges, and an IPv4 address in IPv6 form is judged by the IPv4 address it stands for.
\<close>

theorem guard_admits_only_public:
  assumes "zone a = []"
  shows "CheckAddr False (Some a) = None \<longleftrightarrow> \<not> internal a"
proof (cases "Unmap a")
  case (V4 w)
  have "CheckAddr False (Some a) = None \<longleftrightarrow> CheckAddr False (Some (V4 w)) = None"
    by (simp add: CheckAddr_None V4)
  then show ?thesis by (simp add: guard4 internal_def V4)
next
  case (V6 w z)
  then have a: "a = V6 w []" "\<not> Is4In6 (V6 w [])" using assms by (cases a; simp split: if_splits)+
  then show ?thesis using guard6 [of w] by (simp add: internal_def)
qed



theorem guard_admits_only_public_witness:
  "CheckAddr False (Some (V6 0xFFFF0A000001 [])) \<noteq> None \<and> CheckAddr False (Some (V4 0x08080808)) = None"
  using guard_admits_only_public [of "V6 0xFFFF0A000001 []"] guard_admits_only_public [of "V4 0x08080808"]
  by (simp add: internal_def in_ranges_def internal4_def)

text \<open>
  the hypothesis is needed: an IPv6 address with a zone is in no prefix and is not the unspecified address, so
  the ranges that only the list of prefixes and that predicate cover are reachable by writing a zone after the
  address. The unspecified address, which connects to this host, and the NAT64 form of 10.0.0.1 are refused as
  they are and pass with the zone lo.
\<close>

theorem zoned_addresses_pass_the_guard:
  "ControlFunc False ''[::%lo]:80'' = None \<and> ControlFunc False ''[64:ff9b::a00:1%lo]:80'' = None \<and> 
   ControlFunc False ''[::]:80'' \<noteq> None \<and> ControlFunc False ''[64:ff9b::a00:1]:80'' \<noteq> None"
  by (simp add: ControlFunc_def SplitHost_def parse_address CheckAddr_None reservedPrefixes_def pfx_contains_def PrefixFrom_def v6u16_def)

end
