(* ===== verification/TrustedProxy.thy ===== *)
theory TrustedProxy
  imports Address
begin

text \<open>
  Whose forwarding headers are believed (\<open>internal/trustedproxy\<close>): the set of trusted peers, read from its
  configuration, and the walk over \<open>X-Forwarded-For\<close> that decides which address a request came from.
\<close>

section \<open>The set\<close>

fun parse_fields :: "string list \<Rightarrow> string + prefix list" where
  "parse_fields [] = Inr []"
| "parse_fields (f # fs) =
     (let field = TrimSpace f in
      if field = [] then parse_fields fs
      else
        case (if CHR ''/'' \<in> set field then map_option Masked (ParsePrefix field)
              else map_option (\<lambda>a. PrefixFrom a (BitLen a)) (ParseAddr field)) of
          None \<Rightarrow> Inl field
        | Some p \<Rightarrow> (case parse_fields fs of Inl e \<Rightarrow> Inl e | Inr ps \<Rightarrow> Inr (p # ps)))"

definition ParseSet :: "string \<Rightarrow> string + prefix list" where
  "ParseSet spec = parse_fields (split_on CHR '','' spec)"

definition contains_addr :: "prefix list \<Rightarrow> addr \<Rightarrow> bool" where
  "contains_addr s a \<longleftrightarrow> list_ex (\<lambda>p. pfx_contains p (Unmap a)) s"

definition Contains :: "prefix list \<Rightarrow> string \<Rightarrow> bool" where
  "Contains s ip \<longleftrightarrow> s \<noteq> [] \<and> (case ParseAddr ip of None \<Rightarrow> False | Some a \<Rightarrow> contains_addr s a)"

section \<open>The walk\<close>

definition parseHop :: "string \<Rightarrow> addr option" where
  "parseHop hop =
     (case ParseAddr hop of Some a \<Rightarrow> Some a | None \<Rightarrow> map_option fst (ParseAddrPort hop))"

definition sameHost :: "addr \<Rightarrow> addr \<Rightarrow> bool" where
  "sameHost a b \<longleftrightarrow> WithoutZone (Unmap a) = WithoutZone (Unmap b)"

definition canonical :: "addr \<Rightarrow> string" where
  "canonical a = addr_string (WithoutZone (Unmap a))"

text \<open>The client found so far, the addresses read, and whether the chain named any hop.\<close>

record chain =
  ch_client :: "addr option"
  ch_read :: "addr list"
  ch_present :: bool

definition last_entry :: "string \<Rightarrow> string \<times> string" where
  "last_entry line = (case cut_last CHR '','' line of None \<Rightarrow> (line, []) | Some (a, b) \<Rightarrow> (b, a))"

text \<open>One line from the right; True when the walk is over.\<close>

function chain_line :: "prefix list \<Rightarrow> string \<Rightarrow> chain \<Rightarrow> bool \<times> chain" where
  "chain_line s line w =
     (if line = [] then (False, w)
      else
        let entry = TrimSpace (fst (last_entry line)); before = snd (last_entry line) in
        if entry = [] then chain_line s before w
        else case parseHop entry of
          None \<Rightarrow> (True, w\<lparr>ch_present := True\<rparr>)
        | Some a \<Rightarrow>
            let w' = \<lparr>ch_client = Some a, ch_read = ch_read w @ [a], ch_present = True\<rparr> in
            if \<not> contains_addr s a then (True, w') else chain_line s before w')"
  by auto
termination
proof (relation "measure (\<lambda>(s, line, w). length line)")
  have shorter: "line \<noteq> [] \<Longrightarrow> length (snd (last_entry line)) < length line" for line
    by (auto simp: last_entry_def split: option.split dest: cut_last_Some)
  show "wf (measure (\<lambda>(s, line, w). length line))" by simp
  fix s :: "prefix list" and line entry before :: string and w w' :: chain and a
  assume "line \<noteq> []" "before = snd (last_entry line)"
  then show "((s, before, w), s, line, w) \<in> measure (\<lambda>(s, line, w). length line)"
    "((s, before, w'), s, line, w) \<in> measure (\<lambda>(s, line, w). length line)"
    using shorter [of line] by auto
qed

declare chain_line.simps [simp del]

fun chain_lines :: "prefix list \<Rightarrow> string list \<Rightarrow> chain \<Rightarrow> chain" where
  "chain_lines s [] w = w"
| "chain_lines s (l # ls) w = (let (over, w') = chain_line s l w in if over then w' else chain_lines s ls w')"

definition fromChain :: "prefix list \<Rightarrow> string list \<Rightarrow> chain" where
  "fromChain s lines = chain_lines s (rev lines) \<lparr>ch_client = None, ch_read = [], ch_present = False\<rparr>"

definition ClientAddr :: "prefix list \<Rightarrow> string \<Rightarrow> string list \<Rightarrow> string \<Rightarrow> string" where
  "ClientAddr s peer forwardedFor realIP =
     (case parseHop peer of
        None \<Rightarrow> peer
      | Some p \<Rightarrow>
          if \<not> contains_addr s p then canonical p
          else
            let real = parseHop (TrimSpace realIP); w = fromChain s forwardedFor in
            if ch_present w then
              case ch_client w of
                None \<Rightarrow> canonical p
              | Some client \<Rightarrow>
                  (case real of
                     None \<Rightarrow> canonical client
                   | Some r \<Rightarrow> if list_ex (\<lambda>hop. sameHost hop r) (ch_read w) then canonical client else canonical p)
            else case real of None \<Rightarrow> canonical p | Some r \<Rightarrow> canonical r)"

section \<open>What a client writes before the proxies is not read\<close>

lemma last_entry_append:
  "t \<noteq> [] \<Longrightarrow> last_entry (junk @ CHR '','' # t) =
     (fst (last_entry t), if CHR '','' \<in> set t then junk @ CHR '','' # snd (last_entry t) else junk)"
proof (cases "cut_last CHR '','' t")
  case None
  then have "CHR '','' \<notin> set t" by (simp add: cut_last_None)
  then show ?thesis using cut_last_append [of "CHR '',''" t junk] None by (simp add: last_entry_def)
next
  case (Some x)
  obtain a b where x: "x = (a, b)" by (cases x)
  have t: "t = a @ CHR '','' # b" "CHR '','' \<notin> set b" using cut_last_Some Some x by blast+
  then show ?thesis using cut_last_append [of "CHR '',''" b "junk @ CHR '','' # a"] Some x by (simp add: last_entry_def)
qed

text \<open>One entry, with what is done when the walk goes on.\<close>

definition step_entry :: "prefix list \<Rightarrow> string \<Rightarrow> (chain \<Rightarrow> bool \<times> chain) \<Rightarrow> chain \<Rightarrow> bool \<times> chain" where
  "step_entry s e k w =
     (if TrimSpace e = [] then k w
      else case parseHop (TrimSpace e) of
        None \<Rightarrow> (True, w\<lparr>ch_present := True\<rparr>)
      | Some a \<Rightarrow>
          let w' = \<lparr>ch_client = Some a, ch_read = ch_read w @ [a], ch_present = True\<rparr> in
          if \<not> contains_addr s a then (True, w') else k w')"

lemma chain_line_step:
  "line \<noteq> [] \<Longrightarrow> chain_line s line w = step_entry s (fst (last_entry line)) (chain_line s (snd (last_entry line))) w"
  by (subst chain_line.simps) (simp add: step_entry_def Let_def)

lemma step_entry_over:
  assumes "step_entry s e k w = (True, w')" "\<And>u. k u = (True, w') \<Longrightarrow> k' u = (True, w')"
  shows "step_entry s e k' w = (True, w')"
  using assms by (auto simp: step_entry_def Let_def split: option.splits if_splits)

lemma chain_line_Nil [simp]: "chain_line s [] w = (False, w)"
  by (simp add: chain_line.simps)

text \<open>A walk that ends in a line ends there whatever stands to the left of it.\<close>

lemma chain_line_junk:
  "chain_line s t w = (True, w') \<Longrightarrow> chain_line s (junk @ CHR '','' # t) w = (True, w')"
proof (induction "length t" arbitrary: t w rule: less_induct)
  case less
  have ne: "t \<noteq> []" using less(2) by auto
  let ?b = "snd (last_entry t)" and ?b' = "snd (last_entry (junk @ CHR '','' # t))"
  have b: "chain_line s ?b' u = (True, w')" if "chain_line s ?b u = (True, w')" for u
  proof (cases "CHR '','' \<in> set t")
    case True
    then have "length ?b < length t"
      using cut_last_None [of "CHR '',''" t] by (auto simp: last_entry_def split: option.split dest: cut_last_Some)
    then show ?thesis using less(1) that True by (simp add: last_entry_append [OF ne])
  next
    case False
    then have "?b = []" by (simp add: last_entry_def cut_last_None [symmetric])
    then show ?thesis using that by simp
  qed
  have "step_entry s (fst (last_entry t)) (chain_line s ?b) w = (True, w')" using less(2) by (simp add: chain_line_step [OF ne])
  then have "step_entry s (fst (last_entry t)) (chain_line s ?b') w = (True, w')" by (rule step_entry_over) (rule b)
  then show ?case by (subst chain_line_step) (simp_all add: last_entry_append [OF ne])
qed

text \<open>A walk that does not end in a line has read trusted addresses only.\<close>

lemma chain_line_inside:
  "chain_line s t w = (False, w') \<Longrightarrow> ch_client w' = ch_client w \<or> (\<exists>a. ch_client w' = Some a \<and> contains_addr s a)"
proof (induction "length t" arbitrary: t w rule: less_induct)
  case less
  show ?case
  proof (cases "t = []")
    case True
    then show ?thesis using less(2) by simp
  next
    case False
    have "length (snd (last_entry t)) < length t"
      using False by (auto simp: last_entry_def split: option.split dest: cut_last_Some)
    note IH = less(1) [OF this]
    show ?thesis using less(2) IH unfolding chain_line_step [OF False]
      by (fastforce simp: step_entry_def Let_def split: option.splits if_splits)
  qed
qed

lemma chain_lines_junk:
  assumes "chain_lines s (ls @ [t]) w = w'" "ch_client w' = Some c" "\<not> contains_addr s c"
    and "\<forall>a. ch_client w = Some a \<longrightarrow> contains_addr s a"
  shows "chain_lines s (ls @ (junk @ CHR '','' # t) # later) w = w' \<and> chain_lines s (ls @ t # later) w = w'"
  using assms
proof (induction ls arbitrary: w)
  case Nil
  obtain over u where t: "chain_line s t w = (over, u)" by (cases "chain_line s t w")
  then have u: "u = w'" using Nil(1) by (auto split: if_splits)
  have over using chain_line_inside [of s t w u] t u Nil(2-4) by (cases over) fastforce+
  then show ?case using chain_line_junk [of s t w w' junk] t u by simp
next
  case (Cons l ls)
  obtain over u where l: "chain_line s l w = (over, u)" by (cases "chain_line s l w")
  show ?case
  proof (cases over)
    case True
    then show ?thesis using Cons.prems l by simp
  next
    case False
    then have "\<forall>a. ch_client u = Some a \<longrightarrow> contains_addr s a"
      using chain_line_inside [of s l w u] l Cons.prems(4) by fastforce
    then show ?thesis using Cons.IH [of u] Cons.prems l False by simp
  qed
qed

lemma fromChain_junk:
  assumes "ch_client (fromChain s (t # later)) = Some c" "\<not> contains_addr s c"
  shows "fromChain s (forged @ (junk @ CHR '','' # t) # later) = fromChain s (t # later) \<and>
    fromChain s (forged @ t # later) = fromChain s (t # later)"
  using chain_lines_junk [OF refl, of s "rev later" t _ c junk "rev forged"] assms
  by (simp add: fromChain_def)

lemma chain_line_present:
  "chain_line s t w = (over, w') \<Longrightarrow> (ch_client w \<noteq> None \<longrightarrow> ch_present w) \<Longrightarrow> ch_client w' \<noteq> None \<longrightarrow> ch_present w'"
proof (induction "length t" arbitrary: t w rule: less_induct)
  case less
  show ?case
  proof (cases "t = []")
    case True
    then show ?thesis using less(2,3) by simp
  next
    case False
    have "length (snd (last_entry t)) < length t"
      using False by (auto simp: last_entry_def split: option.split dest: cut_last_Some)
    note IH = less(1) [OF this]
    show ?thesis using less(2,3) IH unfolding chain_line_step [OF False]
      by (fastforce simp: step_entry_def Let_def split: option.splits if_splits)
  qed
qed

lemma chain_lines_present:
  "(ch_client w \<noteq> None \<longrightarrow> ch_present w) \<Longrightarrow> ch_client (chain_lines s ls w) \<noteq> None \<Longrightarrow> ch_present (chain_lines s ls w)"
proof (induction ls arbitrary: w)
  case (Cons l ls)
  obtain over u where l: "chain_line s l w = (over, u)" by (cases "chain_line s l w")
  then show ?case using Cons chain_line_present [OF l Cons.prems(1)] by (auto split: if_splits)
qed simp

lemma fromChain_present: "ch_client (fromChain s lines) = Some c \<Longrightarrow> ch_present (fromChain s lines)"
  unfolding fromChain_def by (rule chain_lines_present) simp_all

section \<open>Properties\<close>

text \<open>
  C26: a client cannot choose its own address. A peer outside the set is taken at its own address whatever
  headers it sends. Behind the proxies of the set, let the lines from \<open>t\<close> on, which they wrote, lead to the first
  address outside the set, \<open>c\<close>: whatever lines the client sends before them, whatever it writes on the same line to
  the left, and whatever X-Real-Ip it sends, the request counts as coming from \<open>c\<close> or from the proxy itself, and
  from \<open>c\<close> when there is no X-Real-Ip.
\<close>

theorem client_cannot_choose_its_address:
  assumes "parseHop peer = Some p"
  shows "(\<not> contains_addr s p \<longrightarrow> ClientAddr s peer lines realIP = canonical p) \<and>
    (contains_addr s p \<and> ch_client (fromChain s (t # later)) = Some c \<and> \<not> contains_addr s c \<longrightarrow>
       ClientAddr s peer (forged @ (junk @ CHR '','' # t) # later) realIP \<in> {canonical c, canonical p} \<and>
       ClientAddr s peer (forged @ t # later) realIP \<in> {canonical c, canonical p} \<and>
       ClientAddr s peer (forged @ (junk @ CHR '','' # t) # later) [] = canonical c)"
proof -
  have none: "parseHop (TrimSpace []) = None"
    by (simp add: parseHop_def ParseAddr_def ParseAddrPort_def)
  show ?thesis
    using assms fromChain_junk [of s t later c forged junk] fromChain_present [of s "t # later" c] none
    by (auto simp: ClientAddr_def Let_def split: option.split)
qed

text \<open>nginx at 10.0.0.1 appends the visitor's 192.0.2.7 to the address the visitor made up.\<close>

definition sample_set :: "prefix list" where
  "sample_set = [PrefixFrom (V4 0x0A000000) 8]"

lemma sample_hops:
  "parseHop ''10.0.0.1'' = Some (V4 0x0A000001)" "parseHop ''192.0.2.7'' = Some (V4 0xC0000207)"
  by (simp_all add: parseHop_def ParseAddr_def parse4_def parse_octet_def is_digit_def decimal_def digit_value_def)

lemma sample_trim: "TrimSpace ''192.0.2.7'' = ''192.0.2.7''"
  by (rule TrimSpace_printable) (simp_all add: printable_def)

lemma sample_set_contains [simp]: "contains_addr sample_set (V4 a) \<longleftrightarrow> unat a div 16777216 = 10"
  by (simp add: contains_addr_def sample_set_def pfx4)

lemma sample_chain: "ch_client (fromChain sample_set [''192.0.2.7'']) = Some (V4 0xC0000207)"
  by (simp add: fromChain_def chain_line_step last_entry_def step_entry_def sample_trim sample_hops)

theorem client_cannot_choose_its_address_witness:
  "ClientAddr sample_set ''10.0.0.1'' [''8.8.8.8'', ''1.2.3.4,192.0.2.7''] [] = canonical (V4 0xC0000207)"
  using client_cannot_choose_its_address [OF sample_hops(1), of sample_set _ _ "''192.0.2.7''" "[]" "V4 0xC0000207"
      "[''8.8.8.8'']" "''1.2.3.4''"] sample_chain
  by simp

end
