(* ===== verification/Base64.thy ===== *)
theory Base64
  imports Text
begin

text \<open>
  Unpadded base64 over bytes, as \<open>encoding/base64\<close> has it: the standard alphabet and the one for URLs,
  encoding, decoding that skips line ends, and that the two are inverse to each other.
\<close>

datatype encoding = RawStdEncoding | RawURLEncoding

section \<open>Sextets\<close>

fun enc6 :: "nat list \<Rightarrow> nat list" where
  "enc6 [] = []"
| "enc6 [a] = [a div 4, a mod 4 * 16]"
| "enc6 [a, b] = [a div 4, a mod 4 * 16 + b div 16, b mod 16 * 4]"
| "enc6 (a # b # c # bs) = [a div 4, a mod 4 * 16 + b div 16, b mod 16 * 4 + c div 64, c mod 64] @ enc6 bs"

text \<open>Strict: the unused bits of the last letter must be zero.\<close>

fun dec6 :: "nat list \<Rightarrow> nat list option" where
  "dec6 [] = Some []"
| "dec6 [x] = None"
| "dec6 [x, y] = (if y mod 16 \<noteq> 0 then None else Some [x * 4 + y div 16])"
| "dec6 [x, y, z] = (if z mod 4 \<noteq> 0 then None else Some [x * 4 + y div 16, y mod 16 * 16 + z div 4])"
| "dec6 (x # y # z # w # ss) =
     map_option (\<lambda>bs. [x * 4 + y div 16, y mod 16 * 16 + z div 4, z mod 4 * 64 + w] @ bs) (dec6 ss)"

definition letter :: "encoding \<Rightarrow> nat \<Rightarrow> char" where
  "letter e n = char_of (if n < 26 then n + 65 else if n < 52 then n + 71 else if n < 62 then n - 4
     else if n = 62 then case e of RawStdEncoding \<Rightarrow> 43 | RawURLEncoding \<Rightarrow> 45
     else case e of RawStdEncoding \<Rightarrow> 47 | RawURLEncoding \<Rightarrow> 95)"

definition sextet :: "encoding \<Rightarrow> char \<Rightarrow> nat option" where
  "sextet e c =
     (let n = of_char c in
      if 65 \<le> n \<and> n \<le> 90 then Some (n - 65)
      else if 97 \<le> n \<and> n \<le> 122 then Some (n - 71)
      else if 48 \<le> n \<and> n \<le> 57 then Some (n + 4)
      else if n = (case e of RawStdEncoding \<Rightarrow> 43 | RawURLEncoding \<Rightarrow> 45) then Some 62
      else if n = (case e of RawStdEncoding \<Rightarrow> 47 | RawURLEncoding \<Rightarrow> 95) then Some 63 else None)"

definition EncodeToString :: "encoding \<Rightarrow> string \<Rightarrow> string" where
  "EncodeToString e bs = map (letter e) (enc6 (map of_char bs))"

fun sextets :: "encoding \<Rightarrow> string \<Rightarrow> nat list option" where
  "sextets e [] = Some []"
| "sextets e (c # cs) = (case (sextet e c, sextets e cs) of (Some n, Some ns) \<Rightarrow> Some (n # ns) | _ \<Rightarrow> None)"

text \<open>Decoding skips line ends, also when strict.\<close>

definition without_line_ends :: "string \<Rightarrow> string" where
  "without_line_ends = filter (\<lambda>c. c \<noteq> CHR 0x0A \<and> c \<noteq> CHR 0x0D)"

definition DecodeString :: "encoding \<Rightarrow> string \<Rightarrow> string option" where
  "DecodeString e s =
     (case sextets e (without_line_ends s) of None \<Rightarrow> None | Some ss \<Rightarrow> map_option (map char_of) (dec6 ss))"

lemma sextet_letter: "n < 64 \<Longrightarrow> sextet e (letter e n) = Some n"
  by (auto simp: sextet_def letter_def Let_def split: encoding.split)

lemma letter_sextet: "sextet e c = Some n \<Longrightarrow> letter e n = c \<and> n < 64"
proof -
  assume s: "sextet e c = Some n"
  obtain k :: nat where k: "k = of_char c" by blast
  have c: "c = char_of k" using k by simp
  have "k < 256" using k by simp
  then show ?thesis using s unfolding c by (auto simp: sextet_def letter_def Let_def split: if_splits encoding.splits)
qed

lemma enc6_range: "list_all (\<lambda>b. b < 256) bs \<Longrightarrow> list_all (\<lambda>n. n < 64) (enc6 bs)"
  by (induction bs rule: enc6.induct) (auto simp: div_less_iff_less_mult)

lemma two_parts: "(y :: nat) < k \<Longrightarrow> (x * k + y) div k = x \<and> (x * k + y) mod k = y"
  by simp

lemma byte_parts:
  fixes a b c :: nat
  assumes "b < 256" "c < 256"
  shows "a div 4 * 4 + (a mod 4 * 16 + b div 16) div 16 = a"
    "(a mod 4 * 16 + b div 16) mod 16 * 16 + (b mod 16 * 4 + c div 64) div 4 = b"
    "(b mod 16 * 4 + c div 64) mod 4 * 64 + c mod 64 = c"
  using two_parts [of "b div 16" 16 "a mod 4"] two_parts [of "c div 64" 4 "b mod 16"] assms
  by (simp_all add: div_less_iff_less_mult)

lemma dec6_enc6: "list_all (\<lambda>b. b < 256) bs \<Longrightarrow> dec6 (enc6 bs) = Some bs"
proof (induction bs rule: enc6.induct)
  case (2 a)
  then show ?case using byte_parts(1) [of 0 0 a] by simp
next
  case (3 a b)
  then show ?case using byte_parts(1,2) [of b 0 a] by simp
next
  case (4 a b c bs)
  then show ?case using byte_parts(1,2) [of b c a] byte_parts(3) [of b c] by simp
qed simp

lemma sextet_parts:
  fixes x y z w :: nat
  assumes "x < 64" "y < 64" "z < 64" "w < 64"
  shows "(x * 4 + y div 16) div 4 = x" "(x * 4 + y div 16) mod 4 * 16 + (y mod 16 * 16 + z div 4) div 16 = y"
    "(y mod 16 * 16 + z div 4) mod 16 * 4 + (z mod 4 * 64 + w) div 64 = z" "(z mod 4 * 64 + w) mod 64 = w"
    "x * 4 + y div 16 < 256" "y mod 16 * 16 + z div 4 < 256" "z mod 4 * 64 + w < 256"
proof -
  have parts: "y div 16 < 4" "z div 4 < 16" "y mod 16 < 16" "z mod 4 < 4" using assms by (simp_all add: div_less_iff_less_mult)
  note p = two_parts [OF parts(1), of x] two_parts [OF parts(2), of "y mod 16"] two_parts [OF assms(4), of "z mod 4"]
  show "(x * 4 + y div 16) div 4 = x" "(x * 4 + y div 16) mod 4 * 16 + (y mod 16 * 16 + z div 4) div 16 = y"
    "(y mod 16 * 16 + z div 4) mod 16 * 4 + (z mod 4 * 64 + w) div 64 = z" "(z mod 4 * 64 + w) mod 64 = w"
    using p by simp_all
  show "x * 4 + y div 16 < 256" "y mod 16 * 16 + z div 4 < 256" "z mod 4 * 64 + w < 256"
    using parts assms by linarith+
qed

lemma enc6_dec6:
  "dec6 ss = Some bs \<Longrightarrow> list_all (\<lambda>n. n < 64) ss \<Longrightarrow> enc6 bs = ss \<and> list_all (\<lambda>b. b < 256) bs"
proof (induction ss arbitrary: bs rule: dec6.induct)
  case (3 x y)
  then show ?case using sextet_parts [of x y 0 0] two_parts [of "y div 16" 4 x] mult_div_mod_eq [of 16 y]
    by (auto split: if_splits simp: div_less_iff_less_mult)
next
  case (4 x y z)
  then show ?case using sextet_parts [of x y z 0] mult_div_mod_eq [of 4 z]
    by (auto split: if_splits)
next
  case (5 x y z w ss)
  then show ?case using sextet_parts [of x y z w] by auto
qed auto

lemma sextets_Some:
  "sextets e s = Some ns \<Longrightarrow> map (letter e) ns = s \<and> list_all (\<lambda>n. n < 64) ns"
  by (induction s arbitrary: ns) (auto split: option.splits dest: letter_sextet)

lemma sextets_letters: "list_all (\<lambda>n. n < 64) ns \<Longrightarrow> sextets e (map (letter e) ns) = Some ns"
  by (induction ns) (auto simp: sextet_letter)

lemma letter_no_line_end: "n < 64 \<Longrightarrow> letter e n \<noteq> CHR 0x0A \<and> letter e n \<noteq> CHR 0x0D \<and> letter e n \<noteq> CHR ''.'' \<and> letter e n \<noteq> CHR 0x24"
  using sextet_letter [of n e] by (auto simp: sextet_def split: encoding.splits)

lemma without_line_ends_letters: "list_all (\<lambda>n. n < 64) ns \<Longrightarrow> without_line_ends (map (letter e) ns) = map (letter e) ns"
  using letter_no_line_end by (induction ns) (auto simp: without_line_ends_def)

lemma bytes_range: "list_all (\<lambda>b. b < 256) (map (of_char :: char \<Rightarrow> nat) s)"
  by (induction s) auto

text \<open>The two are inverse to each other, up to the line ends that decoding skips.\<close>

lemma DecodeString_Encode: "DecodeString e (EncodeToString e bs) = Some bs"
  using bytes_range [of bs]
  by (simp add: DecodeString_def EncodeToString_def without_line_ends_letters sextets_letters enc6_range dec6_enc6 o_def)

lemma EncodeToString_Decode: "DecodeString e s = Some bs \<Longrightarrow> EncodeToString e bs = without_line_ends s"
proof -
  assume "DecodeString e s = Some bs"
  then obtain ns cs where ns: "sextets e (without_line_ends s) = Some ns" "dec6 ns = Some cs" "bs = map char_of cs"
    by (auto simp: DecodeString_def split: option.splits)
  have "list_all (\<lambda>b. b < 256) cs" "enc6 cs = ns" using enc6_dec6 [OF ns(2)] sextets_Some [OF ns(1)] by simp_all
  moreover have "map of_char (map char_of cs :: string) = cs" if "list_all (\<lambda>b. b < 256) cs" for cs :: "nat list"
    using that by (induction cs) simp_all
  ultimately show ?thesis using sextets_Some [OF ns(1)] by (simp only: ns(3) EncodeToString_def)
qed

lemma EncodeToString_plain:
  "CHR ''.'' \<notin> set (EncodeToString e bs) \<and> CHR 0x24 \<notin> set (EncodeToString e bs) \<and>
     without_line_ends (EncodeToString e bs) = EncodeToString e bs"
proof -
  have r: "list_all (\<lambda>n. n < 64) (enc6 (map of_char bs))" by (rule enc6_range [OF bytes_range])
  then have "letter e n \<noteq> CHR ''.'' \<and> letter e n \<noteq> CHR 0x24" if "n \<in> set (enc6 (map of_char bs))" for n
    using that letter_no_line_end [of n e] by (simp add: list_all_iff)
  then have "CHR ''.'' \<notin> set (EncodeToString e bs)" "CHR 0x24 \<notin> set (EncodeToString e bs)"
    unfolding EncodeToString_def set_map by fastforce+
  then show ?thesis using without_line_ends_letters [OF r] by (simp add: EncodeToString_def)
qed

end
