(* ===== verification/MuteLink.thy ===== *)
theory MuteLink
  imports Incidents Outbox Base64
begin

text \<open>
  The link in an alert that mutes the incident's repeat alerts: the signed token of \<open>internal/mutelink\<close> and
  the page behind it (\<open>internal/api/mute_link.go\<close>). HMAC-SHA256 is a parameter \<open>hmac\<close> from key and message
  to bytes; that its value has 32 bytes is the hypothesis \<open>hmac_size\<close>.
\<close>

section \<open>Tokens\<close>

definition Lifetime :: duration where
  "Lifetime = hours 24"

definition keyLength :: nat where
  "keyLength = 32"

definition tagLength :: nat where
  "tagLength = 16"

definition maxTokenLength :: nat where
  "maxTokenLength = 128"

definition derivationLabel :: string where
  "derivationLabel = ''subglance mute-link key v1''"

type_synonym mac = "string \<Rightarrow> string \<Rightarrow> string"

record claim =
  cl_IncidentID :: int
  cl_ChannelID :: int
  cl_Expires :: instant

datatype mute_error = ErrInvalid | ErrExpired claim

text \<open>\<open>New\<close>, with \<open>Load\<close> for a configured secret: the key is derived from it.\<close>

definition NewSigner :: "string \<Rightarrow> string option" where
  "NewSigner key = (if length key \<noteq> keyLength then None else Some key)"

definition LoadSigner :: "mac \<Rightarrow> string option \<Rightarrow> string \<Rightarrow> string option" where
  "LoadSigner hmac keyFile secretKey =
     (if secretKey \<noteq> [] then NewSigner (hmac secretKey derivationLabel)
      else case keyFile of None \<Rightarrow> None | Some key \<Rightarrow> NewSigner key)"

definition token_tag :: "mac \<Rightarrow> string \<Rightarrow> string \<Rightarrow> string" where
  "token_tag hmac key body = take tagLength (hmac key (''mute.'' @ body))"

definition token_body :: "int \<Rightarrow> int \<Rightarrow> int \<Rightarrow> string" where
  "token_body inc ch expires = join_with ''.'' [itoa inc, itoa ch, itoa expires]"

definition Token :: "mac \<Rightarrow> string \<Rightarrow> int \<Rightarrow> int \<Rightarrow> instant \<Rightarrow> string" where
  "Token hmac key inc ch expires =
     (let body = token_body inc ch (Unix expires) in body @ ''.'' @ EncodeToString RawURLEncoding (token_tag hmac key body))"

text \<open>A number in the one form \<open>Token\<close> writes.\<close>

definition token_number :: "string \<Rightarrow> int option" where
  "token_number p = (case ParseInt p of None \<Rightarrow> None | Some n \<Rightarrow> if n \<le> 0 \<or> itoa n \<noteq> p then None else Some n)"

definition Verify :: "mac \<Rightarrow> string \<Rightarrow> string \<Rightarrow> instant \<Rightarrow> mute_error + claim" where
  "Verify hmac key token now =
     (if maxTokenLength < length token then Inl ErrInvalid
      else case split_on CHR ''.'' token of
        [p, q, r, t] \<Rightarrow>
          (case (token_number p, token_number q, token_number r) of
             (Some inc, Some ch, Some expires) \<Rightarrow>
               if DecodeString RawURLEncoding t \<noteq> Some (token_tag hmac key (join_with ''.'' [p, q, r])) then Inl ErrInvalid
               else
                 let c = \<lparr>cl_IncidentID = inc, cl_ChannelID = ch, cl_Expires = of_Unix expires\<rparr> in
                 if \<not> now < cl_Expires c then Inl (ErrExpired c) else Inr c
           | _ \<Rightarrow> Inl ErrInvalid)
      | _ \<Rightarrow> Inl ErrInvalid)"

definition hmac_size :: "mac \<Rightarrow> bool" where
  "hmac_size hmac \<longleftrightarrow> (\<forall>key m. length (hmac key m) = 32)"

lemma token_number_itoa: "0 < n \<Longrightarrow> n < 2 ^ 63 \<Longrightarrow> token_number (itoa n) = Some n"
  using ParseInt_itoa [of n] by (simp add: token_number_def)

lemma token_number_Some: "token_number p = Some n \<Longrightarrow> p = itoa n \<and> 0 < n"
  by (auto simp: token_number_def split: option.splits if_splits)

lemma itoa_plain: "0 \<le> n \<Longrightarrow> CHR ''.'' \<notin> set (itoa n) \<and> without_line_ends (itoa n) = itoa n"
  using digits_are_digits [of "nat n"] digit_not
  by (auto simp: itoa_nonneg list_all_iff without_line_ends_def filter_id_conv)

lemma length_itoa: "0 \<le> n \<Longrightarrow> n < 2 ^ 63 \<Longrightarrow> length (itoa n) \<le> 19"
  using length_digits [of "nat n" 19] by (simp add: itoa_nonneg nat_less_iff)

lemma length_EncodeToString: "length bs = 16 \<Longrightarrow> length (EncodeToString RawURLEncoding bs) = 22"
  by (simp add: EncodeToString_def) (simp add: numeral_eq_Suc length_Suc_conv, elim exE conjE, simp)

lemma Token_parts:
  assumes "0 \<le> inc" "0 \<le> ch" "0 \<le> Unix expires"
  shows "split_on CHR ''.'' (Token hmac key inc ch expires) =
    [itoa inc, itoa ch, itoa (Unix expires), EncodeToString RawURLEncoding (token_tag hmac key (token_body inc ch (Unix expires)))]"
  using assms itoa_plain EncodeToString_plain
  by (simp add: Token_def token_body_def Let_def split_on_append split_on_single)

lemma Token_length:
  assumes "hmac_size hmac" "0 \<le> inc" "inc < 2 ^ 63" "0 \<le> ch" "ch < 2 ^ 63" "0 \<le> Unix expires" "Unix expires < 2 ^ 63"
  shows "length (Token hmac key inc ch expires) \<le> maxTokenLength"
proof -
  have "length (token_tag hmac key body) = 16" for body using assms(1) by (simp add: token_tag_def hmac_size_def tagLength_def)
  then show ?thesis
    using length_itoa [of inc] length_itoa [of ch] length_itoa [of "Unix expires"] assms
    by (simp add: Token_def token_body_def Let_def length_EncodeToString maxTokenLength_def)
qed

text \<open>A link works until it expires and is recognised after that.\<close>

lemma Verify_Token:
  assumes "hmac_size hmac" "0 < inc" "inc < 2 ^ 63" "0 < ch" "ch < 2 ^ 63" "0 < Unix expires" "Unix expires < 2 ^ 63"
  shows "Verify hmac key (Token hmac key inc ch expires) now =
    (let c = \<lparr>cl_IncidentID = inc, cl_ChannelID = ch, cl_Expires = of_Unix (Unix expires)\<rparr> in
     if now < of_Unix (Unix expires) then Inr c else Inl (ErrExpired c))"
  using Token_length [of hmac inc ch expires key] assms
  by (simp add: Verify_def Token_parts token_number_itoa DecodeString_Encode token_body_def Let_def)

text \<open>Nothing but what was signed is accepted, in the one spelling up to line ends in the tag.\<close>

lemma Verify_genuine:
  assumes "Verify hmac key token now = Inr c \<or> Verify hmac key token now = Inl (ErrExpired c)"
  shows "without_line_ends token = Token hmac key (cl_IncidentID c) (cl_ChannelID c) (cl_Expires c) \<and>
    0 < cl_IncidentID c \<and> 0 < cl_ChannelID c"
proof -
  obtain p q r t inc ch expires where
    parts: "split_on CHR ''.'' token = [p, q, r, t]" and
    nums: "token_number p = Some inc" "token_number q = Some ch" "token_number r = Some expires" and
    tag: "DecodeString RawURLEncoding t = Some (token_tag hmac key (join_with ''.'' [p, q, r]))" and
    c: "c = \<lparr>cl_IncidentID = inc, cl_ChannelID = ch, cl_Expires = of_Unix expires\<rparr>"
    using assms by (auto simp: Verify_def Let_def split: if_splits list.splits option.splits)
  note n = token_number_Some [OF nums(1)] token_number_Some [OF nums(2)] token_number_Some [OF nums(3)]
  have "token = p @ ''.'' @ q @ ''.'' @ r @ ''.'' @ t"
    using join_split_on [of "CHR ''.''" token] parts by simp
  moreover have "without_line_ends (a @ b) = without_line_ends a @ without_line_ends b" for a b
    by (simp add: without_line_ends_def)
  moreover have "without_line_ends (CHR ''.'' # a) = CHR ''.'' # without_line_ends a" for a by (simp add: without_line_ends_def)
  ultimately have "without_line_ends token =
      p @ ''.'' @ q @ ''.'' @ r @ ''.'' @ EncodeToString RawURLEncoding (token_tag hmac key (token_body inc ch expires))"
    using n itoa_plain [of inc] itoa_plain [of ch] itoa_plain [of expires] EncodeToString_Decode [OF tag]
    by (simp add: token_body_def)
  then show ?thesis using n c by (simp add: Token_def token_body_def)
qed

section \<open>The link in an alert\<close>

definition PathPrefix :: string where
  "PathPrefix = ''/mute/''"

text \<open>\<open>mutable\<close> on the alert of one monitor.\<close>

definition mutable :: "alert_data \<Rightarrow> bool" where
  "mutable a \<longleftrightarrow> a_IncidentID a \<noteq> 0 \<and> a_MonitorID a \<noteq> 0 \<and> \<not> a_Digest a \<and>
     a_Event a \<in> {event_string EventIncidentConfirmed, event_string EventIncidentReminder}"

text \<open>\<open>withMuteLink\<close>: the URL of every alert without members, in the order of the leaves; empty means none.\<close>

fun mute_urls :: "mac \<Rightarrow> string \<Rightarrow> string option \<Rightarrow> int \<Rightarrow> instant \<Rightarrow> alert \<Rightarrow> string list" where
  "mute_urls hmac base signer ch now (Alert ms a) =
     (case signer of
        None \<Rightarrow> []
      | Some key \<Rightarrow>
          if base = [] then []
          else if ms \<noteq> [] then concat (map (mute_urls hmac base signer ch now) ms)
          else if \<not> mutable a then []
          else [base @ PathPrefix @ Token hmac key (a_IncidentID a) ch (now + Lifetime)])"

section \<open>The page behind it\<close>

datatype mute_call = MReadChannel | MReadIncident | MReadMonitor | MAck

text \<open>What the page says; \<open>MutePage status heading\<close> with the button only in \<open>MuteAsk\<close>.\<close>

datatype mute_page = MuteNotWorking | MuteExpired | MuteUnavailable | MuteOver | MuteAlready instant | MuteAsk instant | MuteDone

fun mute_status :: "mute_page \<Rightarrow> int" where
  "mute_status MuteNotWorking = 404" | "mute_status MuteExpired = 410" | "mute_status MuteUnavailable = 503"
| "mute_status _ = 200"

text \<open>
  \<open>muteTarget\<close>: Inl True when something it names is gone, Inl False when a read failed. \<open>broken\<close> names the
  database calls that fail.
\<close>

definition muteTarget :: "(mute_call \<Rightarrow> bool) \<Rightarrow> claim \<Rightarrow> database \<Rightarrow> bool + incident" where
  "muteTarget broken c s =
     (if broken MReadChannel then Inl False
      else if cl_ChannelID c \<notin> db_channels s then Inl True
      else if broken MReadIncident then Inl False
      else case incident_of (cl_IncidentID c) s of
        None \<Rightarrow> Inl True
      | Some x \<Rightarrow>
          if broken MReadMonitor then Inl False
          else if i_MonitorID x \<notin> db_monitors s then Inl True else Inr x)"

definition serveMute ::
  "mac \<Rightarrow> string option \<Rightarrow> (mute_call \<Rightarrow> bool) \<Rightarrow> instant \<Rightarrow> bool \<Rightarrow> string \<Rightarrow> database \<Rightarrow> mute_page \<times> database" where
  "serveMute hmac signer broken now act token s =
     (case signer of
        None \<Rightarrow> (MuteNotWorking, s)
      | Some key \<Rightarrow>
          case Verify hmac key token now of
            Inl (ErrExpired c) \<Rightarrow> (MuteExpired, s)
          | Inl ErrInvalid \<Rightarrow> (MuteNotWorking, s)
          | Inr c \<Rightarrow>
              case muteTarget broken c s of
                Inl True \<Rightarrow> (MuteNotWorking, s)
              | Inl False \<Rightarrow> (MuteUnavailable, s)
              | Inr x \<Rightarrow>
                  if Resolved x then (MuteOver, s)
                  else case i_AckedAt x of
                    Some t \<Rightarrow> (MuteAlready t, s)
                  | None \<Rightarrow>
                      if \<not> act then (MuteAsk (cl_Expires c), s)
                      else if broken MAck then (MuteUnavailable, s)
                      else case AckIncident (i_ID x) now s of None \<Rightarrow> (MuteUnavailable, s) | Some s' \<Rightarrow> (MuteDone, s'))"

section \<open>Properties\<close>

text \<open>
  What a request can change: nothing, or with a genuine unexpired token, by the button, the acknowledgement of the
  one incident the token names.
\<close>

lemma serveMute_changes:
  assumes "serveMute hmac (Some key) broken now act token s = (page, s')" "s' \<noteq> s"
  shows "\<exists>c x. Verify hmac key token now = Inr c \<and> act \<and> page = MuteDone \<and> cl_ChannelID c \<in> db_channels s \<and>
    incident_of (cl_IncidentID c) s = Some x \<and> i_MonitorID x \<in> db_monitors s \<and> \<not> Resolved x \<and> i_AckedAt x = None \<and>
    AckIncident (cl_IncidentID c) now s = Some s'"
proof -
  obtain c where c: "Verify hmac key token now = Inr c"
    using assms by (auto simp: serveMute_def split: sum.splits mute_error.splits)
  then obtain x where x: "muteTarget broken c s = Inr x" "\<not> Resolved x" "i_AckedAt x = None" "act"
      "AckIncident (i_ID x) now s = Some s'" "page = MuteDone"
    using assms by (auto simp: serveMute_def split: sum.splits bool.splits if_splits option.splits)
  have target: "cl_ChannelID c \<in> db_channels s" "incident_of (cl_IncidentID c) s = Some x" "i_MonitorID x \<in> db_monitors s"
    using x(1) by (auto simp: muteTarget_def split: if_splits option.splits)
  then have "i_ID x = cl_IncidentID c" by (auto simp: incident_of_def find_Some_iff)
  then show ?thesis using c x target by metis
qed

lemma AckIncident_spec:
  assumes "AckIncident i now s = Some s'"
  shows "s' = s\<lparr>db_incidents := db_incidents s'\<rparr> \<and>
    db_incidents s' = map (\<lambda>x. if i_ID x = i then x\<lparr>i_AckedAt := Some (case i_AckedAt x of None \<Rightarrow> to_second now | Some t \<Rightarrow> t)\<rparr>
      else x) (db_incidents s)"
  using assms by (auto simp: AckIncident_def update_incidents_def split: if_splits option.split)

lemma incident_of_acked:
  assumes "AckIncident inc now s = Some s'" "incident_of inc s = Some x" "i_AckedAt x = None"
  shows "incident_of inc s' = Some (x\<lparr>i_AckedAt := Some (to_second now)\<rparr>)"
proof -
  define f where "f y = (if i_ID y = inc then y\<lparr>i_AckedAt := Some (case i_AckedAt y of None \<Rightarrow> to_second now | Some t \<Rightarrow> t)\<rparr> else y)" for y :: incident
  have "find (\<lambda>y. i_ID y = inc) (map f ys) = map_option f (find (\<lambda>y. i_ID y = inc) ys)" for ys
    by (induction ys) (simp_all add: f_def)
  moreover have "db_incidents s' = map f (db_incidents s)" unfolding f_def [abs_def] using AckIncident_spec [OF assms(1)] by blast
  moreover have "i_ID x = inc" using assms(2) by (auto simp: incident_of_def find_Some_iff)
  ultimately show ?thesis using assms(2,3) by (simp add: incident_of_def f_def)
qed

lemma in_map_filter: "y \<in> set (List.map_filter f xs) \<longleftrightarrow> (\<exists>x\<in>set xs. f x = Some y)"
  by (induction xs) (auto simp: List.map_filter_simps split: option.split)

lemma RemindableIncidents_open:
  assumes "p \<in> set (RemindableIncidents repeat_after s)"
  shows "fst p \<in> set (db_incidents s) \<and> i_AckedAt (fst p) = None"
  using assms unfolding RemindableIncidents_def in_map_filter by (auto split: option.splits if_splits)

text \<open>
  C27: a mute link does one thing. Whatever a request to the page carries, the database stays as it is unless the
  token is genuine, made by this instance's key for an incident and a channel that still exist, and unexpired, the
  incident is open and not acknowledged yet, its monitor still exists, and the request is the button; then exactly the
  incident the token names is marked acknowledged at the moment of the request, so it is no longer among those that
  reminders are sent for. Following the link alone, or the link of an incident that is over, changes nothing.
\<close>

theorem mute_link_mutes_one_incident:
  assumes "serveMute hmac (Some key) broken now act token s = (page, s')"
  shows "s' = s \<or>
    (\<exists>inc ch expires x. act \<and> page = MuteDone \<and> without_line_ends token = Token hmac key inc ch expires \<and> now < expires \<and>
       ch \<in> db_channels s \<and> incident_of inc s = Some x \<and> \<not> Resolved x \<and> i_AckedAt x = None \<and> i_MonitorID x \<in> db_monitors s \<and>
       s' = s\<lparr>db_incidents := map (\<lambda>x. if i_ID x = inc
         then x\<lparr>i_AckedAt := Some (case i_AckedAt x of None \<Rightarrow> to_second now | Some t \<Rightarrow> t)\<rparr> else x) (db_incidents s)\<rparr> \<and>
       incident_of inc s' = Some (x\<lparr>i_AckedAt := Some (to_second now)\<rparr>) \<and>
       (\<forall>repeat_after. inc \<notin> i_ID ` fst ` set (RemindableIncidents repeat_after s')))"
proof (cases "s' = s")
  case False
  obtain c x where c: "Verify hmac key token now = Inr c" "act" "page = MuteDone" "cl_ChannelID c \<in> db_channels s"
      "incident_of (cl_IncidentID c) s = Some x" "i_MonitorID x \<in> db_monitors s" "\<not> Resolved x" "i_AckedAt x = None"
      "AckIncident (cl_IncidentID c) now s = Some s'"
    using serveMute_changes [OF assms False] by blast
  have genuine: "without_line_ends token = Token hmac key (cl_IncidentID c) (cl_ChannelID c) (cl_Expires c)"
    using Verify_genuine [of hmac key token now c] c(1) by blast
  have alive: "now < cl_Expires c" using c(1) by (auto simp: Verify_def Let_def split: if_splits list.splits option.splits)
  note ack = AckIncident_spec [OF c(9)]
  have "\<forall>x\<in>set (db_incidents s'). i_ID x = cl_IncidentID c \<longrightarrow> i_AckedAt x \<noteq> None"
    unfolding conjunct2 [OF ack] by (auto split: option.split)
  then have quiet: "cl_IncidentID c \<notin> i_ID ` fst ` set (RemindableIncidents repeat_after s')" for repeat_after
    using RemindableIncidents_open [of _ repeat_after s'] by (metis image_iff)
  note marked = conjunct1 [OF ack, unfolded conjunct2 [OF ack]]
  show ?thesis
    by (intro disjI2 exI [of _ "cl_IncidentID c"] exI [of _ "cl_ChannelID c"] exI [of _ "cl_Expires c"] exI [of _ x] conjI allI;
        fact c(2-8) genuine alive marked incident_of_acked [OF c(9,5,8)] quiet)
qed simp

text \<open>
  The link of an alert works for its lifetime. The token an alert of an open incident was sent with at \<open>sent\<close>
  is one the page accepts until a day later (to the second): the button then marks the incident acknowledged, while
  the incident is neither resolved nor acknowledged and its monitor and the channel are still there.
\<close>

theorem mute_link_works_for_a_day:
  assumes "hmac_size hmac" "0 < inc" "inc < 2 ^ 63" "0 < ch" "ch < 2 ^ 63"
    and "0 < Unix (sent + Lifetime)" "Unix (sent + Lifetime) < 2 ^ 63" "now < to_second (sent + Lifetime)"
    and "incident_of inc s = Some x" "\<not> Resolved x" "i_AckedAt x = None" "i_MonitorID x \<in> db_monitors s" "ch \<in> db_channels s"
    and "\<forall>c. \<not> broken c"
  shows "\<exists>s'. serveMute hmac (Some key) broken now True (Token hmac key inc ch (sent + Lifetime)) s = (MuteDone, s') \<and>
    map_option i_AckedAt (incident_of inc s') = Some (Some (to_second now))"
proof -
  have unix: "of_Unix (Unix t) = to_second t" for t by (simp add: of_Unix_def Unix_def to_second_def)
  have x: "i_ID x = inc" "incident_exists inc s"
    using assms(9) by (auto simp: incident_of_def find_Some_iff incident_exists_def list_ex_iff)
  obtain s' where s': "AckIncident inc now s = Some s'" using x(2) by (simp add: AckIncident_def)
  have "incident_of inc s' = Some (x\<lparr>i_AckedAt := Some (to_second now)\<rparr>)"
    using incident_of_acked [OF s' assms(9,11)] .
  then show ?thesis
    using assms x s' by (simp add: serveMute_def muteTarget_def Verify_Token unix Let_def)
qed

text \<open>Incident 5 of monitor 7 is open and confirmed; its alert was sent to channel 2 in 2023.\<close>

definition sample_incident :: incident where
  "sample_incident = \<lparr>i_ID = 5, i_MonitorID = 7, i_StartedAt = of_Unix 1700000000, i_ConfirmedAt = Some (of_Unix 1700000060),
     i_ResolvedAt = None, i_AckedAt = None, i_Cause = ''timeout'', i_LastError = ''no answer'', i_RemindedAt = None,
     i_ReminderCount = 0, i_MaintenancePending = False, i_Notice = False, i_AlertOwed = False\<rparr>"

definition sample_tables :: database where
  "sample_tables = \<lparr>db_rows = [], db_nextID = 1, db_held = [], db_nextHeld = 1, db_monitors = {7}, db_channels = {2},
     db_incidents = [sample_incident], db_nextIncident = 6, db_maintAlerts = [], db_failures = (\<lambda>_. None),
     db_heartbeats = [], db_unknown = (\<lambda>_. None)\<rparr>"

definition sample_hmac :: mac where
  "sample_hmac key m = take 32 (m @ key @ replicate 32 CHR ''x'')"

lemma sample_hmac_size: "hmac_size sample_hmac"
  by (auto simp: hmac_size_def sample_hmac_def min_def)

theorem mute_link_works_for_a_day_witness:
  "\<exists>s'. serveMute sample_hmac (Some ''key'') (\<lambda>_. False) (of_Unix 1700000100) True
     (Token sample_hmac ''key'' 5 2 (of_Unix 1700000060 + Lifetime)) sample_tables = (MuteDone, s') \<and>
     map_option i_AckedAt (incident_of 5 s') = Some (Some (to_second (of_Unix 1700000100)))"
  by (rule mute_link_works_for_a_day [OF sample_hmac_size, where x = sample_incident])
    (simp_all add: sample_tables_def sample_incident_def incident_of_def Resolved_def Unix_def of_Unix_def Lifetime_def to_second_def)

lemma sample_link_changes:
  "\<exists>s'. serveMute sample_hmac (Some ''key'') (\<lambda>_. False) (of_Unix 1700000100) True
     (Token sample_hmac ''key'' 5 2 (of_Unix 1700000060 + Lifetime)) sample_tables = (MuteDone, s') \<and> s' \<noteq> sample_tables"
proof -
  have "map_option i_AckedAt (incident_of 5 sample_tables) = Some None"
    by (simp add: incident_of_def sample_tables_def sample_incident_def)
  then show ?thesis using mute_link_works_for_a_day_witness by (metis option.distinct(1) option.inject)
qed

theorem mute_link_mutes_one_incident_witness:
  "\<exists>page s'. serveMute sample_hmac (Some ''key'') (\<lambda>_. False) (of_Unix 1700000100) True
     (Token sample_hmac ''key'' 5 2 (of_Unix 1700000060 + Lifetime)) sample_tables = (page, s') \<and> page = MuteDone \<and>
     s' \<noteq> sample_tables \<and> (\<exists>inc x. incident_of inc sample_tables = Some x \<and> \<not> Resolved x \<and>
       incident_of inc s' = Some (x\<lparr>i_AckedAt := Some (to_second (of_Unix 1700000100))\<rparr>))"
proof -
  let ?token = "Token sample_hmac ''key'' 5 2 (of_Unix 1700000060 + Lifetime)"
  obtain s' where s': "serveMute sample_hmac (Some ''key'') (\<lambda>_. False) (of_Unix 1700000100) True ?token sample_tables = (MuteDone, s')"
      "s' \<noteq> sample_tables"
    using sample_link_changes by blast
  show ?thesis
    using mute_link_mutes_one_incident [OF s'(1)] s' by blast
qed

end
