(* ===== verification/Utf8.thy ===== *)
theory Utf8
  imports Text
begin

text \<open>
  Characters of a byte string as Go decodes them (\<open>unicode/utf8\<close>): a byte that does not start a valid
  sequence is a character of its own.
\<close>

definition byte_between :: "nat \<Rightarrow> nat \<Rightarrow> char \<Rightarrow> bool" where
  "byte_between lo hi c \<longleftrightarrow> lo \<le> of_char c \<and> of_char c \<le> hi"

text \<open>For a first byte: how many bytes the sequence has, and what its second byte may be.\<close>

definition sequence_start :: "char \<Rightarrow> (nat \<times> nat \<times> nat) option" where
  "sequence_start c =
     (let b = of_char c :: nat in
      if b < 0x80 then Some (1, 0, 0)
      else if b < 0xC2 then None
      else if b < 0xE0 then Some (2, 0x80, 0xBF)
      else if b = 0xE0 then Some (3, 0xA0, 0xBF)
      else if b = 0xED then Some (3, 0x80, 0x9F)
      else if b < 0xF0 then Some (3, 0x80, 0xBF)
      else if b = 0xF0 then Some (4, 0x90, 0xBF)
      else if b < 0xF4 then Some (4, 0x80, 0xBF)
      else if b = 0xF4 then Some (4, 0x80, 0x8F)
      else None)"

text \<open>The width of the character at the front of a string that is not empty.\<close>

definition rune_width :: "string \<Rightarrow> nat" where
  "rune_width s =
     (case sequence_start (hd s) of
        None \<Rightarrow> 1
      | Some (n, lo, hi) \<Rightarrow>
          if n = 1 then 1
          else if n \<le> length s \<and> byte_between lo hi (s ! 1) \<and> list_all (byte_between 0x80 0xBF) (drop 2 (take n s)) then n
          else 1)"

lemma rune_width_pos [simp]: "0 < rune_width s" "rune_width s \<noteq> 0"
  by (auto simp: rune_width_def sequence_start_def Let_def split: if_splits)

lemma rune_width_le_4: "rune_width s \<le> 4"
  by (auto simp: rune_width_def sequence_start_def Let_def)

lemma rune_width_le_length: "s \<noteq> [] \<Longrightarrow> rune_width s \<le> length s"
  by (cases s) (auto simp: rune_width_def split: option.split)

text \<open>The characters of a string, each as its bytes; \<open>[]rune(s)\<close> has as many elements.\<close>

function runes :: "string \<Rightarrow> string list" where
  "runes s = (if s = [] then [] else take (rune_width s) s # runes (drop (rune_width s) s))"
  by auto
termination
  by (relation "measure length") auto

declare runes.simps [simp del]

lemma runes_Nil [simp]: "runes [] = []"
  by (simp add: runes.simps)

lemma concat_runes [simp]: "concat (runes s) = s"
proof (induction s rule: runes.induct)
  case (1 s)
  then show ?case by (cases "s = []") (simp_all add: runes.simps [of s])
qed

definition RuneCount :: "string \<Rightarrow> nat" where
  "RuneCount s = length (runes s)"

lemma RuneCount_le_length: "RuneCount s \<le> length s"
proof (induction s rule: runes.induct)
  case (1 s)
  show ?case
  proof (cases "s = []")
    case False
    then have "RuneCount (drop (rune_width s) s) \<le> length s - rune_width s" using 1 by simp
    moreover have "RuneCount s = Suc (RuneCount (drop (rune_width s) s))"
      using False by (simp add: RuneCount_def runes.simps [of s])
    moreover have "1 \<le> rune_width s" using rune_width_pos(1) [of s] by linarith
    ultimately show ?thesis using rune_width_le_length [OF False] by linarith
  qed (simp add: RuneCount_def)
qed

text \<open>\<open>utf8.RuneStart\<close>\<close>

definition RuneStart :: "char \<Rightarrow> bool" where
  "RuneStart c \<longleftrightarrow> \<not> byte_between 0x80 0xBF c"

lemma runes_ascii: "list_all (\<lambda>c. of_char c < (128 :: nat)) s \<Longrightarrow> runes s = map (\<lambda>c. [c]) s"
proof (induction s)
  case (Cons c s)
  then show ?case by (simp add: runes.simps [of "c # s"] rune_width_def sequence_start_def)
qed simp

text \<open>\<open>unicode.IsControl\<close> of a character, and of any in a string (\<open>internal/store/names.go\<close>).\<close>

definition is_control_rune :: "string \<Rightarrow> bool" where
  "is_control_rune r \<longleftrightarrow>
     (case r of
        [b] \<Rightarrow> byte_between 0 31 b \<or> b = CHR 0x7F
      | [b, c] \<Rightarrow> b = CHR 0xC2 \<and> byte_between 0x80 0x9F c
      | _ \<Rightarrow> False)"

definition HasControlCharacter :: "string \<Rightarrow> bool" where
  "HasControlCharacter s = list_ex is_control_rune (runes s)"

end
