(* ===== verification/Password.thy ===== *)
theory Password
  imports Base64 Utf8
begin

text \<open>
  Password hashes (\<open>internal/auth/auth.go\<close>): the policy, the encoded form of a hash and its reading back.
  Argon2 itself (\<open>golang.org/x/crypto\<close>) is the parameter \<open>IDKey\<close>, from password, salt, time, memory,
  threads and key length to the key; that the key has the length asked for is the hypothesis \<open>argon_size\<close>.
  The random salt is an argument.
\<close>

section \<open>Reading numbers as fmt.Sscanf does\<close>

function skip_space :: "string \<Rightarrow> string option" where
  "skip_space s =
     (if s = [] then Some []
      else if hd s = CHR 0x0A then None
      else case strip_prefix space_runes s of Some t \<Rightarrow> skip_space t | None \<Rightarrow> Some s)"
  by auto
termination
  by (relation "measure length") (auto dest: strip_prefix_shorter)

declare skip_space.simps [simp del]

definition scan_literal :: "string \<Rightarrow> string \<Rightarrow> string option" where
  "scan_literal lit s = (if take (length lit) s = lit then Some (drop (length lit) s) else None)"

definition scan_uint :: "nat \<Rightarrow> string \<Rightarrow> (nat \<times> string) option" where
  "scan_uint bits s =
     (case skip_space s of
        None \<Rightarrow> None
      | Some t \<Rightarrow>
          (case ParseUint 64 (takeWhile is_digit t) of
             None \<Rightarrow> None
           | Some n \<Rightarrow> if 2 ^ bits \<le> n then None else Some (n, dropWhile is_digit t)))"

definition scan_int :: "string \<Rightarrow> (int \<times> string) option" where
  "scan_int s =
     (case skip_space s of
        None \<Rightarrow> None
      | Some t \<Rightarrow>
          (let sign = (if t \<noteq> [] \<and> (hd t = CHR ''-'' \<or> hd t = CHR ''+'') then [hd t] else []); u = drop (length sign) t in
           map_option (\<lambda>n. (n, dropWhile is_digit u)) (ParseInt (sign @ takeWhile is_digit u))))"

section \<open>The policy\<close>

datatype auth_error = ErrInvalidHash | ErrIncompatible | ErrPasswordTooWeak | IDKeyPanics

definition MinPasswordLength :: nat where
  "MinPasswordLength = 12"

definition ValidatePassword :: "string \<Rightarrow> auth_error option" where
  "ValidatePassword password =
     (if RuneCount password < MinPasswordLength then Some ErrPasswordTooWeak
      else if 1024 < length password then Some ErrPasswordTooWeak
      else None)"

section \<open>Hashes\<close>

type_synonym argon2 = "string \<Rightarrow> string \<Rightarrow> nat \<Rightarrow> nat \<Rightarrow> nat \<Rightarrow> nat \<Rightarrow> string"

definition argon_size :: "argon2 \<Rightarrow> bool" where
  "argon_size IDKey \<longleftrightarrow> (\<forall>p s t m h k. length (IDKey p s t m h k) = k)"

record argonParams =
  ap_memory :: nat
  ap_time :: nat
  ap_threads :: nat

definition argonTime :: nat where
  "argonTime = 2"

definition argonMemory :: nat where
  "argonMemory = 64 * 1024"

definition argonThreads :: nat where
  "argonThreads = 1"

definition argonKeyLen :: nat where
  "argonKeyLen = 32"

definition argonVersion :: int where
  "argonVersion = 0x13"

definition saltLen :: nat where
  "saltLen = 16"

definition encoded_hash :: "string \<Rightarrow> string \<Rightarrow> string" where
  "encoded_hash salt key =
     ''$argon2id$v='' @ itoa argonVersion @ ''$m='' @ itoa (int argonMemory) @ '',t='' @ itoa (int argonTime) @
     '',p='' @ itoa (int argonThreads) @ ''$'' @ EncodeToString RawStdEncoding salt @ ''$'' @ EncodeToString RawStdEncoding key"

definition HashPassword :: "argon2 \<Rightarrow> string \<Rightarrow> string \<Rightarrow> auth_error + string" where
  "HashPassword IDKey salt password =
     (case ValidatePassword password of
        Some err \<Rightarrow> Inl err
      | None \<Rightarrow> Inr (encoded_hash salt (IDKey password salt argonTime argonMemory argonThreads argonKeyLen)))"

definition decode_params :: "string \<Rightarrow> argonParams option" where
  "decode_params s =
     Option.bind (scan_literal ''m='' s) (\<lambda>s. Option.bind (scan_uint 32 s) (\<lambda>(m, s).
     Option.bind (scan_literal '',t='' s) (\<lambda>s. Option.bind (scan_uint 32 s) (\<lambda>(t, s).
     Option.bind (scan_literal '',p='' s) (\<lambda>s. Option.bind (scan_uint 8 s) (\<lambda>(p, s).
       Some \<lparr>ap_memory = m, ap_time = t, ap_threads = p\<rparr>))))))"

definition decodeHash :: "string \<Rightarrow> auth_error + argonParams \<times> string \<times> string" where
  "decodeHash encoded =
     (case split_on CHR ''$'' encoded of
        [e, kind, v, params, s, k] \<Rightarrow>
          if kind \<noteq> ''argon2id'' then Inl ErrInvalidHash
          else (case Option.bind (scan_literal ''v='' v) scan_int of
            None \<Rightarrow> Inl ErrInvalidHash
          | Some (version, r) \<Rightarrow>
              if version \<noteq> argonVersion then Inl ErrIncompatible
              else (case (decode_params params, DecodeString RawStdEncoding s, DecodeString RawStdEncoding k) of
                (Some p, Some salt, Some key) \<Rightarrow>
                  if salt = [] \<or> key = [] then Inl ErrInvalidHash else Inr (p, salt, key)
              | _ \<Rightarrow> Inl ErrInvalidHash))
      | _ \<Rightarrow> Inl ErrInvalidHash)"

text \<open>\<open>VerifyPassword\<close>; \<open>argon2.IDKey\<close> panics without an iteration or a thread.\<close>

definition VerifyPassword :: "argon2 \<Rightarrow> string \<Rightarrow> string \<Rightarrow> auth_error + bool" where
  "VerifyPassword IDKey password encoded =
     (case decodeHash encoded of
        Inl err \<Rightarrow> Inl err
      | Inr (p, salt, want) \<Rightarrow>
          if ap_time p < 1 \<or> ap_threads p < 1 then Inl IDKeyPanics
          else Inr (IDKey password salt (ap_time p) (ap_memory p) (ap_threads p) (length want mod 2 ^ 32) = want))"

lemma skip_space_printable: "s \<noteq> [] \<Longrightarrow> printable (hd s) \<Longrightarrow> skip_space s = Some s"
proof -
  assume s: "s \<noteq> []" "printable (hd s)"
  have "strip_prefix space_runes (hd s # tl s) = None"
    using space_rune_ends s(2) by (intro strip_prefix_None) metis
  moreover have "hd s \<noteq> CHR 0x0A" using s(2) by (auto simp: printable_def)
  ultimately show ?thesis using s(1) by (simp add: skip_space.simps [of s])
qed

lemma digits_concrete: "digits 65536 = ''65536''" "digits 19 = ''19''" "digits 2 = ''2''" "digits (Suc 0) = ''1''"
  by (simp_all add: digits.simps) code_simp+

lemma decode_own_params:
  "decode_params ''m=65536,t=2,p=1'' = Some \<lparr>ap_memory = 65536, ap_time = 2, ap_threads = 1\<rparr>"
  by (simp add: decode_params_def scan_literal_def scan_uint_def skip_space_printable printable_def ParseUint_def is_digit_def
      decimal_def digit_value_def)

lemma scan_own_version: "scan_int ''19'' = Some (19, [])"
  by (simp add: scan_int_def skip_space_printable printable_def ParseInt_def is_digit_def decimal_def digit_value_def)

lemma decode_encoded_hash:
  assumes "salt \<noteq> []" "key \<noteq> []"
  shows "decodeHash (encoded_hash salt key) =
    Inr (\<lparr>ap_memory = argonMemory, ap_time = argonTime, ap_threads = argonThreads\<rparr>, salt, key)"
proof -
  have "encoded_hash salt key = [] @ CHR ''$'' # ''argon2id'' @ CHR ''$'' # ''v=19'' @ CHR ''$'' # ''m=65536,t=2,p=1'' @ CHR ''$'' #
      EncodeToString RawStdEncoding salt @ CHR ''$'' # EncodeToString RawStdEncoding key"
    by (simp add: encoded_hash_def itoa_nonneg argonVersion_def argonMemory_def argonTime_def argonThreads_def digits_concrete)
  then have "split_on CHR ''$'' (encoded_hash salt key) = [[], ''argon2id'', ''v=19'', ''m=65536,t=2,p=1'',
      EncodeToString RawStdEncoding salt, EncodeToString RawStdEncoding key]"
    using EncodeToString_plain by (simp add: split_on_append split_on_single)
  then show ?thesis
    using assms by (simp add: decodeHash_def scan_literal_def scan_own_version decode_own_params DecodeString_Encode
        argonVersion_def argonMemory_def argonTime_def argonThreads_def)
qed

lemma VerifyPassword_encoded:
  assumes "argon_size IDKey" "length salt = saltLen"
    and "key = IDKey password salt argonTime argonMemory argonThreads argonKeyLen"
  shows "VerifyPassword IDKey attempt (encoded_hash salt key) =
    Inr (IDKey attempt salt argonTime argonMemory argonThreads argonKeyLen = key)"
proof -
  have len: "length key = 32" using assms(1,3) by (simp add: argon_size_def argonKeyLen_def)
  then have "salt \<noteq> []" "key \<noteq> []" using assms(2) by (auto simp: saltLen_def)
  then have "decodeHash (encoded_hash salt key) = Inr (\<lparr>ap_memory = argonMemory, ap_time = argonTime, ap_threads = argonThreads\<rparr>, salt, key)"
    using decode_encoded_hash by blast
  then show ?thesis using len by (simp add: VerifyPassword_def argonTime_def argonThreads_def argonKeyLen_def)
qed

text \<open>
  C29: The hash of a password reads back with the parameters, the salt and the key it was written with, so a
  password is accepted against it exactly when Argon2 derives the same key from it: the password itself always
  is, whatever bytes it holds.
\<close>

theorem password_verifies_iff_same_key:
  assumes "HashPassword IDKey salt password = Inr hash" "argon_size IDKey" "length salt = saltLen"
  shows "VerifyPassword IDKey attempt hash =
    Inr (IDKey attempt salt argonTime argonMemory argonThreads argonKeyLen =
         IDKey password salt argonTime argonMemory argonThreads argonKeyLen)"
  using assms VerifyPassword_encoded [OF assms(2,3)] by (auto simp: HashPassword_def split: option.splits)

definition example_argon :: argon2 where
  "example_argon p s t m h k = take k (p @ replicate k CHR ''x'')"

lemma example_argon_size [simp]: "argon_size example_argon"
  by (simp add: argon_size_def example_argon_def min_def)

theorem password_verifies_iff_same_key_witness:
  "\<exists>hash. HashPassword example_argon (replicate 16 CHR ''s'') ''correct horse battery'' = Inr hash \<and>
    VerifyPassword example_argon ''correct horse battery'' hash = Inr True \<and>
    VerifyPassword example_argon ''Correct horse battery'' hash = Inr False"
proof -
  have "ValidatePassword ''correct horse battery'' = None"
    by (simp add: ValidatePassword_def RuneCount_def MinPasswordLength_def runes_ascii)
  then have "\<exists>hash. HashPassword example_argon (replicate 16 CHR ''s'') ''correct horse battery'' = Inr hash"
    by (simp add: HashPassword_def)
  then show ?thesis
    using password_verifies_iff_same_key [of example_argon "replicate 16 CHR ''s''" "''correct horse battery''"]
    by (auto simp: saltLen_def example_argon_def argonKeyLen_def)
qed

end
