(* ===== verification/Users.thy ===== *)
theory Users
  imports Password "HOL-Library.Char_ord" "HOL-Library.List_Lexorder"
begin

text \<open>
  Accounts, browser sessions, API tokens and the record of failed sign-ins (\<open>internal/store/users.go\<close>,
  \<open>sessions.go\<close> and the tables of \<open>migrations\<close>). A table is the list of its rows in the order of their
  insertion; what the schema demands of a row (uniqueness, references, cascades) is part of the statement
  that writes it. SHA-256 and \<open>strings.ToLower\<close> are the parameters \<open>sha\<close> and \<open>ToLower\<close>; random bytes are
  arguments. A statement that fails for another reason than those below leaves the tables as they are.
\<close>

section \<open>Roles\<close>

type_synonym role = string

definition RoleAdmin :: role where
  "RoleAdmin = ''admin''"

definition RoleEditor :: role where
  "RoleEditor = ''editor''"

definition RoleViewer :: role where
  "RoleViewer = ''viewer''"

definition Valid :: "role \<Rightarrow> bool" where
  "Valid r \<longleftrightarrow> r \<in> {RoleAdmin, RoleEditor, RoleViewer}"

definition CanWrite :: "role \<Rightarrow> bool" where
  "CanWrite r \<longleftrightarrow> r = RoleAdmin \<or> r = RoleEditor"

definition CanAdmin :: "role \<Rightarrow> bool" where
  "CanAdmin r \<longleftrightarrow> r = RoleAdmin"

definition rank :: "role \<Rightarrow> nat" where
  "rank r = (if r = RoleAdmin then 3 else if r = RoleEditor then 2 else if r = RoleViewer then 1 else 0)"

definition Within :: "role \<Rightarrow> role \<Rightarrow> bool" where
  "Within r cap \<longleftrightarrow> rank r \<le> rank cap"

definition Capped :: "role \<Rightarrow> role \<Rightarrow> role" where
  "Capped r cap = (if r = [] \<or> \<not> Within r cap then cap else r)"

section \<open>The tables\<close>

record user =
  u_ID :: int
  u_Email :: string
  u_PasswordHash :: string
  u_Role :: role
  u_CreatedAt :: int
  u_UpdatedAt :: int

record session =
  se_TokenHash :: string
  se_ID :: string
  se_UserID :: int
  se_CreatedAt :: int
  se_ExpiresAt :: int
  se_LastSeenAt :: int
  se_UserAgent :: string
  se_IP :: string

record api_token =
  t_ID :: int
  t_TokenHash :: string
  t_Prefix :: string
  t_Name :: string
  t_UserID :: int
  t_Role :: "role option"
  t_CreatedAt :: int
  t_ExpiresAt :: "int option"
  t_LastUsedAt :: "int option"
  t_RevokedAt :: "int option"

record accounts =
  ac_users :: "user list"
  ac_nextUser :: int
  ac_sessions :: "session list"
  ac_tokens :: "api_token list"
  ac_nextToken :: int
  ac_attempts :: "(string \<times> int) list"

datatype account_error =
  ErrNotFound | ErrEmailInUse | ErrSetupComplete | ErrLastAdmin | InvalidRole | Constraint | Refused auth_error

definition no_accounts :: accounts where
  "no_accounts = \<lparr>ac_users = [], ac_nextUser = 1, ac_sessions = [], ac_tokens = [], ac_nextToken = 1, ac_attempts = []\<rparr>"

text \<open>The column compares without the case of ASCII letters (\<open>COLLATE NOCASE\<close>).\<close>

definition nocase :: "string \<Rightarrow> string" where
  "nocase = map to_lower"

definition hex_digit :: "nat \<Rightarrow> char" where
  "hex_digit n = char_of (if n < 10 then 48 + n else 87 + n)"

definition hex :: "string \<Rightarrow> string" where
  "hex bs = concat (map (\<lambda>b. [hex_digit (of_char b div 16), hex_digit (of_char b mod 16)]) bs)"

type_synonym digest = "string \<Rightarrow> string"

definition HashToken :: "digest \<Rightarrow> string \<Rightarrow> string" where
  "HashToken sha token = hex (sha token)"

definition GenerateSessionToken :: "string \<Rightarrow> string" where
  "GenerateSessionToken bytes = EncodeToString RawURLEncoding bytes"

definition TokenPrefix :: string where
  "TokenPrefix = ''sgp_''"

definition GenerateAPIToken :: "string \<Rightarrow> string \<times> string" where
  "GenerateAPIToken bytes =
     (let token = TokenPrefix @ EncodeToString RawURLEncoding bytes in (token, take (length TokenPrefix + 6) token))"

definition newSessionID :: "string \<Rightarrow> string" where
  "newSessionID bytes = hex bytes"

definition ValidSessionID :: "string \<Rightarrow> bool" where
  "ValidSessionID s \<longleftrightarrow> length s = 32 \<and> list_all (\<lambda>c. is_digit c \<or> byte_between 97 102 c) s"

section \<open>Users\<close>

definition CountUsers :: "accounts \<Rightarrow> nat" where
  "CountUsers a = length (ac_users a)"

definition NormaliseEmail :: "string \<Rightarrow> string" where
  "NormaliseEmail = TrimSpace"

definition insert_user :: "string \<Rightarrow> string \<Rightarrow> role \<Rightarrow> instant \<Rightarrow> accounts \<Rightarrow> user \<times> accounts" where
  "insert_user email hash r now a =
     (let u = \<lparr>u_ID = ac_nextUser a, u_Email = email, u_PasswordHash = hash, u_Role = r,
               u_CreatedAt = Unix now, u_UpdatedAt = Unix now\<rparr>
      in (u, a\<lparr>ac_users := ac_users a @ [u], ac_nextUser := ac_nextUser a + 1\<rparr>))"

definition CreateUser ::
  "argon2 \<Rightarrow> string \<Rightarrow> instant \<Rightarrow> string \<Rightarrow> string \<Rightarrow> role \<Rightarrow> accounts \<Rightarrow> (account_error + user) \<times> accounts" where
  "CreateUser IDKey salt now email password r a =
     (if \<not> Valid r then (Inl InvalidRole, a)
      else let email = NormaliseEmail email in
      case HashPassword IDKey salt password of
        Inl err \<Rightarrow> (Inl (Refused err), a)
      | Inr hash \<Rightarrow>
          if list_ex (\<lambda>u. nocase (u_Email u) = nocase email) (ac_users a) then (Inl ErrEmailInUse, a)
          else let (u, a') = insert_user email hash r now a in (Inr u, a'))"

definition CreateFirstUser ::
  "argon2 \<Rightarrow> string \<Rightarrow> instant \<Rightarrow> string \<Rightarrow> string \<Rightarrow> role \<Rightarrow> accounts \<Rightarrow> (account_error + user) \<times> accounts" where
  "CreateFirstUser IDKey salt now email password r a =
     (if \<not> Valid r then (Inl InvalidRole, a)
      else let email = NormaliseEmail email in
      case HashPassword IDKey salt password of
        Inl err \<Rightarrow> (Inl (Refused err), a)
      | Inr hash \<Rightarrow>
          if ac_users a \<noteq> [] then (Inl ErrSetupComplete, a)
          else let (u, a') = insert_user email hash r now a in (Inr u, a'))"

definition GetUserByEmail :: "string \<Rightarrow> accounts \<Rightarrow> user option" where
  "GetUserByEmail email a = find (\<lambda>u. nocase (u_Email u) = nocase email) (ac_users a)"

definition GetUser :: "int \<Rightarrow> accounts \<Rightarrow> user option" where
  "GetUser i a = find (\<lambda>u. u_ID u = i) (ac_users a)"

definition ListUsers :: "accounts \<Rightarrow> user list" where
  "ListUsers a = map (u_PasswordHash_update (\<lambda>_. [])) (sort_key u_ID (ac_users a))"

definition update_users :: "(user \<Rightarrow> bool) \<Rightarrow> (user \<Rightarrow> user) \<Rightarrow> accounts \<Rightarrow> accounts" where
  "update_users P f a = a\<lparr>ac_users := map (\<lambda>u. if P u then f u else u) (ac_users a)\<rparr>"

definition delete_sessions :: "(session \<Rightarrow> bool) \<Rightarrow> accounts \<Rightarrow> int \<times> accounts" where
  "delete_sessions P a =
     (int (length (filter P (ac_sessions a))), a\<lparr>ac_sessions := filter (\<lambda>s. \<not> P s) (ac_sessions a)\<rparr>)"

definition UpdatePassword ::
  "argon2 \<Rightarrow> string \<Rightarrow> instant \<Rightarrow> int \<Rightarrow> string \<Rightarrow> accounts \<Rightarrow> account_error option \<times> accounts" where
  "UpdatePassword IDKey salt now i newPassword a =
     (case HashPassword IDKey salt newPassword of
        Inl err \<Rightarrow> (Some (Refused err), a)
      | Inr hash \<Rightarrow> (None, update_users (\<lambda>u. u_ID u = i) (\<lambda>u. u\<lparr>u_PasswordHash := hash, u_UpdatedAt := Unix now\<rparr>) a))"

definition MaxEmailLen :: nat where
  "MaxEmailLen = 254"

definition LoginAttemptEmailKey :: "digest \<Rightarrow> (string \<Rightarrow> string) \<Rightarrow> string \<Rightarrow> string" where
  "LoginAttemptEmailKey sha ToLower email =
     (let lower = ToLower email in
      if length lower \<le> MaxEmailLen then ''email:'' @ lower else ''email-sha256:'' @ hex (sha lower))"

definition ClearLoginAttempts :: "string \<Rightarrow> accounts \<Rightarrow> accounts" where
  "ClearLoginAttempts identifier a = a\<lparr>ac_attempts := filter (\<lambda>(k, t). k \<noteq> identifier) (ac_attempts a)\<rparr>"

definition ResetPassword ::
  "argon2 \<Rightarrow> digest \<Rightarrow> (string \<Rightarrow> string) \<Rightarrow> string \<Rightarrow> instant \<Rightarrow> int \<Rightarrow> string \<Rightarrow> accounts
     \<Rightarrow> (account_error + int) \<times> accounts" where
  "ResetPassword IDKey sha ToLower salt now i newPassword a =
     (case HashPassword IDKey salt newPassword of
        Inl err \<Rightarrow> (Inl (Refused err), a)
      | Inr hash \<Rightarrow>
          (case GetUser i a of
             None \<Rightarrow> (Inl ErrNotFound, a)
           | Some u \<Rightarrow>
               (let a1 = update_users (\<lambda>u. u_ID u = i) (\<lambda>u. u\<lparr>u_PasswordHash := hash, u_UpdatedAt := Unix now\<rparr>) a;
                    (ended, a2) = delete_sessions (\<lambda>s. se_UserID s = i) a1
                in (Inr ended, ClearLoginAttempts (LoginAttemptEmailKey sha ToLower (u_Email u)) a2))))"

definition otherAdminExists :: "int \<Rightarrow> accounts \<Rightarrow> bool" where
  "otherAdminExists i a = list_ex (\<lambda>u. u_Role u = RoleAdmin \<and> u_ID u \<noteq> i) (ac_users a)"

definition explainUnchanged :: "nat \<Rightarrow> int \<Rightarrow> accounts \<Rightarrow> account_error option" where
  "explainUnchanged n i a =
     (if 0 < n then None else case GetUser i a of None \<Rightarrow> Some ErrNotFound | Some _ \<Rightarrow> Some ErrLastAdmin)"

text \<open>Deleting a row of \<open>users\<close> deletes the rows that refer to it.\<close>

definition cascade :: "int set \<Rightarrow> accounts \<Rightarrow> accounts" where
  "cascade gone a =
     a\<lparr>ac_users := filter (\<lambda>u. u_ID u \<notin> gone) (ac_users a),
       ac_sessions := filter (\<lambda>s. se_UserID s \<notin> gone) (ac_sessions a),
       ac_tokens := filter (\<lambda>t. t_UserID t \<notin> gone) (ac_tokens a)\<rparr>"

definition DeleteUser :: "int \<Rightarrow> accounts \<Rightarrow> account_error option \<times> accounts" where
  "DeleteUser i a =
     (let hit = filter (\<lambda>u. u_ID u = i \<and> (u_Role u \<noteq> RoleAdmin \<or> otherAdminExists (u_ID u) a)) (ac_users a);
          a' = cascade (u_ID ` set hit) a
      in (explainUnchanged (length hit) i a', a'))"

definition SetUserRole :: "instant \<Rightarrow> int \<Rightarrow> role \<Rightarrow> accounts \<Rightarrow> (account_error + user) \<times> accounts" where
  "SetUserRole now i r a =
     (if \<not> Valid r then (Inl InvalidRole, a)
      else
        let P = (\<lambda>u. u_ID u = i \<and> (r = RoleAdmin \<or> u_Role u \<noteq> RoleAdmin \<or> otherAdminExists (u_ID u) a));
            a' = update_users P (\<lambda>u. u\<lparr>u_Role := r, u_UpdatedAt := Unix now\<rparr>) a
        in (case explainUnchanged (length (filter P (ac_users a))) i a' of
              Some err \<Rightarrow> Inl err
            | None \<Rightarrow> (case GetUser i a' of None \<Rightarrow> Inl ErrNotFound | Some u \<Rightarrow> Inr u), a'))"

section \<open>Sessions\<close>

definition SessionTTL :: duration where
  "SessionTTL = hours (7 * 24)"

text \<open>\<open>cutBytes\<close>: back off at most three bytes to the start of a character.\<close>

fun back_off :: "nat \<Rightarrow> string \<Rightarrow> nat \<Rightarrow> nat" where
  "back_off 0 s n = n"
| "back_off (Suc k) s n = (if n = 0 \<or> RuneStart (s ! n) then n else back_off k s (n - 1))"

definition cutBytes :: "string \<Rightarrow> int \<Rightarrow> string" where
  "cutBytes s n = (if int (length s) \<le> n then s else take (back_off 3 s (nat (max n 0))) s)"

definition CreateSession ::
  "digest \<Rightarrow> string \<Rightarrow> string \<Rightarrow> instant \<Rightarrow> int \<Rightarrow> string \<Rightarrow> string \<Rightarrow> accounts \<Rightarrow> (account_error + string) \<times> accounts" where
  "CreateSession sha bytes idBytes now i userAgent ip a =
     (let token = GenerateSessionToken bytes;
          s = \<lparr>se_TokenHash = HashToken sha token, se_ID = newSessionID idBytes, se_UserID = i, se_CreatedAt = Unix now,
               se_ExpiresAt = Unix (now + SessionTTL), se_LastSeenAt = Unix now,
               se_UserAgent = cutBytes userAgent 255, se_IP = cutBytes ip 64\<rparr>
      in if GetUser i a = None
          \<or> list_ex (\<lambda>x. se_TokenHash x = se_TokenHash s \<or> se_ID x = se_ID s) (ac_sessions a) then (Inl Constraint, a)
         else (Inr token, a\<lparr>ac_sessions := ac_sessions a @ [s]\<rparr>))"

definition update_sessions :: "(session \<Rightarrow> bool) \<Rightarrow> (session \<Rightarrow> session) \<Rightarrow> accounts \<Rightarrow> accounts" where
  "update_sessions P f a = a\<lparr>ac_sessions := map (\<lambda>s. if P s then f s else s) (ac_sessions a)\<rparr>"

definition found :: "'a option \<Rightarrow> account_error + 'a" where
  "found r = (case r of None \<Rightarrow> Inl ErrNotFound | Some x \<Rightarrow> Inr x)"

text \<open>\<open>wrote\<close>: whether the write on the way succeeds; its error is ignored.\<close>

definition LookupSession :: "digest \<Rightarrow> bool \<Rightarrow> instant \<Rightarrow> string \<Rightarrow> accounts \<Rightarrow> (account_error + user) \<times> accounts" where
  "LookupSession sha wrote now token a =
     (let hash = HashToken sha token in
      case find (\<lambda>s. se_TokenHash s = hash) (ac_sessions a) of
        None \<Rightarrow> (Inl ErrNotFound, a)
      | Some s \<Rightarrow>
          if se_ExpiresAt s < Unix now
          then (Inl ErrNotFound, if wrote then snd (delete_sessions (\<lambda>x. se_TokenHash x = hash) a) else a)
          else
            let a' = (if of_Unix (se_ExpiresAt s) - now < SessionTTL - hours 1 \<and> wrote
                      then update_sessions (\<lambda>x. se_TokenHash x = hash)
                             (\<lambda>x. x\<lparr>se_ExpiresAt := Unix (now + SessionTTL), se_LastSeenAt := Unix now\<rparr>) a
                      else a)
            in (found (GetUser (se_UserID s) a'), a'))"

definition DeleteSession :: "digest \<Rightarrow> string \<Rightarrow> accounts \<Rightarrow> accounts" where
  "DeleteSession sha token a = snd (delete_sessions (\<lambda>s. se_TokenHash s = HashToken sha token) a)"

definition DeleteUserSessions :: "int \<Rightarrow> accounts \<Rightarrow> accounts" where
  "DeleteUserSessions i a = snd (delete_sessions (\<lambda>s. se_UserID s = i) a)"

definition PurgeExpiredSessions :: "instant \<Rightarrow> accounts \<Rightarrow> int \<times> accounts" where
  "PurgeExpiredSessions now a = delete_sessions (\<lambda>s. se_ExpiresAt s < Unix now) a"

definition ListSessions :: "instant \<Rightarrow> int \<Rightarrow> accounts \<Rightarrow> session list" where
  "ListSessions now i a =
     sort_key (\<lambda>s. - se_LastSeenAt s) (sort_key (\<lambda>s. - se_CreatedAt s) (sort_key se_ID
       (filter (\<lambda>s. se_UserID s = i \<and> Unix now \<le> se_ExpiresAt s) (ac_sessions a))))"

definition EndSession :: "int \<Rightarrow> string \<Rightarrow> accounts \<Rightarrow> account_error option \<times> accounts" where
  "EndSession i sid a =
     (let (n, a') = delete_sessions (\<lambda>s. se_UserID s = i \<and> se_ID s = sid) a
      in (if n = 0 then Some ErrNotFound else None, a'))"

definition EndOtherSessions :: "digest \<Rightarrow> int \<Rightarrow> string \<Rightarrow> accounts \<Rightarrow> int \<times> accounts" where
  "EndOtherSessions sha i keepToken a =
     (let keep = (if keepToken \<noteq> [] then HashToken sha keepToken else [])
      in delete_sessions (\<lambda>s. se_UserID s = i \<and> se_TokenHash s \<noteq> keep) a)"

definition EndUserSessions :: "int \<Rightarrow> accounts \<Rightarrow> (account_error + int) \<times> accounts" where
  "EndUserSessions i a =
     (case GetUser i a of
        None \<Rightarrow> (Inl ErrNotFound, a)
      | Some _ \<Rightarrow> (let (n, a') = delete_sessions (\<lambda>s. se_UserID s = i) a in (Inr n, a')))"

section \<open>API tokens\<close>

text \<open>The role is empty when the token has none of its own; \<open>CreateAPIToken\<close> issues such a token.\<close>

definition CreateScopedAPIToken ::
  "digest \<Rightarrow> string \<Rightarrow> instant \<Rightarrow> int \<Rightarrow> string \<Rightarrow> role \<Rightarrow> instant option \<Rightarrow> accounts
     \<Rightarrow> (account_error + string \<times> api_token) \<times> accounts" where
  "CreateScopedAPIToken sha bytes now i name r expiresAt a =
     (if r \<noteq> [] \<and> \<not> Valid r then (Inl InvalidRole, a)
      else
        let (token, prefix) = GenerateAPIToken bytes;
            t = \<lparr>t_ID = ac_nextToken a, t_TokenHash = HashToken sha token, t_Prefix = prefix, t_Name = name, t_UserID = i,
                 t_Role = (if r \<noteq> [] then Some r else None), t_CreatedAt = Unix now,
                 t_ExpiresAt = map_option Unix expiresAt, t_LastUsedAt = None, t_RevokedAt = None\<rparr>
        in if GetUser i a = None \<or> list_ex (\<lambda>x. t_TokenHash x = t_TokenHash t) (ac_tokens a) then (Inl Constraint, a)
           else (Inr (token, t), a\<lparr>ac_tokens := ac_tokens a @ [t], ac_nextToken := ac_nextToken a + 1\<rparr>))"

definition update_tokens :: "(api_token \<Rightarrow> bool) \<Rightarrow> (api_token \<Rightarrow> api_token) \<Rightarrow> accounts \<Rightarrow> accounts" where
  "update_tokens P f a = a\<lparr>ac_tokens := map (\<lambda>t. if P t then f t else t) (ac_tokens a)\<rparr>"

definition role_column :: "role option \<Rightarrow> role" where
  "role_column r = (case r of None \<Rightarrow> [] | Some x \<Rightarrow> x)"

definition LookupAPIToken :: "digest \<Rightarrow> bool \<Rightarrow> instant \<Rightarrow> string \<Rightarrow> accounts \<Rightarrow> (account_error + user) \<times> accounts" where
  "LookupAPIToken sha wrote now token a =
     (case find (\<lambda>t. t_TokenHash t = HashToken sha token) (ac_tokens a) of
        None \<Rightarrow> (Inl ErrNotFound, a)
      | Some t \<Rightarrow>
          if t_RevokedAt t \<noteq> None then (Inl ErrNotFound, a)
          else if (case t_ExpiresAt t of None \<Rightarrow> False | Some e \<Rightarrow> e < Unix now) then (Inl ErrNotFound, a)
          else
            let a' = (if wrote then update_tokens (\<lambda>x. t_ID x = t_ID t) (t_LastUsedAt_update (\<lambda>_. Some (Unix now))) a else a)
            in (case GetUser (t_UserID t) a' of
                  None \<Rightarrow> Inl ErrNotFound
                | Some u \<Rightarrow> Inr (u\<lparr>u_Role := Capped (role_column (t_Role t)) (u_Role u)\<rparr>), a'))"

definition ListAPITokens :: "int \<Rightarrow> accounts \<Rightarrow> api_token list" where
  "ListAPITokens i a = sort_key (\<lambda>t. - t_ID t) (filter (\<lambda>t. t_UserID t = i) (ac_tokens a))"

definition RevokeAPIToken :: "instant \<Rightarrow> int \<Rightarrow> int \<Rightarrow> accounts \<Rightarrow> account_error option \<times> accounts" where
  "RevokeAPIToken now tid i a =
     (let P = (\<lambda>t. t_ID t = tid \<and> t_UserID t = i \<and> t_RevokedAt t = None) in
      (if list_ex P (ac_tokens a) then None else Some ErrNotFound,
       update_tokens P (t_RevokedAt_update (\<lambda>_. Some (Unix now))) a))"

section \<open>Failed sign-ins\<close>

definition RecordLoginAttempt :: "instant \<Rightarrow> string \<Rightarrow> accounts \<Rightarrow> accounts" where
  "RecordLoginAttempt now identifier a = a\<lparr>ac_attempts := ac_attempts a @ [(identifier, Unix now)]\<rparr>"

definition CountRecentLoginAttempts :: "instant \<Rightarrow> string \<Rightarrow> duration \<Rightarrow> accounts \<Rightarrow> nat" where
  "CountRecentLoginAttempts now identifier window a =
     length (filter (\<lambda>(k, t). k = identifier \<and> Unix (now - window) < t) (ac_attempts a))"

definition PurgeOldLoginAttempts :: "instant \<Rightarrow> duration \<Rightarrow> accounts \<Rightarrow> accounts" where
  "PurgeOldLoginAttempts now olderThan a =
     a\<lparr>ac_attempts := filter (\<lambda>(k, t). \<not> t < Unix (now - olderThan)) (ac_attempts a)\<rparr>"

text \<open>Of \<open>ResetInstance\<close>, what it does to these tables.\<close>

definition reset_tokens :: "accounts \<Rightarrow> accounts" where
  "reset_tokens a = a\<lparr>ac_tokens := []\<rparr>"

end
