(* ===== verification/SignIn.thy ===== *)
theory SignIn
  imports Users
begin

text \<open>
  Who may do what: the credentials of a request, the access levels of the routes and the handlers for
  signing in, passwords, tokens, sessions and accounts (\<open>internal/api/auth.go\<close>, \<open>tokens.go\<close>, \<open>sessions.go\<close>,
  \<open>reset.go\<close> and the middleware of \<open>server.go\<close>), with \<open>subglance reset-password\<close>. A request comes with its
  body decoded and the client's address resolved; an answer is its status with the credential it hands out.
\<close>

section \<open>Requests and answers\<close>

record env =
  e_IDKey :: argon2
  e_sha :: digest
  e_ToLower :: "string \<Rightarrow> string"
  e_baseOrigin :: string

text \<open>
  What one request draws from outside: the clock, random bytes, whether the writes whose error is only logged
  succeed, whether the counts of failed sign-ins can be read, and what the flood limit says.
\<close>

record draw =
  dr_now :: instant
  dr_bytes :: string
  dr_id :: string
  dr_salt :: string
  dr_wrote :: bool
  dr_counted :: bool
  dr_allowed :: bool

text \<open>An absent header is empty.\<close>

record request =
  rq_Authorization :: string
  rq_HostCookie :: "string option"
  rq_PlainCookie :: "string option"
  rq_FetchSite :: string
  rq_Origin :: string
  rq_Host :: string
  rq_UserAgent :: string
  rq_IP :: string

record response =
  rs_Status :: nat
  rs_Session :: "string option"
  rs_Token :: "string option"

definition answer :: "nat \<Rightarrow> response" where
  "answer st = \<lparr>rs_Status = st, rs_Session = None, rs_Token = None\<rparr>"

datatype expiry = Never | NotADuration | ExpiresIn duration

datatype action =
    Setup string string
  | Login string string
  | Logout
  | ChangePassword string string
  | CreateToken string expiry role
  | RevokeToken string
  | AddUser string string role
  | UpdateUser string "role option"
  | RemoveUser string
  | EndOne string
  | EndOthers
  | EndAllOf string
  | ResetAll string

datatype access = accessPublic | accessRead | accessWrite | accessAdmin

section \<open>Credentials\<close>

definition authenticate :: "env \<Rightarrow> draw \<Rightarrow> request \<Rightarrow> accounts \<Rightarrow> user option \<times> accounts" where
  "authenticate e d rq a =
     (let resolved = (\<lambda>(r, a'). (case r of Inl err \<Rightarrow> None | Inr u \<Rightarrow> Some u, a')) in
      if rq_Authorization rq \<noteq> [] then
        if take 7 (rq_Authorization rq) \<noteq> ''Bearer '' then (None, a)
        else resolved (LookupAPIToken (e_sha e) (dr_wrote d) (dr_now d) (TrimSpace (drop 7 (rq_Authorization rq))) a)
      else
        case (case rq_HostCookie rq of None \<Rightarrow> rq_PlainCookie rq | c \<Rightarrow> c) of
          None \<Rightarrow> (None, a)
        | Some cookie \<Rightarrow> resolved (LookupSession (e_sha e) (dr_wrote d) (dr_now d) cookie a))"

definition cookieAuthenticated :: "request \<Rightarrow> bool" where
  "cookieAuthenticated rq \<longleftrightarrow> rq_Authorization rq = []"

definition sessionToken :: "request \<Rightarrow> string" where
  "sessionToken rq =
     (if rq_Authorization rq \<noteq> [] then []
      else case (case rq_HostCookie rq of None \<Rightarrow> rq_PlainCookie rq | c \<Rightarrow> c) of None \<Rightarrow> [] | Some c \<Rightarrow> c)"

definition sameOrigin :: "env \<Rightarrow> request \<Rightarrow> bool" where
  "sameOrigin e rq \<longleftrightarrow>
     e_baseOrigin e \<noteq> [] \<and> rq_Origin rq = e_baseOrigin e \<or>
     rq_Origin rq \<in> {''https://'' @ rq_Host rq, ''http://'' @ rq_Host rq}"

text \<open>\<open>crossOriginRefusal\<close>: whether there is one.\<close>

definition crossOriginRefusal :: "env \<Rightarrow> request \<Rightarrow> bool" where
  "crossOriginRefusal e rq =
     (if rq_FetchSite rq \<in> {''same-origin'', ''none''} then False
      else if rq_FetchSite rq \<in> {''cross-site'', ''same-site''} then True
      else \<not> (rq_Origin rq = [] \<or> sameOrigin e rq))"

section \<open>The forms\<close>

definition maxNameLen :: nat where
  "maxNameLen = 100"

definition nameProblem :: "string \<Rightarrow> bool" where
  "nameProblem name \<longleftrightarrow> HasControlCharacter name \<or> maxNameLen < RuneCount name"

definition containsAt :: "string \<Rightarrow> bool" where
  "containsAt s = list_ex (\<lambda>c. c = CHR 0x40) (butlast (tl s))"

definition emailProblem :: "string \<Rightarrow> bool" where
  "emailProblem email \<longleftrightarrow>
     email = [] \<or> \<not> containsAt email \<or> MaxEmailLen < RuneCount email \<or> HasControlCharacter email"

definition passwordProblem :: "string \<Rightarrow> bool" where
  "passwordProblem password \<longleftrightarrow> ValidatePassword password \<noteq> None"

definition pathID :: "string \<Rightarrow> int option" where
  "pathID s = (case ParseInt s of None \<Rightarrow> None | Some i \<Rightarrow> if i \<le> 0 then None else Some i)"

section \<open>Signing in\<close>

definition loginAttemptWindow :: duration where
  "loginAttemptWindow = minutes 15"

definition maxLoginAttempts :: nat where
  "maxLoginAttempts = 10"

definition issueSession :: "env \<Rightarrow> draw \<Rightarrow> request \<Rightarrow> user \<Rightarrow> accounts \<Rightarrow> (account_error + string) \<times> accounts" where
  "issueSession e d rq u a =
     CreateSession (e_sha e) (dr_bytes d) (dr_id d) (dr_now d) (u_ID u) (rq_UserAgent rq) (rq_IP rq) a"

text \<open>An answer with the session just issued; the other status when it could not be.\<close>

definition with_session :: "nat \<Rightarrow> nat \<Rightarrow> (account_error + string) \<times> accounts \<Rightarrow> response \<times> accounts" where
  "with_session ok failed r =
     (case fst r of Inl err \<Rightarrow> answer failed | Inr token \<Rightarrow> (answer ok)\<lparr>rs_Session := Some token\<rparr>, snd r)"

definition handleSetup :: "env \<Rightarrow> draw \<Rightarrow> request \<Rightarrow> string \<Rightarrow> string \<Rightarrow> accounts \<Rightarrow> response \<times> accounts" where
  "handleSetup e d rq email password a =
     (if 0 < CountUsers a then (answer 409, a)
      else let email = NormaliseEmail email in
      if emailProblem email then (answer 400, a)
      else if passwordProblem password then (answer 400, a)
      else case CreateFirstUser (e_IDKey e) (dr_salt d) (dr_now d) email password RoleAdmin a of
        (Inr u, a') \<Rightarrow> with_session 201 500 (issueSession e d rq u a')
      | (Inl err, a') \<Rightarrow> (answer (if err = ErrSetupComplete then 409 else 500), a'))"

text \<open>Up to the verification of the password: refused, or verifying against what is stored of the account.\<close>

definition login_keys :: "env \<Rightarrow> request \<Rightarrow> string \<Rightarrow> string list" where
  "login_keys e rq email = [LoginAttemptEmailKey (e_sha e) (e_ToLower e) email, ''ip:'' @ rq_IP rq]"

datatype login_start = Answered response | Verifying "user option"

definition login_start :: "env \<Rightarrow> draw \<Rightarrow> request \<Rightarrow> string \<Rightarrow> accounts \<Rightarrow> login_start" where
  "login_start e d rq email a =
     (if \<not> dr_allowed d then Answered (answer 429)
      else if dr_counted d \<and>
          list_ex (\<lambda>k. maxLoginAttempts \<le> CountRecentLoginAttempts (dr_now d) k loginAttemptWindow a) (login_keys e rq email)
      then Answered (answer 429)
      else Verifying (GetUserByEmail email a))"

definition recordFailedLogin :: "env \<Rightarrow> draw \<Rightarrow> request \<Rightarrow> string \<Rightarrow> accounts \<Rightarrow> accounts" where
  "recordFailedLogin e d rq email a =
     (if dr_wrote d then fold (RecordLoginAttempt (dr_now d)) (login_keys e rq email) a else a)"

definition login_finish ::
  "env \<Rightarrow> draw \<Rightarrow> request \<Rightarrow> string \<Rightarrow> string \<Rightarrow> user option \<Rightarrow> accounts \<Rightarrow> response \<times> accounts" where
  "login_finish e d rq email password stored a =
     (case stored of
        None \<Rightarrow> (answer 401, recordFailedLogin e d rq email a)
      | Some u \<Rightarrow>
          (case VerifyPassword (e_IDKey e) password (u_PasswordHash u) of
             Inl IDKeyPanics \<Rightarrow> (answer 500, a)
           | Inr True \<Rightarrow>
               with_session 200 500
                 (issueSession e d rq u (if dr_wrote d then fold ClearLoginAttempts (login_keys e rq email) a else a))
           | _ \<Rightarrow> (answer 401, recordFailedLogin e d rq email a)))"

definition handleLogin :: "env \<Rightarrow> draw \<Rightarrow> request \<Rightarrow> string \<Rightarrow> string \<Rightarrow> accounts \<Rightarrow> response \<times> accounts" where
  "handleLogin e d rq email password a =
     (case login_start e d rq email a of
        Answered r \<Rightarrow> (r, a)
      | Verifying stored \<Rightarrow> login_finish e d rq email password stored a)"

definition handleLogout :: "env \<Rightarrow> draw \<Rightarrow> request \<Rightarrow> accounts \<Rightarrow> response \<times> accounts" where
  "handleLogout e d rq a =
     (answer 204,
      case (case rq_HostCookie rq of None \<Rightarrow> rq_PlainCookie rq | c \<Rightarrow> c) of
        None \<Rightarrow> a
      | Some cookie \<Rightarrow> if dr_wrote d then DeleteSession (e_sha e) cookie a else a)"

definition handleChangePassword ::
  "env \<Rightarrow> draw \<Rightarrow> request \<Rightarrow> user \<Rightarrow> string \<Rightarrow> string \<Rightarrow> accounts \<Rightarrow> response \<times> accounts" where
  "handleChangePassword e d rq caller current new a =
     (case VerifyPassword (e_IDKey e) current (u_PasswordHash caller) of
        Inl IDKeyPanics \<Rightarrow> (answer 500, a)
      | Inr True \<Rightarrow>
          if passwordProblem new then (answer 400, a)
          else (case UpdatePassword (e_IDKey e) (dr_salt d) (dr_now d) (u_ID caller) new a of
            (Some err, a') \<Rightarrow> (answer 500, a')
          | (None, a') \<Rightarrow>
              with_session 204 204
                (issueSession e d rq caller (if dr_wrote d then DeleteUserSessions (u_ID caller) a' else a')))
      | _ \<Rightarrow> (answer 401, a))"

section \<open>Tokens, accounts and sessions\<close>

definition handleCreateToken ::
  "env \<Rightarrow> draw \<Rightarrow> user \<Rightarrow> string \<Rightarrow> expiry \<Rightarrow> role \<Rightarrow> accounts \<Rightarrow> response \<times> accounts" where
  "handleCreateToken e d caller name ex wanted a =
     (let name = TrimSpace name; r = (if wanted \<noteq> [] then wanted else u_Role caller) in
      if name = [] then (answer 400, a)
      else if nameProblem name then (answer 400, a)
      else if \<not> Valid r then (answer 400, a)
      else if \<not> Within r (u_Role caller) then (answer 403, a)
      else if (case ex of NotADuration \<Rightarrow> True | ExpiresIn l \<Rightarrow> l \<le> 0 | Never \<Rightarrow> False) then (answer 400, a)
      else case CreateScopedAPIToken (e_sha e) (dr_bytes d) (dr_now d) (u_ID caller) name r
                  (case ex of ExpiresIn l \<Rightarrow> Some (dr_now d + l) | _ \<Rightarrow> None) a of
        (Inl err, a') \<Rightarrow> (answer 500, a')
      | (Inr (token, t), a') \<Rightarrow> ((answer 201)\<lparr>rs_Token := Some token\<rparr>, a'))"

definition handleRevokeToken :: "draw \<Rightarrow> user \<Rightarrow> string \<Rightarrow> accounts \<Rightarrow> response \<times> accounts" where
  "handleRevokeToken d caller path a =
     (case pathID path of
        None \<Rightarrow> (answer 400, a)
      | Some i \<Rightarrow>
          (case RevokeAPIToken (dr_now d) i (u_ID caller) a of
             (Some err, a') \<Rightarrow> (answer 404, a')
           | (None, a') \<Rightarrow> (answer 204, a')))"

definition handleCreateUser :: "env \<Rightarrow> draw \<Rightarrow> string \<Rightarrow> string \<Rightarrow> role \<Rightarrow> accounts \<Rightarrow> response \<times> accounts" where
  "handleCreateUser e d email password wanted a =
     (let email = NormaliseEmail email; r = (if wanted = [] then RoleViewer else wanted) in
      if emailProblem email then (answer 400, a)
      else if \<not> Valid r then (answer 400, a)
      else if passwordProblem password then (answer 400, a)
      else case CreateUser (e_IDKey e) (dr_salt d) (dr_now d) email password r a of
        (Inl err, a') \<Rightarrow> (answer (if err = ErrEmailInUse then 400 else 500), a')
      | (Inr u, a') \<Rightarrow> (answer 201, a'))"

definition handleDeleteUser :: "user \<Rightarrow> string \<Rightarrow> accounts \<Rightarrow> response \<times> accounts" where
  "handleDeleteUser caller path a =
     (case pathID path of
        None \<Rightarrow> (answer 400, a)
      | Some i \<Rightarrow>
          if i = u_ID caller then (answer 400, a)
          else (case DeleteUser i a of
            (Some ErrNotFound, a') \<Rightarrow> (answer 404, a')
          | (Some ErrLastAdmin, a') \<Rightarrow> (answer 400, a')
          | (Some err, a') \<Rightarrow> (answer 500, a')
          | (None, a') \<Rightarrow> (answer 204, a')))"

definition handleUpdateUser :: "draw \<Rightarrow> user \<Rightarrow> string \<Rightarrow> role option \<Rightarrow> accounts \<Rightarrow> response \<times> accounts" where
  "handleUpdateUser d caller path wanted a =
     (case pathID path of
        None \<Rightarrow> (answer 400, a)
      | Some i \<Rightarrow>
          (case wanted of
             None \<Rightarrow> (answer 400, a)
           | Some r \<Rightarrow>
               if \<not> Valid r then (answer 400, a)
               else if i = u_ID caller then (answer 400, a)
               else (case SetUserRole (dr_now d) i r a of
                 (Inl ErrNotFound, a') \<Rightarrow> (answer 404, a')
               | (Inl ErrLastAdmin, a') \<Rightarrow> (answer 400, a')
               | (Inl err, a') \<Rightarrow> (answer 500, a')
               | (Inr u, a') \<Rightarrow> (answer 200, a'))))"

definition handleEndSession :: "user \<Rightarrow> string \<Rightarrow> accounts \<Rightarrow> response \<times> accounts" where
  "handleEndSession caller sid a =
     (if \<not> ValidSessionID sid then (answer 400, a)
      else case EndSession (u_ID caller) sid a of
        (Some err, a') \<Rightarrow> (answer 404, a')
      | (None, a') \<Rightarrow> (answer 204, a'))"

definition handleEndOtherSessions :: "env \<Rightarrow> request \<Rightarrow> user \<Rightarrow> accounts \<Rightarrow> response \<times> accounts" where
  "handleEndOtherSessions e rq caller a =
     (answer 200, snd (EndOtherSessions (e_sha e) (u_ID caller) (sessionToken rq) a))"

definition handleEndUserSessions :: "string \<Rightarrow> accounts \<Rightarrow> response \<times> accounts" where
  "handleEndUserSessions path a =
     (case pathID path of
        None \<Rightarrow> (answer 400, a)
      | Some i \<Rightarrow>
          (case EndUserSessions i a of
             (Inl err, a') \<Rightarrow> (answer 404, a')
           | (Inr n, a') \<Rightarrow> (answer 200, a')))"

definition resetPhrase :: string where
  "resetPhrase = ''DELETE ALL DATA''"

definition handleResetInstance :: "string \<Rightarrow> accounts \<Rightarrow> response \<times> accounts" where
  "handleResetInstance confirm a =
     (if confirm \<noteq> resetPhrase then (answer 400, a) else (answer 200, reset_tokens a))"

section \<open>Routes\<close>

definition route_access :: "action \<Rightarrow> access" where
  "route_access act =
     (case act of
        Setup email password \<Rightarrow> accessPublic
      | Login email password \<Rightarrow> accessPublic
      | Logout \<Rightarrow> accessRead
      | ChangePassword current new \<Rightarrow> accessRead
      | RevokeToken path \<Rightarrow> accessRead
      | EndOne sid \<Rightarrow> accessRead
      | EndOthers \<Rightarrow> accessRead
      | CreateToken name ex r \<Rightarrow> accessWrite
      | AddUser email password r \<Rightarrow> accessAdmin
      | UpdateUser path r \<Rightarrow> accessAdmin
      | RemoveUser path \<Rightarrow> accessAdmin
      | EndAllOf path \<Rightarrow> accessAdmin
      | ResetAll confirm \<Rightarrow> accessAdmin)"

definition allowed :: "access \<Rightarrow> role \<Rightarrow> bool" where
  "allowed acc r =
     (case acc of accessPublic \<Rightarrow> True | accessRead \<Rightarrow> True | accessWrite \<Rightarrow> CanWrite r | accessAdmin \<Rightarrow> CanAdmin r)"

text \<open>The handler of an authenticated route.\<close>

definition handle :: "env \<Rightarrow> draw \<Rightarrow> request \<Rightarrow> user \<Rightarrow> action \<Rightarrow> accounts \<Rightarrow> response \<times> accounts" where
  "handle e d rq caller act a =
     (case act of
        Setup email password \<Rightarrow> handleSetup e d rq email password a
      | Login email password \<Rightarrow> handleLogin e d rq email password a
      | Logout \<Rightarrow> handleLogout e d rq a
      | ChangePassword current new \<Rightarrow> handleChangePassword e d rq caller current new a
      | CreateToken name ex r \<Rightarrow> handleCreateToken e d caller name ex r a
      | RevokeToken path \<Rightarrow> handleRevokeToken d caller path a
      | AddUser email password r \<Rightarrow> handleCreateUser e d email password r a
      | UpdateUser path r \<Rightarrow> handleUpdateUser d caller path r a
      | RemoveUser path \<Rightarrow> handleDeleteUser caller path a
      | EndOne sid \<Rightarrow> handleEndSession caller sid a
      | EndOthers \<Rightarrow> handleEndOtherSessions e rq caller a
      | EndAllOf path \<Rightarrow> handleEndUserSessions path a
      | ResetAll confirm \<Rightarrow> handleResetInstance confirm a)"

text \<open>\<open>requireAuth\<close> around \<open>requireRole\<close> around the handler; every one of these routes changes state.\<close>

definition guarded :: "env \<Rightarrow> draw \<Rightarrow> request \<Rightarrow> action \<Rightarrow> accounts \<Rightarrow> response \<times> accounts" where
  "guarded e d rq act a =
     (case authenticate e d rq a of
        (None, a') \<Rightarrow> (answer 401, a')
      | (Some caller, a') \<Rightarrow>
          if cookieAuthenticated rq \<and> crossOriginRefusal e rq then (answer 403, a')
          else if \<not> allowed (route_access act) (u_Role caller) then (answer 403, a')
          else handle e d rq caller act a')"

definition serve :: "env \<Rightarrow> draw \<Rightarrow> request \<Rightarrow> action \<Rightarrow> accounts \<Rightarrow> response \<times> accounts" where
  "serve e d rq act a =
     (case act of
        Setup email password \<Rightarrow> handleSetup e d rq email password a
      | Login email password \<Rightarrow> handleLogin e d rq email password a
      | _ \<Rightarrow> guarded e d rq act a)"

text \<open>\<open>subglance reset-password\<close>, from the address and the password it was given.\<close>

definition resetPassword :: "env \<Rightarrow> draw \<Rightarrow> string \<Rightarrow> string \<Rightarrow> accounts \<Rightarrow> (account_error + int) \<times> accounts" where
  "resetPassword e d email password a =
     (case GetUserByEmail (TrimSpace email) a of
        None \<Rightarrow> (Inl ErrNotFound, a)
      | Some u \<Rightarrow> ResetPassword (e_IDKey e) (e_sha e) (e_ToLower e) (dr_salt d) (dr_now d) (u_ID u) password a)"

end
