(* ===== verification/Accounts.thy ===== *)
theory Accounts
  imports SignIn
begin

text \<open>
  What every operation on the accounts keeps: the tables stay well formed and an instance once set up keeps an
  administrator (\<open>accounts_ok\<close>), and rows only come from rows or from the credentials an answer hands out
  (\<open>evolves\<close>).
\<close>

section \<open>Well-formed tables\<close>

definition accounts_wf :: "accounts \<Rightarrow> bool" where
  "accounts_wf a \<longleftrightarrow>
     distinct (map u_ID (ac_users a)) \<and> distinct (map (\<lambda>u. nocase (u_Email u)) (ac_users a)) \<and>
     list_all (\<lambda>u. 0 < u_ID u \<and> u_ID u < ac_nextUser a \<and> Valid (u_Role u)) (ac_users a) \<and>
     distinct (map se_TokenHash (ac_sessions a)) \<and> distinct (map se_ID (ac_sessions a)) \<and>
     list_all (\<lambda>s. se_UserID s \<in> u_ID ` set (ac_users a)) (ac_sessions a) \<and>
     distinct (map t_ID (ac_tokens a)) \<and> distinct (map t_TokenHash (ac_tokens a)) \<and>
     list_all (\<lambda>t. t_ID t < ac_nextToken a \<and> t_UserID t \<in> u_ID ` set (ac_users a) \<and>
       (t_Role t = None \<or> Valid (role_column (t_Role t)))) (ac_tokens a) \<and>
     0 < ac_nextUser a"

definition has_admin :: "accounts \<Rightarrow> bool" where
  "has_admin a \<longleftrightarrow> list_ex (\<lambda>u. u_Role u = RoleAdmin) (ac_users a)"

text \<open>Not set up yet, or with an administrator.\<close>

definition accounts_ok :: "accounts \<Rightarrow> bool" where
  "accounts_ok a \<longleftrightarrow> accounts_wf a \<and> (ac_users a = [] \<and> ac_nextUser a = 1 \<or> has_admin a)"

lemma Valid_roles [simp]: "Valid RoleAdmin" "Valid RoleEditor" "Valid RoleViewer"
  by (simp_all add: Valid_def)

lemma Valid_nonempty: "Valid r \<Longrightarrow> r \<noteq> []"
  by (auto simp: Valid_def RoleAdmin_def RoleEditor_def RoleViewer_def)

lemma find_in: "find P xs = Some x \<Longrightarrow> x \<in> set xs \<and> P x"
  by (induction xs) (auto split: if_splits)

lemma GetUser_Some: "GetUser i a = Some u \<Longrightarrow> u \<in> set (ac_users a) \<and> u_ID u = i"
  by (auto simp: GetUser_def dest: find_in)

lemma GetUser_None: "GetUser i a = None \<longleftrightarrow> i \<notin> u_ID ` set (ac_users a)"
  by (auto simp: GetUser_def find_None_iff)

lemma map_if_same [simp]: "(\<And>x. f (g x) = f x) \<Longrightarrow> map f (map (\<lambda>x. if P x then g x else x) xs) = map f xs"
  by simp

section \<open>Primitive statements\<close>

text \<open>An update of columns that are neither keys nor references.\<close>

lemma wf_update_users:
  assumes "accounts_wf a" "\<And>u. u_ID (f u) = u_ID u" "\<And>u. u_Email (f u) = u_Email u"
    "\<And>u. u \<in> set (ac_users a) \<Longrightarrow> P u \<Longrightarrow> Valid (u_Role (f u))"
  shows "accounts_wf (update_users P f a)"
proof -
  have ids: "map u_ID (map (\<lambda>u. if P u then f u else u) (ac_users a)) = map u_ID (ac_users a)" using assms(2) by simp
  then have "u_ID ` (\<lambda>u. if P u then f u else u) ` set (ac_users a) = u_ID ` set (ac_users a)"
    by (metis (no_types, lifting) list.set_map)
  moreover have "map (\<lambda>u. nocase (u_Email u)) (map (\<lambda>u. if P u then f u else u) (ac_users a)) =
      map (\<lambda>u. nocase (u_Email u)) (ac_users a)"
    using assms(3) by simp
  ultimately show ?thesis using assms ids by (auto simp: accounts_wf_def update_users_def list_all_iff simp del: map_map)
qed

lemma wf_delete_sessions [simp]: "accounts_wf a \<Longrightarrow> accounts_wf (snd (delete_sessions P a))"
  by (auto simp: accounts_wf_def delete_sessions_def list_all_iff distinct_map_filter)

lemma wf_update_sessions:
  assumes "accounts_wf a" "\<And>s. se_TokenHash (f s) = se_TokenHash s" "\<And>s. se_ID (f s) = se_ID s" "\<And>s. se_UserID (f s) = se_UserID s"
  shows "accounts_wf (update_sessions P f a)"
proof -
  have "map se_TokenHash (map (\<lambda>s. if P s then f s else s) (ac_sessions a)) = map se_TokenHash (ac_sessions a)"
    "map se_ID (map (\<lambda>s. if P s then f s else s) (ac_sessions a)) = map se_ID (ac_sessions a)"
    using assms(2,3) by simp_all
  then show ?thesis using assms by (auto simp: accounts_wf_def update_sessions_def list_all_iff simp del: map_map)
qed

lemma wf_update_tokens:
  assumes "accounts_wf a" "\<And>t. t_ID (f t) = t_ID t" "\<And>t. t_TokenHash (f t) = t_TokenHash t" "\<And>t. t_UserID (f t) = t_UserID t"
    "\<And>t. t_Role (f t) = t_Role t"
  shows "accounts_wf (update_tokens P f a)"
proof -
  have "map t_TokenHash (map (\<lambda>s. if P s then f s else s) (ac_tokens a)) = map t_TokenHash (ac_tokens a)"
    "map t_ID (map (\<lambda>s. if P s then f s else s) (ac_tokens a)) = map t_ID (ac_tokens a)"
    using assms(2,3) by simp_all
  then show ?thesis using assms by (auto simp: accounts_wf_def update_tokens_def list_all_iff simp del: map_map)
qed

lemma wf_cascade [simp]: "accounts_wf a \<Longrightarrow> accounts_wf (cascade gone a)"
  by (auto simp: accounts_wf_def cascade_def list_all_iff distinct_map_filter)

lemma wf_insert_user:
  assumes "accounts_wf a" "Valid r" "\<not> list_ex (\<lambda>u. nocase (u_Email u) = nocase email) (ac_users a)"
  shows "accounts_wf (snd (insert_user email hash r now a))"
  using assms
  by (fastforce simp: accounts_wf_def insert_user_def Let_def list_all_iff list_ex_iff)

lemma wf_attempts [simp]: "accounts_wf (a\<lparr>ac_attempts := x\<rparr>) \<longleftrightarrow> accounts_wf a"
  by (simp add: accounts_wf_def)

lemma wf_reset_tokens [simp]: "accounts_wf a \<Longrightarrow> accounts_wf (reset_tokens a)"
  by (simp add: accounts_wf_def reset_tokens_def)

lemma wf_add_session:
  assumes "accounts_wf a" "se_UserID s \<in> u_ID ` set (ac_users a)"
    "\<not> list_ex (\<lambda>x. se_TokenHash x = se_TokenHash s \<or> se_ID x = se_ID s) (ac_sessions a)"
  shows "accounts_wf (a\<lparr>ac_sessions := ac_sessions a @ [s]\<rparr>)"
  using assms by (auto simp: accounts_wf_def list_all_iff list_ex_iff)

lemma wf_add_token:
  assumes "accounts_wf a" "t_UserID t \<in> u_ID ` set (ac_users a)" "t_ID t = ac_nextToken a"
    "\<not> list_ex (\<lambda>x. t_TokenHash x = t_TokenHash t) (ac_tokens a)" "t_Role t = None \<or> Valid (role_column (t_Role t))"
  shows "accounts_wf (a\<lparr>ac_tokens := ac_tokens a @ [t], ac_nextToken := ac_nextToken a + 1\<rparr>)"
proof -
  have "t_ID x < ac_nextToken a + 1" if "x \<in> set (ac_tokens a)" for x
    using assms(1) that by (fastforce simp: accounts_wf_def list_all_iff)
  moreover have "t_ID t \<notin> t_ID ` set (ac_tokens a)" using assms(1,3) by (auto simp: accounts_wf_def list_all_iff)
  moreover have "t_TokenHash t \<notin> t_TokenHash ` set (ac_tokens a)" using assms(4) by (auto simp: list_ex_iff)
  ultimately show ?thesis using assms(1,2,3,5) by (simp add: accounts_wf_def list_all_iff)
qed

text \<open>What \<open>CreateSession\<close> and \<open>CreateScopedAPIToken\<close> add.\<close>

lemma CreateSession_cases:
  obtains (refused) err where "CreateSession sha b ib now i ua ip a = (Inl err, a)"
  | (added) s token where "CreateSession sha b ib now i ua ip a = (Inr token, a\<lparr>ac_sessions := ac_sessions a @ [s]\<rparr>)"
      "se_TokenHash s = HashToken sha token" "se_UserID s = i" "i \<in> u_ID ` set (ac_users a)"
      "\<not> list_ex (\<lambda>x. se_TokenHash x = se_TokenHash s \<or> se_ID x = se_ID s) (ac_sessions a)"
proof (cases "GetUser i a = None \<or> list_ex (\<lambda>x. se_TokenHash x = HashToken sha (GenerateSessionToken b) \<or> se_ID x = newSessionID ib)
    (ac_sessions a)")
  case True
  then show ?thesis using refused by (auto simp: CreateSession_def Let_def)
next
  case False
  then have "i \<in> u_ID ` set (ac_users a)" using GetUser_None [of i a] by blast
  then show ?thesis using False added by (simp add: CreateSession_def Let_def)
qed

lemma CreateScopedAPIToken_cases:
  obtains (refused) err where "CreateScopedAPIToken sha b now i name r ex a = (Inl err, a)"
  | (added) t token where "CreateScopedAPIToken sha b now i name r ex a =
        (Inr (token, t), a\<lparr>ac_tokens := ac_tokens a @ [t], ac_nextToken := ac_nextToken a + 1\<rparr>)"
      "t_TokenHash t = HashToken sha token" "t_UserID t = i" "t_ID t = ac_nextToken a" "t_RevokedAt t = None"
      "t_Role t = (if r \<noteq> [] then Some r else None)" "t_ExpiresAt t = map_option Unix ex"
      "r \<noteq> [] \<longrightarrow> Valid r" "i \<in> u_ID ` set (ac_users a)"
      "\<not> list_ex (\<lambda>x. t_TokenHash x = t_TokenHash t) (ac_tokens a)"
proof -
  obtain token prefix where g: "GenerateAPIToken b = (token, prefix)" by (cases "GenerateAPIToken b")
  show ?thesis
  proof (cases "r \<noteq> [] \<and> \<not> Valid r \<or> GetUser i a = None \<or> list_ex (\<lambda>x. t_TokenHash x = HashToken sha token) (ac_tokens a)")
    case True
    then have "\<exists>err. CreateScopedAPIToken sha b now i name r ex a = (Inl err, a)"
      by (auto simp: CreateScopedAPIToken_def Let_def g)
    then show ?thesis using refused by blast
  next
    case False
    then have "i \<in> u_ID ` set (ac_users a)" using GetUser_None [of i a] by blast
    moreover have "CreateScopedAPIToken sha b now i name r ex a =
        (let t = \<lparr>t_ID = ac_nextToken a, t_TokenHash = HashToken sha token, t_Prefix = prefix, t_Name = name, t_UserID = i,
                 t_Role = (if r \<noteq> [] then Some r else None), t_CreatedAt = Unix now,
                 t_ExpiresAt = map_option Unix ex, t_LastUsedAt = None, t_RevokedAt = None\<rparr>
         in (Inr (token, t), a\<lparr>ac_tokens := ac_tokens a @ [t], ac_nextToken := ac_nextToken a + 1\<rparr>))"
      using False by (auto simp: CreateScopedAPIToken_def Let_def g)
    ultimately show ?thesis using False unfolding Let_def by (elim added) auto
  qed
qed

section \<open>Rows come from rows\<close>

text \<open>
  \<open>evolves I M a a'\<close>: the sessions and tokens of \<open>a'\<close> are those of \<open>a\<close>, as far as they still exist, and new ones
  whose hashes are in \<open>I\<close> and \<open>M\<close>; users keep their ids and addresses, and the id of a user who is gone is not
  given away again.
\<close>

definition same_session :: "session \<Rightarrow> session \<Rightarrow> bool" where
  "same_session s s' \<longleftrightarrow> se_TokenHash s = se_TokenHash s' \<and> se_ID s = se_ID s' \<and> se_UserID s = se_UserID s' \<and>
     se_CreatedAt s = se_CreatedAt s'"

definition same_token :: "api_token \<Rightarrow> api_token \<Rightarrow> bool" where
  "same_token t t' \<longleftrightarrow> t_ID t = t_ID t' \<and> t_TokenHash t = t_TokenHash t' \<and> t_UserID t = t_UserID t' \<and>
     t_Role t = t_Role t' \<and> t_ExpiresAt t = t_ExpiresAt t' \<and> (t_RevokedAt t \<noteq> None \<longrightarrow> t_RevokedAt t' = t_RevokedAt t)"

definition evolves :: "string set \<Rightarrow> string set \<Rightarrow> accounts \<Rightarrow> accounts \<Rightarrow> bool" where
  "evolves I M a a' \<longleftrightarrow>
     ac_nextUser a \<le> ac_nextUser a' \<and>
     (\<forall>s' \<in> set (ac_sessions a'). se_TokenHash s' \<in> I \<or> (\<exists>s \<in> set (ac_sessions a). same_session s s')) \<and>
     (\<forall>t' \<in> set (ac_tokens a'). t_TokenHash t' \<in> M \<or> (\<exists>t \<in> set (ac_tokens a). same_token t t')) \<and>
     (\<forall>u' \<in> set (ac_users a'). ac_nextUser a \<le> u_ID u' \<or>
        (\<exists>u \<in> set (ac_users a). u_ID u = u_ID u' \<and> u_Email u = u_Email u'))"

lemma same_refl [simp]: "same_session s s" "same_token t t"
  by (simp_all add: same_session_def same_token_def)

lemma evolves_refl [simp]: "evolves I M a a"
  by (force simp: evolves_def)

lemma evolves_trans:
  assumes "evolves I M a b" "evolves J N b c" "I \<subseteq> K" "J \<subseteq> K" "M \<subseteq> L" "N \<subseteq> L"
  shows "evolves K L a c"
proof -
  have sessions: "se_TokenHash x \<in> K \<or> (\<exists>y \<in> set (ac_sessions a). same_session y x)" if x: "x \<in> set (ac_sessions c)" for x
  proof (cases "se_TokenHash x \<in> J")
    case False
    then obtain y where y: "y \<in> set (ac_sessions b)" "same_session y x" using assms(2) x by (auto simp: evolves_def)
    then have "se_TokenHash y \<in> I \<or> (\<exists>z \<in> set (ac_sessions a). same_session z y)" using assms(1) by (auto simp: evolves_def)
    moreover have "same_session z x" if "same_session z y" for z using that y(2) by (simp add: same_session_def)
    ultimately show ?thesis using y(2) assms(3) by (auto simp: same_session_def)
  qed (use assms(4) in auto)
  have tokens: "t_TokenHash x \<in> L \<or> (\<exists>y \<in> set (ac_tokens a). same_token y x)" if x: "x \<in> set (ac_tokens c)" for x
  proof (cases "t_TokenHash x \<in> N")
    case False
    then obtain y where y: "y \<in> set (ac_tokens b)" "same_token y x" using assms(2) x by (auto simp: evolves_def)
    then have "t_TokenHash y \<in> M \<or> (\<exists>z \<in> set (ac_tokens a). same_token z y)" using assms(1) by (auto simp: evolves_def)
    moreover have "same_token z x" if "same_token z y" for z using that y(2) by (simp add: same_token_def)
    moreover have "t_TokenHash y = t_TokenHash x" using y(2) by (simp add: same_token_def)
    ultimately show ?thesis using assms(5) by auto
  qed (use assms(6) in auto)
  have users: "ac_nextUser a \<le> u_ID x \<or> (\<exists>y \<in> set (ac_users a). u_ID y = u_ID x \<and> u_Email y = u_Email x)"
    if x: "x \<in> set (ac_users c)" for x
  proof (cases "ac_nextUser b \<le> u_ID x")
    case False
    then obtain y where y: "y \<in> set (ac_users b)" "u_ID y = u_ID x" "u_Email y = u_Email x"
      using assms(2) x by (auto simp: evolves_def)
    then show ?thesis using assms(1) by (auto simp: evolves_def)
  qed (use assms(1) in \<open>auto simp: evolves_def\<close>)
  have "ac_nextUser a \<le> ac_nextUser c" using assms(1,2) by (simp add: evolves_def)
  then show ?thesis using sessions tokens users by (simp add: evolves_def)
qed

lemma evolves_update_users:
  "(\<And>u. u_ID (f u) = u_ID u) \<Longrightarrow> (\<And>u. u_Email (f u) = u_Email u) \<Longrightarrow> evolves I M a (update_users P f a)"
  by (force simp: evolves_def update_users_def)

lemma evolves_delete_sessions: "evolves I M a (snd (delete_sessions P a))"
  by (force simp: evolves_def delete_sessions_def)

lemma evolves_update_sessions: "(\<And>s. same_session s (f s)) \<Longrightarrow> evolves I M a (update_sessions P f a)"
  by (force simp: evolves_def update_sessions_def)

lemma evolves_update_tokens:
  "(\<And>t. P t \<Longrightarrow> same_token t (f t)) \<Longrightarrow> evolves I M a (update_tokens P f a)"
  by (force simp: evolves_def update_tokens_def)

lemma evolves_cascade: "evolves I M a (cascade gone a)"
  by (force simp: evolves_def cascade_def)

lemma evolves_insert_user: "evolves I M a (snd (insert_user email hash r now a))"
  by (force simp: evolves_def insert_user_def Let_def)

lemma evolves_attempts: "evolves I M a (a\<lparr>ac_attempts := x\<rparr>)"
  by (force simp: evolves_def)

lemma evolves_reset_tokens: "evolves I M a (reset_tokens a)"
  by (force simp: evolves_def reset_tokens_def)

section \<open>Operations\<close>

definition keeps :: "string set \<Rightarrow> string set \<Rightarrow> accounts \<Rightarrow> accounts \<Rightarrow> bool" where
  "keeps I M a a' \<longleftrightarrow> (accounts_ok a \<longrightarrow> accounts_ok a') \<and> evolves I M a a'"

definition hashes :: "digest \<Rightarrow> string option \<Rightarrow> string set" where
  "hashes sha token = HashToken sha ` set_option token"

lemma accounts_kept_refl [simp]: "keeps I M a a"
  by (simp add: keeps_def)

lemma accounts_kept_trans: "keeps {} {} a b \<Longrightarrow> keeps I M b c \<Longrightarrow> keeps I M a c"
  using evolves_trans [of "{}" "{}" a b I M c I M] by (auto simp: keeps_def)

lemma same_users_ok:
  "accounts_wf a' \<Longrightarrow> ac_users a' = ac_users a \<Longrightarrow> ac_nextUser a' = ac_nextUser a \<Longrightarrow> accounts_ok a \<Longrightarrow> accounts_ok a'"
  by (simp add: accounts_ok_def has_admin_def)

lemma has_admin_updateI:
  assumes "x \<in> set (ac_users a)" "u_Role (if P x then f x else x) = RoleAdmin"
  shows "has_admin (update_users P f a)"
proof -
  have "(if P x then f x else x) \<in> set (ac_users (update_users P f a))" using assms(1) by (auto simp: update_users_def)
  then show ?thesis using assms(2) unfolding has_admin_def list_ex_iff by blast
qed

lemma has_adminE:
  assumes "has_admin a" obtains x where "x \<in> set (ac_users a)" "u_Role x = RoleAdmin"
  using assms by (auto simp: has_admin_def list_ex_iff)

lemma has_admin_update:
  "has_admin a \<Longrightarrow> (\<And>u. u_Role (f u) = u_Role u) \<Longrightarrow> has_admin (update_users P f a)"
  by (elim has_adminE, rule has_admin_updateI) auto

lemma keeps_update_password:
  "keeps I M a (update_users P (\<lambda>u. u\<lparr>u_PasswordHash := h, u_UpdatedAt := t\<rparr>) a)"
proof -
  have "accounts_wf a \<Longrightarrow> accounts_wf (update_users P (\<lambda>u. u\<lparr>u_PasswordHash := h, u_UpdatedAt := t\<rparr>) a)"
    by (rule wf_update_users) (auto simp: accounts_wf_def list_all_iff)
  then show ?thesis using has_admin_update [of a "\<lambda>u. u\<lparr>u_PasswordHash := h, u_UpdatedAt := t\<rparr>" P]
    by (auto simp: keeps_def accounts_ok_def evolves_update_users) (simp_all add: update_users_def)
qed

lemma keeps_delete_sessions: "keeps I M a (snd (delete_sessions P a))"
  using wf_delete_sessions [of a P] same_users_ok [of "snd (delete_sessions P a)" a] evolves_delete_sessions
  by (auto simp: keeps_def accounts_ok_def delete_sessions_def)

lemma keeps_update_sessions:
  assumes "\<And>s. same_session s (f s)" shows "keeps I M a (update_sessions P f a)"
proof -
  have "accounts_wf a \<Longrightarrow> accounts_wf (update_sessions P f a)"
    using assms by (intro wf_update_sessions) (auto simp: same_session_def)
  then show ?thesis using same_users_ok [of "update_sessions P f a" a] evolves_update_sessions [of f I M a P] assms
    by (auto simp: keeps_def accounts_ok_def update_sessions_def)
qed

lemma keeps_update_tokens:
  assumes "\<And>t. t_ID (f t) = t_ID t" "\<And>t. t_TokenHash (f t) = t_TokenHash t" "\<And>t. t_UserID (f t) = t_UserID t"
    "\<And>t. t_Role (f t) = t_Role t" "\<And>t. P t \<Longrightarrow> same_token t (f t)"
  shows "keeps I M a (update_tokens P f a)"
proof -
  have "accounts_wf a \<Longrightarrow> accounts_wf (update_tokens P f a)" using assms(1-4) wf_update_tokens [of a f P] by blast
  then show ?thesis using same_users_ok [of "update_tokens P f a" a] evolves_update_tokens [of P f I M a] assms(5)
    by (auto simp: keeps_def accounts_ok_def update_tokens_def)
qed

lemma keeps_attempts: "keeps I M a (a\<lparr>ac_attempts := x\<rparr>)"
  by (simp add: keeps_def accounts_ok_def has_admin_def evolves_attempts)

lemma keeps_reset_tokens: "keeps I M a (reset_tokens a)"
  using evolves_reset_tokens by (simp add: keeps_def accounts_ok_def has_admin_def) (simp add: reset_tokens_def)

lemma keeps_CreateSession:
  "keeps (hashes sha (case fst (CreateSession sha b ib now i ua ip a) of Inl _ \<Rightarrow> None | Inr t \<Rightarrow> Some t)) M a
     (snd (CreateSession sha b ib now i ua ip a))"
proof (cases rule: CreateSession_cases [where sha = sha and b = b and ib = ib and now = now and i = i and ua = ua and ip = ip and a = a])
  case (added s token)
  have "evolves {HashToken sha token} M a (a\<lparr>ac_sessions := ac_sessions a @ [s]\<rparr>)"
    using added(2) by (force simp: evolves_def)
  moreover have "accounts_ok a \<Longrightarrow> accounts_ok (a\<lparr>ac_sessions := ac_sessions a @ [s]\<rparr>)"
    using wf_add_session [of a s] added(3-5) by (simp add: accounts_ok_def has_admin_def)
  ultimately show ?thesis using added(1) by (simp add: keeps_def hashes_def)
qed simp

lemma keeps_CreateScopedAPIToken:
  "keeps I (hashes sha (case fst (CreateScopedAPIToken sha b now i name r ex a) of Inl _ \<Rightarrow> None | Inr t \<Rightarrow> Some (fst t))) a
     (snd (CreateScopedAPIToken sha b now i name r ex a))"
proof (cases rule: CreateScopedAPIToken_cases [where sha = sha and b = b and now = now and i = i and name = name and r = r
      and ex = ex and a = a])
  case (added t token)
  let ?a = "a\<lparr>ac_tokens := ac_tokens a @ [t], ac_nextToken := ac_nextToken a + 1\<rparr>"
  have "evolves I {HashToken sha token} a ?a" using added(2) by (force simp: evolves_def)
  moreover have "t_Role t = None \<or> Valid (role_column (t_Role t))" using added(6,8) by (auto simp: role_column_def)
  then have "accounts_ok a \<Longrightarrow> accounts_ok ?a"
    using wf_add_token [of a t] added(3,4,9,10) by (simp add: accounts_ok_def has_admin_def)
  ultimately show ?thesis using added(1) by (simp add: keeps_def hashes_def)
qed simp

lemma keeps_insert_user:
  assumes "Valid r" "\<not> list_ex (\<lambda>u. nocase (u_Email u) = nocase email) (ac_users a)" "ac_users a \<noteq> [] \<or> r = RoleAdmin"
  shows "keeps I M a (snd (insert_user email hash r now a))"
proof -
  have "accounts_ok a \<Longrightarrow> accounts_wf (snd (insert_user email hash r now a))"
    using wf_insert_user [OF _ assms(1,2)] by (simp add: accounts_ok_def)
  moreover have "accounts_ok a \<Longrightarrow> has_admin (snd (insert_user email hash r now a))"
    using assms(3) by (auto simp: accounts_ok_def has_admin_def insert_user_def Let_def)
  ultimately show ?thesis using evolves_insert_user by (auto simp: keeps_def accounts_ok_def)
qed

text \<open>Neither deleting an account nor changing a role takes the last administrator away.\<close>

lemma keeps_DeleteUser: "keeps I M a (snd (DeleteUser i a))"
proof -
  let ?hit = "filter (\<lambda>u. u_ID u = i \<and> (u_Role u \<noteq> RoleAdmin \<or> otherAdminExists (u_ID u) a)) (ac_users a)"
  have "has_admin (cascade (u_ID ` set ?hit) a)" if ok: "accounts_wf a" "has_admin a"
  proof -
    obtain x where x: "x \<in> set (ac_users a)" "u_Role x = RoleAdmin" using ok(2) by (auto simp: has_admin_def list_ex_iff)
    obtain y where "y \<in> set (ac_users a)" "u_Role y = RoleAdmin" "u_ID y \<notin> u_ID ` set ?hit"
    proof (cases "u_ID x \<in> u_ID ` set ?hit")
      case True
      then obtain z where z: "z \<in> set (ac_users a)" "u_ID z = u_ID x" "u_ID z = i" "u_Role z \<noteq> RoleAdmin \<or> otherAdminExists i a"
        by auto
      have "z = x" using ok(1) x(1) z(1,2) by (auto simp: accounts_wf_def distinct_map inj_on_def)
      then have "otherAdminExists i a" using z(4) x(2) by simp
      then obtain y where "y \<in> set (ac_users a)" "u_Role y = RoleAdmin" "u_ID y \<noteq> i"
        by (auto simp: otherAdminExists_def list_ex_iff)
      then show thesis using that by auto
    qed (use that x in blast)
    then show ?thesis by (auto simp: has_admin_def cascade_def list_ex_iff)
  qed
  then show ?thesis using wf_cascade [of a] evolves_cascade
    by (auto simp: keeps_def accounts_ok_def DeleteUser_def Let_def) (auto simp: cascade_def)
qed

lemma keeps_SetUserRole: "keeps I M a (snd (SetUserRole now i r a))"
proof -
  let ?P = "\<lambda>u. u_ID u = i \<and> (r = RoleAdmin \<or> u_Role u \<noteq> RoleAdmin \<or> otherAdminExists (u_ID u) a)"
  let ?f = "\<lambda>u. u\<lparr>u_Role := r, u_UpdatedAt := Unix now\<rparr>"
  have wf: "accounts_wf a \<Longrightarrow> Valid r \<Longrightarrow> accounts_wf (update_users ?P ?f a)" by (rule wf_update_users) auto
  have "has_admin (update_users ?P ?f a)" if ok: "has_admin a"
  proof -
    obtain x where x: "x \<in> set (ac_users a)" "u_Role x = RoleAdmin" using ok by (rule has_adminE)
    show ?thesis
    proof (cases "?P x \<and> r \<noteq> RoleAdmin")
      case True
      then obtain y where "y \<in> set (ac_users a)" "u_Role y = RoleAdmin" "u_ID y \<noteq> i"
        using x by (auto simp: otherAdminExists_def list_ex_iff)
      then show ?thesis by (intro has_admin_updateI) auto
    next
      case False
      then show ?thesis using x by (intro has_admin_updateI) auto
    qed
  qed
  then show ?thesis using wf
    by (auto simp: keeps_def accounts_ok_def SetUserRole_def Let_def evolves_update_users) (auto simp: update_users_def)
qed

lemma keeps_LookupSession: "keeps I M a (snd (LookupSession sha wrote now token a))"
  by (auto simp: LookupSession_def Let_def same_session_def keeps_delete_sessions keeps_update_sessions split: option.split)

lemma keeps_LookupAPIToken: "keeps I M a (snd (LookupAPIToken sha wrote now token a))"
  by (auto simp: LookupAPIToken_def Let_def same_token_def keeps_update_tokens split: option.split)

lemma keeps_authenticate: "keeps I M a (snd (authenticate e d rq a))"
  using keeps_LookupSession [of I M a] keeps_LookupAPIToken [of I M a]
  by (auto simp: authenticate_def Let_def split: prod.split option.split) (metis snd_conv)+

lemmas keeps_ops = keeps_update_password keeps_delete_sessions keeps_attempts keeps_reset_tokens keeps_insert_user
  keeps_DeleteUser keeps_SetUserRole

end
