(* ===== verification/AccountRuns.thy ===== *)
theory AccountRuns
  imports Accounts
begin

text \<open>
  Everything that can happen to the accounts over time: requests from anybody in any order, sign-ins whose
  password is being verified while others go on, the purges of the housekeeping loop and
  \<open>subglance reset-password\<close>. A handler other than sign-in is one step. What holds in every such run.
\<close>

section \<open>Answers keep the tables\<close>

definition sound :: "env \<Rightarrow> accounts \<Rightarrow> response \<times> accounts \<Rightarrow> bool" where
  "sound e a R \<longleftrightarrow> keeps (hashes (e_sha e) (rs_Session (fst R))) (hashes (e_sha e) (rs_Token (fst R))) a (snd R)"

lemma sound_answer: "(\<And>I M. keeps I M a b) \<Longrightarrow> sound e a (answer st, b)"
  by (simp add: sound_def answer_def)

lemma sound_same [simp]: "sound e a (answer st, a)"
  by (simp add: sound_answer)

lemma hashes_None [simp]: "hashes sha None = {}"
  by (simp add: hashes_def)

lemma sound_trans: "(\<And>I M. keeps I M a b) \<Longrightarrow> sound e b R \<Longrightarrow> sound e a R"
  unfolding sound_def using accounts_kept_trans by blast

lemma sound_with_session: "sound e a (with_session ok failed (issueSession e d rq u a))"
  using keeps_CreateSession [of "e_sha e" "dr_bytes d" "dr_id d" "dr_now d" "u_ID u" "rq_UserAgent rq" "rq_IP rq" a "{}"]
  by (auto simp: sound_def with_session_def issueSession_def answer_def split: sum.splits)

lemma keeps_record: "keeps I M a (fold (RecordLoginAttempt t) ks a)"
proof (induction ks arbitrary: a)
  case (Cons k ks)
  have "keeps {} {} a (RecordLoginAttempt t k a)" by (simp add: RecordLoginAttempt_def keeps_attempts)
  then show ?case using Cons by (auto intro: accounts_kept_trans)
qed simp

lemma keeps_clear: "keeps I M a (fold ClearLoginAttempts ks a)"
proof (induction ks arbitrary: a)
  case (Cons k ks)
  have "keeps {} {} a (ClearLoginAttempts k a)" by (simp add: ClearLoginAttempts_def keeps_attempts)
  then show ?case using Cons by (auto intro: accounts_kept_trans)
qed simp

lemma sound_handleSetup: "sound e a (handleSetup e d rq email password a)"
proof -
  have "keeps I M a (snd (CreateFirstUser IDKey salt now email' password' RoleAdmin a))" for IDKey salt now email' password' I M
    by (auto simp: CreateFirstUser_def Let_def case_prod_beta keeps_insert_user split: sum.split)
  then have "keeps I M a b" if "CreateFirstUser IDKey salt now email' password' RoleAdmin a = (r, b)"
    for IDKey salt now email' password' r b I M
    using that by (metis snd_conv)
  then show ?thesis
    by (auto simp: handleSetup_def Let_def sound_answer split: prod.split sum.split
        intro: sound_trans [OF _ sound_with_session])
qed

lemma sound_login_finish: "sound e a (login_finish e d rq email password stored a)"
proof -
  have "sound e a (answer st, recordFailedLogin e d rq email a)" for st
    by (simp add: recordFailedLogin_def sound_answer keeps_record)
  moreover have "sound e a (with_session 200 500 (issueSession e d rq u
      (if dr_wrote d then fold ClearLoginAttempts (login_keys e rq email) a else a)))" for u
    by (rule sound_trans [OF _ sound_with_session]) (simp add: keeps_clear)
  ultimately show ?thesis
    by (auto simp: login_finish_def split: option.split sum.split auth_error.split bool.split)
qed

lemma sound_handleLogin: "sound e a (handleLogin e d rq email password a)"
proof -
  have "login_start e d rq email a = Answered r \<Longrightarrow> r = answer 429" for r
    by (auto simp: login_start_def split: if_splits)
  then show ?thesis using sound_login_finish by (auto simp: handleLogin_def split: login_start.split)
qed

lemma sound_handleLogout: "sound e a (handleLogout e d rq a)"
  by (auto simp: handleLogout_def DeleteSession_def keeps_delete_sessions intro!: sound_answer split: option.split)

lemma sound_handleChangePassword: "sound e a (handleChangePassword e d rq caller current new a)"
proof -
  have up: "keeps I M a (snd (UpdatePassword (e_IDKey e) (dr_salt d) (dr_now d) (u_ID caller) new a))" for I M
    by (auto simp: UpdatePassword_def keeps_update_password split: sum.split)
  have "keeps I M a (if dr_wrote d then DeleteUserSessions (u_ID caller) b else b)" if "\<And>I M. keeps I M a b" for b I M
    using that keeps_delete_sessions accounts_kept_trans by (auto simp: DeleteUserSessions_def) blast
  then have "sound e a (with_session 204 204
      (issueSession e d rq caller (if dr_wrote d then DeleteUserSessions (u_ID caller) b else b)))" if "\<And>I M. keeps I M a b" for b
    using that by (intro sound_trans [OF _ sound_with_session]) blast
  then show ?thesis using up
    by (auto simp: handleChangePassword_def case_prod_beta sound_answer split: sum.split auth_error.split bool.split option.split)
qed

lemma sound_handleCreateToken: "sound e a (handleCreateToken e d caller name ex wanted a)"
proof -
  have "sound e a (case CreateScopedAPIToken (e_sha e) b now i n r x a of (Inl err, a') \<Rightarrow> (answer 500, a')
      | (Inr (token, t), a') \<Rightarrow> ((answer 201)\<lparr>rs_Token := Some token\<rparr>, a'))" for b now i n r x
    using keeps_CreateScopedAPIToken [of "{}" "e_sha e" b now i n r x a]
    by (cases rule: CreateScopedAPIToken_cases [where sha = "e_sha e" and b = b and now = now and i = i and name = n and r = r
      and ex = x and a = a]) (simp_all add: sound_def answer_def)
  then show ?thesis by (simp add: handleCreateToken_def Let_def)
qed

lemma sound_handle:
  assumes "u_ID caller \<in> u_ID ` set (ac_users a)"
  shows "sound e a (handle e d rq caller act a)"
proof -
  have revoke: "keeps I M a (snd (RevokeAPIToken now i j a))" for I M now i j
    unfolding RevokeAPIToken_def Let_def snd_conv by (rule keeps_update_tokens) (auto simp: same_token_def)
  have create: "keeps I M a (snd (CreateUser IDKey salt now email password r a))" for I M IDKey salt now email password r
    using assms by (auto simp: CreateUser_def Let_def case_prod_beta intro!: keeps_insert_user split: sum.split)
  have ends: "keeps I M a (snd (EndSession i sid a))" "keeps I M a (snd (EndOtherSessions sha i k a))"
      "keeps I M a (snd (EndUserSessions i a))" for I M i sid k sha
    by (auto simp: EndSession_def EndOtherSessions_def EndUserSessions_def Let_def case_prod_beta keeps_delete_sessions
        split: option.split)
  note keeps = revoke create ends keeps_DeleteUser keeps_SetUserRole keeps_reset_tokens
  show ?thesis unfolding handle_def
    by (cases act)
      (auto simp: sound_handleSetup sound_handleLogin sound_handleLogout sound_handleChangePassword sound_handleCreateToken
        handleRevokeToken_def handleCreateUser_def handleDeleteUser_def handleUpdateUser_def handleEndSession_def
        handleEndOtherSessions_def handleEndUserSessions_def handleResetInstance_def Let_def case_prod_beta keeps
        split: option.split sum.split account_error.split intro!: sound_answer)
qed

lemma GetUser_ID: "GetUser i a = Some u \<Longrightarrow> u_ID u = i \<and> i \<in> u_ID ` set (ac_users a)"
  using GetUser_Some by blast

lemma authenticate_user:
  assumes "authenticate e d rq a = (Some caller, a')" shows "u_ID caller \<in> u_ID ` set (ac_users a')"
proof -
  have session: "u_ID u \<in> u_ID ` set (ac_users b)" if "LookupSession sha wr now token a = (Inr u, b)" for sha wr now token u b
    using that by (auto simp: LookupSession_def Let_def found_def split: option.splits if_splits dest!: GetUser_ID)
  have token: "u_ID u \<in> u_ID ` set (ac_users b)" if "LookupAPIToken sha wr now token a = (Inr u, b)" for sha wr now token u b
    using that by (auto simp: LookupAPIToken_def Let_def split: option.splits if_splits dest!: GetUser_ID)
  show ?thesis using assms session token
    by (auto simp: authenticate_def Let_def split: if_splits option.splits prod.splits sum.splits)
qed

lemma sound_guarded: "sound e a (guarded e d rq act a)"
proof -
  obtain c b where auth: "authenticate e d rq a = (c, b)" by (cases "authenticate e d rq a")
  then have keeps: "keeps I M a b" for I M using keeps_authenticate [of I M a e d rq] by simp
  show ?thesis
  proof (cases c)
    case (Some caller)
    then have "sound e a (handle e d rq caller act b)"
      using sound_trans [OF keeps sound_handle] authenticate_user auth by blast
    then show ?thesis using Some auth keeps by (simp add: guarded_def sound_answer)
  qed (simp add: guarded_def auth keeps sound_answer)
qed

lemma sound_serve: "sound e a (serve e d rq act a)"
  by (cases act) (simp_all add: serve_def sound_handleSetup sound_handleLogin sound_guarded)

section \<open>Runs\<close>

type_synonym sign_in = "request \<times> string \<times> string \<times> user option"

record site =
  st_accounts :: accounts
  st_pending :: "sign_in list"
  st_now :: instant

text \<open>
  At most \<open>m\<close> sign-ins verify a password at the same time; \<open>logged\<close> says that the writes whose errors are only
  logged, and the reading of the counts, succeed. A step is labelled with its answer.
\<close>

inductive site_step :: "env \<Rightarrow> nat \<Rightarrow> bool \<Rightarrow> site \<Rightarrow> response \<Rightarrow> site \<Rightarrow> bool" for e m logged where
  Request: "st_now s \<le> dr_now d \<Longrightarrow> (\<forall>email password. act \<noteq> Login email password) \<Longrightarrow>
    serve e d rq act (st_accounts s) = (r, a) \<Longrightarrow>
    site_step e m logged s r \<lparr>st_accounts = a, st_pending = st_pending s, st_now = dr_now d\<rparr>"
| SignInRefused: "st_now s \<le> dr_now d \<Longrightarrow> login_start e d rq email (st_accounts s) = Answered r \<Longrightarrow>
    site_step e m logged s r (s\<lparr>st_now := dr_now d\<rparr>)"
| SignInStarts: "st_now s \<le> dr_now d \<Longrightarrow> (logged \<longrightarrow> dr_counted d) \<Longrightarrow> length (st_pending s) < m \<Longrightarrow>
    login_start e d rq email (st_accounts s) = Verifying stored \<Longrightarrow>
    site_step e m logged s (answer 0)
      \<lparr>st_accounts = st_accounts s, st_pending = st_pending s @ [(rq, email, password, stored)], st_now = dr_now d\<rparr>"
| SignInEnds: "st_now s \<le> dr_now d \<Longrightarrow> (logged \<longrightarrow> dr_wrote d) \<Longrightarrow>
    st_pending s = before @ (rq, email, password, stored) # after \<Longrightarrow>
    login_finish e d rq email password stored (st_accounts s) = (r, a) \<Longrightarrow>
    site_step e m logged s r \<lparr>st_accounts = a, st_pending = before @ after, st_now = dr_now d\<rparr>"
| PasswordReset: "st_now s \<le> dr_now d \<Longrightarrow>
    site_step e m logged s (answer 0)
      (s\<lparr>st_accounts := snd (resetPassword e d email password (st_accounts s)), st_now := dr_now d\<rparr>)"
| PurgeSessions: "st_now s \<le> t \<Longrightarrow>
    site_step e m logged s (answer 0) (s\<lparr>st_accounts := snd (PurgeExpiredSessions t (st_accounts s)), st_now := t\<rparr>)"
| PurgeAttempts: "st_now s \<le> t \<Longrightarrow>
    site_step e m logged s (answer 0)
      (s\<lparr>st_accounts := PurgeOldLoginAttempts t (hours 24) (st_accounts s), st_now := t\<rparr>)"

text \<open>A run with the answers given in it.\<close>

inductive site_run :: "env \<Rightarrow> nat \<Rightarrow> bool \<Rightarrow> site \<Rightarrow> response list \<Rightarrow> site \<Rightarrow> bool" for e m logged where
  Stop: "site_run e m logged s [] s"
| More: "site_run e m logged s rs s' \<Longrightarrow> site_step e m logged s' r s'' \<Longrightarrow> site_run e m logged s (rs @ [r]) s''"

definition new_site :: "instant \<Rightarrow> site" where
  "new_site t = \<lparr>st_accounts = no_accounts, st_pending = [], st_now = t\<rparr>"

text \<open>The hashes of the sessions and of the API tokens handed out in a run.\<close>

definition issued :: "env \<Rightarrow> response list \<Rightarrow> string set" where
  "issued e rs = (\<Union>r \<in> set rs. hashes (e_sha e) (rs_Session r))"

definition minted :: "env \<Rightarrow> response list \<Rightarrow> string set" where
  "minted e rs = (\<Union>r \<in> set rs. hashes (e_sha e) (rs_Token r))"

lemma keeps_ResetPassword: "keeps I M a (snd (ResetPassword IDKey sha ToLower salt now i p a))"
proof -
  have "keeps I M a (ClearLoginAttempts k (snd (delete_sessions P (update_users Q (\<lambda>u. u\<lparr>u_PasswordHash := h, u_UpdatedAt := t\<rparr>) a))))"
    for k P Q h t
    unfolding ClearLoginAttempts_def
    by (intro accounts_kept_trans [OF accounts_kept_trans [OF keeps_update_password keeps_delete_sessions] keeps_attempts])
  then show ?thesis by (auto simp: ResetPassword_def Let_def case_prod_beta split: sum.split option.split)
qed

lemma step_keeps:
  assumes "site_step e m logged s r s'"
  shows "keeps (hashes (e_sha e) (rs_Session r)) (hashes (e_sha e) (rs_Token r)) (st_accounts s) (st_accounts s')"
  using assms
proof cases
  case (Request d act rq a)
  then show ?thesis using sound_serve [of e "st_accounts s" d rq act] by (simp add: sound_def)
next
  case (SignInEnds d before rq email password stored after a)
  then show ?thesis using sound_login_finish [of e "st_accounts s" d rq email password stored] by (simp add: sound_def)
next
  case (PasswordReset d email password)
  then show ?thesis by (auto simp: resetPassword_def answer_def keeps_ResetPassword split: option.split)
qed (auto simp: answer_def PurgeExpiredSessions_def PurgeOldLoginAttempts_def keeps_delete_sessions keeps_attempts)

lemma run_keeps:
  assumes "site_run e m logged s rs s'"
  shows "(accounts_ok (st_accounts s) \<longrightarrow> accounts_ok (st_accounts s')) \<and>
    evolves (issued e rs) (minted e rs) (st_accounts s) (st_accounts s')"
  using assms
proof induction
  case (More s rs s' r s'')
  have "keeps (hashes (e_sha e) (rs_Session r)) (hashes (e_sha e) (rs_Token r)) (st_accounts s') (st_accounts s'')"
    using step_keeps More.hyps(2) by blast
  then show ?case using More.IH
    by (auto simp: keeps_def issued_def minted_def elim!: evolves_trans)
qed simp

lemma no_accounts_ok [simp]: "accounts_ok no_accounts"
  by (simp add: accounts_ok_def accounts_wf_def no_accounts_def)

lemma reachable_ok: "site_run e m logged (new_site t) rs s \<Longrightarrow> accounts_ok (st_accounts s)"
  using run_keeps by (fastforce simp: new_site_def)

end
