(* ===== verification/AccountProps.thy ===== *)
theory AccountProps
  imports AccountRuns
begin

text \<open>
  What the accounts guarantee in every run: well-formed tables and an administrator, tokens that never outrank the
  request that made them, and revocations that last. The example instance the witnesses run on.
\<close>

section \<open>Example instance\<close>

definition example_env :: env where
  "example_env = \<lparr>e_IDKey = example_argon, e_sha = (\<lambda>s. take 8 s), e_ToLower = nocase, e_baseOrigin = []\<rparr>"

definition example_draw :: "instant \<Rightarrow> string \<Rightarrow> draw" where
  "example_draw t bytes = \<lparr>dr_now = t, dr_bytes = bytes, dr_id = bytes, dr_salt = replicate 16 CHR ''s'', dr_wrote = True,
     dr_counted = True, dr_allowed = True\<rparr>"

definition example_request :: "string option \<Rightarrow> request" where
  "example_request cookie = \<lparr>rq_Authorization = [], rq_HostCookie = cookie, rq_PlainCookie = None, rq_FetchSite = ''same-origin'',
     rq_Origin = [], rq_Host = ''h'', rq_UserAgent = ''curl'', rq_IP = ''192.0.2.1''\<rparr>"

definition example_setup :: "response \<times> accounts" where
  "example_setup = serve example_env (example_draw 0 ''first'') (example_request None)
     (Setup ''ann@example.com'' ''correct horse battery'') no_accounts"

definition example_site :: "accounts \<Rightarrow> site" where
  "example_site a = \<lparr>st_accounts = a, st_pending = [], st_now = 0\<rparr>"

lemma example_setup_run: "site_run example_env m logged (new_site 0) [fst example_setup] (example_site (snd example_setup))"
proof -
  have "site_step example_env m logged (new_site 0) (fst example_setup)
      \<lparr>st_accounts = snd example_setup, st_pending = st_pending (new_site 0), st_now = dr_now (example_draw 0 ''first'')\<rparr>"
    by (rule Request [where rq = "example_request None" and act = "Setup ''ann@example.com'' ''correct horse battery''"])
      (simp_all add: example_setup_def new_site_def example_draw_def)
  then have "site_run example_env m logged (new_site 0) ([] @ [fst example_setup]) (example_site (snd example_setup))"
    by (intro site_run.More [OF site_run.Stop]) (simp add: new_site_def example_site_def example_draw_def)
  then show ?thesis by simp
qed

lemma example_password: "ValidatePassword ''correct horse battery'' = None" "ValidatePassword ''staple staple staple'' = None"
  by (simp_all add: ValidatePassword_def RuneCount_def MinPasswordLength_def runes_ascii)

lemma example_email: "TrimSpace ''ann@example.com'' = ''ann@example.com''" "\<not> emailProblem ''ann@example.com''"
  by (simp_all add: TrimSpace_printable printable_def emailProblem_def containsAt_def RuneCount_def MaxEmailLen_def
      HasControlCharacter_def runes_ascii is_control_rune_def byte_between_def)

definition example_hash :: "string \<Rightarrow> string" where
  "example_hash password = encoded_hash (replicate 16 CHR ''s'')
     (example_argon password (replicate 16 CHR ''s'') argonTime argonMemory argonThreads argonKeyLen)"

lemma example_HashPassword:
  "ValidatePassword password = None \<Longrightarrow> HashPassword example_argon (replicate 16 CHR ''s'') password = Inr (example_hash password)"
  by (simp add: HashPassword_def example_hash_def)

definition example_ann :: user where
  "example_ann = \<lparr>u_ID = 1, u_Email = ''ann@example.com'', u_PasswordHash = example_hash ''correct horse battery'',
     u_Role = RoleAdmin, u_CreatedAt = Unix 0, u_UpdatedAt = Unix 0\<rparr>"

definition example_session :: "instant \<Rightarrow> string \<Rightarrow> session" where
  "example_session t bytes = \<lparr>se_TokenHash = HashToken (\<lambda>s. take 8 s) (GenerateSessionToken bytes), se_ID = newSessionID bytes,
     se_UserID = 1, se_CreatedAt = Unix t, se_ExpiresAt = Unix (t + SessionTTL), se_LastSeenAt = Unix t,
     se_UserAgent = ''curl'', se_IP = ''192.0.2.1''\<rparr>"

lemma example_set_up:
  "example_setup = ((answer 201)\<lparr>rs_Session := Some (GenerateSessionToken ''first'')\<rparr>,
     \<lparr>ac_users = [example_ann], ac_nextUser = 2, ac_sessions = [example_session 0 ''first''], ac_tokens = [], ac_nextToken = 1,
       ac_attempts = []\<rparr>)"
  by (simp add: example_setup_def serve_def handleSetup_def CountUsers_def no_accounts_def NormaliseEmail_def example_email
      passwordProblem_def example_password example_env_def example_draw_def example_HashPassword CreateFirstUser_def insert_user_def
      with_session_def issueSession_def CreateSession_def GetUser_def example_ann_def example_session_def Let_def cutBytes_def
      example_request_def)

section \<open>Tables\<close>

text \<open>
  C17: In every run of an instance from its empty tables, whatever is asked of it and by whom: ids, addresses
  (without case), session and token hashes are unique; every role in the tables is one of the three; every
  session and token belongs to an account that exists; and no id of an account lies at or above the next one.
\<close>

theorem accounts_stay_well_formed:
  assumes "site_run e m logged (new_site t) rs s"
  shows "accounts_wf (st_accounts s)"
  using reachable_ok [OF assms] by (simp add: accounts_ok_def)

theorem accounts_stay_well_formed_witness:
  "accounts_wf (st_accounts (example_site (snd example_setup))) \<and> ac_users (snd example_setup) = [example_ann]"
  using accounts_stay_well_formed [OF example_setup_run] by (simp add: example_set_up)

text \<open>
  C4: An instance that was set up once always has an administrator: no sequence of requests, by administrators
  against each other or by anybody else, and no command removes or demotes the last one.
\<close>

theorem never_without_administrator:
  assumes "site_run e m logged (new_site t) rs s" "ac_nextUser (st_accounts s) \<noteq> 1"
  shows "\<exists>u \<in> set (ac_users (st_accounts s)). CanAdmin (u_Role u)"
  using reachable_ok [OF assms(1)] assms(2) by (auto simp: accounts_ok_def has_admin_def list_ex_iff CanAdmin_def)

theorem never_without_administrator_witness:
  "\<exists>u \<in> set (ac_users (st_accounts (example_site (snd example_setup)))). CanAdmin (u_Role u)"
  by (rule never_without_administrator [OF example_setup_run]) (simp add: example_site_def example_set_up)

section \<open>Tokens\<close>

lemma Within_Capped: "Within (Capped r c) c" "r \<noteq> [] \<Longrightarrow> Within (Capped r c) r"
  by (auto simp: Capped_def Within_def)

lemma Within_trans: "Within a b \<Longrightarrow> Within b c \<Longrightarrow> Within a c"
  by (simp add: Within_def)

lemma LookupAPIToken_Inr:
  assumes "LookupAPIToken sha w now token a = (Inr u, b)"
  obtains t v where "t \<in> set (ac_tokens a)" "t_TokenHash t = HashToken sha token" "t_RevokedAt t = None"
    "\<forall>x. t_ExpiresAt t = Some x \<longrightarrow> Unix now \<le> x" "v \<in> set (ac_users a)" "u_ID v = t_UserID t"
    "u = v\<lparr>u_Role := Capped (role_column (t_Role t)) (u_Role v)\<rparr>"
proof -
  obtain t where t: "find (\<lambda>t. t_TokenHash t = HashToken sha token) (ac_tokens a) = Some t"
    using assms by (auto simp: LookupAPIToken_def split: option.splits)
  have "GetUser i (update_tokens P f a) = GetUser i a" for i P f by (simp add: GetUser_def update_tokens_def)
  then have "t_RevokedAt t = None" "\<forall>x. t_ExpiresAt t = Some x \<longrightarrow> Unix now \<le> x"
    "\<exists>v. GetUser (t_UserID t) a = Some v \<and> u = v\<lparr>u_Role := Capped (role_column (t_Role t)) (u_Role v)\<rparr>"
    using assms t by (auto simp: LookupAPIToken_def Let_def split: option.splits if_splits)
  then show ?thesis using that find_in [OF t] by (auto dest: GetUser_Some)
qed

lemma created_token:
  assumes "serve e d rq (CreateToken name ex wanted) a = (r, a')" "rs_Token r = Some token"
    "authenticate e d rq a = (Some maker, b)"
  obtains t x where "ac_tokens a' = ac_tokens b @ [t]" "t_TokenHash t = HashToken (e_sha e) token" "t_UserID t = u_ID maker"
    "t_Role t = Some x" "x \<noteq> []" "Within x (u_Role maker)" "u_ID maker \<in> u_ID ` set (ac_users a')"
proof -
  have guarded: "guarded e d rq (CreateToken name ex wanted) a = (r, a')" using assms(1) by (simp add: serve_def)
  then have "handleCreateToken e d maker name ex wanted b = (r, a')"
    using assms(2,3) by (auto simp: guarded_def handle_def answer_def split: if_splits)
  then obtain x y where x: "x \<noteq> []" "Within x (u_Role maker)" and
    c: "(case CreateScopedAPIToken (e_sha e) (dr_bytes d) (dr_now d) (u_ID maker) (TrimSpace name) x y b of
        (Inl err, a') \<Rightarrow> (answer 500, a') | (Inr (token, t), a') \<Rightarrow> ((answer 201)\<lparr>rs_Token := Some token\<rparr>, a')) = (r, a')"
    using assms(2) Valid_nonempty by (auto simp: handleCreateToken_def Let_def answer_def split: if_splits)
  show ?thesis
    using c assms(2)
    by (cases rule: CreateScopedAPIToken_cases [where sha = "e_sha e" and b = "dr_bytes d" and now = "dr_now d" and i = "u_ID maker"
        and name = "TrimSpace name" and r = x and ex = y and a = b]) (auto simp: answer_def x intro!: that)
qed

lemma wf_same_hash: "accounts_wf a \<Longrightarrow> t \<in> set (ac_tokens a) \<Longrightarrow> t' \<in> set (ac_tokens a) \<Longrightarrow> t_TokenHash t = t_TokenHash t' \<Longrightarrow> t = t'"
  by (auto simp: accounts_wf_def distinct_map dest: inj_onD)

lemma kept_token:
  assumes "evolves I M a a'" "t' \<in> set (ac_tokens a')" "t_TokenHash t' \<notin> M"
  obtains t where "t \<in> set (ac_tokens a)" "same_token t t'"
  using assms unfolding evolves_def by blast

lemma kept_session:
  assumes "evolves I M a a'" "s' \<in> set (ac_sessions a')" "se_TokenHash s' \<notin> I"
  obtains s where "s \<in> set (ac_sessions a)" "same_session s s'"
  using assms unfolding evolves_def by blast

text \<open>
  C10: An API token never does more than the request that made it could: whenever it is accepted later, after
  any sequence of requests (promotions of its owner included), it acts for the account that made it, with at
  most the role that request had, which is already capped when the request itself used a token, and with at
  most the role that account has by then. Hypothesis: no later token has the same hash.
\<close>

theorem token_never_outranks_its_maker:
  assumes "site_run e m logged (new_site t) rs0 s"
    and "authenticate e d rq (st_accounts s) = (Some maker, b)"
    and "serve e d rq (CreateToken name ex wanted) (st_accounts s) = (r, a)" "rs_Token r = Some token"
    and "site_run e m logged (s\<lparr>st_accounts := a, st_now := dr_now d\<rparr>) rs s'" "HashToken (e_sha e) token \<notin> minted e rs"
    and "LookupAPIToken (e_sha e) w now token (st_accounts s') = (Inr u, c)"
  shows "u_ID u = u_ID maker \<and> Within (u_Role u) (u_Role maker) \<and>
    (\<exists>v \<in> set (ac_users (st_accounts s')). u_ID v = u_ID maker \<and> Within (u_Role u) (u_Role v))"
proof -
  obtain x t where t: "ac_tokens a = ac_tokens b @ [t]" "t_TokenHash t = HashToken (e_sha e) token" "t_UserID t = u_ID maker"
    "t_Role t = Some x" "x \<noteq> []" "Within x (u_Role maker)"
    using created_token [OF assms(3,4,2)] by metis
  obtain t' v where t': "t' \<in> set (ac_tokens (st_accounts s'))" "t_TokenHash t' = HashToken (e_sha e) token"
    "v \<in> set (ac_users (st_accounts s'))" "u_ID v = t_UserID t'" "u = v\<lparr>u_Role := Capped (role_column (t_Role t')) (u_Role v)\<rparr>"
    using LookupAPIToken_Inr [OF assms(7)] by metis
  have "accounts_ok a"
    using sound_serve [of e "st_accounts s" d rq "CreateToken name ex wanted"] reachable_ok [OF assms(1)] assms(3)
    by (simp add: sound_def keeps_def)
  moreover have "evolves (issued e rs) (minted e rs) a (st_accounts s')" using run_keeps [OF assms(5)] by simp
  then obtain y where "y \<in> set (ac_tokens a)" "same_token y t'" using kept_token t'(1,2) assms(6) by metis
  ultimately have "same_token t t'"
    using wf_same_hash [of a y t] t(1,2) t'(2) by (simp add: accounts_ok_def same_token_def)
  then have "t_UserID t' = u_ID maker" "t_Role t' = Some x" using t(3,4) by (metis same_token_def)+
  then have "t_UserID t' = u_ID maker" "role_column (t_Role t') = x" by (simp_all add: role_column_def)
  then show ?thesis using t' t(5,6) Within_Capped [of x "u_Role v"] Within_trans by auto
qed

text \<open>
  Revoking a token is for good: from then on, after any sequence of requests, it is not accepted. Hypothesis:
  no later token has the same hash.
\<close>

theorem revoked_token_stays_revoked:
  assumes "site_run e m logged (new_site t) rs0 s"
    and "RevokeAPIToken now i owner (st_accounts s) = (None, a)"
    and "x \<in> set (ac_tokens (st_accounts s))" "t_ID x = i" "t_TokenHash x = HashToken (e_sha e) token"
    and "site_run e m logged (s\<lparr>st_accounts := a\<rparr>) rs s'" "HashToken (e_sha e) token \<notin> minted e rs"
  shows "fst (LookupAPIToken (e_sha e) w later token (st_accounts s')) = Inl ErrNotFound"
proof (rule ccontr)
  assume contr: "\<not> ?thesis"
  have "fst (LookupAPIToken (e_sha e) w later token (st_accounts s')) \<noteq> Inl err" if "err \<noteq> ErrNotFound" for err
    using that by (auto simp: LookupAPIToken_def Let_def split: option.split)
  then obtain u c where "LookupAPIToken (e_sha e) w later token (st_accounts s') = (Inr u, c)"
    using contr by (metis prod.collapse sum.exhaust_sel)
  then obtain t' where t': "t' \<in> set (ac_tokens (st_accounts s'))" "t_TokenHash t' = HashToken (e_sha e) token" "t_RevokedAt t' = None"
    by (rule LookupAPIToken_Inr)
  let ?P = "\<lambda>t. t_ID t = i \<and> t_UserID t = owner \<and> t_RevokedAt t = None"
  have a: "a = update_tokens ?P (t_RevokedAt_update (\<lambda>_. Some (Unix now))) (st_accounts s)"
    and hit: "list_ex ?P (ac_tokens (st_accounts s))"
    using assms(2) by (auto simp: RevokeAPIToken_def Let_def split: if_splits)
  have wf: "accounts_wf (st_accounts s)" using reachable_ok [OF assms(1)] by (simp add: accounts_ok_def)
  obtain z where "z \<in> set (ac_tokens (st_accounts s))" "?P z" using hit by (auto simp: list_ex_iff)
  then have "?P x" using wf assms(3,4) by (auto simp: accounts_wf_def distinct_map dest: inj_onD)
  have wfa: "accounts_wf a" unfolding a by (rule wf_update_tokens [OF wf]) auto
  have xa: "x\<lparr>t_RevokedAt := Some (Unix now)\<rparr> \<in> set (ac_tokens a)"
    using assms(3) \<open>?P x\<close> by (force simp: a update_tokens_def)
  have "evolves (issued e rs) (minted e rs) a (st_accounts s')" using run_keeps [OF assms(6)] by simp
  then obtain y where y: "y \<in> set (ac_tokens a)" "same_token y t'" using kept_token t'(1,2) assms(7) by metis
  then have "y = x\<lparr>t_RevokedAt := Some (Unix now)\<rparr>"
    using wf_same_hash [OF wfa y(1) xa] assms(5) t'(2) by (simp add: same_token_def)
  then show False using y(2) t'(3) by (simp add: same_token_def)
qed

text \<open>The first administrator makes a token for reading, a minute after setting up.\<close>

definition example_minute :: draw where
  "example_minute = example_draw (minutes 1) ''second''"

definition example_cookie :: request where
  "example_cookie = example_request (Some (GenerateSessionToken ''first''))"

definition example_token :: api_token where
  "example_token = \<lparr>t_ID = 1, t_TokenHash = HashToken (\<lambda>s. take 8 s) (fst (GenerateAPIToken ''second'')),
     t_Prefix = snd (GenerateAPIToken ''second''), t_Name = ''ci'', t_UserID = 1, t_Role = Some RoleViewer,
     t_CreatedAt = Unix (minutes 1), t_ExpiresAt = None, t_LastUsedAt = None, t_RevokedAt = None\<rparr>"

lemma example_authenticated:
  "authenticate example_env example_minute example_cookie (snd example_setup) = (Some example_ann, snd example_setup)"
  by (simp add: authenticate_def example_env_def example_minute_def example_cookie_def example_draw_def example_request_def
      LookupSession_def example_set_up example_session_def SessionTTL_def Unix_def of_Unix_def found_def GetUser_def example_ann_def)

lemma example_create_token:
  "serve example_env example_minute example_cookie (CreateToken ''ci'' Never RoleViewer) (snd example_setup) =
     ((answer 201)\<lparr>rs_Token := Some (fst (GenerateAPIToken ''second''))\<rparr>,
      (snd example_setup)\<lparr>ac_tokens := [example_token], ac_nextToken := 2\<rparr>)"
proof -
  have role: "RoleViewer \<noteq> []" "Within RoleViewer RoleAdmin" by (simp_all add: RoleViewer_def RoleAdmin_def Within_def rank_def)
  have name: "TrimSpace ''ci'' = ''ci''" "\<not> nameProblem ''ci''"
    by (simp_all add: TrimSpace_printable printable_def nameProblem_def HasControlCharacter_def RuneCount_def maxNameLen_def
        runes_ascii is_control_rune_def byte_between_def)
  have "handleCreateToken example_env example_minute example_ann ''ci'' Never RoleViewer (snd example_setup) =
     ((answer 201)\<lparr>rs_Token := Some (fst (GenerateAPIToken ''second''))\<rparr>,
      (snd example_setup)\<lparr>ac_tokens := [example_token], ac_nextToken := 2\<rparr>)"
    using role name
    by (simp add: handleCreateToken_def CreateScopedAPIToken_def example_set_up GetUser_def example_ann_def case_prod_beta
        example_token_def example_env_def example_minute_def example_draw_def Let_def)
  moreover have "allowed accessWrite (u_Role example_ann)" by (simp add: allowed_def CanWrite_def example_ann_def)
  moreover have "\<not> crossOriginRefusal example_env example_cookie"
    by (simp add: crossOriginRefusal_def example_cookie_def example_request_def)
  ultimately show ?thesis by (simp add: serve_def guarded_def example_authenticated route_access_def handle_def)
qed

lemma example_lookup:
  "fst (LookupAPIToken (e_sha example_env) True (minutes 2) (fst (GenerateAPIToken ''second''))
     ((snd example_setup)\<lparr>ac_tokens := [example_token], ac_nextToken := 2\<rparr>)) = Inr (example_ann\<lparr>u_Role := RoleViewer\<rparr>)"
proof -
  have "Capped RoleViewer RoleAdmin = RoleViewer" by (simp add: Capped_def Within_def rank_def RoleViewer_def RoleAdmin_def)
  then show ?thesis
    by (simp add: LookupAPIToken_def example_env_def example_token_def example_set_up update_tokens_def GetUser_def example_ann_def
        role_column_def Let_def)
qed

theorem token_never_outranks_its_maker_witness:
  "\<exists>u. fst (LookupAPIToken (e_sha example_env) True (minutes 2) (fst (GenerateAPIToken ''second''))
      ((snd example_setup)\<lparr>ac_tokens := [example_token], ac_nextToken := 2\<rparr>)) = Inr u \<and> Within (u_Role u) (u_Role example_ann)"
proof -
  let ?s = "(example_site (snd example_setup))\<lparr>st_accounts := (snd example_setup)\<lparr>ac_tokens := [example_token], ac_nextToken := 2\<rparr>,
    st_now := dr_now example_minute\<rparr>"
  obtain c where "LookupAPIToken (e_sha example_env) True (minutes 2) (fst (GenerateAPIToken ''second'')) (st_accounts ?s) =
      (Inr (example_ann\<lparr>u_Role := RoleViewer\<rparr>), c)"
    using example_lookup by (cases "LookupAPIToken (e_sha example_env) True (minutes 2) (fst (GenerateAPIToken ''second'')) (st_accounts ?s)")
      auto
  note token_never_outranks_its_maker [OF example_setup_run, where d = example_minute and rq = example_cookie and rs = "[]", OF _ _ _ Stop _ this]
  moreover have "st_accounts (example_site a) = a" for a by (simp add: example_site_def)
  ultimately have "Within RoleViewer (u_Role example_ann)"
    using example_authenticated example_create_token by (fastforce simp: minted_def)
  then show ?thesis using example_lookup by (intro exI [of _ "example_ann\<lparr>u_Role := RoleViewer\<rparr>"]) simp
qed

theorem revoked_token_stays_revoked_witness:
  "let a = (snd example_setup)\<lparr>ac_tokens := [example_token], ac_nextToken := 2\<rparr>;
       b = snd (RevokeAPIToken (minutes 2) 1 1 a)
   in fst (LookupAPIToken (e_sha example_env) True (minutes 3) (fst (GenerateAPIToken ''second'')) b) = Inl ErrNotFound"
proof -
  let ?a = "(snd example_setup)\<lparr>ac_tokens := [example_token], ac_nextToken := 2\<rparr>"
  let ?s = "(example_site (snd example_setup))\<lparr>st_accounts := ?a, st_now := dr_now example_minute\<rparr>"
  have step: "site_step example_env 1 True (example_site (snd example_setup))
      ((answer 201)\<lparr>rs_Token := Some (fst (GenerateAPIToken ''second''))\<rparr>)
      \<lparr>st_accounts = ?a, st_pending = st_pending (example_site (snd example_setup)), st_now = dr_now example_minute\<rparr>"
    using example_create_token
    by (intro Request [where rq = example_cookie and act = "CreateToken ''ci'' Never RoleViewer"])
      (simp_all add: example_site_def example_minute_def example_draw_def)
  have run: "site_run example_env 1 True (new_site 0)
      ([fst example_setup] @ [(answer 201)\<lparr>rs_Token := Some (fst (GenerateAPIToken ''second''))\<rparr>]) ?s"
    using site_run.More [OF example_setup_run step] by (simp add: example_site_def)
  have revoked: "RevokeAPIToken (minutes 2) 1 1 (st_accounts ?s) = (None, snd (RevokeAPIToken (minutes 2) 1 1 ?a))"
    by (simp add: RevokeAPIToken_def example_token_def)
  have "fst (LookupAPIToken (e_sha example_env) True (minutes 3) (fst (GenerateAPIToken ''second''))
      (st_accounts (?s\<lparr>st_accounts := snd (RevokeAPIToken (minutes 2) 1 1 ?a)\<rparr>))) = Inl ErrNotFound"
    by (rule revoked_token_stays_revoked [OF run revoked, where x = example_token and rs = "[]", OF _ _ _ Stop])
      (simp_all add: example_token_def example_env_def minted_def)
  then show ?thesis by simp
qed

end
