(* ===== verification/SignOut.thy ===== *)
theory SignOut
  imports AccountProps
begin

text \<open>
  Sign-outs: a new password ends every session, except one whose sign-in was still verifying the old one; a removed
  account stays out; a session lives a week from its last use.
\<close>

section \<open>A new password\<close>

lemma LookupSession_Inr:
  assumes "LookupSession sha w now token a = (Inr u, b)"
  obtains s where "s \<in> set (ac_sessions a)" "se_TokenHash s = HashToken sha token" "Unix now \<le> se_ExpiresAt s"
    "u \<in> set (ac_users a)" "u_ID u = se_UserID s"
proof -
  obtain s where s: "find (\<lambda>s. se_TokenHash s = HashToken sha token) (ac_sessions a) = Some s"
    using assms by (auto simp: LookupSession_def Let_def split: option.splits)
  have "GetUser i (update_sessions P f a) = GetUser i a" for i P f by (simp add: GetUser_def update_sessions_def)
  then have "Unix now \<le> se_ExpiresAt s" "GetUser (se_UserID s) a = Some u"
    using assms s by (auto simp: LookupSession_def Let_def found_def split: option.splits if_splits)
  then show ?thesis using that find_in [OF s] by (auto dest: GetUser_Some)
qed

text \<open>The two ways a password is replaced: by its owner, and with \<open>subglance reset-password\<close>.\<close>

definition password_replaced :: "env \<Rightarrow> int \<Rightarrow> accounts \<Rightarrow> response \<Rightarrow> accounts \<Rightarrow> bool" where
  "password_replaced e i a r a' \<longleftrightarrow>
     (\<exists>d rq current new u b. authenticate e d rq a = (Some u, b) \<and> u_ID u = i \<and> dr_wrote d \<and>
        serve e d rq (ChangePassword current new) a = (r, a') \<and> rs_Status r = 204) \<or>
     (\<exists>d email new n u. GetUserByEmail (TrimSpace email) a = Some u \<and> u_ID u = i \<and>
        resetPassword e d email new a = (Inr n, a') \<and> r = answer 0)"

lemma change_ends_sessions:
  assumes "serve e d rq (ChangePassword current new) a = (r, a')" "rs_Status r = 204" "dr_wrote d"
    "authenticate e d rq a = (Some u, b)" "s \<in> set (ac_sessions a')" "se_UserID s = u_ID u"
  shows "se_TokenHash s \<in> hashes (e_sha e) (rs_Session r)"
proof -
  have "handleChangePassword e d rq u current new b = (r, a')"
    using assms(1,2,4) by (auto simp: serve_def guarded_def handle_def answer_def split: if_splits)
  then obtain c where c: "with_session 204 204 (issueSession e d rq u (DeleteUserSessions (u_ID u) c)) = (r, a')"
    using assms(2,3) by (auto simp: handleChangePassword_def answer_def split: sum.splits auth_error.splits bool.splits if_splits
        prod.splits option.splits)
  let ?c = "DeleteUserSessions (u_ID u) c"
  have none: "s \<notin> set (ac_sessions ?c)" using assms(6) by (auto simp: DeleteUserSessions_def delete_sessions_def)
  show ?thesis
    using c assms(5) none unfolding issueSession_def
    by (cases rule: CreateSession_cases [where sha = "e_sha e" and b = "dr_bytes d" and ib = "dr_id d" and now = "dr_now d"
        and i = "u_ID u" and ua = "rq_UserAgent rq" and ip = "rq_IP rq" and a = ?c])
      (auto simp: with_session_def hashes_def)
qed

lemma reset_ends_sessions:
  assumes "resetPassword e d email new a = (Inr n, a')" "GetUserByEmail (TrimSpace email) a = Some u" "s \<in> set (ac_sessions a')"
  shows "se_UserID s \<noteq> u_ID u"
  using assms
  by (auto simp: resetPassword_def ResetPassword_def Let_def delete_sessions_def ClearLoginAttempts_def
      split: sum.splits option.splits)

text \<open>
  C5: A new password signs the account out everywhere, for good: after the owner has changed it, or
  \<open>subglance reset-password\<close> has, whatever happens next, a session cookie that is accepted for the account is
  one handed out by the change itself or later. Hypothesis: the deletion of the sessions did not fail (the code
  only logs that); that a cookie handed out before has another hash is the reading of \<open>issued\<close>.
\<close>

theorem new_password_signs_out_everywhere:
  assumes "password_replaced e i (st_accounts s) r a" "site_run e m logged (s\<lparr>st_accounts := a, st_now := t\<rparr>) rs s'"
    and "LookupSession (e_sha e) w now cookie (st_accounts s') = (Inr u, b)" "u_ID u = i"
  shows "HashToken (e_sha e) cookie \<in> issued e (r # rs)"
proof -
  obtain x where x: "x \<in> set (ac_sessions (st_accounts s'))" "se_TokenHash x = HashToken (e_sha e) cookie" "se_UserID x = i"
    using assms(4) LookupSession_Inr [OF assms(3)] by metis
  have ev: "evolves (issued e rs) (minted e rs) a (st_accounts s')" using run_keeps [OF assms(2)] by simp
  show ?thesis
  proof (cases "se_TokenHash x \<in> issued e rs")
    case False
    then obtain y where y: "y \<in> set (ac_sessions a)" "same_session y x" using kept_session [OF ev x(1)] by metis
    then have "se_UserID y = i" using x(3) by (simp add: same_session_def)
    then have "se_TokenHash y \<in> hashes (e_sha e) (rs_Session r)"
      using assms(1) y(1) change_ends_sessions reset_ends_sessions unfolding password_replaced_def by metis
    then show ?thesis using y(2) x(2) by (simp add: same_session_def issued_def)
  qed (use x(2) in \<open>auto simp: issued_def\<close>)
qed

section \<open>Accounts that are gone\<close>

lemma authenticated_exists:
  assumes "authenticate e d rq a = (Some u, b)" shows "\<exists>v \<in> set (ac_users a). u_ID v = u_ID u"
proof -
  have "\<exists>v \<in> set (ac_users a). u_ID v = u_ID x" if "LookupSession sha wr now token a = (Inr x, c)" for sha wr now token x c
    using LookupSession_Inr [OF that] by metis
  moreover have "\<exists>v \<in> set (ac_users a). u_ID v = u_ID x" if "LookupAPIToken sha wr now token a = (Inr x, c)" for sha wr now token x c
    by (rule LookupAPIToken_Inr [OF that]) auto
  ultimately show ?thesis using assms
    by (auto simp: authenticate_def Let_def split: if_splits option.splits prod.splits sum.splits)
qed

text \<open>
  A removed account stays out: once an administrator has removed it, no request made later is
  authenticated as that account, with a session, with a token, or under the same id given to somebody else.
\<close>

theorem removed_account_stays_out:
  assumes "site_run e m logged (new_site t) rs0 s" "DeleteUser i (st_accounts s) = (None, a)"
    and "site_run e m logged (s\<lparr>st_accounts := a\<rparr>) rs s'" "authenticate e d rq (st_accounts s') = (Some u, b)"
  shows "u_ID u \<noteq> i"
proof
  assume i: "u_ID u = i"
  have wf: "accounts_wf (st_accounts s)" using reachable_ok [OF assms(1)] by (simp add: accounts_ok_def)
  let ?hit = "filter (\<lambda>u. u_ID u = i \<and> (u_Role u \<noteq> RoleAdmin \<or> otherAdminExists (u_ID u) (st_accounts s))) (ac_users (st_accounts s))"
  have a: "a = cascade (u_ID ` set ?hit) (st_accounts s)" using assms(2) by (simp add: DeleteUser_def Let_def)
  have "?hit \<noteq> []" using assms(2) by (auto simp: DeleteUser_def Let_def explainUnchanged_def split: option.splits if_splits)
  then obtain h where "h \<in> set ?hit" by (meson last_in_set)
  then have "i \<in> u_ID ` set ?hit" "i < ac_nextUser (st_accounts s)"
    using wf by (auto simp: accounts_wf_def list_all_iff)
  then have out: "\<forall>v \<in> set (ac_users a). u_ID v \<noteq> i" "i < ac_nextUser a" by (auto simp: a cascade_def)
  have "evolves (issued e rs) (minted e rs) a (st_accounts s')" using run_keeps [OF assms(3)] by simp
  moreover obtain v where "v \<in> set (ac_users (st_accounts s'))" "u_ID v = i" using authenticated_exists [OF assms(4)] i by metis
  ultimately show False using out unfolding evolves_def by fastforce
qed

section \<open>The life of a session\<close>

text \<open>
  A session lives on use: one that was just accepted is accepted again at any time in the next seven days
  less an hour, and one that is not used in the seven days after it was last accepted (a second more, since
  the tables keep seconds) is refused, whether or not housekeeping has removed it.
\<close>

theorem session_lives_a_week_without_use:
  assumes "accounts_wf a" "LookupSession sha True now cookie a = (Inr u, b)" "now \<le> later"
    and "\<forall>s \<in> set (ac_sessions a). se_ExpiresAt s \<le> Unix (now + SessionTTL)"
  shows "(later \<le> now + SessionTTL - hours 1 \<longrightarrow> fst (LookupSession sha True later cookie b) = Inr u) \<and>
    (now + SessionTTL + seconds 1 < later \<longrightarrow> fst (LookupSession sha True later cookie b) = Inl ErrNotFound)"
proof -
  let ?h = "HashToken sha cookie"
  let ?f = "\<lambda>x :: session. x\<lparr>se_ExpiresAt := Unix (now + SessionTTL), se_LastSeenAt := Unix now\<rparr>"
  let ?g = "\<lambda>x :: session. if se_TokenHash x = ?h then ?f x else x"
  obtain s where s: "find (\<lambda>s. se_TokenHash s = ?h) (ac_sessions a) = Some s" "\<not> se_ExpiresAt s < Unix now"
    "found (GetUser (se_UserID s) a) = Inr u"
    and b: "b = (if of_Unix (se_ExpiresAt s) - now < SessionTTL - hours 1
        then update_sessions (\<lambda>x. se_TokenHash x = ?h) ?f a else a)"
    using assms(2) by (auto simp: LookupSession_def Let_def GetUser_def update_sessions_def split: option.splits if_splits)
  have map: "find (\<lambda>x. se_TokenHash x = ?h) (map ?g xs) = map_option ?g (find (\<lambda>x. se_TokenHash x = ?h) xs)" for xs
    by (induction xs) auto
  have user: "GetUser (se_UserID s) (update_sessions P f x) = GetUser (se_UserID s) x" for P f x
    by (simp add: GetUser_def update_sessions_def)
  define s' where "s' = (if of_Unix (se_ExpiresAt s) - now < SessionTTL - hours 1 then ?f s else s)"
  have hs: "se_TokenHash s = ?h" using find_in [OF s(1)] by simp
  have found: "find (\<lambda>s. se_TokenHash s = ?h) (ac_sessions b) = Some s'"
    using s(1) map [of "ac_sessions a"] hs by (simp add: b s'_def update_sessions_def)
  have "GetUser (se_UserID s') b = GetUser (se_UserID s) a" by (simp add: b s'_def user)
  then have look: "fst (LookupSession sha True later cookie b) =
      (if se_ExpiresAt s' < Unix later then Inl ErrNotFound else Inr u)"
    using s(3) by (simp add: LookupSession_def found Let_def GetUser_def update_sessions_def)
  have hi: "se_ExpiresAt s' \<le> Unix (now + SessionTTL)" using assms(4) find_in [OF s(1)] by (auto simp: s'_def)
  have lo: "Unix (now + SessionTTL - hours 1) \<le> se_ExpiresAt s'"
  proof (cases "of_Unix (se_ExpiresAt s) - now < SessionTTL - hours 1")
    case False
    then show ?thesis by (simp add: s'_def Unix_def of_Unix_def SessionTTL_def)
  qed (simp add: s'_def Unix_def SessionTTL_def)
  have "Unix later \<le> se_ExpiresAt s'" if "later \<le> now + SessionTTL - hours 1"
    using that lo zdiv_mono1 [OF that, of 1000000000] by (simp add: Unix_def)
  moreover have "se_ExpiresAt s' < Unix later" if "now + SessionTTL + seconds 1 < later"
    using hi zdiv_mono1 [OF less_imp_le [OF that], of 1000000000] by (simp add: Unix_def)
  ultimately show ?thesis unfolding look by auto
qed

section \<open>Examples\<close>

text \<open>The first administrator changes the password.\<close>

definition example_bob_hash :: string where
  "example_bob_hash = example_hash ''staple staple staple''"

definition example_changed :: accounts where
  "example_changed = \<lparr>ac_users = [example_ann\<lparr>u_PasswordHash := example_bob_hash, u_UpdatedAt := Unix (minutes 1)\<rparr>], ac_nextUser = 2,
     ac_sessions = [example_session (minutes 1) ''second''], ac_tokens = [], ac_nextToken = 1, ac_attempts = []\<rparr>"

lemma example_verify:
  "VerifyPassword example_argon ''correct horse battery'' (example_hash ''correct horse battery'') = Inr True"
  "VerifyPassword example_argon ''correct horse battery'' example_bob_hash = Inr False"
  unfolding example_hash_def example_bob_hash_def
  by (simp_all add: VerifyPassword_encoded [OF example_argon_size, OF _ refl] saltLen_def)
    (simp add: example_argon_def argonKeyLen_def)

lemma example_change:
  "serve example_env example_minute example_cookie (ChangePassword ''correct horse battery'' ''staple staple staple'') (snd example_setup) =
     ((answer 204)\<lparr>rs_Session := Some (GenerateSessionToken ''second'')\<rparr>, example_changed)"
proof -
  have "HashPassword example_argon (replicate 16 CHR ''s'') ''staple staple staple'' = Inr example_bob_hash"
    by (simp add: example_HashPassword example_password example_bob_hash_def)
  then have "handleChangePassword example_env example_minute example_cookie example_ann ''correct horse battery'' ''staple staple staple''
      (snd example_setup) = ((answer 204)\<lparr>rs_Session := Some (GenerateSessionToken ''second'')\<rparr>, example_changed)"
    using example_verify(1)
    by (simp add: handleChangePassword_def example_env_def example_minute_def example_draw_def passwordProblem_def example_password
        UpdatePassword_def with_session_def issueSession_def CreateSession_def DeleteUserSessions_def delete_sessions_def
        update_users_def example_set_up example_changed_def example_ann_def GetUser_def Let_def example_session_def
        example_cookie_def example_request_def cutBytes_def)
  moreover have "\<not> crossOriginRefusal example_env example_cookie"
    by (simp add: crossOriginRefusal_def example_cookie_def example_request_def)
  ultimately show ?thesis by (simp add: serve_def guarded_def example_authenticated route_access_def handle_def allowed_def)
qed

lemma example_replaced:
  "password_replaced example_env 1 (snd example_setup) ((answer 204)\<lparr>rs_Session := Some (GenerateSessionToken ''second'')\<rparr>) example_changed"
  unfolding password_replaced_def
  using example_authenticated example_change
  by (intro disjI1 exI [of _ example_minute] exI [of _ example_cookie] exI conjI) (auto simp: example_ann_def example_minute_def
      example_draw_def answer_def)

lemma example_new_cookie:
  "LookupSession (e_sha example_env) True (minutes 2) (GenerateSessionToken ''second'') example_changed =
     (Inr (hd (ac_users example_changed)), example_changed)"
  by (simp add: LookupSession_def example_env_def example_changed_def example_session_def SessionTTL_def Unix_def of_Unix_def
      found_def GetUser_def example_ann_def Let_def)

theorem new_password_signs_out_everywhere_witness:
  "HashToken (e_sha example_env) (GenerateSessionToken ''second'') \<in>
     issued example_env [(answer 204)\<lparr>rs_Session := Some (GenerateSessionToken ''second'')\<rparr>]"
proof -
  have "password_replaced example_env 1 (st_accounts (example_site (snd example_setup)))
      ((answer 204)\<lparr>rs_Session := Some (GenerateSessionToken ''second'')\<rparr>) example_changed"
    using example_replaced by (simp add: example_site_def)
  moreover have "LookupSession (e_sha example_env) True (minutes 2) (GenerateSessionToken ''second'')
      (st_accounts ((example_site (snd example_setup))\<lparr>st_accounts := example_changed, st_now := 0\<rparr>)) =
      (Inr (hd (ac_users example_changed)), example_changed)"
    using example_new_cookie by simp
  moreover have "u_ID (hd (ac_users example_changed)) = 1" by (simp add: example_changed_def example_ann_def)
  ultimately show ?thesis by (rule new_password_signs_out_everywhere [OF _ Stop])
qed

text \<open>A second account is made by the administrator and removed again.\<close>

definition example_two :: accounts where
  "example_two = (snd example_setup)\<lparr>ac_users := [example_ann, example_ann\<lparr>u_ID := 2, u_Email := ''bob@example.com'',
     u_PasswordHash := example_bob_hash, u_Role := RoleViewer, u_CreatedAt := Unix (minutes 1), u_UpdatedAt := Unix (minutes 1)\<rparr>],
     ac_nextUser := 3\<rparr>"

lemma example_create_user:
  "serve example_env example_minute example_cookie (AddUser ''bob@example.com'' ''staple staple staple'' []) (snd example_setup) =
     (answer 201, example_two)"
proof -
  have email: "TrimSpace ''bob@example.com'' = ''bob@example.com''" "\<not> emailProblem ''bob@example.com''"
    by (simp_all add: TrimSpace_printable printable_def emailProblem_def containsAt_def RuneCount_def MaxEmailLen_def
        HasControlCharacter_def runes_ascii is_control_rune_def byte_between_def)
  have "HashPassword example_argon (replicate 16 CHR ''s'') ''staple staple staple'' = Inr example_bob_hash"
    by (simp add: example_HashPassword example_password example_bob_hash_def)
  moreover have "nocase ''ann@example.com'' \<noteq> nocase ''bob@example.com''" by (simp add: nocase_def to_lower_def)
  ultimately have "handleCreateUser example_env example_minute ''bob@example.com'' ''staple staple staple'' [] (snd example_setup) =
      (answer 201, example_two)"
    by (simp add: handleCreateUser_def NormaliseEmail_def email passwordProblem_def example_password example_env_def example_minute_def
        example_draw_def CreateUser_def insert_user_def example_set_up example_two_def example_ann_def Let_def)
  moreover have "\<not> crossOriginRefusal example_env example_cookie"
    by (simp add: crossOriginRefusal_def example_cookie_def example_request_def)
  moreover have "allowed accessAdmin (u_Role example_ann)" by (simp add: allowed_def CanAdmin_def example_ann_def)
  ultimately show ?thesis by (simp add: serve_def guarded_def example_authenticated route_access_def handle_def)
qed

definition example_two_site :: site where
  "example_two_site = \<lparr>st_accounts = example_two, st_pending = [], st_now = minutes 1\<rparr>"

lemma example_two_run: "site_run example_env m logged (new_site 0) ([fst example_setup] @ [answer 201]) example_two_site"
proof -
  have "site_step example_env m logged (example_site (snd example_setup)) (answer 201)
      \<lparr>st_accounts = example_two, st_pending = st_pending (example_site (snd example_setup)), st_now = dr_now example_minute\<rparr>"
    using example_create_user by (intro Request) (auto simp: example_site_def example_minute_def example_draw_def)
  then have "site_step example_env m logged (example_site (snd example_setup)) (answer 201) example_two_site"
    by (simp add: example_two_site_def example_site_def example_minute_def example_draw_def)
  then show ?thesis by (rule site_run.More [OF example_setup_run])
qed

lemma example_removed: "DeleteUser 2 example_two = (None, (snd example_setup)\<lparr>ac_nextUser := 3\<rparr>)"
  by (simp add: DeleteUser_def example_two_def example_set_up example_ann_def cascade_def explainUnchanged_def GetUser_def
      example_session_def RoleViewer_def RoleAdmin_def Let_def)

theorem removed_account_stays_out_witness:
  "\<exists>u. fst (authenticate example_env example_minute example_cookie ((snd example_setup)\<lparr>ac_nextUser := 3\<rparr>)) = Some u \<and> u_ID u \<noteq> 2"
proof -
  have auth: "authenticate example_env example_minute example_cookie
      (st_accounts (example_two_site\<lparr>st_accounts := (snd example_setup)\<lparr>ac_nextUser := 3\<rparr>\<rparr>)) =
      (Some example_ann, (snd example_setup)\<lparr>ac_nextUser := 3\<rparr>)"
    by (simp add: authenticate_def example_env_def example_minute_def example_cookie_def example_draw_def example_request_def
      LookupSession_def example_set_up example_session_def SessionTTL_def Unix_def of_Unix_def found_def GetUser_def example_ann_def)
  have "DeleteUser 2 (st_accounts example_two_site) = (None, (snd example_setup)\<lparr>ac_nextUser := 3\<rparr>)"
    using example_removed by (simp add: example_two_site_def)
  from removed_account_stays_out [OF example_two_run this Stop auth] show ?thesis using auth by simp
qed

theorem session_lives_a_week_without_use_witness:
  "fst (LookupSession (e_sha example_env) True (hours 24) (GenerateSessionToken ''second'') example_changed) =
     Inr (hd (ac_users example_changed)) \<and>
   fst (LookupSession (e_sha example_env) True (hours 200) (GenerateSessionToken ''second'') example_changed) = Inl ErrNotFound"
proof -
  have "accounts_wf example_changed"
    by (simp add: accounts_wf_def example_changed_def example_ann_def example_session_def)
  note life = session_lives_a_week_without_use [OF this example_new_cookie]
  have "\<forall>s \<in> set (ac_sessions example_changed). se_ExpiresAt s \<le> Unix (minutes 2 + SessionTTL)"
    by (simp add: example_changed_def example_session_def SessionTTL_def Unix_def)
  then show ?thesis using life [of "hours 24"] life [of "hours 200"] by (simp add: SessionTTL_def)
qed

section \<open>A sign-in under way\<close>

text \<open>
  The exception: a sign-in reads the stored hash before it verifies the password and hands out the session
  after, so one that was verifying the old password while it was changed still gets a session, which is
  accepted afterwards although the old password no longer is.
\<close>

theorem sign_in_under_way_survives_new_password:
  "\<exists>s1 s2 s3 r2 r3 u cookie.
     site_step example_env 1 True (example_site (snd example_setup)) (answer 0) s1 \<and>
     site_step example_env 1 True s1 r2 s2 \<and> password_replaced example_env 1 (st_accounts s1) r2 (st_accounts s2) \<and>
     site_step example_env 1 True s2 r3 s3 \<and> rs_Session r3 = Some cookie \<and>
     fst (LookupSession (e_sha example_env) True (minutes 3) cookie (st_accounts s3)) = Inr u \<and> u_ID u = 1 \<and>
     VerifyPassword (e_IDKey example_env) ''correct horse battery'' (u_PasswordHash u) = Inr False"
proof -
  let ?rq = "example_request None" and ?pw = "''correct horse battery''" and ?email = "''ann@example.com''"
  let ?s1 = "\<lparr>st_accounts = snd example_setup, st_pending = [(?rq, ?email, ?pw, Some example_ann)], st_now = dr_now example_minute\<rparr>"
  let ?s2 = "?s1\<lparr>st_accounts := example_changed\<rparr>"
  let ?d3 = "example_draw (minutes 2) ''third''"
  let ?a3 = "example_changed\<lparr>ac_sessions := [example_session (minutes 1) ''second'', example_session (minutes 2) ''third'']\<rparr>"
  let ?s3 = "\<lparr>st_accounts = ?a3, st_pending = [], st_now = dr_now ?d3\<rparr>"
  let ?r3 = "(answer 200)\<lparr>rs_Session := Some (GenerateSessionToken ''third'')\<rparr>"
  have "login_start example_env example_minute ?rq ?email (snd example_setup) = Verifying (Some example_ann)"
    by (simp add: login_start_def example_minute_def example_draw_def example_set_up CountRecentLoginAttempts_def login_keys_def
        maxLoginAttempts_def GetUserByEmail_def example_ann_def)
  then have "site_step example_env 1 True (example_site (snd example_setup)) (answer 0)
      \<lparr>st_accounts = st_accounts (example_site (snd example_setup)),
        st_pending = st_pending (example_site (snd example_setup)) @ [(?rq, ?email, ?pw, Some example_ann)], st_now = dr_now example_minute\<rparr>"
    by (intro SignInStarts) (simp_all add: example_site_def example_minute_def example_draw_def)
  then have one: "site_step example_env 1 True (example_site (snd example_setup)) (answer 0) ?s1" by (simp add: example_site_def)
  have "site_step example_env 1 True ?s1 ((answer 204)\<lparr>rs_Session := Some (GenerateSessionToken ''second'')\<rparr>)
      \<lparr>st_accounts = example_changed, st_pending = st_pending ?s1, st_now = dr_now example_minute\<rparr>"
    using example_change by (intro Request) auto
  then have two: "site_step example_env 1 True ?s1 ((answer 204)\<lparr>rs_Session := Some (GenerateSessionToken ''second'')\<rparr>) ?s2" by simp
  have sha: "HashToken (\<lambda>s. take 8 s) (GenerateSessionToken ''second'') \<noteq> HashToken (\<lambda>s. take 8 s) (GenerateSessionToken ''third'')"
    "newSessionID ''second'' \<noteq> newSessionID ''third''"
    by (simp_all add: HashToken_def newSessionID_def hex_def GenerateSessionToken_def EncodeToString_def letter_def hex_digit_def)
  have finish: "login_finish example_env ?d3 ?rq ?email ?pw (Some example_ann) example_changed = (?r3, ?a3)"
    using example_verify(1) sha
    by (simp add: login_finish_def example_env_def example_draw_def example_ann_def with_session_def issueSession_def
        CreateSession_def login_keys_def ClearLoginAttempts_def example_changed_def GetUser_def example_session_def cutBytes_def Let_def
        example_request_def)
  have "login_finish example_env ?d3 ?rq ?email ?pw (Some example_ann) (st_accounts ?s2) = (?r3, ?a3)" using finish by simp
  then have "site_step example_env 1 True ?s2 ?r3 \<lparr>st_accounts = ?a3, st_pending = [] @ [], st_now = dr_now ?d3\<rparr>"
    by (rule SignInEnds [rotated 3]) (simp_all add: example_draw_def example_minute_def)
  then have three: "site_step example_env 1 True ?s2 ?r3 ?s3" by simp
  have "fst (LookupSession (e_sha example_env) True (minutes 3) (GenerateSessionToken ''third'') ?a3) = Inr (hd (ac_users example_changed))"
    using sha(1) by (simp add: LookupSession_def example_env_def example_changed_def example_session_def SessionTTL_def Unix_def
        of_Unix_def found_def GetUser_def example_ann_def Let_def)
  moreover have "u_ID (hd (ac_users example_changed)) = 1"
    "VerifyPassword (e_IDKey example_env) ?pw (u_PasswordHash (hd (ac_users example_changed))) = Inr False"
    using example_verify(2) by (simp_all add: example_changed_def example_ann_def example_env_def)
  moreover have "password_replaced example_env 1 (st_accounts ?s1)
      ((answer 204)\<lparr>rs_Session := Some (GenerateSessionToken ''second'')\<rparr>) (st_accounts ?s2)"
    using example_replaced by simp
  moreover have "rs_Session ?r3 = Some (GenerateSessionToken ''third'')" by simp
  ultimately show ?thesis using one two three by (metis site.select_convs(1))
qed

end
