(* ===== verification/Authority.thy ===== *)
theory Authority
  imports AccountProps
begin

text \<open>
  What a request may touch: without an administrator's role only the caller's own account, whatever route it
  asks for, and without credentials nothing at all.
\<close>

definition cookie_of :: "request \<Rightarrow> string option" where
  "cookie_of rq = (case rq_HostCookie rq of None \<Rightarrow> rq_PlainCookie rq | c \<Rightarrow> c)"

text \<open>
  Accounts other than \<open>i\<close> are as before, with their tokens and sessions, up to a session whose cookie (hash in
  \<open>H\<close>) came with the request; and \<open>i\<close> has the address and the role it had.
\<close>

definition only_own :: "string set \<Rightarrow> int \<Rightarrow> accounts \<Rightarrow> accounts \<Rightarrow> bool" where
  "only_own H i a a' \<longleftrightarrow>
     filter (\<lambda>u. u_ID u \<noteq> i) (ac_users a') = filter (\<lambda>u. u_ID u \<noteq> i) (ac_users a) \<and>
     map (\<lambda>u. (u_ID u, u_Email u, u_Role u)) (ac_users a') = map (\<lambda>u. (u_ID u, u_Email u, u_Role u)) (ac_users a) \<and>
     filter (\<lambda>t. t_UserID t \<noteq> i) (ac_tokens a') = filter (\<lambda>t. t_UserID t \<noteq> i) (ac_tokens a) \<and>
     filter (\<lambda>s. se_UserID s \<noteq> i \<and> se_TokenHash s \<notin> H) (ac_sessions a') =
       filter (\<lambda>s. se_UserID s \<noteq> i \<and> se_TokenHash s \<notin> H) (ac_sessions a)"

lemma only_own_refl [simp]: "only_own H i a a"
  by (simp add: only_own_def)

lemma only_own_trans: "only_own H i a b \<Longrightarrow> only_own H i b c \<Longrightarrow> only_own H i a c"
  by (simp add: only_own_def)

lemma filter_map_others:
  "(\<And>x. x \<in> set xs \<Longrightarrow> P x \<Longrightarrow> \<not> Q x \<and> \<not> Q (f x)) \<Longrightarrow> filter Q (map (\<lambda>x. if P x then f x else x) xs) = filter Q xs"
  by (induction xs) auto

lemma own_delete_sessions:
  "(\<And>s. s \<in> set (ac_sessions a) \<Longrightarrow> P s \<Longrightarrow> se_UserID s = i \<or> se_TokenHash s \<in> H) \<Longrightarrow> only_own H i a (snd (delete_sessions P a))"
  by (auto simp: only_own_def delete_sessions_def intro!: filter_cong)

lemma own_update_sessions:
  "(\<And>s. s \<in> set (ac_sessions a) \<Longrightarrow> P s \<Longrightarrow> (se_UserID s = i \<or> se_TokenHash s \<in> H) \<and> se_UserID (f s) = se_UserID s \<and>
     se_TokenHash (f s) = se_TokenHash s) \<Longrightarrow> only_own H i a (update_sessions P f a)"
  unfolding only_own_def update_sessions_def by (auto intro!: filter_map_others) blast+

lemma own_update_tokens:
  "(\<And>t. t \<in> set (ac_tokens a) \<Longrightarrow> P t \<Longrightarrow> t_UserID t = i \<and> t_UserID (f t) = i) \<Longrightarrow> only_own H i a (update_tokens P f a)"
  by (auto simp: only_own_def update_tokens_def intro!: filter_map_others)

lemma own_update_password:
  "only_own H i a (update_users (\<lambda>u. u_ID u = i) (\<lambda>u. u\<lparr>u_PasswordHash := h, u_UpdatedAt := t\<rparr>) a)"
  by (auto simp: only_own_def update_users_def intro!: filter_map_others)

lemma own_CreateSession: "only_own H i a (snd (CreateSession sha b ib now i ua ip a))"
  by (cases rule: CreateSession_cases [where sha = sha and b = b and ib = ib and now = now and i = i and ua = ua and ip = ip and a = a])
    (auto simp: only_own_def)

lemma own_with_session: "only_own H (u_ID u) a b \<Longrightarrow> only_own H (u_ID u) a (snd (with_session x y (issueSession e d rq u b)))"
  using own_CreateSession by (auto simp: with_session_def issueSession_def intro: only_own_trans)

lemma own_CreateScopedAPIToken: "only_own H i a (snd (CreateScopedAPIToken sha b now i name r ex a))"
  by (cases rule: CreateScopedAPIToken_cases [where sha = sha and b = b and now = now and i = i and name = name and r = r
      and ex = ex and a = a]) (auto simp: only_own_def)

lemma authenticate_changes:
  assumes "accounts_wf a" "authenticate e d rq a = (c, b)"
  shows "only_own (hashes (e_sha e) (cookie_of rq)) (case c of None \<Rightarrow> 0 | Some u \<Rightarrow> u_ID u) a b"
proof -
  let ?i = "case c of None \<Rightarrow> 0 | Some u \<Rightarrow> u_ID u"
  have session: "only_own (hashes sha (Some k)) i a (snd (LookupSession sha w now k a))" for sha k i w now
    by (auto simp: LookupSession_def Let_def hashes_def intro!: own_delete_sessions own_update_sessions split: option.split)
  have token: "only_own H (case r of Inl err \<Rightarrow> 0 | Inr u \<Rightarrow> u_ID u) a b'"
    if looked: "LookupAPIToken sha w now k a = (r, b')" for H sha k w now r b'
  proof (cases r)
    case (Inl err)
    have "fst (LookupAPIToken sha w now k a) = Inl err \<Longrightarrow> t \<in> set (ac_tokens a) \<Longrightarrow> t_UserID t \<in> u_ID ` set (ac_users a)" for t
      using assms(1) by (auto simp: accounts_wf_def list_all_iff)
    moreover have "ac_users (update_tokens P f a) = ac_users a" for P f by (simp add: update_tokens_def)
    ultimately show ?thesis using looked Inl
      by (auto simp: LookupAPIToken_def Let_def GetUser_None split: option.splits if_splits dest!: find_in)
  next
    case (Inr u)
    then obtain t where t: "find (\<lambda>t. t_TokenHash t = HashToken sha k) (ac_tokens a) = Some t" "u_ID u = t_UserID t"
      and b': "b' = (if w then update_tokens (\<lambda>x. t_ID x = t_ID t) (t_LastUsedAt_update (\<lambda>_. Some (Unix now))) a else a)"
      using looked by (auto simp: LookupAPIToken_def Let_def split: option.splits if_splits dest!: GetUser_Some)
    have "x = t" if "x \<in> set (ac_tokens a)" "t_ID x = t_ID t" for x
      using assms(1) that find_in [OF t(1)] by (auto simp: accounts_wf_def distinct_map dest: inj_onD)
    then show ?thesis using t(2) Inr by (auto simp: b' intro!: own_update_tokens) metis
  qed
  show ?thesis
  proof (cases "rq_Authorization rq = []")
    case True
    then show ?thesis using assms(2) session
      by (cases "cookie_of rq") (auto simp: authenticate_def cookie_of_def Let_def split: prod.splits option.splits, (metis snd_conv)+)
  next
    case False
    show ?thesis
    proof (cases "take 7 (rq_Authorization rq) = ''Bearer ''")
      case True
      obtain r b' where l: "LookupAPIToken (e_sha e) (dr_wrote d) (dr_now d) (TrimSpace (drop 7 (rq_Authorization rq))) a = (r, b')"
        by (cases "LookupAPIToken (e_sha e) (dr_wrote d) (dr_now d) (TrimSpace (drop 7 (rq_Authorization rq))) a")
      then have "b = b'" "?i = (case r of Inl err \<Rightarrow> 0 | Inr u \<Rightarrow> u_ID u)"
        using assms(2) False True by (auto simp: authenticate_def Let_def split: sum.splits)
      then show ?thesis using token [OF l] by simp
    next
      case no: False
      then show ?thesis using assms(2) False by (simp add: authenticate_def)
    qed
  qed
qed

text \<open>
  C11: A request that does not act with the administrator's role, by session or by token, whatever it asks for,
  leaves every other account as it is: its row, its tokens and its sessions (but for one whose cookie the request
  itself carries), and it changes neither the address nor the role of its own.
\<close>

theorem only_administrators_touch_others:
  assumes "accounts_wf a" "authenticate e d rq a = (Some caller, b)" "\<not> CanAdmin (u_Role caller)"
    and "route_access act \<noteq> accessPublic"
  shows "only_own (hashes (e_sha e) (cookie_of rq)) (u_ID caller) a (snd (serve e d rq act a))"
proof -
  let ?H = "hashes (e_sha e) (cookie_of rq)" and ?i = "u_ID caller"
  have ab: "only_own ?H ?i a b" using authenticate_changes [OF assms(1,2)] by simp
  have logout: "only_own ?H ?i b (snd (handleLogout e d rq b))"
    by (auto simp: handleLogout_def DeleteSession_def cookie_of_def hashes_def intro!: own_delete_sessions split: option.split)
  have password: "only_own ?H ?i b (snd (handleChangePassword e d rq caller current new b))" for current new
  proof -
    have "only_own ?H ?i b (snd (UpdatePassword (e_IDKey e) (dr_salt d) (dr_now d) ?i new b))"
      by (auto simp: UpdatePassword_def own_update_password split: sum.split)
    moreover have "only_own ?H ?i c (DeleteUserSessions ?i c)" for c
      by (auto simp: DeleteUserSessions_def intro!: own_delete_sessions)
    ultimately show ?thesis
      by (auto simp: handleChangePassword_def case_prod_beta split: sum.split auth_error.split bool.split option.split
          intro!: own_with_session intro: only_own_trans)
  qed
  have token: "only_own ?H ?i b (snd (handleCreateToken e d caller name ex w b))" for name ex w
    using own_CreateScopedAPIToken [of ?H ?i b]
    by (auto simp: handleCreateToken_def Let_def case_prod_beta split: sum.split)
  have revoke: "only_own ?H ?i b (snd (handleRevokeToken d caller path b))" for path
    by (auto simp: handleRevokeToken_def RevokeAPIToken_def Let_def intro!: own_update_tokens split: option.split prod.split)
  have ends: "only_own ?H ?i b (snd (handleEndSession caller sid b))" "only_own ?H ?i b (snd (handleEndOtherSessions e rq caller b))" for sid
    by (auto simp: handleEndSession_def handleEndOtherSessions_def EndSession_def EndOtherSessions_def Let_def case_prod_beta
        intro!: own_delete_sessions split: option.split)
  have refused: "\<not> allowed accessAdmin (u_Role caller)" using assms(3) by (simp add: allowed_def)
  have "only_own ?H ?i b (snd (handle e d rq caller act b))" if "allowed (route_access act) (u_Role caller)"
    using that refused assms(4) logout password token revoke ends by (cases act) (simp_all add: handle_def route_access_def)
  moreover have "serve e d rq act a = guarded e d rq act a" using assms(4) by (cases act) (simp_all add: serve_def route_access_def)
  ultimately show ?thesis using ab assms(2) by (auto simp: guarded_def intro: only_own_trans)
qed

text \<open>The token for reading tries to remove the second account.\<close>

definition example_bearer :: request where
  "example_bearer = (example_request None)\<lparr>rq_Authorization := ''Bearer '' @ fst (GenerateAPIToken ''second'')\<rparr>"

definition example_shared :: accounts where
  "example_shared = (snd example_setup)\<lparr>ac_users := [example_ann, example_ann\<lparr>u_ID := 2, u_Email := ''bob@example.com''\<rparr>],
     ac_nextUser := 3, ac_tokens := [example_token], ac_nextToken := 2\<rparr>"

lemma example_bearer_token: "TrimSpace (fst (GenerateAPIToken ''second'')) = fst (GenerateAPIToken ''second'')"
  by (rule TrimSpace_printable)
    (simp_all add: GenerateAPIToken_def TokenPrefix_def EncodeToString_def letter_def printable_def)

theorem only_administrators_touch_others_witness:
  "only_own {} 1 example_shared (snd (serve example_env example_minute example_bearer (RemoveUser ''2'') example_shared)) \<and>
   length (ac_users example_shared) = 2"
proof -
  have wf: "accounts_wf example_shared"
    by (simp add: accounts_wf_def example_shared_def example_ann_def example_set_up example_session_def example_token_def nocase_def
        to_lower_def role_column_def)
  have "Capped RoleViewer RoleAdmin = RoleViewer" by (simp add: Capped_def Within_def rank_def RoleViewer_def RoleAdmin_def)
  then have auth: "authenticate example_env example_minute example_bearer example_shared =
      (Some (example_ann\<lparr>u_Role := RoleViewer\<rparr>), snd (authenticate example_env example_minute example_bearer example_shared))"
    by (simp add: authenticate_def example_env_def example_minute_def example_bearer_def example_draw_def example_request_def
        LookupAPIToken_def example_shared_def example_set_up example_token_def GetUser_def update_tokens_def example_ann_def
        role_column_def example_bearer_token Let_def)
  have "\<not> CanAdmin (u_Role (example_ann\<lparr>u_Role := RoleViewer\<rparr>))" by (simp add: CanAdmin_def RoleViewer_def RoleAdmin_def)
  from only_administrators_touch_others [OF wf auth this, of "RemoveUser ''2''"]
  have "only_own {} 1 example_shared (snd (serve example_env example_minute example_bearer (RemoveUser ''2'') example_shared))"
    by (simp add: route_access_def cookie_of_def example_bearer_def example_request_def hashes_def example_ann_def)
  then show ?thesis by (simp add: example_shared_def)
qed

text \<open>Without credentials that are accepted, a guarded route changes nothing but an expired session.\<close>

lemma unauthenticated_changes_nothing:
  assumes "accounts_wf a" "authenticate e d rq a = (None, b)" "route_access act \<noteq> accessPublic"
  shows "serve e d rq act a = (answer 401, b) \<and> only_own (hashes (e_sha e) (cookie_of rq)) 0 a b"
proof -
  have "serve e d rq act a = guarded e d rq act a" using assms(3) by (cases act) (simp_all add: serve_def route_access_def)
  then show ?thesis using assms(2) authenticate_changes [OF assms(1,2)] by (simp add: guarded_def)
qed

end
