(* ===== verification/Guessing.thy ===== *)
theory Guessing
  imports AccountProps
begin

text \<open>
  The limit on guessing passwords: however sign-ins are spread over time and over connections, the failures
  recorded within any quarter of an hour for one address, or from one client, stay within the limit and the
  number of verifications that run at the same time.
\<close>

definition recent :: "string \<Rightarrow> site \<Rightarrow> nat" where
  "recent k s = CountRecentLoginAttempts (st_now s) k loginAttemptWindow (st_accounts s)"

definition under_way :: "env \<Rightarrow> string \<Rightarrow> sign_in list \<Rightarrow> nat" where
  "under_way e k ps = length (filter (\<lambda>(rq, email, password, stored). k \<in> set (login_keys e rq email)) ps)"

lemma login_keys_distinct: "distinct (login_keys e rq email)"
  by (simp add: login_keys_def LoginAttemptEmailKey_def Let_def)

lemma under_way_le: "under_way e k ps \<le> length ps"
  by (simp add: under_way_def)

lemma count_later:
  assumes "t \<le> t'" shows "CountRecentLoginAttempts t' k w a \<le> CountRecentLoginAttempts t k w a"
proof -
  have "Unix (t - w) \<le> Unix (t' - w)" using assms by (simp add: Unix_def zdiv_mono1)
  then have "filter (\<lambda>(i, x). i = k \<and> Unix (t' - w) < x) (ac_attempts a) =
      filter (\<lambda>(i, x). i = k \<and> Unix (t' - w) < x) (filter (\<lambda>(i, x). i = k \<and> Unix (t - w) < x) (ac_attempts a))"
    by (auto simp: filter_filter intro!: filter_cong)
  then show ?thesis unfolding CountRecentLoginAttempts_def by (metis length_filter_le)
qed

lemma count_filtered:
  assumes "ac_attempts b = filter P (ac_attempts a)"
  shows "CountRecentLoginAttempts t k w b \<le> CountRecentLoginAttempts t k w a"
proof -
  have "length (filter Q (filter P xs)) \<le> length (filter Q xs)" for Q and xs :: "(string \<times> int) list"
    by (induction xs) auto
  then show ?thesis by (simp add: CountRecentLoginAttempts_def assms del: filter_filter)
qed

lemma count_record:
  "0 < w \<Longrightarrow> 1000000000 \<le> w \<Longrightarrow> CountRecentLoginAttempts t k w (RecordLoginAttempt t i a) =
     CountRecentLoginAttempts t k w a + (if i = k then 1 else 0)"
proof -
  assume "1000000000 \<le> w"
  then have "Unix (t - w) \<le> Unix (t - 1000000000)" by (simp add: Unix_def zdiv_mono1)
  also have "\<dots> < Unix t" by (simp add: Unix_def)
  finally show ?thesis by (simp add: CountRecentLoginAttempts_def RecordLoginAttempt_def)
qed

lemma count_fold_record:
  "1000000000 \<le> w \<Longrightarrow> distinct ks \<Longrightarrow> CountRecentLoginAttempts t k w (fold (RecordLoginAttempt t) ks a) =
     CountRecentLoginAttempts t k w a + (if k \<in> set ks then 1 else 0)"
  by (induction ks arbitrary: a) (auto simp: count_record)

lemma count_fold_clear: "CountRecentLoginAttempts t k w (fold ClearLoginAttempts ks a) \<le> CountRecentLoginAttempts t k w a"
proof (induction ks arbitrary: a)
  case (Cons i ks)
  have "CountRecentLoginAttempts t k w (ClearLoginAttempts i a) \<le> CountRecentLoginAttempts t k w a"
    by (rule count_filtered) (simp add: ClearLoginAttempts_def)
  then show ?case using Cons [of "ClearLoginAttempts i a"] by simp
qed simp

section \<open>Requests leave the record alone\<close>

lemma attempts_delete_sessions [simp]: "ac_attempts (snd (delete_sessions P a)) = ac_attempts a"
  by (simp add: delete_sessions_def)

lemma attempts_updates [simp]:
  "ac_attempts (update_users P f a) = ac_attempts a" "ac_attempts (update_sessions Q g a) = ac_attempts a"
  "ac_attempts (update_tokens R h a) = ac_attempts a" "ac_attempts (cascade gone a) = ac_attempts a"
  by (simp_all add: update_users_def update_sessions_def update_tokens_def cascade_def)

lemma attempts_CreateSession [simp]: "ac_attempts (snd (CreateSession sha b ib now i ua ip a)) = ac_attempts a"
  by (simp add: CreateSession_def Let_def)

lemma attempts_with_session [simp]: "ac_attempts (snd (with_session x y (issueSession e d rq u a))) = ac_attempts a"
  by (simp add: with_session_def issueSession_def)

lemma attempts_authenticate [simp]: "ac_attempts (snd (authenticate e d rq a)) = ac_attempts a"
  by (auto simp: authenticate_def LookupSession_def LookupAPIToken_def Let_def case_prod_beta split: option.split)

lemma attempts_handlers:
  "ac_attempts (snd (handleSetup e d rq email password a)) = ac_attempts a"
  "ac_attempts (snd (handleLogout e d rq a)) = ac_attempts a"
  "ac_attempts (snd (handleCreateToken e d caller name ex w a)) = ac_attempts a"
  "ac_attempts (snd (handleRevokeToken d caller path a)) = ac_attempts a"
  "ac_attempts (snd (handleCreateUser e d email password w a)) = ac_attempts a"
  "ac_attempts (snd (handleEndSession caller sid a)) = ac_attempts a"
  "ac_attempts (snd (handleEndOtherSessions e rq caller a)) = ac_attempts a"
  "ac_attempts (snd (handleEndUserSessions path a)) = ac_attempts a"
  "ac_attempts (snd (handleResetInstance confirm a)) = ac_attempts a"
  by (simp_all add: handleSetup_def CreateFirstUser_def insert_user_def handleLogout_def DeleteSession_def handleCreateToken_def
      CreateScopedAPIToken_def handleRevokeToken_def RevokeAPIToken_def handleCreateUser_def CreateUser_def handleEndSession_def
      EndSession_def handleEndOtherSessions_def EndOtherSessions_def handleEndUserSessions_def EndUserSessions_def
      handleResetInstance_def reset_tokens_def Let_def case_prod_beta split: option.split sum.split)

lemma attempts_password: "ac_attempts (snd (handleChangePassword e d rq caller current new a)) = ac_attempts a"
proof -
  have "ac_attempts (snd (UpdatePassword IDKey salt now i p a)) = ac_attempts a" for IDKey salt now i p
    by (simp add: UpdatePassword_def split: sum.split)
  moreover have "ac_attempts (DeleteUserSessions i c) = ac_attempts c" for i c by (simp add: DeleteUserSessions_def)
  ultimately show ?thesis
    by (simp add: handleChangePassword_def case_prod_beta split: sum.split auth_error.split bool.split option.split)
qed

lemma attempts_accounts:
  "ac_attempts (snd (handleUpdateUser d caller path w a)) = ac_attempts a"
  "ac_attempts (snd (handleDeleteUser caller path a)) = ac_attempts a"
proof -
  have "ac_attempts (snd (SetUserRole now i r a)) = ac_attempts a" for now i r by (simp add: SetUserRole_def Let_def)
  then show "ac_attempts (snd (handleUpdateUser d caller path w a)) = ac_attempts a"
    by (simp add: handleUpdateUser_def case_prod_beta split: option.split sum.split account_error.split)
  have "ac_attempts (snd (DeleteUser i a)) = ac_attempts a" for i by (simp add: DeleteUser_def Let_def)
  then show "ac_attempts (snd (handleDeleteUser caller path a)) = ac_attempts a"
    by (simp add: handleDeleteUser_def case_prod_beta split: option.split account_error.split)
qed

lemma attempts_handle:
  "(\<forall>email password. act \<noteq> Login email password) \<Longrightarrow> ac_attempts (snd (handle e d rq caller act a)) = ac_attempts a"
  by (cases act) (simp_all add: handle_def attempts_handlers attempts_password attempts_accounts)

lemma attempts_serve:
  assumes "\<forall>email password. act \<noteq> Login email password"
  shows "ac_attempts (snd (serve e d rq act a)) = ac_attempts a"
proof -
  obtain c b where auth: "authenticate e d rq a = (c, b)" by (cases "authenticate e d rq a")
  then have "ac_attempts b = ac_attempts a" using attempts_authenticate [of e d rq a] by simp
  then have "ac_attempts (snd (guarded e d rq act a)) = ac_attempts a"
    using attempts_handle [OF assms] by (cases c) (simp_all add: guarded_def auth)
  moreover have "ac_attempts (snd (handleSetup e d rq email password a)) = ac_attempts a" for email password
    using attempts_handle [of "Setup email password"] by (simp add: handle_def)
  ultimately show ?thesis using assms by (cases act) (simp_all add: serve_def)
qed

section \<open>The limit\<close>

definition within_limit :: "env \<Rightarrow> nat \<Rightarrow> site \<Rightarrow> bool" where
  "within_limit e m s \<longleftrightarrow> length (st_pending s) \<le> m \<and>
     (\<forall>k. recent k s + under_way e k (st_pending s) \<le> maxLoginAttempts - 1 + m)"

lemma within_limit_shrinks:
  assumes "within_limit e m s" "st_now s \<le> st_now s'" "st_pending s' = st_pending s"
    and "ac_attempts (st_accounts s') = filter P (ac_attempts (st_accounts s))"
  shows "within_limit e m s'"
proof -
  have "recent k s' \<le> recent k s" for k
    using count_filtered [OF assms(4)] count_later [OF assms(2)] unfolding recent_def by (meson le_trans)
  then show ?thesis using assms(1,3) unfolding within_limit_def by (metis add_le_mono1 le_trans)
qed

lemma site_step_limit:
  assumes "site_step e m True s r s'" "within_limit e m s" shows "within_limit e m s'"
  using assms(1)
proof cases
  case (Request d act rq a)
  then have "ac_attempts a = ac_attempts (st_accounts s)" using attempts_serve [of act e d rq "st_accounts s"] by simp
  then show ?thesis using Request by (intro within_limit_shrinks [OF assms(2), of _ "\<lambda>_. True"]) simp_all
next
  case (SignInRefused d rq email)
  then show ?thesis by (intro within_limit_shrinks [OF assms(2), of _ "\<lambda>_. True"]) simp_all
next
  case (SignInStarts d rq email stored password)
  show ?thesis unfolding within_limit_def
  proof (intro conjI allI)
    show "length (st_pending s') \<le> m" using SignInStarts by simp
    fix k
    have now: "recent k s' \<le> recent k s" using SignInStarts(2,3) count_later by (simp add: recent_def)
    show "recent k s' + under_way e k (st_pending s') \<le> maxLoginAttempts - 1 + m"
    proof (cases "k \<in> set (login_keys e rq email)")
      case True
      have "dr_counted d" using SignInStarts by simp
      then have "CountRecentLoginAttempts (dr_now d) k loginAttemptWindow (st_accounts s) < maxLoginAttempts"
        using SignInStarts(6) True by (auto simp: login_start_def list_ex_iff not_le split: if_splits)
      then have "recent k s' \<le> maxLoginAttempts - 1" using SignInStarts(2) by (simp add: recent_def)
      moreover have "under_way e k (st_pending s') \<le> m" using under_way_le [of e k "st_pending s'"] SignInStarts by simp
      ultimately show ?thesis by simp
    next
      case False
      then have "under_way e k (st_pending s') = under_way e k (st_pending s)" using SignInStarts(2) by (simp add: under_way_def)
      then show ?thesis using now assms(2) unfolding within_limit_def by (metis add_le_mono1 le_trans)
    qed
  qed
next
  case (SignInEnds d before rq email password stored after a)
  have way: "under_way e k (st_pending s) = under_way e k (st_pending s') + (if k \<in> set (login_keys e rq email) then 1 else 0)" for k
    using SignInEnds by (simp add: under_way_def)
  have wrote: "dr_wrote d" using SignInEnds by simp
  have count: "CountRecentLoginAttempts (dr_now d) k loginAttemptWindow a \<le>
      CountRecentLoginAttempts (dr_now d) k loginAttemptWindow (st_accounts s) + (if k \<in> set (login_keys e rq email) then 1 else 0)" for k
  proof -
    have failed: "CountRecentLoginAttempts (dr_now d) k loginAttemptWindow (recordFailedLogin e d rq email b) =
        CountRecentLoginAttempts (dr_now d) k loginAttemptWindow b + (if k \<in> set (login_keys e rq email) then 1 else 0)" for b
      using wrote login_keys_distinct by (simp add: recordFailedLogin_def loginAttemptWindow_def count_fold_record)
    have cleared: "CountRecentLoginAttempts (dr_now d) k w (snd (with_session x y (issueSession e d rq u (fold ClearLoginAttempts ks b)))) \<le>
        CountRecentLoginAttempts (dr_now d) k w b" for w x y u ks b
      using count_fold_clear [of "dr_now d" k w ks b]
      by (simp add: CountRecentLoginAttempts_def [of _ _ _ "snd (with_session _ _ _)"]) (simp add: CountRecentLoginAttempts_def)
    have "a = snd (login_finish e d rq email password stored (st_accounts s))" using SignInEnds by simp
    then show ?thesis using failed cleared wrote
      by (auto simp: login_finish_def trans_le_add1 le_SucI split: option.split sum.split auth_error.split bool.split)
  qed
  show ?thesis unfolding within_limit_def
  proof (intro conjI allI)
    show "length (st_pending s') \<le> m" using SignInEnds assms(2) by (simp add: within_limit_def)
    fix k
    have "CountRecentLoginAttempts (dr_now d) k loginAttemptWindow (st_accounts s) \<le> recent k s"
      using SignInEnds count_later by (simp add: recent_def)
    moreover have "recent k s' = CountRecentLoginAttempts (dr_now d) k loginAttemptWindow a"
      using SignInEnds(1) by (simp add: recent_def)
    moreover have "recent k s + under_way e k (st_pending s) \<le> maxLoginAttempts - 1 + m" using assms(2) by (simp add: within_limit_def)
    ultimately show "recent k s' + under_way e k (st_pending s') \<le> maxLoginAttempts - 1 + m"
      using count [of k] way [of k] by linarith
  qed
next
  case (PasswordReset d email password)
  have "\<exists>P. ac_attempts (snd (resetPassword e d email password (st_accounts s))) = filter P (ac_attempts (st_accounts s))"
  proof -
    have "\<exists>P. ac_attempts (snd (ResetPassword IDKey sha ToLower salt now i p a)) = filter P (ac_attempts a)" for IDKey sha ToLower salt now i p a
      by (auto simp: ResetPassword_def ClearLoginAttempts_def Let_def case_prod_beta split: sum.split option.split
          intro: exI [of _ "\<lambda>_. True"])
    then show ?thesis by (auto simp: resetPassword_def split: option.split intro: exI [of _ "\<lambda>_. True"])
  qed
  then obtain P where "ac_attempts (st_accounts s') = filter P (ac_attempts (st_accounts s))" using PasswordReset(2) by auto
  then show ?thesis using PasswordReset by (intro within_limit_shrinks [OF assms(2)]) simp_all
next
  case (PurgeSessions t)
  then show ?thesis by (intro within_limit_shrinks [OF assms(2), of _ "\<lambda>_. True"]) (simp_all add: PurgeExpiredSessions_def)
next
  case (PurgeAttempts t)
  then show ?thesis by (intro within_limit_shrinks [OF assms(2)]) (auto simp: PurgeOldLoginAttempts_def)
qed

text \<open>
  C16: The limit on guessing holds under concurrency: if at most \<open>m\<close> sign-ins verify a password at a time, then at
  no moment have more than nine plus \<open>m\<close> failures been recorded in the last quarter of an hour for one address
  (however it is spelled in case, and from however many clients) or from one client, counting also those still
  verifying; once ten are recorded the next is answered 429 without a look at the password. Hypothesis
  (\<open>logged\<close>): the counts can be read and the failures written, errors the code only logs.
\<close>

theorem guessing_is_limited:
  assumes "site_run e m True (new_site t) rs s"
  shows "CountRecentLoginAttempts (st_now s) k loginAttemptWindow (st_accounts s) + under_way e k (st_pending s) \<le>
      maxLoginAttempts - 1 + m \<and>
    (\<forall>d rq email. dr_now d = st_now s \<and> dr_counted d \<and> k \<in> set (login_keys e rq email) \<and>
      maxLoginAttempts \<le> CountRecentLoginAttempts (st_now s) k loginAttemptWindow (st_accounts s) \<longrightarrow>
      login_start e d rq email (st_accounts s) = Answered (answer 429))"
proof -
  have "within_limit e m (new_site t)"
    by (simp add: within_limit_def new_site_def recent_def CountRecentLoginAttempts_def no_accounts_def under_way_def)
  with assms have "within_limit e m s" by (induction rule: site_run.induct) (auto intro: site_step_limit)
  then have "recent k s + under_way e k (st_pending s) \<le> maxLoginAttempts - 1 + m" by (simp add: within_limit_def)
  then show ?thesis by (auto simp: recent_def login_start_def list_ex_iff)
qed

theorem guessing_is_limited_witness:
  "CountRecentLoginAttempts (st_now (example_site (snd example_setup))) ''ip:192.0.2.1'' loginAttemptWindow
     (st_accounts (example_site (snd example_setup))) \<le> 9 + 1"
  using guessing_is_limited [OF example_setup_run [of 1 True], of "''ip:192.0.2.1''"] by (simp add: maxLoginAttempts_def)

end
