(* ===== verification/Clock.thy ===== *)
theory Clock
  imports Text
begin

text \<open>
  Wall-clock time as the \<open>time\<close> package has it. A zone is the offset in seconds at each Unix second; a wall-clock
  reading is an instant re-labelled as UTC, so days and minutes of the day are divisions. A civil date is the
  number of its day.
\<close>

type_synonym zone = "int \<Rightarrow> int"

definition local :: "zone \<Rightarrow> instant \<Rightarrow> instant" where
  "local z t = t + seconds (z (Unix t))"

text \<open>
  \<open>time.Date\<close> in a zone, of a wall-clock reading in whole seconds: the offset at that second read as UTC, and
  if the instant found lies beyond a transition, the offset there.
\<close>

definition Date :: "zone \<Rightarrow> instant \<Rightarrow> instant" where
  "Date z w = w - seconds (z (Unix w - z (Unix w)))"

abbreviation day_length :: duration where
  "day_length \<equiv> 86400000000000"

definition day_of :: "instant \<Rightarrow> int" where
  "day_of w = w div day_length"

definition minute_of_day :: "instant \<Rightarrow> int" where
  "minute_of_day w = w mod day_length div minutes 1"

text \<open>\<open>Weekday\<close>, Sunday being 0: the first day was a Monday.\<close>

definition Weekday :: "instant \<Rightarrow> int" where
  "Weekday w = (day_of w + 1) mod 7"

definition at_minute :: "int \<Rightarrow> int \<Rightarrow> instant" where
  "at_minute day m = day * day_length + minutes m"

text \<open>\<open>time.Parse("15:04", s)\<close> as minutes after midnight: an hour of one or two digits, a minute of two.\<close>

definition parse_minute :: "nat \<Rightarrow> string \<Rightarrow> int option" where
  "parse_minute h s =
     (case s of
        [c, m, n] \<Rightarrow>
          if c = CHR '':'' \<and> is_digit m \<and> is_digit n \<and> h < 24 \<and> 10 * digit_value m + digit_value n < 60
          then Some (int (60 * h + 10 * digit_value m + digit_value n)) else None
      | _ \<Rightarrow> None)"

definition parse_hhmm :: "string \<Rightarrow> int option" where
  "parse_hhmm s =
     (case s of
        a # b # s' \<Rightarrow>
          if \<not> is_digit a then None
          else if is_digit b then parse_minute (10 * digit_value a + digit_value b) s'
          else parse_minute (digit_value a) (b # s')
      | _ \<Rightarrow> None)"

lemma parse_hhmm_range: "parse_hhmm s = Some n \<Longrightarrow> 0 \<le> n \<and> n < 1440"
proof -
  have "0 \<le> n \<and> n < 1440" if "parse_minute h t = Some n" for h t
    using that by (auto simp: parse_minute_def split: list.splits if_splits)
  then show "parse_hhmm s = Some n \<Longrightarrow> 0 \<le> n \<and> n < 1440"
    by (auto simp: parse_hhmm_def split: list.splits if_splits)
qed

lemma minute_of_day_range: "0 \<le> minute_of_day w \<and> minute_of_day w < 1440"
  unfolding minute_of_day_def by (simp add: div_less_iff_less_mult pos_imp_zdiv_nonneg_iff)

lemma day_minute:
  assumes "w mod minutes 1 = 0" shows "w = at_minute (day_of w) (minute_of_day w)"
proof -
  have "w mod day_length mod minutes 1 = 0" using assms by (simp add: mod_mod_cancel)
  then have "w mod day_length = minutes (minute_of_day w)" unfolding minute_of_day_def by (simp add: mod_0_imp_dvd)
  then show ?thesis unfolding at_minute_def day_of_def by (metis div_mult_mod_eq)
qed

lemma at_minute_parts:
  assumes "0 \<le> m" "m < 1440" shows "day_of (at_minute d m) = d" "minute_of_day (at_minute d m) = m"
proof -
  have "0 \<le> minutes m" "minutes m < day_length" using assms by simp_all
  then show "day_of (at_minute d m) = d" "minute_of_day (at_minute d m) = m"
    by (simp_all add: at_minute_def day_of_def minute_of_day_def)
qed

lemma at_minute_mod [simp]: "at_minute d m mod minutes 1 = 0"
proof -
  have "at_minute d m = (d * 1440 + m) * minutes 1" by (simp add: at_minute_def)
  then show ?thesis by (simp only: mod_mult_self2_is_0)
qed

end
