(* ===== verification/QuietHours.thy ===== *)
theory QuietHours
  imports Clock Delivery
begin

text \<open>
  Quiet hours (\<open>internal/store/quiet_hours.go\<close>): the daily window of a channel, whether it is active, when it
  ends, how it is set and cleared, and the answer the notifier's worker reads from it. \<open>time.LoadLocation\<close> is
  the parameter \<open>load\<close>, from a name to its zone.
\<close>

type_synonym zones = "string \<Rightarrow> zone option"

record quietHours =
  q_ChannelID :: int
  q_Start :: string
  q_End :: string
  q_Timezone :: string
  q_During :: string

definition QuietHold :: string where
  "QuietHold = ''hold''"

definition QuietDrop :: string where
  "QuietDrop = ''drop''"

datatype quiet_field = StartField | EndField | TimezoneField | DuringField

definition parseClock :: "string \<Rightarrow> int option" where
  "parseClock s = (if length s \<noteq> 5 then None else parse_hhmm s)"

text \<open>The field at fault, if one is.\<close>

definition ValidateQuiet :: "zones \<Rightarrow> quietHours \<Rightarrow> quiet_field option" where
  "ValidateQuiet load q =
     (case parseClock (q_Start q) of
        None \<Rightarrow> Some StartField
      | Some start \<Rightarrow>
          (case parseClock (q_End q) of
             None \<Rightarrow> Some EndField
           | Some till \<Rightarrow>
               if start = till then Some EndField
               else if q_Timezone q = [] \<or> q_Timezone q = ''Local'' then Some TimezoneField
               else if load (q_Timezone q) = None then Some TimezoneField
               else if q_During q \<noteq> QuietHold \<and> q_During q \<noteq> QuietDrop then Some DuringField
               else None))"

definition NormaliseQuietHours :: "zones \<Rightarrow> quietHours \<Rightarrow> quiet_field + quietHours" where
  "NormaliseQuietHours load q =
     (let q = q\<lparr>q_Start := TrimSpace (q_Start q), q_End := TrimSpace (q_End q), q_Timezone := TrimSpace (q_Timezone q),
                q_During := TrimSpace (q_During q)\<rparr>;
          q = (if q_During q = [] then q\<lparr>q_During := QuietHold\<rparr> else q)
      in case ValidateQuiet load q of Some f \<Rightarrow> Inl f | None \<Rightarrow> Inr q)"

definition in_window :: "int \<Rightarrow> int \<Rightarrow> int \<Rightarrow> bool" where
  "in_window start till now = (if start < till then start \<le> now \<and> now < till else start \<le> now \<or> now < till)"

definition ActiveQuiet :: "zones \<Rightarrow> quietHours \<Rightarrow> instant \<Rightarrow> bool" where
  "ActiveQuiet load q now =
     (if ValidateQuiet load q \<noteq> None then False
      else case (load (q_Timezone q), parseClock (q_Start q), parseClock (q_End q)) of
        (Some z, Some start, Some till) \<Rightarrow> in_window start till (minute_of_day (local z now))
      | _ \<Rightarrow> False)"

definition wallClock :: "zone \<Rightarrow> instant \<Rightarrow> instant" where
  "wallClock z t = local z t div minutes 1 * minutes 1"

text \<open>The walk: \<open>prev\<close> is the reading a minute before \<open>t\<close>.\<close>

fun walk :: "zone \<Rightarrow> int \<Rightarrow> nat \<Rightarrow> instant \<Rightarrow> instant \<Rightarrow> instant option" where
  "walk z till 0 prev t = None"
| "walk z till (Suc n) prev t =
     (let cur = wallClock z t in
      if minute_of_day cur = till then Some t
      else
        let want = at_minute (day_of prev) till;
            want = (if \<not> prev < want then want + day_length else want)
        in if minutes 1 < cur - prev \<and> want < cur then Some t
           else walk z till n cur (t + minutes 1))"

definition round_up :: "instant \<Rightarrow> instant" where
  "round_up t = (let u = t div minutes 1 * minutes 1 in if u < t then u + minutes 1 else u)"

definition EndAfter :: "zones \<Rightarrow> quietHours \<Rightarrow> instant \<Rightarrow> instant" where
  "EndAfter load q now =
     (case (load (q_Timezone q), parseClock (q_End q)) of
        (Some z, Some till) \<Rightarrow>
          (let t = round_up now in
           case walk z till (3 * 24 * 60) (wallClock z (t - minutes 1)) t of None \<Rightarrow> now | Some e \<Rightarrow> e)
      | _ \<Rightarrow> now)"

section \<open>The table\<close>

type_synonym quiet_table = "int \<rightharpoonup> quietHours"

definition GetQuietHours :: "int \<Rightarrow> quiet_table \<Rightarrow> quietHours option" where
  "GetQuietHours ch tab = tab ch"

text \<open>The worker asks again at every attempt.\<close>

definition quiet_answer_at :: "zones \<Rightarrow> quiet_table \<Rightarrow> instant \<Rightarrow> int \<Rightarrow> quiet_answer" where
  "quiet_answer_at load tab now ch =
     (case GetQuietHours ch tab of
        None \<Rightarrow> NoQuietHours
      | Some q \<Rightarrow>
          if ActiveQuiet load q now then if q_During q = QuietDrop then QuietDropNow else QuietUntil (EndAfter load q now)
          else NotQuiet (q_Timezone q))"

datatype quiet_error = Invalid quiet_field | UnknownChannel | NoneSet

definition SetQuietHours ::
  "zones \<Rightarrow> instant \<Rightarrow> quietHours \<Rightarrow> quiet_table \<times> database \<Rightarrow> quiet_error option \<times> quiet_table \<times> database" where
  "SetQuietHours load now q s =
     (case NormaliseQuietHours load q of
        Inl f \<Rightarrow> (Some (Invalid f), s)
      | Inr q \<Rightarrow>
          (let ch = q_ChannelID q; (tab, d) = s in
           if ch \<notin> db_channels d then (Some UnknownChannel, s)
           else (None, tab(ch \<mapsto> q), releaseQuietHeld now ch d)))"

definition ClearQuietHours :: "instant \<Rightarrow> int \<Rightarrow> quiet_table \<times> database \<Rightarrow> quiet_error option \<times> quiet_table \<times> database" where
  "ClearQuietHours now ch s =
     (let (tab, d) = s in if tab ch = None then (Some NoneSet, s) else (None, tab(ch := None), releaseQuietHeld now ch d))"

section \<open>The walk finds the end\<close>

lemma round_up: "now \<le> round_up now" "round_up now < now + minutes 1" "round_up now mod minutes 1 = 0"
proof -
  have "now = minutes (now div minutes 1) + now mod minutes 1" by simp
  moreover have "0 \<le> now mod minutes 1" "now mod minutes 1 < minutes 1" by simp_all
  ultimately show "now \<le> round_up now" "round_up now < now + minutes 1" by (auto simp: round_up_def Let_def)
  show "round_up now mod minutes 1 = 0" by (simp add: round_up_def Let_def)
qed

text \<open>Zones whose offsets are whole minutes, and never more than a day apart.\<close>

definition minute_zone :: "zone \<Rightarrow> bool" where
  "minute_zone z \<longleftrightarrow> (\<forall>u. 60 dvd z u)"

definition spread_within_day :: "zone \<Rightarrow> bool" where
  "spread_within_day z \<longleftrightarrow> (\<forall>u v. z u - z v \<le> 86400)"

lemma local_minutes:
  assumes "minute_zone z" "minutes 1 dvd t" shows "minutes 1 dvd local z t"
proof -
  obtain k where "z (Unix t) = 60 * k" using assms(1) unfolding minute_zone_def by (auto elim: dvdE)
  then have "seconds (z (Unix t)) = minutes 1 * k" by simp
  then show ?thesis using assms(2) unfolding local_def by (metis dvd_add dvd_triv_left)
qed

lemma wallClock_local: "minute_zone z \<Longrightarrow> minutes 1 dvd t \<Longrightarrow> wallClock z t = local z t"
  using local_minutes by (simp add: wallClock_def)

lemma minute_of_day_mod: "minute_of_day w = w div minutes 1 mod 1440"
proof -
  have "w mod (minutes 1 * 1440) = minutes 1 * (w div minutes 1 mod 1440) + w mod minutes 1"
    by (rule zmod_zmult2_eq) simp
  then have "w mod day_length = minutes 1 * (w div minutes 1 mod 1440) + w mod minutes 1" by simp
  then show ?thesis unfolding minute_of_day_def by simp
qed

lemma minute_of_day_wallClock: "minute_of_day (wallClock z t) = minute_of_day (local z t)"
  by (simp add: minute_of_day_mod wallClock_def)

text \<open>The next reading after \<open>prev\<close> at which the clock says \<open>till\<close>, as the walk computes it.\<close>

definition next_at :: "int \<Rightarrow> instant \<Rightarrow> instant" where
  "next_at till prev = (let want = at_minute (day_of prev) till in if \<not> prev < want then want + day_length else want)"

lemma walk_Suc:
  "walk z till (Suc n) prev t =
     (if minute_of_day (wallClock z t) = till then Some t
      else if minutes 1 < wallClock z t - prev \<and> next_at till prev < wallClock z t then Some t
      else walk z till n (wallClock z t) (t + minutes 1))"
  by (simp add: next_at_def Let_def)

declare walk.simps(2) [simp del]

lemma next_at:
  assumes "0 \<le> till" "till < 1440"
  shows "prev < next_at till prev" "next_at till prev \<le> prev + day_length" "minute_of_day (next_at till prev) = till"
    "minutes 1 dvd next_at till prev"
proof -
  have "prev = day_of prev * day_length + prev mod day_length" by (simp add: day_of_def)
  moreover have "0 \<le> prev mod day_length" "prev mod day_length < day_length" by simp_all
  ultimately show "prev < next_at till prev" "next_at till prev \<le> prev + day_length"
    using assms by (auto simp: next_at_def at_minute_def Let_def)
  have "at_minute d till + day_length = at_minute (d + 1) till" for d by (simp add: at_minute_def algebra_simps)
  then show "minute_of_day (next_at till prev) = till" "minutes 1 dvd next_at till prev"
    using at_minute_parts(2) [OF assms] at_minute_mod by (auto simp: next_at_def Let_def mod_eq_0_iff_dvd)
qed

lemma next_at_least:
  assumes "0 \<le> till" "till < 1440" "prev < w" "minutes 1 dvd w" "minute_of_day w = till"
  shows "next_at till prev \<le> w"
proof -
  have w: "w = at_minute (day_of w) till" using day_minute [of w] assms(4,5) by (simp add: mod_eq_0_iff_dvd)
  have d: "day_of prev \<le> day_of w" using assms(3) by (simp add: day_of_def zdiv_mono1)
  show ?thesis
  proof (cases "prev < at_minute (day_of prev) till")
    case True
    then show ?thesis using d by (subst w) (simp add: next_at_def at_minute_def)
  next
    case False
    then have "day_of prev < day_of w" using d assms(3) w by (metis order_le_less)
    then show ?thesis using False by (subst w) (simp add: next_at_def at_minute_def)
  qed
qed

text \<open>
  What the walk returns is the first minute of the end, or the first after a jump over it; and it does return once
  a reading at \<open>till\<close> has been passed.
\<close>

lemma walk_Some:
  "walk z till n prev t = Some e \<Longrightarrow> minutes 1 dvd t \<Longrightarrow> t \<le> e \<and> e < t + minutes (int n) \<and> minutes 1 dvd e \<and>
     (minute_of_day (wallClock z e) = till \<or>
      (let p = (if e = t then prev else wallClock z (e - minutes 1)) in
       minutes 1 < wallClock z e - p \<and> next_at till p < wallClock z e))"
proof (induction n arbitrary: prev t)
  case (Suc n)
  show ?case
  proof (cases "e = t")
    case True
    moreover have "walk z till n (wallClock z t) (t + minutes 1) \<noteq> Some t"
      using Suc.IH [of "wallClock z t" "t + minutes 1"] Suc.prems(2) True by fastforce
    ultimately show ?thesis using Suc.prems by (auto simp: walk_Suc Let_def split: if_splits)
  next
    case False
    then have "walk z till n (wallClock z t) (t + minutes 1) = Some e" using Suc.prems(1) by (auto simp: walk_Suc split: if_splits)
    from Suc.IH [OF this] Suc.prems(2) False show ?thesis by (auto simp: Let_def algebra_simps split: if_splits)
  qed
qed simp

lemma walk_finds:
  assumes "minute_zone z" "0 \<le> till" "till < 1440" "minutes 1 dvd t" "minutes 1 dvd prev"
    and "prev < w" "minutes 1 dvd w" "minute_of_day w = till" "w \<le> wallClock z (t + minutes (int i))" "i < n"
  shows "walk z till n prev t \<noteq> None"
  using assms
proof (induction i arbitrary: prev t n)
  case 0
  then obtain m where n: "n = Suc m" by (cases n) auto
  have cur: "minutes 1 dvd wallClock z t" by (simp add: wallClock_def)
  show ?case
  proof (cases "wallClock z t = w")
    case False
    then have "w < wallClock z t" using 0 by simp
    moreover have "minutes 1 \<le> w - prev" "minutes 1 \<le> wallClock z t - w"
      using 0 cur calculation by (auto intro!: zdvd_imp_le)
    moreover have "next_at till prev \<le> w" using next_at_least 0 by blast
    ultimately show ?thesis by (simp add: n walk_Suc)
  qed (use 0 in \<open>simp add: n walk_Suc\<close>)
next
  case (Suc i)
  then obtain m where n: "n = Suc m" "i < m" by (cases n) auto
  show ?case
  proof (cases "w \<le> wallClock z t")
    case True
    have cur: "minutes 1 dvd wallClock z t" by (simp add: wallClock_def)
    show ?thesis
    proof (cases "wallClock z t = w")
      case False
      then have "w < wallClock z t" using True by simp
      moreover have "minutes 1 \<le> w - prev" "minutes 1 \<le> wallClock z t - w"
        using Suc.prems cur calculation by (auto intro!: zdvd_imp_le)
      moreover have "next_at till prev \<le> w" using next_at_least Suc.prems by blast
      ultimately show ?thesis by (simp add: n walk_Suc)
    qed (use Suc.prems in \<open>simp add: n walk_Suc\<close>)
  next
    case False
    have "walk z till m (wallClock z t) (t + minutes 1) \<noteq> None"
      by (rule Suc.IH) (use Suc.prems n False in \<open>auto simp: algebra_simps wallClock_def\<close>)
    then show ?thesis by (simp add: n walk_Suc)
  qed
qed

section \<open>Holding ends, outside the window\<close>

lemma Validate_None:
  assumes "ValidateQuiet load q = None"
  obtains start till z where "parseClock (q_Start q) = Some start" "parseClock (q_End q) = Some till" "start \<noteq> till"
    "load (q_Timezone q) = Some z" "0 \<le> start" "start < 1440" "0 \<le> till" "till < 1440"
  using assms parse_hhmm_range
  by (auto simp: ValidateQuiet_def parseClock_def split: option.splits if_splits)

text \<open>In the free part of the day after \<open>till\<close> the window is not active.\<close>

lemma free_after_end:
  assumes "0 \<le> start" "start < 1440" "0 \<le> till" "till < 1440" "start \<noteq> till" "0 \<le> k" "k < (start - till) mod 1440"
  shows "\<not> in_window start till ((till + k) mod 1440)"
proof (cases "start < till")
  case True
  have "(start - till + 1440) mod 1440 = start - till + 1440" using assms True by (intro mod_pos_pos_trivial) auto
  then have "(start - till) mod 1440 = start - till + 1440" by simp
  moreover have "(till + k) mod 1440 = (if till + k < 1440 then till + k else till + k - 1440)" if "till + k < 2880"
  proof (cases "till + k < 1440")
    case False
    then have "(till + k - 1440) mod 1440 = till + k - 1440" using that by (intro mod_pos_pos_trivial) auto
    then show ?thesis using False by simp
  qed (use assms(3,6) in simp)
  ultimately show ?thesis using assms True by (auto simp: in_window_def split: if_splits)
next
  case False
  then have "(start - till) mod 1440 = start - till" using assms by simp
  then show ?thesis using assms False by (simp add: in_window_def)
qed

lemma minute_of_day_add:
  assumes "minutes 1 dvd d" shows "minute_of_day (w + d) = (minute_of_day w + d div minutes 1) mod 1440"
  using assms by (auto simp: minute_of_day_mod div_plus_div_distrib_dvd_right mod_simps)

text \<open>What the zone has to be like: it never jumps forward over the whole free part of the day.\<close>

definition jumps_below :: "zone \<Rightarrow> int \<Rightarrow> bool" where
  "jumps_below z m \<longleftrightarrow> (\<forall>u. z (u + 60) - z u < 60 * m)"

lemma wall_step:
  assumes "minute_zone z" "minutes 1 dvd t"
  shows "wallClock z (t + minutes 1) - wallClock z t = minutes 1 + seconds (z (Unix t + 60) - z (Unix t))"
proof -
  have "Unix (t + minutes 1) = Unix t + 60" by (simp add: Unix_def)
  then show ?thesis using assms by (simp add: wallClock_local local_def algebra_simps)
qed

lemma end_not_active:
  assumes "minute_zone z" "0 \<le> start" "start < 1440" "0 \<le> till" "till < 1440" "start \<noteq> till"
    and "jumps_below z ((start - till) mod 1440)" "minutes 1 dvd e"
    and "minute_of_day (wallClock z e) = till \<or>
      minutes 1 < wallClock z e - wallClock z (e - minutes 1) \<and> next_at till (wallClock z (e - minutes 1)) < wallClock z e"
  shows "\<not> in_window start till (minute_of_day (local z e))"
  using assms(9)
proof
  assume "minute_of_day (wallClock z e) = till"
  then show ?thesis using assms by (auto simp: minute_of_day_wallClock in_window_def)
next
  let ?p = "wallClock z (e - minutes 1)" and ?w = "next_at till (wallClock z (e - minutes 1))"
  assume gap: "minutes 1 < wallClock z e - ?p \<and> ?w < wallClock z e"
  have dvd: "minutes 1 dvd wallClock z e - ?w" using next_at(4) [OF assms(4,5)] by (simp add: wallClock_def)
  then obtain k where k: "wallClock z e - ?w = minutes 1 * k" by (elim dvdE)
  have "minutes 1 dvd ?w - ?p" using next_at(4) [OF assms(4,5)] by (simp add: wallClock_def)
  then have "minutes 1 \<le> ?w - ?p" using next_at(1) [OF assms(4,5)] by (intro zdvd_imp_le) simp_all
  moreover have "minutes 1 dvd e - minutes 1" using assms(8) by simp
  then have "wallClock z e - ?p = minutes 1 + seconds (z (Unix (e - minutes 1) + 60) - z (Unix (e - minutes 1)))"
    using wall_step [OF assms(1), of "e - minutes 1"] by simp
  moreover define g where "g = (start - till) mod 1440"
  then have "z (Unix (e - minutes 1) + 60) - z (Unix (e - minutes 1)) < 60 * g"
    using assms(7) unfolding jumps_below_def by simp
  moreover have "k < g" if "minutes 1 \<le> x - p" "w - p = minutes 1 + seconds (a - b)" "a - b < 60 * g" "w - x = minutes 1 * k"
    for x p w a b :: int using that by simp
  ultimately have "k < g" using k by blast
  then have "k < (start - till) mod 1440" by (simp only: g_def)
  moreover have "0 \<le> k" using k gap by linarith
  moreover have "minute_of_day (wallClock z e) = (till + k) mod 1440"
    using minute_of_day_add [OF dvd, of ?w] next_at(3) [OF assms(4,5)] k by simp
  ultimately show ?thesis using free_after_end assms(2-6) by (simp add: minute_of_day_wallClock)
qed

lemma EndAfter_found:
  assumes "load (q_Timezone q) = Some z" "parseClock (q_End q) = Some till" "0 \<le> till" "till < 1440"
    and "minute_zone z" "spread_within_day z"
  obtains e where "EndAfter load q now = e" "round_up now \<le> e" "e < round_up now + hours 72" "minutes 1 dvd e"
    "minute_of_day (wallClock z e) = till \<or>
      minutes 1 < wallClock z e - wallClock z (e - minutes 1) \<and> next_at till (wallClock z (e - minutes 1)) < wallClock z e"
proof -
  let ?t = "round_up now"
  let ?p = "wallClock z (?t - minutes 1)"
  have t: "minutes 1 dvd ?t" "minutes 1 dvd ?t - minutes 1" using round_up(3) [of now] by (auto simp: mod_eq_0_iff_dvd)
  have far: "minutes 1 dvd ?t + minutes (int 4319)" using t(1) by simp
  have "z (Unix (?t - minutes 1)) - z (Unix (?t + minutes (int 4319))) \<le> 86400" using assms(6) by (simp add: spread_within_day_def)
  then have "?p + day_length \<le> wallClock z (?t + minutes (int 4319))"
    using wallClock_local [OF assms(5) far] wallClock_local [OF assms(5) t(2)] by (simp add: local_def)
  then have "next_at till ?p \<le> wallClock z (?t + minutes (int 4319))" using next_at(2) [OF assms(3,4), of ?p] by linarith
  then have "walk z till 4320 ?p ?t \<noteq> None"
    using walk_finds [OF assms(5,3,4) t(1) _ next_at(1) [OF assms(3,4)] next_at(4) [OF assms(3,4)] next_at(3) [OF assms(3,4)], of ?p 4319 4320]
    by (simp add: wallClock_def)
  then obtain e where e: "walk z till 4320 ?p ?t = Some e" by auto
  then have "EndAfter load q now = e" by (simp add: EndAfter_def assms(1,2) Let_def)
  moreover note walk_Some [OF e t(1)]
  ultimately show ?thesis by (intro that) (auto simp: Let_def split: if_splits)
qed

text \<open>
  C12: An alert held for quiet hours is not held for good: in a zone of whole-minute offsets that lie within a day
  of each other and never jump forward over the whole free part of the day, the moment it is held until is at
  most three days (and a minute) off, and at that moment the channel is not quiet, daylight saving changes
  included, so the worker asked again then sends it.
\<close>

theorem quiet_hours_end:
  assumes "quiet_answer_at load tab now ch = QuietUntil e" "tab ch = Some q" "load (q_Timezone q) = Some z"
    and "parseClock (q_Start q) = Some start" "parseClock (q_End q) = Some till"
    and "minute_zone z" "spread_within_day z" "jumps_below z ((start - till) mod 1440)"
  shows "now \<le> e \<and> e \<le> now + hours 72 + minutes 1 \<and> quiet_answer_at load tab e ch = NotQuiet (q_Timezone q)"
proof -
  have valid: "ValidateQuiet load q = None" and e: "e = EndAfter load q now"
    using assms(1,2) by (auto simp: quiet_answer_at_def GetQuietHours_def ActiveQuiet_def split: if_splits)
  have range: "0 \<le> start" "start < 1440" "0 \<le> till" "till < 1440" "start \<noteq> till"
    using Validate_None [OF valid] assms(4,5) by (metis option.inject)+
  obtain e' where e': "EndAfter load q now = e'" "round_up now \<le> e'" "e' < round_up now + hours 72" "minutes 1 dvd e'"
    "minute_of_day (wallClock z e') = till \<or>
      minutes 1 < wallClock z e' - wallClock z (e' - minutes 1) \<and> next_at till (wallClock z (e' - minutes 1)) < wallClock z e'"
    by (rule EndAfter_found [where load = load and q = q and now = now, OF assms(3,5) range(3,4) assms(6,7)])
  have "\<not> in_window start till (minute_of_day (local z e'))"
    by (rule end_not_active [OF assms(6) range assms(8) e'(4,5)])
  then have "\<not> ActiveQuiet load q e" using e e'(1) assms(3,4,5) by (simp add: ActiveQuiet_def)
  then show ?thesis using e e' round_up(1,2) [of now] assms(2) by (simp add: quiet_answer_at_def GetQuietHours_def)
qed

definition example_quiet :: quietHours where
  "example_quiet = \<lparr>q_ChannelID = 1, q_Start = ''23:00'', q_End = ''07:00'', q_Timezone = ''UTC'', q_During = QuietHold\<rparr>"

definition example_zones :: zones where
  "example_zones name = (if name = ''UTC'' then Some (\<lambda>u. 0) else None)"

lemma example_clocks: "parseClock ''23:00'' = Some 1380" "parseClock ''07:00'' = Some 420"
  by (simp_all add: parseClock_def parse_hhmm_def parse_minute_def is_digit_def digit_value_def)

lemma example_quiet_valid: "ValidateQuiet example_zones example_quiet = None"
  by (simp add: ValidateQuiet_def example_quiet_def example_clocks example_zones_def QuietHold_def)

lemma example_quiet_active: "ActiveQuiet example_zones example_quiet (hours 23 + minutes 30)"
  using example_quiet_valid
  by (simp add: ActiveQuiet_def example_quiet_def example_clocks example_zones_def local_def minute_of_day_def in_window_def)

theorem quiet_hours_end_witness:
  "let e = EndAfter example_zones example_quiet (hours 23 + minutes 30) in
   hours 23 + minutes 30 \<le> e \<and> e \<le> hours 23 + minutes 30 + hours 72 + minutes 1 \<and>
   quiet_answer_at example_zones [1 \<mapsto> example_quiet] e 1 = NotQuiet ''UTC''"
proof -
  have q: "quiet_answer_at example_zones [1 \<mapsto> example_quiet] (hours 23 + minutes 30) 1 =
      QuietUntil (EndAfter example_zones example_quiet (hours 23 + minutes 30))"
    using example_quiet_active by (simp add: quiet_answer_at_def GetQuietHours_def example_quiet_def QuietHold_def QuietDrop_def)
  have "hours 23 + minutes 30 \<le> EndAfter example_zones example_quiet (hours 23 + minutes 30) \<and>
      EndAfter example_zones example_quiet (hours 23 + minutes 30) \<le> hours 23 + minutes 30 + hours 72 + minutes 1 \<and>
      quiet_answer_at example_zones [1 \<mapsto> example_quiet] (EndAfter example_zones example_quiet (hours 23 + minutes 30)) 1 =
        NotQuiet (q_Timezone example_quiet)"
    by (rule quiet_hours_end [OF q, where z = "\<lambda>u. 0" and start = 1380 and till = 420])
      (simp_all add: example_quiet_def example_zones_def example_clocks minute_zone_def spread_within_day_def jumps_below_def)
  then show ?thesis by (simp add: example_quiet_def Let_def)
qed

section \<open>Without a change of the clocks the hold is the window\<close>

lemma walk_first:
  "walk z till n prev t = Some e \<Longrightarrow> t \<le> u \<Longrightarrow> u < e \<Longrightarrow> minutes 1 dvd t \<Longrightarrow> minutes 1 dvd u \<Longrightarrow>
     minute_of_day (wallClock z u) \<noteq> till"
proof (induction n arbitrary: prev t)
  case (Suc n)
  have "minute_of_day (wallClock z t) \<noteq> till" using Suc.prems(1,2,3) by (auto simp: walk_Suc)
  moreover have "t + minutes 1 \<le> u" if "u \<noteq> t"
  proof -
    have "minutes 1 \<le> u - t" using that Suc.prems(2,4,5) by (intro zdvd_imp_le) (auto intro: dvd_diff)
    then show ?thesis by simp
  qed
  ultimately show ?case using Suc.IH [of "wallClock z t" "t + minutes 1"] Suc.prems
    by (cases "u = t") (auto simp: walk_Suc split: if_splits)
qed simp

lemma next_minute: "(m + 1) mod 1440 = (if m mod 1440 = 1439 then 0 else m mod 1440 + (1 :: int))"
proof -
  have "(m + 1) mod 1440 = (m mod 1440 + 1) mod 1440" by (simp add: mod_simps)
  moreover have "m mod 1440 < 1440" "0 \<le> m mod 1440" by simp_all
  ultimately show ?thesis by auto
qed

lemma stays_in_window:
  assumes "in_window start till (m mod 1440)" "m \<le> n" "\<forall>j. m < j \<and> j \<le> n \<longrightarrow> j mod 1440 \<noteq> till"
    and "0 \<le> till" "till < 1440" "0 \<le> start" "start < 1440"
  shows "in_window start till (n mod 1440)"
  using assms(2,3)
proof (induction n rule: int_ge_induct)
  case (step n)
  have "(n + 1) mod 1440 \<noteq> till" using step.hyps step.prems by auto
  moreover have "in_window start till (n mod 1440)" using step by auto
  moreover have "0 \<le> n mod 1440" "n mod 1440 < 1440" by simp_all
  ultimately show ?case using next_minute [of n] assms(4-7) unfolding in_window_def by (auto split: if_splits)
qed (use assms(1) in simp)

text \<open>
  Where the clocks do not change, holding is the window itself: an alert that comes while the channel is quiet
  is held while it stays quiet, at most a day, and released at the first moment it is not.
\<close>

theorem quiet_hold_is_the_window:
  assumes "ActiveQuiet load q now" "load (q_Timezone q) = Some (\<lambda>u. c)" "60 dvd c"
  shows "(\<forall>t. now \<le> t \<and> t < EndAfter load q now \<longrightarrow> ActiveQuiet load q t) \<and> \<not> ActiveQuiet load q (EndAfter load q now) \<and>
    EndAfter load q now \<le> now + day_length"
proof -
  let ?z = "\<lambda>u :: int. c"
  have valid: "ValidateQuiet load q = None" using assms(1) by (auto simp: ActiveQuiet_def split: if_splits)
  obtain start till where q: "parseClock (q_Start q) = Some start" "parseClock (q_End q) = Some till" "start \<noteq> till"
    "0 \<le> start" "start < 1440" "0 \<le> till" "till < 1440"
    by (rule Validate_None [OF valid])
  have zone: "minute_zone ?z" "spread_within_day ?z" using assms(3) by (simp_all add: minute_zone_def spread_within_day_def)
  have active: "ActiveQuiet load q t \<longleftrightarrow> in_window start till (local ?z t div minutes 1 mod 1440)" for t
    using valid q assms(2) by (simp add: ActiveQuiet_def minute_of_day_mod)
  obtain e where e: "EndAfter load q now = e" "round_up now \<le> e" "minutes 1 dvd e"
    "minute_of_day (wallClock ?z e) = till \<or>
      minutes 1 < wallClock ?z e - wallClock ?z (e - minutes 1) \<and> next_at till (wallClock ?z (e - minutes 1)) < wallClock ?z e"
    by (rule EndAfter_found [where load = load and q = q and now = now, OF assms(2) q(2,6,7) zone])
  have "minutes 1 dvd e - minutes 1" using e(3) by simp
  then have "wallClock ?z e - wallClock ?z (e - minutes 1) = minutes 1" using wall_step [OF zone(1), of "e - minutes 1"] by simp
  then have till: "minute_of_day (wallClock ?z e) = till" using e(4) by simp
  have dvd: "minutes 1 dvd round_up now" using round_up(3) [of now] by (simp add: mod_eq_0_iff_dvd)
  obtain prev where w: "walk ?z till 4320 prev (round_up now) = Some e"
  proof -
    have "walk ?z till 4320 (wallClock ?z (round_up now - minutes 1)) (round_up now) \<noteq> None"
    proof
      assume none: "walk ?z till 4320 (wallClock ?z (round_up now - minutes 1)) (round_up now) = None"
      let ?p = "wallClock ?z (round_up now - minutes 1)"
      have "minutes 1 dvd round_up now - minutes 1" using dvd by simp
      then have "?p + minutes 4320 = wallClock ?z (round_up now + minutes (int 4319))"
        using wallClock_local [OF zone(1)] dvd by (simp add: local_def)
      then have "next_at till ?p \<le> wallClock ?z (round_up now + minutes (int 4319))" using next_at(2) [OF q(6,7), of ?p] by simp
      then show False
        using walk_finds [OF zone(1) q(6,7) dvd _ next_at(1) [OF q(6,7)] next_at(4) [OF q(6,7)] next_at(3) [OF q(6,7)], of ?p 4319 4320] none
        by (simp add: wallClock_def)
    qed
    then show thesis using that e(1) assms(2) q(2) by (auto simp: EndAfter_def Let_def)
  qed
  have quiet: "ActiveQuiet load q t" if t: "now \<le> t" "t < e" for t
  proof -
    let ?m = "\<lambda>u. local ?z u div minutes 1"
    have "j mod 1440 \<noteq> till" if j: "?m now < j" "j \<le> ?m t" for j
    proof -
      let ?u = "minutes j - seconds c"
      have "minutes 1 dvd seconds c" using assms(3) by (auto elim!: dvdE)
      then have du: "minutes 1 dvd ?u" by simp
      have lu: "local ?z ?u = minutes j" by (simp add: local_def)
      have "local ?z now < minutes j" using j(1) by (simp add: div_less_iff_less_mult)
      then have "now < ?u" by (simp add: local_def)
      have "minutes j \<le> minutes (?m t)" using j(2) by simp
      also have "\<dots> \<le> local ?z t" by (simp add: minus_mod_eq_div_mult [symmetric])
      finally have "?u \<le> t" by (simp add: local_def)
      have "round_up now \<le> ?u"
      proof (rule ccontr)
        assume "\<not> ?thesis"
        then have "minutes 1 \<le> round_up now - ?u" using dvd du by (intro zdvd_imp_le) auto
        then show False using round_up(2) [of now] \<open>now < ?u\<close> by linarith
      qed
      then have "minute_of_day (wallClock ?z ?u) \<noteq> till" using walk_first [OF w _ _ dvd du] \<open>?u \<le> t\<close> t(2) by linarith
      then show ?thesis using wallClock_local [OF zone(1) du] lu by (simp add: minute_of_day_mod)
    qed
    moreover have "?m now \<le> ?m t" using t(1) by (simp add: local_def zdiv_mono1)
    ultimately show ?thesis using stays_in_window [of start till "?m now" "?m t"] assms(1) q active by simp
  qed
  have free: "\<not> ActiveQuiet load q e"
    using valid q assms(2) till by (auto simp: ActiveQuiet_def in_window_def minute_of_day_wallClock)
  have "e \<le> now + day_length"
  proof (rule ccontr)
    assume "\<not> ?thesis"
    then have late: "now + day_length < e" by simp
    let ?n = "next_at till (local ?z now)"
    have n: "local ?z now < ?n" "?n \<le> local ?z now + day_length" "minute_of_day ?n = till" using next_at q(6,7) by blast+
    have "ActiveQuiet load q (?n - seconds c)" using n(1,2) late by (intro quiet) (simp_all add: local_def)
    moreover have "local ?z (?n - seconds c) = ?n" by (simp add: local_def)
    ultimately show False using n(3) valid q assms(2) by (auto simp: ActiveQuiet_def in_window_def split: if_splits)
  qed
  then show ?thesis using quiet free e(1) by auto
qed

theorem quiet_hold_is_the_window_witness:
  "let e = EndAfter example_zones example_quiet (hours 23 + minutes 30) in
   \<not> ActiveQuiet example_zones example_quiet e \<and> e \<le> hours 23 + minutes 30 + day_length"
  using quiet_hold_is_the_window [OF example_quiet_active, of 0]
  by (simp add: example_zones_def example_quiet_def Let_def)

end
