(* ===== verification/Tags.thy ===== *)
theory Tags
  imports Utf8 "HOL-Library.Char_ord" "HOL-Library.List_Lexorder"
begin

text \<open>
  The form in which tags are stored (\<open>internal/store/tags.go\<close>), and a rule's or window's one tag
  (\<open>routing_rules.go\<close>). A map is the list of its pairs, with distinct keys. \<open>strings.ToLower\<close> is the parameter
  \<open>ToLower\<close>; that it lowers ASCII letters and leaves other ASCII alone is \<open>ascii_lower\<close>.
\<close>

definition MaxTagsPerMonitor :: nat where
  "MaxTagsPerMonitor = 20"

definition maxTagKeyLen :: nat where
  "maxTagKeyLen = 32"

definition maxTagValueLen :: nat where
  "maxTagValueLen = 64"

definition alnum :: "char \<Rightarrow> bool" where
  "alnum c \<longleftrightarrow> is_digit c \<or> byte_between 97 122 c"

definition tagKeyPattern :: "string \<Rightarrow> bool" where
  "tagKeyPattern s \<longleftrightarrow>
     s \<noteq> [] \<and> alnum (hd s) \<and> alnum (last s) \<and>
     list_all (\<lambda>c. alnum c \<or> c = CHR ''_'' \<or> c = CHR ''.'' \<or> c = CHR ''-'') s"

datatype tag_error = TooManyTags | EmptyKey | KeyTooLong | BadKey | DuplicateKey | EmptyValue | ValueTooLong | ControlInValue

type_synonym tags = "(string \<times> string) list"

text \<open>One turn of the loop: the pair to store, unless refused.\<close>

definition normal_tag :: "(string \<Rightarrow> string) \<Rightarrow> tags \<Rightarrow> tags \<Rightarrow> string \<times> string \<Rightarrow> tag_error + string \<times> string" where
  "normal_tag ToLower stored out kv =
     (let key = ToLower (TrimSpace (fst kv)); val = TrimSpace (snd kv) in
      if key = [] then Inl EmptyKey
      else if maxTagKeyLen < RuneCount key then Inl KeyTooLong
      else if \<not> tagKeyPattern key then Inl BadKey
      else if map_of out key \<noteq> None then Inl DuplicateKey
      else if val = [] then Inl EmptyValue
      else if maxTagValueLen < RuneCount val then Inl ValueTooLong
      else if HasControlCharacter val \<and> (case map_of stored key of None \<Rightarrow> [] | Some v \<Rightarrow> v) \<noteq> val then Inl ControlInValue
      else Inr (key, val))"

fun normal_tags :: "(string \<Rightarrow> string) \<Rightarrow> tags \<Rightarrow> tags \<Rightarrow> tags \<Rightarrow> tag_error + tags" where
  "normal_tags ToLower stored out [] = Inr out"
| "normal_tags ToLower stored out (kv # kvs) =
     (case normal_tag ToLower stored out kv of
        Inl err \<Rightarrow> Inl err
      | Inr p \<Rightarrow> normal_tags ToLower stored (out @ [p]) kvs)"

definition NormaliseTagsEdit :: "(string \<Rightarrow> string) \<Rightarrow> tags \<Rightarrow> tags \<Rightarrow> tag_error + tags" where
  "NormaliseTagsEdit ToLower t stored =
     (if t = [] then Inr []
      else if MaxTagsPerMonitor < length t then Inl TooManyTags
      else normal_tags ToLower stored [] (sort_key fst t))"

definition NormaliseTags :: "(string \<Rightarrow> string) \<Rightarrow> tags \<Rightarrow> tag_error + tags" where
  "NormaliseTags ToLower t = NormaliseTagsEdit ToLower t []"

definition NormaliseRoutingTagEdit :: "(string \<Rightarrow> string) \<Rightarrow> string \<Rightarrow> string \<Rightarrow> string \<Rightarrow> string \<Rightarrow> tag_error + string \<times> string" where
  "NormaliseRoutingTagEdit ToLower key val storedKey storedValue =
     (case NormaliseTagsEdit ToLower [(key, val)] (if storedKey \<noteq> [] then [(storedKey, storedValue)] else []) of
        Inl err \<Rightarrow> Inl err
      | Inr [] \<Rightarrow> Inl EmptyKey
      | Inr (p # ps) \<Rightarrow> Inr p)"

definition NormaliseRoutingTag :: "(string \<Rightarrow> string) \<Rightarrow> string \<Rightarrow> string \<Rightarrow> tag_error + string \<times> string" where
  "NormaliseRoutingTag ToLower key val = NormaliseRoutingTagEdit ToLower key val [] []"

definition ascii_lower :: "(string \<Rightarrow> string) \<Rightarrow> bool" where
  "ascii_lower ToLower \<longleftrightarrow> (\<forall>s. list_all (\<lambda>c. of_char c < (128 :: nat)) s \<longrightarrow> ToLower s = map to_lower s)"

text \<open>A key in normal form is kept as it is.\<close>

lemma tagKeyPattern_chars:
  assumes "tagKeyPattern s" "c \<in> set s" shows "to_lower c = c \<and> of_char c < (128 :: nat) \<and> printable c"
  using assms by (auto simp: tagKeyPattern_def list_all_iff alnum_def is_digit_def byte_between_def to_lower_def printable_def)

lemma tagKeyPattern_normal:
  assumes "ascii_lower ToLower" "tagKeyPattern s" shows "ToLower (TrimSpace s) = s"
proof -
  have s: "s \<noteq> []" using assms(2) by (auto simp: tagKeyPattern_def)
  then have "printable (hd s)" "printable (last s)" using tagKeyPattern_chars [OF assms(2)] by simp_all
  then have "TrimSpace s = s" using s by (simp add: TrimSpace_printable)
  moreover have "ToLower s = map to_lower s"
    using assms tagKeyPattern_chars [OF assms(2)] by (auto simp: ascii_lower_def list_all_iff)
  moreover have "map to_lower s = s" using tagKeyPattern_chars [OF assms(2)] by (simp add: map_idI)
  ultimately show ?thesis by simp
qed

end
