(* ===== verification/Maintenance.thy ===== *)
theory Maintenance
  imports Clock Tags
begin

text \<open>
  Maintenance windows (\<open>internal/store/maintenance.go\<close>): what a valid one is, when it is active, the stretches
  of time it covers, the table of windows and whether a monitor is in one. \<open>load\<close> is \<open>time.LoadLocation\<close>,
  \<open>ToLower\<close> is \<open>strings.ToLower\<close>; the monitor's tags are an argument.
\<close>

section \<open>Windows\<close>

record mwindow =
  w_ID :: int
  w_Name :: string
  w_MonitorID :: int
  w_TagKey :: string
  w_TagValue :: string
  w_StartsAt :: instant
  w_EndsAt :: instant
  w_Timezone :: string
  w_Weekdays :: "int list"
  w_LocalTime :: string
  w_DurationMinutes :: int
  w_CreatedAt :: instant

text \<open>A refusal is the setting at fault, empty when it spans settings.\<close>

type_synonym setting = string

definition maxMaintenanceName :: nat where
  "maxMaintenanceName = 120"

definition normaliseMaintenanceTag :: "(string \<Rightarrow> string) \<Rightarrow> string \<Rightarrow> string \<Rightarrow> bool \<Rightarrow> setting + string \<times> string" where
  "normaliseMaintenanceTag ToLower key val stored =
     (case NormaliseRoutingTag ToLower key ''-'' of
        Inl err \<Rightarrow> Inl ''tag_key''
      | Inr p \<Rightarrow>
          (case NormaliseRoutingTagEdit ToLower key val (if stored then ToLower key else []) (if stored then val else []) of
             Inl err \<Rightarrow> Inl ''tag_value''
           | Inr kv \<Rightarrow> Inr kv))"

definition validateOneOff :: "mwindow \<Rightarrow> setting option" where
  "validateOneOff w =
     (if w_Weekdays w \<noteq> [] \<or> w_LocalTime w \<noteq> [] \<or> w_DurationMinutes w \<noteq> 0 then Some ''timezone''
      else if is_zero (w_StartsAt w) then Some ''starts_at''
      else if \<not> w_StartsAt w < w_EndsAt w \<or> hours (366 * 24) < w_EndsAt w - w_StartsAt w then Some ''ends_at''
      else None)"

definition validateWeekly :: "(string \<Rightarrow> zone option) \<Rightarrow> mwindow \<Rightarrow> setting option" where
  "validateWeekly load w =
     (if w_Timezone w = ''Local'' then Some ''timezone''
      else if load (w_Timezone w) = None then Some ''timezone''
      else if \<not> is_zero (w_StartsAt w) then Some ''starts_at''
      else if \<not> is_zero (w_EndsAt w) then Some ''ends_at''
      else if parse_hhmm (w_LocalTime w) = None \<or> length (w_LocalTime w) \<noteq> 5 then Some ''local_time''
      else if w_Weekdays w = [] \<or> 7 < length (w_Weekdays w) then Some ''weekdays''
      else if w_DurationMinutes w < 1 \<or> 1440 < w_DurationMinutes w then Some ''duration_minutes''
      else if \<not> (list_all (\<lambda>d. 0 \<le> d \<and> d \<le> 6) (w_Weekdays w) \<and> distinct (w_Weekdays w)) then Some ''weekdays''
      else None)"

definition ValidateMaintenance :: "(string \<Rightarrow> zone option) \<Rightarrow> (string \<Rightarrow> string) \<Rightarrow> mwindow \<Rightarrow> setting option" where
  "ValidateMaintenance load ToLower w =
     (let schedule = (if w_Timezone w = [] then validateOneOff w else validateWeekly load w) in
      if TrimSpace (w_Name w) = [] \<or> maxMaintenanceName < RuneCount (w_Name w) then Some ''name''
      else if w_MonitorID w < 0 then Some ''monitor_id''
      else if (0 < w_MonitorID w) = (w_TagKey w \<noteq> []) then
        if w_MonitorID w = 0 \<and> w_TagValue w \<noteq> [] then Some ''tag_key'' else Some []
      else if w_TagKey w \<noteq> [] then
        (case normaliseMaintenanceTag ToLower (w_TagKey w) (w_TagValue w) True of
           Inl err \<Rightarrow> Some err
         | Inr (key, val) \<Rightarrow>
             if key \<noteq> w_TagKey w then Some ''tag_key''
             else if val \<noteq> w_TagValue w then Some ''tag_value''
             else schedule)
      else if w_TagValue w \<noteq> [] then Some ''tag_value''
      else schedule)"

definition NormaliseMaintenance :: "(string \<Rightarrow> zone option) \<Rightarrow> (string \<Rightarrow> string) \<Rightarrow> mwindow \<Rightarrow> setting + mwindow" where
  "NormaliseMaintenance load ToLower w =
     (let w = w\<lparr>w_Name := TrimSpace (w_Name w), w_Timezone := TrimSpace (w_Timezone w), w_TagKey := TrimSpace (w_TagKey w),
                w_TagValue := TrimSpace (w_TagValue w)\<rparr>;
          checked = (\<lambda>w. case ValidateMaintenance load ToLower w of Some err \<Rightarrow> Inl err | None \<Rightarrow> Inr w)
      in if HasControlCharacter (w_Name w) then Inl ''name''
         else if w_TagKey w \<noteq> [] then
           (case normaliseMaintenanceTag ToLower (w_TagKey w) (w_TagValue w) False of
              Inl err \<Rightarrow> Inl err
            | Inr (key, val) \<Rightarrow> checked (w\<lparr>w_TagKey := key, w_TagValue := val\<rparr>))
         else checked w)"

section \<open>When a window is active\<close>

text \<open>Noon of a civil date, as an instant: which date that is.\<close>

definition noon :: "zone \<Rightarrow> int \<Rightarrow> instant" where
  "noon z day = Date z (at_minute day 720)"

text \<open>
  The start on a civil date: the earlier of the instants at which the clock says so, over the offsets a day
  before and a day after.
\<close>

definition startOn :: "zone \<Rightarrow> int list \<Rightarrow> int \<Rightarrow> int \<Rightarrow> instant option" where
  "startOn z weekdays clock d =
     (let wall = local z (noon z d); day = day_of wall in
      if Weekday wall \<notin> set weekdays then None
      else
        let start = Date z (at_minute day clock);
            matches = (\<lambda>t. day_of (local z t) = day \<and> minute_of_day (local z t) = clock);
            base = z (Unix start);
            nearer = (\<lambda>s near. let candidate = s + seconds (base - z (Unix near)) in
               if matches candidate \<and> (\<not> matches s \<or> candidate < s) then candidate else s);
            start' = nearer (nearer start (start - hours 24)) (start + hours 24)
        in if matches start' then Some start' else None)"

definition recurrence :: "(string \<Rightarrow> zone option) \<Rightarrow> mwindow \<Rightarrow> (zone \<times> int) option" where
  "recurrence load w =
     (case (load (w_Timezone w), parse_hhmm (w_LocalTime w)) of (Some z, Some clock) \<Rightarrow> Some (z, clock) | _ \<Rightarrow> None)"

definition ActiveWindow :: "(string \<Rightarrow> zone option) \<Rightarrow> mwindow \<Rightarrow> instant \<Rightarrow> bool" where
  "ActiveWindow load w now =
     (if \<not> is_zero (w_CreatedAt w) \<and> now < w_CreatedAt w then False
      else if w_Timezone w = [] then w_StartsAt w \<le> now \<and> now < w_EndsAt w
      else case recurrence load w of
        None \<Rightarrow> False
      | Some (z, clock) \<Rightarrow>
          list_ex (\<lambda>delta. case startOn z (w_Weekdays w) clock (day_of (local z now) + delta) of
              None \<Rightarrow> False
            | Some start \<Rightarrow> start \<le> now \<and> now < start + minutes (w_DurationMinutes w)) [-2, -1, 0])"

type_synonym span = "instant \<times> instant"

definition add_span :: "mwindow \<Rightarrow> instant \<Rightarrow> instant \<Rightarrow> instant \<Rightarrow> instant \<Rightarrow> span list \<Rightarrow> span list" where
  "add_span w from till start stop out =
     (let start = (if \<not> is_zero (w_CreatedAt w) \<and> start < w_CreatedAt w then w_CreatedAt w else start) in
      if start < stop \<and> start < till \<and> from < stop then out @ [(start, stop)] else out)"

text \<open>The loop over the civil dates; it ends when noon lies beyond the last day's.\<close>

partial_function (option) span_loop ::
  "zone \<Rightarrow> mwindow \<Rightarrow> int \<Rightarrow> instant \<Rightarrow> instant \<Rightarrow> instant \<Rightarrow> int \<Rightarrow> span list \<Rightarrow> span list option" where
  "span_loop z w clock from till lastDay d out =
     (if lastDay < noon z d then Some out
      else span_loop z w clock from till lastDay (d + 1)
        (case startOn z (w_Weekdays w) clock (day_of (local z (noon z d))) of
           None \<Rightarrow> out
         | Some start \<Rightarrow> add_span w from till start (start + minutes (w_DurationMinutes w)) out))"

definition Occurrences :: "(string \<Rightarrow> zone option) \<Rightarrow> mwindow \<Rightarrow> instant \<Rightarrow> instant \<Rightarrow> span list option" where
  "Occurrences load w from till =
     (if w_Timezone w = [] then Some (add_span w from till (w_StartsAt w) (w_EndsAt w) [])
      else case recurrence load w of
        None \<Rightarrow> Some []
      | Some (z, clock) \<Rightarrow>
          if \<not> from < till then Some []
          else span_loop z w clock from till (noon z (day_of (local z till))) (day_of (local z from) - 2) [])"

section \<open>The table\<close>

datatype maintenance_error = RefusedWindow setting | MonitorGone | ErrMaintenanceLimit | NoRows

definition CreateMaintenance ::
  "(string \<Rightarrow> zone option) \<Rightarrow> (string \<Rightarrow> string) \<Rightarrow> instant \<Rightarrow> int set \<Rightarrow> int \<Rightarrow> mwindow \<Rightarrow> mwindow list
     \<Rightarrow> (maintenance_error + mwindow) \<times> mwindow list" where
  "CreateMaintenance load ToLower now monitors nextID w ws =
     (case NormaliseMaintenance load ToLower w of
        Inl err \<Rightarrow> (Inl (RefusedWindow err), ws)
      | Inr w \<Rightarrow>
          if 0 < w_MonitorID w \<and> w_MonitorID w \<notin> monitors then (Inl MonitorGone, ws)
          else if \<not> length ws < 200 then (Inl ErrMaintenanceLimit, ws)
          else let w = w\<lparr>w_ID := nextID, w_CreatedAt := now div seconds 1 * seconds 1\<rparr> in (Inr w, ws @ [w]))"

definition DeleteMaintenance :: "int \<Rightarrow> mwindow list \<Rightarrow> maintenance_error option \<times> mwindow list" where
  "DeleteMaintenance i ws =
     (if list_ex (\<lambda>w. w_ID w = i) ws then (None, filter (\<lambda>w. w_ID w \<noteq> i) ws) else (Some NoRows, ws))"

text \<open>\<open>tags\<close>: what the monitor carries, None when it is gone. The first window that decides ends the loop.\<close>

fun InMaintenance :: "(string \<Rightarrow> zone option) \<Rightarrow> int \<Rightarrow> tags option \<Rightarrow> instant \<Rightarrow> mwindow list \<Rightarrow> maintenance_error + bool" where
  "InMaintenance load m tags now [] = Inr False"
| "InMaintenance load m tags now (w # ws) =
     (if \<not> ActiveWindow load w now then InMaintenance load m tags now ws
      else if w_MonitorID w = m then Inr True
      else if w_TagKey w \<noteq> [] then
        (case tags of
           None \<Rightarrow> Inl MonitorGone
         | Some t \<Rightarrow>
             if (case map_of t (w_TagKey w) of None \<Rightarrow> [] | Some v \<Rightarrow> v) = w_TagValue w then Inr True
             else InMaintenance load m tags now ws)
      else InMaintenance load m tags now ws)"

section \<open>Spans are exactly the active time\<close>

text \<open>
  Zones as they are: the civil date never goes back, offsets lie within a day of each other, and every date has a
  noon.
\<close>

definition civil :: "zone \<Rightarrow> bool" where
  "civil z \<longleftrightarrow> (\<forall>t t'. t \<le> t' \<longrightarrow> day_of (local z t) \<le> day_of (local z t')) \<and> (\<forall>u v. z u - z v \<le> 86400) \<and>
     (\<forall>d. local z (noon z d) = at_minute d 720)"

lemma civil_noon: "civil z \<Longrightarrow> day_of (local z (noon z d)) = d"
  by (simp add: civil_def at_minute_parts)

lemma civil_order:
  assumes "civil z" shows "noon z d < noon z d' \<longleftrightarrow> d < d'"
proof -
  have le: "noon z a \<le> noon z b \<Longrightarrow> a \<le> b" for a b using assms civil_noon [OF assms] unfolding civil_def by metis
  have "noon z a = noon z b \<Longrightarrow> a = b" for a b using civil_noon [OF assms] by metis
  then show ?thesis using le by (metis linorder_not_le order_le_less)
qed

lemma startOn_day:
  assumes "civil z" "startOn z weekdays clock d = Some s" shows "day_of (local z s) = d"
  using assms by (auto simp: startOn_def Let_def civil_noon split: if_splits)

text \<open>An occurrence that covers \<open>t\<close> started on the civil date of \<open>t\<close> or one of the two before.\<close>

lemma covering_day:
  assumes "civil z" "startOn z weekdays clock d = Some s" "s \<le> t" "t < s + minutes n" "n \<le> 1440"
  shows "day_of (local z t) - 2 \<le> d \<and> d \<le> day_of (local z t)"
proof
  have d: "day_of (local z s) = d" by (rule startOn_day [OF assms(1,2)])
  show "d \<le> day_of (local z t)" using assms(1,3) d unfolding civil_def by metis
  have "z (Unix t) - z (Unix s) \<le> 86400" using assms(1) by (simp add: civil_def)
  then have "local z t < local z s + 2 * day_length" using assms(4,5) by (simp add: local_def)
  then have "local z t div day_length \<le> (local z s + 2 * day_length) div day_length" by (intro zdiv_mono1) simp_all
  then have "day_of (local z t) \<le> day_of (local z s) + 2" by (simp add: day_of_def)
  then show "day_of (local z t) - 2 \<le> d" using d by simp
qed

text \<open>The loop visits the dates up to the last and returns.\<close>

definition day_spans :: "zone \<Rightarrow> mwindow \<Rightarrow> int \<Rightarrow> instant \<Rightarrow> instant \<Rightarrow> int \<Rightarrow> span list" where
  "day_spans z w clock from till d =
     (case startOn z (w_Weekdays w) clock d of
        None \<Rightarrow> []
      | Some start \<Rightarrow> add_span w from till start (start + minutes (w_DurationMinutes w)) [])"

lemma add_span_append: "add_span w from till a b out = out @ add_span w from till a b []"
  by (simp add: add_span_def Let_def)

lemma span_loop_Some:
  assumes "civil z" "d \<le> l + 1"
  shows "span_loop z w clock from till (noon z l) d out = Some (out @ concat (map (day_spans z w clock from till) [d..l]))"
  using assms(2)
proof (induction "nat (l + 1 - d)" arbitrary: d out)
  case 0
  then have "noon z l < noon z d" using civil_order [OF assms(1)] by simp
  then show ?case using 0 by (simp add: span_loop.simps [of z w clock "from" till "noon z l" d])
next
  case (Suc n)
  then have d: "d \<le> l" by simp
  then have "\<not> noon z l < noon z d" using civil_order [OF assms(1)] by simp
  moreover have "(case startOn z (w_Weekdays w) clock d of None \<Rightarrow> out
      | Some start \<Rightarrow> add_span w from till start (start + minutes (w_DurationMinutes w)) out) = out @ day_spans z w clock from till d"
    by (cases "startOn z (w_Weekdays w) clock d") (simp_all add: day_spans_def add_span_append [of _ _ _ _ _ out])
  moreover have "n = nat (l + 1 - (d + 1))" using Suc.hyps(2) d by simp
  ultimately show ?case using d Suc.hyps(1) [of "d + 1" "out @ day_spans z w clock from till d"]
    by (simp add: span_loop.simps [of z w clock "from" till "noon z l" d] civil_noon [OF assms(1)] upto_rec1)
qed

text \<open>
  C13: The spans shown for a weekly window are exactly its active time: the loop over the dates returns, and an
  instant of the asked range lies in one of the spans if and only if the window is active then; and looking two
  civil dates back is enough: it is active if and only if the occurrence of any date at all covers the instant.
  The zone is one whose civil date never goes back, with every noon and offsets within a day of each other.
\<close>

theorem occurrences_are_the_active_time:
  assumes "validateWeekly load w = None" "w_Timezone w \<noteq> []" "load (w_Timezone w) = Some z" "civil z"
    and "parse_hhmm (w_LocalTime w) = Some clock" "from \<le> t" "t < till"
  shows "(\<exists>spans. Occurrences load w from till = Some spans \<and>
      (ActiveWindow load w t \<longleftrightarrow> (\<exists>(a, b) \<in> set spans. a \<le> t \<and> t < b))) \<and>
    (ActiveWindow load w t \<longleftrightarrow> \<not> (w_CreatedAt w \<noteq> 0 \<and> t < w_CreatedAt w) \<and>
      (\<exists>d s. startOn z (w_Weekdays w) clock d = Some s \<and> s \<le> t \<and> t < s + minutes (w_DurationMinutes w)))"
proof -
  let ?start = "startOn z (w_Weekdays w) clock" and ?n = "w_DurationMinutes w"
  let ?ok = "\<not> (w_CreatedAt w \<noteq> 0 \<and> t < w_CreatedAt w)"
  let ?f = "day_of (local z from) - 2" and ?l = "day_of (local z till)"
  have n: "?n \<le> 1440" using assms(1) by (auto simp: validateWeekly_def split: if_splits)
  have rec: "recurrence load w = Some (z, clock)" using assms(3,5) by (simp add: recurrence_def)
  have mono: "x \<le> y \<Longrightarrow> day_of (local z x) \<le> day_of (local z y)" for x y using assms(4) by (simp add: civil_def)
  have active: "ActiveWindow load w t \<longleftrightarrow> ?ok \<and> (\<exists>d s. ?start d = Some s \<and> s \<le> t \<and> t < s + minutes ?n)"
  proof -
    have "(\<exists>d s. ?start d = Some s \<and> s \<le> t \<and> t < s + minutes ?n) \<longleftrightarrow>
        list_ex (\<lambda>delta. case ?start (day_of (local z t) + delta) of
          None \<Rightarrow> False | Some s \<Rightarrow> s \<le> t \<and> t < s + minutes ?n) [-2, -1, 0]" (is "?L \<longleftrightarrow> ?R")
    proof
      assume ?L
      then obtain d s where ds: "?start d = Some s" "s \<le> t" "t < s + minutes ?n" by blast
      then have "day_of (local z t) - 2 \<le> d" "d \<le> day_of (local z t)" using covering_day [OF assms(4) ds n] by simp_all
      then have "d - day_of (local z t) \<in> {-2, -1, 0}" by auto
      then show ?R using ds unfolding list_ex_iff by (intro bexI [of _ "d - day_of (local z t)"]) auto
    qed (auto split: option.splits)
    then show ?thesis using assms(2) rec by (simp add: ActiveWindow_def)
  qed
  have "?f \<le> ?l + 1" using mono [of "from" till] assms(6,7) by simp
  then have occ: "Occurrences load w from till = Some (concat (map (day_spans z w clock from till) [?f..?l]))" (is "_ = Some ?spans")
    using assms(2,6,7) rec span_loop_Some [OF assms(4), of ?f ?l w clock "from" till "[]"] by (simp add: Occurrences_def)
  have "(\<exists>(a, b) \<in> set ?spans. a \<le> t \<and> t < b) \<longleftrightarrow> ActiveWindow load w t"
  proof
    assume "\<exists>(a, b) \<in> set ?spans. a \<le> t \<and> t < b"
    then obtain d a b where span: "(a, b) \<in> set (day_spans z w clock from till d)" "a \<le> t" "t < b" by auto
    then obtain s where s: "?start d = Some s" by (cases "?start d") (auto simp: day_spans_def)
    then have "b = s + minutes ?n" "s \<le> a" "w_CreatedAt w = 0 \<or> w_CreatedAt w \<le> a"
      using span(1) by (auto simp: day_spans_def add_span_def Let_def split: if_splits)
    then show "ActiveWindow load w t" unfolding active using s span(2,3) by force
  next
    assume "ActiveWindow load w t"
    then obtain d s where ok: ?ok and ds: "?start d = Some s" "s \<le> t" "t < s + minutes ?n" unfolding active by blast
    have "day_of (local z t) - 2 \<le> d" "d \<le> day_of (local z t)" using covering_day [OF assms(4) ds n] by simp_all
    then have d: "d \<in> set [?f..?l]" using mono [OF assms(6)] mono [of t till] assms(7) by simp
    let ?a = "if w_CreatedAt w \<noteq> 0 \<and> s < w_CreatedAt w then w_CreatedAt w else s"
    have "(?a, s + minutes ?n) \<in> set (day_spans z w clock from till d)"
      using ds ok assms(6,7) by (auto simp: day_spans_def add_span_def Let_def)
    moreover have "?a \<le> t" using ds(2) ok by auto
    ultimately show "\<exists>(a, b) \<in> set ?spans. a \<le> t \<and> t < b" using d ds(3) by fastforce
  qed
  then show ?thesis using occ active by blast
qed

text \<open>Mondays at 02:00 for an hour, in UTC.\<close>

definition example_window :: mwindow where
  "example_window = \<lparr>w_ID = 1, w_Name = ''backup'', w_MonitorID = 1, w_TagKey = [], w_TagValue = [], w_StartsAt = 0, w_EndsAt = 0,
     w_Timezone = ''UTC'', w_Weekdays = [1], w_LocalTime = ''02:00'', w_DurationMinutes = 60, w_CreatedAt = 0\<rparr>"

definition utc_only :: "string \<Rightarrow> zone option" where
  "utc_only name = (if name = ''UTC'' then Some (\<lambda>u. 0) else None)"

lemma civil_utc: "civil (\<lambda>u. 0)"
  by (simp add: civil_def local_def noon_def Date_def day_of_def zdiv_mono1)

lemma example_clock: "parse_hhmm ''02:00'' = Some 120"
  by (simp add: parse_hhmm_def parse_minute_def is_digit_def digit_value_def)

theorem occurrences_are_the_active_time_witness:
  "ActiveWindow utc_only example_window (hours 2 + minutes 30) \<and>
   (\<exists>spans. Occurrences utc_only example_window 0 (hours 24) = Some spans \<and>
     (\<exists>(a, b) \<in> set spans. a \<le> hours 2 + minutes 30 \<and> hours 2 + minutes 30 < b))"
proof -
  have valid: "validateWeekly utc_only example_window = None"
    by (simp add: validateWeekly_def example_window_def utc_only_def example_clock)
  have "startOn (\<lambda>u. 0) [1] 120 0 = Some (hours 2)"
    by (simp add: startOn_def local_def noon_def Date_def at_minute_def day_of_def Weekday_def minute_of_day_def)
  then have "ActiveWindow utc_only example_window (hours 2 + minutes 30)"
    by (simp add: ActiveWindow_def example_window_def utc_only_def recurrence_def example_clock local_def day_of_def)
  moreover note occurrences_are_the_active_time [OF valid, of "\<lambda>u. 0" 120 0 "hours 2 + minutes 30" "hours 24"]
  ultimately show ?thesis using civil_utc by (simp add: example_window_def utc_only_def example_clock)
qed

end
