(* ===== verification/Routing.thy ===== *)
theory Routing
  imports Tags
begin

text \<open>
  Who an alert goes to (\<open>internal/store/channels.go\<close>, \<open>routing_rules.go\<close>, \<open>bulk_channels.go\<close>): channels, the
  monitors' own channels, rules by tag with their exclusions, and the instance default. A table is the list of
  its rows; references are deleted with what they refer to. A channel's configuration is as it is read back:
  its encryption is not modelled. A change runs in one transaction, so a refused one leaves everything as it was.
\<close>

section \<open>Tables\<close>

record channelRow =
  c_ID :: int
  c_Name :: string
  c_Type :: string
  c_Config :: "(string \<times> string) list"
  c_Enabled :: bool
  c_IsDefault :: bool
  c_CreatedAt :: int
  c_UpdatedAt :: int

record ruleRow =
  r_ID :: int
  r_TagKey :: string
  r_TagValue :: string
  r_CreatedAt :: int

record routes =
  rt_channels :: "channelRow list"
  rt_nextChannel :: int
  rt_monitors :: "(int \<times> int) list"
  rt_tags :: "(int \<times> string \<times> string) list"
  rt_own :: "(int \<times> int) list"
  rt_rules :: "ruleRow list"
  rt_nextRule :: int
  rt_ruleChannels :: "(int \<times> int) list"
  rt_exclusions :: "(int \<times> int) list"

text \<open>\<open>rt_monitors\<close>: the monitors with the version behind their ETag (\<open>updated_at\<close>).\<close>

datatype route_error = NoChannel int | NoMonitor int | NoRule int | NotExcluded | UnknownChannel int | ErrRoutingRuleExists
  | InvalidOperation string | ErrChannelPreviewChanged

definition channel_exists :: "int \<Rightarrow> routes \<Rightarrow> bool" where
  "channel_exists i s = list_ex (\<lambda>c. c_ID c = i) (rt_channels s)"

definition monitor_exists :: "int \<Rightarrow> routes \<Rightarrow> bool" where
  "monitor_exists i s = list_ex (\<lambda>m. fst m = i) (rt_monitors s)"

definition update_channels :: "(channelRow \<Rightarrow> bool) \<Rightarrow> (channelRow \<Rightarrow> channelRow) \<Rightarrow> routes \<Rightarrow> routes" where
  "update_channels P f s = s\<lparr>rt_channels := map (\<lambda>c. if P c then f c else c) (rt_channels s)\<rparr>"

text \<open>\<open>INSERT ... ON CONFLICT DO NOTHING\<close> on a table of pairs.\<close>

definition insert_pair :: "'a \<Rightarrow> 'a list \<Rightarrow> 'a list" where
  "insert_pair p ps = (if p \<in> set ps then ps else ps @ [p])"

section \<open>Channels\<close>

definition ListChannels :: "routes \<Rightarrow> channelRow list" where
  "ListChannels s = sort_key c_ID (rt_channels s)"

definition GetChannel :: "int \<Rightarrow> routes \<Rightarrow> route_error + channelRow" where
  "GetChannel i s = (case find (\<lambda>c. c_ID c = i) (rt_channels s) of None \<Rightarrow> Inl (NoChannel i) | Some c \<Rightarrow> Inr c)"

definition CreateChannel :: "int \<Rightarrow> channelRow \<Rightarrow> routes \<Rightarrow> channelRow \<times> routes" where
  "CreateChannel now c s =
     (let row = c\<lparr>c_ID := rt_nextChannel s, c_IsDefault := False, c_CreatedAt := now, c_UpdatedAt := now\<rparr>
      in (row\<lparr>c_IsDefault := c_IsDefault c\<rparr>,
          s\<lparr>rt_channels := rt_channels s @ [row], rt_nextChannel := rt_nextChannel s + 1\<rparr>))"

definition UpdateChannel :: "int \<Rightarrow> channelRow \<Rightarrow> routes \<Rightarrow> (route_error + channelRow) \<times> routes" where
  "UpdateChannel now c s =
     (let f = (\<lambda>x. x\<lparr>c_Name := c_Name c, c_Type := c_Type c, c_Config := c_Config c, c_Enabled := c_Enabled c, c_UpdatedAt := now\<rparr>)
      in case find (\<lambda>x. c_ID x = c_ID c) (rt_channels s) of
           None \<Rightarrow> (Inl (NoChannel (c_ID c)), s)
         | Some x \<Rightarrow> (Inr (f x), update_channels (\<lambda>x. c_ID x = c_ID c) f s))"

definition DeleteChannel :: "int \<Rightarrow> routes \<Rightarrow> route_error option \<times> routes" where
  "DeleteChannel i s =
     (if \<not> channel_exists i s then (Some (NoChannel i), s)
      else (None, s\<lparr>rt_channels := filter (\<lambda>c. c_ID c \<noteq> i) (rt_channels s),
                    rt_own := filter (\<lambda>p. snd p \<noteq> i) (rt_own s),
                    rt_ruleChannels := filter (\<lambda>p. snd p \<noteq> i) (rt_ruleChannels s)\<rparr>))"

definition ListMonitorChannels :: "int \<Rightarrow> routes \<Rightarrow> channelRow list" where
  "ListMonitorChannels m s = sort_key c_ID (filter (\<lambda>c. (m, c_ID c) \<in> set (rt_own s)) (rt_channels s))"

definition DefaultChannel :: "routes \<Rightarrow> channelRow option" where
  "DefaultChannel s = find c_IsDefault (rt_channels s)"

definition SetDefaultChannel :: "int \<Rightarrow> routes \<Rightarrow> route_error option \<times> routes" where
  "SetDefaultChannel i s =
     (if \<not> channel_exists i s then (Some (NoChannel i), s)
      else (None, update_channels (\<lambda>c. c_ID c = i) (\<lambda>c. c\<lparr>c_IsDefault := True\<rparr>)
                    (update_channels (\<lambda>c. c_IsDefault c \<and> c_ID c \<noteq> i) (\<lambda>c. c\<lparr>c_IsDefault := False\<rparr>) s)))"

definition ClearDefaultChannel :: "int \<Rightarrow> routes \<Rightarrow> route_error option \<times> routes" where
  "ClearDefaultChannel i s =
     (if \<not> channel_exists i s then (Some (NoChannel i), s)
      else (None, update_channels (\<lambda>c. c_ID c = i) (\<lambda>c. c\<lparr>c_IsDefault := False\<rparr>) s))"

definition bump :: "int \<Rightarrow> int \<Rightarrow> routes \<Rightarrow> routes" where
  "bump now m s = s\<lparr>rt_monitors := map (\<lambda>(i, v). if i = m then (i, max now (v + 1)) else (i, v)) (rt_monitors s)\<rparr>"

fun distinct_from :: "int list \<Rightarrow> int list \<Rightarrow> int list" where
  "distinct_from seen [] = []"
| "distinct_from seen (i # ids) = (if i \<in> set seen then distinct_from seen ids else i # distinct_from (i # seen) ids)"

definition distinctIDs :: "int list \<Rightarrow> int list" where
  "distinctIDs ids = distinct_from [] ids"

text \<open>The loop that assigns one channel after the other.\<close>

fun add_pairs :: "routes \<Rightarrow> int \<Rightarrow> int list \<Rightarrow> (int \<times> int) list \<Rightarrow> route_error + (int \<times> int) list" where
  "add_pairs s k [] ps = Inr ps"
| "add_pairs s k (i # ids) ps =
     (if \<not> channel_exists i s then Inl (UnknownChannel i) else add_pairs s k ids (insert_pair (k, i) ps))"

definition replaceMonitorChannels :: "int \<Rightarrow> int list \<Rightarrow> routes \<Rightarrow> route_error + routes" where
  "replaceMonitorChannels m ids s =
     (case add_pairs s m (distinctIDs ids) (filter (\<lambda>p. fst p \<noteq> m) (rt_own s)) of
        Inl err \<Rightarrow> Inl err
      | Inr own \<Rightarrow> Inr (s\<lparr>rt_own := own\<rparr>))"

definition SetMonitorChannels :: "int \<Rightarrow> int \<Rightarrow> int list \<Rightarrow> routes \<Rightarrow> route_error option \<times> routes" where
  "SetMonitorChannels now m ids s =
     (if \<not> monitor_exists m s then (Some (NoMonitor m), s)
      else case replaceMonitorChannels m ids (bump now m s) of
        Inl err \<Rightarrow> (Some err, s)
      | Inr s' \<Rightarrow> (None, s'))"

section \<open>Rules\<close>

text \<open>A rule as it is read: with its channels and its exclusions, each sorted.\<close>

type_synonym routingRule = "ruleRow \<times> int list \<times> int list"

definition rule_view :: "routes \<Rightarrow> ruleRow \<Rightarrow> routingRule" where
  "rule_view s r =
     (r, sort (map snd (filter (\<lambda>p. fst p = r_ID r) (rt_ruleChannels s))),
         sort (map snd (filter (\<lambda>p. fst p = r_ID r) (rt_exclusions s))))"

definition ListRoutingRules :: "routes \<Rightarrow> routingRule list" where
  "ListRoutingRules s = map (rule_view s) (sort_key r_ID (rt_rules s))"

definition GetRoutingRule :: "int \<Rightarrow> routes \<Rightarrow> route_error + routingRule" where
  "GetRoutingRule i s =
     (case find (\<lambda>r. r_ID (fst r) = i) (ListRoutingRules s) of None \<Rightarrow> Inl (NoRule i) | Some r \<Rightarrow> Inr r)"

definition replaceRuleChannels :: "int \<Rightarrow> int list \<Rightarrow> routes \<Rightarrow> route_error + routes" where
  "replaceRuleChannels i ids s =
     (case add_pairs s i (distinctIDs ids) (filter (\<lambda>p. fst p \<noteq> i) (rt_ruleChannels s)) of
        Inl err \<Rightarrow> Inl err
      | Inr ps \<Rightarrow> Inr (s\<lparr>rt_ruleChannels := ps\<rparr>))"

definition CreateRoutingRule :: "int \<Rightarrow> string \<Rightarrow> string \<Rightarrow> int list \<Rightarrow> routes \<Rightarrow> (route_error + routingRule) \<times> routes" where
  "CreateRoutingRule now key val ids s =
     (if list_ex (\<lambda>r. r_TagKey r = key \<and> r_TagValue r = val) (rt_rules s) then (Inl ErrRoutingRuleExists, s)
      else
        let i = rt_nextRule s;
            r = \<lparr>r_ID = i, r_TagKey = key, r_TagValue = val, r_CreatedAt = now\<rparr>;
            s1 = s\<lparr>rt_rules := rt_rules s @ [r], rt_nextRule := i + 1\<rparr>
        in case replaceRuleChannels i ids s1 of
             Inl err \<Rightarrow> (Inl err, s)
           | Inr s2 \<Rightarrow> (GetRoutingRule i s2, s2))"

definition UpdateRoutingRule :: "int \<Rightarrow> string \<Rightarrow> string \<Rightarrow> int list \<Rightarrow> routes \<Rightarrow> (route_error + routingRule) \<times> routes" where
  "UpdateRoutingRule i key val ids s =
     (if list_ex (\<lambda>r. r_ID r = i) (rt_rules s) \<and>
         list_ex (\<lambda>r. r_ID r \<noteq> i \<and> r_TagKey r = key \<and> r_TagValue r = val) (rt_rules s) then (Inl ErrRoutingRuleExists, s)
      else if \<not> list_ex (\<lambda>r. r_ID r = i) (rt_rules s) then (Inl (NoRule i), s)
      else
        let s1 = s\<lparr>rt_rules := map (\<lambda>r. if r_ID r = i then r\<lparr>r_TagKey := key, r_TagValue := val\<rparr> else r) (rt_rules s)\<rparr>
        in case replaceRuleChannels i ids s1 of
             Inl err \<Rightarrow> (Inl err, s)
           | Inr s2 \<Rightarrow> (GetRoutingRule i s2, s2))"

definition DeleteRoutingRule :: "int \<Rightarrow> routes \<Rightarrow> route_error option \<times> routes" where
  "DeleteRoutingRule i s =
     (if \<not> list_ex (\<lambda>r. r_ID r = i) (rt_rules s) then (Some (NoRule i), s)
      else (None, s\<lparr>rt_rules := filter (\<lambda>r. r_ID r \<noteq> i) (rt_rules s),
                    rt_ruleChannels := filter (\<lambda>p. fst p \<noteq> i) (rt_ruleChannels s),
                    rt_exclusions := filter (\<lambda>p. fst p \<noteq> i) (rt_exclusions s)\<rparr>))"

definition ExcludeMonitorFromRule :: "int \<Rightarrow> int \<Rightarrow> routes \<Rightarrow> route_error option \<times> routes" where
  "ExcludeMonitorFromRule i m s =
     (if \<not> list_ex (\<lambda>r. r_ID r = i) (rt_rules s) then (Some (NoRule i), s)
      else if \<not> monitor_exists m s then (Some (NoMonitor m), s)
      else (None, s\<lparr>rt_exclusions := insert_pair (i, m) (rt_exclusions s)\<rparr>))"

definition IncludeMonitorInRule :: "int \<Rightarrow> int \<Rightarrow> routes \<Rightarrow> route_error option \<times> routes" where
  "IncludeMonitorInRule i m s =
     (if (i, m) \<notin> set (rt_exclusions s) then (Some NotExcluded, s)
      else (None, s\<lparr>rt_exclusions := filter (\<lambda>p. p \<noteq> (i, m)) (rt_exclusions s)\<rparr>))"

definition replaceTags :: "int \<Rightarrow> tags \<Rightarrow> routes \<Rightarrow> routes" where
  "replaceTags m t s =
     s\<lparr>rt_tags := filter (\<lambda>x. fst x \<noteq> m) (rt_tags s) @ map (\<lambda>(k, v). (m, k, v)) (sort_key fst t)\<rparr>"

section \<open>The channels of an alert\<close>

definition ruleChannelsForMonitor :: "int \<Rightarrow> routes \<Rightarrow> int list" where
  "ruleChannelsForMonitor m s =
     concat (map (\<lambda>r. if (m, r_TagKey r, r_TagValue r) \<in> set (rt_tags s) \<and> (r_ID r, m) \<notin> set (rt_exclusions s)
                      then map snd (filter (\<lambda>p. fst p = r_ID r) (rt_ruleChannels s)) else []) (rt_rules s))"

text \<open>With whether the default applied.\<close>

definition AlertChannels :: "int \<Rightarrow> routes \<Rightarrow> channelRow list \<times> bool" where
  "AlertChannels m s =
     (let own = sort_key c_ID (filter (\<lambda>c. (m, c_ID c) \<in> set (rt_own s) \<or> c_ID c \<in> set (ruleChannelsForMonitor m s)) (rt_channels s))
      in if own \<noteq> [] then (own, False)
         else case DefaultChannel s of None \<Rightarrow> ([], False) | Some d \<Rightarrow> ([d], True))"

section \<open>One channel, many monitors\<close>

record channelOperation =
  op_Add :: bool
  op_MonitorIDs :: "int list"
  op_ChannelID :: int

record operationResult =
  or_Total :: nat
  or_Changed :: nat
  or_Unchanged :: nat
  or_LeftWithoutOwn :: nat
  or_ChannelEnabled :: bool

definition MaxTagOperationIDs :: nat where
  "MaxTagOperationIDs = 10000"

definition normalised :: "string \<Rightarrow> int list \<Rightarrow> int \<Rightarrow> route_error + channelOperation" where
  "normalised action ids ch =
     (if action \<noteq> ''add'' \<and> action \<noteq> ''remove'' then Inl (InvalidOperation ''action'')
      else if ch \<le> 0 then Inl (InvalidOperation ''channel_id'')
      else if ids = [] \<or> MaxTagOperationIDs < length ids then Inl (InvalidOperation ''monitor_ids'')
      else if \<not> (list_all (\<lambda>i. 0 < i) ids \<and> distinct ids) then Inl (InvalidOperation ''monitor_ids'')
      else Inr \<lparr>op_Add = (action = ''add''), op_MonitorIDs = sort ids, op_ChannelID = ch\<rparr>)"

text \<open>The selected monitors that exist, each with its own channels, both sorted.\<close>

definition linked :: "channelOperation \<Rightarrow> routes \<Rightarrow> (int \<times> int list) list" where
  "linked op s =
     map (\<lambda>m. (m, sort (map snd (filter (\<lambda>p. fst p = m) (rt_own s)))))
       (sort (filter (\<lambda>m. m \<in> set (op_MonitorIDs op)) (map fst (rt_monitors s))))"

definition to_change :: "channelOperation \<Rightarrow> (int \<times> int list) list \<Rightarrow> (int \<times> int list) list" where
  "to_change op = filter (\<lambda>(m, chs). (op_ChannelID op \<in> set chs) \<noteq> op_Add op)"

definition operation_result :: "channelOperation \<Rightarrow> bool \<Rightarrow> (int \<times> int list) list \<Rightarrow> operationResult" where
  "operation_result op enabled current =
     (let changed = to_change op current in
      \<lparr>or_Total = length current, or_Changed = length changed, or_Unchanged = length current - length changed,
       or_LeftWithoutOwn = (if op_Add op then 0 else length (filter (\<lambda>(m, chs). length chs = 1) changed)),
       or_ChannelEnabled = enabled\<rparr>)"

definition change_one :: "int \<Rightarrow> channelOperation \<Rightarrow> int \<Rightarrow> routes \<Rightarrow> routes" where
  "change_one now op m s =
     bump now m
       (if op_Add op then s\<lparr>rt_own := rt_own s @ [(m, op_ChannelID op)]\<rparr>
        else s\<lparr>rt_own := filter (\<lambda>p. p \<noteq> (m, op_ChannelID op)) (rt_own s)\<rparr>)"

text \<open>\<open>etag\<close>: the hash of the JSON of the operation, the channel's state and the links, a parameter.\<close>

type_synonym etags = "channelOperation \<Rightarrow> bool \<Rightarrow> (int \<times> int list) list \<Rightarrow> string"

definition ChangeMonitorChannels ::
  "etags \<Rightarrow> int \<Rightarrow> string \<Rightarrow> int list \<Rightarrow> int \<Rightarrow> string \<Rightarrow> bool \<Rightarrow> routes \<Rightarrow> (route_error + operationResult \<times> string) \<times> routes" where
  "ChangeMonitorChannels etag now action ids ch expected preview s =
     (case normalised action ids ch of
        Inl err \<Rightarrow> (Inl err, s)
      | Inr op \<Rightarrow>
          (case GetChannel (op_ChannelID op) s of
             Inl err \<Rightarrow> (Inl (UnknownChannel (op_ChannelID op)), s)
           | Inr c \<Rightarrow>
               (let current = linked op s; tag = etag op (c_Enabled c) current in
                if length current \<noteq> length (op_MonitorIDs op) then (Inl (NoMonitor 0), s)
                else if \<not> preview \<and> expected \<noteq> tag then (Inl ErrChannelPreviewChanged, s)
                else if preview then (Inr (operation_result op (c_Enabled c) current, tag), s)
                else (Inr (operation_result op (c_Enabled c) current, tag),
                      fold (change_one now op) (map fst (to_change op current)) s))))"

end
