(* ===== verification/RoutingProps.thy ===== *)
theory RoutingProps
  imports Routing
begin

text \<open>
  Well-formed routing tables (\<open>routes_ok\<close>): references to rows that exist, ids and tags without duplicates and at
  most one default; every operation keeps them so.
\<close>

section \<open>Well-formed tables\<close>

definition refs :: "'a set \<Rightarrow> 'b set \<Rightarrow> ('a \<times> 'b) list \<Rightarrow> bool" where
  "refs A B ps \<longleftrightarrow> distinct ps \<and> set ps \<subseteq> A \<times> B"

definition routes_ok :: "routes \<Rightarrow> bool" where
  "routes_ok s \<longleftrightarrow>
     distinct (map c_ID (rt_channels s)) \<and> list_all (\<lambda>c. c_ID c < rt_nextChannel s) (rt_channels s) \<and>
     (\<forall>c \<in> set (rt_channels s). \<forall>d \<in> set (rt_channels s). c_IsDefault c \<and> c_IsDefault d \<longrightarrow> c = d) \<and>
     distinct (map fst (rt_monitors s)) \<and>
     distinct (map r_ID (rt_rules s)) \<and> list_all (\<lambda>r. r_ID r < rt_nextRule s) (rt_rules s) \<and>
     distinct (map (\<lambda>r. (r_TagKey r, r_TagValue r)) (rt_rules s)) \<and>
     refs (fst ` set (rt_monitors s)) (c_ID ` set (rt_channels s)) (rt_own s) \<and>
     refs (r_ID ` set (rt_rules s)) (c_ID ` set (rt_channels s)) (rt_ruleChannels s) \<and>
     refs (r_ID ` set (rt_rules s)) (fst ` set (rt_monitors s)) (rt_exclusions s)"

lemma refs_filter: "refs A B ps \<Longrightarrow> refs A B (filter P ps)"
  by (auto simp: refs_def)

lemma refs_filter_ids:
  "refs A B ps \<Longrightarrow> refs A (B - {i}) (filter (\<lambda>p. snd p \<noteq> i) ps)"
  "refs A B ps \<Longrightarrow> refs (A - {i}) B (filter (\<lambda>p. fst p \<noteq> i) ps)"
  by (auto simp: refs_def)

lemma refs_insert: "refs A B ps \<Longrightarrow> a \<in> A \<Longrightarrow> b \<in> B \<Longrightarrow> refs A B (insert_pair (a, b) ps)"
  by (auto simp: refs_def insert_pair_def)

lemma refs_mono: "refs A B ps \<Longrightarrow> A \<subseteq> A' \<Longrightarrow> B \<subseteq> B' \<Longrightarrow> refs A' B' ps"
  by (auto simp: refs_def)

lemma exists_iff: "channel_exists i s \<longleftrightarrow> i \<in> c_ID ` set (rt_channels s)" "monitor_exists i s \<longleftrightarrow> i \<in> fst ` set (rt_monitors s)"
  by (auto simp: channel_exists_def monitor_exists_def list_ex_iff)

lemma add_pairs_refs:
  "add_pairs s k ids ps = Inr qs \<Longrightarrow> refs A (c_ID ` set (rt_channels s)) ps \<Longrightarrow> k \<in> A \<Longrightarrow> refs A (c_ID ` set (rt_channels s)) qs"
  by (induction s k ids ps rule: add_pairs.induct) (auto simp: exists_iff refs_insert split: if_splits)

lemma filter_ids: "f ` {x \<in> A. f x \<noteq> i} = f ` A - {i}"
  by auto

lemma mapped_same: "map f (map g xs) = map f xs \<Longrightarrow> f ` set (map g xs) = f ` set xs"
  by (metis list.set_map)

lemma ok_update_channels:
  assumes "routes_ok s" "\<And>c. c_ID (f c) = c_ID c" "\<And>c. c_IsDefault (f c) \<longrightarrow> c_IsDefault c"
  shows "routes_ok (update_channels P f s)"
proof -
  let ?g = "\<lambda>c. if P c then f c else c"
  have ids: "map c_ID (map ?g (rt_channels s)) = map c_ID (rt_channels s)" using assms(2) by simp
  have set_ids: "c_ID ` set (map ?g (rt_channels s)) = c_ID ` set (rt_channels s)" by (rule mapped_same [OF ids])
  have one: "?g c = ?g d" if "c \<in> set (rt_channels s)" "d \<in> set (rt_channels s)" "c_IsDefault (?g c)" "c_IsDefault (?g d)" for c d
  proof -
    have "c_IsDefault c" "c_IsDefault d" using that assms(3) by (auto split: if_splits)
    then have "c = d" using that assms(1) unfolding routes_ok_def by blast
    then show ?thesis by simp
  qed
  have one': "\<forall>c \<in> set (map ?g (rt_channels s)). \<forall>d \<in> set (map ?g (rt_channels s)). c_IsDefault c \<and> c_IsDefault d \<longrightarrow> c = d"
  proof (intro ballI impI)
    fix c d assume cd: "c \<in> set (map ?g (rt_channels s))" "d \<in> set (map ?g (rt_channels s))" "c_IsDefault c \<and> c_IsDefault d"
    obtain c' where c': "c' \<in> set (rt_channels s)" "c = ?g c'" using cd(1) unfolding list.set_map by (rule imageE)
    obtain d' where d': "d' \<in> set (rt_channels s)" "d = ?g d'" using cd(2) unfolding list.set_map by (rule imageE)
    show "c = d" using one [OF c'(1) d'(1)] cd(3) c'(2) d'(2) by simp
  qed
  have below: "list_all (\<lambda>c. c_ID c < rt_nextChannel s) (map ?g (rt_channels s))"
    using assms(1,2) by (auto simp: routes_ok_def list_all_iff)
  show ?thesis using assms(1) one' below ids set_ids unfolding routes_ok_def update_channels_def
    by (simp del: map_map set_map list.set_map)
qed

lemma ok_bump:
  assumes "routes_ok s" shows "routes_ok (bump now m s)" "fst ` set (rt_monitors (bump now m s)) = fst ` set (rt_monitors s)"
proof -
  let ?g = "\<lambda>(i, v). if i = m then (i, max now (v + 1)) else (i, v :: int)"
  have ids: "map fst (map ?g (rt_monitors s)) = map fst (rt_monitors s)" by auto
  have img: "fst ` set (map ?g (rt_monitors s)) = fst ` set (rt_monitors s)" by (rule mapped_same [OF ids])
  show "fst ` set (rt_monitors (bump now m s)) = fst ` set (rt_monitors s)" using img unfolding bump_def
    by (simp del: map_map set_map list.set_map)
  show "routes_ok (bump now m s)" using assms ids img unfolding routes_ok_def bump_def
    by (simp del: map_map set_map list.set_map)
qed

section \<open>Every operation keeps them so\<close>

lemma ok_channel_gone:
  assumes "routes_ok s"
  shows "routes_ok (s\<lparr>rt_channels := filter (\<lambda>c. c_ID c \<noteq> i) (rt_channels s),
    rt_own := filter (\<lambda>p. snd p \<noteq> i) (rt_own s), rt_ruleChannels := filter (\<lambda>p. snd p \<noteq> i) (rt_ruleChannels s)\<rparr>)"
  using assms unfolding routes_ok_def
  by (auto simp: filter_ids list_all_iff distinct_map_filter refs_filter_ids)

lemma ok_rule_gone:
  assumes "routes_ok s"
  shows "routes_ok (s\<lparr>rt_rules := filter (\<lambda>r. r_ID r \<noteq> i) (rt_rules s),
    rt_ruleChannels := filter (\<lambda>p. fst p \<noteq> i) (rt_ruleChannels s), rt_exclusions := filter (\<lambda>p. fst p \<noteq> i) (rt_exclusions s)\<rparr>)"
  using assms unfolding routes_ok_def
  by (auto simp: filter_ids list_all_iff distinct_map_filter refs_filter_ids)

lemma ok_monitor_gone:
  assumes "routes_ok s"
  shows "routes_ok (s\<lparr>rt_monitors := filter (\<lambda>x. fst x \<noteq> m) (rt_monitors s), rt_tags := filter (\<lambda>x. fst x \<noteq> m) (rt_tags s),
    rt_own := filter (\<lambda>p. fst p \<noteq> m) (rt_own s), rt_exclusions := filter (\<lambda>p. snd p \<noteq> m) (rt_exclusions s)\<rparr>)"
  using assms unfolding routes_ok_def
  by (auto simp: filter_ids list_all_iff distinct_map_filter refs_filter_ids)

lemma ok_new_monitor: "routes_ok s \<Longrightarrow> \<not> monitor_exists m s \<Longrightarrow> routes_ok (s\<lparr>rt_monitors := rt_monitors s @ [(m, v)]\<rparr>)"
  unfolding routes_ok_def by (auto simp: exists_iff elim!: refs_mono)

lemma ok_new_channel:
  "routes_ok s \<Longrightarrow> c_ID c = rt_nextChannel s \<Longrightarrow> \<not> c_IsDefault c \<Longrightarrow>
   routes_ok (s\<lparr>rt_channels := rt_channels s @ [c], rt_nextChannel := rt_nextChannel s + 1\<rparr>)"
  unfolding routes_ok_def by (auto simp: list_all_iff elim!: refs_mono)

lemma ok_own: "routes_ok s \<Longrightarrow> refs (fst ` set (rt_monitors s)) (c_ID ` set (rt_channels s)) ps \<Longrightarrow> routes_ok (s\<lparr>rt_own := ps\<rparr>)"
  unfolding routes_ok_def by simp

lemma ok_rule_channels:
  "routes_ok s \<Longrightarrow> refs (r_ID ` set (rt_rules s)) (c_ID ` set (rt_channels s)) ps \<Longrightarrow> routes_ok (s\<lparr>rt_ruleChannels := ps\<rparr>)"
  unfolding routes_ok_def by simp

lemma ok_exclusions:
  "routes_ok s \<Longrightarrow> refs (r_ID ` set (rt_rules s)) (fst ` set (rt_monitors s)) ps \<Longrightarrow> routes_ok (s\<lparr>rt_exclusions := ps\<rparr>)"
  unfolding routes_ok_def by simp

lemma ok_tags: "routes_ok (s\<lparr>rt_tags := t\<rparr>) = routes_ok s"
  unfolding routes_ok_def by simp

lemma ok_refs:
  assumes "routes_ok s"
  shows "refs (fst ` set (rt_monitors s)) (c_ID ` set (rt_channels s)) (rt_own s)"
    "refs (r_ID ` set (rt_rules s)) (c_ID ` set (rt_channels s)) (rt_ruleChannels s)"
    "refs (r_ID ` set (rt_rules s)) (fst ` set (rt_monitors s)) (rt_exclusions s)"
  using assms unfolding routes_ok_def by blast+

lemma ok_set_default:
  assumes "routes_ok s" shows "routes_ok (snd (SetDefaultChannel i s))"
proof (cases "channel_exists i s")
  case True
  let ?s = "update_channels (\<lambda>c. c_IsDefault c \<and> c_ID c \<noteq> i) (\<lambda>c. c\<lparr>c_IsDefault := False\<rparr>) s"
  have ok: "routes_ok ?s" by (rule ok_update_channels [OF assms]) simp_all
  have none: "c_ID c = i" if "c \<in> set (rt_channels ?s)" "c_IsDefault c" for c
    using that by (auto simp: update_channels_def split: if_splits)
  let ?g = "\<lambda>c. if c_ID c = i then c\<lparr>c_IsDefault := True\<rparr> else c"
  have ids: "map c_ID (map ?g (rt_channels ?s)) = map c_ID (rt_channels ?s)" by simp
  have set_ids: "c_ID ` set (map ?g (rt_channels ?s)) = c_ID ` set (rt_channels ?s)" by (rule mapped_same [OF ids])
  have dist: "distinct (map c_ID (map ?g (rt_channels ?s)))" using ok ids unfolding routes_ok_def by metis
  have is_i: "c_ID c = i" if mem: "c \<in> set (map ?g (rt_channels ?s))" and def: "c_IsDefault c" for c
  proof -
    obtain c' where c': "c' \<in> set (rt_channels ?s)" "c = ?g c'" using mem unfolding list.set_map by (rule imageE)
    show ?thesis using none [OF c'(1)] def c'(2) by (cases "c_ID c' = i") simp_all
  qed
  have one: "\<forall>c \<in> set (map ?g (rt_channels ?s)). \<forall>d \<in> set (map ?g (rt_channels ?s)). c_IsDefault c \<and> c_IsDefault d \<longrightarrow> c = d"
  proof (intro ballI impI)
    fix c d assume c: "c \<in> set (map ?g (rt_channels ?s))" and d: "d \<in> set (map ?g (rt_channels ?s))"
      and def: "c_IsDefault c \<and> c_IsDefault d"
    have "c_ID c = c_ID d" using is_i [OF c] is_i [OF d] def by simp
    then show "c = d" by (rule inj_onD [OF dist [unfolded distinct_map, THEN conjunct2] _ c d])
  qed
  have below: "list_all (\<lambda>c. c_ID c < rt_nextChannel ?s) (map ?g (rt_channels ?s))"
    using ok by (auto simp: routes_ok_def list_all_iff)
  have "routes_ok (update_channels (\<lambda>c. c_ID c = i) (\<lambda>c. c\<lparr>c_IsDefault := True\<rparr>) ?s)"
    using ok one below dist set_ids unfolding routes_ok_def update_channels_def [of "\<lambda>c. c_ID c = i" "\<lambda>c. c\<lparr>c_IsDefault := True\<rparr>"]
    by (simp del: map_map set_map list.set_map)
  then show ?thesis using True by (simp add: SetDefaultChannel_def)
qed (simp add: SetDefaultChannel_def assms)

lemma ok_assign:
  assumes ok: "routes_ok s" and m: "monitor_exists m s" and t: "replaceMonitorChannels m ids s = Inr t"
  shows "routes_ok t"
proof -
  obtain own where own: "add_pairs s m (distinctIDs ids) (filter (\<lambda>p. fst p \<noteq> m) (rt_own s)) = Inr own" "t = s\<lparr>rt_own := own\<rparr>"
    using t by (auto simp: replaceMonitorChannels_def split: sum.splits)
  have "refs (fst ` set (rt_monitors s)) (c_ID ` set (rt_channels s)) own"
    by (rule add_pairs_refs [OF own(1) refs_filter [OF ok_refs(1) [OF ok]]]) (use m in \<open>simp add: exists_iff\<close>)
  then show ?thesis unfolding own(2) by (rule ok_own [OF ok])
qed

lemma ok_assign_rule:
  assumes ok: "routes_ok s" and i: "i \<in> r_ID ` set (rt_rules s)" and t: "replaceRuleChannels i ids s = Inr t"
  shows "routes_ok t"
proof -
  obtain ps where ps: "add_pairs s i (distinctIDs ids) (filter (\<lambda>p. fst p \<noteq> i) (rt_ruleChannels s)) = Inr ps" "t = s\<lparr>rt_ruleChannels := ps\<rparr>"
    using t by (auto simp: replaceRuleChannels_def split: sum.splits)
  have "refs (r_ID ` set (rt_rules s)) (c_ID ` set (rt_channels s)) ps"
    by (rule add_pairs_refs [OF ps(1) refs_filter [OF ok_refs(2) [OF ok]] i])
  then show ?thesis unfolding ps(2) by (rule ok_rule_channels [OF ok])
qed

lemma ok_SetMonitorChannels:
  assumes ok: "routes_ok s" shows "routes_ok (snd (SetMonitorChannels now m ids s))"
proof (cases "monitor_exists m s")
  case True
  then have m: "monitor_exists m (bump now m s)" using ok_bump(2) [OF ok] unfolding exists_iff by metis
  show ?thesis using True ok ok_assign [OF ok_bump(1) [OF ok] m]
    by (simp add: SetMonitorChannels_def split: sum.split)
qed (simp add: SetMonitorChannels_def ok)

lemma ok_new_rule:
  assumes "routes_ok s" "r_ID r = rt_nextRule s" "\<not> list_ex (\<lambda>q. r_TagKey q = r_TagKey r \<and> r_TagValue q = r_TagValue r) (rt_rules s)"
  shows "routes_ok (s\<lparr>rt_rules := rt_rules s @ [r], rt_nextRule := rt_nextRule s + 1\<rparr>)"
proof -
  have "refs (insert k A) B ps" if "refs A B ps" for k :: int and A and B :: "int set" and ps
    by (rule refs_mono [OF that]) auto
  moreover have "(r_TagKey r, r_TagValue r) \<notin> (\<lambda>q. (r_TagKey q, r_TagValue q)) ` set (rt_rules s)"
    using assms(3) by (auto simp: list_ex_iff)
  ultimately show ?thesis using assms(1,2) unfolding routes_ok_def by (auto simp: list_all_iff)
qed

lemma ok_CreateRoutingRule:
  assumes ok: "routes_ok s" shows "routes_ok (snd (CreateRoutingRule now key val ids s))"
proof (cases "list_ex (\<lambda>r. r_TagKey r = key \<and> r_TagValue r = val) (rt_rules s)")
  case False
  let ?r = "\<lparr>r_ID = rt_nextRule s, r_TagKey = key, r_TagValue = val, r_CreatedAt = now\<rparr>"
  have new: "routes_ok (s\<lparr>rt_rules := rt_rules s @ [?r], rt_nextRule := rt_nextRule s + 1\<rparr>)"
    by (rule ok_new_rule [OF ok]) (use False in simp_all)
  show ?thesis using False ok ok_assign_rule [OF new, of "rt_nextRule s" ids]
    by (simp add: CreateRoutingRule_def Let_def split: sum.split)
qed (simp add: CreateRoutingRule_def ok)

lemma retagged_distinct:
  "distinct (map r_ID rs) \<Longrightarrow> distinct (map (\<lambda>r. (r_TagKey r, r_TagValue r)) rs) \<Longrightarrow>
   \<not> list_ex (\<lambda>r. r_ID r \<noteq> i \<and> r_TagKey r = key \<and> r_TagValue r = val) rs \<Longrightarrow>
   distinct (map (\<lambda>r. (r_TagKey r, r_TagValue r)) (map (\<lambda>r. if r_ID r = i then r\<lparr>r_TagKey := key, r_TagValue := val\<rparr> else r) rs))"
proof -
  assume ids: "distinct (map r_ID rs)" and tags: "distinct (map (\<lambda>r. (r_TagKey r, r_TagValue r)) rs)"
    and free: "\<not> list_ex (\<lambda>r. r_ID r \<noteq> i \<and> r_TagKey r = key \<and> r_TagValue r = val) rs"
  let ?tag = "\<lambda>r. (r_TagKey r, r_TagValue r)"
  let ?g = "\<lambda>r. if r_ID r = i then r\<lparr>r_TagKey := key, r_TagValue := val\<rparr> else r"
  have same_id: "r = q" if "r \<in> set rs" "q \<in> set rs" "r_ID r = r_ID q" for r q
    using ids that by (auto simp: distinct_map inj_on_def)
  have same_tag: "r = q" if "r \<in> set rs" "q \<in> set rs" "?tag r = ?tag q" for r q
    using tags that by (auto simp: distinct_map inj_on_def)
  have "inj_on (?tag \<circ> ?g) (set rs)"
  proof (rule inj_onI)
    fix r q assume rq: "r \<in> set rs" "q \<in> set rs" and eq: "(?tag \<circ> ?g) r = (?tag \<circ> ?g) q"
    show "r = q"
    proof (cases "r_ID r = i \<longleftrightarrow> r_ID q = i")
      case True
      then show ?thesis using rq eq same_id [OF rq] same_tag [OF rq] by (cases "r_ID q = i") simp_all
    next
      case False
      then show ?thesis using rq eq free by (cases "r_ID q = i") (auto simp: list_ex_iff)
    qed
  qed
  then show ?thesis using ids by (simp add: distinct_map)
qed

lemma ok_retag_rule:
  assumes "routes_ok s" "\<not> list_ex (\<lambda>r. r_ID r \<noteq> i \<and> r_TagKey r = key \<and> r_TagValue r = val) (rt_rules s)"
  shows "routes_ok (s\<lparr>rt_rules := map (\<lambda>r. if r_ID r = i then r\<lparr>r_TagKey := key, r_TagValue := val\<rparr> else r) (rt_rules s)\<rparr>)"
    "r_ID ` set (map (\<lambda>r. if r_ID r = i then r\<lparr>r_TagKey := key, r_TagValue := val\<rparr> else r) (rt_rules s)) = r_ID ` set (rt_rules s)"
proof -
  let ?g = "\<lambda>r. if r_ID r = i then r\<lparr>r_TagKey := key, r_TagValue := val\<rparr> else r"
  let ?tag = "\<lambda>r. (r_TagKey r, r_TagValue r)"
  have ids: "map r_ID (map ?g (rt_rules s)) = map r_ID (rt_rules s)" by simp
  show set_ids: "r_ID ` set (map ?g (rt_rules s)) = r_ID ` set (rt_rules s)" by (rule mapped_same [OF ids])
  have "distinct (map r_ID (rt_rules s))" "distinct (map ?tag (rt_rules s))" using assms(1) unfolding routes_ok_def by blast+
  then have tags: "distinct (map ?tag (map ?g (rt_rules s)))" using assms(2) by (rule retagged_distinct)
  have below: "list_all (\<lambda>r. r_ID r < rt_nextRule s) (map ?g (rt_rules s))"
    using assms(1) by (auto simp: routes_ok_def list_all_iff)
  show "routes_ok (s\<lparr>rt_rules := map ?g (rt_rules s)\<rparr>)" using assms(1) tags below ids set_ids unfolding routes_ok_def
    by (simp del: map_map set_map list.set_map)
qed

lemma ok_UpdateRoutingRule:
  assumes ok: "routes_ok s" shows "routes_ok (snd (UpdateRoutingRule i key val ids s))"
proof (cases "list_ex (\<lambda>r. r_ID r = i) (rt_rules s) \<and>
    \<not> list_ex (\<lambda>r. r_ID r \<noteq> i \<and> r_TagKey r = key \<and> r_TagValue r = val) (rt_rules s)")
  case True
  let ?s = "s\<lparr>rt_rules := map (\<lambda>r. if r_ID r = i then r\<lparr>r_TagKey := key, r_TagValue := val\<rparr> else r) (rt_rules s)\<rparr>"
  have new: "routes_ok ?s" by (rule ok_retag_rule(1)) (use True ok in simp_all)
  have "r_ID ` set (rt_rules ?s) = r_ID ` set (rt_rules s)" using ok_retag_rule(2) [OF ok, of i key val] True by simp
  then have "i \<in> r_ID ` set (rt_rules ?s)" using True by (auto simp: list_ex_iff)
  then have "routes_ok t" if "replaceRuleChannels i ids ?s = Inr t" for t by (rule ok_assign_rule [OF new _ that])
  then show ?thesis using True ok by (simp add: UpdateRoutingRule_def Let_def split: sum.split)
qed (auto simp: UpdateRoutingRule_def ok)

lemma ok_ExcludeMonitorFromRule:
  assumes ok: "routes_ok s" shows "routes_ok (snd (ExcludeMonitorFromRule i m s))"
proof (cases "list_ex (\<lambda>r. r_ID r = i) (rt_rules s) \<and> monitor_exists m s")
  case True
  then have "i \<in> r_ID ` set (rt_rules s)" "m \<in> fst ` set (rt_monitors s)" by (auto simp: list_ex_iff exists_iff)
  then show ?thesis using True ok_exclusions [OF ok refs_insert [OF ok_refs(3) [OF ok]]]
    by (simp add: ExcludeMonitorFromRule_def)
qed (auto simp: ExcludeMonitorFromRule_def ok)

lemma ok_IncludeMonitorInRule:
  assumes ok: "routes_ok s" shows "routes_ok (snd (IncludeMonitorInRule i m s))"
  using ok ok_exclusions [OF ok refs_filter [OF ok_refs(3) [OF ok]]] by (simp add: IncludeMonitorInRule_def)

end
