(* ===== verification/RoutingRuns.thy ===== *)
theory RoutingRuns
  imports RoutingProps
begin

text \<open>
  Every sequence of routing changes (channels, rules, exclusions, assignments, bulk changes, and monitors coming and
  going) keeps the tables well-formed; so an alert reaches exactly the channels it is routed to, and a bulk change writes
  what its preview showed.
\<close>

section \<open>Bulk changes\<close>

lemma linked_own: "routes_ok s \<Longrightarrow> (m, chs) \<in> set (linked op s) \<Longrightarrow> set chs = {c. (m, c) \<in> set (rt_own s)}"
  by (force simp: linked_def)

lemma linked_monitors:
  "routes_ok s \<Longrightarrow> distinct (map fst (linked op s)) \<and>
     set (map fst (linked op s)) = set (op_MonitorIDs op) \<inter> fst ` set (rt_monitors s)"
  by (auto simp: linked_def routes_ok_def comp_def)

lemma to_change_sub: "set (map fst (to_change op l)) \<subseteq> set (map fst l)" "distinct (map fst l) \<Longrightarrow> distinct (map fst (to_change op l))"
  by (auto simp: to_change_def distinct_map_filter)

lemma bump_simps [simp]: "rt_channels (bump now m s) = rt_channels s" "rt_own (bump now m s) = rt_own s"
  "rt_rules (bump now m s) = rt_rules s" "rt_ruleChannels (bump now m s) = rt_ruleChannels s"
  "rt_exclusions (bump now m s) = rt_exclusions s" "rt_tags (bump now m s) = rt_tags s"
  by (simp_all add: bump_def)

lemma ok_change_one:
  assumes ok: "routes_ok s" and c: "op_ChannelID op \<in> c_ID ` set (rt_channels s)" and m: "m \<in> fst ` set (rt_monitors s)"
    and new: "op_Add op \<Longrightarrow> (m, op_ChannelID op) \<notin> set (rt_own s)"
  shows "routes_ok (change_one now op m s)"
proof -
  have "refs (fst ` set (rt_monitors s)) (c_ID ` set (rt_channels s)) (rt_own s @ [(m, op_ChannelID op)])" if "op_Add op"
    using refs_insert [OF ok_refs(1) [OF ok] m c] new [OF that] by (simp add: insert_pair_def)
  then have "routes_ok (if op_Add op then s\<lparr>rt_own := rt_own s @ [(m, op_ChannelID op)]\<rparr>
      else s\<lparr>rt_own := filter (\<lambda>p. p \<noteq> (m, op_ChannelID op)) (rt_own s)\<rparr>)"
    using ok_own [OF ok] refs_filter [OF ok_refs(1) [OF ok]] by simp
  then show ?thesis unfolding change_one_def by (rule ok_bump(1))
qed

lemma change_one_simps: "rt_channels (change_one now op m s) = rt_channels s"
  "set (rt_own (change_one now op m s)) = (if op_Add op then insert (m, op_ChannelID op) (set (rt_own s))
     else set (rt_own s) - {(m, op_ChannelID op)})"
  by (auto simp: change_one_def)

lemma change_one_monitors:
  assumes "routes_ok s" shows "fst ` set (rt_monitors (change_one now op m s)) = fst ` set (rt_monitors s)"
proof -
  have "map fst (map (\<lambda>(i, v). if i = m then (i, max now (v + 1)) else (i, v :: int)) (rt_monitors s)) = map fst (rt_monitors s)"
    by auto
  then show ?thesis unfolding change_one_def bump_def using mapped_same by (simp del: map_map set_map list.set_map)
qed

lemma change_all:
  assumes "routes_ok s" "op_ChannelID op \<in> c_ID ` set (rt_channels s)" "set ms \<subseteq> fst ` set (rt_monitors s)" "distinct ms"
    "op_Add op \<Longrightarrow> \<forall>m \<in> set ms. (m, op_ChannelID op) \<notin> set (rt_own s)"
  shows "routes_ok (fold (change_one now op) ms s) \<and>
    set (rt_own (fold (change_one now op) ms s)) =
      (if op_Add op then set (rt_own s) \<union> {(m, op_ChannelID op) | m. m \<in> set ms}
       else set (rt_own s) - {(m, op_ChannelID op) | m. m \<in> set ms})"
  using assms
proof (induction ms arbitrary: s)
  case (Cons m ms)
  let ?s = "change_one now op m s"
  have "routes_ok ?s" by (rule ok_change_one) (use Cons.prems in auto)
  moreover have "op_ChannelID op \<in> c_ID ` set (rt_channels ?s)" using Cons.prems by (simp add: change_one_simps)
  moreover have "set ms \<subseteq> fst ` set (rt_monitors ?s)" using Cons.prems by (simp add: change_one_monitors)
  moreover have "op_Add op \<Longrightarrow> \<forall>m \<in> set ms. (m, op_ChannelID op) \<notin> set (rt_own ?s)"
    using Cons.prems by (auto simp: change_one_simps)
  ultimately show ?case using Cons.IH [of ?s] Cons.prems(4) by (auto simp: change_one_simps)
qed simp

lemma normalised_op:
  "normalised action ids ch = Inr op \<Longrightarrow> op_ChannelID op = ch \<and> op_Add op = (action = ''add'') \<and> set (op_MonitorIDs op) = set ids \<and>
   distinct (op_MonitorIDs op) \<and> (action = ''add'' \<or> action = ''remove'')"
  by (auto simp: normalised_def split: if_splits)

lemma GetChannel_Inr: "GetChannel i s = Inr c \<Longrightarrow> c \<in> set (rt_channels s) \<and> c_ID c = i"
  by (auto simp: GetChannel_def find_Some_iff split: option.splits)

text \<open>What one bulk change did, when it went through.\<close>

lemma bulk_done:
  assumes ok: "routes_ok s"
    and run: "ChangeMonitorChannels etag now action ids ch expected False s = (Inr (res, tag), t)"
  obtains op c where "normalised action ids ch = Inr op" "GetChannel ch s = Inr c" "expected = etag op (c_Enabled c) (linked op s)"
    "res = operation_result op (c_Enabled c) (linked op s)" "tag = etag op (c_Enabled c) (linked op s)"
    "routes_ok t" "set (rt_own t) = (if action = ''add'' then set (rt_own s) \<union> {(m, ch) | m. m \<in> set ids}
       else set (rt_own s) - {(m, ch) | m. m \<in> set ids})"
proof -
  obtain op where op: "normalised action ids ch = Inr op" using run by (auto simp: ChangeMonitorChannels_def split: sum.splits)
  note n = normalised_op [OF op]
  obtain c where c: "GetChannel ch s = Inr c" using run op n by (auto simp: ChangeMonitorChannels_def split: sum.splits)
  let ?l = "linked op s" and ?ms = "map fst (to_change op (linked op s))"
  have run': "length ?l = length (op_MonitorIDs op)" "expected = etag op (c_Enabled c) ?l"
    "res = operation_result op (c_Enabled c) ?l" "tag = etag op (c_Enabled c) ?l" "t = fold (change_one now op) ?ms s"
    using run op c n by (auto simp: ChangeMonitorChannels_def Let_def split: if_splits)
  have ms: "set (map fst ?l) = set ids"
  proof (rule card_subset_eq)
    show "set (map fst ?l) \<subseteq> set ids" using linked_monitors [OF ok, of op] n by auto
    show "card (set (map fst ?l)) = card (set ids)"
      using linked_monitors [OF ok, of op] n run'(1) by (metis distinct_card length_map)
  qed simp
  have l: "(m, chs) \<in> set ?l \<Longrightarrow> (ch \<in> set chs) = ((m, ch) \<in> set (rt_own s))" for m chs using linked_own [OF ok] by auto
  have changed: "m \<in> set ?ms \<longleftrightarrow> m \<in> set ids \<and> ((m, ch) \<in> set (rt_own s)) \<noteq> (action = ''add'')" for m
  proof
    assume "m \<in> set ?ms"
    then obtain chs where chs: "(m, chs) \<in> set ?l" "(ch \<in> set chs) \<noteq> op_Add op" using n by (auto simp: to_change_def)
    have "m \<in> set ids" unfolding ms [symmetric] using chs(1) by force
    then show "m \<in> set ids \<and> ((m, ch) \<in> set (rt_own s)) \<noteq> (action = ''add'')" using l [OF chs(1)] chs(2) n by simp
  next
    assume m: "m \<in> set ids \<and> ((m, ch) \<in> set (rt_own s)) \<noteq> (action = ''add'')"
    then have "m \<in> fst ` set ?l" using ms by simp
    then obtain chs where chs: "(m, chs) \<in> set ?l" by auto
    then have "(m, chs) \<in> set (to_change op ?l)" using l [OF chs] m n by (simp add: to_change_def)
    then show "m \<in> set ?ms" by force
  qed
  have "routes_ok t \<and> set (rt_own t) = (if op_Add op then set (rt_own s) \<union> {(m, op_ChannelID op) | m. m \<in> set ?ms}
       else set (rt_own s) - {(m, op_ChannelID op) | m. m \<in> set ?ms})" unfolding run'(5)
  proof (rule change_all [OF ok])
    show "op_ChannelID op \<in> c_ID ` set (rt_channels s)" using GetChannel_Inr [OF c] n by auto
    show "set ?ms \<subseteq> fst ` set (rt_monitors s)" using to_change_sub(1) [of op ?l] linked_monitors [OF ok, of op] by blast
    show "distinct ?ms" using to_change_sub(2) linked_monitors [OF ok, of op] by blast
    show "\<forall>m \<in> set ?ms. (m, op_ChannelID op) \<notin> set (rt_own s)" if "op_Add op" using changed that n by auto
  qed
  moreover have "(if op_Add op then set (rt_own s) \<union> {(m, op_ChannelID op) | m. m \<in> set ?ms}
       else set (rt_own s) - {(m, op_ChannelID op) | m. m \<in> set ?ms}) =
      (if action = ''add'' then set (rt_own s) \<union> {(m, ch) | m. m \<in> set ids} else set (rt_own s) - {(m, ch) | m. m \<in> set ids})"
    using n changed by auto
  ultimately show ?thesis using that [OF op c run'(2-4)] by simp
qed

section \<open>Runs\<close>

definition routes0 :: routes where
  "routes0 = \<lparr>rt_channels = [], rt_nextChannel = 1, rt_monitors = [], rt_tags = [], rt_own = [], rt_rules = [], rt_nextRule = 1,
     rt_ruleChannels = [], rt_exclusions = []\<rparr>"

text \<open>Monitors come and go (\<open>store/monitors.go\<close>), their tags, channels and exclusions with them.\<close>

inductive route_step :: "routes \<Rightarrow> routes \<Rightarrow> bool" where
  monitor_created: "\<not> monitor_exists m s \<Longrightarrow> route_step s (s\<lparr>rt_monitors := rt_monitors s @ [(m, v)]\<rparr>)"
| monitor_deleted: "route_step s (s\<lparr>rt_monitors := filter (\<lambda>x. fst x \<noteq> m) (rt_monitors s), rt_tags := filter (\<lambda>x. fst x \<noteq> m) (rt_tags s),
    rt_own := filter (\<lambda>p. fst p \<noteq> m) (rt_own s), rt_exclusions := filter (\<lambda>p. snd p \<noteq> m) (rt_exclusions s)\<rparr>)"
| tags_replaced: "monitor_exists m s \<Longrightarrow> route_step s (replaceTags m t s)"
| channel_created: "route_step s (snd (CreateChannel now c s))"
| channel_updated: "route_step s (snd (UpdateChannel now c s))"
| channel_deleted: "route_step s (snd (DeleteChannel i s))"
| default_set: "route_step s (snd (SetDefaultChannel i s))"
| default_cleared: "route_step s (snd (ClearDefaultChannel i s))"
| channels_assigned: "route_step s (snd (SetMonitorChannels now m ids s))"
| rule_created: "route_step s (snd (CreateRoutingRule now key val ids s))"
| rule_updated: "route_step s (snd (UpdateRoutingRule i key val ids s))"
| rule_deleted: "route_step s (snd (DeleteRoutingRule i s))"
| monitor_excluded: "route_step s (snd (ExcludeMonitorFromRule i m s))"
| monitor_included: "route_step s (snd (IncludeMonitorInRule i m s))"
| bulk_changed: "route_step s (snd (ChangeMonitorChannels etag now action ids ch expected preview s))"

inductive route_run :: "routes \<Rightarrow> bool" where
  start: "route_run routes0"
| step: "route_run s \<Longrightarrow> route_step s t \<Longrightarrow> route_run t"

lemma bulk_refused:
  "\<not> (\<exists>r. fst (ChangeMonitorChannels etag now action ids ch expected preview s) = Inr r \<and> \<not> preview) \<Longrightarrow>
    snd (ChangeMonitorChannels etag now action ids ch expected preview s) = s"
  by (auto simp: ChangeMonitorChannels_def Let_def split: sum.splits if_splits)

lemma ok_ChangeMonitorChannels:
  assumes ok: "routes_ok s" shows "routes_ok (snd (ChangeMonitorChannels etag now action ids ch expected preview s))"
proof (cases "\<exists>r. fst (ChangeMonitorChannels etag now action ids ch expected preview s) = Inr r \<and> \<not> preview")
  case True
  then obtain r where r: "fst (ChangeMonitorChannels etag now action ids ch expected preview s) = Inr r" "\<not> preview" by blast
  then have "ChangeMonitorChannels etag now action ids ch expected False s =
      (Inr (fst r, snd r), snd (ChangeMonitorChannels etag now action ids ch expected preview s))"
    by (simp add: prod_eq_iff)
  then show ?thesis by (rule bulk_done [OF ok])
next
  case False
  then show ?thesis using bulk_refused [OF False] ok by simp
qed

lemma routes_ok_step: "route_step s t \<Longrightarrow> routes_ok s \<Longrightarrow> routes_ok t"
proof (induction rule: route_step.induct)
  case (channel_created s now c)
  then show ?case by (simp add: CreateChannel_def Let_def ok_new_channel)
next
  case (channel_updated s now c)
  then show ?case by (auto simp: UpdateChannel_def Let_def split: option.split intro!: ok_update_channels)
next
  case (channel_deleted s i)
  then show ?case using ok_channel_gone [of s i] by (simp add: DeleteChannel_def)
next
  case (default_cleared s i)
  then show ?case by (auto simp: ClearDefaultChannel_def intro!: ok_update_channels)
next
  case (rule_deleted s i)
  then show ?case using ok_rule_gone [of s i] by (simp add: DeleteRoutingRule_def)
next
  case (tags_replaced m s t)
  then show ?case by (simp add: replaceTags_def ok_tags)
qed (simp_all add: ok_new_monitor ok_monitor_gone ok_set_default ok_SetMonitorChannels ok_CreateRoutingRule ok_UpdateRoutingRule
    ok_ExcludeMonitorFromRule ok_IncludeMonitorInRule ok_ChangeMonitorChannels)

lemma routes_ok_run: "route_run s \<Longrightarrow> routes_ok s"
  by (induction rule: route_run.induct) (simp add: routes0_def routes_ok_def refs_def, rule routes_ok_step)

section \<open>Who hears of an alert\<close>

definition routed :: "int \<Rightarrow> routes \<Rightarrow> int set" where
  "routed m s = {c. (m, c) \<in> set (rt_own s)} \<union>
     {c. \<exists>r \<in> set (rt_rules s). (m, r_TagKey r, r_TagValue r) \<in> set (rt_tags s) \<and> (r_ID r, m) \<notin> set (rt_exclusions s) \<and>
           (r_ID r, c) \<in> set (rt_ruleChannels s)}"

definition defaults :: "routes \<Rightarrow> int set" where
  "defaults s = c_ID ` {c \<in> set (rt_channels s). c_IsDefault c}"

lemma routed_iff: "c \<in> routed m s \<longleftrightarrow> (m, c) \<in> set (rt_own s) \<or> c \<in> set (ruleChannelsForMonitor m s)"
  by (force simp: routed_def ruleChannelsForMonitor_def)

lemma routed_exist: assumes "routes_ok s" shows "routed m s \<subseteq> c_ID ` set (rt_channels s)"
  using ok_refs(1,2) [OF assms] unfolding routed_def refs_def by blast

lemma sorted_ids:
  assumes "distinct (map c_ID cs)"
  shows "map c_ID (sort_key c_ID (filter P cs)) = sorted_list_of_set (c_ID ` {c \<in> set cs. P c})"
proof (rule sorted_distinct_set_unique)
  have "mset (map c_ID (sort_key c_ID (filter P cs))) = mset (map c_ID (filter P cs))" by simp
  then show "distinct (map c_ID (sort_key c_ID (filter P cs)))"
    by (metis assms distinct_map_filter mset_eq_imp_distinct_iff)
qed auto

text \<open>The default, where there is one, is one channel.\<close>

lemma default_channel:
  assumes ok: "routes_ok s"
  shows "(case DefaultChannel s of None \<Rightarrow> [] | Some d \<Rightarrow> [c_ID d]) = sorted_list_of_set (defaults s)"
proof (cases "DefaultChannel s")
  case None
  then have "defaults s = {}" by (auto simp: DefaultChannel_def defaults_def find_None_iff)
  then show ?thesis using None by simp
next
  case (Some d)
  then have d: "d \<in> set (rt_channels s)" "c_IsDefault d" by (auto simp: DefaultChannel_def find_Some_iff)
  have "c = d" if "c \<in> set (rt_channels s)" "c_IsDefault c" for c using ok d that unfolding routes_ok_def by blast
  then have "{c \<in> set (rt_channels s). c_IsDefault c} = {d}" using d by blast
  then show ?thesis using Some by (simp add: defaults_def)
qed

text \<open>
  C9: An alert on a monitor goes to exactly the channels it is routed to, each once and in the order of their ids: the
  monitor's own and those of every rule whose tag it carries and that does not exclude it; only where there are none,
  to the one default.
\<close>

theorem alert_reaches_exactly_the_routed:
  assumes "route_run s"
  shows "map c_ID (fst (AlertChannels m s)) =
    sorted_list_of_set (if routed m s \<noteq> {} then routed m s else defaults s)"
proof -
  note ok = routes_ok_run [OF assms]
  let ?P = "\<lambda>c. (m, c_ID c) \<in> set (rt_own s) \<or> c_ID c \<in> set (ruleChannelsForMonitor m s)"
  have img: "c_ID ` {c \<in> set (rt_channels s). ?P c} = routed m s"
    using routed_exist [OF ok, of m] unfolding routed_iff [symmetric] by blast
  have own: "map c_ID (sort_key c_ID (filter ?P (rt_channels s))) = sorted_list_of_set (routed m s)"
    unfolding img [symmetric] by (rule sorted_ids) (use ok in \<open>simp add: routes_ok_def\<close>)
  have fin: "finite (routed m s)" unfolding img [symmetric] by simp
  show ?thesis
  proof (cases "routed m s = {}")
    case True
    then have "sort_key c_ID (filter ?P (rt_channels s)) = []" using own by simp
    then show ?thesis using True default_channel [OF ok] unfolding AlertChannels_def Let_def
      by (simp split: option.splits)
  next
    case False
    then have "map c_ID (sort_key c_ID (filter ?P (rt_channels s))) \<noteq> []" using own fin by simp
    then have "sort_key c_ID (filter ?P (rt_channels s)) \<noteq> []" by blast
    then show ?thesis using False own unfolding AlertChannels_def Let_def by simp
  qed
qed

section \<open>What a preview promises\<close>

text \<open>
  C28: A bulk change that is written has the result its preview showed, for the same operation, even when other changes
  came between: any change that would alter the result is refused (under an ETag without collisions).
\<close>

theorem bulk_change_writes_what_was_shown:
  assumes "\<And>op e l op' e' l'. etag op e l = etag op' e' l' \<Longrightarrow> op = op' \<and> e = e' \<and> l = l'"
    and "ChangeMonitorChannels etag now action ids ch none True s = (Inr (shown, tag), s')"
    and "route_run t" "ChangeMonitorChannels etag now' action' ids' ch' tag False t = (Inr (written, tag'), t')"
  shows "written = shown \<and> set (rt_own t') =
    (if action = ''add'' then set (rt_own t) \<union> {(m, ch) | m. m \<in> set ids} else set (rt_own t) - {(m, ch) | m. m \<in> set ids})"
proof -
  obtain op where op: "normalised action ids ch = Inr op"
    using assms(2) by (auto simp: ChangeMonitorChannels_def split: sum.splits)
  obtain c where c: "GetChannel (op_ChannelID op) s = Inr c"
    using assms(2) op by (auto simp: ChangeMonitorChannels_def split: sum.splits)
  have shown: "tag = etag op (c_Enabled c) (linked op s)" "shown = operation_result op (c_Enabled c) (linked op s)"
    using assms(2) op c by (auto simp: ChangeMonitorChannels_def Let_def split: if_splits)
  obtain op' c' where wrote: "normalised action' ids' ch' = Inr op'" "GetChannel ch' t = Inr c'"
    "tag = etag op' (c_Enabled c') (linked op' t)" "written = operation_result op' (c_Enabled c') (linked op' t)"
    "tag' = etag op' (c_Enabled c') (linked op' t)" "routes_ok t'"
    "set (rt_own t') = (if action' = ''add'' then set (rt_own t) \<union> {(m, ch') | m. m \<in> set ids'}
       else set (rt_own t) - {(m, ch') | m. m \<in> set ids'})"
    by (rule bulk_done [OF routes_ok_run [OF assms(3)] assms(4)])
  have same: "op = op' \<and> c_Enabled c = c_Enabled c' \<and> linked op s = linked op' t"
    using shown(1) wrote(3) by (intro assms(1)) simp
  have "(action = ''add'') = (action' = ''add'') \<and> ch = ch' \<and> set ids = set ids'"
    using normalised_op [OF op] normalised_op [OF wrote(1)] same by simp
  moreover have "written = shown"
  proof -
    have eqs: "op = op'" "c_Enabled c = c_Enabled c'" "linked op s = linked op' t" using same by blast+
    show ?thesis unfolding shown(2) wrote(4) eqs(3) unfolding eqs(1,2) ..
  qed
  ultimately show ?thesis using wrote(7) by simp
qed

section \<open>Examples\<close>

text \<open>An ETag without collisions: the request and what it reads, written out with unary numbers and closing marks.\<close>

definition prefix_free :: "('a \<Rightarrow> string) \<Rightarrow> bool" where
  "prefix_free f \<longleftrightarrow> (\<forall>x y xs ys. f x @ xs = f y @ ys \<longrightarrow> x = y \<and> xs = ys)"

fun unary :: "nat \<Rightarrow> string" where
  "unary 0 = ''.''"
| "unary (Suc n) = CHR ''1'' # unary n"

definition print_int :: "int \<Rightarrow> string" where
  "print_int i = (if i < 0 then ''-'' else ''+'') @ unary (nat \<bar>i\<bar>)"

fun print_list :: "('a \<Rightarrow> string) \<Rightarrow> 'a list \<Rightarrow> string" where
  "print_list f [] = '']''"
| "print_list f (x # xs) = CHR '','' # f x @ print_list f xs"

definition print_pair :: "('a \<Rightarrow> string) \<Rightarrow> ('b \<Rightarrow> string) \<Rightarrow> 'a \<times> 'b \<Rightarrow> string" where
  "print_pair f g = (\<lambda>(x, y). f x @ g y)"

lemma unary_free: "unary m @ xs = unary n @ ys \<Longrightarrow> m = n \<and> xs = ys"
proof (induction m arbitrary: n)
  case 0
  then show ?case by (cases n) simp_all
next
  case (Suc m)
  then show ?case by (cases n) simp_all
qed

lemma print_int_free: "prefix_free print_int"
  by (auto simp: prefix_free_def print_int_def dest!: unary_free split: if_splits)

lemma print_list_free: "prefix_free f \<Longrightarrow> prefix_free (print_list f)"
proof -
  assume f: "prefix_free f"
  have "print_list f l @ xs = print_list f l' @ ys \<Longrightarrow> l = l' \<and> xs = ys" for l l' xs ys
  proof (induction l arbitrary: l')
    case Nil
    then show ?case by (cases l') simp_all
  next
    case (Cons x l)
    then obtain y k where l': "l' = y # k" by (cases l') simp_all
    then have "x = y \<and> print_list f l @ xs = print_list f k @ ys" using Cons.prems f unfolding prefix_free_def by simp
    then show ?case using Cons.IH l' by blast
  qed
  then show ?thesis unfolding prefix_free_def by blast
qed

lemma print_pair_free:
  assumes f: "prefix_free f" and g: "prefix_free g" shows "prefix_free (print_pair f g)"
proof -
  have "p = q \<and> xs = ys" if eq: "print_pair f g p @ xs = print_pair f g q @ ys" for p q xs ys
  proof -
    have eq': "f (fst p) @ g (snd p) @ xs = f (fst q) @ g (snd q) @ ys"
      using eq by (simp add: print_pair_def case_prod_beta)
    have heads: "fst p = fst q \<and> g (snd p) @ xs = g (snd q) @ ys" using f eq' unfolding prefix_free_def by blast
    then have "snd p = snd q \<and> xs = ys" using g unfolding prefix_free_def by blast
    then show ?thesis using heads by (simp add: prod_eq_iff)
  qed
  then show ?thesis unfolding prefix_free_def by blast
qed

definition example_etag :: etags where
  "example_etag op enabled l =
     print_pair print_int (print_pair (print_list print_int) (print_pair print_int (print_pair print_int
       (print_list (print_pair print_int (print_list print_int))))))
       (of_bool (op_Add op), op_MonitorIDs op, op_ChannelID op, of_bool enabled, l)"

lemma example_etag_no_collision:
  assumes "example_etag op e l = example_etag op' e' l'" shows "op = op' \<and> e = e' \<and> l = l'"
proof -
  let ?p = "print_pair print_int (print_pair (print_list print_int) (print_pair print_int (print_pair print_int
       (print_list (print_pair print_int (print_list print_int))))))"
  have "prefix_free ?p" by (intro print_pair_free print_list_free print_int_free)
  then have "?p x = ?p y \<Longrightarrow> x = y" for x y unfolding prefix_free_def by (metis append_Nil2)
  from this [OF assms [unfolded example_etag_def]] show ?thesis by (auto simp: of_bool_def split: if_splits)
qed

text \<open>Two channels, the first the default, and a rule that sends what is tagged \<open>team:ops\<close> to the second.\<close>

definition example_channel :: "string \<Rightarrow> channelRow" where
  "example_channel n = \<lparr>c_ID = 0, c_Name = n, c_Type = ''webhook'', c_Config = [], c_Enabled = True, c_IsDefault = False,
     c_CreatedAt = 0, c_UpdatedAt = 0\<rparr>"

definition example_routes :: routes where
  "example_routes = routes0\<lparr>
     rt_channels := [(example_channel ''pager'')\<lparr>c_ID := 1, c_IsDefault := True, c_CreatedAt := 5, c_UpdatedAt := 5\<rparr>,
                     (example_channel ''chat'')\<lparr>c_ID := 2, c_CreatedAt := 6, c_UpdatedAt := 6\<rparr>],
     rt_nextChannel := 3, rt_monitors := [(7, 0), (8, 0)], rt_tags := [(7, ''team'', ''ops'')],
     rt_rules := [\<lparr>r_ID = 1, r_TagKey = ''team'', r_TagValue = ''ops'', r_CreatedAt = 9\<rparr>], rt_nextRule := 2,
     rt_ruleChannels := [(1, 2)]\<rparr>"

lemma example_route_run: "route_run example_routes"
proof -
  let ?s1 = "routes0\<lparr>rt_monitors := [(7, 0)]\<rparr>"
  let ?s2 = "routes0\<lparr>rt_monitors := [(7, 0), (8, 0)]\<rparr>"
  let ?s3 = "snd (CreateChannel 5 (example_channel ''pager'') ?s2)"
  let ?s4 = "snd (CreateChannel 6 (example_channel ''chat'') ?s3)"
  let ?s5 = "snd (SetDefaultChannel 1 ?s4)"
  let ?s6 = "replaceTags 7 [(''team'', ''ops'')] ?s5"
  let ?s7 = "snd (CreateRoutingRule 9 ''team'' ''ops'' [2] ?s6)"
  have "route_run ?s1" using route_run.step [OF route_run.start route_step.monitor_created [of 7 routes0 0]]
    by (simp add: routes0_def monitor_exists_def)
  from route_run.step [OF this route_step.monitor_created [of 8 _ 0]] have "route_run ?s2"
    by (simp add: routes0_def monitor_exists_def)
  then have s5: "route_run ?s5" by (intro route_run.step [OF _ route_step.channel_created] route_run.step [OF _ route_step.default_set])
  have "monitor_exists 7 ?s5" by (simp add: routes0_def CreateChannel_def Let_def SetDefaultChannel_def channel_exists_def
        update_channels_def monitor_exists_def)
  from route_run.step [OF route_run.step [OF s5 route_step.tags_replaced [OF this]] route_step.rule_created]
  have "route_run ?s7" .
  also have "?s7 = example_routes"
    by (simp add: example_routes_def routes0_def example_channel_def CreateChannel_def Let_def SetDefaultChannel_def channel_exists_def
        update_channels_def monitor_exists_def replaceTags_def CreateRoutingRule_def replaceRuleChannels_def distinctIDs_def insert_pair_def)
  finally show ?thesis .
qed

theorem alert_reaches_exactly_the_routed_witness:
  "map c_ID (fst (AlertChannels 7 example_routes)) = [2] \<and> map c_ID (fst (AlertChannels 8 example_routes)) = [1]"
proof
  have "routed 7 example_routes = {2}" by (auto simp: routed_def example_routes_def routes0_def)
  then show "map c_ID (fst (AlertChannels 7 example_routes)) = [2]"
    using alert_reaches_exactly_the_routed [OF example_route_run, of 7] by simp
  have "routed 8 example_routes = {}" by (auto simp: routed_def example_routes_def routes0_def)
  moreover have "{c \<in> set (rt_channels example_routes). c_IsDefault c} = {hd (rt_channels example_routes)}"
    by (auto simp: example_routes_def example_channel_def)
  then have "defaults example_routes = {1}" unfolding defaults_def by (simp add: example_routes_def)
  ultimately show "map c_ID (fst (AlertChannels 8 example_routes)) = [1]"
    using alert_reaches_exactly_the_routed [OF example_route_run, of 8] by simp
qed

lemma example_bulk:
  "normalised ''add'' [8, 7] 1 = Inr \<lparr>op_Add = True, op_MonitorIDs = [7, 8], op_ChannelID = 1\<rparr>"
  "GetChannel 1 example_routes = Inr (hd (rt_channels example_routes))"
  "linked \<lparr>op_Add = True, op_MonitorIDs = [7, 8], op_ChannelID = 1\<rparr> example_routes = [(7, []), (8, [])]"
  by (simp_all add: normalised_def MaxTagOperationIDs_def GetChannel_def example_routes_def example_channel_def linked_def routes0_def)

text \<open>The preview and the change, with no other change between: both monitors get the channel.\<close>

theorem bulk_change_writes_what_was_shown_witness:
  "let op = \<lparr>op_Add = True, op_MonitorIDs = [7, 8], op_ChannelID = 1\<rparr>; tag = example_etag op True [(7, []), (8, [])];
       t = snd (ChangeMonitorChannels example_etag 20 ''add'' [8, 7] 1 tag False example_routes)
   in set (rt_own t) = {(7, 1), (8, 1)}"
proof -
  let ?op = "\<lparr>op_Add = True, op_MonitorIDs = [7, 8], op_ChannelID = 1\<rparr>"
  let ?tag = "example_etag ?op True [(7, []), (8, [])]"
  let ?t = "snd (ChangeMonitorChannels example_etag 20 ''add'' [8, 7] 1 ?tag False example_routes)"
  let ?res = "operation_result ?op True [(7, []), (8, [])]"
  have enabled: "c_Enabled (hd (rt_channels example_routes))" by (simp add: example_routes_def example_channel_def)
  have preview: "ChangeMonitorChannels example_etag 19 ''add'' [8, 7] 1 [] True example_routes = (Inr (?res, ?tag), example_routes)"
    by (simp add: ChangeMonitorChannels_def example_bulk enabled Let_def)
  have change: "ChangeMonitorChannels example_etag 20 ''add'' [8, 7] 1 ?tag False example_routes = (Inr (?res, ?tag), ?t)"
    by (simp add: ChangeMonitorChannels_def example_bulk enabled Let_def)
  have "set (rt_own ?t) = set (rt_own example_routes) \<union> {(m, 1) | m. m \<in> set [8, 7]}"
    using bulk_change_writes_what_was_shown [OF example_etag_no_collision preview example_route_run change] by simp
  then show ?thesis unfolding Let_def by (auto simp: example_routes_def routes0_def)
qed

end
