(* ===== verification/Fit.thy ===== *)
theory Fit
  imports Utf8
begin

text \<open>
  Fitting a message to the length a service accepts (\<open>internal/notifier/fit.go\<close>): the longest lines lose their
  middle first, by a binary search for how much of a line to keep, and only then is the text cut from its end. A
  locale states what makes such a search find the longest text that fits.
\<close>

section \<open>Characters\<close>

text \<open>\<open>string(rs)\<close> of a \<open>[]rune\<close>: a byte that was no character comes back as U+FFFD.\<close>

definition valid_rune :: "string \<Rightarrow> bool" where
  "valid_rune r \<longleftrightarrow> r \<noteq> [] \<and> (case sequence_start (hd r) of None \<Rightarrow> False | Some (n, lo, hi) \<Rightarrow> n = length r \<and> rune_width r = n)"

definition encode_rune :: "string \<Rightarrow> string" where
  "encode_rune r = (if valid_rune r then r else [CHR 0xEF, CHR 0xBF, CHR 0xBD])"

definition of_runes :: "string list \<Rightarrow> string" where
  "of_runes rs = concat (map encode_rune rs)"

definition ellipsis :: string where
  "ellipsis = [CHR 0xE2, CHR 0x80, CHR 0xA6]"

definition utf16Len :: "string \<Rightarrow> int" where
  "utf16Len s = (\<Sum>r \<leftarrow> runes s. if length r = 4 then 2 else 1)"

section \<open>The cuts\<close>

definition capLine :: "nat \<Rightarrow> string \<Rightarrow> string" where
  "capLine keep line =
     (let rs = runes line in
      if length rs \<le> keep then line
      else
        let head = (keep - 1) * 2 div 3; tail = keep - 1 - head
        in of_runes (take head rs) @ ellipsis @ of_runes (drop (length rs - tail) rs))"

definition capLines :: "string list \<Rightarrow> nat \<Rightarrow> string" where
  "capLines ls keep = join_with [CHR 0x0A] (map (capLine keep) ls)"

text \<open>\<open>strings.TrimRightFunc(s, unicode.IsSpace)\<close>\<close>

definition trim_right :: "string \<Rightarrow> string" where
  "trim_right s = rev (trim_left (map rev space_runes) (rev s))"

definition cutText :: "string list \<Rightarrow> string" where
  "cutText kept = trim_right (of_runes kept) @ ellipsis"

text \<open>The binary search: the last text found to fit, as the loop leaves it.\<close>

function bisect :: "(nat \<Rightarrow> string) \<Rightarrow> (string \<Rightarrow> bool) \<Rightarrow> int \<Rightarrow> int \<Rightarrow> string option \<Rightarrow> string option" where
  "bisect cut_to fits lo hi best =
     (if hi < lo then best
      else
        let keep = lo + (hi - lo) div 2; s = cut_to (nat keep) in
        if fits s then bisect cut_to fits (keep + 1) hi (Some s)
        else bisect cut_to fits lo (keep - 1) best)"
  by pat_completeness auto
termination
  by (relation "measure (\<lambda>(cut_to, fits, lo, hi, best). nat (hi - lo + 1))") (auto simp: not_less)

declare bisect.simps [simp del]

definition longest_line :: "string list \<Rightarrow> nat" where
  "longest_line ls = foldl (\<lambda>n line. max n (RuneCount line)) 0 ls"

definition fitBody :: "string \<Rightarrow> int \<Rightarrow> (string \<Rightarrow> int) \<Rightarrow> (string \<Rightarrow> string) \<Rightarrow> string" where
  "fitBody body limit size_of render =
     (if size_of (render body) \<le> limit then body
      else
        let ls = split_on (CHR 0x0A) body; fits = (\<lambda>s. size_of (render s) \<le> limit); rs = runes body in
        case bisect (capLines ls) fits 1 (min (int (longest_line ls) - 1) limit) None of
          Some best \<Rightarrow> best
        | None \<Rightarrow>
            (case bisect (\<lambda>n. cutText (take n rs)) fits 0 (min (int (length rs)) limit) None of
               Some best \<Rightarrow> best
             | None \<Rightarrow> []))"

text \<open>Telegram's message (\<open>internal/notifier/telegram.go\<close>): a marker and the title, the body, and the links.\<close>

definition telegramTextMax :: int where
  "telegramTextMax = 4096"

definition telegramMessage :: "string \<Rightarrow> string \<Rightarrow> string \<Rightarrow> string \<Rightarrow> string" where
  "telegramMessage marker title links body =
     (marker @ '' '' @ title @ [CHR 0x0A, CHR 0x0A]) @ body @ (if links = [] then [] else [CHR 0x0A, CHR 0x0A] @ links)"

definition telegramText :: "string \<Rightarrow> string \<Rightarrow> string \<Rightarrow> string \<Rightarrow> string" where
  "telegramText marker title links body =
     telegramMessage marker title links (fitBody body telegramTextMax utf16Len (telegramMessage marker title links))"

section \<open>The search\<close>

lemma bisect_fits: "bisect cut_to fits lo hi best = Some s \<Longrightarrow> best = Some s \<or> fits s \<and> (\<exists>k. lo \<le> k \<and> k \<le> hi \<and> s = cut_to (nat k))"
proof (induction cut_to fits lo hi best rule: bisect.induct)
  case (1 cut_to fits lo hi best)
  let ?k = "lo + (hi - lo) div 2"
  show ?case
  proof (cases "hi < lo")
    case False
    then have k: "lo \<le> ?k" "?k \<le> hi" by linarith+
    show ?thesis
    proof (cases "fits (cut_to (nat ?k))")
      case True
      then have "bisect cut_to fits (?k + 1) hi (Some (cut_to (nat ?k))) = Some s"
        using 1(3) False by (simp add: bisect.simps [of _ _ lo] Let_def)
      then have "s = cut_to (nat ?k) \<or> fits s \<and> (\<exists>j. ?k + 1 \<le> j \<and> j \<le> hi \<and> s = cut_to (nat j))"
        using 1(1) [OF False refl refl True] by auto
      then show ?thesis
      proof
        assume "s = cut_to (nat ?k)"
        then show ?thesis using True k by blast
      next
        assume "fits s \<and> (\<exists>j. ?k + 1 \<le> j \<and> j \<le> hi \<and> s = cut_to (nat j))"
        then obtain j where j: "fits s" "?k + 1 \<le> j" "j \<le> hi" "s = cut_to (nat j)" by blast
        then have "lo \<le> j" using k(1) by linarith
        then show ?thesis using j by blast
      qed
    next
      case nofit: False
      then have "bisect cut_to fits lo (?k - 1) best = Some s" using 1(3) False by (simp add: bisect.simps [of _ _ lo] Let_def)
      then have "best = Some s \<or> fits s \<and> (\<exists>j. lo \<le> j \<and> j \<le> ?k - 1 \<and> s = cut_to (nat j))"
        using 1(2) [OF False refl refl nofit] by simp
      moreover have "j \<le> hi" if "j \<le> ?k - 1" for j using that k(2) by linarith
      ultimately show ?thesis by blast
    qed
  next
    case True
    then show ?thesis using 1(3) by (simp add: bisect.simps [of _ _ lo])
  qed
qed

text \<open>Whatever is measured and however it is rendered, a text that is cut fits, or nothing is left of it.\<close>

theorem fitted_body_fits: "size_of (render (fitBody body limit size_of render)) \<le> limit \<or> fitBody body limit size_of render = []"
  by (auto simp: fitBody_def Let_def split: option.split dest!: bisect_fits)

lemma bisect_keeps: "\<exists>s. bisect cut_to fits lo hi (Some x) = Some s"
proof (induction "nat (hi - lo + 1)" arbitrary: lo hi x rule: less_induct)
  case less
  let ?k = "lo + (hi - lo) div 2"
  show ?case
  proof (cases "hi < lo")
    case False
    then have "lo \<le> ?k" "?k \<le> hi" by linarith+
    then have "nat (hi - (?k + 1) + 1) < nat (hi - lo + 1)" "nat (?k - 1 - lo + 1) < nat (hi - lo + 1)" by linarith+
    from less [OF this(1)] less [OF this(2)] False show ?thesis by (simp add: bisect.simps [of _ _ lo] Let_def)
  qed (simp add: bisect.simps [of _ _ lo])
qed

text \<open>Keeping less never makes a text too long: then the search ends at the most that can be kept.\<close>

locale cut_search =
  fixes cut_to :: "nat \<Rightarrow> string"
    and fits :: "string \<Rightarrow> bool"
  assumes less_fits: "0 < i \<Longrightarrow> i \<le> j \<Longrightarrow> fits (cut_to j) \<Longrightarrow> fits (cut_to i)"
begin

lemma finds_most:
  assumes "1 \<le> lo" "lo \<le> k" "k \<le> hi" "fits (cut_to (nat k))"
  shows "\<exists>j. k \<le> j \<and> j \<le> hi \<and> fits (cut_to (nat j)) \<and> bisect cut_to fits lo hi best = Some (cut_to (nat j))"
  using assms
proof (induction "nat (hi - lo)" arbitrary: lo hi k best rule: less_induct)
  case less
  let ?k = "lo + (hi - lo) div 2"
  have mid: "lo \<le> ?k" "?k \<le> hi" using less.prems by linarith+
  show ?case
  proof (cases "fits (cut_to (nat ?k))")
    case True
    have eq: "bisect cut_to fits lo hi best = bisect cut_to fits (?k + 1) hi (Some (cut_to (nat ?k)))"
      using True less.prems by (simp add: bisect.simps [of _ _ lo] Let_def)
    show ?thesis
    proof (cases "\<exists>j. max k (?k + 1) \<le> j \<and> j \<le> hi \<and> fits (cut_to (nat j))")
      case True
      then obtain j where j: "max k (?k + 1) \<le> j" "j \<le> hi" "fits (cut_to (nat j))" by blast
      have "nat (hi - (?k + 1)) < nat (hi - lo)" using j mid by linarith
      from less.hyps [OF this _ _ j(2,3), of "Some (cut_to (nat ?k))"] j(1) less.prems(1) mid(1)
      obtain i where "j \<le> i" "i \<le> hi" "fits (cut_to (nat i))"
        "bisect cut_to fits (?k + 1) hi (Some (cut_to (nat ?k))) = Some (cut_to (nat i))" by auto
      moreover have "k \<le> i" using \<open>j \<le> i\<close> j(1) by simp
      ultimately show ?thesis unfolding eq by blast
    next
      case none: False
      then have "bisect cut_to fits (?k + 1) hi (Some (cut_to (nat ?k))) = Some (cut_to (nat ?k))"
      proof -
        have small: "k \<le> ?k"
        proof (rule ccontr)
          assume "\<not> k \<le> ?k"
          then show False using none less.prems(3,4) by force
        qed
        have stay: "\<not> fits (cut_to (nat j))" if "?k + 1 \<le> j" "j \<le> hi" for j using none that small by force
        obtain s where s: "bisect cut_to fits (?k + 1) hi (Some (cut_to (nat ?k))) = Some s"
          using bisect_keeps by blast
        from bisect_fits [OF s] stay s show ?thesis by auto
      qed
      moreover have "k \<le> ?k" using none less.prems(3,4) by force
      ultimately show ?thesis using True mid unfolding eq by blast
    qed
  next
    case False
    have small: "k \<le> ?k - 1"
    proof (rule ccontr)
      assume "\<not> k \<le> ?k - 1"
      then have "nat ?k \<le> nat k" by simp
      then show False using less_fits [of "nat ?k" "nat k"] False less.prems mid by simp
    qed
    have eq: "bisect cut_to fits lo hi best = bisect cut_to fits lo (?k - 1) best"
      using False less.prems by (simp add: bisect.simps [of _ _ lo] Let_def)
    have "nat (?k - 1 - lo) < nat (hi - lo)" using small less.prems by linarith
    from less.hyps [OF this less.prems(1,2) small less.prems(4), of best] 
    obtain j where "k \<le> j" "j \<le> ?k - 1" "fits (cut_to (nat j))" "bisect cut_to fits lo (?k - 1) best = Some (cut_to (nat j))"
      by blast
    moreover have "j \<le> hi" using \<open>j \<le> ?k - 1\<close> mid(2) by linarith
    ultimately show ?thesis unfolding eq by blast
  qed
qed

end

section \<open>UTF-16 lengths add up\<close>

lemma rune_width_append:
  assumes "a \<noteq> []" "b = [] \<or> RuneStart (hd b)"
  shows "rune_width (a @ b) = rune_width a"
proof (cases "sequence_start (hd a)")
  case None
  then show ?thesis using assms(1) by (simp add: rune_width_def)
next
  case (Some t)
  obtain n lo hi where t: "t = (n, lo, hi)" by (cases t)
  have n: "n \<le> 4" "n = 1 \<or> 0x80 \<le> lo \<and> hi \<le> 0xBF" using Some t by (auto simp: sequence_start_def Let_def split: if_splits)
  show ?thesis
  proof (cases "n \<le> length a \<or> n = 1 \<or> b = []")
    case True
    moreover have "(a @ b) ! 1 = a ! 1" if "n \<le> length a" "n \<noteq> 1" "n \<noteq> 0" using that by (simp add: nth_append)
    moreover have "n \<noteq> 0" using Some t by (auto simp: sequence_start_def Let_def split: if_splits)
    ultimately show ?thesis using Some t assms(1) by (auto simp: rune_width_def nth_append)
  next
    case False
    have not_cont: "\<not> byte_between 0x80 0xBF (hd b)" using assms(2) False by (simp add: RuneStart_def)
    have "\<not> (byte_between lo hi ((a @ b) ! 1) \<and> list_all (byte_between 0x80 0xBF) (drop 2 (take n (a @ b))))"
    proof (cases "length a = 1")
      case True
      then have "(a @ b) ! 1 = hd b" using False by (simp add: nth_append hd_conv_nth)
      then show ?thesis using not_cont n False by (auto simp: byte_between_def)
    next
      case len: False
      have "hd b \<in> set (drop 2 (take n (a @ b)))"
      proof -
        have "length a < n" using False by simp
        then have "take n (a @ b) = a @ hd b # take (n - length a - 1) (tl b)" using False
          by (cases b) (auto simp: take_Cons' )
        moreover have "2 \<le> length a" using len assms(1) by (cases a) (auto simp: Suc_le_eq)
        ultimately show ?thesis by simp
      qed
      then show ?thesis using not_cont by (auto simp: list_all_iff)
    qed
    then show ?thesis using Some t False assms(1) by (auto simp: rune_width_def)
  qed
qed

lemma runes_append: "b = [] \<or> RuneStart (hd b) \<Longrightarrow> runes (a @ b) = runes a @ runes b"
proof (induction a rule: runes.induct)
  case (1 a)
  show ?case
  proof (cases "a = []")
    case False
    have w: "rune_width (a @ b) = rune_width a" by (rule rune_width_append [OF False 1(2)])
    have "rune_width a \<le> length a" by (rule rune_width_le_length [OF False])
    then show ?thesis using 1(1) [OF False 1(2)] False w by (simp add: runes.simps [of "a @ b"] runes.simps [of a])
  qed simp
qed

lemma valid_rune_append: "valid_rune r \<Longrightarrow> runes (r @ s) = r # runes s"
proof -
  assume r: "valid_rune r"
  then obtain n lo hi where n: "r \<noteq> []" "sequence_start (hd r) = Some (n, lo, hi)" "n = length r" "rune_width r = n"
    by (auto simp: valid_rune_def split: option.splits)
  moreover obtain c cs where "r = c # cs" using n(1) by (cases r) auto
  ultimately have "rune_width (r @ s) = n" by (cases "n = 1") (auto simp: rune_width_def nth_append split: if_splits)
  then show ?thesis using n by (simp add: runes.simps [of "r @ s"])
qed

lemma valid_encode_rune [simp]: "valid_rune (encode_rune r)"
  by (simp add: encode_rune_def valid_rune_def sequence_start_def rune_width_def byte_between_def)

lemma runes_of_runes: "runes (of_runes rs @ s) = map encode_rune rs @ runes s"
  by (induction rs) (simp_all add: of_runes_def valid_rune_append)

lemma runes_ellipsis: "runes (ellipsis @ s) = ellipsis # runes s"
  by (rule valid_rune_append) (simp add: ellipsis_def valid_rune_def sequence_start_def rune_width_def byte_between_def)

definition unit_cost :: "string \<Rightarrow> int" where
  "unit_cost r = (if length r = 4 then 2 else 1)"

lemma utf16Len_runes: "utf16Len s = sum_list (map unit_cost (runes s))"
  by (simp add: utf16Len_def unit_cost_def [abs_def])

lemma unit_cost_pos: "1 \<le> unit_cost r"
  by (simp add: unit_cost_def)

lemma utf16Len_append: "b = [] \<or> RuneStart (hd b) \<Longrightarrow> utf16Len (a @ b) = utf16Len a + utf16Len b"
  by (simp add: utf16Len_runes runes_append)

lemma ascii_rune: "of_char c < (128 :: nat) \<Longrightarrow> valid_rune [c] \<and> RuneStart c"
  by (simp add: valid_rune_def sequence_start_def rune_width_def RuneStart_def byte_between_def Let_def)

lemma utf16Len_ascii_Cons: "of_char c < (128 :: nat) \<Longrightarrow> utf16Len (a @ c # b) = utf16Len a + 1 + utf16Len b"
proof -
  assume c: "of_char c < (128 :: nat)"
  have "utf16Len (a @ c # b) = utf16Len a + utf16Len (c # b)" by (rule utf16Len_append) (use ascii_rune [OF c] in simp)
  moreover have "runes (c # b) = [c] # runes b" using valid_rune_append [of "[c]" b] ascii_rune [OF c] by simp
  ultimately show ?thesis by (simp add: utf16Len_runes unit_cost_def)
qed

text \<open>A character as read is either whole or one stray byte.\<close>

lemma rune_valid_or_byte: "r \<in> set (runes s) \<Longrightarrow> valid_rune r \<or> length r = 1"
proof (induction s rule: runes.induct)
  case (1 s)
  show ?case
  proof (cases "s = []")
    case False
    have "valid_rune (take (rune_width s) s) \<or> length (take (rune_width s) s) = 1"
    proof (cases "rune_width s = 1")
      case True
      then show ?thesis using False by (cases s) simp_all
    next
      case wide: False
      obtain n lo hi where n: "sequence_start (hd s) = Some (n, lo, hi)" using wide
        by (cases "sequence_start (hd s)") (auto simp: rune_width_def)
      have w: "rune_width s = n" "n \<noteq> 1" "n \<le> length s" "byte_between lo hi (s ! 1)" "list_all (byte_between 0x80 0xBF) (drop 2 (take n s))"
        using n wide by (auto simp: rune_width_def split: if_splits)
      have "n \<noteq> 0" using n by (auto simp: sequence_start_def Let_def split: if_splits)
      then have "hd (take n s) = hd s" "take n s ! 1 = s ! 1" using w(2) by simp_all
      then show ?thesis using n w False \<open>n \<noteq> 0\<close> by (simp add: valid_rune_def rune_width_def)
    qed
    moreover have "set (runes s) = insert (take (rune_width s) s) (set (runes (drop (rune_width s) s)))"
      using False by (simp add: runes.simps [of s])
    ultimately show ?thesis using 1 False by auto
  qed (use 1 in simp)
qed

lemma unit_cost_encode: "r \<in> set (runes s) \<Longrightarrow> unit_cost (encode_rune r) = unit_cost r"
  using rune_valid_or_byte [of r s] by (auto simp: encode_rune_def unit_cost_def)

definition cost :: "string list \<Rightarrow> int" where
  "cost rs = sum_list (map unit_cost rs)"

lemma cost_append [simp]: "cost (a @ b) = cost a + cost b"
  by (simp add: cost_def)

lemma cost_length: "int (length rs) \<le> cost rs"
  by (induction rs) (use unit_cost_pos in \<open>auto simp: cost_def intro!: add_mono\<close>)

lemma cost_encode: "set rs \<subseteq> set (runes s) \<Longrightarrow> cost (map encode_rune rs) = cost rs"
  by (induction rs) (auto simp: cost_def unit_cost_encode)

lemma cost_take_mono: "i \<le> j \<Longrightarrow> cost (take i rs) \<le> cost (take j rs)"
proof -
  assume "i \<le> j"
  then have "take j rs = take i rs @ take (j - i) (drop i rs)" by (metis le_add_diff_inverse take_add)
  then show ?thesis using cost_length [of "take (j - i) (drop i rs)"] by simp
qed

lemma cost_drop_mono: "i \<le> j \<Longrightarrow> cost (drop j rs) \<le> cost (drop i rs)"
proof -
  assume "i \<le> j"
  then have "drop i rs = take (j - i) (drop i rs) @ drop j rs" by (metis append_take_drop_id drop_drop le_add_diff_inverse2)
  then show ?thesis using cost_length [of "take (j - i) (drop i rs)"] by (metis cost_append le_add_same_cancel2 of_nat_0_le_iff order_trans)
qed

lemma utf16Len_capLine:
  "utf16Len (capLine k line) =
     (if length (runes line) \<le> k then cost (runes line)
      else cost (take ((k - 1) * 2 div 3) (runes line)) + 1 +
           cost (drop (length (runes line) - (k - 1 - (k - 1) * 2 div 3)) (runes line)))"
proof (cases "length (runes line) \<le> k")
  case False
  let ?h = "take ((k - 1) * 2 div 3) (runes line)" and ?t = "drop (length (runes line) - (k - 1 - (k - 1) * 2 div 3)) (runes line)"
  have "runes (capLine k line) = map encode_rune ?h @ ellipsis # map encode_rune ?t"
    using False runes_of_runes [of ?t "[]"] by (simp add: capLine_def Let_def runes_of_runes runes_ellipsis)
  moreover have "cost (map encode_rune ?h) = cost ?h" "cost (map encode_rune ?t) = cost ?t"
    by (rule cost_encode [of _ line], simp add: set_take_subset set_drop_subset)+
  ultimately have "utf16Len (capLine k line) = cost ?h + unit_cost ellipsis + cost ?t"
    by (simp add: utf16Len_runes cost_def)
  then show ?thesis using False by (simp add: unit_cost_def ellipsis_def)
qed (simp add: capLine_def utf16Len_runes cost_def)

lemma capLine_mono:
  assumes "0 < i" "i \<le> j" shows "utf16Len (capLine i line) \<le> utf16Len (capLine j line)"
proof (cases "length (runes line) \<le> i")
  case True
  then show ?thesis using assms by (simp add: utf16Len_capLine)
next
  case False
  let ?rs = "runes line" and ?L = "length (runes line)" and ?h = "\<lambda>k. (k - 1) * 2 div 3 :: nat" and ?t = "\<lambda>k. k - 1 - (k - 1) * 2 div 3 :: nat"
  have h: "?h i \<le> ?h j" and t: "?t i \<le> ?t j" using assms by linarith+
  show ?thesis
  proof (cases "?L \<le> j")
    case True
    have "?h i + ?t i < ?L" using False assms(1) by linarith
    then have q: "?L - ?t i - ?h i + ?h i = ?L - ?t i" by linarith
    have "drop (?h i) ?rs = take (?L - ?t i - ?h i) (drop (?h i) ?rs) @ drop (?L - ?t i) ?rs"
      using append_take_drop_id [of "?L - ?t i - ?h i" "drop (?h i) ?rs"] unfolding drop_drop q by simp
    then have split: "?rs = take (?h i) ?rs @ take (?L - ?t i - ?h i) (drop (?h i) ?rs) @ drop (?L - ?t i) ?rs"
      using append_take_drop_id [of "?h i" ?rs] by simp
    have "1 \<le> cost (take (?L - ?t i - ?h i) (drop (?h i) ?rs))"
    proof -
      have "1 \<le> length (take (?L - ?t i - ?h i) (drop (?h i) ?rs))"
        unfolding length_take length_drop using \<open>?h i + ?t i < ?L\<close> by linarith
      then show ?thesis using cost_length [of "take (?L - ?t i - ?h i) (drop (?h i) ?rs)"] by linarith
    qed
    then have "cost (take (?h i) ?rs) + 1 + cost (drop (?L - ?t i) ?rs) \<le> cost ?rs"
      using arg_cong [OF split, of cost] by simp
    then show ?thesis unfolding utf16Len_capLine if_not_P [OF False] if_P [OF True] .
  next
    case long: False
    have "cost (take (?h i) ?rs) \<le> cost (take (?h j) ?rs)" by (rule cost_take_mono [OF h])
    moreover have "cost (drop (?L - ?t i) ?rs) \<le> cost (drop (?L - ?t j) ?rs)" by (rule cost_drop_mono) (rule diff_le_mono2 [OF t])
    ultimately have "cost (take (?h i) ?rs) + 1 + cost (drop (?L - ?t i) ?rs) \<le> cost (take (?h j) ?rs) + 1 + cost (drop (?L - ?t j) ?rs)"
      by (intro add_mono order_refl)
    then show ?thesis unfolding utf16Len_capLine if_not_P [OF False] if_not_P [OF long] .
  qed
qed

lemma utf16Len_join: "ls \<noteq> [] \<Longrightarrow> utf16Len (join_with [CHR 0x0A] ls) = sum_list (map utf16Len ls) + int (length ls) - 1"
proof (induction "[CHR 0x0A] :: string" ls rule: join_with.induct)
  case (3 x y ys)
  then show ?case using utf16Len_ascii_Cons [of "CHR 0x0A" x] by simp
qed simp_all

lemma capLines_mono: "ls \<noteq> [] \<Longrightarrow> 0 < i \<Longrightarrow> i \<le> j \<Longrightarrow> utf16Len (capLines ls i) \<le> utf16Len (capLines ls j)"
proof -
  assume ls: "ls \<noteq> []" and ij: "0 < i" "i \<le> j"
  have "(\<Sum>x\<leftarrow>ls. utf16Len (capLine i x)) \<le> (\<Sum>x\<leftarrow>ls. utf16Len (capLine j x))"
    by (rule sum_list_mono) (rule capLine_mono [OF ij])
  then show ?thesis using ls by (simp add: capLines_def utf16Len_join comp_def)
qed

lemma utf16Len_message: "utf16Len (telegramMessage marker title links s) =
    utf16Len (marker @ '' '' @ title @ [CHR 0x0A]) + 1 + utf16Len s + (if links = [] then 0 else 2 + utf16Len links)"
proof -
  have "utf16Len ((marker @ '' '' @ title @ [CHR 0x0A]) @ CHR 0x0A # (s @ x)) =
      utf16Len (marker @ '' '' @ title @ [CHR 0x0A]) + 1 + utf16Len (s @ x)" for x
    by (rule utf16Len_ascii_Cons) simp
  moreover have "utf16Len (s @ CHR 0x0A # CHR 0x0A # links) = utf16Len s + 1 + utf16Len (CHR 0x0A # links)"
    by (rule utf16Len_ascii_Cons) simp
  moreover have "utf16Len (CHR 0x0A # links) = 1 + utf16Len links"
    using utf16Len_ascii_Cons [of "CHR 0x0A" "[]" links] by (simp add: utf16Len_def)
  ultimately show ?thesis by (simp add: telegramMessage_def)
qed

interpretation telegram: cut_search "capLines (split_on (CHR 0x0A) body)" "\<lambda>s. utf16Len (telegramMessage marker title links s) \<le> telegramTextMax"
proof unfold_locales
  fix i j :: nat assume "0 < i" "i \<le> j" "utf16Len (telegramMessage marker title links (capLines (split_on (CHR 0x0A) body) j)) \<le> telegramTextMax"
  then show "utf16Len (telegramMessage marker title links (capLines (split_on (CHR 0x0A) body) i)) \<le> telegramTextMax"
    using capLines_mono [of "split_on (CHR 0x0A) body" i j] by (simp add: utf16Len_message)
qed

text \<open>
  A message to Telegram that is too long loses no more than it must: if it fits with every line cut to \<open>k\<close>
  characters, what is sent has every line cut to some \<open>j\<close> that is at least \<open>k\<close>, and fits.
\<close>

theorem telegram_cuts_no_more_than_needed:
  assumes "telegramTextMax < utf16Len (telegramMessage marker title links body)"
    and "1 \<le> k" "k < longest_line (split_on (CHR 0x0A) body)" "int k \<le> telegramTextMax"
    and "utf16Len (telegramMessage marker title links (capLines (split_on (CHR 0x0A) body) k)) \<le> telegramTextMax"
  shows "\<exists>j \<ge> k. telegramText marker title links body = telegramMessage marker title links (capLines (split_on (CHR 0x0A) body) j) \<and>
    utf16Len (telegramText marker title links body) \<le> telegramTextMax"
proof -
  let ?ls = "split_on (CHR 0x0A) body" and ?m = "telegramMessage marker title links"
  obtain j where j: "int k \<le> j" "utf16Len (?m (capLines ?ls (nat j))) \<le> telegramTextMax"
    "bisect (capLines ?ls) (\<lambda>s. utf16Len (?m s) \<le> telegramTextMax) 1 (min (int (longest_line ?ls) - 1) telegramTextMax) None =
       Some (capLines ?ls (nat j))"
    using telegram.finds_most [of 1 "int k" "min (int (longest_line ?ls) - 1) telegramTextMax" marker title links body None] assms(2-5)
    by auto
  have "fitBody body telegramTextMax utf16Len ?m = capLines ?ls (nat j)"
    using assms(1) j(3) by (simp add: fitBody_def Let_def)
  then show ?thesis using j(1,2) by (intro exI [of _ "nat j"]) (simp add: telegramText_def le_nat_iff)
qed

section \<open>Example\<close>

lemma utf16Len_ascii: "list_all (\<lambda>c. of_char c < (128 :: nat)) s \<Longrightarrow> utf16Len s = int (length s)"
  by (simp add: utf16Len_runes runes_ascii unit_cost_def comp_def sum_list_triv)

theorem telegram_cuts_no_more_than_needed_witness:
  "let body = replicate 5000 CHR ''a'' in
   \<exists>j \<ge> 100. telegramText ''DOWN'' ''web'' [] body = telegramMessage ''DOWN'' ''web'' [] (capLines [body] j)"
proof -
  let ?b = "replicate 5000 CHR ''a''" and ?m = "telegramMessage ''DOWN'' ''web'' []"
  have ls: "split_on (CHR 0x0A) ?b = [?b]" by (rule split_on_single) simp
  have b: "runes ?b = replicate 5000 ''a''" using runes_ascii [of ?b] by (simp add: list_all_iff)
  have head: "utf16Len (''DOWN'' @ '' '' @ ''web'' @ [CHR 0x0A]) = 9" by (subst utf16Len_ascii) simp_all
  have "utf16Len ?b = 5000" by (subst utf16Len_ascii) (simp_all add: list_all_iff)
  then have long: "telegramTextMax < utf16Len (?m ?b)" by (simp add: utf16Len_message head [simplified] telegramTextMax_def)
  have "utf16Len (capLines (split_on (CHR 0x0A) ?b) 100) = 100"
    by (simp add: ls capLines_def utf16Len_capLine b cost_def unit_cost_def sum_list_replicate)
  then have fits: "utf16Len (?m (capLines (split_on (CHR 0x0A) ?b) 100)) \<le> telegramTextMax"
    by (simp add: utf16Len_message head [simplified] telegramTextMax_def)
  have "100 < longest_line (split_on (CHR 0x0A) ?b)" by (simp add: ls longest_line_def RuneCount_def b)
  from telegram_cuts_no_more_than_needed [OF long _ this _ fits] show ?thesis
    by (simp add: Let_def ls telegramTextMax_def) blast
qed

end
