(* ===== verification/Retention.thy ===== *)
theory Retention
  imports Incidents Outbox
begin

text \<open>
  What is kept of the past (\<open>internal/store/retention.go\<close>, \<open>sizecap.go\<close>): heartbeats folded into hourly buckets, the
  windows of a maintenance pass and the limit on the size of the database; and the uptime read off both
  (\<open>internal/store/monitors.go\<close>). Bytes in use and the float estimate of where to cut are inputs, and so is the page
  cache: handing free pages back is not modelled. A pass in which a database call fails is not modelled.
\<close>

section \<open>Hourly buckets\<close>

text \<open>The key is the monitor and the Unix time of the start of the hour.\<close>

record hour =
  ho_MonitorID :: int
  ho_Bucket :: int
  ho_Up :: int
  ho_Down :: int
  ho_AssessedUp :: int
  ho_AssessedDown :: int
  ho_Warning :: int
  ho_Maintenance :: int
  ho_LatencyMin :: "int option"
  ho_LatencyMax :: "int option"
  ho_LatencyAvg :: "int option"
  ho_LatencyCount :: int

record archive =
  ar_db :: database
  ar_hours :: "hour list"

definition DefaultRawRetention :: duration where
  "DefaultRawRetention = hours (30 * 24)"

definition DeliveryLogRetention :: duration where
  "DeliveryLogRetention = hours (30 * 24)"

definition MinRawRetention :: duration where
  "MinRawRetention = hours 24"

definition bucketSize :: duration where
  "bucketSize = hours 1"

record retentionPolicy =
  rp_Raw :: duration
  rp_Rollup :: duration
  rp_MaxBytes :: int

text \<open>\<open>time.Truncate(bucketSize)\<close>\<close>

definition to_hour :: "instant \<Rightarrow> instant" where
  "to_hour t = t div bucketSize * bucketSize"

definition bucket_of :: "heartbeat \<Rightarrow> int" where
  "bucket_of h = (let ts = Unix (hb_TS h) in ts - ts smod 3600)"

text \<open>The latency column is NULL for 0.\<close>

definition latency_of :: "heartbeat \<Rightarrow> int option" where
  "latency_of h = (if hb_LatencyMS h = 0 then None else Some (hb_LatencyMS h))"

text \<open>An SQL condition as a number, and the aggregates of a group, which has at least one row.\<close>

definition tally :: "('a \<Rightarrow> bool) \<Rightarrow> 'a list \<Rightarrow> int" where
  "tally P xs = int (length (filter P xs))"

definition sql_min :: "int list \<Rightarrow> int option" where
  "sql_min xs = (case xs of [] \<Rightarrow> None | x # ys \<Rightarrow> Some (foldl min x ys))"

definition sql_max :: "int list \<Rightarrow> int option" where
  "sql_max xs = (case xs of [] \<Rightarrow> None | x # ys \<Rightarrow> Some (foldl max x ys))"

definition sql_avg :: "int list \<Rightarrow> int option" where
  "sql_avg xs = (if xs = [] then None else Some (sum_list xs sdiv int (length xs)))"

definition summarise_hour :: "int \<times> int \<Rightarrow> heartbeat list \<Rightarrow> hour" where
  "summarise_hour key hs =
     (let lat = List.map_filter latency_of hs in
      \<lparr>ho_MonitorID = fst key, ho_Bucket = snd key,
       ho_Up = tally hb_OK hs, ho_Down = tally (\<lambda>h. \<not> hb_OK h) hs,
       ho_AssessedUp = tally (\<lambda>h. \<not> hb_Maintenance h \<and> hb_Assessment h = ''up'') hs,
       ho_AssessedDown = tally (\<lambda>h. \<not> hb_Maintenance h \<and> hb_Assessment h = ''down'') hs,
       ho_Warning = tally (\<lambda>h. \<not> hb_Maintenance h \<and> hb_Assessment h = ''warning'') hs,
       ho_Maintenance = tally hb_Maintenance hs,
       ho_LatencyMin = sql_min lat, ho_LatencyMax = sql_max lat, ho_LatencyAvg = sql_avg lat,
       ho_LatencyCount = int (length lat)\<rparr>)"

text \<open>\<open>min(coalesce(a, b), coalesce(b, a))\<close>, and the average of the conflict clause.\<close>

definition either_by :: "(int \<Rightarrow> int \<Rightarrow> int) \<Rightarrow> int option \<Rightarrow> int option \<Rightarrow> int option" where
  "either_by f a b = (case (a, b) of (None, _) \<Rightarrow> b | (_, None) \<Rightarrow> a | (Some x, Some y) \<Rightarrow> Some (f x y))"

definition or_zero :: "int option \<Rightarrow> int" where
  "or_zero a = (case a of None \<Rightarrow> 0 | Some x \<Rightarrow> x)"

definition merge_hour :: "hour \<Rightarrow> hour \<Rightarrow> hour" where
  "merge_hour old new =
     old\<lparr>ho_Up := ho_Up old + ho_Up new, ho_Down := ho_Down old + ho_Down new,
       ho_AssessedUp := ho_AssessedUp old + ho_AssessedUp new, ho_AssessedDown := ho_AssessedDown old + ho_AssessedDown new,
       ho_Warning := ho_Warning old + ho_Warning new, ho_Maintenance := ho_Maintenance old + ho_Maintenance new,
       ho_LatencyMin := either_by min (ho_LatencyMin old) (ho_LatencyMin new),
       ho_LatencyMax := either_by max (ho_LatencyMax old) (ho_LatencyMax new),
       ho_LatencyAvg := (if ho_LatencyCount old + ho_LatencyCount new = 0 then None
         else Some ((or_zero (ho_LatencyAvg old) * ho_LatencyCount old + or_zero (ho_LatencyAvg new) * ho_LatencyCount new)
                    sdiv (ho_LatencyCount old + ho_LatencyCount new))),
       ho_LatencyCount := ho_LatencyCount old + ho_LatencyCount new\<rparr>"

definition hour_key :: "hour \<Rightarrow> int \<times> int" where
  "hour_key h = (ho_MonitorID h, ho_Bucket h)"

definition beat_key :: "heartbeat \<Rightarrow> int \<times> int" where
  "beat_key h = (hb_MonitorID h, bucket_of h)"

definition upsert_hour :: "hour \<Rightarrow> hour list \<Rightarrow> hour list" where
  "upsert_hour n hs =
     (if list_ex (\<lambda>h. hour_key h = hour_key n) hs then map (\<lambda>h. if hour_key h = hour_key n then merge_hour h n else h) hs
      else hs @ [n])"

definition rolled :: "instant \<Rightarrow> heartbeat \<Rightarrow> bool" where
  "rolled cutoff h \<longleftrightarrow> Unix (hb_TS h) < Unix cutoff"

definition rollupBefore :: "instant \<Rightarrow> archive \<Rightarrow> int \<times> archive" where
  "rollupBefore cutoff s =
     (let old = filter (rolled cutoff) (db_heartbeats (ar_db s)); keys = remdups (map beat_key old) in
      (int (length old),
       s\<lparr>ar_db := (ar_db s)\<lparr>db_heartbeats := filter (\<lambda>h. \<not> rolled cutoff h) (db_heartbeats (ar_db s))\<rparr>,
         ar_hours := fold (\<lambda>k. upsert_hour (summarise_hour k (filter (\<lambda>h. beat_key h = k) old))) keys (ar_hours s)\<rparr>))"

definition rollupAt :: "instant \<Rightarrow> duration \<Rightarrow> archive \<Rightarrow> int \<times> archive" where
  "rollupAt now retention s =
     rollupBefore (to_hour (now - (if retention \<le> 0 then DefaultRawRetention else retention))) s"

section \<open>Uptime\<close>

record uptimeStats =
  us_Maintenance :: int
  us_Warning :: int
  us_Legacy :: int
  us_Total :: int
  us_Up :: int
  us_Down :: int
  us_AvgLatency :: int

text \<open>\<open>Uptime\<close> at an instant; the percentage is \<open>Up\<close> of \<open>Total\<close>.\<close>

definition Uptime :: "instant \<Rightarrow> int \<Rightarrow> duration \<Rightarrow> archive \<Rightarrow> uptimeStats" where
  "Uptime now m window s =
     (let since = Unix (now - window);
          raw = filter (\<lambda>h. hb_MonitorID h = m \<and> since \<le> Unix (hb_TS h)) (db_heartbeats (ar_db s));
          agg = filter (\<lambda>h. ho_MonitorID h = m \<and> since \<le> ho_Bucket h) (ar_hours s);
          rawTotal = tally (\<lambda>h. \<not> hb_Maintenance h \<and> hb_Assessment h \<in> {''up'', ''down''}) raw;
          rawUp = tally (\<lambda>h. \<not> hb_Maintenance h \<and> hb_Assessment h = ''up'') raw;
          up = rawUp + sum_list (map ho_AssessedUp agg);
          down = rawTotal - rawUp + sum_list (map ho_AssessedDown agg);
          lat = List.map_filter latency_of raw;
          latSum = sum_list lat + sum_list (map (\<lambda>h. or_zero (ho_LatencyAvg h) * ho_LatencyCount h) agg);
          latN = int (length lat) + sum_list (map ho_LatencyCount agg)
      in \<lparr>us_Maintenance = tally hb_Maintenance raw + sum_list (map ho_Maintenance agg),
          us_Warning = tally (\<lambda>h. \<not> hb_Maintenance h \<and> hb_Assessment h = ''warning'') raw + sum_list (map ho_Warning agg),
          us_Legacy = tally (\<lambda>h. \<not> hb_Maintenance h \<and> hb_Assessment h = []) raw +
            sum_list (map (\<lambda>h. ho_Up h + ho_Down h - ho_AssessedUp h - ho_AssessedDown h - ho_Warning h - ho_Maintenance h) agg),
          us_Total = up + down, us_Up = up, us_Down = down,
          us_AvgLatency = (if 0 < latN then latSum sdiv latN else 0)\<rparr>)"

section \<open>A maintenance pass\<close>

definition drop_hours :: "instant \<Rightarrow> archive \<Rightarrow> int \<times> archive" where
  "drop_hours cutoff s =
     (let old = (\<lambda>h. ho_Bucket h < Unix cutoff) in
      (tally old (ar_hours s), s\<lparr>ar_hours := filter (\<lambda>h. \<not> old h) (ar_hours s)\<rparr>))"

text \<open>The incidents that go, with the rows that refer to them; a delivery loses its reference.\<close>

definition resolved_before :: "instant \<Rightarrow> incident \<Rightarrow> bool" where
  "resolved_before cutoff x \<longleftrightarrow> (case i_ResolvedAt x of None \<Rightarrow> False | Some t \<Rightarrow> Unix t < Unix cutoff)"

definition drop_incidents :: "instant \<Rightarrow> database \<Rightarrow> int \<times> database" where
  "drop_incidents cutoff s =
     (let ids = i_ID ` set (filter (resolved_before cutoff) (db_incidents s)) in
      (tally (resolved_before cutoff) (db_incidents s),
       s\<lparr>db_incidents := filter (\<lambda>x. \<not> resolved_before cutoff x) (db_incidents s),
         db_maintAlerts := filter (\<lambda>x. fst (fst x) \<notin> ids) (db_maintAlerts s),
         db_rows := map (\<lambda>r. if d_IncidentID r \<in> ids then r\<lparr>d_IncidentID := 0\<rparr> else r) (db_rows s)\<rparr>))"

text \<open>
  One cut per round while the data is over the limit: \<open>used\<close> is read after every cut, and \<open>place\<close> is the float
  estimate: None for everything, Some for how far past the oldest row.
\<close>

record capState =
  cs_archive :: archive
  cs_after :: int
  cs_removed :: int
  cs_since :: instant
  cs_atFloor :: bool

type_synonym estimate = "nat \<Rightarrow> int \<Rightarrow> int \<Rightarrow> duration option"

fun cap_rounds ::
  "int \<Rightarrow> instant \<Rightarrow> (archive \<Rightarrow> int list) \<Rightarrow> (instant \<Rightarrow> archive \<Rightarrow> int \<times> archive) \<Rightarrow> estimate \<Rightarrow> (archive \<Rightarrow> int)
     \<Rightarrow> nat \<Rightarrow> capState \<Rightarrow> capState" where
  "cap_rounds limit fl below chop place used 0 c = c"
| "cap_rounds limit fl below chop place used (Suc n) c =
     (if cs_after c - limit \<le> 0 then c
      else case sql_min (below (cs_archive c)) of
        None \<Rightarrow> c\<lparr>cs_atFloor := True\<rparr>
      | Some oldest \<Rightarrow>
          (let cutoff = (case place n oldest (cs_after c - limit) of
                 None \<Rightarrow> fl
               | Some step \<Rightarrow> min fl (to_hour (of_Unix oldest + step) + bucketSize));
               (k, s) = chop cutoff (cs_archive c)
           in cap_rounds limit fl below chop place used n
                \<lparr>cs_archive = s, cs_after = used s, cs_removed = cs_removed c + k, cs_since = cutoff, cs_atFloor = (cutoff = fl)\<rparr>))"

definition sizeCapRounds :: nat where
  "sizeCapRounds = 12"

definition capTable ::
  "int \<Rightarrow> instant \<Rightarrow> (archive \<Rightarrow> int list) \<Rightarrow> (instant \<Rightarrow> archive \<Rightarrow> int \<times> archive) \<Rightarrow> estimate \<Rightarrow> (archive \<Rightarrow> int) \<Rightarrow> archive \<Rightarrow> int
     \<Rightarrow> capState" where
  "capTable limit fl below chop place used s after =
     (let c = cap_rounds limit fl below chop place used sizeCapRounds
                \<lparr>cs_archive = s, cs_after = after, cs_removed = 0, cs_since = 0, cs_atFloor = False\<rparr>
      in if \<not> cs_atFloor c \<and> limit < cs_after c then c\<lparr>cs_atFloor := (below (cs_archive c) = [])\<rparr> else c)"

definition beats_below :: "instant \<Rightarrow> archive \<Rightarrow> int list" where
  "beats_below fl s = filter (\<lambda>t. t < Unix fl) (map (\<lambda>h. Unix (hb_TS h)) (db_heartbeats (ar_db s)))"

definition hours_below :: "instant \<Rightarrow> archive \<Rightarrow> int list" where
  "hours_below fl s = filter (\<lambda>t. t < Unix fl) (map ho_Bucket (ar_hours s))"

record sizeCapResult =
  sr_Before :: int
  sr_After :: int
  sr_Heartbeats :: int
  sr_HourlyBuckets :: int
  sr_RawSince :: instant
  sr_HourlySince :: instant
  sr_AtFloor :: bool

definition Intervened :: "sizeCapResult \<Rightarrow> bool" where
  "Intervened r \<longleftrightarrow> 0 < sr_Heartbeats r \<or> 0 < sr_HourlyBuckets r"

definition enforceSizeCapAt :: "estimate \<Rightarrow> estimate \<Rightarrow> (archive \<Rightarrow> int) \<Rightarrow> instant \<Rightarrow> int \<Rightarrow> archive \<Rightarrow> sizeCapResult \<times> archive" where
  "enforceSizeCapAt placeRaw placeHourly used now limit s =
     (let res = \<lparr>sr_Before = used s, sr_After = used s, sr_Heartbeats = 0, sr_HourlyBuckets = 0, sr_RawSince = 0,
                 sr_HourlySince = 0, sr_AtFloor = False\<rparr> in
      if used s \<le> limit then (res, s)
      else
        let fl = to_hour (now - MinRawRetention);
            raw = capTable limit fl (beats_below fl) rollupBefore placeRaw used s (used s);
            res = res\<lparr>sr_Heartbeats := cs_removed raw, sr_RawSince := cs_since raw, sr_After := cs_after raw\<rparr>
        in if cs_after raw \<le> limit \<or> \<not> cs_atFloor raw then (res, cs_archive raw)
           else
             let hourly = capTable limit fl (hours_below fl) drop_hours placeHourly used (cs_archive raw) (cs_after raw)
             in (res\<lparr>sr_HourlyBuckets := cs_removed hourly, sr_HourlySince := cs_since hourly, sr_After := cs_after hourly,
                     sr_AtFloor := (limit < cs_after hourly \<and> cs_atFloor hourly)\<rparr>, cs_archive hourly))"

record retentionResult =
  rr_Heartbeats :: int
  rr_HourlyBuckets :: int
  rr_Incidents :: int
  rr_Deliveries :: int
  rr_SizeCap :: "sizeCapResult option"

text \<open>The two windows, the delivery log, and then the limit.\<close>

definition apply_windows :: "instant \<Rightarrow> retentionPolicy \<Rightarrow> archive \<Rightarrow> retentionResult \<times> archive" where
  "apply_windows now p s =
     (let (beats, s1) = (if 0 < rp_Raw p then rollupAt now (rp_Raw p) s else (0, s));
          cutoff = to_hour (now - rp_Rollup p);
          (hs, s2) = (if 0 < rp_Rollup p then drop_hours cutoff s1 else (0, s1));
          (incs, d) = (if 0 < rp_Rollup p then drop_incidents cutoff (ar_db s2) else (0, ar_db s2));
          d' = PruneDeliveries (now - DeliveryLogRetention) d
      in (\<lparr>rr_Heartbeats = beats, rr_HourlyBuckets = hs, rr_Incidents = incs,
           rr_Deliveries = int (length (db_rows d)) - int (length (db_rows d')), rr_SizeCap = None\<rparr>, s2\<lparr>ar_db := d'\<rparr>))"

definition applyRetentionAt ::
  "estimate \<Rightarrow> estimate \<Rightarrow> (archive \<Rightarrow> int) \<Rightarrow> instant \<Rightarrow> retentionPolicy \<Rightarrow> archive \<Rightarrow> retentionResult \<times> archive" where
  "applyRetentionAt placeRaw placeHourly used now p s =
     (let (res, s1) = apply_windows now p s in
      if 0 < rp_MaxBytes p
      then let (cap, s2) = enforceSizeCapAt placeRaw placeHourly used now (rp_MaxBytes p) s1 in (res\<lparr>rr_SizeCap := Some cap\<rparr>, s2)
      else (res, s1))"

text \<open>What a pass under a policy would remove, counted without removing it.\<close>

record retentionImpact =
  ri_Heartbeats :: int
  ri_HourlyBuckets :: int
  ri_Incidents :: int

definition previewRetentionAt :: "instant \<Rightarrow> retentionPolicy \<Rightarrow> archive \<Rightarrow> retentionImpact" where
  "previewRetentionAt now p s =
     (let raw = to_hour (now - rp_Raw p); cutoff = to_hour (now - rp_Rollup p) in
      \<lparr>ri_Heartbeats = (if 0 < rp_Raw p then tally (rolled raw) (db_heartbeats (ar_db s)) else 0),
       ri_HourlyBuckets = (if 0 < rp_Rollup p then tally (\<lambda>h. ho_Bucket h < Unix cutoff) (ar_hours s) else 0),
       ri_Incidents = (if 0 < rp_Rollup p then tally (resolved_before cutoff) (db_incidents (ar_db s)) else 0)\<rparr>)"

end
