(* ===== verification/RetentionProps.thy ===== *)
theory RetentionProps
  imports Retention
begin

text \<open>
  What folding heartbeats into hours keeps: every count, so the uptime of a window that starts on the hour, but not
  the average latency. And what the size limit spares.
\<close>

section \<open>Counts\<close>

lemma tally_Cons [simp]: "tally P (x # xs) = of_bool (P x) + tally P xs"
  by (simp add: tally_def)

lemma tally_Nil [simp]: "tally P [] = 0"
  by (simp add: tally_def)

lemma tally_append [simp]: "tally P (xs @ ys) = tally P xs + tally P ys"
  by (simp add: tally_def)

lemma tally_filter: "tally P (filter Q xs) = tally (\<lambda>x. P x \<and> Q x) xs"
  by (induction xs) auto

lemma tally_split: "tally P xs = tally (\<lambda>x. P x \<and> Q x) xs + tally (\<lambda>x. P x \<and> \<not> Q x) xs"
  by (induction xs) auto

lemma tally_cong: "(\<And>x. x \<in> set xs \<Longrightarrow> P x = Q x) \<Longrightarrow> tally P xs = tally Q xs"
  by (induction xs) auto

lemma tally_by_key:
  assumes "finite K" "f ` set xs \<subseteq> K"
  shows "(\<Sum>k\<in>K. if Q k then tally P (filter (\<lambda>x. f x = k) xs) else 0) = tally (\<lambda>x. P x \<and> Q (f x)) xs"
  using assms(2)
proof (induction xs)
  case (Cons x xs)
  have "(\<Sum>k\<in>K. if Q k then tally P (filter (\<lambda>x. f x = k) (x # xs)) else 0) =
      (\<Sum>k\<in>K. (if k = f x then of_bool (P x \<and> Q (f x)) else 0) + (if Q k then tally P (filter (\<lambda>x. f x = k) xs) else 0))"
    by (rule sum.cong) auto
  also have "\<dots> = of_bool (P x \<and> Q (f x)) + tally (\<lambda>x. P x \<and> Q (f x)) xs"
    using Cons assms(1) by (simp add: sum.distrib)
  finally show ?case by simp
qed (simp cong: if_cong)

text \<open>A column that merging adds up, summed over the hours a query reads.\<close>

definition column :: "(hour \<Rightarrow> int) \<Rightarrow> (int \<times> int \<Rightarrow> bool) \<Rightarrow> hour list \<Rightarrow> int" where
  "column f Q hs = sum_list (map f (filter (\<lambda>h. Q (hour_key h)) hs))"

definition additive :: "(hour \<Rightarrow> int) \<Rightarrow> bool" where
  "additive f \<longleftrightarrow> (\<forall>a b. f (merge_hour a b) = f a + f b)"

lemma merge_key [simp]: "hour_key (merge_hour a b) = hour_key a"
  by (simp add: merge_hour_def hour_key_def)

lemma has_key: "list_ex (\<lambda>h. hour_key h = k) hs \<longleftrightarrow> k \<in> hour_key ` set hs"
  by (induction hs) auto

lemma upsert_keys: "map hour_key (upsert_hour n hs) = (if hour_key n \<in> hour_key ` set hs then map hour_key hs else map hour_key hs @ [hour_key n])"
  by (auto simp: upsert_hour_def has_key)

lemma upsert_distinct: "distinct (map hour_key hs) \<Longrightarrow> distinct (map hour_key (upsert_hour n hs))"
  by (simp add: upsert_keys)

lemma column_none: "hour_key n \<notin> hour_key ` set hs \<Longrightarrow> map (\<lambda>h. if hour_key h = hour_key n then merge_hour h n else h) hs = hs"
  by (rule map_idI) (metis imageI)

lemma column_upsert:
  assumes f: "additive f" and d: "distinct (map hour_key hs)"
  shows "column f Q (upsert_hour n hs) = column f Q hs + (if Q (hour_key n) then f n else 0)"
proof (cases "hour_key n \<in> hour_key ` set hs")
  case True
  have "column f Q (map (\<lambda>h. if hour_key h = hour_key n then merge_hour h n else h) hs) =
      column f Q hs + (if Q (hour_key n) then f n else 0)" using True d
  proof (induction hs)
    case (Cons h hs)
    show ?case
    proof (cases "hour_key h = hour_key n")
      case True
      then have "hour_key n \<notin> hour_key ` set hs" using Cons.prems(2) by simp
      then show ?thesis using True f by (simp add: column_none) (auto simp: column_def additive_def)
    next
      case False
      then show ?thesis using Cons by (auto simp: column_def)
    qed
  qed simp
  then show ?thesis using True by (auto simp: upsert_hour_def has_key)
next
  case False
  then have "upsert_hour n hs = hs @ [n]" by (auto simp: upsert_hour_def has_key)
  then show ?thesis by (simp add: column_def)
qed

lemma column_fold:
  assumes f: "additive f" and d: "distinct (map hour_key hs)" and n: "\<And>k. hour_key (new k) = k"
  shows "column f Q (fold (\<lambda>k. upsert_hour (new k)) ks hs) = column f Q hs + sum_list (map (\<lambda>k. if Q k then f (new k) else 0) ks)"
  using d
proof (induction ks arbitrary: hs)
  case (Cons k ks)
  then show ?case using column_upsert [OF f Cons.prems, of Q "new k"] upsert_distinct [OF Cons.prems, of "new k"] n by simp
qed simp

lemma summarise_key [simp]: "hour_key (summarise_hour k hs) = k"
  by (simp add: summarise_hour_def hour_key_def Let_def)

text \<open>What a column gains from a rollup is what the heartbeats folded in count.\<close>

lemma rollup_column:
  assumes "additive f" "distinct (map hour_key (ar_hours s))" "\<And>k hs. set hs \<subseteq> set (db_heartbeats (ar_db s)) \<Longrightarrow> f (summarise_hour k hs) = tally P hs"
  shows "column f Q (ar_hours (snd (rollupBefore cutoff s))) =
    column f Q (ar_hours s) + tally (\<lambda>h. P h \<and> rolled cutoff h \<and> Q (beat_key h)) (db_heartbeats (ar_db s))"
proof -
  define old where "old = filter (rolled cutoff) (db_heartbeats (ar_db s))"
  have f: "f (summarise_hour k (filter (\<lambda>h. beat_key h = k) old)) = tally P (filter (\<lambda>h. beat_key h = k) old)" for k
    by (rule assms(3)) (auto simp: old_def)
  have "column f Q (ar_hours (snd (rollupBefore cutoff s))) = column f Q (ar_hours s) +
      sum_list (map (\<lambda>k. if Q k then tally P (filter (\<lambda>h. beat_key h = k) old) else 0) (remdups (map beat_key old)))"
    unfolding rollupBefore_def Let_def old_def [symmetric]
    using column_fold [OF assms(1,2), of "\<lambda>k. summarise_hour k (filter (\<lambda>h. beat_key h = k) old)" Q]
    by (simp add: f cong: if_cong)
  also have "sum_list (map (\<lambda>k. if Q k then tally P (filter (\<lambda>h. beat_key h = k) old) else 0) (remdups (map beat_key old))) =
      (\<Sum>k\<in>beat_key ` set old. if Q k then tally P (filter (\<lambda>h. beat_key h = k) old) else 0)"
    by (subst sum_list_distinct_conv_sum_set) simp_all
  also have "\<dots> = tally (\<lambda>h. P h \<and> Q (beat_key h)) old" by (rule tally_by_key) simp_all
  also have "\<dots> = tally (\<lambda>h. P h \<and> rolled cutoff h \<and> Q (beat_key h)) (db_heartbeats (ar_db s))"
    unfolding old_def tally_filter by (rule tally_cong) blast
  finally show ?thesis .
qed

section \<open>The uptime\<close>

definition archive_ok :: "archive \<Rightarrow> bool" where
  "archive_ok s \<longleftrightarrow> distinct (map hour_key (ar_hours s)) \<and>
     (\<forall>h \<in> set (db_heartbeats (ar_db s)). 0 \<le> Unix (hb_TS h) \<and> hb_Assessment h \<in> {[], ''up'', ''warning'', ''down''})"

text \<open>The folded heartbeats a window no longer sees: those of the hour in which it starts.\<close>

definition straddles :: "instant \<Rightarrow> instant \<Rightarrow> heartbeat \<Rightarrow> bool" where
  "straddles cutoff since h \<longleftrightarrow> rolled cutoff h \<and> bucket_of h < Unix since"

definition without :: "(heartbeat \<Rightarrow> bool) \<Rightarrow> archive \<Rightarrow> archive" where
  "without P s = s\<lparr>ar_db := (ar_db s)\<lparr>db_heartbeats := filter (\<lambda>h. \<not> P h) (db_heartbeats (ar_db s))\<rparr>\<rparr>"

definition in_hours :: "int \<Rightarrow> int \<Rightarrow> int \<times> int \<Rightarrow> bool" where
  "in_hours m since k \<longleftrightarrow> fst k = m \<and> since \<le> snd k"

lemma bucket_below: "0 \<le> Unix (hb_TS h) \<Longrightarrow> bucket_of h \<le> Unix (hb_TS h)"
  by (simp add: bucket_of_def Let_def smod_int_alt_def sgn_if)

lemma window_counts:
  assumes ok: "archive_ok s" and f: "additive f"
    and sum: "\<And>k hs. set hs \<subseteq> set (db_heartbeats (ar_db s)) \<Longrightarrow> f (summarise_hour k hs) = tally P hs"
  shows "tally P (filter (\<lambda>h. hb_MonitorID h = m \<and> Unix since \<le> Unix (hb_TS h)) (db_heartbeats (ar_db (snd (rollupBefore cutoff s))))) +
      column f (in_hours m (Unix since)) (ar_hours (snd (rollupBefore cutoff s))) =
    tally P (filter (\<lambda>h. hb_MonitorID h = m \<and> Unix since \<le> Unix (hb_TS h)) (db_heartbeats (ar_db (without (straddles cutoff since) s)))) +
      column f (in_hours m (Unix since)) (ar_hours s)"
proof -
  let ?beats = "db_heartbeats (ar_db s)" and ?in = "\<lambda>h. hb_MonitorID h = m \<and> Unix since \<le> Unix (hb_TS h)"
  let ?kept = "\<lambda>h. P h \<and> ?in h \<and> \<not> straddles cutoff since h"
  have "column f (in_hours m (Unix since)) (ar_hours (snd (rollupBefore cutoff s))) =
      column f (in_hours m (Unix since)) (ar_hours s) + tally (\<lambda>h. P h \<and> rolled cutoff h \<and> in_hours m (Unix since) (beat_key h)) ?beats"
    by (rule rollup_column [OF f _ sum]) (use ok in \<open>simp_all add: archive_ok_def\<close>)
  moreover have "tally (\<lambda>h. P h \<and> rolled cutoff h \<and> in_hours m (Unix since) (beat_key h)) ?beats =
      tally (\<lambda>h. ?kept h \<and> rolled cutoff h) ?beats"
  proof (rule tally_cong)
    fix h assume "h \<in> set ?beats"
    then have "bucket_of h \<le> Unix (hb_TS h)" using ok by (intro bucket_below) (simp add: archive_ok_def)
    then show "(P h \<and> rolled cutoff h \<and> in_hours m (Unix since) (beat_key h)) = (?kept h \<and> rolled cutoff h)"
      by (auto simp: in_hours_def beat_key_def straddles_def)
  qed
  moreover have "tally P (filter ?in (db_heartbeats (ar_db (snd (rollupBefore cutoff s))))) = tally (\<lambda>h. ?kept h \<and> \<not> rolled cutoff h) ?beats"
    unfolding rollupBefore_def Let_def by (simp add: tally_filter, rule tally_cong) (auto simp: straddles_def)
  moreover have "tally P (filter ?in (db_heartbeats (ar_db (without (straddles cutoff since) s)))) = tally ?kept ?beats"
    unfolding without_def by (simp add: tally_filter, rule tally_cong) auto
  moreover have "tally ?kept ?beats = tally (\<lambda>h. ?kept h \<and> rolled cutoff h) ?beats + tally (\<lambda>h. ?kept h \<and> \<not> rolled cutoff h) ?beats"
    by (rule tally_split)
  ultimately show ?thesis by linarith
qed

lemmas column_fields = additive_def merge_hour_def summarise_hour_def Let_def

lemma Uptime_columns: "(Uptime now m window s)\<lparr>us_AvgLatency := 0\<rparr> =
    (let since = now - window;
         n = (\<lambda>P f. tally P (filter (\<lambda>h. hb_MonitorID h = m \<and> Unix since \<le> Unix (hb_TS h)) (db_heartbeats (ar_db s))) +
              column f (in_hours m (Unix since)) (ar_hours s));
         up = n (\<lambda>h. \<not> hb_Maintenance h \<and> hb_Assessment h = ''up'') ho_AssessedUp;
         down = n (\<lambda>h. \<not> hb_Maintenance h \<and> hb_Assessment h = ''down'') ho_AssessedDown
     in \<lparr>us_Maintenance = n hb_Maintenance ho_Maintenance,
         us_Warning = n (\<lambda>h. \<not> hb_Maintenance h \<and> hb_Assessment h = ''warning'') ho_Warning,
         us_Legacy = n (\<lambda>h. \<not> hb_Maintenance h \<and> hb_Assessment h = [])
           (\<lambda>h. ho_Up h + ho_Down h - ho_AssessedUp h - ho_AssessedDown h - ho_Warning h - ho_Maintenance h),
         us_Total = up + down, us_Up = up, us_Down = down, us_AvgLatency = 0\<rparr>)"
proof -
  have "tally (\<lambda>h. \<not> hb_Maintenance h \<and> (hb_Assessment h = ''up'' \<or> hb_Assessment h = ''down'')) hs =
      tally (\<lambda>h. \<not> hb_Maintenance h \<and> hb_Assessment h = ''up'') hs + tally (\<lambda>h. \<not> hb_Maintenance h \<and> hb_Assessment h = ''down'') hs" for hs
    by (induction hs) auto
  note split = this
  show ?thesis by (simp add: Uptime_def Let_def column_def in_hours_def hour_key_def split cong: if_cong)
qed

lemma legacy_count:
  assumes "\<forall>h \<in> set hs. hb_Assessment h \<in> {[], ''up'', ''warning'', ''down''}"
  shows "tally hb_OK hs + tally (\<lambda>h. \<not> hb_OK h) hs - tally (\<lambda>h. \<not> hb_Maintenance h \<and> hb_Assessment h = ''up'') hs -
    tally (\<lambda>h. \<not> hb_Maintenance h \<and> hb_Assessment h = ''down'') hs - tally (\<lambda>h. \<not> hb_Maintenance h \<and> hb_Assessment h = ''warning'') hs -
    tally hb_Maintenance hs = tally (\<lambda>h. \<not> hb_Maintenance h \<and> hb_Assessment h = []) hs"
  using assms by (induction hs) auto

text \<open>
  C19: Folding heartbeats into hours changes no count of the uptime of any window, but for the folded heartbeats of the
  hour in which the window starts, which are left out.
\<close>

theorem rollup_keeps_uptime:
  assumes "archive_ok s"
  shows "(Uptime now m window (snd (rollupBefore cutoff s)))\<lparr>us_AvgLatency := 0\<rparr> =
    (Uptime now m window (without (straddles cutoff (now - window)) s))\<lparr>us_AvgLatency := 0\<rparr>"
proof -
  note w = window_counts [OF assms, of _ _ m "now - window" cutoff]
  have hours: "ar_hours (without (straddles cutoff (now - window)) s) = ar_hours s" by (simp add: without_def)
  have legacy: "tally hb_OK hs + tally (\<lambda>h. \<not> hb_OK h) hs - tally (\<lambda>h. \<not> hb_Maintenance h \<and> hb_Assessment h = ''up'') hs -
    tally (\<lambda>h. \<not> hb_Maintenance h \<and> hb_Assessment h = ''down'') hs - tally (\<lambda>h. \<not> hb_Maintenance h \<and> hb_Assessment h = ''warning'') hs -
    tally hb_Maintenance hs = tally (\<lambda>h. \<not> hb_Maintenance h \<and> hb_Assessment h = []) hs"
    if "set hs \<subseteq> set (db_heartbeats (ar_db s))" for hs by (rule legacy_count) (use assms that in \<open>auto simp: archive_ok_def\<close>)
  show ?thesis unfolding Uptime_columns Let_def hours
    using w [of ho_Maintenance hb_Maintenance]
      w [of ho_Warning "\<lambda>h. \<not> hb_Maintenance h \<and> hb_Assessment h = ''warning''"]
      w [of ho_AssessedUp "\<lambda>h. \<not> hb_Maintenance h \<and> hb_Assessment h = ''up''"]
      w [of ho_AssessedDown "\<lambda>h. \<not> hb_Maintenance h \<and> hb_Assessment h = ''down''"]
      w [of "\<lambda>h. ho_Up h + ho_Down h - ho_AssessedUp h - ho_AssessedDown h - ho_Warning h - ho_Maintenance h" "\<lambda>h. \<not> hb_Maintenance h \<and> hb_Assessment h = []"] legacy
    by (simp add: column_fields)
qed

text \<open>Nothing the window of a day and the raw window still hold is ever folded away, so that day is exact.\<close>

lemma Unix_mono: "a \<le> b \<Longrightarrow> Unix a \<le> Unix b"
  by (simp add: Unix_def zdiv_mono1)

lemma to_hour_below: "to_hour t \<le> t"
proof -
  have "t div bucketSize * bucketSize + t mod bucketSize = t" by simp
  moreover have "0 \<le> t mod bucketSize" by (simp add: bucketSize_def)
  ultimately show ?thesis unfolding to_hour_def by linarith
qed

definition beats_from :: "instant \<Rightarrow> archive \<Rightarrow> heartbeat list" where
  "beats_from t s = filter (\<lambda>h. t \<le> hb_TS h) (db_heartbeats (ar_db s))"

lemma rollup_beats: "db_heartbeats (ar_db (snd (rollupBefore cutoff s))) = filter (\<lambda>h. \<not> rolled cutoff h) (db_heartbeats (ar_db s))"
  by (simp add: rollupBefore_def Let_def)

lemma rollup_spares: "cutoff \<le> t \<Longrightarrow> beats_from t (snd (rollupBefore cutoff s)) = beats_from t s"
  unfolding beats_from_def rollup_beats filter_filter
  by (rule filter_cong) (auto simp: rolled_def not_less intro: Unix_mono)

section \<open>The limit on the size\<close>

lemma beats_below_rollup: "beats_below fl (snd (rollupBefore fl s)) = []"
  by (auto simp: beats_below_def rollup_beats rolled_def filter_empty_conv)

lemma hours_below_drop: "hours_below fl (snd (drop_hours fl s)) = []"
  by (auto simp: hours_below_def drop_hours_def Let_def filter_empty_conv)

lemma sql_min_None: "sql_min xs = None \<longleftrightarrow> xs = []"
  by (cases xs) (simp_all add: sql_min_def)

locale cutting =
  fixes below :: "instant \<Rightarrow> archive \<Rightarrow> int list" and chop :: "instant \<Rightarrow> archive \<Rightarrow> int \<times> archive"
  assumes cut_empties: "below fl (snd (chop fl s)) = []"
begin

text \<open>What every cut up to the floor keeps, cutting into the table keeps.\<close>

lemma rounds_keep:
  assumes "\<And>t s. t \<le> fl \<Longrightarrow> I s \<Longrightarrow> I (snd (chop t s))"
  shows "I (cs_archive c) \<Longrightarrow> I (cs_archive (cap_rounds limit fl (below fl) chop place used n c))"
proof (induction n arbitrary: c)
  case (Suc n)
  then show ?case by (auto simp: Let_def split: option.splits prod.splits intro!: Suc.IH) (metis assms min.cobounded1 order_refl snd_conv)+
qed simp

lemma rounds_floor:
  "(cs_atFloor c \<longrightarrow> below fl (cs_archive c) = []) \<Longrightarrow>
    (let d = cap_rounds limit fl (below fl) chop place used n c in cs_atFloor d \<longrightarrow> below fl (cs_archive d) = [])"
proof (induction n arbitrary: c)
  case (Suc n)
  have "below fl s' = []" if "chop fl (cs_archive c) = (k, s')" for k s' using cut_empties [of fl "cs_archive c"] that by simp
  then show ?case using Suc.prems
    by (auto simp: Let_def sql_min_None split: option.splits prod.splits intro!: Suc.IH [unfolded Let_def, rule_format])
qed simp

lemma table_keep:
  assumes "\<And>t s. t \<le> fl \<Longrightarrow> I s \<Longrightarrow> I (snd (chop t s))" "I s"
  shows "I (cs_archive (capTable limit fl (below fl) chop place used s after))"
  using rounds_keep [of fl I, OF assms(1)] assms(2) by (simp add: capTable_def Let_def)

lemma table_floor:
  "cs_atFloor (capTable limit fl (below fl) chop place used s after) \<Longrightarrow>
    below fl (cs_archive (capTable limit fl (below fl) chop place used s after)) = []"
  using rounds_floor [of "\<lparr>cs_archive = s, cs_after = after, cs_removed = 0, cs_since = 0, cs_atFloor = False\<rparr>" fl limit place used sizeCapRounds]
  by (auto simp: capTable_def Let_def split: if_splits)

end

interpretation beats: cutting beats_below rollupBefore
  by unfold_locales (rule beats_below_rollup)

interpretation summaries: cutting hours_below drop_hours
  by unfold_locales (rule hours_below_drop)

lemma drop_hours_db [simp]: "ar_db (snd (drop_hours t s)) = ar_db s"
  by (simp add: drop_hours_def Let_def)

lemma size_cap_keeps:
  assumes "\<And>t s. t \<le> to_hour (now - MinRawRetention) \<Longrightarrow> I s \<Longrightarrow> I (snd (rollupBefore t s))"
    and "\<And>t s. t \<le> to_hour (now - MinRawRetention) \<Longrightarrow> I s \<Longrightarrow> I (snd (drop_hours t s))" and "I s"
  shows "I (snd (enforceSizeCapAt placeRaw placeHourly used now limit s))"
  unfolding enforceSizeCapAt_def Let_def
  using assms(3) beats.table_keep [of _ I, OF assms(1)] summaries.table_keep [of _ I, OF assms(2)] by simp

lemma size_cap_spares:
  assumes "to_hour (now - MinRawRetention) \<le> t"
  shows "beats_from t (snd (enforceSizeCapAt placeRaw placeHourly used now limit s)) = beats_from t s"
  using size_cap_keeps [of now "\<lambda>x. beats_from t x = beats_from t s"] assms
  by (simp add: rollup_spares) (simp add: beats_from_def)

lemma drop_hours_keep [simp]: "beats_from t (snd (drop_hours u s)) = beats_from t s" "beats_below t (snd (drop_hours u s)) = beats_below t s"
  by (simp_all add: beats_from_def beats_below_def)

text \<open>The checks of a monitor the archive still counts, one by one or by the hour.\<close>

definition checks_of :: "int \<Rightarrow> archive \<Rightarrow> int" where
  "checks_of m s = tally (\<lambda>h. hb_MonitorID h = m) (db_heartbeats (ar_db s)) +
     column (\<lambda>h. ho_Up h + ho_Down h) (\<lambda>k. fst k = m) (ar_hours s)"

definition hours_distinct :: "archive \<Rightarrow> bool" where
  "hours_distinct s \<longleftrightarrow> distinct (map hour_key (ar_hours s))"

lemma tally_ok: "tally hb_OK hs + tally (\<lambda>h. \<not> hb_OK h) hs = tally (\<lambda>_. True) hs"
  by (induction hs) auto

lemma rollup_counts:
  assumes "hours_distinct s"
  shows "checks_of m (snd (rollupBefore cutoff s)) = checks_of m s"
proof -
  have "column (\<lambda>h. ho_Up h + ho_Down h) (\<lambda>k. fst k = m) (ar_hours (snd (rollupBefore cutoff s))) =
      column (\<lambda>h. ho_Up h + ho_Down h) (\<lambda>k. fst k = m) (ar_hours s) +
      tally (\<lambda>h. True \<and> rolled cutoff h \<and> fst (beat_key h) = m) (db_heartbeats (ar_db s))"
    by (rule rollup_column) (use assms in \<open>simp_all add: hours_distinct_def column_fields tally_ok\<close>)
  moreover have "tally (\<lambda>h. hb_MonitorID h = m) (db_heartbeats (ar_db s)) =
      tally (\<lambda>h. hb_MonitorID h = m \<and> rolled cutoff h) (db_heartbeats (ar_db s)) +
      tally (\<lambda>h. hb_MonitorID h = m \<and> \<not> rolled cutoff h) (db_heartbeats (ar_db s))" by (rule tally_split)
  moreover have "(\<lambda>h. rolled cutoff h \<and> hb_MonitorID h = m) = (\<lambda>h. hb_MonitorID h = m \<and> rolled cutoff h)" by auto
  ultimately show ?thesis by (simp add: checks_of_def rollup_beats tally_filter beat_key_def)
qed

lemma upserts_distinct: "distinct (map hour_key hs) \<Longrightarrow> distinct (map hour_key (fold (\<lambda>k. upsert_hour (new k)) ks hs))"
  by (induction ks arbitrary: hs) (simp_all add: upsert_distinct)

lemma rollup_distinct: "hours_distinct s \<Longrightarrow> hours_distinct (snd (rollupBefore cutoff s))"
  by (simp add: hours_distinct_def rollupBefore_def Let_def upserts_distinct)

lemma rollup_tables [simp]: "db_incidents (ar_db (snd (rollupBefore cutoff s))) = db_incidents (ar_db s)"
  "db_rows (ar_db (snd (rollupBefore cutoff s))) = db_rows (ar_db s)"
  by (simp_all add: rollupBefore_def Let_def)

lemma size_cap_order:
  assumes "hours_distinct s"
  shows "(\<forall>m. checks_of m (snd (enforceSizeCapAt placeRaw placeHourly used now limit s)) = checks_of m s) \<or>
    beats_below (to_hour (now - MinRawRetention)) (snd (enforceSizeCapAt placeRaw placeHourly used now limit s)) = []"
proof -
  let ?fl = "to_hour (now - MinRawRetention)"
  let ?raw = "capTable limit ?fl (beats_below ?fl) rollupBefore placeRaw used s (used s)"
  let ?I = "\<lambda>x. hours_distinct x \<and> (\<forall>m. checks_of m x = checks_of m s)"
  have raw: "?I (cs_archive ?raw)" by (rule beats.table_keep [of _ ?I]) (auto simp: rollup_counts rollup_distinct assms)
  have "beats_below ?fl (cs_archive (capTable limit ?fl (hours_below ?fl) drop_hours placeHourly used (cs_archive ?raw) (cs_after ?raw))) = []"
    if "cs_atFloor ?raw"
    by (rule summaries.table_keep [of _ "\<lambda>x. beats_below ?fl x = []"]) (use beats.table_floor [OF that] in simp_all)
  then show ?thesis using raw by (auto simp: enforceSizeCapAt_def Let_def)
qed

text \<open>
  C20: The size limit takes what costs least first: no heartbeat of the last day, no incident and no delivery ever, and
  no check goes uncounted while a heartbeat older than that day is left.
\<close>

theorem size_limit_takes_the_least_first:
  assumes "hours_distinct s"
  shows "let fl = to_hour (now - MinRawRetention); s' = snd (enforceSizeCapAt placeRaw placeHourly used now limit s) in
    beats_from fl s' = beats_from fl s \<and> db_incidents (ar_db s') = db_incidents (ar_db s) \<and> db_rows (ar_db s') = db_rows (ar_db s) \<and>
    ((\<forall>m. checks_of m s' = checks_of m s) \<or> beats_below fl s' = [])"
  unfolding Let_def using size_cap_spares [of now] size_cap_order [OF assms]
    size_cap_keeps [of now "\<lambda>x. db_incidents (ar_db x) = db_incidents (ar_db s) \<and> db_rows (ar_db x) = db_rows (ar_db s)"]
  by simp

text \<open>What a whole pass never removes.\<close>

definition unfinished :: "delivery \<Rightarrow> bool" where
  "unfinished r \<longleftrightarrow> d_Status r = OutboxFailed \<or> d_Status r = OutboxPending \<and> \<not> d_Suppressed r"

definition still_open :: "incident \<Rightarrow> bool" where
  "still_open x \<longleftrightarrow> i_ResolvedAt x = None"

lemma prune_unfinished: "map d_ID (filter unfinished (db_rows (PruneDeliveries t d))) = map d_ID (filter unfinished (db_rows d))"
  unfolding PruneDeliveries_def by (simp, rule arg_cong [of _ _ "map d_ID"], rule filter_cong)
    (auto simp: unfinished_def)

lemma prune_tables [simp]: "db_incidents (PruneDeliveries t d) = db_incidents d" "db_heartbeats (PruneDeliveries t d) = db_heartbeats d"
  by (simp_all add: PruneDeliveries_def)

lemma unlinked_unfinished:
  "map d_ID (filter unfinished (map (\<lambda>r. if P r then r\<lparr>d_IncidentID := 0\<rparr> else r) rs)) = map d_ID (filter unfinished rs)"
  by (induction rs) (auto simp: unfinished_def)

lemma drop_incidents_tables:
  "filter still_open (db_incidents (snd (drop_incidents t d))) = filter still_open (db_incidents d)"
  "map d_ID (filter unfinished (db_rows (snd (drop_incidents t d)))) = map d_ID (filter unfinished (db_rows d))"
  "db_heartbeats (snd (drop_incidents t d)) = db_heartbeats d"
proof -
  show "filter still_open (db_incidents (snd (drop_incidents t d))) = filter still_open (db_incidents d)"
    unfolding drop_incidents_def Let_def by (simp, rule filter_cong) (auto simp: still_open_def resolved_before_def)
qed (simp_all add: drop_incidents_def Let_def unlinked_unfinished)

text \<open>
  A maintenance pass never removes a heartbeat younger than the raw window and a day, an incident that is still
  open, or a message that was not delivered.
\<close>

theorem pass_spares_what_still_matters:
  assumes "to_hour (now - MinRawRetention) \<le> t" "to_hour (now - rp_Raw p) \<le> t"
  shows "let s' = snd (applyRetentionAt placeRaw placeHourly used now p s) in
    beats_from t s' = beats_from t s \<and>
    filter still_open (db_incidents (ar_db s')) = filter still_open (db_incidents (ar_db s)) \<and>
    map d_ID (filter unfinished (db_rows (ar_db s'))) = map d_ID (filter unfinished (db_rows (ar_db s)))"
proof -
  define I where "I x \<longleftrightarrow> beats_from t x = beats_from t s \<and>
    filter still_open (db_incidents (ar_db x)) = filter still_open (db_incidents (ar_db s)) \<and>
    map d_ID (filter unfinished (db_rows (ar_db x))) = map d_ID (filter unfinished (db_rows (ar_db s)))" for x
  have raw: "I (snd (rollupAt now (rp_Raw p) x))" if "I x" "0 < rp_Raw p" for x
    using that assms(2) by (simp add: I_def rollupAt_def rollup_spares)
  have hours: "I (snd (drop_hours c x))" if "I x" for x c
    using that by (simp add: I_def)
  have window: "I (x\<lparr>ar_db := snd (drop_incidents c (ar_db x))\<rparr>)" if "I x" for x c
    using that by (simp add: I_def drop_incidents_tables beats_from_def)
  have log: "I (x\<lparr>ar_db := PruneDeliveries c (ar_db x)\<rparr>)" if "I x" for x c
    using that by (simp add: I_def prune_unfinished beats_from_def)
  have limit: "I (snd (enforceSizeCapAt placeRaw placeHourly used now l x))" if "I x" for x l
    by (rule size_cap_keeps [of now I]) (use that assms(1) in \<open>simp_all add: I_def rollup_spares\<close>)
  have both: "I ((snd (drop_hours c x))\<lparr>ar_db := PruneDeliveries b (snd (drop_incidents c (ar_db x)))\<rparr>)" if "I x" for x b c
    using log [OF window [OF hours [OF that, of c], of c], of b] by simp
  have "I s" by (simp add: I_def)
  then have "I (snd (apply_windows now p s))"
    using raw [of s] log both unfolding apply_windows_def Let_def split_def by (auto split: if_split)
  then have "I (snd (applyRetentionAt placeRaw placeHourly used now p s))"
    unfolding applyRetentionAt_def Let_def by (simp add: split_def limit)
  then show ?thesis by (simp add: I_def)
qed

text \<open>A pass keeps one row per monitor and hour.\<close>

lemma drop_hours_distinct: "hours_distinct s \<Longrightarrow> hours_distinct (snd (drop_hours t s))"
  by (simp add: hours_distinct_def drop_hours_def Let_def distinct_map_filter)

lemma pass_distinct: "hours_distinct s \<Longrightarrow> hours_distinct (snd (applyRetentionAt placeRaw placeHourly used now p s))"
proof -
  have db: "hours_distinct (x\<lparr>ar_db := d\<rparr>)" if "hours_distinct x" for x d using that by (simp add: hours_distinct_def)
  have limit: "hours_distinct (snd (enforceSizeCapAt placeRaw placeHourly used now l x))" if "hours_distinct x" for x l
    by (rule size_cap_keeps [of now hours_distinct]) (simp_all add: that rollup_distinct drop_hours_distinct)
  assume "hours_distinct s"
  then have "hours_distinct (snd (apply_windows now p s))"
    by (simp add: apply_windows_def Let_def split_def db drop_hours_distinct rollupAt_def rollup_distinct)
  then show ?thesis by (simp add: applyRetentionAt_def Let_def split_def limit)
qed

text \<open>
  What a preview counts is what the pass removes, unless heartbeats are older than the window of the summaries: their
  hours are summarised and removed in one pass.
\<close>

lemma preview_counts_the_pass:
  assumes "\<forall>h \<in> set (db_heartbeats (ar_db s)). Unix (to_hour (now - rp_Rollup p)) \<le> bucket_of h"
  shows "let r = fst (apply_windows now p s); v = previewRetentionAt now p s in
    rr_Heartbeats r = ri_Heartbeats v \<and> rr_HourlyBuckets r = ri_HourlyBuckets v \<and> rr_Incidents r = ri_Incidents v"
proof -
  let ?c = "to_hour (now - rp_Rollup p)"
  have n: "fst (rollupBefore c s) = tally (rolled c) (db_heartbeats (ar_db s))" for c by (simp add: rollupBefore_def Let_def tally_def)
  have old: "tally (\<lambda>h. ho_Bucket h < Unix ?c) (upsert_hour x hs) = tally (\<lambda>h. ho_Bucket h < Unix ?c) hs"
    if "Unix ?c \<le> ho_Bucket x" for x hs
  proof -
    have "tally (\<lambda>h. ho_Bucket h < Unix ?c) (map (\<lambda>h. if hour_key h = hour_key x then merge_hour h x else h) hs) =
        tally (\<lambda>h. ho_Bucket h < Unix ?c) hs"
      by (induction hs) (auto simp: merge_hour_def)
    then show ?thesis using that by (simp add: upsert_hour_def)
  qed
  have folds: "tally (\<lambda>h. ho_Bucket h < Unix ?c) (fold (\<lambda>k. upsert_hour (summarise_hour k (f k))) ks hs) = tally (\<lambda>h. ho_Bucket h < Unix ?c) hs"
    if "\<forall>k \<in> set ks. Unix ?c \<le> snd k" for ks hs f
    using that by (induction ks arbitrary: hs) (simp_all add: old summarise_hour_def Let_def)
  have "tally (\<lambda>h. ho_Bucket h < Unix ?c) (ar_hours (snd (rollupBefore c s))) = tally (\<lambda>h. ho_Bucket h < Unix ?c) (ar_hours s)" for c
    unfolding rollupBefore_def Let_def using assms by (simp add: folds beat_key_def)
  then show ?thesis
    by (simp add: apply_windows_def previewRetentionAt_def Let_def split_def rollupAt_def n drop_hours_def drop_incidents_def)
qed

section \<open>A sample archive\<close>

definition beat_at :: "int \<Rightarrow> int \<Rightarrow> string \<Rightarrow> heartbeat" where
  "beat_at sec ms a = \<lparr>hb_MonitorID = 1, hb_TS = of_Unix sec, hb_OK = (a = ''up''), hb_LatencyMS = ms, hb_StatusCode = 200, hb_Error = [],
     hb_Response = None, hb_Assessment = a, hb_FailureKind = [], hb_Maintenance = False, hb_CaptureReason = []\<rparr>"

definition archive_with :: "heartbeat list \<Rightarrow> archive" where
  "archive_with hs = \<lparr>ar_db = \<lparr>db_rows = [], db_nextID = 1, db_held = [], db_nextHeld = 1, db_monitors = {1}, db_channels = {},
     db_incidents = [], db_nextIncident = 1, db_maintAlerts = [], db_failures = Map.empty, db_heartbeats = hs, db_unknown = Map.empty\<rparr>,
     ar_hours = []\<rparr>"

definition three_days :: archive where
  "three_days = archive_with [beat_at 3600 10 ''up'', beat_at 5400 20 ''down'', beat_at 90000 30 ''up'', beat_at 200000 40 ''up'']"

lemmas sample_simps = three_days_def archive_with_def beat_at_def

lemma three_days_ok: "archive_ok three_days" "hours_distinct three_days"
  by (simp_all add: sample_simps archive_ok_def hours_distinct_def)

lemma rollup_keeps_uptime_witness:
  "archive_ok three_days \<and> us_Up (Uptime (of_Unix 200000) 1 (hours 72) (snd (rollupBefore (of_Unix 93600) three_days))) = 3"
proof -
  have "us_Up (Uptime (of_Unix 200000) 1 (hours 72) (without (straddles (of_Unix 93600) (of_Unix 200000 - hours 72)) three_days)) = 3"
    by code_simp
  moreover have "us_Up r = us_Up (r\<lparr>us_AvgLatency := 0\<rparr>)" for r :: uptimeStats by simp
  ultimately show ?thesis using rollup_keeps_uptime [OF three_days_ok(1), of "of_Unix 200000" 1 "hours 72" "of_Unix 93600"] three_days_ok(1)
    by metis
qed

lemma size_limit_takes_the_least_first_witness:
  "hours_distinct three_days \<and>
    beats_from (to_hour (of_Unix 200000 - MinRawRetention))
      (snd (enforceSizeCapAt (\<lambda>_ _ _. None) (\<lambda>_ _ _. None) (\<lambda>_. 2) (of_Unix 200000) 1 three_days)) = [beat_at 200000 40 ''up'']"
proof -
  have "beats_from (to_hour (of_Unix 200000 - MinRawRetention)) three_days = [beat_at 200000 40 ''up'']" by code_simp
  then show ?thesis
    using size_limit_takes_the_least_first [OF three_days_ok(2), of "of_Unix 200000" "\<lambda>_ _ _. None" "\<lambda>_ _ _. None" "\<lambda>_. 2" 1] three_days_ok(2)
    by (simp add: Let_def)
qed

definition sample_policy :: retentionPolicy where
  "sample_policy = \<lparr>rp_Raw = hours 24, rp_Rollup = hours 48, rp_MaxBytes = 1\<rparr>"

lemma pass_spares_what_still_matters_witness:
  "to_hour (of_Unix 200000 - MinRawRetention) \<le> of_Unix 200000 - hours 24 \<and>
    beats_from (of_Unix 200000 - hours 24)
      (snd (applyRetentionAt (\<lambda>_ _ _. None) (\<lambda>_ _ _. None) (\<lambda>_. 2) (of_Unix 200000) sample_policy three_days)) = [beat_at 200000 40 ''up'']"
proof -
  have a: "to_hour (of_Unix 200000 - MinRawRetention) \<le> of_Unix 200000 - hours 24" by code_simp
  have b: "to_hour (of_Unix 200000 - rp_Raw sample_policy) \<le> of_Unix 200000 - hours 24" by code_simp
  have "beats_from (of_Unix 200000 - hours 24) three_days = [beat_at 200000 40 ''up'']" by code_simp
  then show ?thesis
    using pass_spares_what_still_matters [OF a b, of "\<lambda>_ _ _. None" "\<lambda>_ _ _. None" "\<lambda>_. 2" three_days] a by (simp add: Let_def)
qed

text \<open>
  Heartbeats that were kept for longer than the summaries will be: the preview counts them as folded and no summary as
  deleted, and the pass leaves neither.
\<close>

lemma preview_misses_folded_hours:
  "previewRetentionAt (of_Unix 400000) \<lparr>rp_Raw = hours 24, rp_Rollup = hours 24, rp_MaxBytes = 0\<rparr> (archive_with [beat_at 3600 10 ''up'']) =
    \<lparr>ri_Heartbeats = 1, ri_HourlyBuckets = 0, ri_Incidents = 0\<rparr>"
  "case apply_windows (of_Unix 400000) \<lparr>rp_Raw = hours 24, rp_Rollup = hours 24, rp_MaxBytes = 0\<rparr> (archive_with [beat_at 3600 10 ''up'']) of
    (r, s) \<Rightarrow> rr_HourlyBuckets r = 1 \<and> ar_hours s = [] \<and> db_heartbeats (ar_db s) = []"
  by code_simp+

text \<open>
  The average latency of an hour is not kept: heartbeats of 1 and 2 ms folded first and one of 3 ms after them average to
  1, the three of them folded at once to 2.
\<close>

lemma late_heartbeat_shifts_the_average:
  "ho_LatencyAvg (merge_hour (summarise_hour (1, 0) [beat_at 0 1 ''up'', beat_at 1 2 ''up'']) (summarise_hour (1, 0) [beat_at 2 3 ''up''])) = Some 1"
  "ho_LatencyAvg (summarise_hour (1, 0) [beat_at 0 1 ''up'', beat_at 1 2 ''up'', beat_at 2 3 ''up'']) = Some 2"
  by code_simp+

end
