(* ===== verification/RetentionSettings.thy ===== *)
theory RetentionSettings
  imports Retention Text
begin

text \<open>
  The settings of retention (\<open>internal/store/retention_settings.go\<close>, \<open>retention_schedule.go\<close>, \<open>sizecap.go\<close>) and the page
  that edits them (\<open>internal/api/retention.go\<close>, \<open>etag.go\<close>). The table of settings is a map from keys to texts. A call of
  the database that fails, the rows' times and what is measured for the page are not modelled; the texts of errors
  are constructors.
\<close>

section \<open>Entity tags\<close>

definition blank :: "char \<Rightarrow> bool" where
  "blank c \<longleftrightarrow> c = CHR '' '' \<or> c = CHR 0x09"

text \<open>The loop of \<open>parseIfMatch\<close>: None when the value is no list of tags.\<close>

function scan_tags :: "string \<Rightarrow> string list option" where
  "scan_tags rest =
     (let r = dropWhile blank rest; r = (if take 2 r = ''W/'' then drop 2 r else r) in
      if r = [] \<or> hd r \<noteq> CHR 0x22 then None
      else if CHR 0x22 \<notin> set (tl r) then None
      else
        let tag = takeWhile (\<lambda>c. c \<noteq> CHR 0x22) (tl r); q = dropWhile blank (tl (dropWhile (\<lambda>c. c \<noteq> CHR 0x22) (tl r))) in
        if q = [] then Some [tag]
        else if hd q \<noteq> CHR '','' then None
        else map_option (\<lambda>tags. tag # tags) (scan_tags (tl q)))"
  by pat_completeness auto
termination
proof (relation "measure length", simp)
  fix rest r r' tag q :: string
  assume r: "r = dropWhile blank rest" "r' = (if take 2 r = ''W/'' then drop 2 r else r)" "\<not> (r' = [] \<or> hd r' \<noteq> CHR 0x22)"
    and q: "q = dropWhile blank (tl (dropWhile (\<lambda>c. c \<noteq> CHR 0x22) (tl r')))" "q \<noteq> []"
  have "length q \<le> length (tl (dropWhile (\<lambda>c. c \<noteq> CHR 0x22) (tl r')))" unfolding q(1) by (rule length_dropWhile_le)
  also have "\<dots> \<le> length (dropWhile (\<lambda>c. c \<noteq> CHR 0x22) (tl r'))" by simp
  also have "\<dots> \<le> length (tl r')" by (rule length_dropWhile_le)
  also have "\<dots> \<le> length r'" by simp
  also have "\<dots> \<le> length r" by (simp add: r(2))
  also have "\<dots> \<le> length rest" unfolding r(1) by (rule length_dropWhile_le)
  finally show "(tl q, rest) \<in> measure length" using q(2) by (cases q) simp_all
qed

declare scan_tags.simps [simp del]

text \<open>The tags, whether the value is \<open>*\<close>, and whether it is valid.\<close>

definition parseIfMatch :: "string \<Rightarrow> string list \<times> bool \<times> bool" where
  "parseIfMatch value =
     (let rest = dropWhile blank (rev (dropWhile blank (rev value))) in
      if rest = [] then ([], False, False)
      else if rest = ''*'' then ([], True, True)
      else case scan_tags rest of None \<Rightarrow> ([], False, False) | Some tags \<Rightarrow> (tags, False, True))"

definition retentionETag :: "int \<Rightarrow> string" where
  "retentionETag version = ''W/'' @ [CHR 0x22] @ itoa version @ [CHR 0x22]"

definition retentionVersions :: "string list \<Rightarrow> int list" where
  "retentionVersions tags = List.map_filter (\<lambda>tag. case ParseInt tag of
     None \<Rightarrow> None | Some v \<Rightarrow> if v < 0 \<or> itoa v \<noteq> tag then None else Some v) tags"

section \<open>Times of day\<close>

record clockTime =
  ct_Hour :: int
  ct_Minute :: int

definition DefaultRetentionRunAt :: clockTime where
  "DefaultRetentionRunAt = \<lparr>ct_Hour = 3, ct_Minute = 30\<rparr>"

definition ParseClockTime :: "string \<Rightarrow> clockTime option" where
  "ParseClockTime s =
     (let h = takeWhile (\<lambda>c. c \<noteq> CHR '':'') s; m = drop (Suc (length h)) s in
      if CHR '':'' \<notin> set s \<or> length h \<noteq> 2 \<or> length m \<noteq> 2 then None
      else case ParseInt h of
        None \<Rightarrow> None
      | Some hour \<Rightarrow>
          if hour < 0 \<or> 23 < hour then None
          else case ParseInt m of
            None \<Rightarrow> None
          | Some minute \<Rightarrow> if minute < 0 \<or> 59 < minute then None else Some \<lparr>ct_Hour = hour, ct_Minute = minute\<rparr>)"

text \<open>\<open>%02d\<close>\<close>

definition two_digits :: "int \<Rightarrow> string" where
  "two_digits n = (let d = itoa n in if length d < 2 then CHR ''0'' # d else d)"

definition clock_string :: "clockTime \<Rightarrow> string" where
  "clock_string c = two_digits (ct_Hour c) @ '':'' @ two_digits (ct_Minute c)"

section \<open>Policies\<close>

datatype window = RawWindow | RollupWindow

datatype retention_error =
  ErrRetentionVersion | RetentionError window string | BadSetting string | ErrMaxDatabaseSize | BadClockTime

definition ValidatePolicy :: "retentionPolicy \<Rightarrow> retention_error option" where
  "ValidatePolicy p =
     (if rp_Raw p < 0 then Some (RetentionError RawWindow ''raw retention must not be negative'')
      else if 0 < rp_Raw p \<and> rp_Raw p < MinRawRetention then
        Some (RetentionError RawWindow ''raw retention must be at least 1 day, or forever: the 24-hour charts read raw heartbeats'')
      else if rp_Rollup p < 0 then Some (RetentionError RollupWindow ''rollup retention must not be negative'')
      else if 0 < rp_Rollup p \<and> (rp_Raw p = 0 \<or> rp_Rollup p < rp_Raw p) then
        Some (RetentionError RollupWindow ''hourly summaries must be kept at least as long as raw heartbeats'')
      else None)"

text \<open>A value fixed by a flag or variable, and its name.\<close>

record 'a pin =
  pin_Value :: 'a
  pin_By :: string

record retentionPins =
  pins_Raw :: "duration pin option"
  pins_Rollup :: "duration pin option"
  pins_RunAt :: "clockTime pin option"
  pins_MaxSize :: "int pin option"

datatype retention_source = FromDefault | FromDatabase | FromPin

record retentionWindow =
  rw_Value :: duration
  rw_Source :: retention_source
  rw_PinnedBy :: string
  rw_Raised :: "duration option"

definition resolveWindow :: "duration pin option \<Rightarrow> duration option \<Rightarrow> duration \<Rightarrow> retentionWindow" where
  "resolveWindow pin stored dflt =
     (case pin of
        Some p \<Rightarrow> \<lparr>rw_Value = pin_Value p, rw_Source = FromPin, rw_PinnedBy = pin_By p, rw_Raised = None\<rparr>
      | None \<Rightarrow>
          (case stored of
             Some d \<Rightarrow> \<lparr>rw_Value = d, rw_Source = FromDatabase, rw_PinnedBy = [], rw_Raised = None\<rparr>
           | None \<Rightarrow> \<lparr>rw_Value = dflt, rw_Source = FromDefault, rw_PinnedBy = [], rw_Raised = None\<rparr>))"

definition DefaultRollupRetention :: duration where
  "DefaultRollupRetention = 0"

definition raiseRollup :: "duration \<Rightarrow> duration" where
  "raiseRollup raw = (if raw = 0 then 0 else raw)"

definition lift_window :: "duration \<Rightarrow> retentionWindow \<Rightarrow> retentionWindow" where
  "lift_window to w = (if rw_Value w = to then w else w\<lparr>rw_Raised := Some (rw_Value w), rw_Value := to\<rparr>)"

record effectiveRetention =
  er_Raw :: retentionWindow
  er_Rollup :: retentionWindow

definition effective_policy :: "effectiveRetention \<Rightarrow> retentionPolicy" where
  "effective_policy e = \<lparr>rp_Raw = rw_Value (er_Raw e), rp_Rollup = rw_Value (er_Rollup e), rp_MaxBytes = 0\<rparr>"

section \<open>The table of settings\<close>

type_synonym settings = "string \<rightharpoonup> string"

definition settingRawRetention :: string where
  "settingRawRetention = ''retention.raw_seconds''"

definition settingRollupRetention :: string where
  "settingRollupRetention = ''retention.rollup_seconds''"

definition settingRetentionVersion :: string where
  "settingRetentionVersion = ''retention.version''"

definition settingRetentionRunAt :: string where
  "settingRetentionRunAt = ''retention.run_at''"

definition settingMaxDatabaseSize :: string where
  "settingMaxDatabaseSize = ''retention.max_database_bytes''"

definition readCount :: "settings \<Rightarrow> string \<Rightarrow> retention_error + int option" where
  "readCount s key =
     (case s key of
        None \<Rightarrow> Inr None
      | Some v \<Rightarrow>
          (case ParseInt v of
             None \<Rightarrow> Inl (BadSetting key)
           | Some n \<Rightarrow> if n < 0 then Inl (BadSetting key) else Inr (Some n)))"

definition readRetentionSetting :: "settings \<Rightarrow> string \<Rightarrow> retention_error + duration option" where
  "readRetentionSetting s key =
     (case readCount s key of Inl e \<Rightarrow> Inl e | Inr None \<Rightarrow> Inr None | Inr (Some n) \<Rightarrow> Inr (Some (wrap64 (seconds n))))"

definition storedRetention :: "settings \<Rightarrow> retention_error + duration option \<times> duration option" where
  "storedRetention s =
     (case readRetentionSetting s settingRawRetention of
        Inl e \<Rightarrow> Inl e
      | Inr raw \<Rightarrow> (case readRetentionSetting s settingRollupRetention of Inl e \<Rightarrow> Inl e | Inr rollup \<Rightarrow> Inr (raw, rollup)))"

definition RetentionVersion :: "settings \<Rightarrow> retention_error + int" where
  "RetentionVersion s =
     (case readCount s settingRetentionVersion of Inl e \<Rightarrow> Inl e | Inr None \<Rightarrow> Inr 0 | Inr (Some v) \<Rightarrow> Inr v)"

definition ResolveRetention :: "retentionPins \<Rightarrow> settings \<Rightarrow> retention_error + effectiveRetention" where
  "ResolveRetention pins s =
     (case storedRetention s of
        Inl e \<Rightarrow> Inl e
      | Inr (raw, rollup) \<Rightarrow>
          let eff = \<lparr>er_Raw = resolveWindow (pins_Raw pins) raw DefaultRawRetention,
                     er_Rollup = resolveWindow (pins_Rollup pins) rollup DefaultRollupRetention\<rparr> in
          if ValidatePolicy (effective_policy eff) = None then Inr eff
          else
            let eff = (if rw_Source (er_Rollup eff) \<noteq> FromPin then eff\<lparr>er_Rollup := lift_window (raiseRollup (rw_Value (er_Raw eff))) (er_Rollup eff)\<rparr>
                       else if rw_Source (er_Raw eff) \<noteq> FromPin then eff\<lparr>er_Raw := lift_window (rw_Value (er_Rollup eff)) (er_Raw eff)\<rparr>
                       else eff)
            in (case ValidatePolicy (effective_policy eff) of Some e \<Rightarrow> Inl e | None \<Rightarrow> Inr eff))"

definition ResolveRetentionRunAt :: "clockTime pin option \<Rightarrow> settings \<Rightarrow> retention_error + clockTime \<times> retention_source" where
  "ResolveRetentionRunAt pin s =
     (case pin of
        Some p \<Rightarrow> Inr (pin_Value p, FromPin)
      | None \<Rightarrow>
          (case s settingRetentionRunAt of
             None \<Rightarrow> Inr (DefaultRetentionRunAt, FromDefault)
           | Some v \<Rightarrow> (case ParseClockTime v of None \<Rightarrow> Inl BadClockTime | Some c \<Rightarrow> Inr (c, FromDatabase))))"

definition MinMaxDatabaseSize :: int where
  "MinMaxDatabaseSize = 32 * 2 ^ 20"

definition ValidateMaxDatabaseSize :: "int \<Rightarrow> bool" where
  "ValidateMaxDatabaseSize n \<longleftrightarrow> \<not> n < 0 \<and> \<not> (0 < n \<and> n < MinMaxDatabaseSize)"

definition ResolveMaxDatabaseSize :: "int pin option \<Rightarrow> settings \<Rightarrow> retention_error + int \<times> retention_source" where
  "ResolveMaxDatabaseSize pin s =
     (case pin of
        Some p \<Rightarrow> Inr (pin_Value p, FromPin)
      | None \<Rightarrow>
          (case readCount s settingMaxDatabaseSize of
             Inl e \<Rightarrow> Inl e
           | Inr None \<Rightarrow> Inr (0, FromDefault)
           | Inr (Some v) \<Rightarrow> if ValidateMaxDatabaseSize v then Inr (v, FromDatabase) else Inl ErrMaxDatabaseSize))"

section \<open>Saving\<close>

record retentionChange =
  rc_Raw :: "duration option"
  rc_Rollup :: "duration option"
  rc_RunAt :: "clockTime option"
  rc_MaxBytes :: "int option"

definition put_some :: "string \<Rightarrow> string option \<Rightarrow> settings \<Rightarrow> settings" where
  "put_some key v s = (case v of None \<Rightarrow> s | Some x \<Rightarrow> s(key \<mapsto> x))"

definition write_change :: "retentionChange \<Rightarrow> int \<Rightarrow> settings \<Rightarrow> settings" where
  "write_change c version s =
     put_some settingMaxDatabaseSize (map_option itoa (rc_MaxBytes c))
     (put_some settingRetentionRunAt (map_option clock_string (rc_RunAt c))
     (put_some settingRollupRetention (map_option (\<lambda>d. itoa (d sdiv seconds 1)) (rc_Rollup c))
     (put_some settingRawRetention (map_option (\<lambda>d. itoa (d sdiv seconds 1)) (rc_Raw c))
     (s(settingRetentionVersion \<mapsto> itoa version)))))"

definition newer :: "'a option \<Rightarrow> 'a option \<Rightarrow> 'a option" where
  "newer changed stored = (case changed of None \<Rightarrow> stored | Some _ \<Rightarrow> changed)"

definition saveRetention ::
  "retentionChange \<Rightarrow> retentionPins \<Rightarrow> bool \<Rightarrow> int list \<Rightarrow> settings \<Rightarrow> (retention_error + int) \<times> settings" where
  "saveRetention c pins conditional versions s =
     (if (case rc_RunAt c of None \<Rightarrow> False | Some t \<Rightarrow> ParseClockTime (clock_string t) = None) then (Inl BadClockTime, s)
      else if (case rc_MaxBytes c of None \<Rightarrow> False | Some n \<Rightarrow> \<not> ValidateMaxDatabaseSize n) then (Inl ErrMaxDatabaseSize, s)
      else case RetentionVersion s of
        Inl e \<Rightarrow> (Inl e, s)
      | Inr version \<Rightarrow>
          if conditional \<and> version \<notin> set versions then (Inl ErrRetentionVersion, s)
          else case storedRetention s of
            Inl e \<Rightarrow> (Inl e, s)
          | Inr (raw, rollup) \<Rightarrow>
              let next = \<lparr>rp_Raw = rw_Value (resolveWindow (pins_Raw pins) (newer (rc_Raw c) raw) DefaultRawRetention),
                          rp_Rollup = rw_Value (resolveWindow (pins_Rollup pins) (newer (rc_Rollup c) rollup) DefaultRollupRetention),
                          rp_MaxBytes = 0\<rparr>
              in (case ValidatePolicy next of
                    Some e \<Rightarrow> (Inl e, s)
                  | None \<Rightarrow> (Inr (wrap64 (version + 1)), write_change c (wrap64 (version + 1)) s)))"

section \<open>The page\<close>

record retentionRequest =
  rq_RawSeconds :: "int option"
  rq_RollupSeconds :: "int option"
  rq_RunAt :: "string option"
  rq_MaxDatabaseBytes :: "int option"

record retentionAnswer =
  ra_Status :: nat
  ra_ETag :: "string option"

definition maxRetentionSeconds :: int where
  "maxRetentionSeconds = 100 * 365 * 24 * 3600"

text \<open>A field of the request: what it means, or the status that refuses it.\<close>

definition retentionInput :: "int option \<Rightarrow> duration pin option \<Rightarrow> nat + duration option" where
  "retentionInput v pin =
     (case v of
        None \<Rightarrow> Inr None
      | Some n \<Rightarrow> if pin \<noteq> None then Inl 409 else if n < 0 \<or> maxRetentionSeconds < n then Inl 400 else Inr (Some (seconds n)))"

definition runAtInput :: "string option \<Rightarrow> clockTime pin option \<Rightarrow> nat + clockTime option" where
  "runAtInput v pin =
     (case v of
        None \<Rightarrow> Inr None
      | Some t \<Rightarrow> if pin \<noteq> None then Inl 409 else (case ParseClockTime t of None \<Rightarrow> Inl 400 | Some c \<Rightarrow> Inr (Some c)))"

definition maxDatabaseSizeInput :: "int option \<Rightarrow> int pin option \<Rightarrow> nat + int option" where
  "maxDatabaseSizeInput v pin =
     (case v of
        None \<Rightarrow> Inr None
      | Some n \<Rightarrow> if pin \<noteq> None then Inl 409 else if n \<noteq> 0 \<and> n < MinMaxDatabaseSize then Inl 400 else Inr (Some n))"

definition request_change :: "retentionPins \<Rightarrow> retentionRequest \<Rightarrow> nat + retentionChange" where
  "request_change pins q =
     (if rq_RawSeconds q = None \<and> rq_RollupSeconds q = None \<and> rq_RunAt q = None \<and> rq_MaxDatabaseBytes q = None then Inl 400
      else case retentionInput (rq_RawSeconds q) (pins_Raw pins) of Inl e \<Rightarrow> Inl e | Inr raw \<Rightarrow>
        (case retentionInput (rq_RollupSeconds q) (pins_Rollup pins) of Inl e \<Rightarrow> Inl e | Inr rollup \<Rightarrow>
          (case runAtInput (rq_RunAt q) (pins_RunAt pins) of Inl e \<Rightarrow> Inl e | Inr t \<Rightarrow>
            (case maxDatabaseSizeInput (rq_MaxDatabaseBytes q) (pins_MaxSize pins) of Inl e \<Rightarrow> Inl e | Inr n \<Rightarrow>
              Inr \<lparr>rc_Raw = raw, rc_Rollup = rollup, rc_RunAt = t, rc_MaxBytes = n\<rparr>))))"

text \<open>\<open>retentionWindows\<close>: whether the settings can be shown.\<close>

definition windows_readable :: "retentionPins \<Rightarrow> settings \<Rightarrow> bool" where
  "windows_readable pins s \<longleftrightarrow> \<not> isl (ResolveRetention pins s) \<and> \<not> isl (ResolveRetentionRunAt (pins_RunAt pins) s) \<and>
     \<not> isl (ResolveMaxDatabaseSize (pins_MaxSize pins) s)"

definition refused :: "nat \<Rightarrow> retentionAnswer" where
  "refused code = \<lparr>ra_Status = code, ra_ETag = None\<rparr>"

definition handleGetRetention :: "retentionPins \<Rightarrow> settings \<Rightarrow> retentionAnswer" where
  "handleGetRetention pins s =
     (case RetentionVersion s of
        Inl e \<Rightarrow> refused 500
      | Inr version \<Rightarrow> if windows_readable pins s then \<lparr>ra_Status = 200, ra_ETag = Some (retentionETag version)\<rparr> else refused 500)"

text \<open>The header is None when it is absent; the body is a request, or the status its decoding failed with.\<close>

definition handleSetRetention ::
  "retentionPins \<Rightarrow> string option \<Rightarrow> nat + retentionRequest \<Rightarrow> settings \<Rightarrow> retentionAnswer \<times> settings" where
  "handleSetRetention pins ifMatch body s =
     (let (tags, any, valid) = (case ifMatch of None \<Rightarrow> ([], True, True) | Some v \<Rightarrow> parseIfMatch v) in
      if \<not> valid then (refused 400, s)
      else case body of
        Inl code \<Rightarrow> (refused code, s)
      | Inr q \<Rightarrow>
          (case request_change pins q of
             Inl code \<Rightarrow> (refused code, s)
           | Inr c \<Rightarrow>
               (case saveRetention c pins (\<not> any) (retentionVersions tags) s of
                  (Inl ErrRetentionVersion, s') \<Rightarrow> (refused 412, s')
                | (Inl (RetentionError w msg), s') \<Rightarrow> (refused 400, s')
                | (Inl e, s') \<Rightarrow> (refused 500, s')
                | (Inr version, s') \<Rightarrow>
                    (\<lparr>ra_Status = (if windows_readable pins s' then 200 else 204), ra_ETag = Some (retentionETag version)\<rparr>, s'))))"

end
