(* ===== verification/RetentionRuns.thy ===== *)
theory RetentionRuns
  imports RetentionSettings
begin

text \<open>
  Saving the retention settings from several places: a conditional save replaces only what its sender has read, and
  what was saved is what the next pass resolves.
\<close>

section \<open>Numbers in the table\<close>

lemma ParseInt_range: "ParseInt s = Some n \<Longrightarrow> n < 2 ^ 63"
proof -
  have "(2 ^ 63 \<le> m) = (2 ^ 63 \<le> int m)" for m :: nat by (metis of_nat_le_iff of_nat_numeral of_nat_power)
  then show "ParseInt s = Some n \<Longrightarrow> n < 2 ^ 63"
    by (auto simp del: of_nat_le_iff simp: ParseInt_def Let_def not_le [symmetric] split: if_splits)
qed

lemma itoa_minus: "itoa (- int n) = (if n = 0 then digits 0 else ''-'' @ digits n)"
  by (simp add: itoa_def)

lemma readCount_range: "readCount s key = Inr (Some n) \<Longrightarrow> 0 \<le> n \<and> n < 2 ^ 63"
  using ParseInt_range by (fastforce simp: readCount_def split: option.splits if_splits)

lemma version_range: "RetentionVersion s = Inr v \<Longrightarrow> 0 \<le> v \<and> v < 2 ^ 63"
  using readCount_range [of s settingRetentionVersion] by (auto simp: RetentionVersion_def split: sum.splits option.splits)

lemma readCount_written: "s key = Some (itoa n) \<Longrightarrow> 0 \<le> n \<Longrightarrow> n < 2 ^ 63 \<Longrightarrow> readCount s key = Inr (Some n)"
  by (simp add: readCount_def ParseInt_itoa)

lemmas setting_keys = settingRawRetention_def settingRollupRetention_def settingRetentionVersion_def settingRetentionRunAt_def
  settingMaxDatabaseSize_def

lemma written:
  "write_change c v s settingRetentionVersion = Some (itoa v)"
  "write_change c v s settingRawRetention = (case rc_Raw c of None \<Rightarrow> s settingRawRetention | Some d \<Rightarrow> Some (itoa (d sdiv seconds 1)))"
  "write_change c v s settingRollupRetention = (case rc_Rollup c of None \<Rightarrow> s settingRollupRetention | Some d \<Rightarrow> Some (itoa (d sdiv seconds 1)))"
  "write_change c v s settingRetentionRunAt = (case rc_RunAt c of None \<Rightarrow> s settingRetentionRunAt | Some t \<Rightarrow> Some (clock_string t))"
  "write_change c v s settingMaxDatabaseSize = (case rc_MaxBytes c of None \<Rightarrow> s settingMaxDatabaseSize | Some n \<Rightarrow> Some (itoa n))"
  by (simp_all add: write_change_def put_some_def setting_keys split: option.split)

section \<open>Versions\<close>

text \<open>The last version is followed by none: the table then refuses every save.\<close>

lemma last_version: "RetentionVersion (write_change c (wrap64 (2 ^ 63)) s) = Inl (BadSetting settingRetentionVersion)"
proof -
  have "wrap64 (2 ^ 63) = - int (2 ^ 63)" by (simp add: wrap64_def)
  moreover have "ParseInt (itoa (- int (2 ^ 63))) = Some (- int (2 ^ 63))"
    using digits_are_digits [of "2 ^ 63"] by (simp only: itoa_minus ParseInt_def Let_def) simp
  ultimately show ?thesis by (simp add: RetentionVersion_def readCount_def written)
qed

lemma save_steps:
  assumes "saveRetention c pins conditional versions s = (r, s')"
  shows "s' = s \<and> isl r \<or>
    (\<exists>v. RetentionVersion s = Inr v \<and> (conditional \<longrightarrow> v \<in> set versions) \<and> r = Inr (wrap64 (v + 1)) \<and> s' = write_change c (wrap64 (v + 1)) s)"
  using assms unfolding saveRetention_def Let_def by (simp split: if_splits sum.splits option.splits prod.splits) (auto, (metis isl_def)+)

lemma handler_saves:
  assumes "handleSetRetention pins h body s = (a, s')"
  shows "s' = s \<or> (\<exists>c v. RetentionVersion s = Inr v \<and> s' = write_change c (wrap64 (v + 1)) s \<and>
    (\<forall>tags. h \<noteq> None \<and> parseIfMatch (the h) = (tags, False, True) \<longrightarrow> v \<in> set (retentionVersions tags)))"
proof (cases "\<exists>q c. body = Inr q \<and> request_change pins q = Inr c \<and> (case h of None \<Rightarrow> True | Some x \<Rightarrow> snd (snd (parseIfMatch x)))")
  case True
  then obtain q c where q: "body = Inr q" "request_change pins q = Inr c" "case h of None \<Rightarrow> True | Some x \<Rightarrow> snd (snd (parseIfMatch x))" by blast
  obtain tags any valid where t: "(case h of None \<Rightarrow> ([], True, True) | Some v \<Rightarrow> parseIfMatch v) = (tags, any, valid)" by (metis prod_cases3)
  obtain r s2 where s2: "saveRetention c pins (\<not> any) (retentionVersions tags) s = (r, s2)" by fastforce
  have "valid" using q(3) t by (cases h) auto
  then have "s' = s2" using assms q(1,2) t s2 by (auto simp: handleSetRetention_def split: sum.splits retention_error.splits)
  then show ?thesis using save_steps [OF s2] t by (cases h) auto
next
  case False
  then show ?thesis using assms
    by (cases h) (auto simp: handleSetRetention_def Let_def split: sum.splits if_splits prod.splits)
qed

text \<open>Requests to save, by anybody and with any condition.\<close>

inductive saves :: "retentionPins \<Rightarrow> settings \<Rightarrow> settings \<Rightarrow> bool" for pins where
  none: "saves pins s s"
| more: "saves pins s t \<Longrightarrow> handleSetRetention pins h body t = (a, t') \<Longrightarrow> saves pins s t'"

lemma saves_version:
  assumes "saves pins s t" "RetentionVersion s = Inr v"
  shows "t = s \<or> isl (RetentionVersion t) \<or> (\<exists>w > v. RetentionVersion t = Inr w)"
  using assms
proof (induction rule: saves.induct)
  case (more s t h body a t')
  from handler_saves [OF more.hyps(2)] show ?case
  proof (elim disjE exE conjE)
    assume "t' = t"
    then show ?thesis using more.IH more.prems by simp
  next
    fix c w assume w: "RetentionVersion t = Inr w" "t' = write_change c (wrap64 (w + 1)) t"
    then have le: "v \<le> w" using more.IH more.prems by auto
    show ?thesis
    proof (cases "w + 1 = 2 ^ 63")
      case True
      then show ?thesis using last_version [of c t] w(2) by simp
    next
      case False
      then have "0 \<le> w + 1" "w + 1 < 2 ^ 63" using version_range [OF w(1)] by simp_all
      then have "RetentionVersion t' = Inr (w + 1)"
        using readCount_written [of t' settingRetentionVersion "w + 1"] w(2)
        by (simp add: RetentionVersion_def written fits64_def)
      then show ?thesis using le by auto
    qed
  qed
qed simp

section \<open>Tags\<close>

lemma digits_plain: "0 \<le> v \<Longrightarrow> c \<in> set (itoa v) \<Longrightarrow> is_digit c"
  using digits_are_digits [of "nat v"] by (simp add: itoa_nonneg list_all_iff)

lemma parse_own_tag:
  assumes "0 \<le> v" shows "parseIfMatch (retentionETag v) = ([itoa v], False, True)"
proof -
  have q: "CHR 0x22 \<notin> set (itoa v)" using digits_plain [OF assms, of "CHR 0x22"] by (auto simp: is_digit_def)
  have "takeWhile (\<lambda>c. c \<noteq> CHR 0x22) (itoa v @ [CHR 0x22]) = itoa v" using q by (subst takeWhile_append2) auto
  moreover have "dropWhile (\<lambda>c. c \<noteq> CHR 0x22) (itoa v @ [CHR 0x22]) = [CHR 0x22]" using q by (subst dropWhile_append2) auto
  ultimately have "scan_tags (retentionETag v) = Some [itoa v]"
    by (subst scan_tags.simps) (simp add: retentionETag_def blank_def Let_def)
  moreover have "dropWhile blank (rev (dropWhile blank (rev (retentionETag v)))) = retentionETag v"
    by (simp add: retentionETag_def blank_def)
  moreover have "retentionETag v \<noteq> []" "retentionETag v \<noteq> ''*''" by (simp_all add: retentionETag_def)
  ultimately show ?thesis by (simp add: parseIfMatch_def)
qed

lemma own_version: "0 \<le> v \<Longrightarrow> v < 2 ^ 63 \<Longrightarrow> retentionVersions [itoa v] = [v]"
  by (simp add: retentionVersions_def ParseInt_itoa map_filter_simps)

text \<open>
  C21: A save sent with the tag of what was read before is refused, unless the settings it replaces are still those
  that were read, whoever saved in between.
\<close>

theorem conditional_save_replaces_what_was_read:
  assumes "ra_ETag (handleGetRetention pins s) = Some tag" "saves pins s t"
    and "handleSetRetention pins (Some tag) body t = (a, t')"
  shows "t' = t \<or> t = s"
proof -
  obtain v where v: "RetentionVersion s = Inr v" "tag = retentionETag v"
    using assms(1) by (auto simp: handleGetRetention_def refused_def split: sum.splits if_splits)
  have "0 \<le> v" "v < 2 ^ 63" using version_range [OF v(1)] by simp_all
  from handler_saves [OF assms(3)] show ?thesis
  proof (elim disjE exE conjE)
    fix c w assume w: "RetentionVersion t = Inr w"
      "\<forall>tags. Some tag \<noteq> None \<and> parseIfMatch (the (Some tag)) = (tags, False, True) \<longrightarrow> w \<in> set (retentionVersions tags)"
    then have "w = v" using parse_own_tag \<open>0 \<le> v\<close> own_version [OF \<open>0 \<le> v\<close> \<open>v < 2 ^ 63\<close>] v(2) by auto
    then show ?thesis using saves_version [OF assms(2) v(1)] w(1) by auto
  qed simp
qed

section \<open>Times of day\<close>

lemma ParseInt_padded:
  assumes "0 \<le> n" "n < 2 ^ 63" shows "ParseInt (CHR ''0'' # itoa n) = Some n"
proof -
  have "nat n < 2 ^ 63" using assms by (simp add: nat_less_iff)
  moreover have "decimal (CHR ''0'' # digits (nat n)) = nat n"
    using decimal_digits [of "nat n"] by (simp add: decimal_def digit_value_def)
  moreover have "is_digit (CHR ''0'')" by (simp add: is_digit_def)
  ultimately show ?thesis using assms digits_are_digits [of "nat n"] by (simp add: ParseInt_def itoa_nonneg)
qed

lemma two_digits_parse:
  assumes "0 \<le> n" "n < 100"
  shows "length (two_digits n) = 2" "ParseInt (two_digits n) = Some n" "CHR '':'' \<notin> set (two_digits n)"
proof -
  have "length (itoa n) \<le> 2" using length_digits [of "nat n" 2] assms by (simp add: itoa_nonneg nat_less_iff)
  moreover have "itoa n \<noteq> []" using assms(1) by (simp add: itoa_nonneg)
  ultimately show "length (two_digits n) = 2" by (cases "itoa n" rule: remdups_adj.cases) (auto simp: two_digits_def Let_def)
  show "ParseInt (two_digits n) = Some n" using assms by (simp add: two_digits_def Let_def ParseInt_itoa ParseInt_padded)
  have "CHR '':'' \<notin> set (itoa n)" using digits_plain [OF assms(1), of "CHR '':''"] by (auto simp: is_digit_def)
  then show "CHR '':'' \<notin> set (two_digits n)" by (simp add: two_digits_def Let_def)
qed

lemma clock_round_trip:
  assumes "0 \<le> ct_Hour c" "ct_Hour c < 24" "0 \<le> ct_Minute c" "ct_Minute c < 60"
  shows "ParseClockTime (clock_string c) = Some c"
proof -
  have "takeWhile (\<lambda>x. x \<noteq> CHR '':'') (clock_string c) = two_digits (ct_Hour c)"
    unfolding clock_string_def using two_digits_parse(3) [of "ct_Hour c"] assms by (subst takeWhile_append2) auto
  then show ?thesis using assms two_digits_parse [of "ct_Hour c"] two_digits_parse [of "ct_Minute c"]
    by (simp add: ParseClockTime_def Let_def clock_string_def)
qed

lemma ParseClockTime_range: "ParseClockTime s = Some c \<Longrightarrow> 0 \<le> ct_Hour c \<and> ct_Hour c < 24 \<and> 0 \<le> ct_Minute c \<and> ct_Minute c < 60"
  by (auto simp: ParseClockTime_def Let_def split: if_splits option.splits)

text \<open>The one form of a time of day is not the only one that is read: signs count as digits.\<close>

lemma signs_are_read_as_digits: "ParseClockTime ''+3:-0'' = Some \<lparr>ct_Hour = 3, ct_Minute = 0\<rparr>"
  by (simp add: ParseClockTime_def ParseInt_def Let_def is_digit_def decimal_def digit_value_def)

section \<open>What was saved is in force\<close>

lemma stored_after_save:
  assumes "storedRetention s = Inr (raw, rollup)"
    and "\<And>d. rc_Raw c = Some d \<Longrightarrow> \<exists>n. d = seconds n \<and> 0 \<le> n \<and> n \<le> maxRetentionSeconds"
    and "\<And>d. rc_Rollup c = Some d \<Longrightarrow> \<exists>n. d = seconds n \<and> 0 \<le> n \<and> n \<le> maxRetentionSeconds"
  shows "storedRetention (write_change c v s) = Inr (newer (rc_Raw c) raw, newer (rc_Rollup c) rollup)"
proof -
  have one: "readRetentionSetting t key = Inr (Some (seconds n))"
    if "t key = Some (itoa (seconds n sdiv seconds 1))" "0 \<le> n" "n \<le> maxRetentionSeconds" for t key n
  proof -
    have "seconds n sdiv seconds 1 = n" using that(2) by (simp add: signed_divide_int_def sgn_if)
    moreover have "n < 2 ^ 63" "fits64 (seconds n)" using that(2,3) by (simp_all add: maxRetentionSeconds_def fits64_def)
    ultimately show ?thesis using readCount_written [of t key n] that(1,2) by (simp add: readRetentionSetting_def)
  qed
  have same: "readRetentionSetting t key = readRetentionSetting s key" if "t key = s key" for t key
    using that by (simp add: readRetentionSetting_def readCount_def)
  have stored: "readRetentionSetting s settingRawRetention = Inr raw" "readRetentionSetting s settingRollupRetention = Inr rollup"
    using assms(1) by (auto simp: storedRetention_def split: sum.splits)
  have "readRetentionSetting (write_change c v s) settingRawRetention = Inr (newer (rc_Raw c) raw)"
  proof (cases "rc_Raw c")
    case None
    then show ?thesis using same [of "write_change c v s" settingRawRetention] stored by (simp add: written newer_def)
  next
    case (Some d)
    then show ?thesis using assms(2) [OF Some] one [of "write_change c v s" settingRawRetention] by (auto simp: written newer_def)
  qed
  moreover have "readRetentionSetting (write_change c v s) settingRollupRetention = Inr (newer (rc_Rollup c) rollup)"
  proof (cases "rc_Rollup c")
    case None
    then show ?thesis using same [of "write_change c v s" settingRollupRetention] stored by (simp add: written newer_def)
  next
    case (Some d)
    then show ?thesis using assms(3) [OF Some] one [of "write_change c v s" settingRollupRetention] by (auto simp: written newer_def)
  qed
  ultimately show ?thesis by (simp add: storedRetention_def)
qed

lemma saved_is_resolved:
  assumes "saveRetention c pins conditional versions s = (Inr v, s')"
    and "\<And>d. rc_Raw c = Some d \<Longrightarrow> \<exists>n. d = seconds n \<and> 0 \<le> n \<and> n \<le> maxRetentionSeconds"
    and "\<And>d. rc_Rollup c = Some d \<Longrightarrow> \<exists>n. d = seconds n \<and> 0 \<le> n \<and> n \<le> maxRetentionSeconds"
  shows "\<exists>raw rollup. ResolveRetention pins s' = Inr \<lparr>er_Raw = resolveWindow (pins_Raw pins) (newer (rc_Raw c) raw) DefaultRawRetention,
      er_Rollup = resolveWindow (pins_Rollup pins) (newer (rc_Rollup c) rollup) DefaultRollupRetention\<rparr>"
proof -
  obtain raw rollup where stored: "storedRetention s = Inr (raw, rollup)"
    and valid: "ValidatePolicy \<lparr>rp_Raw = rw_Value (resolveWindow (pins_Raw pins) (newer (rc_Raw c) raw) DefaultRawRetention),
      rp_Rollup = rw_Value (resolveWindow (pins_Rollup pins) (newer (rc_Rollup c) rollup) DefaultRollupRetention), rp_MaxBytes = 0\<rparr> = None"
    and s': "\<exists>w. s' = write_change c w s"
    using assms(1) unfolding saveRetention_def Let_def
    by (auto split: if_splits sum.splits option.splits prod.splits)
  then have "storedRetention s' = Inr (newer (rc_Raw c) raw, newer (rc_Rollup c) rollup)"
    using stored_after_save [OF stored assms(2,3)] by auto
  then show ?thesis using valid by (auto simp: ResolveRetention_def effective_policy_def Let_def)
qed

lemma retentionInput_some: "retentionInput v pin = Inr d \<Longrightarrow> (v = None \<and> d = None) \<or>
    (\<exists>n. v = Some n \<and> pin = None \<and> d = Some (seconds n) \<and> 0 \<le> n \<and> n \<le> maxRetentionSeconds)"
  by (auto simp: retentionInput_def split: option.splits if_splits)

text \<open>
  What the page answers as saved is what the next pass resolves, as it was sent and with nothing set aside.
\<close>

theorem saved_settings_are_in_force:
  assumes "handleSetRetention pins h (Inr q) s = (a, s')" "ra_ETag a \<noteq> None"
    and "\<forall>n. rq_MaxDatabaseBytes q = Some n \<longrightarrow> fits64 n"
  shows "\<exists>eff. ResolveRetention pins s' = Inr eff \<and> rw_Raised (er_Raw eff) = None \<and> rw_Raised (er_Rollup eff) = None \<and>
    (\<forall>n. rq_RawSeconds q = Some n \<longrightarrow> rw_Value (er_Raw eff) = seconds n) \<and>
    (\<forall>n. rq_RollupSeconds q = Some n \<longrightarrow> rw_Value (er_Rollup eff) = seconds n) \<and>
    (\<forall>t. rq_RunAt q = Some t \<longrightarrow> (\<exists>c. ParseClockTime t = Some c \<and> ResolveRetentionRunAt (pins_RunAt pins) s' = Inr (c, FromDatabase))) \<and>
    (\<forall>n. rq_MaxDatabaseBytes q = Some n \<longrightarrow> ResolveMaxDatabaseSize (pins_MaxSize pins) s' = Inr (n, FromDatabase))"
proof -
  obtain c conditional versions v where c: "request_change pins q = Inr c" and save: "saveRetention c pins conditional versions s = (Inr v, s')"
    using assms(1,2) by (auto simp: handleSetRetention_def refused_def Let_def split: sum.splits if_splits prod.splits retention_error.splits)
  have raw: "retentionInput (rq_RawSeconds q) (pins_Raw pins) = Inr (rc_Raw c)"
    and rollup: "retentionInput (rq_RollupSeconds q) (pins_Rollup pins) = Inr (rc_Rollup c)"
    and run: "runAtInput (rq_RunAt q) (pins_RunAt pins) = Inr (rc_RunAt c)"
    and size: "maxDatabaseSizeInput (rq_MaxDatabaseBytes q) (pins_MaxSize pins) = Inr (rc_MaxBytes c)"
    using c by (auto simp: request_change_def split: if_splits sum.splits)
  obtain w where s': "s' = write_change c w s" using save_steps [OF save] by auto
  have ok: "ValidateMaxDatabaseSize n" if "rc_MaxBytes c = Some n" for n
    using save that by (auto simp: saveRetention_def split: if_splits)
  obtain r1 r2 where eff: "ResolveRetention pins s' = Inr \<lparr>er_Raw = resolveWindow (pins_Raw pins) (newer (rc_Raw c) r1) DefaultRawRetention,
      er_Rollup = resolveWindow (pins_Rollup pins) (newer (rc_Rollup c) r2) DefaultRollupRetention\<rparr>"
    using saved_is_resolved [OF save] retentionInput_some [OF raw] retentionInput_some [OF rollup] by fastforce
  have raised: "rw_Raised (resolveWindow p d e) = None" for p d e by (simp add: resolveWindow_def split: option.splits)
  have "\<exists>c'. ParseClockTime t = Some c' \<and> ResolveRetentionRunAt (pins_RunAt pins) s' = Inr (c', FromDatabase)" if "rq_RunAt q = Some t" for t
    using run that clock_round_trip ParseClockTime_range [of t]
    by (auto simp: runAtInput_def ResolveRetentionRunAt_def s' written split: if_splits option.splits)
  moreover have "ResolveMaxDatabaseSize (pins_MaxSize pins) s' = Inr (n, FromDatabase)" if "rq_MaxDatabaseBytes q = Some n" for n
  proof -
    have n: "rc_MaxBytes c = Some n" "pins_MaxSize pins = None" using size that by (auto simp: maxDatabaseSizeInput_def split: if_splits)
    have "0 \<le> n" "n < 2 ^ 63" using ok [OF n(1)] assms(3) that by (auto simp: ValidateMaxDatabaseSize_def fits64_def)
    then show ?thesis using readCount_written [of s' settingMaxDatabaseSize n] n ok [OF n(1)] by (simp add: s' written ResolveMaxDatabaseSize_def)
  qed
  ultimately show ?thesis using eff raised retentionInput_some [OF raw] retentionInput_some [OF rollup]
    by (intro exI [of _ "\<lparr>er_Raw = resolveWindow (pins_Raw pins) (newer (rc_Raw c) r1) DefaultRawRetention,
      er_Rollup = resolveWindow (pins_Rollup pins) (newer (rc_Rollup c) r2) DefaultRollupRetention\<rparr>"])
      (auto simp: resolveWindow_def newer_def)
qed

section \<open>Examples\<close>

definition no_pins :: retentionPins where
  "no_pins = \<lparr>pins_Raw = None, pins_Rollup = None, pins_RunAt = None, pins_MaxSize = None\<rparr>"

definition ask_60_days :: retentionRequest where
  "ask_60_days = \<lparr>rq_RawSeconds = Some 5184000, rq_RollupSeconds = None, rq_RunAt = None, rq_MaxDatabaseBytes = None\<rparr>"

lemma save_60_days:
  "handleSetRetention no_pins None (Inr ask_60_days) Map.empty =
    (\<lparr>ra_Status = 200, ra_ETag = Some (retentionETag 1)\<rparr>,
     write_change \<lparr>rc_Raw = Some (seconds 5184000), rc_Rollup = None, rc_RunAt = None, rc_MaxBytes = None\<rparr> 1 Map.empty)"
proof -
  let ?c = "\<lparr>rc_Raw = Some (seconds 5184000), rc_Rollup = None, rc_RunAt = None, rc_MaxBytes = None\<rparr>"
  let ?t = "write_change ?c 1 Map.empty"
  have change: "request_change no_pins ask_60_days = Inr ?c"
    by (simp add: request_change_def ask_60_days_def no_pins_def retentionInput_def runAtInput_def maxDatabaseSizeInput_def maxRetentionSeconds_def)
  have save: "saveRetention ?c no_pins False (retentionVersions []) Map.empty = (Inr 1, ?t)"
    by (simp add: saveRetention_def RetentionVersion_def readCount_def storedRetention_def readRetentionSetting_def newer_def no_pins_def
        resolveWindow_def ValidatePolicy_def MinRawRetention_def DefaultRollupRetention_def fits64_def)
  obtain raw rollup where "ResolveRetention no_pins ?t = Inr \<lparr>er_Raw = raw, er_Rollup = rollup\<rparr>"
    using saved_is_resolved [OF save] by (force simp: maxRetentionSeconds_def)
  then have "windows_readable no_pins ?t"
    by (simp add: windows_readable_def ResolveRetentionRunAt_def ResolveMaxDatabaseSize_def readCount_def written no_pins_def)
  then show ?thesis using change save by (simp add: handleSetRetention_def)
qed

lemma conditional_save_replaces_what_was_read_witness:
  "let t = snd (handleSetRetention no_pins None (Inr ask_60_days) Map.empty) in
   snd (handleSetRetention no_pins (Some (retentionETag 0)) (Inr ask_60_days) t) = t"
proof -
  let ?t = "snd (handleSetRetention no_pins None (Inr ask_60_days) Map.empty)"
  have "ra_ETag (handleGetRetention no_pins Map.empty) = Some (retentionETag 0)"
    by (simp add: handleGetRetention_def RetentionVersion_def readCount_def windows_readable_def ResolveRetention_def storedRetention_def
        readRetentionSetting_def resolveWindow_def no_pins_def effective_policy_def ValidatePolicy_def MinRawRetention_def
        DefaultRawRetention_def DefaultRollupRetention_def ResolveRetentionRunAt_def ResolveMaxDatabaseSize_def Let_def)
  moreover have "saves no_pins Map.empty ?t" by (rule saves.more [OF saves.none prod.collapse [symmetric]])
  ultimately have "snd (handleSetRetention no_pins (Some (retentionETag 0)) (Inr ask_60_days) ?t) = ?t \<or> ?t = Map.empty"
    by (rule conditional_save_replaces_what_was_read [OF _ _ prod.collapse [symmetric]])
  moreover have "?t settingRetentionVersion \<noteq> None" by (simp add: save_60_days written)
  then have "?t \<noteq> Map.empty" by auto
  ultimately show ?thesis by (simp add: Let_def)
qed

lemma saved_settings_are_in_force_witness:
  "\<exists>eff. ResolveRetention no_pins (snd (handleSetRetention no_pins None (Inr ask_60_days) Map.empty)) = Inr eff \<and>
    rw_Value (er_Raw eff) = seconds 5184000"
proof -
  note saved = saved_settings_are_in_force [OF save_60_days]
  then show ?thesis unfolding save_60_days snd_conv by (elim meta_impE) (auto simp: ask_60_days_def)
qed

end
