(* ===== verification/Housekeeping.thy ===== *)
theory Housekeeping
  imports RetentionSettings Clock
begin

text \<open>
  When the daily pass runs (\<open>internal/store/retention_schedule.go\<close>, \<open>internal/housekeeping/retention.go\<close>): the moments of
  a time of day in a zone, and the loop that wakes at least every quarter of an hour. A zone is its offset and
  \<open>ZoneBounds\<close> a parameter: \<open>zone_bounds\<close> states what it returns, \<open>zone_reads\<close> that \<open>time.Date\<close> finds a wall-clock
  reading that there is, and \<open>spread_below_day\<close> that offsets differ by less than a day. The log and the counters of the
  metrics page are not modelled.
\<close>

section \<open>The moments of a time of day\<close>

definition minute_of :: "clockTime \<Rightarrow> int" where
  "minute_of c = 60 * ct_Hour c + ct_Minute c"

text \<open>Start and end of the zone in effect at an instant; an end of 0 is the indefinite future.\<close>

type_synonym bounds = "instant \<Rightarrow> instant \<times> instant"

definition clock_on :: "zone \<Rightarrow> bounds \<Rightarrow> clockTime \<Rightarrow> int \<Rightarrow> instant" where
  "clock_on z b c day =
     (let want = at_minute day (minute_of c); t = Date z want in
      if minute_of_day (local z t) = minute_of c then t
      else if local z t div minutes 1 * minutes 1 < want then snd (b t) else fst (b t))"

partial_function (option) next_from :: "zone \<Rightarrow> bounds \<Rightarrow> clockTime \<Rightarrow> instant \<Rightarrow> int \<Rightarrow> instant option" where
  "next_from z b c now day = (if now < clock_on z b c day then Some (clock_on z b c day) else next_from z b c now (day + 1))"

definition Next :: "zone \<Rightarrow> bounds \<Rightarrow> clockTime \<Rightarrow> instant \<Rightarrow> instant option" where
  "Next z b c now = next_from z b c now (day_of (local z now))"

partial_function (option) previous_from :: "zone \<Rightarrow> bounds \<Rightarrow> clockTime \<Rightarrow> instant \<Rightarrow> int \<Rightarrow> instant option" where
  "previous_from z b c now day =
     (if \<not> now < clock_on z b c day then Some (clock_on z b c day) else previous_from z b c now (day - 1))"

definition Previous :: "zone \<Rightarrow> bounds \<Rightarrow> clockTime \<Rightarrow> instant \<Rightarrow> instant option" where
  "Previous z b c now = previous_from z b c now (day_of (local z now))"

section \<open>Passes\<close>

definition recheckEvery :: duration where
  "recheckEvery = minutes 15"

record retentionPass =
  ps_StartedAt :: instant
  ps_Duration :: duration
  ps_Trigger :: string
  ps_Result :: retentionResult
  ps_Error :: string

definition Succeeded :: "retentionPass \<Rightarrow> bool" where
  "Succeeded p \<longleftrightarrow> ps_Error p = []"

text \<open>A reading of the last pass that failed is None. \<close>

definition missed :: "retentionPass option option \<Rightarrow> instant \<Rightarrow> bool" where
  "missed recorded due =
     (case recorded of
        None \<Rightarrow> True
      | Some None \<Rightarrow> True
      | Some (Some p) \<Rightarrow> \<not> Succeeded p \<or> ps_StartedAt p + ps_Duration p < due)"

definition run_at :: "clockTime pin option \<Rightarrow> settings \<Rightarrow> clockTime" where
  "run_at pin s = (case ResolveRetentionRunAt pin s of Inl e \<Rightarrow> DefaultRetentionRunAt | Inr (c, _) \<Rightarrow> c)"

definition pass_policy :: "retentionPins \<Rightarrow> settings \<Rightarrow> retention_error + retentionPolicy" where
  "pass_policy pins s =
     (case ResolveRetention pins s of
        Inl e \<Rightarrow> Inl e
      | Inr eff \<Rightarrow>
          (case ResolveMaxDatabaseSize (pins_MaxSize pins) s of
             Inl e \<Rightarrow> Inl e
           | Inr (limit, _) \<Rightarrow> Inr ((effective_policy eff)\<lparr>rp_MaxBytes := limit\<rparr>)))"

definition no_result :: retentionResult where
  "no_result = \<lparr>rr_Heartbeats = 0, rr_HourlyBuckets = 0, rr_Incidents = 0, rr_Deliveries = 0, rr_SizeCap = None\<rparr>"

text \<open>The keeper: whether a pass is under way, the last one recorded, and what the loop remembers.\<close>

record keeper =
  kp_running :: bool
  kp_last :: "retentionPass option"
  kp_at :: clockTime
  kp_handled :: instant

text \<open>A pass is claimed, and done and recorded with the instants of its start and end.\<close>

definition claim_pass :: "keeper \<Rightarrow> bool \<times> keeper" where
  "claim_pass k = (if kp_running k then (False, k) else (True, k\<lparr>kp_running := True\<rparr>))"

definition pass ::
  "estimate \<Rightarrow> estimate \<Rightarrow> (archive \<Rightarrow> int) \<Rightarrow> retentionPins \<Rightarrow> settings \<Rightarrow> string \<Rightarrow> instant \<Rightarrow> instant \<Rightarrow> keeper \<times> archive
     \<Rightarrow> keeper \<times> archive" where
  "pass placeRaw placeHourly used pins s trigger started ended ks =
     (let (res, err, d) = (case pass_policy pins s of
            Inl e \<Rightarrow> (no_result, ''refused'', snd ks)
          | Inr p \<Rightarrow> (let (r, d) = applyRetentionAt placeRaw placeHourly used started p (snd ks) in (r, [], d)));
          p = \<lparr>ps_StartedAt = started, ps_Duration = ended - started, ps_Trigger = trigger, ps_Result = res, ps_Error = err\<rparr>
      in ((fst ks)\<lparr>kp_last := Some p, kp_running := False\<rparr>, d))"

section \<open>The loop\<close>

text \<open>What \<open>Start\<close> remembers first, and whether it catches a pass up.\<close>

definition start_keeping :: "zone \<Rightarrow> bounds \<Rightarrow> clockTime \<Rightarrow> instant \<Rightarrow> retentionPass option option \<Rightarrow> keeper \<Rightarrow> (bool \<times> keeper) option" where
  "start_keeping z b c now recorded k =
     map_option (\<lambda>handled. (missed recorded handled, k\<lparr>kp_at := c, kp_handled := handled\<rparr>)) (Previous z b c now)"

definition wait_for :: "zone \<Rightarrow> bounds \<Rightarrow> instant \<Rightarrow> keeper \<Rightarrow> duration option" where
  "wait_for z b now k = map_option (\<lambda>t. min (t - now) recheckEvery) (Next z b (kp_at k) now)"

text \<open>
  \<open>Run\<close>: a pass is claimed, done and recorded, or refused because another one is under way (\<open>ErrPassRunning\<close>). What is
  recorded is the argument; \<open>pass\<close> is what the work between claim and record does.
\<close>

definition run_pass :: "retentionPass \<Rightarrow> keeper \<Rightarrow> bool \<times> keeper" where
  "run_pass p k =
     (case claim_pass k of
        (False, k') \<Rightarrow> (False, k')
      | (True, k') \<Rightarrow> (True, k'\<lparr>kp_last := Some p, kp_running := False\<rparr>))"

text \<open>What \<open>Start\<close> does before its loop: the catch-up pass runs unless one is under way.\<close>

definition begin_keeping ::
  "zone \<Rightarrow> bounds \<Rightarrow> clockTime \<Rightarrow> instant \<Rightarrow> retentionPass option option \<Rightarrow> retentionPass \<Rightarrow> keeper \<Rightarrow> keeper option" where
  "begin_keeping z b c now recorded p k =
     map_option (\<lambda>(catch_up, k). if catch_up then snd (run_pass p k) else k) (start_keeping z b c now recorded k)"

text \<open>A wake finds nothing due, runs the pass of a moment, or leaves that moment to a pass that is under way.\<close>

datatype wake_result = NothingDue | PassRan instant | PassSkipped instant

fun taken_up :: "wake_result \<Rightarrow> instant option" where
  "taken_up NothingDue = None" | "taken_up (PassRan m) = Some m" | "taken_up (PassSkipped m) = Some m"

text \<open>A wake, with the configured time it finds and what a pass of this wake would record.\<close>

definition wake :: "zone \<Rightarrow> bounds \<Rightarrow> instant \<Rightarrow> clockTime \<Rightarrow> retentionPass \<Rightarrow> keeper \<Rightarrow> (wake_result \<times> keeper) option" where
  "wake z b now c p k =
     map_option (\<lambda>due.
         if c \<noteq> kp_at k then (NothingDue, if kp_handled k < due then k\<lparr>kp_at := c, kp_handled := due\<rparr> else k\<lparr>kp_at := c\<rparr>)
         else if kp_handled k < due
         then (let (ran, k') = run_pass p (k\<lparr>kp_handled := due\<rparr>) in (if ran then PassRan due else PassSkipped due, k'))
         else (NothingDue, k))
       (Previous z b c now)"

text \<open>
  The loop beside the "run now" of the settings page: \<open>Begin\<close> claims a pass in the background, which ends and is
  recorded later. A pass of the loop itself runs before the loop sleeps again, and a \<open>Begin\<close> meanwhile is refused, so
  it is one event.
\<close>

datatype keeper_event = KeeperWake instant clockTime retentionPass | KeeperBegin | KeeperDone retentionPass

fun wakes :: "zone \<Rightarrow> bounds \<Rightarrow> keeper_event list \<Rightarrow> keeper \<Rightarrow> ((instant \<times> wake_result) list \<times> keeper) option" where
  "wakes z b [] k = Some ([], k)"
| "wakes z b (KeeperWake now c p # es) k =
     (case wake z b now c p k of
        None \<Rightarrow> None
      | Some (r, k') \<Rightarrow> map_option (\<lambda>(rest, k''). ((now, r) # rest, k'')) (wakes z b es k'))"
| "wakes z b (KeeperBegin # es) k = wakes z b es (snd (claim_pass k))"
| "wakes z b (KeeperDone p # es) k =
     wakes z b es (if kp_running k then k\<lparr>kp_last := Some p, kp_running := False\<rparr> else k)"

section \<open>What a zone is\<close>

definition in_bounds :: "instant \<times> instant \<Rightarrow> instant \<Rightarrow> bool" where
  "in_bounds b u \<longleftrightarrow> fst b \<le> u \<and> (snd b = 0 \<or> u < snd b)"

definition zone_bounds :: "zone \<Rightarrow> bounds \<Rightarrow> bool" where
  "zone_bounds z b \<longleftrightarrow> (\<forall>t. in_bounds (b t) t \<and> (\<forall>u. in_bounds (b t) u \<longrightarrow> z (Unix u) = z (Unix t)))"

definition zone_reads :: "zone \<Rightarrow> bool" where
  "zone_reads z \<longleftrightarrow> (\<forall>t. local z (Date z (local z t)) = local z t)"

definition spread_below_day :: "zone \<Rightarrow> bool" where
  "spread_below_day z \<longleftrightarrow> (\<forall>u v. z u - z v < 86400)"

definition valid_clock :: "clockTime \<Rightarrow> bool" where
  "valid_clock c \<longleftrightarrow> 0 \<le> ct_Hour c \<and> ct_Hour c < 24 \<and> 0 \<le> ct_Minute c \<and> ct_Minute c < 60"

lemma valid_minute: "valid_clock c \<Longrightarrow> 0 \<le> minute_of c \<and> minute_of c < 1440"
  by (simp add: valid_clock_def minute_of_def)

text \<open>The moment lies where some offset of the zone puts the wall-clock reading.\<close>

lemma clock_on_offset:
  assumes "zone_bounds z b" "zone_reads z" "valid_clock c"
  shows "\<exists>u v. at_minute d (minute_of c) - seconds (z u) \<le> clock_on z b c d \<and> clock_on z b c d \<le> at_minute d (minute_of c) - seconds (z v)"
proof -
  define w where "w = at_minute d (minute_of c)"
  define t where "t = Date z w"
  let ?o = "z (Unix t)"
  obtain a where t: "t = w - seconds (z a)" by (simp add: t_def Date_def)
  have read: "local z t = t + seconds ?o" by (simp add: local_def)
  have bt: "in_bounds (b t) t" "\<And>u. in_bounds (b t) u \<Longrightarrow> z (Unix u) = ?o" using assms(1) by (simp_all add: zone_bounds_def)
  have min_w: "w mod minutes 1 = 0" "minute_of_day w = minute_of c"
    unfolding w_def by (rule at_minute_mod) (use valid_minute [OF assms(3)] at_minute_parts(2) in simp)
  have gap: "\<not> in_bounds (b t) (w - seconds ?o)" if "minute_of_day (local z t) \<noteq> minute_of c"
  proof
    assume "in_bounds (b t) (w - seconds ?o)"
    then have "local z (w - seconds ?o) = w" using bt(2) by (simp add: local_def)
    then have "local z t = w" using assms(2) unfolding zone_reads_def t_def by metis
    then show False using that min_w(2) by simp
  qed
  consider "minute_of_day (local z t) = minute_of c" "clock_on z b c d = t"
    | "minute_of_day (local z t) \<noteq> minute_of c" "local z t < w" "clock_on z b c d = snd (b t)"
    | "minute_of_day (local z t) \<noteq> minute_of c" "w \<le> local z t" "clock_on z b c d = fst (b t)"
  proof -
    have "(local z t div minutes 1 * minutes 1 < w) = (local z t < w)"
    proof -
      obtain q where q: "w = q * minutes 1" using min_w(1) by (metis mod_0_imp_dvd dvd_div_mult_self)
      have x: "local z t div minutes 1 * minutes 1 \<le> local z t" "local z t < (local z t div minutes 1 + 1) * minutes 1"
        by (simp_all add: algebra_simps minus_mult_div_eq_mod [symmetric])
      have "local z t < q * minutes 1" if "local z t div minutes 1 < q"
      proof -
        have "(local z t div minutes 1 + 1) * minutes 1 \<le> q * minutes 1" using that by (intro mult_right_mono) simp_all
        then show ?thesis using x(2) by linarith
      qed
      then show ?thesis unfolding q using x(1) by auto
    qed
    then show thesis using that by (cases "minute_of_day (local z t) = minute_of c") (auto simp: clock_on_def Let_def w_def [symmetric] t_def [symmetric])
  qed
  then show ?thesis
  proof cases
    case 1
    then show ?thesis using t by (intro exI [of _ a]) (simp add: w_def)
  next
    case 2
    have "t < w - seconds ?o" using 2(2) read by simp
    then have "snd (b t) \<noteq> 0" "snd (b t) \<le> w - seconds ?o" using gap [OF 2(1)] bt(1) by (auto simp: in_bounds_def)
    moreover have "t < snd (b t)" using \<open>snd (b t) \<noteq> 0\<close> bt(1) by (simp add: in_bounds_def)
    ultimately show ?thesis using 2(3) t unfolding w_def [symmetric] by (intro exI [of _ a] exI [of _ "Unix t"]) simp
  next
    case 3
    then have "w - seconds ?o < fst (b t)" using gap [OF 3(1)] bt(1) read by (auto simp: in_bounds_def)
    moreover have "fst (b t) \<le> t" using bt(1) by (simp add: in_bounds_def)
    ultimately show ?thesis using 3(3) t unfolding w_def [symmetric] by (intro exI [of _ "Unix t"] exI [of _ a]) simp
  qed
qed

definition fair_zone :: "zone \<Rightarrow> bounds \<Rightarrow> bool" where
  "fair_zone z b \<longleftrightarrow> zone_bounds z b \<and> zone_reads z \<and> spread_below_day z"

lemma clock_on_step:
  assumes "fair_zone z b" "valid_clock c" shows "clock_on z b c d < clock_on z b c (d + 1)"
proof -
  obtain u v where uv: "clock_on z b c d \<le> at_minute d (minute_of c) - seconds (z v)"
      "at_minute (d + 1) (minute_of c) - seconds (z u) \<le> clock_on z b c (d + 1)"
    using clock_on_offset [of z b c d] clock_on_offset [of z b c "d + 1"] assms by (auto simp: fair_zone_def)
  have "z u - z v < 86400" using assms(1) by (simp add: fair_zone_def spread_below_day_def)
  moreover have "at_minute (d + 1) (minute_of c) = at_minute d (minute_of c) + day_length" by (simp add: at_minute_def)
  ultimately show ?thesis using uv by linarith
qed

lemma clock_on_mono:
  assumes "fair_zone z b" "valid_clock c" "d < e" shows "clock_on z b c d < clock_on z b c e"
proof -
  have "clock_on z b c d < clock_on z b c (d + 1 + int n)" for n
  proof (induction n)
    case 0
    then show ?case using clock_on_step [OF assms(1,2)] by simp
  next
    case (Suc n)
    then show ?case using clock_on_step [OF assms(1,2), of "d + 1 + int n"] by (simp add: add_ac)
  qed
  from this [of "nat (e - d - 1)"] show ?thesis using assms(3) by simp
qed

lemma clock_on_le: "fair_zone z b \<Longrightarrow> valid_clock c \<Longrightarrow> clock_on z b c d \<le> clock_on z b c e \<longleftrightarrow> d \<le> e"
  using clock_on_mono [of z b c d e] clock_on_mono [of z b c e d] by (cases d e rule: linorder_cases) auto

text \<open>Every instant has a moment before and one after it.\<close>

lemma clock_on_steps: "fair_zone z b \<Longrightarrow> valid_clock c \<Longrightarrow> clock_on z b c d + int n \<le> clock_on z b c (d + int n)"
proof (induction n)
  case (Suc n)
  then show ?case using clock_on_step [of z b c "d + int n"] by (simp add: add_ac)
qed simp

lemma clock_on_unbounded:
  assumes "fair_zone z b" "valid_clock c"
  shows "\<exists>d \<ge> e. now < clock_on z b c d" "\<exists>d \<le> e. clock_on z b c d \<le> now"
proof -
  define n m where "n = nat (now - clock_on z b c e + 1)" and "m = nat (clock_on z b c e - now)"
  have "now < clock_on z b c e + int n" "clock_on z b c e - int m \<le> now" by (simp_all add: n_def m_def)
  then have ends: "now < clock_on z b c (e + int n)" "clock_on z b c (e - int m) \<le> now"
    using clock_on_steps [OF assms, of e n] clock_on_steps [OF assms, of "e - int m" m, unfolded diff_add_cancel] by linarith+
  show "\<exists>d \<ge> e. now < clock_on z b c d" using ends(1) by (intro exI [of _ "e + int n"]) simp
  show "\<exists>d \<le> e. clock_on z b c d \<le> now" using ends(2) by (intro exI [of _ "e - int m"]) simp
qed

lemma next_from_finds:
  assumes "day \<le> e" "now < clock_on z b c e"
  shows "\<exists>d \<ge> day. next_from z b c now day = Some (clock_on z b c d) \<and> now < clock_on z b c d \<and> (\<forall>f. day \<le> f \<and> f < d \<longrightarrow> clock_on z b c f \<le> now)"
  using assms
proof (induction "nat (e - day)" arbitrary: day rule: less_induct)
  case less
  show ?case
  proof (cases "now < clock_on z b c day")
    case True
    then show ?thesis by (intro exI [of _ day]) (simp add: next_from.simps)
  next
    case False
    then have "day + 1 \<le> e" using less.prems by (cases "day = e") auto
    then have "nat (e - (day + 1)) < nat (e - day)" by simp
    from less.hyps [OF this \<open>day + 1 \<le> e\<close> less.prems(2)]
    obtain d where d: "day + 1 \<le> d" "next_from z b c now (day + 1) = Some (clock_on z b c d)" "now < clock_on z b c d"
      "\<And>f. day + 1 \<le> f \<Longrightarrow> f < d \<Longrightarrow> clock_on z b c f \<le> now" by blast
    have "clock_on z b c f \<le> now" if "day \<le> f" "f < d" for f using d(4) [of f] that False by (cases "f = day") auto
    then show ?thesis using d(1-3) False by (intro exI [of _ d]) (simp add: next_from.simps)
  qed
qed

lemma previous_from_finds:
  assumes "e \<le> day" "clock_on z b c e \<le> now"
  shows "\<exists>d \<le> day. previous_from z b c now day = Some (clock_on z b c d) \<and> clock_on z b c d \<le> now \<and> (\<forall>f. d < f \<and> f \<le> day \<longrightarrow> now < clock_on z b c f)"
  using assms
proof (induction "nat (day - e)" arbitrary: day rule: less_induct)
  case less
  show ?case
  proof (cases "now < clock_on z b c day")
    case False
    then show ?thesis by (intro exI [of _ day]) (simp add: previous_from.simps)
  next
    case True
    then have "e \<le> day - 1" using less.prems by (cases "day = e") auto
    then have "nat (day - 1 - e) < nat (day - e)" by simp
    from less.hyps [OF this \<open>e \<le> day - 1\<close> less.prems(2)]
    obtain d where d: "d \<le> day - 1" "previous_from z b c now (day - 1) = Some (clock_on z b c d)" "clock_on z b c d \<le> now"
      "\<And>f. d < f \<Longrightarrow> f \<le> day - 1 \<Longrightarrow> now < clock_on z b c f" by blast
    have "now < clock_on z b c f" if "d < f" "f \<le> day" for f using d(4) [of f] that True by (cases "f = day") auto
    then show ?thesis using d(1-3) True by (intro exI [of _ d]) (simp add: previous_from.simps)
  qed
qed

text \<open>Both searches end; the next moment lies ahead, the previous one does not.\<close>

lemma Next_found: "fair_zone z b \<Longrightarrow> valid_clock c \<Longrightarrow> \<exists>t. Next z b c now = Some t \<and> now < t"
  using clock_on_unbounded(1) [of z b c "day_of (local z now)" now] next_from_finds [of "day_of (local z now)" _ now z b c]
  unfolding Next_def by metis

lemma Previous_found:
  assumes "fair_zone z b" "valid_clock c"
  shows "\<exists>t \<le> now. Previous z b c now = Some t \<and>
    (\<forall>k \<le> day_of (local z now). clock_on z b c k \<le> now \<and> now < clock_on z b c (k + 1) \<longrightarrow> t = clock_on z b c k)"
proof -
  obtain e where "e \<le> day_of (local z now)" "clock_on z b c e \<le> now" using clock_on_unbounded(2) [OF assms] by blast
  from previous_from_finds [OF this] obtain d where d: "d \<le> day_of (local z now)" "Previous z b c now = Some (clock_on z b c d)"
    "clock_on z b c d \<le> now" "\<And>f. d < f \<Longrightarrow> f \<le> day_of (local z now) \<Longrightarrow> now < clock_on z b c f" unfolding Previous_def by blast
  have "clock_on z b c d = clock_on z b c k"
    if "k \<le> day_of (local z now)" "clock_on z b c k \<le> now" "now < clock_on z b c (k + 1)" for k
  proof -
    have "\<not> d < k" using d(4) [of k] that by auto
    moreover have "\<not> k + 1 \<le> d" using clock_on_le [OF assms, of "k + 1" d] d(3) that(3) by auto
    ultimately have "d = k" by simp
    then show ?thesis by simp
  qed
  then show ?thesis using d(2,3) by blast
qed

text \<open>The loop sleeps, and never for more than a quarter of an hour.\<close>

lemma wait_bounded: "fair_zone z b \<Longrightarrow> valid_clock (kp_at k) \<Longrightarrow> \<exists>d. wait_for z b now k = Some d \<and> 0 < d \<and> d \<le> recheckEvery"
  using Next_found [of z b "kp_at k" now] by (auto simp: wait_for_def recheckEvery_def)

section \<open>One pass a day\<close>

text \<open>The configured time a wake finds, and when it happens; a background pass tells nothing of either.\<close>

fun finds :: "clockTime \<Rightarrow> keeper_event \<Rightarrow> bool" where
  "finds c (KeeperWake now c' p) \<longleftrightarrow> c' = c" | "finds c _ \<longleftrightarrow> True"

fun before_moment :: "instant \<Rightarrow> keeper_event \<Rightarrow> bool" where
  "before_moment m (KeeperWake now c p) \<longleftrightarrow> now < m" | "before_moment m _ \<longleftrightarrow> True"

lemma run_pass_keeps [simp]:
  "kp_at (snd (run_pass p k)) = kp_at k" "kp_handled (snd (run_pass p k)) = kp_handled k"
  "fst (run_pass p k) \<longleftrightarrow> \<not> kp_running k"
  by (simp_all add: run_pass_def claim_pass_def)

lemma claim_pass_keeps [simp]: "kp_at (snd (claim_pass k)) = kp_at k" "kp_handled (snd (claim_pass k)) = kp_handled k"
  by (simp_all add: claim_pass_def)

lemma wakes_append:
  "wakes z b (es @ fs) k = (case wakes z b es k of None \<Rightarrow> None
     | Some (t, k') \<Rightarrow> map_option (\<lambda>(t', k''). (t @ t', k'')) (wakes z b fs k'))"
proof (induction es arbitrary: k)
  case (Cons e es)
  then show ?case by (cases e) (auto simp: option.map_comp comp_def case_prod_beta split: option.split prod.split)
qed (simp add: option.map_id)

text \<open>A moment taken up lies past the one handled before and becomes the one handled, at whatever time of day.\<close>

lemma wake_handled:
  assumes "wake z b now c p k = Some (r, k')"
  shows "kp_handled k \<le> kp_handled k' \<and> (\<forall>m. taken_up r = Some m \<longrightarrow> kp_handled k < m \<and> kp_handled k' = m)"
proof -
  obtain due where "Previous z b c now = Some due" using assms by (auto simp: wake_def)
  then show ?thesis using assms run_pass_keeps(2) [of p "k\<lparr>kp_handled := due\<rparr>"]
    by (cases "run_pass p (k\<lparr>kp_handled := due\<rparr>)") (auto simp: wake_def split: if_splits)
qed

text \<open>So no moment is taken up twice, whatever the configured time does and whatever the clock did.\<close>

lemma wakes_strictly_later:
  "wakes z b es k = Some (trace, k') \<Longrightarrow>
     kp_handled k \<le> kp_handled k' \<and> sorted_wrt (<) (kp_handled k # List.map_filter (taken_up \<circ> snd) trace)"
proof (induction es arbitrary: k trace)
  case (Cons e es)
  show ?case
  proof (cases e)
    case (KeeperWake now c p)
    obtain r k1 rest where w: "wake z b now c p k = Some (r, k1)" "wakes z b es k1 = Some (rest, k')" "trace = (now, r) # rest"
      using Cons.prems KeeperWake by (auto split: option.splits)
    show ?thesis
      using Cons.IH [OF w(2)] wake_handled [OF w(1)] w(3)
      by (cases "taken_up r") (auto simp: List.map_filter_simps dest: le_less_trans)
  next
    case KeeperBegin
    then show ?thesis using Cons.IH [of "snd (claim_pass k)" trace] Cons.prems by simp
  next
    case (KeeperDone p)
    then show ?thesis
      using Cons.IH [of "if kp_running k then k\<lparr>kp_last := Some p, kp_running := False\<rparr> else k" trace] Cons.prems
      by (simp split: if_splits)
  qed
qed (simp add: List.map_filter_simps)

lemma wakes_later:
  assumes "wakes z b es k = Some (trace, k')" "(t, r) \<in> set trace" "taken_up r = Some m"
  shows "kp_handled k < m"
proof -
  have "m \<in> set (List.map_filter (taken_up \<circ> snd) trace)"
    using assms(2,3) by (induction trace) (auto simp: List.map_filter_simps split: option.split)
  then show ?thesis using wakes_strictly_later [OF assms(1)] by simp
qed

lemma wake_same_time:
  assumes "fair_zone z b" "valid_clock c" "kp_at k = c"
  shows "\<exists>m k'. Previous z b c now = Some m \<and> m \<le> now \<and> kp_at k' = c \<and> kp_handled k' = max (kp_handled k) m \<and>
    wake z b now c p k = Some (if m \<le> kp_handled k then NothingDue else if kp_running k then PassSkipped m else PassRan m, k')"
proof -
  obtain m where m: "Previous z b c now = Some m" "m \<le> now" using Previous_found [OF assms(1,2), of now] by blast
  show ?thesis
    using m assms(3) run_pass_keeps [of p "k\<lparr>kp_handled := m\<rparr>"]
    by (intro exI [of _ m] exI [of _ "if m \<le> kp_handled k then k else snd (run_pass p (k\<lparr>kp_handled := m\<rparr>))"])
      (simp add: wake_def case_prod_beta max_def)
qed

text \<open>At one configured time the loop goes on, and before a moment it takes up no moment as late.\<close>

lemma wakes_same_time:
  assumes "fair_zone z b" "valid_clock c"
  shows "kp_at k = c \<Longrightarrow> \<forall>e \<in> set es. finds c e \<Longrightarrow>
    \<exists>trace k'. wakes z b es k = Some (trace, k') \<and> kp_at k' = c \<and>
      ((\<forall>e \<in> set es. before_moment m e) \<longrightarrow> kp_handled k < m \<longrightarrow>
         kp_handled k' < m \<and> filter (\<lambda>(t, r). taken_up r = Some m) trace = [])"
proof (induction es arbitrary: k)
  case (Cons e es)
  show ?case
  proof (cases e)
    case (KeeperWake now c' p)
    obtain q k1 where q: "q \<le> now" "kp_at k1 = c" "kp_handled k1 = max (kp_handled k) q"
      "wake z b now c p k = Some (if q \<le> kp_handled k then NothingDue else if kp_running k then PassSkipped q else PassRan q, k1)"
      using wake_same_time [OF assms Cons.prems(1)] by blast
    have c': "c' = c" using Cons.prems(2) KeeperWake by simp
    show ?thesis using Cons.IH [OF q(2)] Cons.prems(2) q(1,3,4) KeeperWake c' by fastforce
  next
    case KeeperBegin
    then show ?thesis using Cons.IH [of "snd (claim_pass k)"] Cons.prems by simp
  next
    case (KeeperDone p)
    then show ?thesis
      using Cons.IH [of "if kp_running k then k\<lparr>kp_last := Some p, kp_running := False\<rparr> else k"] Cons.prems
      by (simp split: if_splits)
  qed
qed simp

text \<open>
  C24: While the time of day stays as it was configured at the start, the moment of a day is taken up exactly once:
  at the first wake after it, when that wake falls before the next day's moment (the loop never sleeps longer than a
  quarter of an hour), whatever the clock did in between. The pass runs at that wake, unless a pass started from the
  settings page is still under way, which refuses it; then the moment is left to that pass and not taken up again.
\<close>

theorem daily_pass_runs_exactly_once:
  assumes "fair_zone z b" "valid_clock c" "begin_keeping z b c t0 recorded p0 k0 = Some k"
    and "t0 < clock_on z b c n" "\<forall>e \<in> set before. finds c e \<and> before_moment (clock_on z b c n) e" "\<forall>e \<in> set after. finds c e"
    and "clock_on z b c n \<le> cur" "n \<le> day_of (local z cur)" "cur < clock_on z b c (n + 1)"
  shows "\<exists>earlier kb trace k'. wakes z b before k = Some (earlier, kb) \<and>
    wakes z b (before @ KeeperWake cur c p # after) k = Some (trace, k') \<and>
    filter (\<lambda>(t, r). taken_up r = Some (clock_on z b c n)) trace =
      [(cur, if kp_running kb then PassSkipped (clock_on z b c n) else PassRan (clock_on z b c n))]"
proof -
  let ?m = "clock_on z b c n"
  have k: "kp_at k = c" "kp_handled k < ?m"
    using assms(3,4) Previous_found [OF assms(1,2), of t0]
    by (auto simp: begin_keeping_def start_keeping_def split: if_splits)
  obtain earlier kb where kb: "wakes z b before k = Some (earlier, kb)" "kp_at kb = c" "kp_handled kb < ?m"
    "filter (\<lambda>(t, r). taken_up r = Some ?m) earlier = []"
    using wakes_same_time [OF assms(1,2) k(1), of before ?m] assms(5) k(2) by blast
  obtain q k1 where q: "Previous z b c cur = Some q" "kp_at k1 = c" "kp_handled k1 = max (kp_handled kb) q"
    "wake z b cur c p kb = Some (if q \<le> kp_handled kb then NothingDue else if kp_running kb then PassSkipped q else PassRan q, k1)"
    using wake_same_time [OF assms(1,2) kb(2)] by blast
  have m: "q = ?m" using Previous_found [OF assms(1,2), of cur] q(1) assms(7-9) by auto
  obtain later k' where later: "wakes z b after k1 = Some (later, k')" using wakes_same_time [OF assms(1,2) q(2) assms(6)] by blast
  have "filter (\<lambda>(t, r). taken_up r = Some ?m) later = []"
    using wakes_later [OF later] q(3) m by (fastforce simp: filter_empty_conv)
  then show ?thesis using kb q(4) m later by (simp add: wakes_append)
qed

text \<open>A pass that was due while nothing ran is caught up at the start.\<close>

lemma missed_pass_is_caught_up:
  assumes "start_keeping z b c t0 (Some (Some p)) k0 = Some (False, k)" "Previous z b c t0 = Some due"
  shows "Succeeded p \<and> due \<le> ps_StartedAt p + ps_Duration p"
  using assms by (auto simp: start_keeping_def missed_def)

text \<open>Two passes are never under way.\<close>

lemma one_pass_at_a_time: "claim_pass k = (True, k') \<Longrightarrow> fst (claim_pass k') = False"
  by (auto simp: claim_pass_def split: if_splits)

section \<open>Examples\<close>

lemma utc_is_fair: "fair_zone (\<lambda>_. 0) (\<lambda>t. (t, 0))"
  by (simp add: fair_zone_def zone_bounds_def in_bounds_def zone_reads_def spread_below_day_def local_def Date_def)

lemma utc_clock_on: "valid_clock c \<Longrightarrow> clock_on (\<lambda>_. 0) (\<lambda>t. (t, 0)) c d = at_minute d (minute_of c)"
  using valid_minute [of c] at_minute_parts(2) [of "minute_of c" d] by (simp add: clock_on_def Let_def Date_def local_def)

definition sample_pass :: retentionPass where
  "sample_pass = \<lparr>ps_StartedAt = at_minute 7 215, ps_Duration = minutes 1, ps_Trigger = ''schedule'', ps_Result = no_result, ps_Error = []\<rparr>"

lemma daily_pass_runs_exactly_once_witness:
  "\<exists>k trace k'. wakes (\<lambda>_. 0) (\<lambda>t. (t, 0)) [KeeperBegin, KeeperWake (at_minute 7 200) DefaultRetentionRunAt sample_pass,
      KeeperDone sample_pass, KeeperWake (at_minute 7 215) DefaultRetentionRunAt sample_pass, KeeperBegin] k = Some (trace, k') \<and>
    filter (\<lambda>(t, r). taken_up r = Some (at_minute 7 210)) trace = [(at_minute 7 215, PassRan (at_minute 7 210))]"
proof -
  let ?z = "\<lambda>_ :: int. 0 :: int" and ?b = "\<lambda>t :: int. (t, 0 :: int)" and ?c = DefaultRetentionRunAt
  let ?before = "[KeeperBegin, KeeperWake (at_minute 7 200) ?c sample_pass, KeeperDone sample_pass]"
  have c: "valid_clock ?c" "minute_of ?c = 210"
    by (simp_all add: valid_clock_def DefaultRetentionRunAt_def minute_of_def)
  obtain q where "Previous ?z ?b ?c (at_minute 7 0) = Some q" using Previous_found [OF utc_is_fair c(1)] by blast
  then obtain k where k: "begin_keeping ?z ?b ?c (at_minute 7 0) (Some None) sample_pass
      \<lparr>kp_running = False, kp_last = None, kp_at = ?c, kp_handled = 0\<rparr> = Some k"
    by (simp add: begin_keeping_def start_keeping_def missed_def)
  have moment: "clock_on ?z ?b ?c 7 = at_minute 7 210" "clock_on ?z ?b ?c 8 = at_minute 8 210"
    by (simp_all add: utc_clock_on [OF c(1)] c(2))
  have idle: "wakes ?z ?b ?before k = Some (t, kb) \<Longrightarrow> \<not> kp_running kb" for t kb
    by (auto split: option.splits if_splits)
  have "\<exists>earlier kb trace k'. wakes ?z ?b ?before k = Some (earlier, kb) \<and>
      wakes ?z ?b (?before @ KeeperWake (at_minute 7 215) ?c sample_pass # [KeeperBegin]) k = Some (trace, k') \<and>
      filter (\<lambda>(t, r). taken_up r = Some (clock_on ?z ?b ?c 7)) trace =
        [(at_minute 7 215, if kp_running kb then PassSkipped (clock_on ?z ?b ?c 7) else PassRan (clock_on ?z ?b ?c 7))]"
    by (rule daily_pass_runs_exactly_once [OF utc_is_fair c(1) k])
      (use at_minute_parts(1) [of 215 7] in \<open>simp_all add: moment local_def\<close>, simp_all add: at_minute_def)
  then obtain earlier kb trace k' where r: "wakes ?z ?b ?before k = Some (earlier, kb)"
      "wakes ?z ?b (?before @ KeeperWake (at_minute 7 215) ?c sample_pass # [KeeperBegin]) k = Some (trace, k')"
      "filter (\<lambda>(t, r). taken_up r = Some (at_minute 7 210)) trace =
        [(at_minute 7 215, if kp_running kb then PassSkipped (at_minute 7 210) else PassRan (at_minute 7 210))]"
    unfolding moment by blast
  show ?thesis using r(2,3) idle [OF r(1)] by (intro exI [of _ k] exI [of _ trace] exI [of _ k']) simp
qed

text \<open>
  A time of day that is moved to a moment the loop is asleep at is taken as handled: here from 03:30 to 03:25, seen at
  03:30. No pass runs that day, at either time.
\<close>

lemma utc_previous:
  assumes "valid_clock c" "at_minute d (minute_of c) \<le> now" "now < at_minute (d + 1) (minute_of c)" "d \<le> day_of now"
  shows "Previous (\<lambda>_. 0) (\<lambda>t. (t, 0)) c now = Some (at_minute d (minute_of c))"
proof -
  obtain t where "Previous (\<lambda>_. 0) (\<lambda>t. (t, 0)) c now = Some t"
    "\<forall>k \<le> day_of (local (\<lambda>_. 0) now). clock_on (\<lambda>_. 0) (\<lambda>t. (t, 0)) c k \<le> now \<and> now < clock_on (\<lambda>_. 0) (\<lambda>t. (t, 0)) c (k + 1) \<longrightarrow>
      t = clock_on (\<lambda>_. 0) (\<lambda>t. (t, 0)) c k"
    using Previous_found [OF utc_is_fair assms(1), of now] by blast
  then show ?thesis using assms by (auto simp: utc_clock_on local_def)
qed

lemma changed_time_skips_a_day:
  fixes half_past twenty_five_past :: clockTime
  defines "half_past \<equiv> \<lparr>ct_Hour = 3, ct_Minute = 30\<rparr>" and "twenty_five_past \<equiv> \<lparr>ct_Hour = 3, ct_Minute = 25\<rparr>"
  shows "map_option fst (wakes (\<lambda>_. 0) (\<lambda>t. (t, 0)) [KeeperWake (at_minute 7 195) half_past p, KeeperWake (at_minute 7 210) twenty_five_past p,
        KeeperWake (at_minute 7 225) twenty_five_past p, KeeperWake (at_minute 8 190) twenty_five_past p]
      \<lparr>kp_running = False, kp_last = None, kp_at = half_past, kp_handled = at_minute 6 210\<rparr>) =
    Some [(at_minute 7 195, NothingDue), (at_minute 7 210, NothingDue), (at_minute 7 225, NothingDue), (at_minute 8 190, NothingDue)]"
proof -
  have c: "valid_clock half_past" "minute_of half_past = 210" "valid_clock twenty_five_past" "minute_of twenty_five_past = 205"
    by (simp_all add: assms valid_clock_def minute_of_def)
  have now: "day_of (at_minute 7 195) = 7" "day_of (at_minute 7 210) = 7" "day_of (at_minute 7 225) = 7" "day_of (at_minute 8 190) = 8"
    by (simp_all add: at_minute_parts)
  have "Previous (\<lambda>_. 0) (\<lambda>t. (t, 0)) half_past (at_minute 7 195) = Some (at_minute 6 210)"
    "Previous (\<lambda>_. 0) (\<lambda>t. (t, 0)) twenty_five_past (at_minute 7 210) = Some (at_minute 7 205)"
    "Previous (\<lambda>_. 0) (\<lambda>t. (t, 0)) twenty_five_past (at_minute 7 225) = Some (at_minute 7 205)"
    "Previous (\<lambda>_. 0) (\<lambda>t. (t, 0)) twenty_five_past (at_minute 8 190) = Some (at_minute 7 205)"
    using utc_previous [OF c(1), of 6 "at_minute 7 195"] utc_previous [OF c(3), of 7 "at_minute 7 210"]
      utc_previous [OF c(3), of 7 "at_minute 7 225"] utc_previous [OF c(3), of 7 "at_minute 8 190"]
    unfolding c(2,4) now by (simp_all add: at_minute_def)
  moreover have "twenty_five_past \<noteq> half_past" by (simp add: assms)
  ultimately show ?thesis by (simp add: wake_def)
qed

end
