(* ===== verification/Watchdog.thy ===== *)
theory Watchdog
  imports Text
begin

text \<open>
  The dead man's switch (\<open>internal/watchdog/watchdog.go\<close>, \<open>status.go\<close>): a ping at every tick, unless no check was
  recorded for longer than the schedule allows or the latest news of the pipeline is a failed write. A reading of the
  pipeline, the clock and what the receiver answers are inputs of a tick. The counters of checks and of failed writes
  are natural numbers: 64 bits do not fill up. The address of the receiver and the log are not modelled.
\<close>

section \<open>State\<close>

definition pingTimeout :: duration where
  "pingTimeout = seconds 10"

record liveness =
  lv_ChecksCompleted :: nat
  lv_Scheduled :: int
  lv_CheckGap :: duration
  lv_WriteFailures :: nat

record history =
  hi_decision :: instant
  hi_attempt :: instant
  hi_success :: instant
  hi_result :: string
  hi_event :: string
  hi_status :: int
  hi_suppressed :: bool
  hi_inFlight :: bool

record watchdog =
  wd_history :: history
  wd_createdAt :: instant
  wd_interval :: duration
  wd_last :: liveness
  wd_recorded :: instant
  wd_writesFailing :: bool

text \<open>The fields \<open>New\<close> sets, at an instant and for an interval.\<close>

definition DefaultInterval :: duration where
  "DefaultInterval = minutes 5"

definition zero_history :: history where
  "zero_history = \<lparr>hi_decision = 0, hi_attempt = 0, hi_success = 0, hi_result = [], hi_event = [], hi_status = 0,
     hi_suppressed = False, hi_inFlight = False\<rparr>"

definition new_watchdog :: "instant \<Rightarrow> duration \<Rightarrow> watchdog" where
  "new_watchdog now interval =
     \<lparr>wd_history = zero_history, wd_createdAt = now, wd_interval = (if interval \<le> 0 then DefaultInterval else interval),
      wd_last = \<lparr>lv_ChecksCompleted = 0, lv_Scheduled = 0, lv_CheckGap = 0, lv_WriteFailures = 0\<rparr>, wd_recorded = 0,
      wd_writesFailing = False\<rparr>"

section \<open>A ping\<close>

text \<open>What becomes of a request: it is not built, the transport fails, or a status comes back.\<close>

datatype ping_outcome = NotBuilt | Canceled | TimedOut | TransportFailed | Answered int

definition ping_result :: "ping_outcome \<Rightarrow> string \<times> int" where
  "ping_result r =
     (case r of
        NotBuilt \<Rightarrow> (''request_error'', 0)
      | Canceled \<Rightarrow> (''canceled'', 0)
      | TimedOut \<Rightarrow> (''timeout'', 0)
      | TransportFailed \<Rightarrow> (''transport_error'', 0)
      | Answered code \<Rightarrow> (if code < 200 \<or> 299 < code then ''rejected'' else ''succeeded'', code))"

definition beginAttempt :: "instant \<Rightarrow> string \<Rightarrow> watchdog \<Rightarrow> watchdog" where
  "beginAttempt now event w =
     w\<lparr>wd_history := (wd_history w)\<lparr>hi_decision := now, hi_attempt := now, hi_event := event, hi_suppressed := False, hi_inFlight := True\<rparr>\<rparr>"

definition finishAttempt :: "instant \<Rightarrow> string \<Rightarrow> int \<Rightarrow> watchdog \<Rightarrow> watchdog" where
  "finishAttempt now result code w =
     (let h = (wd_history w)\<lparr>hi_result := result, hi_status := code, hi_inFlight := False\<rparr> in
      w\<lparr>wd_history := (if result = ''succeeded'' then h\<lparr>hi_success := now\<rparr> else h)\<rparr>)"

record pingAttempt =
  at_began :: instant
  at_outcome :: ping_outcome
  at_ended :: instant

definition send :: "string \<Rightarrow> pingAttempt \<Rightarrow> watchdog \<Rightarrow> watchdog" where
  "send event a w =
     (let (result, code) = ping_result (at_outcome a)
      in finishAttempt (at_ended a) result code (beginAttempt (at_began a) event w))"

section \<open>A tick\<close>

text \<open>What a tick learns of the pipeline before it decides.\<close>

definition observed :: "liveness \<Rightarrow> instant \<Rightarrow> watchdog \<Rightarrow> watchdog" where
  "observed now t w =
     (let progressed = lv_ChecksCompleted (wd_last w) < lv_ChecksCompleted now;
          failed = lv_WriteFailures (wd_last w) < lv_WriteFailures now;
          shorter = (0 < lv_CheckGap now \<and> (lv_Scheduled (wd_last w) = 0 \<or> lv_CheckGap now < lv_CheckGap (wd_last w)));
          w = (if shorter then w\<lparr>wd_recorded := t\<rparr> else w)\<lparr>wd_last := now\<rparr>
      in if progressed then w\<lparr>wd_recorded := t, wd_writesFailing := False\<rparr>
         else if failed then w\<lparr>wd_writesFailing := True\<rparr> else w)"

definition withheld :: "liveness \<Rightarrow> instant \<Rightarrow> watchdog \<Rightarrow> bool" where
  "withheld now t w \<longleftrightarrow>
     lv_Scheduled now \<noteq> 0 \<and> \<not> lv_ChecksCompleted (wd_last w) < lv_ChecksCompleted now \<and>
     (wd_writesFailing (observed now t w) \<or> lv_CheckGap now < t - wd_recorded (observed now t w))"

definition alive :: "liveness \<Rightarrow> string" where
  "alive now = ''alive; '' @ itoa (lv_Scheduled now) @ '' monitors scheduled, '' @ itoa (int (lv_ChecksCompleted now)) @ '' checks completed''"

text \<open>A tick returns the body of the ping it sent, if it sent one.\<close>

definition tick :: "liveness \<Rightarrow> instant \<Rightarrow> pingAttempt \<Rightarrow> watchdog \<Rightarrow> string option \<times> watchdog" where
  "tick now t a w =
     (let w' = observed now t w in
      if withheld now t w then (None, w'\<lparr>wd_history := (wd_history w')\<lparr>hi_decision := t, hi_suppressed := True\<rparr>\<rparr>)
      else (Some (alive now), send ''alive'' a w'))"

definition pingStopped :: "pingAttempt \<Rightarrow> watchdog \<Rightarrow> watchdog" where
  "pingStopped a w = send ''stopped'' a w"

text \<open>\<open>Run\<close>: what it remembers before the first tick, and the ticks with what each sent.\<close>

definition begin_watching :: "liveness \<Rightarrow> instant \<Rightarrow> watchdog \<Rightarrow> watchdog" where
  "begin_watching now t w = w\<lparr>wd_last := now, wd_recorded := t\<rparr>"

fun ticks :: "(liveness \<times> instant \<times> pingAttempt) list \<Rightarrow> watchdog \<Rightarrow> (instant \<times> string option) list" where
  "ticks [] w = []"
| "ticks ((now, t, a) # ts) w = (t, fst (tick now t a w)) # ticks ts (snd (tick now t a w))"

section \<open>What a page is told\<close>

definition known :: "'a \<Rightarrow> 'a \<Rightarrow> 'a option" where
  "known zero v = (if v = zero then None else Some v)"

record watchdogSnapshot =
  ss_Configured :: bool
  ss_Interval :: "duration option"
  ss_LastDecisionAt :: "instant option"
  ss_LastAttemptAt :: "instant option"
  ss_LastSuccessAt :: "instant option"
  ss_LastResult :: "string option"
  ss_LastStatusCode :: "int option"
  ss_LastEvent :: "string option"
  ss_Suppressed :: bool
  ss_InFlight :: bool
  ss_Overdue :: bool

definition Snapshot :: "instant \<Rightarrow> watchdog option \<Rightarrow> watchdogSnapshot" where
  "Snapshot now wd =
     (case wd of
        None \<Rightarrow> \<lparr>ss_Configured = False, ss_Interval = None, ss_LastDecisionAt = None, ss_LastAttemptAt = None, ss_LastSuccessAt = None,
          ss_LastResult = None, ss_LastStatusCode = None, ss_LastEvent = None, ss_Suppressed = False, ss_InFlight = False, ss_Overdue = False\<rparr>
      | Some w \<Rightarrow>
          let h = wd_history w; reference = (if is_zero (hi_decision h) then wd_createdAt w else hi_decision h) in
          \<lparr>ss_Configured = True, ss_Interval = known 0 (wd_interval w), ss_LastDecisionAt = known 0 (hi_decision h),
           ss_LastAttemptAt = known 0 (hi_attempt h), ss_LastSuccessAt = known 0 (hi_success h), ss_LastResult = known [] (hi_result h),
           ss_LastStatusCode = known 0 (hi_status h), ss_LastEvent = known [] (hi_event h), ss_Suppressed = hi_suppressed h,
           ss_InFlight = hi_inFlight h, ss_Overdue = (wd_interval w + pingTimeout < now - reference)\<rparr>)"

section \<open>What a tick leaves\<close>

lemmas attempt_simps = send_def beginAttempt_def finishAttempt_def Let_def split_def

lemma send_keeps [simp]:
  "wd_last (send e a w) = wd_last w" "wd_recorded (send e a w) = wd_recorded w" "wd_writesFailing (send e a w) = wd_writesFailing w"
  by (simp_all add: attempt_simps)

lemma tick_pipeline:
  "wd_last (snd (tick now t a w)) = now"
  "wd_recorded (snd (tick now t a w)) = wd_recorded (observed now t w)"
  "wd_writesFailing (snd (tick now t a w)) = wd_writesFailing (observed now t w)"
  by (simp_all add: tick_def Let_def) (simp_all add: observed_def Let_def)

lemma tick_sends: "fst (tick now t a w) = (if withheld now t w then None else Some (alive now))"
  by (simp add: tick_def Let_def)

lemma recorded_bound: "wd_recorded w \<le> t \<Longrightarrow> wd_recorded (observed now t w) \<le> t"
  by (simp add: observed_def Let_def)

lemma recorded_grows: "wd_recorded w \<le> t \<Longrightarrow> wd_recorded w \<le> wd_recorded (observed now t w)"
  by (simp add: observed_def Let_def)

text \<open>The times of a list of ticks, each at or after the one before.\<close>

definition in_order :: "instant \<Rightarrow> (liveness \<times> instant \<times> pingAttempt) list \<Rightarrow> bool" where
  "in_order t ts \<longleftrightarrow> sorted (t # map (\<lambda>(now, t, a). t) ts)"

lemma in_order_Cons: "in_order t ((now, u, a) # ts) \<longleftrightarrow> t \<le> u \<and> in_order u ts"
  by (auto simp: in_order_def)

fun after_ticks :: "(liveness \<times> instant \<times> pingAttempt) list \<Rightarrow> watchdog \<Rightarrow> watchdog" where
  "after_ticks [] w = w"
| "after_ticks ((now, t, a) # ts) w = after_ticks ts (snd (tick now t a w))"

lemma ticks_append: "ticks (xs @ ys) w = ticks xs w @ ticks ys (after_ticks xs w)"
  by (induction xs w rule: after_ticks.induct) simp_all

lemma after_ticks_recorded:
  "wd_recorded w \<le> t \<Longrightarrow> in_order t ts \<Longrightarrow> wd_recorded (after_ticks ts w) \<le> last (t # map (\<lambda>(now, t, a). t) ts)"
proof (induction ts w arbitrary: t rule: after_ticks.induct)
  case (2 now u a ts w)
  then have "wd_recorded (snd (tick now u a w)) \<le> u" by (simp add: in_order_Cons tick_pipeline recorded_bound)
  with 2 show ?case by (auto simp: in_order_Cons)
qed simp

lemma after_ticks_last: "wd_last (after_ticks ts w) = last (wd_last w # map fst ts)"
  by (induction ts w rule: after_ticks.induct) (simp_all add: tick_pipeline)

section \<open>Silence\<close>

text \<open>Nothing is recorded any more, while the schedule still asks for checks.\<close>

definition stalled :: "liveness \<Rightarrow> liveness \<Rightarrow> bool" where
  "stalled l now \<longleftrightarrow> lv_ChecksCompleted now = lv_ChecksCompleted l \<and> lv_Scheduled now = lv_Scheduled l \<and> lv_CheckGap now = lv_CheckGap l"

lemma stalled_observed: "lv_Scheduled (wd_last w) \<noteq> 0 \<Longrightarrow> stalled (wd_last w) now \<Longrightarrow> wd_recorded (observed now t w) = wd_recorded w"
  by (simp add: observed_def stalled_def Let_def)

lemma stalled_ticks:
  assumes "lv_Scheduled (wd_last w) \<noteq> 0" "\<forall>(now, t, a) \<in> set ts. stalled (wd_last w) now"
    and "(t, sent) \<in> set (ticks ts w)" "wd_recorded w + lv_CheckGap (wd_last w) < t"
  shows "sent = None"
  using assms
proof (induction ts w rule: ticks.induct)
  case (2 now t' a ts w)
  have s: "stalled (wd_last w) now" using "2.prems"(2) by simp
  have rec: "wd_recorded (snd (tick now t' a w)) = wd_recorded w"
    using stalled_observed [OF "2.prems"(1) s] by (simp add: tick_pipeline)
  from "2.prems"(3) consider "t = t'" "sent = fst (tick now t' a w)" | "(t, sent) \<in> set (ticks ts (snd (tick now t' a w)))" by auto
  then show ?case
  proof cases
    case 1
    then show ?thesis using "2.prems"(1,4) s stalled_observed [OF "2.prems"(1) s, of t']
      by (auto simp: tick_sends withheld_def stalled_def)
  next
    case 2
    show ?thesis
      by (rule "2.IH" [OF _ _ 2]) (use "2.prems" s rec in \<open>auto simp: tick_pipeline stalled_def\<close>)
  qed
qed simp

text \<open>
  C22: When nothing is recorded any more, no ping is sent once the gap the schedule allows has passed since the last
  tick before.
\<close>

theorem dead_pipeline_falls_silent:
  assumes "in_order at0 (before @ dead)" and "l = last (now0 # map fst before)" "lv_Scheduled l \<noteq> 0"
    and "\<forall>(now, t, a) \<in> set dead. stalled l now"
    and "(t, sent) \<in> set (ticks dead (after_ticks before (begin_watching now0 at0 w)))"
    and "last (at0 # map (\<lambda>(now, t, a). t) before) + lv_CheckGap l < t"
  shows "sent = None"
proof -
  let ?w = "after_ticks before (begin_watching now0 at0 w)"
  have "in_order at0 before" using assms(1) by (auto simp: in_order_def sorted_append)
  then have "wd_recorded ?w \<le> last (at0 # map (\<lambda>(now, t, a). t) before)"
    by (intro after_ticks_recorded) (simp_all add: begin_watching_def)
  moreover have "wd_last ?w = l" using assms(2) by (simp add: after_ticks_last begin_watching_def)
  ultimately show ?thesis using stalled_ticks [of ?w dead t sent] assms(3-6) by simp
qed

section \<open>Work\<close>

text \<open>What a pipeline that recorded checks at the given times shows at an instant.\<close>

definition reads :: "instant list \<Rightarrow> nat \<Rightarrow> duration \<Rightarrow> instant \<Rightarrow> liveness \<Rightarrow> bool" where
  "reads recs fails gap t now \<longleftrightarrow> lv_ChecksCompleted now = length (filter (\<lambda>r. r \<le> t) recs) \<and>
     lv_WriteFailures now = fails \<and> lv_CheckGap now = gap \<and> lv_Scheduled now \<noteq> 0"

definition caught_up :: "instant list \<Rightarrow> nat \<Rightarrow> duration \<Rightarrow> instant \<Rightarrow> instant \<Rightarrow> watchdog \<Rightarrow> bool" where
  "caught_up recs fails gap start t w \<longleftrightarrow> reads recs fails gap t (wd_last w) \<and> \<not> wd_writesFailing w \<and>
     start \<le> t \<and> start \<le> wd_recorded w \<and> (\<forall>r \<in> set recs. r \<le> t \<longrightarrow> r \<le> wd_recorded w)"

lemma same_count:
  assumes "t \<le> (u :: instant)" "length (filter (\<lambda>r. r \<le> u) recs) \<le> length (filter (\<lambda>r. r \<le> t) recs)" "r \<in> set recs" "r \<le> u"
  shows "r \<le> t"
proof (rule ccontr)
  assume "\<not> r \<le> t"
  then have "length (filter (\<lambda>r. r \<le> t) (filter (\<lambda>r. r \<le> u) recs)) < length (filter (\<lambda>r. r \<le> u) recs)"
    using assms(3,4) by (intro length_filter_less [of r]) simp_all
  moreover have "filter (\<lambda>r. r \<le> t) (filter (\<lambda>r. r \<le> u) recs) = filter (\<lambda>r. r \<le> t) recs"
    unfolding filter_filter by (rule filter_cong) (use assms(1) in auto)
  ultimately show False using assms(2) by simp
qed

lemma caught_up_tick:
  assumes "caught_up recs fails gap start t w" "t \<le> u" "reads recs fails gap u now"
  shows "caught_up recs fails gap start u (snd (tick now u a w))"
    and "withheld now u w \<Longrightarrow> start + gap < u \<and> (\<forall>r \<in> set recs. r \<le> u \<longrightarrow> r + gap < u)"
proof -
  have last: "lv_CheckGap (wd_last w) = gap" "lv_WriteFailures (wd_last w) = fails" "lv_Scheduled (wd_last w) \<noteq> 0"
    "lv_ChecksCompleted (wd_last w) = length (filter (\<lambda>r. r \<le> t) recs)" "\<not> wd_writesFailing w" "start \<le> t" "start \<le> wd_recorded w"
    using assms(1) by (simp_all add: caught_up_def reads_def)
  have now: "lv_CheckGap now = gap" "lv_WriteFailures now = fails" "lv_Scheduled now \<noteq> 0"
    "lv_ChecksCompleted now = length (filter (\<lambda>r. r \<le> u) recs)" using assms(3) by (simp_all add: reads_def)
  have seen: "r \<le> wd_recorded w" if "\<not> lv_ChecksCompleted (wd_last w) < lv_ChecksCompleted now" "r \<in> set recs" "r \<le> u" for r
    using same_count [OF assms(2), of recs r] that assms(1) last(4) now(4) by (simp add: caught_up_def)
  let ?o = "observed now u w"
  have o: "\<not> wd_writesFailing ?o" "wd_recorded ?o = (if lv_ChecksCompleted (wd_last w) < lv_ChecksCompleted now then u else wd_recorded w)"
    using last(1-3,5) now(1,2) by (simp_all add: observed_def Let_def)
  have recs: "r \<le> wd_recorded ?o" if "r \<in> set recs" "r \<le> u" for r using seen that o(2) by simp
  have start: "start \<le> wd_recorded ?o" "start \<le> u" using o(2) last(6,7) assms(2) by simp_all
  show "caught_up recs fails gap start u (snd (tick now u a w))"
    using assms(3) o(1) recs start by (simp add: caught_up_def tick_pipeline)
  assume "withheld now u w"
  then have "gap < u - wd_recorded ?o" using o(1) now(1) by (simp add: withheld_def)
  then show "start + gap < u \<and> (\<forall>r \<in> set recs. r \<le> u \<longrightarrow> r + gap < u)" using recs start(1) by fastforce
qed

text \<open>
  C23: While checks are recorded at least as often as the schedule says, and no write fails, no ping is withheld.
\<close>

theorem working_pipeline_always_pings:
  assumes "in_order start ts" "reads recs fails gap start now0" "\<not> wd_writesFailing w"
    and "\<forall>(now, t, a) \<in> set ts. reads recs fails gap t now \<and> (t \<le> start + gap \<or> (\<exists>r \<in> set recs. t \<le> r + gap \<and> r \<le> t))"
  shows "\<forall>(t, sent) \<in> set (ticks ts (begin_watching now0 start w)). sent \<noteq> None"
proof -
  have all: "\<forall>(t, sent) \<in> set (ticks ts v). sent \<noteq> None"
    if "caught_up recs fails gap start t v" "in_order t ts"
      "\<forall>(now, t, a) \<in> set ts. reads recs fails gap t now \<and> (t \<le> start + gap \<or> (\<exists>r \<in> set recs. t \<le> r + gap \<and> r \<le> t))" for v t
    using that
  proof (induction ts v arbitrary: t rule: ticks.induct)
    case (2 now u a ts v)
    have u: "t \<le> u" "in_order u ts" and r: "reads recs fails gap u now" using "2.prems"(2,3) by (auto simp: in_order_Cons)
    note step = caught_up_tick [OF "2.prems"(1) u(1) r]
    have "u \<le> start + gap \<or> (\<exists>r \<in> set recs. u \<le> r + gap \<and> r \<le> u)" using "2.prems"(3) by simp
    then have "\<not> withheld now u v" using step(2) by (meson not_le)
    moreover have "\<forall>(t, sent) \<in> set (ticks ts (snd (tick now u a v))). sent \<noteq> None"
      by (rule "2.IH" [OF step(1) u(2)]) (use "2.prems"(3) in auto)
    ultimately show ?case by (simp add: tick_sends)
  qed simp
  show ?thesis by (rule all [of start]) (use assms in \<open>simp_all add: caught_up_def begin_watching_def\<close>)
qed

section \<open>Examples\<close>

definition sample_attempt :: pingAttempt where
  "sample_attempt = \<lparr>at_began = 0, at_outcome = Answered 200, at_ended = 0\<rparr>"

definition sample_reading :: "nat \<Rightarrow> liveness" where
  "sample_reading n = \<lparr>lv_ChecksCompleted = n, lv_Scheduled = 2, lv_CheckGap = minutes 61, lv_WriteFailures = 0\<rparr>"

lemma dead_pipeline_falls_silent_witness:
  "(minutes 130, None) \<in> set (ticks [(sample_reading 4, minutes 125, sample_attempt), (sample_reading 4, minutes 130, sample_attempt)]
     (after_ticks [(sample_reading 4, minutes 65, sample_attempt)] (begin_watching (sample_reading 3) (minutes 60) (new_watchdog 0 0))))"
proof -
  let ?b = "[(sample_reading 4, minutes 65, sample_attempt)]"
  let ?d = "[(sample_reading 4, minutes 125, sample_attempt), (sample_reading 4, minutes 130, sample_attempt)]"
  let ?w = "after_ticks ?b (begin_watching (sample_reading 3) (minutes 60) (new_watchdog 0 0))"
  have "(minutes 130, fst (tick (sample_reading 4) (minutes 130) sample_attempt (snd (tick (sample_reading 4) (minutes 125) sample_attempt ?w))))
      \<in> set (ticks ?d ?w)" by simp
  moreover from this have "fst (tick (sample_reading 4) (minutes 130) sample_attempt (snd (tick (sample_reading 4) (minutes 125) sample_attempt ?w))) = None"
    by (intro dead_pipeline_falls_silent [of "minutes 60" ?b ?d "sample_reading 4" "sample_reading 3" "minutes 130" _ "new_watchdog 0 0"])
      (simp_all add: in_order_def stalled_def sample_reading_def)
  ultimately show ?thesis by simp
qed

lemma working_pipeline_always_pings_witness:
  "list_all (\<lambda>x. snd x \<noteq> None) (ticks [(sample_reading 1, minutes 65, sample_attempt), (sample_reading 2, minutes 125, sample_attempt)]
     (begin_watching (sample_reading 0) (minutes 60) (new_watchdog 0 0)))" (is "list_all _ ?ts")
proof -
  have "\<forall>(t, sent) \<in> set ?ts. sent \<noteq> None"
    by (rule working_pipeline_always_pings [of "minutes 60" _ "[minutes 64, minutes 124]" 0 "minutes 61"])
      (simp_all add: in_order_def reads_def sample_reading_def new_watchdog_def)
  then show ?thesis by (auto simp: list_all_iff)
qed

end
