(* ===== verification/StatusHistory.thy ===== *)
theory StatusHistory
  imports Retention Clock
begin

text \<open>
  What a public status page shows of a monitor's past (\<open>internal/statuspage/history.go\<close>, \<open>status.go\<close>) and the facts it is
  read from (\<open>internal/store/status_page_history.go\<close>). A zone is its offset over time; a percentage is the number of
  hundredths of a percent. The text of a date is the number of its civil day.
\<close>

section \<open>The facts\<close>

record historyHour =
  sh_Hour :: instant
  sh_Up :: int
  sh_Down :: int
  sh_Warning :: int
  sh_Unassessed :: int
  sh_Maintenance :: int

text \<open>The rows of the inner query: one for each summary and one for each heartbeat, keyed by the hour.\<close>

definition hour_row :: "hour \<Rightarrow> int \<times> historyHour" where
  "hour_row h = (ho_Bucket h,
     \<lparr>sh_Hour = of_Unix (ho_Bucket h), sh_Up = ho_AssessedUp h, sh_Down = ho_AssessedDown h, sh_Warning = ho_Warning h,
      sh_Unassessed = ho_Up h + ho_Down h - ho_AssessedUp h - ho_AssessedDown h - ho_Warning h - ho_Maintenance h,
      sh_Maintenance = ho_Maintenance h\<rparr>)"

definition beat_row :: "heartbeat \<Rightarrow> int \<times> historyHour" where
  "beat_row h =
     (let is = (\<lambda>a. of_bool (\<not> hb_Maintenance h \<and> hb_Assessment h = a)) in
      (bucket_of h, \<lparr>sh_Hour = of_Unix (bucket_of h), sh_Up = is ''up'', sh_Down = is ''down'', sh_Warning = is ''warning'',
         sh_Unassessed = is [], sh_Maintenance = of_bool (hb_Maintenance h)\<rparr>))"

definition add_hours :: "historyHour \<Rightarrow> historyHour \<Rightarrow> historyHour" where
  "add_hours a b = \<lparr>sh_Hour = sh_Hour a, sh_Up = sh_Up a + sh_Up b, sh_Down = sh_Down a + sh_Down b, sh_Warning = sh_Warning a + sh_Warning b,
     sh_Unassessed = sh_Unassessed a + sh_Unassessed b, sh_Maintenance = sh_Maintenance a + sh_Maintenance b\<rparr>"

definition no_checks :: "int \<Rightarrow> historyHour" where
  "no_checks bucket = \<lparr>sh_Hour = of_Unix bucket, sh_Up = 0, sh_Down = 0, sh_Warning = 0, sh_Unassessed = 0, sh_Maintenance = 0\<rparr>"

definition StatusHistoryHours :: "archive \<Rightarrow> int \<Rightarrow> instant \<Rightarrow> historyHour list" where
  "StatusHistoryHours s m since =
     (let fr = Unix (to_hour since);
          rows = map hour_row (filter (\<lambda>h. ho_MonitorID h = m \<and> fr \<le> ho_Bucket h) (ar_hours s)) @
            map beat_row (filter (\<lambda>h. hb_MonitorID h = m \<and> fr \<le> Unix (hb_TS h)) (db_heartbeats (ar_db s)))
      in map (\<lambda>b. foldl add_hours (no_checks b) (map snd (filter (\<lambda>r. fst r = b) rows))) (sorted_list_of_set (fst ` set rows)))"

text \<open>A stretch of time; an end of 0 is none yet. Incidents are listed by start, then by id.\<close>

record stretch =
  st_Start :: instant
  st_End :: instant

definition ConfirmedIncidentSpans :: "database \<Rightarrow> int \<Rightarrow> instant \<Rightarrow> stretch list" where
  "ConfirmedIncidentSpans s m since =
     map (\<lambda>x. \<lparr>st_Start = of_Unix (Unix (i_StartedAt x)),
               st_End = (case i_ResolvedAt x of None \<Rightarrow> 0 | Some t \<Rightarrow> of_Unix (Unix t))\<rparr>)
       (sort_key (\<lambda>x. Unix (i_StartedAt x)) (sort_key i_ID (filter (\<lambda>x. i_MonitorID x = m \<and> i_ConfirmedAt x \<noteq> None \<and> \<not> i_Notice x \<and>
          (case i_ResolvedAt x of None \<Rightarrow> True | Some t \<Rightarrow> Unix since \<le> Unix t)) (db_incidents s))))"

section \<open>The state now\<close>

datatype publicStatus = PublicUp | PublicDegraded | PublicDown | PublicNoData | PublicNotMonitored

record live =
  li_Enabled :: bool
  li_Checked :: bool
  li_Confirmed :: bool
  li_Recovering :: bool
  li_Notice :: bool

definition PublicStatus :: "live \<Rightarrow> publicStatus" where
  "PublicStatus l =
     (if \<not> li_Enabled l then PublicNotMonitored
      else if li_Recovering l \<and> li_Confirmed l then PublicDegraded
      else if li_Confirmed l then PublicDown
      else if \<not> li_Checked l then PublicNoData
      else PublicUp)"

section \<open>Spans\<close>

definition span_end :: "stretch \<Rightarrow> instant \<Rightarrow> instant" where
  "span_end c now = (if is_zero (st_End c) then now else st_End c)"

definition subtract_one :: "instant \<Rightarrow> stretch \<Rightarrow> stretch \<Rightarrow> stretch list" where
  "subtract_one now c p =
     (let stop = span_end c now in
      if \<not> st_Start c < st_End p \<or> \<not> st_Start p < stop then [p]
      else (if st_Start p < st_Start c then [\<lparr>st_Start = st_Start p, st_End = st_Start c\<rparr>] else []) @
           (if stop < st_End p then [\<lparr>st_Start = stop, st_End = st_End p\<rparr>] else []))"

definition subtract :: "stretch \<Rightarrow> stretch list \<Rightarrow> instant \<Rightarrow> stretch list" where
  "subtract s cuts now = foldl (\<lambda>pieces c. concat (map (subtract_one now c) pieces)) [s] cuts"

definition overlap :: "stretch \<Rightarrow> instant \<Rightarrow> instant \<Rightarrow> duration" where
  "overlap s from till =
     (let start = max (st_Start s) from; stop = min (st_End s) till in if start < stop then stop - start else 0)"

section \<open>Days\<close>

definition HistoryDays :: nat where
  "HistoryDays = 90"

definition RecentDays :: nat where
  "RecentDays = 30"

definition OutageWindow :: duration where
  "OutageWindow = hours (14 * 24)"

definition daysBack :: "zone \<Rightarrow> instant \<Rightarrow> nat \<Rightarrow> instant" where
  "daysBack z now n = Date z (at_minute (day_of (local z now) - (int n - 1)) 0)"

definition Since :: "zone \<Rightarrow> instant \<Rightarrow> instant" where
  "Since z now = daysBack z now HistoryDays"

definition RecentSince :: "zone \<Rightarrow> instant \<Rightarrow> instant" where
  "RecentSince z now = daysBack z now RecentDays"

text \<open>\<open>sort.Search(n, f)\<close>: the first index at which \<open>f\<close> holds, if it holds from there on.\<close>

function search :: "(nat \<Rightarrow> bool) \<Rightarrow> nat \<Rightarrow> nat \<Rightarrow> nat" where
  "search f i j = (if i < j then let h = (i + j) div 2 in if f h then search f i h else search f (h + 1) j else i)"
  by pat_completeness auto
termination by (relation "measure (\<lambda>(f, i, j). j - i)") auto

declare search.simps [simp del]

record pageHistory =
  hy_Hours :: "historyHour list"
  hy_Incidents :: "stretch list"
  hy_Maintenance :: "stretch list"

datatype dayState = DayUp | DayDegraded | DayDown | DayNoData

record publicDay =
  dy_Date :: int
  dy_State :: dayState
  dy_DownMinutes :: int

definition day_bound :: "zone \<Rightarrow> instant \<Rightarrow> nat \<Rightarrow> instant" where
  "day_bound z now i = Date z (at_minute (day_of (local z (Since z now)) + int i) 0)"

definition dayOf :: "zone \<Rightarrow> instant \<Rightarrow> instant \<Rightarrow> int" where
  "dayOf z now t = int (search (\<lambda>i. t < day_bound z now i) 0 (HistoryDays + 1)) - 1"

text \<open>The confirmed incident time outside maintenance, as pieces.\<close>

definition incident_end :: "instant \<Rightarrow> stretch \<Rightarrow> instant" where
  "incident_end now inc = (if is_zero (st_End inc) \<or> now < st_End inc then now else st_End inc)"

definition down_pieces :: "pageHistory \<Rightarrow> instant \<Rightarrow> stretch list" where
  "down_pieces h now =
     concat (map (\<lambda>inc. subtract \<lparr>st_Start = st_Start inc, st_End = incident_end now inc\<rparr> (hy_Maintenance h) now) (hy_Incidents h))"

definition down_time :: "pageHistory \<Rightarrow> instant \<Rightarrow> zone \<Rightarrow> nat \<Rightarrow> duration" where
  "down_time h now z i = sum_list (map (\<lambda>p. overlap p (day_bound z now i) (day_bound z now (i + 1))) (down_pieces h now))"

definition minutes_up :: "duration \<Rightarrow> int" where
  "minutes_up d = - (- d div minutes 1)"

definition day_checks :: "(historyHour \<Rightarrow> int) \<Rightarrow> pageHistory \<Rightarrow> instant \<Rightarrow> zone \<Rightarrow> nat \<Rightarrow> int" where
  "day_checks f h now z i = sum_list (map f (filter (\<lambda>hr. dayOf z now (sh_Hour hr) = int i) (hy_Hours h)))"

definition Days :: "pageHistory \<Rightarrow> instant \<Rightarrow> zone \<Rightarrow> publicDay list" where
  "Days h now z = map (\<lambda>i.
     let down = minutes_up (down_time h now z i) in
     \<lparr>dy_Date = day_of (local z (day_bound z now i)),
      dy_State = (if 0 < down \<or> 0 < day_checks sh_Down h now z i then DayDown
        else if 0 < day_checks sh_Warning h now z i then DayDegraded
        else if 0 < day_checks (\<lambda>hr. sh_Up hr + sh_Unassessed hr) h now z i then DayUp
        else DayNoData),
      dy_DownMinutes = down\<rparr>) [0..<HistoryDays]"

section \<open>The percentage\<close>

definition UptimeOf :: "historyHour list \<Rightarrow> int option" where
  "UptimeOf hs =
     (let up = sum_list (map sh_Up hs); down = sum_list (map sh_Down hs) in
      if up + down = 0 then None else Some (up * 10000 sdiv (up + down)))"

definition UptimeFrom :: "historyHour list \<Rightarrow> instant \<Rightarrow> int option" where
  "UptimeFrom hs from = UptimeOf (filter (\<lambda>h. \<not> sh_Hour h < from) hs)"

section \<open>Outages\<close>

record pageOutage =
  ou_Key :: string
  ou_StartedAt :: instant
  ou_ResolvedAt :: "instant option"
  ou_DurationS :: int

definition outage_of :: "string \<Rightarrow> stretch list \<Rightarrow> instant \<Rightarrow> stretch \<Rightarrow> pageOutage option" where
  "outage_of key maintenance now inc =
     (if \<not> is_zero (st_End inc) \<and> st_End inc < now - OutageWindow then None
      else if now < st_Start inc then None
      else if subtract \<lparr>st_Start = st_Start inc, st_End = incident_end now inc\<rparr> maintenance now = [] then None
      else
        let resolved = (\<not> is_zero (st_End inc) \<and> \<not> now < st_End inc); stop = (if resolved then st_End inc else now); d = stop - st_Start inc
        in Some \<lparr>ou_Key = key, ou_StartedAt = st_Start inc, ou_ResolvedAt = (if resolved then Some (st_End inc) else None),
                 ou_DurationS = (if 0 < d then d sdiv seconds 1 else 0)\<rparr>)"

text \<open>Newest first; equal starts keep their order.\<close>

definition newest_first :: "pageOutage list \<Rightarrow> pageOutage list" where
  "newest_first = sort_key (\<lambda>o'. - ou_StartedAt o')"

definition Outages :: "string \<Rightarrow> stretch list \<Rightarrow> stretch list \<Rightarrow> instant \<Rightarrow> pageOutage list" where
  "Outages key incidents maintenance now = newest_first (List.map_filter (outage_of key maintenance now) incidents)"

end
