(* ===== verification/StatusDays.thy ===== *)
theory StatusDays
  imports StatusHistory
begin

text \<open>
  The history bar tells the truth: a day is red exactly when the monitor was down on it outside maintenance, an outage
  is listed exactly when some of it was, and 100% is said only of an uptime without a failure.
\<close>

section \<open>Spans as sets of instants\<close>

definition inside :: "instant \<Rightarrow> stretch \<Rightarrow> bool" where
  "inside t s \<longleftrightarrow> st_Start s \<le> t \<and> t < st_End s"

definition covered :: "stretch list \<Rightarrow> instant \<Rightarrow> instant \<Rightarrow> bool" where
  "covered cuts now t \<longleftrightarrow> (\<exists>c \<in> set cuts. st_Start c \<le> t \<and> t < span_end c now)"

lemma subtract_one_points:
  "(\<exists>q \<in> set (subtract_one now c p). inside t q) \<longleftrightarrow> inside t p \<and> \<not> (st_Start c \<le> t \<and> t < span_end c now)"
  by (auto simp: subtract_one_def Let_def inside_def)

lemma subtract_fold:
  "(\<exists>q \<in> set (foldl (\<lambda>pieces c. concat (map (subtract_one now c) pieces)) ps cuts). inside t q) \<longleftrightarrow>
    (\<exists>p \<in> set ps. inside t p) \<and> \<not> covered cuts now t"
proof (induction cuts arbitrary: ps)
  case (Cons c cuts)
  have "(\<exists>p \<in> set (concat (map (subtract_one now c) ps)). inside t p) \<longleftrightarrow>
      (\<exists>p \<in> set ps. inside t p) \<and> \<not> (st_Start c \<le> t \<and> t < span_end c now)"
    using subtract_one_points [of now c _ t] by auto
  then show ?case using Cons by (auto simp: covered_def)
qed (simp add: covered_def)

lemma subtract_points: "(\<exists>q \<in> set (subtract s cuts now). inside t q) \<longleftrightarrow> inside t s \<and> \<not> covered cuts now t"
  using subtract_fold [of now "[s]" cuts t] by (simp add: subtract_def)

text \<open>No piece is empty, if what was cut was not.\<close>

lemma subtract_one_proper: "st_Start p < st_End p \<Longrightarrow> q \<in> set (subtract_one now c p) \<Longrightarrow> st_Start q < st_End q"
  by (auto simp: subtract_one_def Let_def split: if_splits)

lemma subtract_proper:
  assumes "st_Start s < st_End s" "q \<in> set (subtract s cuts now)" shows "st_Start q < st_End q"
proof -
  have "\<forall>q \<in> set (foldl (\<lambda>pieces c. concat (map (subtract_one now c) pieces)) ps cuts). st_Start q < st_End q"
    if "\<forall>p \<in> set ps. st_Start p < st_End p" for ps
    using that
  proof (induction cuts arbitrary: ps)
    case (Cons c cuts)
    have "\<forall>p \<in> set (concat (map (subtract_one now c) ps)). st_Start p < st_End p"
      using Cons.prems subtract_one_proper by auto
    from Cons.IH [OF this] show ?case by simp
  qed simp
  from this [of "[s]"] show ?thesis using assms by (simp add: subtract_def)
qed

lemma overlap_pos: "0 < overlap s from till \<longleftrightarrow> (\<exists>t. inside t s \<and> from \<le> t \<and> t < till)"
proof
  assume "0 < overlap s from till"
  then have "max (st_Start s) from < min (st_End s) till" by (simp add: overlap_def Let_def split: if_splits)
  then show "\<exists>t. inside t s \<and> from \<le> t \<and> t < till" by (intro exI [of _ "max (st_Start s) from"]) (auto simp: inside_def)
qed (auto simp: overlap_def Let_def inside_def)

lemma overlap_nonneg: "0 \<le> overlap s from till"
  by (simp add: overlap_def Let_def)

lemma sum_list_pos: "(\<And>x. x \<in> set xs \<Longrightarrow> 0 \<le> f x) \<Longrightarrow> 0 < (\<Sum>x\<leftarrow>xs. f x :: int) \<longleftrightarrow> (\<exists>x \<in> set xs. 0 < f x)"
proof (induction xs)
  case (Cons x xs)
  have "0 \<le> (\<Sum>x\<leftarrow>xs. f x)" using Cons.prems by (intro sum_list_nonneg) auto
  moreover have "0 \<le> f x" "0 < (\<Sum>x\<leftarrow>xs. f x) \<longleftrightarrow> (\<exists>x \<in> set xs. 0 < f x)" using Cons by simp_all
  ultimately show ?case by auto
qed simp

lemma minutes_up_pos: "0 < minutes_up d \<longleftrightarrow> 0 < d"
  by (auto simp: minutes_up_def div_less_iff_less_mult)

section \<open>Days\<close>

text \<open>An instant at which the monitor was down for visitors: in a confirmed incident, and in no maintenance.\<close>

definition down_at :: "pageHistory \<Rightarrow> instant \<Rightarrow> instant \<Rightarrow> bool" where
  "down_at h now t \<longleftrightarrow> (\<exists>inc \<in> set (hy_Incidents h). st_Start inc \<le> t \<and> t < incident_end now inc) \<and> \<not> covered (hy_Maintenance h) now t"

lemma down_pieces_points: "(\<exists>q \<in> set (down_pieces h now). inside t q) \<longleftrightarrow> down_at h now t"
proof -
  have "(\<exists>q \<in> set (down_pieces h now). inside t q) \<longleftrightarrow>
      (\<exists>inc \<in> set (hy_Incidents h). \<exists>q \<in> set (subtract \<lparr>st_Start = st_Start inc, st_End = incident_end now inc\<rparr> (hy_Maintenance h) now). inside t q)"
    by (auto simp: down_pieces_def)
  then show ?thesis unfolding subtract_points by (auto simp: inside_def down_at_def)
qed

lemma down_time_pos:
  "0 < down_time h now z i \<longleftrightarrow> (\<exists>t. day_bound z now i \<le> t \<and> t < day_bound z now (i + 1) \<and> down_at h now t)"
proof -
  have "0 < down_time h now z i \<longleftrightarrow> (\<exists>p \<in> set (down_pieces h now). 0 < overlap p (day_bound z now i) (day_bound z now (i + 1)))"
    unfolding down_time_def by (rule sum_list_pos) (rule overlap_nonneg)
  also have "\<dots> \<longleftrightarrow> (\<exists>t. day_bound z now i \<le> t \<and> t < day_bound z now (i + 1) \<and> (\<exists>p \<in> set (down_pieces h now). inside t p))"
    unfolding overlap_pos by blast
  finally show ?thesis unfolding down_pieces_points .
qed

text \<open>
  C25: A day of the history bar is red exactly when the monitor was in a confirmed incident at some instant of it
  outside every maintenance, or a check of that day counted as down.
\<close>

theorem day_is_red_iff_down:
  assumes "i < HistoryDays"
  shows "dy_State (Days h now z ! i) = DayDown \<longleftrightarrow>
    (\<exists>t. day_bound z now i \<le> t \<and> t < day_bound z now (i + 1) \<and> down_at h now t) \<or> 0 < day_checks sh_Down h now z i"
  using assms unfolding down_time_pos [symmetric] by (simp add: Days_def Let_def minutes_up_pos)

section \<open>Outages\<close>

text \<open>An outage is listed exactly when it is recent and some of it fell outside maintenance.\<close>

lemma outage_listed_iff:
  assumes "st_Start inc < incident_end now inc"
  shows "outage_of key maintenance now inc \<noteq> None \<longleftrightarrow> (is_zero (st_End inc) \<or> now - OutageWindow \<le> st_End inc) \<and>
    (\<exists>t. st_Start inc \<le> t \<and> t < incident_end now inc \<and> \<not> covered maintenance now t)"
proof -
  let ?s = "\<lparr>st_Start = st_Start inc, st_End = incident_end now inc\<rparr>"
  have "subtract ?s maintenance now \<noteq> [] \<longleftrightarrow> (\<exists>t. \<exists>q \<in> set (subtract ?s maintenance now). inside t q)"
  proof -
    have "inside (st_Start q) q" if "q \<in> set (subtract ?s maintenance now)" for q
      using subtract_proper [OF _ that] assms by (simp add: inside_def)
    then show ?thesis by (cases "subtract ?s maintenance now") auto
  qed
  then have "subtract ?s maintenance now \<noteq> [] \<longleftrightarrow> (\<exists>t. st_Start inc \<le> t \<and> t < incident_end now inc \<and> \<not> covered maintenance now t)"
    unfolding subtract_points by (simp add: inside_def conj_assoc)
  moreover have "\<not> now < st_Start inc" using assms by (auto simp: incident_end_def split: if_splits)
  ultimately show ?thesis by (auto simp: outage_of_def Let_def)
qed

text \<open>So an outage that is listed turns a day red: every day with an instant of it outside maintenance.\<close>

lemma listed_outage_is_red:
  assumes "inc \<in> set (hy_Incidents h)" "st_Start inc \<le> t" "t < incident_end now inc" "\<not> covered (hy_Maintenance h) now t"
    and "i < HistoryDays" "day_bound z now i \<le> t" "t < day_bound z now (i + 1)"
  shows "dy_State (Days h now z ! i) = DayDown"
proof -
  have "0 < down_time h now z i" unfolding down_time_pos using assms by (auto simp: down_at_def)
  then show ?thesis using assms(5) by (simp add: Days_def Let_def minutes_up_pos)
qed

section \<open>The percentage\<close>

text \<open>100% is said of an uptime without a failure only.\<close>

lemma hundred_percent_iff:
  assumes "\<forall>h \<in> set hs. 0 \<le> sh_Up h \<and> 0 \<le> sh_Down h"
  shows "UptimeOf hs = Some 10000 \<longleftrightarrow> sum_list (map sh_Down hs) = 0 \<and> 0 < sum_list (map sh_Up hs)"
proof -
  have "0 \<le> sum_list (map sh_Up hs)" "0 \<le> sum_list (map sh_Down hs)" using assms by (auto intro!: sum_list_nonneg)
  moreover have "u * 10000 div (u + d) = 10000 \<longleftrightarrow> d = 0" if "0 \<le> u" "0 \<le> d" "u + d \<noteq> 0" for u d :: int
  proof
    assume "u * 10000 div (u + d) = 10000"
    then have "10000 * (u + d) + u * 10000 mod (u + d) = u * 10000" using div_mult_mod_eq [of "u * 10000" "u + d"] by metis
    moreover have "0 \<le> u * 10000 mod (u + d)" using that by simp
    ultimately have "10000 * (u + d) \<le> u * 10000" by linarith
    then show "d = 0" using that by simp
  qed (use that in simp)
  ultimately show ?thesis by (auto simp: UptimeOf_def Let_def signed_divide_int_def sgn_if abs_if split: if_splits)
qed

section \<open>Examples\<close>

definition one_outage :: pageHistory where
  "one_outage = \<lparr>hy_Hours = [], hy_Incidents = [\<lparr>st_Start = at_minute 739136 600, st_End = at_minute 739136 660\<rparr>],
     hy_Maintenance = [\<lparr>st_Start = at_minute 739136 610, st_End = at_minute 739136 620\<rparr>]\<rparr>"

lemma utc_bound: "day_bound (\<lambda>_. 0) now i = at_minute (day_of now - 89 + int i) 0"
proof -
  have "day_of (at_minute d 0) = d" for d by (rule at_minute_parts) simp_all
  then show ?thesis by (simp add: day_bound_def Since_def daysBack_def Date_def local_def HistoryDays_def)
qed

lemma day_is_red_iff_down_witness: "dy_State (Days one_outage (at_minute 739136 720) (\<lambda>_. 0) ! 89) = DayDown"
proof -
  have "day_of (at_minute 739136 720) = 739136" by (rule at_minute_parts) simp_all
  then have b: "day_bound (\<lambda>_. 0) (at_minute 739136 720) 89 = at_minute 739136 0"
    "day_bound (\<lambda>_. 0) (at_minute 739136 720) (89 + 1) = at_minute 739137 0" by (simp_all add: utc_bound)
  have "\<exists>t. at_minute 739136 0 \<le> t \<and> t < at_minute 739137 0 \<and> down_at one_outage (at_minute 739136 720) t"
    by (rule exI [of _ "at_minute 739136 600"])
      (simp add: down_at_def one_outage_def covered_def span_end_def incident_end_def at_minute_def)
  then show ?thesis using day_is_red_iff_down [of 89 one_outage "at_minute 739136 720" "\<lambda>_. 0"] b by (auto simp: HistoryDays_def)
qed

text \<open>
  Santiago, where clocks jumped from midnight to one on 8 September 2024: midnight of that day is taken an hour early, so
  its bar is dated the day before. Eighty-nine days later it is the oldest day, all bars are a day early, and what is
  checked that day is in none of them.
\<close>

definition santiago :: zone where
  "santiago u = (if u < 1725768000 then - 14400 else - 10800)"

lemma Unix_at_minute: "Unix (at_minute d m) = d * 86400 + m * 60 - 62135596800"
proof -
  have "at_minute d m = (d * 86400 + m * 60) * 1000000000" by (simp add: at_minute_def)
  then show ?thesis unfolding Unix_def by (simp only: nonzero_mult_div_cancel_right)
qed

lemma search_none: "i \<le> j \<Longrightarrow> (\<And>k. i \<le> k \<Longrightarrow> k < j \<Longrightarrow> \<not> f k) \<Longrightarrow> search f i j = j"
proof (induction f i j rule: search.induct)
  case (1 f i j)
  show ?case
  proof (cases "i < j")
    case True
    then have "\<not> f ((i + j) div 2)" using 1(4) by simp
    moreover have "search f ((i + j) div 2 + 1) j = j" by (rule 1(2)) (use True calculation 1(4) in auto)
    ultimately show ?thesis using True by (subst search.simps) (simp add: Let_def)
  qed (use 1(3) in \<open>simp add: search.simps\<close>)
qed

lemma midnight_gap_shifts_the_days:
  "day_of (local santiago (at_minute 739225 900)) = 739225"
  "dy_Date (last (Days h (at_minute 739225 900) santiago)) = 739224"
  "dayOf santiago (at_minute 739225 900) (at_minute 739225 900) = int HistoryDays"
proof -
  let ?now = "at_minute 739225 900"
  have now: "Unix ?now = 1733497200" by (simp add: Unix_at_minute)
  have here: "local santiago ?now = at_minute 739225 720" by (simp add: local_def now santiago_def) (simp add: at_minute_def)
  then show today: "day_of (local santiago ?now) = 739225" using at_minute_parts(1) [of 720 739225] by simp
  have "Since santiago ?now = at_minute 739136 180"
    by (simp add: Since_def daysBack_def today HistoryDays_def Date_def Unix_at_minute santiago_def) (simp add: at_minute_def)
  moreover have "local santiago (at_minute 739136 180) = at_minute 739135 1380"
    by (simp add: local_def Unix_at_minute santiago_def) (simp add: at_minute_def)
  ultimately have first: "day_of (local santiago (Since santiago ?now)) = 739135" using at_minute_parts(1) [of 1380 739135] by simp
  have last: "day_bound santiago ?now 89 = at_minute 739224 180"
    by (simp add: day_bound_def first Date_def Unix_at_minute santiago_def) (simp add: at_minute_def)
  have "local santiago (at_minute 739224 180) = at_minute 739224 0" by (simp add: local_def Unix_at_minute santiago_def) (simp add: at_minute_def)
  then have "day_of (local santiago (day_bound santiago ?now 89)) = 739224" using at_minute_parts(1) [of 0 739224] by (simp add: last)
  then show "dy_Date (last (Days h ?now santiago)) = 739224" by (simp add: Days_def HistoryDays_def last_map Let_def)
  have "\<not> ?now < day_bound santiago ?now k" if "k < 91" for k
  proof -
    have "day_bound santiago ?now k \<le> at_minute (739135 + int k) 0 + seconds 14400"
      by (simp add: day_bound_def first Date_def santiago_def)
    also have "\<dots> \<le> ?now" using that by (simp add: at_minute_def)
    finally show ?thesis by simp
  qed
  then have "search (\<lambda>i. ?now < day_bound santiago ?now i) 0 91 = 91" by (intro search_none) simp_all
  then show "dayOf santiago ?now ?now = int HistoryDays" by (simp add: dayOf_def HistoryDays_def)
qed

end
