(* ===== verification/Spec2Isabelle.thy ===== *)
theory Spec2Isabelle
  imports EngineRuns Reminder EventBus SchedulerRuns CanaryRuns DeliveryRuns PushRuns ProcessRuns HeldRuns Guard TrustedProxy MuteLink
    SignOut Authority Guessing AccountProps QuietHours Maintenance RoutingRuns Fit RetentionProps RetentionRuns
    Housekeeping Watchdog StatusDays
begin

text \<open>
  SubGlance: from a check to an alert, and who may change what.

  \<^bold>\<open>The program.\<close> One process watches monitors. The scheduler (\<open>internal/scheduler\<close>) runs a check of every monitor
  within its cadence; the runner (\<open>internal/monitor/runner.go\<close>) records each outcome, asks the canary
  (\<open>internal/connectivity\<close>) whether a failure is this host's own, drives the state engine (\<open>internal/state\<close>) and writes
  incidents; the event bus (\<open>internal/events\<close>) tells open pages. The notifier (\<open>internal/notifier\<close>) takes what
  the engine wants told, routes it to channels, groups it, keeps it on disk and sends it, around maintenance and
  quiet hours. The API (\<open>internal/api\<close>) lets people sign in and change things. All of it writes one SQLite database
  (\<open>internal/store\<close>).

  \<^bold>\<open>Theories and code.\<close> A record of the state stands for a struct or for tables, one definition for each function
  under the function's name where Isabelle allows it; a method that writes returns the new state.

  \<^item> Prelude: instants and durations as integers of nanoseconds, \<open>wrap64\<close>, lists and maps. Text, Utf8, Base64, Address
  and Clock: what the code uses of Go's \<open>strconv\<close>, \<open>strings\<close>, \<open>unicode/utf8\<close>, \<open>encoding/base64\<close>, \<open>net/netip\<close> and \<open>time\<close>,
  after their documentation.
  \<^item> StateEngine, EngineInvariant, EngineRuns: \<open>state/engine.go\<close>. The map of monitors is a map to \<open>monitorState\<close>; \<open>Observe\<close>
  is split as the code is into the outcomes, the flapping evaluation and the report. Lemmas: the invariant of one
  monitor's state; the events of a monitor form a word of the incident lifecycle; thresholds; what flapping mutes.
  Reminder: \<open>state/reminder.go\<close> and its 64-bit growth.
  \<^item> DueQueue (a locale: the laws of a queue of due times, and of a machine with an invariant), JobHeap (\<open>container/heap\<close>
  over \<open>jobHeap\<close>, the locale's interpretation), Scheduler, Dispatch, Reload, SchedulerProps, SchedulerRuns:
  \<open>scheduler/scheduler.go\<close>, its goroutines interleaved at the points where the lock is free.
  \<^item> Canary, CanaryRuns: \<open>connectivity/canary.go\<close>, rounds and dials interleaved, refined to an automaton over the events.
  EventBus: \<open>events/bus.go\<close>, with the buffered channel as a list.
  \<^item> Tables: the rows the notifier and the runner share. Incidents, Runner, RunnerProps, RunnerRuns, Restart,
  RestartRuns: \<open>store/incidents.go\<close>, \<open>store/monitors.go\<close>, \<open>monitor/runner.go\<close>; the open incident of each monitor follows
  the engine through outcomes, restarts and reloads. Push, PushRuns: \<open>store/push.go\<close>, \<open>monitor/push.go\<close>.
  \<^item> Alert, AlertProps: \<open>notifier/alert.go\<close>, \<open>order.go\<close> and the digest. Grouper, GrouperRuns: \<open>notifier/group.go\<close>. Outbox,
  OutboxProps: the statements on the queue, the held alerts and quiet or maintained deliveries. Delivery, SweepProps,
  MergeProps, DeliveryRuns: the worker of \<open>notifier/notifier.go\<close>. Intake, IntakeProps, OwedRuns, IntakeRuns, HeldRuns:
  its intake, from \<open>Enqueue\<close> to the batches and their copies on disk, and the promise that a first alert is not lost.
  \<^item> QuietHours: \<open>store/quiet_hours.go\<close>; \<open>quiet_answer_at\<close> is what Delivery takes as an answer. Tags, Maintenance:
  \<open>store/tags.go\<close>, \<open>store/maintenance.go\<close>. Routing, RoutingProps, RoutingRuns: \<open>store/channels.go\<close>, \<open>routing_rules.go\<close>,
  \<open>bulk_channels.go\<close>: who an alert goes to.
  \<^item> Password, Users, SignIn: \<open>auth/auth.go\<close>, \<open>store/users.go\<close>, \<open>sessions.go\<close> and the handlers of \<open>internal/api\<close> that change
  accounts, sessions and tokens. Accounts (the invariant, and where credentials come from), AccountRuns (requests of
  anybody in any order), AccountProps, SignOut, Authority, Guessing: what holds in every run.
  \<^item> Retention, RetentionProps: \<open>store/retention.go\<close>, \<open>sizecap.go\<close> and the uptime of \<open>store/monitors.go\<close>: heartbeats folded
  into hours, what a pass and the limit on the size remove; a locale states what every cut keeps. RetentionSettings,
  RetentionRuns: \<open>store/retention_settings.go\<close> and the page that edits them (\<open>api/retention.go\<close>, \<open>etag.go\<close>), saved from
  several places. Housekeeping: \<open>housekeeping/retention.go\<close> and the time of day of \<open>store/retention_schedule.go\<close>. Watchdog:
  \<open>watchdog/watchdog.go\<close>. Fit: \<open>notifier/fit.go\<close>, with a locale for the search of the longest text that fits.
  \<^item> StatusHistory, StatusDays: \<open>statuspage/history.go\<close>, \<open>status.go\<close> and \<open>store/status_page_history.go\<close>: what a public page says
  of the past, with spans read as sets of instants.
  \<^item> Guard: \<open>checker/guard.go\<close>. TrustedProxy: \<open>trustedproxy/trustedproxy.go\<close>. MuteLink: \<open>mutelink/mutelink.go\<close>, the page
  behind it and which alerts carry it.

  \<^bold>\<open>How runs are modelled.\<close> An operation under one mutex or in one transaction is one step; steps of different
  goroutines interleave freely in the inductive relations \<open>*_step\<close> and \<open>*_run\<close>. A sign-in is two steps, before and
  after the verification of the password; every other handler is one. A database call that fails, a clock reading,
  random bytes and what a sender answers are inputs of the step. Loops are recursion on their data; the loop over
  civil dates is a partial function, shown to return; the walk of \<open>EndAfter\<close> has the code's own bound of three days of
  minutes, and an attempt the code's own six.

  \<^bold>\<open>Parameters and hypotheses.\<close> Hash functions are parameters: \<open>hmac_size\<close> and \<open>argon_size\<close> state the length of what
  they return, and a bulk change assumes an ETag without collisions. Lower case is a parameter, with \<open>ascii_lower\<close> where
  its ASCII part matters. A time zone is its offset over time and the zone database a parameter: \<open>clock_zones\<close>,
  \<open>minute_zone\<close>, \<open>spread_within_day\<close>, \<open>jumps_below\<close>, \<open>civil\<close> and \<open>fair_zone\<close> state what real zones satisfy. Probes, dials, lookups and senders
  are inputs. The promise on owed alerts assumes that a process enqueues the first alert of an outage once, and that
  no failing batch write splits the batches of one outage; HeldRuns shows what happens when one does.

  \<^bold>\<open>What the properties show.\<close> A confirmed outage is told once, after its threshold, in the order it happened, to exactly
  the channels it is routed to, and survives restarts; a monitor is checked on time and never twice at once; holds
  end; the shown maintenance is the active one. Accounts stay well-formed with an administrator, authority does not
  grow, sign-outs last, guessing is limited; addresses and links give away nothing. Old heartbeats are summarised
  without a change of the uptime, daily, and the watchdog speaks exactly while checks are recorded. Closed examples
  show where the code does otherwise: a failing batch write, an address with a zone, a sign-in during a password
  change, a preview of retention, a time of day moved while the loop sleeps, a day whose clocks jump at midnight.

  \<^bold>\<open>Not modelled.\<close> The probes themselves and their results (\<open>checker\<close> beside the guard and the cadence of domains): they
  are network protocols. The senders and the wording of messages (\<open>notifier/email.go\<close>, \<open>sms.go\<close> and so on).
  The pages, lists, validation and configuration files of the API; the rendering of status pages; importers; backup and
  compaction; start-up, locks and logging. Of the modelled parts: timers, counters of the metrics page, log lines,
  cookies and HTML, the encryption of settings, and the mutexes, taken as atomicity.
\<close>

end
